(* ===== verification/BR_Prelude.thy ===== *)
theory BR_Prelude
  imports Main "HOL-Library.Word" "HOL-Library.Sublist"
begin

text \<open>
  What every component of the development shares: C strings and buffers as lists of
  \<^typ>\<open>char\<close> (a \<^typ>\<open>char\<close> is one byte), the character classes and string functions of the
  C library in the "C" locale that the sources call, decimal and hexadecimal printing and
  parsing, and the generic list lemmas the component proofs rest on.

  A NUL-terminated C string is the list of its bytes before the NUL; a buffer with an
  explicit length is a list that may hold any byte, and \<open>cstr\<close> is what a string function
  sees of it. A copy into a fixed array of \<open>n\<close> bytes (snprintf, strncpy plus the final
  NUL) is \<open>fit n\<close>: it keeps at most \<open>n - 1\<close> bytes.
\<close>

named_theorems cstring \<open>facts about the C string functions\<close>

subsection \<open>Bytes and character classes\<close>

type_synonym byte = "8 word"

abbreviation ord :: "char \<Rightarrow> nat" where
  "ord \<equiv> of_char"

abbreviation NUL :: char where "NUL \<equiv> CHR 0x00"
abbreviation TAB :: char where "TAB \<equiv> CHR 0x09"
abbreviation LF :: char where "LF \<equiv> CHR 0x0A"
abbreviation CR :: char where "CR \<equiv> CHR 0x0D"
abbreviation DQ :: char where "DQ \<equiv> CHR 0x22"
abbreviation SQ :: char where "SQ \<equiv> CHR 0x27"
abbreviation BSL :: char where "BSL \<equiv> CHR 0x5C"
abbreviation CRLF :: string where "CRLF \<equiv> [CR, LF]"

definition chr :: "nat \<Rightarrow> char" where
  "chr n = char_of n"

definition isdigit :: "char \<Rightarrow> bool" where
  "isdigit c \<longleftrightarrow> 48 \<le> ord c \<and> ord c \<le> 57"

definition isupper :: "char \<Rightarrow> bool" where
  "isupper c \<longleftrightarrow> 65 \<le> ord c \<and> ord c \<le> 90"

definition islower :: "char \<Rightarrow> bool" where
  "islower c \<longleftrightarrow> 97 \<le> ord c \<and> ord c \<le> 122"

definition isalpha :: "char \<Rightarrow> bool" where
  "isalpha c \<longleftrightarrow> isupper c \<or> islower c"

definition isalnum :: "char \<Rightarrow> bool" where
  "isalnum c \<longleftrightarrow> isalpha c \<or> isdigit c"

definition isxdigit :: "char \<Rightarrow> bool" where
  "isxdigit c \<longleftrightarrow> isdigit c \<or> (65 \<le> ord c \<and> ord c \<le> 70) \<or> (97 \<le> ord c \<and> ord c \<le> 102)"

definition isspace :: "char \<Rightarrow> bool" where
  "isspace c \<longleftrightarrow> ord c = 32 \<or> (9 \<le> ord c \<and> ord c \<le> 13)"

definition tolower :: "char \<Rightarrow> char" where
  "tolower c = (if isupper c then chr (ord c + 32) else c)"

definition toupper :: "char \<Rightarrow> char" where
  "toupper c = (if islower c then chr (ord c - 32) else c)"

lemmas ctype_defs =
  isdigit_def isupper_def islower_def isalpha_def isalnum_def isxdigit_def isspace_def

lemma ord_less_256 [simp]: "ord c < 256"
proof -
  have "ord c \<in> range (of_char :: char \<Rightarrow> nat)" by blast
  then show ?thesis by (simp add: range_nat_of_char)
qed

lemma ord_chr [simp]: "n < 256 \<Longrightarrow> ord (chr n) = n"
  by (simp add: chr_def)

lemma chr_ord [simp]: "chr (ord c) = c"
  by (simp add: chr_def)

lemma ord_inject [simp]: "ord c = ord d \<longleftrightarrow> c = d"
  by (metis chr_ord)

subsection \<open>Searching\<close>

text \<open>\<open>strchr\<close>/\<open>memchr\<close>: the index of the first occurrence of a byte.\<close>

fun strchr :: "'a list \<Rightarrow> 'a \<Rightarrow> nat option" where
  "strchr [] c = None"
| "strchr (x # xs) c = (if x = c then Some 0 else map_option Suc (strchr xs c))"

text \<open>\<open>strstr\<close>/\<open>memmem\<close>: the index of the first occurrence of a needle.\<close>

fun strstr :: "'a list \<Rightarrow> 'a list \<Rightarrow> nat option" where
  "strstr [] n = (if n = [] then Some 0 else None)"
| "strstr (x # xs) n = (if prefix n (x # xs) then Some 0 else map_option Suc (strstr xs n))"

definition contains :: "'a list \<Rightarrow> 'a list \<Rightarrow> bool" where
  "contains s n \<longleftrightarrow> strstr s n \<noteq> None"

text \<open>\<open>strrchr\<close>: the index of the last occurrence of a byte.\<close>

definition strrchr :: "'a list \<Rightarrow> 'a \<Rightarrow> nat option" where
  "strrchr s c = map_option (\<lambda>k. length s - 1 - k) (strchr (rev s) c)"

lemma strchr_None [cstring]: "strchr s c = None \<longleftrightarrow> c \<notin> set s"
  by (induction s) auto

lemma strchr_Some [cstring]:
  "strchr s c = Some i \<longleftrightarrow> i < length s \<and> s ! i = c \<and> c \<notin> set (take i s)"
proof (induction s arbitrary: i)
  case (Cons x xs)
  then show ?case by (cases i) auto
qed simp

lemma strchr_takeWhile: "strchr s c = Some i \<Longrightarrow> take i s = takeWhile (\<lambda>x. x \<noteq> c) s"
  by (induction s arbitrary: i) (auto split: if_splits)

lemma strchr_append:
  "strchr (s @ t) c = (case strchr s c of Some i \<Rightarrow> Some i
     | None \<Rightarrow> map_option (\<lambda>j. length s + j) (strchr t c))"
  by (induction s) (cases "strchr t c"; auto split: option.splits)+

lemma strchr_here: "c \<notin> set w \<Longrightarrow> strchr (w @ c # t) c = Some (length w)"
  by (induction w) auto

lemma strstr_Some_prefix: "strstr s n = Some i \<Longrightarrow> prefix n (drop i s) \<and> i \<le> length s"
  by (induction s arbitrary: i) (auto split: if_splits)

lemma strstr_least: "strstr s n = Some i \<Longrightarrow> j < i \<Longrightarrow> \<not> prefix n (drop j s)"
proof (induction s arbitrary: i j)
  case (Cons x xs)
  then show ?case by (cases j) (auto split: if_splits)
qed (simp split: if_splits)

lemma strstr_None: "strstr s n = None \<Longrightarrow> \<not> prefix n (drop j s)"
proof (induction s arbitrary: j)
  case (Cons x xs)
  then show ?case by (cases j) (auto split: if_splits)
qed (simp split: if_splits)

lemma strstr_Some_iff [cstring]:
  "strstr s n = Some i \<longleftrightarrow> i \<le> length s \<and> prefix n (drop i s) \<and> (\<forall>j<i. \<not> prefix n (drop j s))"
proof
  assume "strstr s n = Some i"
  then show "i \<le> length s \<and> prefix n (drop i s) \<and> (\<forall>j<i. \<not> prefix n (drop j s))"
    using strstr_Some_prefix strstr_least by blast
next
  assume i: "i \<le> length s \<and> prefix n (drop i s) \<and> (\<forall>j<i. \<not> prefix n (drop j s))"
  then obtain k where k: "strstr s n = Some k"
    by (cases "strstr s n") (auto dest: strstr_None)
  from strstr_Some_prefix [OF k] strstr_least [OF k] i have "k = i"
    by (meson linorder_neqE_nat)
  with k show "strstr s n = Some i" by simp
qed

lemma strstr_length: "strstr s n = Some i \<Longrightarrow> i + length n \<le> length s"
  by (drule strstr_Some_prefix) (auto dest!: prefix_length_le)

lemma strstr_rest_shorter:
  assumes "strstr p n = Some i" "n \<noteq> []"
  shows "length (drop (i + length n) p) < length p"
proof -
  have "0 < length n" using assms(2) by simp
  with strstr_length [OF assms(1)] show ?thesis unfolding length_drop by linarith
qed

lemma prefix_append_short: "prefix n (s @ t) \<Longrightarrow> length n \<le> length s \<Longrightarrow> prefix n s"
  by (auto simp: prefix_append)

lemma strstr_append: "strstr s n = Some i \<Longrightarrow> strstr (s @ t) n = Some i"
proof -
  assume i: "strstr s n = Some i"
  then have p: "prefix n (drop i s)" "i \<le> length s" and least: "\<forall>j<i. \<not> prefix n (drop j s)"
    by (simp_all add: strstr_Some_iff)
  from i have len: "i + length n \<le> length s" by (rule strstr_length)
  have "\<not> prefix n (drop j (s @ t))" if "j < i" for j
  proof
    assume "prefix n (drop j (s @ t))"
    then have "prefix n (drop j s @ drop (j - length s) t)" by simp
    then have "prefix n (drop j s)" by (rule prefix_append_short) (use len that in simp)
    with least that show False by blast
  qed
  with p show ?thesis by (simp add: strstr_Some_iff)
qed

lemma strstr_skip:
  "c \<notin> set w \<Longrightarrow> strstr (w @ s) (c # n) = map_option (\<lambda>i. length w + i) (strstr s (c # n))"
proof (induction w)
  case Nil
  then show ?case by (simp add: option.map_ident)
next
  case (Cons x w)
  then show ?case by (auto simp: option.map_comp comp_def)
qed

lemma run_until:
  assumes "c \<notin> set s"
  shows "takeWhile (\<lambda>x. x \<noteq> c) (s @ c # r) = s" "dropWhile (\<lambda>x. x \<noteq> c) (s @ c # r) = c # r"
proof -
  have "\<And>x. x \<in> set s \<Longrightarrow> x \<noteq> c" using assms by blast
  then show "takeWhile (\<lambda>x. x \<noteq> c) (s @ c # r) = s" "dropWhile (\<lambda>x. x \<noteq> c) (s @ c # r) = c # r"
    by (simp_all add: takeWhile_append2 dropWhile_append2)
qed

lemma strstr_after_sep:
  assumes "strstr u n = None" "c \<notin> set n"
  shows "strstr (u @ c # n @ t) n = Some (Suc (length u))"
proof -
  have "\<not> prefix n (drop j (u @ c # n @ t))" if "j < Suc (length u)" for j
  proof
    assume "prefix n (drop j (u @ c # n @ t))"
    then have p: "prefix n (drop j u @ c # n @ t)" using that by simp
    show False
    proof (cases "length n \<le> length (drop j u)")
      case True
      then show False using prefix_append_short [OF p] strstr_None [OF assms(1), of j] by simp
    next
      case False
      then have "n ! length (drop j u) = (drop j u @ c # n @ t) ! length (drop j u)"
        using p unfolding prefix_def by (metis not_le nth_append)
      then have "n ! length (drop j u) = c" by (simp only: nth_append_length)
      then show False using False assms(2) nth_mem [of "length (drop j u)" n] by (metis not_le)
    qed
  qed
  then show ?thesis by (simp add: strstr_Some_iff)
qed

lemma contains_iff [cstring]: "contains s n \<longleftrightarrow> (\<exists>a b. s = a @ n @ b)"
proof
  assume "contains s n"
  then obtain i where "strstr s n = Some i" by (auto simp: contains_def)
  then have "prefix n (drop i s)" by (simp add: strstr_Some_prefix)
  then obtain b where "drop i s = n @ b" by (auto simp: prefix_def)
  then have "s = take i s @ n @ b" by (metis append_take_drop_id)
  then show "\<exists>a b. s = a @ n @ b" by blast
next
  assume "\<exists>a b. s = a @ n @ b"
  then obtain a b where "s = a @ n @ b" by blast
  then have "prefix n (drop (length a) s)" by simp
  then show "contains s n" by (metis contains_def strstr_None)
qed

subsection \<open>Strings, buffers and comparison\<close>

definition cstr :: "string \<Rightarrow> string" where
  "cstr b = takeWhile (\<lambda>c. c \<noteq> NUL) b"

definition fit :: "nat \<Rightarrow> string \<Rightarrow> string" where
  "fit n s = take (n - 1) s"

lemma fit_length [simp]: "0 < n \<Longrightarrow> length (fit n s) < n"
  by (auto simp: fit_def)

lemma fit_id: "length s < n \<Longrightarrow> fit n s = s"
  by (simp add: fit_def)

lemma list_all_fit: "list_all P s \<Longrightarrow> list_all P (fit n s)"
  unfolding fit_def by (auto simp: list_all_iff dest: in_set_takeD)

lemma NUL_notin_cstr [simp]: "NUL \<notin> set (cstr b)"
  by (auto simp: cstr_def dest: set_takeWhileD)

lemma cstr_id: "NUL \<notin> set s \<Longrightarrow> cstr s = s"
  unfolding cstr_def by (rule takeWhile_eq_all_conv [THEN iffD2]) auto

text \<open>\<open>strcasecmp\<close> = 0, and \<open>strncasecmp\<close> with a literal and its length.\<close>

definition eq_ci :: "string \<Rightarrow> string \<Rightarrow> bool" where
  "eq_ci s t \<longleftrightarrow> map tolower s = map tolower t"

definition prefix_ci :: "string \<Rightarrow> string \<Rightarrow> bool" where
  "prefix_ci p s \<longleftrightarrow> prefix (map tolower p) (map tolower s)"

lemma eq_ci_refl [simp]: "eq_ci s s"
  by (simp add: eq_ci_def)

lemma length_dropWhile_Suc [termination_simp]: "length (dropWhile P xs) < Suc (length xs)"
  by (simp add: le_imp_less_Suc length_dropWhile_le)

text \<open>\<open>strtok_r\<close> over a set of delimiters: the maximal runs of other bytes.\<close>

fun strtok :: "(char \<Rightarrow> bool) \<Rightarrow> string \<Rightarrow> string list" where
  "strtok d [] = []"
| "strtok d (c # cs) =
     (if d c then strtok d cs
      else (c # takeWhile (\<lambda>x. \<not> d x) cs) # strtok d (dropWhile (\<lambda>x. \<not> d x) cs))"

lemma strtok_no_delim: "w \<in> set (strtok d s) \<Longrightarrow> w \<noteq> [] \<and> (\<forall>c\<in>set w. \<not> d c \<and> c \<in> set s)"
proof (induction d s rule: strtok.induct)
  case (2 d c cs)
  have tw: "\<And>x. x \<in> set (takeWhile (\<lambda>x. \<not> d x) cs) \<Longrightarrow> x \<in> set cs \<and> \<not> d x"
    by (rule set_takeWhileD)
  have dw: "\<And>x. x \<in> set (dropWhile (\<lambda>x. \<not> d x) cs) \<Longrightarrow> x \<in> set cs"
    by (rule set_dropWhileD)
  consider "d c" | "\<not> d c" "w = c # takeWhile (\<lambda>x. \<not> d x) cs"
    | "\<not> d c" "w \<in> set (strtok d (dropWhile (\<lambda>x. \<not> d x) cs))"
    using "2.prems" by (cases "d c") auto
  then show ?case
  proof cases
    case 1 with 2 show ?thesis by simp
  next
    case 2 with tw show ?thesis by simp
  next
    case 3 with "2.IH"(2) dw show ?thesis by simp
  qed
qed simp

lemma strtok_plain: "w \<noteq> [] \<Longrightarrow> \<forall>c\<in>set w. \<not> d c \<Longrightarrow> strtok d w = [w]"
proof (cases w)
  case (Cons c cs)
  moreover assume "\<forall>c\<in>set w. \<not> d c"
  moreover from calculation have "takeWhile (\<lambda>x. \<not> d x) cs = cs" "dropWhile (\<lambda>x. \<not> d x) cs = []"
    by (auto simp: takeWhile_eq_all_conv dropWhile_eq_Nil_conv)
  ultimately show ?thesis by (simp del: dropWhile_eq_Nil_conv)
qed simp

lemma strtok_sep:
  assumes "w \<noteq> []" "\<forall>c\<in>set w. \<not> d c" "d x"
  shows "strtok d (w @ x # s) = w # strtok d s"
proof (cases w)
  case (Cons c cs)
  with assms have "\<not> d c" "\<forall>y\<in>set cs. \<not> d y" by auto
  then show ?thesis
    using Cons assms(3) by (simp add: takeWhile_append2 dropWhile_append3)
qed (use assms in simp)

lemma strtok_delims: "\<forall>c\<in>set ds. d c \<Longrightarrow> strtok d (ds @ s) = strtok d s"
  by (induction ds) auto

text \<open>Splitting on every occurrence of one byte (empty fields kept).\<close>

fun split_on :: "'a \<Rightarrow> 'a list \<Rightarrow> 'a list list" where
  "split_on c [] = [[]]"
| "split_on c (x # xs) =
     (if x = c then [] # split_on c xs
      else case split_on c xs of [] \<Rightarrow> [[x]] | w # ws \<Rightarrow> (x # w) # ws)"

lemma split_on_not_Nil [simp]: "split_on c s \<noteq> []"
  by (induction s) (auto split: list.splits)

lemma split_on_no_sep: "c \<notin> set s \<Longrightarrow> split_on c s = [s]"
  by (induction s) auto

lemma split_on_append: "c \<notin> set s \<Longrightarrow> split_on c (s @ c # t) = s # split_on c t"
  by (induction s) auto

lemma split_on_fields: "w \<in> set (split_on c s) \<Longrightarrow> c \<notin> set w"
proof (induction s arbitrary: w)
  case (Cons x xs)
  then show ?case by (cases "split_on c xs") (auto split: if_splits)
qed simp

fun join_with :: "'a \<Rightarrow> 'a list list \<Rightarrow> 'a list" where
  "join_with c [] = []"
| "join_with c [w] = w"
| "join_with c (w # ws) = w @ c # join_with c ws"

lemma join_split [simp]: "join_with c (split_on c s) = s"
proof (induction s)
  case (Cons x xs)
  obtain w ws where "split_on c xs = w # ws"
    by (cases "split_on c xs") auto
  with Cons show ?case by (cases ws) auto
qed simp

subsection \<open>Numbers as text\<close>

text \<open>\<open>%d\<close> of a non-negative value, and the value of a run of decimal digits.\<close>

fun show_nat :: "nat \<Rightarrow> string" where
  "show_nat n = (if n < 10 then [chr (48 + n)] else show_nat (n div 10) @ [chr (48 + n mod 10)])"

declare show_nat.simps [simp del]

definition show_int :: "int \<Rightarrow> string" where
  "show_int i = (if i < 0 then CHR ''-'' # show_nat (nat (- i)) else show_nat (nat i))"

definition dec_value :: "string \<Rightarrow> nat" where
  "dec_value s = foldl (\<lambda>v c. v * 10 + (ord c - 48)) 0 s"

lemma dec_value_snoc [simp]: "dec_value (s @ [c]) = dec_value s * 10 + (ord c - 48)"
  by (simp add: dec_value_def)

lemma dec_value_Nil [simp]: "dec_value [] = 0"
  by (simp add: dec_value_def)

lemma isdigit_chr [simp]: "n < 10 \<Longrightarrow> isdigit (chr (48 + n))"
  by (simp add: isdigit_def)

lemma show_nat_digits: "c \<in> set (show_nat n) \<Longrightarrow> isdigit c"
proof (induction n rule: show_nat.induct)
  case (1 n)
  then show ?case
    by (subst (asm) (2) show_nat.simps) (auto split: if_splits)
qed

lemma show_nat_not_Nil [simp]: "show_nat n \<noteq> []"
  by (subst show_nat.simps) simp

lemma dec_value_show_nat [simp]: "dec_value (show_nat n) = n"
proof (induction n rule: show_nat.induct)
  case (1 n)
  show ?case
  proof (cases "n < 10")
    case True
    then show ?thesis
      by (subst show_nat.simps) (simp add: dec_value_def)
  next
    case False
    with 1 show ?thesis
      by (subst show_nat.simps) simp
  qed
qed

lemma length_show_nat: "n < 10 ^ k \<Longrightarrow> 0 < k \<Longrightarrow> length (show_nat n) \<le> k"
proof (induction n arbitrary: k rule: show_nat.induct)
  case (1 n)
  show ?case
  proof (cases "n < 10")
    case True
    with 1 show ?thesis by (subst show_nat.simps) simp
  next
    case False
    with "1.prems" obtain j where k: "k = Suc j" and j: "0 < j"
      by (cases k; cases "k - 1") auto
    from "1.prems" k have "n div 10 < 10 ^ j"
      by (simp add: less_mult_imp_div_less mult.commute)
    with False 1 j have "length (show_nat (n div 10)) \<le> j" by blast
    with False k show ?thesis by (subst show_nat.simps) simp
  qed
qed

lemma show_nat_hd: "0 < n \<Longrightarrow> hd (show_nat n) \<noteq> CHR ''0''"
proof (induction n rule: show_nat.induct)
  case (1 n)
  show ?case
  proof (cases "n < 10")
    case True
    then have "chr (48 + n) \<noteq> CHR ''0''"
      using ord_chr [of "48 + n"] \<open>0 < n\<close> by (auto dest: arg_cong [where f = ord])
    with True show ?thesis by (subst show_nat.simps) simp
  next
    case False
    with 1 have "hd (show_nat (n div 10)) \<noteq> CHR ''0''" by simp
    with False show ?thesis by (subst show_nat.simps) simp
  qed
qed

text \<open>\<open>strtol\<close> in base ten: the value, kept within a long, and where it stops.\<close>

definition strtol10 :: "string \<Rightarrow> int \<times> string" where
  "strtol10 s =
     (let t = dropWhile isspace s;
          neg = (t \<noteq> [] \<and> hd t = CHR ''-'');
          u = (if t \<noteq> [] \<and> (hd t = CHR ''-'' \<or> hd t = CHR ''+'') then tl t else t);
          ds = takeWhile isdigit u;
          v = int (dec_value ds)
      in if ds = [] then (0, s)
         else (if neg then max (- v) (- 9223372036854775808) else min v 9223372036854775807, dropWhile isdigit u))"

text \<open>
  \<open>atoi\<close> as the C library has it: the value of \<open>strtol\<close>, which stays within a 64-bit long, cast
  to a 32-bit int.
\<close>

definition to_int32 :: "int \<Rightarrow> int" where
  "to_int32 v = (v + 2147483648) mod 4294967296 - 2147483648"

definition atoi :: "string \<Rightarrow> int" where
  "atoi s =
     (let t = dropWhile isspace s;
          neg = (t \<noteq> [] \<and> hd t = CHR ''-'');
          u = (if t \<noteq> [] \<and> (hd t = CHR ''-'' \<or> hd t = CHR ''+'') then tl t else t);
          v = int (dec_value (takeWhile isdigit u))
      in to_int32 (if neg then max (- v) (- 9223372036854775808) else min v 9223372036854775807))"

lemma atoi_show: "n < 2147483648 \<Longrightarrow> atoi (show_nat n) = int n"
proof -
  assume n: "n < 2147483648"
  have d: "\<forall>c\<in>set (show_nat n). isdigit c" using show_nat_digits by blast
  obtain c s where cs: "show_nat n = c # s" using show_nat_not_Nil [of n] by (cases "show_nat n") auto
  have c: "isdigit c" using d cs by simp
  then have ns: "\<not> isspace c" "c \<noteq> CHR ''-''" "c \<noteq> CHR ''+''" by (auto simp: ctype_defs)
  have "takeWhile isdigit (show_nat n) = show_nat n" using d by (simp add: takeWhile_eq_all_conv)
  then have "atoi (show_nat n) = to_int32 (min (int n) 9223372036854775807)"
    using ns dec_value_show_nat [of n] unfolding atoi_def cs by (simp add: Let_def cs)
  then show ?thesis using n by (simp add: to_int32_def)
qed

lemma atoi_range: "- 2147483648 \<le> atoi s \<and> atoi s < 2147483648"
proof -
  have "- 2147483648 \<le> to_int32 v \<and> to_int32 v < 2147483648" for v
    using pos_mod_bound [of 4294967296 "v + 2147483648"] pos_mod_sign [of 4294967296 "v + 2147483648"]
    by (simp add: to_int32_def)
  then show ?thesis unfolding atoi_def Let_def by blast
qed

subsection \<open>UTF-8\<close>

text \<open>How many bytes follow a first byte, from its leading bits.\<close>

definition utf8_more :: "char \<Rightarrow> nat option" where
  "utf8_more c =
     (if ord c < 128 then Some 0 else if ord c div 32 = 6 then Some 1 else if ord c div 16 = 14 then Some 2
      else if ord c div 8 = 30 then Some 3 else None)"

definition utf8_cont :: "char \<Rightarrow> bool" where
  "utf8_cont c \<longleftrightarrow> ord c div 64 = 2"

fun valid_utf8 :: "string \<Rightarrow> bool" where
  "valid_utf8 [] \<longleftrightarrow> True"
| "valid_utf8 (c # r) \<longleftrightarrow>
     (case utf8_more c of
        None \<Rightarrow> False
      | Some n \<Rightarrow> n \<le> length r \<and> list_all utf8_cont (take n r) \<and> valid_utf8 (drop n r))"

end
