(* ===== verification/Detect_Epoch.thy ===== *)
theory Detect_Epoch
  imports BR_Prelude
begin

text \<open>
  The classification of browsers into epochs (src/src/utils/detect_epoch.c): the factory rules
  and cases as data, the validation of a rule set, the classification of a User-Agent by the
  first rule that matches, and the active rule set that every request is classified by. A
  character array holds the bytes before its NUL, or all its bytes when it has none, so
  \<open>has_nul\<close> is a bound on the length.
\<close>

subsection \<open>Data\<close>

definition EPOCH_WML :: int where "EPOCH_WML = -1"
definition EPOCH_PRESTANDARD :: int where "EPOCH_PRESTANDARD = 0"
definition EPOCH_EARLY :: int where "EPOCH_EARLY = 1"
definition EPOCH_MIDDLE :: int where "EPOCH_MIDDLE = 2"
definition EPOCH_MODERN :: int where "EPOCH_MODERN = 3"

lemmas epoch_defs = EPOCH_WML_def EPOCH_PRESTANDARD_def EPOCH_EARLY_def EPOCH_MIDDLE_def EPOCH_MODERN_def

definition BROWSER_NAME_MAX :: nat where "BROWSER_NAME_MAX = 64"
definition BROWSER_TOKEN_MAX :: nat where "BROWSER_TOKEN_MAX = 64"
definition BROWSER_VERSION_MAX :: nat where "BROWSER_VERSION_MAX = 16"
definition BROWSER_UA_MAX :: nat where "BROWSER_UA_MAX = 1024"
definition BROWSER_TOKENS_MAX :: nat where "BROWSER_TOKENS_MAX = 32"
definition BROWSER_TIERS_MAX :: nat where "BROWSER_TIERS_MAX = 8"
definition BROWSER_RULES_MAX :: nat where "BROWSER_RULES_MAX = 64"
definition BROWSER_CASES_MAX :: nat where "BROWSER_CASES_MAX = 300"

record BrowserTier =
  tier_from :: string
  tier_epoch :: int
  tier_dashboard :: bool

record BrowserRule =
  rule_name :: string
  enabled :: bool
  contains_tokens :: "string list"
  excludes_tokens :: "string list"
  version_after :: string
  tiers :: "BrowserTier list"
  rule_epoch :: int
  rule_dashboard :: bool

record BrowserCase =
  case_name :: string
  user_agent :: string
  case_epoch :: int
  case_dashboard :: bool

record BrowserDetection =
  fallback_epoch :: int
  rules :: "BrowserRule list"
  cases :: "BrowserCase list"

record BrowserMatch =
  match_epoch :: int
  match_dashboard :: bool
  match_rule :: int

subsection \<open>Factory rules\<close>

definition FACTORY_RULES :: "BrowserRule list" where
  "FACTORY_RULES = [
      \<lparr>rule_name = ''WAP 1.x'', enabled = True,
       contains_tokens = [''Wap'', ''WAP'', ''Nokia'', ''nokia'', ''UP.Browser'', ''UP/'',
                          ''Obigo'', ''Ericsson'', ''SIE-'', ''SEC-'', ''MOT-'', ''LG-'',
                          ''Alcatel'', ''Panasonic'', ''SANYO'', ''SHARP'', ''PHILIPS''],
       excludes_tokens = [''AppleWebKit'', ''UP.Browser/3'', ''UP/3''],
       version_after = [],
       tiers = [],
       rule_epoch = EPOCH_WML, rule_dashboard = False\<rparr>,
      \<lparr>rule_name = ''Text browsers'', enabled = True,
       contains_tokens = [''Lynx'', ''Cello'', ''Line Mode Browser'', ''LineMode'', ''ELinks'',
                          ''w3m''],
       excludes_tokens = [],
       version_after = [],
       tiers = [],
       rule_epoch = EPOCH_PRESTANDARD, rule_dashboard = False\<rparr>,
      \<lparr>rule_name = ''Internet Explorer'', enabled = True,
       contains_tokens = [''MSIE ''],
       excludes_tokens = [],
       version_after = ''MSIE '',
       tiers = [\<lparr>tier_from = ''4'', tier_epoch = EPOCH_MIDDLE, tier_dashboard = False\<rparr>],
       rule_epoch = EPOCH_EARLY, rule_dashboard = False\<rparr>,
      \<lparr>rule_name = ''Internet Explorer 11'', enabled = True,
       contains_tokens = [''Trident/''],
       excludes_tokens = [],
       version_after = [],
       tiers = [],
       rule_epoch = EPOCH_MIDDLE, rule_dashboard = False\<rparr>,
      \<lparr>rule_name = ''EdgeHTML'', enabled = True,
       contains_tokens = [''Edge/''],
       excludes_tokens = [],
       version_after = [],
       tiers = [],
       rule_epoch = EPOCH_MIDDLE, rule_dashboard = False\<rparr>,
      \<lparr>rule_name = ''iOS'', enabled = True,
       contains_tokens = [''iPhone'', ''iPad'', ''iPod''],
       excludes_tokens = [],
       version_after = '' OS '',
       tiers = [\<lparr>tier_from = ''14.5'', tier_epoch = EPOCH_MODERN, tier_dashboard = False\<rparr>, \<lparr>tier_from = ''16.2'', tier_epoch = EPOCH_MODERN, tier_dashboard = True\<rparr>],
       rule_epoch = EPOCH_MIDDLE, rule_dashboard = False\<rparr>,
      \<lparr>rule_name = ''Firefox'', enabled = True,
       contains_tokens = [''Firefox/''],
       excludes_tokens = [],
       version_after = ''Firefox/'',
       tiers = [\<lparr>tier_from = ''66'', tier_epoch = EPOCH_MODERN, tier_dashboard = False\<rparr>, \<lparr>tier_from = ''121'', tier_epoch = EPOCH_MODERN, tier_dashboard = True\<rparr>],
       rule_epoch = EPOCH_MIDDLE, rule_dashboard = False\<rparr>,
      \<lparr>rule_name = ''Chrome'', enabled = True,
       contains_tokens = [''Chrome/''],
       excludes_tokens = [],
       version_after = ''Chrome/'',
       tiers = [\<lparr>tier_from = ''87'', tier_epoch = EPOCH_MODERN, tier_dashboard = False\<rparr>, \<lparr>tier_from = ''111'', tier_epoch = EPOCH_MODERN, tier_dashboard = True\<rparr>],
       rule_epoch = EPOCH_MIDDLE, rule_dashboard = False\<rparr>,
      \<lparr>rule_name = ''Safari'', enabled = True,
       contains_tokens = [''Safari/''],
       excludes_tokens = [],
       version_after = ''Version/'',
       tiers = [\<lparr>tier_from = ''14.1'', tier_epoch = EPOCH_MODERN, tier_dashboard = False\<rparr>, \<lparr>tier_from = ''16.2'', tier_epoch = EPOCH_MODERN, tier_dashboard = True\<rparr>],
       rule_epoch = EPOCH_MIDDLE, rule_dashboard = False\<rparr>,
      \<lparr>rule_name = ''Opera (Presto)'', enabled = True,
       contains_tokens = [''Opera/''],
       excludes_tokens = [],
       version_after = ''Opera/'',
       tiers = [\<lparr>tier_from = ''5'', tier_epoch = EPOCH_MIDDLE, tier_dashboard = False\<rparr>],
       rule_epoch = EPOCH_EARLY, rule_dashboard = False\<rparr>,
      \<lparr>rule_name = ''Netscape'', enabled = True,
       contains_tokens = [''Netscape''],
       excludes_tokens = [],
       version_after = ''Netscape'',
       tiers = [\<lparr>tier_from = ''4'', tier_epoch = EPOCH_MIDDLE, tier_dashboard = False\<rparr>],
       rule_epoch = EPOCH_EARLY, rule_dashboard = False\<rparr>,
      \<lparr>rule_name = ''Mosaic'', enabled = True,
       contains_tokens = [''Mosaic''],
       excludes_tokens = [],
       version_after = [],
       tiers = [],
       rule_epoch = EPOCH_EARLY, rule_dashboard = False\<rparr>,
      \<lparr>rule_name = ''Generic Mozilla'', enabled = True,
       contains_tokens = [''Mozilla/''],
       excludes_tokens = [],
       version_after = ''Mozilla/'',
       tiers = [\<lparr>tier_from = ''3'', tier_epoch = EPOCH_MIDDLE, tier_dashboard = False\<rparr>],
       rule_epoch = EPOCH_EARLY, rule_dashboard = False\<rparr>]"

definition FACTORY_FALLBACK_EPOCH :: int where
  "FACTORY_FALLBACK_EPOCH = EPOCH_EARLY"

definition FACTORY_CASES :: "BrowserCase list" where
  "FACTORY_CASES = [
      \<lparr>case_name = ''No User-Agent'',
       user_agent = [],
       case_epoch = EPOCH_EARLY, case_dashboard = False\<rparr>,
      \<lparr>case_name = ''Unknown token'',
       user_agent = ''SomeBot'',
       case_epoch = EPOCH_EARLY, case_dashboard = False\<rparr>,
      \<lparr>case_name = ''Nokia 7110'',
       user_agent = ''Nokia7110/1.0 (05.01)'',
       case_epoch = EPOCH_WML, case_dashboard = False\<rparr>,
      \<lparr>case_name = ''UP.Browser 4'',
       user_agent = ''SIE-S35/1.0 UP/4.1.8c UP.Browser/4.1.8c-XXXX UP.Link/4.2.2.1'',
       case_epoch = EPOCH_WML, case_dashboard = False\<rparr>,
      \<lparr>case_name = ''Ericsson R380'',
       user_agent = ''R380 2.0 WAP1.1'',
       case_epoch = EPOCH_WML, case_dashboard = False\<rparr>,
      \<lparr>case_name = ''UP.Browser 3 (HDML only, not served)'',
       user_agent = ''UP.Browser/3.1-UPG1 UP.Link/3.2'',
       case_epoch = EPOCH_EARLY, case_dashboard = False\<rparr>,
      \<lparr>case_name = ''UP.Browser 6.1'',
       user_agent = ''SAMSUNG-SGH-E700/BSI UP.Browser/6.1.0.6 (GUI) MMP/1.0'',
       case_epoch = EPOCH_WML, case_dashboard = False\<rparr>,
      \<lparr>case_name = ''Nokia 6233, UC Browser'',
       user_agent = ''nokia6233/2.0 (05.60) Profile/MIDP-2.0 Configuration/CLDC-1.1 UCWEB/7.9'',
       case_epoch = EPOCH_WML, case_dashboard = False\<rparr>,
      \<lparr>case_name = ''Nokia Android (WebKit, not WAP)'',
       user_agent = ''Mozilla/5.0 (Linux; Android 13; Nokia G21) AppleWebKit/537.36 (KHTML, like Gecko) Chrome/120.0.0.0 Mobile Safari/537.36'',
       case_epoch = EPOCH_MODERN, case_dashboard = True\<rparr>,
      \<lparr>case_name = ''Lynx'',
       user_agent = ''Lynx/2.9.0dev.12 libwww-FM/2.14 SSL-MM/1.4.1 GNUTLS/3.7.8'',
       case_epoch = EPOCH_PRESTANDARD, case_dashboard = False\<rparr>,
      \<lparr>case_name = ''w3m'',
       user_agent = ''w3m/0.5.3+git20230121'',
       case_epoch = EPOCH_PRESTANDARD, case_dashboard = False\<rparr>,
      \<lparr>case_name = ''CERN Line Mode Browser 2.15'',
       user_agent = ''LineMode/2.15 libwww/2.17b3'',
       case_epoch = EPOCH_PRESTANDARD, case_dashboard = False\<rparr>,
      \<lparr>case_name = ''W3C Line Mode Browser 5.4'',
       user_agent = ''W3CLineMode/5.4.0 libwww/5.4.0'',
       case_epoch = EPOCH_PRESTANDARD, case_dashboard = False\<rparr>,
      \<lparr>case_name = ''ELinks'',
       user_agent = ''ELinks/0.13.2 (textmode; Linux 6.1.0 x86_64; 80x24-2)'',
       case_epoch = EPOCH_PRESTANDARD, case_dashboard = False\<rparr>,
      \<lparr>case_name = ''NCSA Mosaic 2.1'',
       user_agent = ''NCSA_Mosaic/2.1 (Windows x86)'',
       case_epoch = EPOCH_EARLY, case_dashboard = False\<rparr>,
      \<lparr>case_name = ''Netscape 2'',
       user_agent = ''Mozilla/2.02 (Win95; I)'',
       case_epoch = EPOCH_EARLY, case_dashboard = False\<rparr>,
      \<lparr>case_name = ''Netscape 3'',
       user_agent = ''Mozilla/3.01 (Win95; I)'',
       case_epoch = EPOCH_MIDDLE, case_dashboard = False\<rparr>,
      \<lparr>case_name = ''Netscape 4.79'',
       user_agent = ''Mozilla/4.79 [en] (X11; U; Linux 2.4.20 i686)'',
       case_epoch = EPOCH_MIDDLE, case_dashboard = False\<rparr>,
      \<lparr>case_name = ''Netscape 7'',
       user_agent = ''Mozilla/5.0 (Windows; U; Windows NT 5.1; en-US; rv:1.4) Gecko/20030624 Netscape/7.1'',
       case_epoch = EPOCH_MIDDLE, case_dashboard = False\<rparr>,
      \<lparr>case_name = ''MSIE 3'',
       user_agent = ''Mozilla/2.0 (compatible; MSIE 3.02; Windows 95)'',
       case_epoch = EPOCH_EARLY, case_dashboard = False\<rparr>,
      \<lparr>case_name = ''MSIE 4'',
       user_agent = ''Mozilla/4.0 (compatible; MSIE 4.01; Windows 98)'',
       case_epoch = EPOCH_MIDDLE, case_dashboard = False\<rparr>,
      \<lparr>case_name = ''MSIE 6'',
       user_agent = ''Mozilla/4.0 (compatible; MSIE 6.0; Windows NT 5.1; SV1)'',
       case_epoch = EPOCH_MIDDLE, case_dashboard = False\<rparr>,
      \<lparr>case_name = ''IE 11'',
       user_agent = ''Mozilla/5.0 (Windows NT 10.0; Trident/7.0; rv:11.0) like Gecko'',
       case_epoch = EPOCH_MIDDLE, case_dashboard = False\<rparr>,
      \<lparr>case_name = ''EdgeHTML 18'',
       user_agent = ''Mozilla/5.0 (Windows NT 10.0; Win64; x64) AppleWebKit/537.36 (KHTML, like Gecko) Chrome/70.0.3538.102 Safari/537.36 Edge/18.19041'',
       case_epoch = EPOCH_MIDDLE, case_dashboard = False\<rparr>,
      \<lparr>case_name = ''Chromium Edge'',
       user_agent = ''Mozilla/5.0 (Windows NT 10.0; Win64; x64) AppleWebKit/537.36 (KHTML, like Gecko) Chrome/120.0.0.0 Safari/537.36 Edg/120.0.2210.91'',
       case_epoch = EPOCH_MODERN, case_dashboard = True\<rparr>,
      \<lparr>case_name = ''Opera 6 as MSIE'',
       user_agent = ''Mozilla/4.0 (compatible; MSIE 5.0; Windows 98) Opera 6.0 [en]'',
       case_epoch = EPOCH_MIDDLE, case_dashboard = False\<rparr>,
      \<lparr>case_name = ''Opera 12 (Presto)'',
       user_agent = ''Opera/9.80 (Windows NT 6.1; WOW64) Presto/2.12.388 Version/12.18'',
       case_epoch = EPOCH_MIDDLE, case_dashboard = False\<rparr>,
      \<lparr>case_name = ''Opera 106 (Chromium)'',
       user_agent = ''Mozilla/5.0 (Windows NT 10.0; Win64; x64) AppleWebKit/537.36 (KHTML, like Gecko) Chrome/120.0.0.0 Safari/537.36 OPR/106.0.0.0'',
       case_epoch = EPOCH_MODERN, case_dashboard = True\<rparr>,
      \<lparr>case_name = ''Firefox 3.6'',
       user_agent = ''Mozilla/5.0 (Windows; U; Windows NT 6.1; en-US; rv:1.9.2.28) Gecko/20120306 Firefox/3.6.28'',
       case_epoch = EPOCH_MIDDLE, case_dashboard = False\<rparr>,
      \<lparr>case_name = ''Firefox 52 ESR'',
       user_agent = ''Mozilla/5.0 (Windows NT 6.1; rv:52.0) Gecko/20100101 Firefox/52.0'',
       case_epoch = EPOCH_MIDDLE, case_dashboard = False\<rparr>,
      \<lparr>case_name = ''Firefox 65'',
       user_agent = ''Mozilla/5.0 (X11; Linux x86_64; rv:65.0) Gecko/20100101 Firefox/65.0'',
       case_epoch = EPOCH_MIDDLE, case_dashboard = False\<rparr>,
      \<lparr>case_name = ''Firefox 66'',
       user_agent = ''Mozilla/5.0 (X11; Linux x86_64; rv:66.0) Gecko/20100101 Firefox/66.0'',
       case_epoch = EPOCH_MODERN, case_dashboard = False\<rparr>,
      \<lparr>case_name = ''Firefox 115 ESR'',
       user_agent = ''Mozilla/5.0 (X11; Linux x86_64; rv:115.0) Gecko/20100101 Firefox/115.0'',
       case_epoch = EPOCH_MODERN, case_dashboard = False\<rparr>,
      \<lparr>case_name = ''Firefox 128'',
       user_agent = ''Mozilla/5.0 (X11; Linux x86_64; rv:128.0) Gecko/20100101 Firefox/128.0'',
       case_epoch = EPOCH_MODERN, case_dashboard = True\<rparr>,
      \<lparr>case_name = ''Android 4.4 WebView'',
       user_agent = ''Mozilla/5.0 (Linux; Android 4.4.2; Nexus 5 Build/KOT49H) AppleWebKit/537.36 (KHTML, like Gecko) Version/4.0 Chrome/30.0.0.0 Mobile Safari/537.36'',
       case_epoch = EPOCH_MIDDLE, case_dashboard = False\<rparr>,
      \<lparr>case_name = ''Chrome 86'',
       user_agent = ''Mozilla/5.0 (Windows NT 10.0; Win64; x64) AppleWebKit/537.36 (KHTML, like Gecko) Chrome/86.0.4240.198 Safari/537.36'',
       case_epoch = EPOCH_MIDDLE, case_dashboard = False\<rparr>,
      \<lparr>case_name = ''Chrome 87'',
       user_agent = ''Mozilla/5.0 (Windows NT 10.0; Win64; x64) AppleWebKit/537.36 (KHTML, like Gecko) Chrome/87.0.4280.66 Safari/537.36'',
       case_epoch = EPOCH_MODERN, case_dashboard = False\<rparr>,
      \<lparr>case_name = ''Chrome 110'',
       user_agent = ''Mozilla/5.0 (Windows NT 10.0; Win64; x64) AppleWebKit/537.36 (KHTML, like Gecko) Chrome/110.0.5481.178 Safari/537.36'',
       case_epoch = EPOCH_MODERN, case_dashboard = False\<rparr>,
      \<lparr>case_name = ''Chrome 111'',
       user_agent = ''Mozilla/5.0 (Windows NT 10.0; Win64; x64) AppleWebKit/537.36 (KHTML, like Gecko) Chrome/111.0.5563.65 Safari/537.36'',
       case_epoch = EPOCH_MODERN, case_dashboard = True\<rparr>,
      \<lparr>case_name = ''Samsung Internet 23'',
       user_agent = ''Mozilla/5.0 (Linux; Android 14; SM-S918B) AppleWebKit/537.36 (KHTML, like Gecko) SamsungBrowser/23.0 Chrome/115.0.0.0 Mobile Safari/537.36'',
       case_epoch = EPOCH_MODERN, case_dashboard = True\<rparr>,
      \<lparr>case_name = ''Safari 3'',
       user_agent = ''Mozilla/5.0 (Macintosh; U; Intel Mac OS X 10_5_8; en-us) AppleWebKit/531.22.7 (KHTML, like Gecko) Version/3.2.3 Safari/525.28.3'',
       case_epoch = EPOCH_MIDDLE, case_dashboard = False\<rparr>,
      \<lparr>case_name = ''Safari 2 (no Version/)'',
       user_agent = ''Mozilla/5.0 (Macintosh; U; PPC Mac OS X; en) AppleWebKit/418.8 (KHTML, like Gecko) Safari/419.3'',
       case_epoch = EPOCH_MIDDLE, case_dashboard = False\<rparr>,
      \<lparr>case_name = ''Safari 14.0'',
       user_agent = ''Mozilla/5.0 (Macintosh; Intel Mac OS X 10_15_6) AppleWebKit/605.1.15 (KHTML, like Gecko) Version/14.0.3 Safari/605.1.15'',
       case_epoch = EPOCH_MIDDLE, case_dashboard = False\<rparr>,
      \<lparr>case_name = ''Safari 14.1'',
       user_agent = ''Mozilla/5.0 (Macintosh; Intel Mac OS X 10_15_7) AppleWebKit/605.1.15 (KHTML, like Gecko) Version/14.1 Safari/605.1.15'',
       case_epoch = EPOCH_MODERN, case_dashboard = False\<rparr>,
      \<lparr>case_name = ''Safari 17'',
       user_agent = ''Mozilla/5.0 (Macintosh; Intel Mac OS X 10_15_7) AppleWebKit/605.1.15 (KHTML, like Gecko) Version/17.2 Safari/605.1.15'',
       case_epoch = EPOCH_MODERN, case_dashboard = True\<rparr>,
      \<lparr>case_name = ''Android 2.3 browser'',
       user_agent = ''Mozilla/5.0 (Linux; U; Android 2.3.6; en-us; Nexus S Build/GRK39F) AppleWebKit/533.1 (KHTML, like Gecko) Version/4.0 Mobile Safari/533.1'',
       case_epoch = EPOCH_MIDDLE, case_dashboard = False\<rparr>,
      \<lparr>case_name = ''Konqueror 4'',
       user_agent = ''Mozilla/5.0 (compatible; Konqueror/4.14; Linux) KHTML/4.14.2 (like Gecko)'',
       case_epoch = EPOCH_MIDDLE, case_dashboard = False\<rparr>,
      \<lparr>case_name = ''iPhone OS 3'',
       user_agent = ''Mozilla/5.0 (iPhone; U; CPU iPhone OS 3_0 like Mac OS X; en-us) AppleWebKit/528.18 (KHTML, like Gecko) Version/4.0 Mobile/7A341 Safari/528.16'',
       case_epoch = EPOCH_MIDDLE, case_dashboard = False\<rparr>,
      \<lparr>case_name = ''iOS 14.4 Safari'',
       user_agent = ''Mozilla/5.0 (iPhone; CPU iPhone OS 14_4 like Mac OS X) AppleWebKit/605.1.15 (KHTML, like Gecko) Version/14.0.3 Mobile/15E148 Safari/604.1'',
       case_epoch = EPOCH_MIDDLE, case_dashboard = False\<rparr>,
      \<lparr>case_name = ''iOS 14.5 Safari'',
       user_agent = ''Mozilla/5.0 (iPhone; CPU iPhone OS 14_5 like Mac OS X) AppleWebKit/605.1.15 (KHTML, like Gecko) Version/14.1 Mobile/15E148 Safari/604.1'',
       case_epoch = EPOCH_MODERN, case_dashboard = False\<rparr>,
      \<lparr>case_name = ''iOS 17 Chrome (CriOS)'',
       user_agent = ''Mozilla/5.0 (iPhone; CPU iPhone OS 17_2 like Mac OS X) AppleWebKit/605.1.15 (KHTML, like Gecko) CriOS/120.0.6099.119 Mobile/15E148 Safari/604.1'',
       case_epoch = EPOCH_MODERN, case_dashboard = True\<rparr>,
      \<lparr>case_name = ''iOS 13 Firefox (FxiOS)'',
       user_agent = ''Mozilla/5.0 (iPhone; CPU iPhone OS 13_3 like Mac OS X) AppleWebKit/605.1.15 (KHTML, like Gecko) FxiOS/22.0 Mobile/15E148 Safari/605.1.15'',
       case_epoch = EPOCH_MIDDLE, case_dashboard = False\<rparr>,
      \<lparr>case_name = ''iPadOS 12'',
       user_agent = ''Mozilla/5.0 (iPad; CPU OS 12_5 like Mac OS X) AppleWebKit/605.1.15 (KHTML, like Gecko) Version/12.1.2 Mobile/15E148 Safari/604.1'',
       case_epoch = EPOCH_MIDDLE, case_dashboard = False\<rparr>,
      \<lparr>case_name = ''Googlebot (legacy UA)'',
       user_agent = ''Mozilla/5.0 (compatible; Googlebot/2.1; +http://www.google.com/bot.html)'',
       case_epoch = EPOCH_MIDDLE, case_dashboard = False\<rparr>,
      \<lparr>case_name = ''Googlebot (evergreen)'',
       user_agent = ''Mozilla/5.0 AppleWebKit/537.36 (KHTML, like Gecko; compatible; Googlebot/2.1; +http://www.google.com/bot.html) Chrome/120.0.6099.216 Safari/537.36'',
       case_epoch = EPOCH_MODERN, case_dashboard = True\<rparr>]"

definition copy_str :: "nat \<Rightarrow> string \<Rightarrow> string" where
  "copy_str sz src = take (if length src \<ge> sz then sz - 1 else length src) src"

definition copy_tokens :: "string list \<Rightarrow> string list" where
  "copy_tokens tokens = map (copy_str BROWSER_TOKEN_MAX) (take BROWSER_TOKENS_MAX tokens)"

definition factory_rule :: "BrowserRule \<Rightarrow> BrowserRule" where
  "factory_rule f = f\<lparr>rule_name := copy_str BROWSER_NAME_MAX (rule_name f), enabled := True,
     contains_tokens := copy_tokens (contains_tokens f),
     excludes_tokens := copy_tokens (excludes_tokens f),
     version_after := copy_str BROWSER_TOKEN_MAX (version_after f)\<rparr>"

definition factory_case :: "BrowserCase \<Rightarrow> BrowserCase" where
  "factory_case c = c\<lparr>case_name := copy_str BROWSER_NAME_MAX (case_name c),
     user_agent := copy_str BROWSER_UA_MAX (user_agent c)\<rparr>"

definition browser_detection_factory :: BrowserDetection where
  "browser_detection_factory =
     \<lparr>fallback_epoch = FACTORY_FALLBACK_EPOCH, rules = map factory_rule FACTORY_RULES,
      cases = map factory_case FACTORY_CASES\<rparr>"

subsection \<open>Versions\<close>

type_synonym Version = "int \<times> int"

definition LONG_MAX :: int where "LONG_MAX = 9223372036854775807"

text \<open>\<open>strtol\<close> on a digit: the value of the run of digits, saturated.\<close>

definition strtol :: "string \<Rightarrow> int" where
  "strtol p = min LONG_MAX (int (dec_value (takeWhile isdigit p)))"

definition parse_version :: "string \<Rightarrow> Version option" where
  "parse_version p =
     (if p = [] \<or> \<not> isdigit (hd p) then None
      else
        let e = dropWhile isdigit p in
        Some (strtol p,
              (if e \<noteq> [] \<and> (hd e = CHR ''.'' \<or> hd e = CHR ''_'') \<and> tl e \<noteq> [] \<and> isdigit (hd (tl e))
               then strtol (tl e) else 0)))"

definition version_cmp :: "Version \<Rightarrow> Version \<Rightarrow> int" where
  "version_cmp a b =
     (if fst a \<noteq> fst b then (if fst a < fst b then -1 else 1)
      else if snd a \<noteq> snd b then (if snd a < snd b then -1 else 1)
      else 0)"

definition parse_tier_version :: "string \<Rightarrow> Version option" where
  "parse_tier_version s =
     (case parse_version s of
        None \<Rightarrow> None
      | Some v \<Rightarrow>
          let p = dropWhile isdigit s in
          if p \<noteq> [] \<and> (hd p = CHR ''.'' \<or> hd p = CHR ''_'') then
            let q = tl p in
            if q = [] \<or> \<not> isdigit (hd q) then None
            else if dropWhile isdigit q = [] then Some v else None
          else if p = [] then Some v else None)"

subsection \<open>Validation\<close>

definition epoch_valid :: "int \<Rightarrow> bool" where
  "epoch_valid e \<longleftrightarrow> e \<ge> EPOCH_WML \<and> e \<le> EPOCH_MODERN"

definition has_nul :: "string \<Rightarrow> nat \<Rightarrow> bool" where
  "has_nul s sz \<longleftrightarrow> length s < sz"

definition text_printable :: "string \<Rightarrow> bool" where
  "text_printable s \<longleftrightarrow> list_all (\<lambda>c. \<not> (ord c < 32 \<or> ord c = 127)) s"

definition validate_tokens :: "string list \<Rightarrow> string option" where
  "validate_tokens xs =
     (if length xs > BROWSER_TOKENS_MAX then Some ''too many tokens in a list''
      else
        foldr (\<lambda>t rest.
            if \<not> has_nul t BROWSER_TOKEN_MAX then Some ''a token is too long''
            else if t = [] then Some ''a token is empty''
            else if \<not> text_printable t then Some ''a token has a control character''
            else rest) xs None)"

definition validate_tiers :: "BrowserTier list \<Rightarrow> string option" where
  "validate_tiers ts =
     foldr (\<lambda>t rest.
         if \<not> has_nul (tier_from t) BROWSER_VERSION_MAX \<or> parse_tier_version (tier_from t) = None
         then Some ''a tier's version is not a number like 87 or 14.1''
         else if \<not> epoch_valid (tier_epoch t) then Some ''a tier's epoch is not -1..3''
         else rest) ts None"

definition validate_rule :: "BrowserRule \<Rightarrow> string option" where
  "validate_rule r =
     (if \<not> has_nul (rule_name r) BROWSER_NAME_MAX \<or> \<not> text_printable (rule_name r)
      then Some ''a rule name is too long or has a control character''
      else if contains_tokens r = [] then Some ''a rule has nothing to match (contains is empty)''
      else if validate_tokens (contains_tokens r) \<noteq> None then validate_tokens (contains_tokens r)
      else if validate_tokens (excludes_tokens r) \<noteq> None then validate_tokens (excludes_tokens r)
      else if \<not> has_nul (version_after r) BROWSER_TOKEN_MAX \<or> \<not> text_printable (version_after r)
      then Some ''version_after is too long or has a control character''
      else if \<not> epoch_valid (rule_epoch r) then Some ''a rule's epoch is not -1..3''
      else if length (tiers r) > BROWSER_TIERS_MAX then Some ''too many tiers''
      else if tiers r \<noteq> [] \<and> version_after r = []
      then Some ''tiers need a version_after token to read the version from''
      else validate_tiers (tiers r))"

definition validate_case :: "BrowserCase \<Rightarrow> string option" where
  "validate_case c =
     (if \<not> has_nul (case_name c) BROWSER_NAME_MAX \<or> \<not> text_printable (case_name c)
      then Some ''a test case name is too long or has a control character''
      else if \<not> has_nul (user_agent c) BROWSER_UA_MAX \<or> \<not> text_printable (user_agent c)
      then Some ''a test case User-Agent is too long or has a control character''
      else if \<not> epoch_valid (case_epoch c) then Some ''a test case's epoch is not -1..3''
      else None)"

text \<open>The first problem of a list, with its position from 1.\<close>

fun first_problem :: "('a \<Rightarrow> string option) \<Rightarrow> 'a list \<Rightarrow> nat \<Rightarrow> (string \<times> nat) option" where
  "first_problem f [] i = None"
| "first_problem f (x # xs) i =
     (case f x of Some e \<Rightarrow> Some (e, Suc i) | None \<Rightarrow> first_problem f xs (Suc i))"

definition browser_detection_validate :: "BrowserDetection \<Rightarrow> (string \<times> nat) option" where
  "browser_detection_validate d =
     (if \<not> epoch_valid (fallback_epoch d) then Some (''the fallback epoch is not -1..3'', 0)
      else if length (rules d) > BROWSER_RULES_MAX then Some (''too many rules'', 0)
      else if length (cases d) > BROWSER_CASES_MAX then Some (''too many test cases'', 0)
      else case first_problem validate_rule (rules d) 0 of
        Some p \<Rightarrow> Some p
      | None \<Rightarrow> first_problem validate_case (cases d) 0)"

subsection \<open>Classification\<close>

definition contains_any :: "string \<Rightarrow> string list \<Rightarrow> bool" where
  "contains_any ua xs \<longleftrightarrow> list_ex (contains ua) xs"

text \<open>The loop over the tiers: the best tier so far and its version.\<close>

fun best_tier ::
  "Version \<Rightarrow> BrowserTier list \<Rightarrow> (BrowserTier \<times> Version) option \<Rightarrow> (BrowserTier \<times> Version) option"
where
  "best_tier version [] best = best"
| "best_tier version (t # ts) best =
     (case parse_tier_version (tier_from t) of
        None \<Rightarrow> best_tier version ts best
      | Some v \<Rightarrow>
          if version_cmp version v \<ge> 0
             \<and> (case best of None \<Rightarrow> True | Some (b, best_from) \<Rightarrow> version_cmp v best_from > 0)
          then best_tier version ts (Some (t, v))
          else best_tier version ts best)"

definition read_version :: "string \<Rightarrow> string \<Rightarrow> Version option" where
  "read_version after_token ua =
     (case strstr ua after_token of
        None \<Rightarrow> None
      | Some i \<Rightarrow>
          let at = drop (i + length after_token) ua;
              at1 = (if at \<noteq> [] \<and> (hd at = CHR ''/'' \<or> hd at = CHR '' '') then tl at else at)
          in parse_version at1)"

definition classify_rule :: "BrowserRule \<Rightarrow> string \<Rightarrow> int \<times> bool" where
  "classify_rule r ua =
     (if version_after r = [] \<or> tiers r = [] then (rule_epoch r, rule_dashboard r)
      else case read_version (version_after r) ua of
        None \<Rightarrow> (rule_epoch r, rule_dashboard r)
      | Some v \<Rightarrow>
          (case best_tier v (tiers r) None of
             None \<Rightarrow> (rule_epoch r, rule_dashboard r)
           | Some (t, f) \<Rightarrow> (tier_epoch t, tier_dashboard t)))"

definition rule_matches :: "BrowserRule \<Rightarrow> string \<Rightarrow> bool" where
  "rule_matches r ua \<longleftrightarrow>
     enabled r \<and> contains_any ua (contains_tokens r) \<and> \<not> contains_any ua (excludes_tokens r)"

fun classify_from :: "BrowserRule list \<Rightarrow> int \<Rightarrow> string \<Rightarrow> BrowserMatch option" where
  "classify_from [] i ua = None"
| "classify_from (r # rs) i ua =
     (if rule_matches r ua
      then (case classify_rule r ua of (e, b) \<Rightarrow>
              Some \<lparr>match_epoch = e, match_dashboard = b, match_rule = i\<rparr>)
      else classify_from rs (i + 1) ua)"

definition browser_detection_classify :: "BrowserDetection \<Rightarrow> string option \<Rightarrow> BrowserMatch" where
  "browser_detection_classify d ua_opt =
     (let ua = (case ua_opt of None \<Rightarrow> [] | Some u \<Rightarrow> u) in
      case classify_from (rules d) 0 ua of
        Some m \<Rightarrow> m
      | None \<Rightarrow> \<lparr>match_epoch = fallback_epoch d, match_dashboard = False, match_rule = -1\<rparr>)"

subsection \<open>The active rule set\<close>

text \<open>
  The active set, \<open>None\<close> until first use. The flag says whether an allocation succeeds. Each
  operation holds the lock while it reads or replaces the pointer.
\<close>

type_synonym active_rules = "BrowserDetection option"

definition ensure_active :: "bool \<Rightarrow> active_rules \<Rightarrow> bool \<times> active_rules" where
  "ensure_active alloc_ok active =
     (case active of
        Some d \<Rightarrow> (True, active)
      | None \<Rightarrow> if alloc_ok then (True, Some browser_detection_factory) else (False, None))"

definition browser_detection_activate ::
  "bool \<Rightarrow> BrowserDetection option \<Rightarrow> active_rules \<Rightarrow> int \<times> active_rules"
where
  "browser_detection_activate alloc_ok d active =
     (case (case d of Some x \<Rightarrow> Some x
            | None \<Rightarrow> if alloc_ok then Some browser_detection_factory else None) of
        None \<Rightarrow> (-1, active)
      | Some x \<Rightarrow>
          (case browser_detection_validate x of
             Some problem \<Rightarrow> (-1, active)
           | None \<Rightarrow> (0, Some x)))"

definition browser_detection_active_copy ::
  "bool \<Rightarrow> bool \<Rightarrow> active_rules \<Rightarrow> BrowserDetection option \<times> active_rules"
where
  "browser_detection_active_copy factory_ok copy_ok active =
     (let (ok, active1) = ensure_active factory_ok active in
      (if ok \<and> copy_ok then active1 else None, active1))"

definition detect_browser :: "bool \<Rightarrow> string option \<Rightarrow> active_rules \<Rightarrow> BrowserMatch \<times> active_rules" where
  "detect_browser alloc_ok ua active =
     (case ensure_active alloc_ok active of
        (True, Some d) \<Rightarrow> (browser_detection_classify d ua, Some d)
      | (_, active1) \<Rightarrow>
          (\<lparr>match_epoch = FACTORY_FALLBACK_EPOCH, match_dashboard = False, match_rule = -1\<rparr>, active1))"

definition detect_epoch :: "bool \<Rightarrow> string option \<Rightarrow> active_rules \<Rightarrow> int" where
  "detect_epoch alloc_ok ua active = match_epoch (fst (detect_browser alloc_ok ua active))"

definition detect_dashboard :: "bool \<Rightarrow> string option \<Rightarrow> active_rules \<Rightarrow> bool" where
  "detect_dashboard alloc_ok ua active = match_dashboard (fst (detect_browser alloc_ok ua active))"

definition epoch_to_index :: "int \<Rightarrow> int" where
  "epoch_to_index e = (if e < EPOCH_WML \<or> e > EPOCH_MODERN then -1 else e + 1)"

subsection \<open>Valid rules give valid epochs\<close>

lemma validate_tiers_epoch: "validate_tiers ts = None \<Longrightarrow> t \<in> set ts \<Longrightarrow> epoch_valid (tier_epoch t)"
  by (induction ts) (auto simp: validate_tiers_def split: if_splits)

lemma validate_rule_epochs:
  "validate_rule r = None \<Longrightarrow> epoch_valid (rule_epoch r) \<and> (\<forall>t\<in>set (tiers r). epoch_valid (tier_epoch t))"
  by (auto simp: validate_rule_def dest: validate_tiers_epoch split: if_splits)

lemma first_problem_None: "first_problem f xs i = None \<longleftrightarrow> (\<forall>x\<in>set xs. f x = None)"
  by (induction xs arbitrary: i) (auto split: option.splits)

lemma best_tier_mem:
  "best_tier v ts best = Some (t, f) \<Longrightarrow> t \<in> set ts \<or> best = Some (t, f)"
proof (induction ts arbitrary: best)
  case (Cons u us)
  then show ?case
    by (cases "parse_tier_version (tier_from u)") (auto split: if_splits)
qed simp

lemma classify_rule_epoch:
  assumes "epoch_valid (rule_epoch r)" "\<forall>t\<in>set (tiers r). epoch_valid (tier_epoch t)"
  shows "epoch_valid (fst (classify_rule r ua))"
proof -
  have "epoch_valid (tier_epoch t)" if "best_tier v (tiers r) None = Some (t, f)" for v t f
    using best_tier_mem [OF that] assms(2) by simp
  with assms(1) show ?thesis by (auto simp: classify_rule_def split: option.splits)
qed

lemma classify_from_epoch:
  "\<forall>r\<in>set rs. validate_rule r = None \<Longrightarrow> classify_from rs i ua = Some m \<Longrightarrow> epoch_valid (match_epoch m)"
proof (induction rs arbitrary: i)
  case (Cons r rs)
  have "epoch_valid (fst (classify_rule r ua))"
    using Cons.prems(1) validate_rule_epochs [of r] classify_rule_epoch by simp
  with Cons show ?case by (auto split: if_splits prod.splits)
qed simp

lemma classify_valid_epoch:
  assumes "browser_detection_validate d = None"
  shows "epoch_valid (match_epoch (browser_detection_classify d ua))"
proof -
  from assms have "\<forall>r\<in>set (rules d). validate_rule r = None" "epoch_valid (fallback_epoch d)"
    by (auto simp: browser_detection_validate_def first_problem_None split: if_splits option.splits)
  then show ?thesis
    by (auto simp: browser_detection_classify_def dest: classify_from_epoch split: option.splits)
qed

subsection \<open>The first rule wins, the highest tier reached wins\<close>

lemma classify_from_first:
  "classify_from rs i ua =
     (case find (\<lambda>r. rule_matches r ua) rs of
        None \<Rightarrow> None
      | Some r \<Rightarrow> Some \<lparr>match_epoch = fst (classify_rule r ua), match_dashboard = snd (classify_rule r ua),
                      match_rule = i + int (length (takeWhile (\<lambda>r. \<not> rule_matches r ua) rs))\<rparr>)"
  by (induction rs arbitrary: i) (auto split: option.splits prod.splits)

definition version_le :: "Version \<Rightarrow> Version \<Rightarrow> bool" where
  "version_le a b \<longleftrightarrow> fst a < fst b \<or> (fst a = fst b \<and> snd a \<le> snd b)"

lemma version_cmp_ge: "version_cmp a b \<ge> 0 \<longleftrightarrow> version_le b a"
  by (auto simp: version_cmp_def version_le_def)

lemma version_cmp_gt: "version_cmp a b > 0 \<longleftrightarrow> \<not> version_le a b"
  by (auto simp: version_cmp_def version_le_def)

lemma version_le_trans: "version_le a b \<Longrightarrow> version_le b c \<Longrightarrow> version_le a c"
  and version_le_linear: "version_le a b \<or> version_le b a"
  by (auto simp: version_le_def)

lemma best_tier_max:
  "best_tier v ts best = r \<Longrightarrow>
   (case best of None \<Rightarrow> True | Some (b, bv) \<Rightarrow> version_le bv v) \<Longrightarrow>
   (case r of
      None \<Rightarrow> best = None \<and> (\<forall>t\<in>set ts. \<forall>f. parse_tier_version (tier_from t) = Some f \<longrightarrow> \<not> version_le f v)
    | Some (t, f) \<Rightarrow> version_le f v
        \<and> (\<forall>u\<in>set ts. \<forall>g. parse_tier_version (tier_from u) = Some g \<longrightarrow> version_le g v \<longrightarrow> version_le g f)
        \<and> (\<forall>b bv. best = Some (b, bv) \<longrightarrow> version_le bv f)
        \<and> (best = Some (t, f) \<or> (t \<in> set ts \<and> parse_tier_version (tier_from t) = Some f)))"
proof (induction ts arbitrary: best)
  case Nil
  then show ?case by (cases best) (auto simp: version_le_def)
next
  case (Cons t ts)
  show ?case
  proof (cases "parse_tier_version (tier_from t)")
    case None
    with Cons.prems Cons.IH [of best] show ?thesis by (cases r) auto
  next
    case (Some f)
    show ?thesis
    proof (cases "version_le f v \<and> (case best of None \<Rightarrow> True | Some (b, bv) \<Rightarrow> \<not> version_le f bv)")
      case True
      with Some Cons.prems(1) have "best_tier v ts (Some (t, f)) = r"
        by (auto simp: version_cmp_ge version_cmp_gt split: option.splits)
      note run = this
      have "case Some (t, f) of None \<Rightarrow> True | Some (b, bv) \<Rightarrow> version_le bv v" using True by simp
      from Cons.IH [OF run this] have ih: "case r of None \<Rightarrow> False | Some (t', f') \<Rightarrow> version_le f' v
          \<and> (\<forall>u\<in>set ts. \<forall>g. parse_tier_version (tier_from u) = Some g \<longrightarrow> version_le g v \<longrightarrow> version_le g f')
          \<and> version_le f f'
          \<and> ((t', f') = (t, f) \<or> (t' \<in> set ts \<and> parse_tier_version (tier_from t') = Some f'))"
        by (cases r; cases f) auto
      then obtain t' f' where r: "r = Some (t', f')" by (cases r) auto
      have "version_le bv f'" if "best = Some (b, bv)" for b bv
        using True that ih r version_le_linear [of f bv] version_le_trans [of bv f f'] by auto
      moreover have "version_le f f'" using ih r by simp
      ultimately show ?thesis using ih r Some by simp blast
    next
      case False
      with Some Cons.prems(1) have run: "best_tier v ts best = r"
        by (auto simp: version_cmp_ge version_cmp_gt split: option.splits)
      have skip: "version_le f bv" if "version_le f v" "best = Some (b, bv)" for b bv
        using False that by simp
      have none: "\<not> version_le f v" if "best = None" using False that by simp
      note ih = Cons.IH [OF run Cons.prems(2)]
      show ?thesis
      proof (cases r)
        case None
        with ih have "best = None" by simp
        with ih none None Some show ?thesis by (cases f) simp
      next
        case r: (Some tf)
        then obtain t' f' where tf: "r = Some (t', f')" by (cases tf) auto
        have "version_le f f'" if "version_le f v"
        proof (cases best)
          case None
          with none that show ?thesis by simp
        next
          case (Some x)
          then obtain b bv where b: "best = Some (b, bv)" by (cases x) auto
          with ih tf have "version_le bv f'" by (cases bv) simp
          with skip [OF that b] show ?thesis by (rule version_le_trans)
        qed
        with ih tf Some show ?thesis by (cases f) auto
      qed
    qed
  qed
qed

text \<open>
  A User-Agent is classified by the first enabled rule one of whose tokens it contains and
  none of whose exclusions it contains, and by the fallback when there is none; within the
  rule, by the tier with the highest version that the browser reaches, in whatever order the
  tiers are written, and by the rule's own epoch when it reaches none.
\<close>

theorem classify_first_rule_highest_tier:
  "(\<forall>r. find (\<lambda>r. rule_matches r ua) (rules d) = Some r \<longrightarrow>
      match_epoch (browser_detection_classify d (Some ua)) = fst (classify_rule r ua)
      \<and> match_rule (browser_detection_classify d (Some ua)) =
          int (length (takeWhile (\<lambda>r. \<not> rule_matches r ua) (rules d)))
      \<and> (\<forall>v. version_after r \<noteq> [] \<and> read_version (version_after r) ua = Some v \<longrightarrow>
           (\<exists>t\<in>set (tiers r). \<exists>f. parse_tier_version (tier_from t) = Some f \<and> version_le f v
              \<and> (\<forall>u\<in>set (tiers r). \<forall>g. parse_tier_version (tier_from u) = Some g \<longrightarrow> version_le g v \<longrightarrow>
                   version_le g f)
              \<and> classify_rule r ua = (tier_epoch t, tier_dashboard t))
           \<or> (\<forall>u\<in>set (tiers r). \<forall>g. parse_tier_version (tier_from u) = Some g \<longrightarrow> \<not> version_le g v)
             \<and> classify_rule r ua = (rule_epoch r, rule_dashboard r)))
   \<and> (find (\<lambda>r. rule_matches r ua) (rules d) = None \<longrightarrow>
      match_epoch (browser_detection_classify d (Some ua)) = fallback_epoch d
      \<and> match_rule (browser_detection_classify d (Some ua)) = -1)"
proof (intro conjI allI impI)
  fix r
  assume f: "find (\<lambda>r. rule_matches r ua) (rules d) = Some r"
  show "match_epoch (browser_detection_classify d (Some ua)) = fst (classify_rule r ua)"
    "match_rule (browser_detection_classify d (Some ua)) =
        int (length (takeWhile (\<lambda>r. \<not> rule_matches r ua) (rules d)))"
    using f by (simp_all add: browser_detection_classify_def classify_from_first)
  fix v
  assume v: "version_after r \<noteq> [] \<and> read_version (version_after r) ua = Some v"
  show "(\<exists>t\<in>set (tiers r). \<exists>f. parse_tier_version (tier_from t) = Some f \<and> version_le f v
            \<and> (\<forall>u\<in>set (tiers r). \<forall>g. parse_tier_version (tier_from u) = Some g \<longrightarrow> version_le g v \<longrightarrow>
                 version_le g f)
            \<and> classify_rule r ua = (tier_epoch t, tier_dashboard t))
        \<or> (\<forall>u\<in>set (tiers r). \<forall>g. parse_tier_version (tier_from u) = Some g \<longrightarrow> \<not> version_le g v)
          \<and> classify_rule r ua = (rule_epoch r, rule_dashboard r)"
  proof (cases "best_tier v (tiers r) None")
    case None
    with best_tier_max [OF None] v show ?thesis by (auto simp: classify_rule_def)
  next
    case (Some tf)
    then obtain t f where tf: "best_tier v (tiers r) None = Some (t, f)" by (cases tf) auto
    then have "tiers r \<noteq> []" by auto
    with v tf have c: "classify_rule r ua = (tier_epoch t, tier_dashboard t)"
      by (simp add: classify_rule_def)
    from best_tier_max [OF tf] have "t \<in> set (tiers r)" "parse_tier_version (tier_from t) = Some f"
      "version_le f v"
      "\<forall>u\<in>set (tiers r). \<forall>g. parse_tier_version (tier_from u) = Some g \<longrightarrow> version_le g v \<longrightarrow> version_le g f"
      by auto
    with c show ?thesis by blast
  qed
qed (simp_all add: browser_detection_classify_def classify_from_first)

theorem classify_first_rule_highest_tier_witness:
  "let r = \<lparr>rule_name = ''X'', enabled = True, contains_tokens = [''X/''], excludes_tokens = [],
            version_after = ''X/'', tiers = [\<lparr>tier_from = ''9'', tier_epoch = 3, tier_dashboard = True\<rparr>,
              \<lparr>tier_from = ''5'', tier_epoch = 2, tier_dashboard = False\<rparr>],
            rule_epoch = 1, rule_dashboard = False\<rparr>;
       d = \<lparr>fallback_epoch = 0, rules = [r], cases = []\<rparr>
   in find (\<lambda>r. rule_matches r ''X/7'') (rules d) = Some r
      \<and> match_epoch (browser_detection_classify d (Some ''X/7'')) = fst (classify_rule r ''X/7'')
      \<and> fst (classify_rule r ''X/7'') = 2"
proof -
  define r where "r = \<lparr>rule_name = ''X'', enabled = True, contains_tokens = [''X/''], excludes_tokens = [],
            version_after = ''X/'', tiers = [\<lparr>tier_from = ''9'', tier_epoch = 3, tier_dashboard = True\<rparr>,
              \<lparr>tier_from = ''5'', tier_epoch = 2, tier_dashboard = False\<rparr>],
            rule_epoch = 1, rule_dashboard = False\<rparr>"
  define d where "d = \<lparr>fallback_epoch = 0, rules = [r], cases = []\<rparr>"
  have f: "find (\<lambda>r. rule_matches r ''X/7'') (rules d) = Some r"
    by (simp add: d_def r_def rule_matches_def contains_any_def contains_def)
  have "fst (classify_rule r ''X/7'') = 2" unfolding r_def by code_simp
  with classify_first_rule_highest_tier [of "''X/7''" d] f show ?thesis
    unfolding Let_def r_def [symmetric] d_def [symmetric] by blast
qed

end
