(* ===== verification/Epoch_Factory.thy ===== *)
theory Epoch_Factory
  imports Detect_Epoch
begin

text \<open>
  The factory rule set against its own table of real User-Agents
  (src/src/utils/detect_epoch.c), by evaluation in the kernel, and what follows for the active
  rule set: every request is classified into an epoch that exists.
\<close>

subsection \<open>The factory rules pass their own cases\<close>

definition case_holds :: "BrowserCase \<Rightarrow> bool" where
  "case_holds c \<longleftrightarrow>
     (case classify_from FACTORY_RULES 0 (user_agent c) of
        Some m \<Rightarrow> match_epoch m = case_epoch c \<and> match_dashboard m = case_dashboard c
      | None \<Rightarrow> FACTORY_FALLBACK_EPOCH = case_epoch c \<and> \<not> case_dashboard c)"

lemma factory_cases_1: "list_all case_holds (take 7 (drop 0 FACTORY_CASES))"
  by code_simp

lemma factory_cases_2: "list_all case_holds (take 7 (drop 7 FACTORY_CASES))"
  by code_simp

lemma factory_cases_3: "list_all case_holds (take 7 (drop 14 FACTORY_CASES))"
  by code_simp

lemma factory_cases_4: "list_all case_holds (take 6 (drop 21 FACTORY_CASES))"
  by code_simp

lemma factory_cases_5: "list_all case_holds (take 6 (drop 27 FACTORY_CASES))"
  by code_simp

lemma factory_cases_6: "list_all case_holds (take 6 (drop 33 FACTORY_CASES))"
  by code_simp

lemma factory_cases_7: "list_all case_holds (take 5 (drop 39 FACTORY_CASES))"
  by code_simp

lemma factory_cases_8: "list_all case_holds (take 6 (drop 44 FACTORY_CASES))"
  by code_simp

lemma factory_cases_9: "list_all case_holds (take 5 (drop 50 FACTORY_CASES))"
  by code_simp

lemma factory_cases_split:
  "FACTORY_CASES = take 7 (drop 0 FACTORY_CASES) @ take 7 (drop 7 FACTORY_CASES) @ take 7 (drop 14 FACTORY_CASES) @ take 6 (drop 21 FACTORY_CASES) @ take 6 (drop 27 FACTORY_CASES) @ take 6 (drop 33 FACTORY_CASES) @ take 5 (drop 39 FACTORY_CASES) @ take 6 (drop 44 FACTORY_CASES) @ take 5 (drop 50 FACTORY_CASES)"
  by code_simp

lemma factory_cases_hold: "list_all case_holds FACTORY_CASES"
  by (subst factory_cases_split)
    (simp only: list_all_append factory_cases_1 factory_cases_2 factory_cases_3 factory_cases_4
      factory_cases_5 factory_cases_6 factory_cases_7 factory_cases_8 factory_cases_9 simp_thms)

lemma factory_expanded:
  "browser_detection_factory =
     \<lparr>fallback_epoch = FACTORY_FALLBACK_EPOCH, rules = FACTORY_RULES, cases = FACTORY_CASES\<rparr>"
  by code_simp

lemmas validation_simps = validate_rule_def validate_tokens_def validate_tiers_def has_nul_def text_printable_def
  epoch_valid_def epoch_defs parse_tier_version_def parse_version_def isdigit_def dec_value_def Let_def BROWSER_NAME_MAX_def
  BROWSER_TOKEN_MAX_def BROWSER_TOKENS_MAX_def BROWSER_TIERS_MAX_def BROWSER_VERSION_MAX_def

lemma factory_rules_valid: "first_problem validate_rule FACTORY_RULES 0 = None"
  by (simp add: FACTORY_RULES_def validation_simps)

lemma factory_case_fields_valid: "first_problem validate_case FACTORY_CASES 0 = None"
  by code_simp

lemma factory_counts: "length FACTORY_RULES \<le> BROWSER_RULES_MAX \<and> length FACTORY_CASES \<le> BROWSER_CASES_MAX"
  by (simp add: FACTORY_RULES_def FACTORY_CASES_def BROWSER_RULES_MAX_def BROWSER_CASES_MAX_def)

lemma factory_valid: "browser_detection_validate browser_detection_factory = None"
  using factory_counts factory_rules_valid factory_case_fields_valid
  by (simp add: browser_detection_validate_def factory_expanded FACTORY_FALLBACK_EPOCH_def epoch_valid_def
      epoch_defs)

text \<open>
  The factory rule set is valid by the server's own validation, and classifies every one of
  its 55 real User-Agents as its table says, epoch and dashboard access both.
\<close>

theorem factory_self_consistent:
  "browser_detection_validate browser_detection_factory = None
   \<and> list_all (\<lambda>c. match_epoch (browser_detection_classify browser_detection_factory (Some (user_agent c)))
          = case_epoch c
        \<and> match_dashboard (browser_detection_classify browser_detection_factory (Some (user_agent c)))
          = case_dashboard c) FACTORY_CASES"
proof
  have "match_epoch (browser_detection_classify browser_detection_factory (Some (user_agent c))) = case_epoch c
        \<and> match_dashboard (browser_detection_classify browser_detection_factory (Some (user_agent c)))
          = case_dashboard c" if "case_holds c" for c
    using that
    by (auto simp: case_holds_def browser_detection_classify_def factory_expanded split: option.splits)
  then show "list_all (\<lambda>c. match_epoch (browser_detection_classify browser_detection_factory (Some (user_agent c)))
          = case_epoch c
        \<and> match_dashboard (browser_detection_classify browser_detection_factory (Some (user_agent c)))
          = case_dashboard c) FACTORY_CASES"
    using factory_cases_hold unfolding list_all_iff by blast
qed (rule factory_valid)

subsection \<open>The active set is always valid\<close>

text \<open>The operations on the active set, by any threads in any order.\<close>

inductive active_step :: "active_rules \<Rightarrow> active_rules \<Rightarrow> bool" where
  activated: "browser_detection_activate ok d a = (rc, a') \<Longrightarrow> active_step a a'"
| copied: "browser_detection_active_copy ok1 ok2 a = (r, a') \<Longrightarrow> active_step a a'"
| detected: "detect_browser ok ua a = (m, a') \<Longrightarrow> active_step a a'"

inductive_cases active_stepE: "active_step a a'"

definition active_ok :: "active_rules \<Rightarrow> bool" where
  "active_ok a \<longleftrightarrow> (case a of None \<Rightarrow> True | Some d \<Rightarrow> browser_detection_validate d = None)"

lemma ensure_active_ok: "active_ok a \<Longrightarrow> ensure_active ok a = (r, a') \<Longrightarrow> active_ok a'"
  using factory_valid by (auto simp: ensure_active_def active_ok_def split: option.splits if_splits)

lemma active_step_ok: "active_step a a' \<Longrightarrow> active_ok a \<Longrightarrow> active_ok a'"
proof (induction rule: active_step.induct)
  case (activated ok d a rc a')
  then consider "a' = a" | x where "browser_detection_validate x = None" "a' = Some x"
    by (cases d; cases ok) (auto simp: browser_detection_activate_def split: option.splits)
  then show ?case using activated(2) by cases (simp_all add: active_ok_def)
next
  case (copied ok1 ok2 a r a')
  obtain b a1 where e: "ensure_active ok1 a = (b, a1)" by fastforce
  with copied(1) have "a' = a1" by (auto simp: browser_detection_active_copy_def)
  with e ensure_active_ok [OF copied(2) e] show ?case by simp
next
  case (detected ok ua a m a')
  obtain b a1 where e: "ensure_active ok a = (b, a1)" by fastforce
  with detected(1) have "a' = a1"
    by (auto simp: detect_browser_def split: bool.splits option.splits)
  with ensure_active_ok [OF detected(2) e] show ?case by simp
qed

text \<open>
  Whatever rule sets are installed, valid or not, and however the calls interleave: every
  request is classified into one of the five epochs, so the index of a per-epoch array is
  always inside it. A set that fails validation never becomes active.
\<close>

theorem detect_epoch_in_range:
  assumes "active_step\<^sup>*\<^sup>* None a"
  shows "EPOCH_WML \<le> detect_epoch ok ua a \<and> detect_epoch ok ua a \<le> EPOCH_MODERN
     \<and> 0 \<le> epoch_to_index (detect_epoch ok ua a) \<and> epoch_to_index (detect_epoch ok ua a) < 5
     \<and> (browser_detection_validate d \<noteq> None \<longrightarrow> browser_detection_activate ok' (Some d) a = (-1, a))"
proof -
  have a: "active_ok a"
    using assms by (induction rule: rtranclp_induct) (simp add: active_ok_def, rule active_step_ok)
  obtain r a1 where e: "ensure_active ok a = (r, a1)" by fastforce
  have "epoch_valid (detect_epoch ok ua a)"
  proof (cases "r \<and> a1 \<noteq> None")
    case True
    then obtain x where x: "r" "a1 = Some x" by auto
    with ensure_active_ok [OF a e] have "browser_detection_validate x = None" by (simp add: active_ok_def)
    with x e show ?thesis
      using classify_valid_epoch by (simp add: detect_epoch_def detect_browser_def)
  next
    case False
    with e show ?thesis
      by (auto simp: detect_epoch_def detect_browser_def FACTORY_FALLBACK_EPOCH_def epoch_valid_def
          epoch_defs split: bool.splits option.splits)
  qed
  then show ?thesis
    by (auto simp: epoch_valid_def epoch_to_index_def epoch_defs browser_detection_activate_def
        split: option.splits)
qed

theorem detect_epoch_in_range_witness:
  "active_step\<^sup>*\<^sup>* None (Some browser_detection_factory)
   \<and> epoch_to_index (detect_epoch True None (Some browser_detection_factory)) < 5"
proof -
  have "detect_browser True None None =
      (browser_detection_classify browser_detection_factory None, Some browser_detection_factory)"
    by (simp add: detect_browser_def ensure_active_def)
  then have "active_step None (Some browser_detection_factory)" by (rule active_step.detected)
  then have r: "active_step\<^sup>*\<^sup>* None (Some browser_detection_factory)" by simp
  from detect_epoch_in_range [OF r] r show ?thesis by blast
qed

end
