(* ===== verification/Rate_Limit.thy ===== *)
theory Rate_Limit
  imports BR_Prelude
begin

text \<open>
  The contract of a per-client rate limiter, shared by the HTTP listener
  (src/src/web_server/server_listener.c) and the WAP gateway
  (src/src/wap_gateway/wap_gateway.c). Both keep a table of fixed size with one entry per
  client address and, when it is full, give the least recently used slot to a new client.
  The laws say what one request may do to the entries; the lemmas, proved once, say what
  follows for every sequence of requests by any number of clients.
\<close>

subsection \<open>The slot that is given up\<close>

text \<open>The scan for the smallest time, the first of several equal ones.\<close>

fun oldest_loop :: "int list \<Rightarrow> nat \<Rightarrow> nat \<Rightarrow> int \<Rightarrow> nat" where
  "oldest_loop [] i best best_time = best"
| "oldest_loop (t # ts) i best best_time =
     (if t < best_time then oldest_loop ts (Suc i) i t
      else oldest_loop ts (Suc i) best best_time)"

definition oldest_index :: "int list \<Rightarrow> nat" where
  "oldest_index ts = (case ts of [] \<Rightarrow> 0 | t # rest \<Rightarrow> oldest_loop rest 1 0 t)"

lemma oldest_loop_min:
  "xs ! best = bt \<Longrightarrow> best < length xs \<Longrightarrow> \<forall>t\<in>set xs. bt \<le> t \<Longrightarrow>
   (let r = oldest_loop ts (length xs) best bt in
      r < length (xs @ ts) \<and> (\<forall>t\<in>set (xs @ ts). (xs @ ts) ! r \<le> t))"
proof (induction ts arbitrary: xs best bt)
  case (Cons t ts)
  have app: "xs @ t # ts = (xs @ [t]) @ ts" by simp
  have len: "length (xs @ [t]) = Suc (length xs)" by simp
  show ?case
  proof (cases "t < bt")
    case True
    with Cons.prems have "\<forall>u\<in>set (xs @ [t]). t \<le> u" by fastforce
    moreover have "(xs @ [t]) ! length xs = t" "length xs < length (xs @ [t])" by simp_all
    ultimately show ?thesis
      using Cons.IH [of "xs @ [t]" "length xs" t] True
      unfolding app oldest_loop.simps len [symmetric] by simp
  next
    case False
    with Cons.prems have "\<forall>u\<in>set (xs @ [t]). bt \<le> u" "(xs @ [t]) ! best = bt"
      by (auto simp: nth_append)
    moreover have "best < length (xs @ [t])" using Cons.prems(2) by simp
    ultimately show ?thesis
      using Cons.IH [of "xs @ [t]" best bt] False
      unfolding app oldest_loop.simps len [symmetric] by simp
  qed
qed (auto simp: Let_def)

lemma oldest_index_less: "ts \<noteq> [] \<Longrightarrow> oldest_index ts < length ts"
  and oldest_index_min: "ts \<noteq> [] \<Longrightarrow> t \<in> set ts \<Longrightarrow> ts ! oldest_index ts \<le> t"
proof -
  have "let r = oldest_index ts in r < length ts \<and> (\<forall>t\<in>set ts. ts ! r \<le> t)" if "ts \<noteq> []"
  proof (cases ts)
    case (Cons a rest)
    with oldest_loop_min [of "[a]" 0 a rest] show ?thesis by (simp add: oldest_index_def Let_def)
  qed (use that in simp)
  then show "ts \<noteq> [] \<Longrightarrow> oldest_index ts < length ts"
    "ts \<noteq> [] \<Longrightarrow> t \<in> set ts \<Longrightarrow> ts ! oldest_index ts \<le> t"
    by (auto simp: Let_def)
qed

subsection \<open>Looking an entry up by its key\<close>

fun first_index :: "('a \<Rightarrow> bool) \<Rightarrow> 'a list \<Rightarrow> nat option" where
  "first_index P [] = None"
| "first_index P (x # xs) = (if P x then Some 0 else map_option Suc (first_index P xs))"

lemma first_index_None: "first_index P xs = None \<longleftrightarrow> (\<forall>x\<in>set xs. \<not> P x)"
  by (induction xs) auto

lemma first_index_Some:
  "first_index P xs = Some i \<Longrightarrow> i < length xs \<and> P (xs ! i) \<and> (\<forall>j<i. \<not> P (xs ! j))"
proof (induction xs arbitrary: i)
  case (Cons x xs)
  show ?case
  proof (cases "P x")
    case False
    with Cons obtain k where i: "i = Suc k" and k: "first_index P xs = Some k" by auto
    from Cons.IH [OF k] have "\<not> P ((x # xs) ! j)" if "j < i" for j
      using that False by (cases j) (auto simp: i)
    with Cons.IH [OF k] i show ?thesis by simp
  qed (use Cons in auto)
qed simp

lemma first_index_unique:
  assumes "i < length xs" "P (xs ! i)" "\<And>j. j < length xs \<Longrightarrow> P (xs ! j) \<Longrightarrow> j = i"
  shows "first_index P xs = Some i"
proof (cases "first_index P xs")
  case None
  then have "\<forall>x\<in>set xs. \<not> P x" by (simp only: first_index_None)
  then show ?thesis using nth_mem [OF assms(1)] assms(2) by blast
next
  case (Some k)
  with first_index_Some [OF Some] assms(3) [of k] show ?thesis by simp
qed

subsection \<open>Tables of keyed slots\<close>

text \<open>
  A table of slots, each free or holding the entry of one key; \<open>kf\<close> gives the key of a slot.
\<close>

definition slot_lookup :: "('e \<Rightarrow> 'k option) \<Rightarrow> 'e list \<Rightarrow> 'k \<Rightarrow> 'e option" where
  "slot_lookup kf tab k = map_option (\<lambda>i. tab ! i) (first_index (\<lambda>e. kf e = Some k) tab)"

definition slots_distinct :: "('e \<Rightarrow> 'k option) \<Rightarrow> 'e list \<Rightarrow> bool" where
  "slots_distinct kf tab \<longleftrightarrow>
     (\<forall>i<length tab. \<forall>j<length tab. kf (tab ! i) \<noteq> None \<longrightarrow> kf (tab ! i) = kf (tab ! j) \<longrightarrow> i = j)"

definition owns :: "('e \<Rightarrow> 'k option) \<Rightarrow> 'e list \<Rightarrow> nat \<Rightarrow> 'k \<Rightarrow> bool" where
  "owns kf tab i k \<longleftrightarrow> i < length tab \<and> (\<forall>j<length tab. kf (tab ! j) = Some k \<longrightarrow> j = i)"

lemma slot_lookup_None: "slot_lookup kf tab k = None \<longleftrightarrow> (\<forall>e\<in>set tab. kf e \<noteq> Some k)"
  by (simp add: slot_lookup_def first_index_None)

lemma slot_lookup_Some:
  "slot_lookup kf tab k = Some e \<Longrightarrow> e \<in> set tab \<and> kf e = Some k"
  by (auto simp: slot_lookup_def dest!: first_index_Some)

lemma slot_lookup_unique:
  "i < length tab \<Longrightarrow> kf (tab ! i) = Some k \<Longrightarrow> slots_distinct kf tab \<Longrightarrow>
     slot_lookup kf tab k = Some (tab ! i)"
proof -
  assume i: "i < length tab" "kf (tab ! i) = Some k" and d: "slots_distinct kf tab"
  have "first_index (\<lambda>e. kf e = Some k) tab = Some i"
    by (rule first_index_unique) (use i d in \<open>auto simp: slots_distinct_def\<close>)
  then show ?thesis by (simp add: slot_lookup_def)
qed

lemma owns_found:
  "slots_distinct kf tab \<Longrightarrow> i < length tab \<Longrightarrow> kf (tab ! i) = Some k \<Longrightarrow> owns kf tab i k"
  by (auto simp: owns_def slots_distinct_def)

lemma owns_new: "\<forall>e\<in>set tab. kf e \<noteq> Some k \<Longrightarrow> i < length tab \<Longrightarrow> owns kf tab i k"
  by (auto simp: owns_def)

lemma slots_distinct_update:
  assumes "slots_distinct kf tab" "owns kf tab i k" "kf e = Some k"
  shows "slots_distinct kf (tab[i := e])"
  unfolding slots_distinct_def
proof (intro allI impI)
  fix a b
  assume ab: "a < length (tab[i := e])" "b < length (tab[i := e])"
    "kf (tab[i := e] ! a) \<noteq> None" "kf (tab[i := e] ! a) = kf (tab[i := e] ! b)"
  have i: "c = i" if "c < length tab" "kf (tab[i := e] ! c) = Some k" for c
    using that assms(2) by (cases "c = i") (auto simp: owns_def)
  have k: "kf (tab[i := e] ! i) = Some k" using assms(2,3) by (simp add: owns_def)
  show "a = b"
  proof (cases "a = i \<or> b = i")
    case True
    with k ab(3,4) have "kf (tab[i := e] ! a) = Some k" "kf (tab[i := e] ! b) = Some k" by auto
    with i ab(1,2) have "a = i" "b = i" by simp_all
    then show ?thesis by simp
  next
    case False
    with ab have "kf (tab ! a) \<noteq> None" "kf (tab ! a) = kf (tab ! b)" by simp_all
    with ab(1,2) assms(1) show ?thesis by (simp add: slots_distinct_def)
  qed
qed

lemma slot_lookup_update:
  assumes "slots_distinct kf tab" "owns kf tab i k" "kf e = Some k"
  shows "slot_lookup kf (tab[i := e]) k = Some e"
  using slot_lookup_unique [of i "tab[i := e]" kf k] assms slots_distinct_update [OF assms]
  by (auto simp: owns_def)

lemma slot_lookup_update_other:
  assumes d: "slots_distinct kf tab" and o: "owns kf tab i k" and e: "kf e = Some k" and k': "k' \<noteq> k"
  shows "slot_lookup kf (tab[i := e]) k' = slot_lookup kf tab k'
       \<or> slot_lookup kf (tab[i := e]) k' = None"
proof (cases "slot_lookup kf (tab[i := e]) k'")
  case (Some x)
  then have "x \<in> set (tab[i := e])" and x: "kf x = Some k'" by (auto dest: slot_lookup_Some)
  then obtain j where j: "j < length tab" "tab[i := e] ! j = x" by (auto simp: in_set_conv_nth)
  have "j \<noteq> i" using j x e k' o by (auto simp: owns_def)
  then have "tab ! j = x" using j by simp
  with slot_lookup_unique [OF j(1) _ d] x Some show ?thesis by simp
qed simp

text \<open>A pass that frees slots or changes entries in place.\<close>

lemma slots_distinct_map:
  assumes "slots_distinct kf tab" and "\<And>e. kf (f e) = kf e \<or> kf (f e) = None"
  shows "slots_distinct kf (map f tab)"
  unfolding slots_distinct_def
proof (intro allI impI)
  fix a b
  assume ab: "a < length (map f tab)" "b < length (map f tab)" "kf (map f tab ! a) \<noteq> None"
    "kf (map f tab ! a) = kf (map f tab ! b)"
  then have "kf (tab ! a) = kf (f (tab ! a))" "kf (tab ! b) = kf (f (tab ! b))"
    using assms(2) [of "tab ! a"] assms(2) [of "tab ! b"] by auto
  with ab assms(1) show "a = b" by (simp add: slots_distinct_def)
qed

lemma slot_lookup_map:
  assumes "slots_distinct kf tab" and "\<And>e. kf (f e) = kf e \<or> kf (f e) = None"
    and "slot_lookup kf (map f tab) k = Some x"
  shows "\<exists>e. slot_lookup kf tab k = Some e \<and> x = f e"
proof -
  from slot_lookup_Some [OF assms(3)] obtain i where i: "i < length tab" "x = f (tab ! i)"
    and "kf x = Some k" by (auto simp: in_set_conv_nth)
  with assms(2) [of "tab ! i"] have "kf (tab ! i) = Some k" by auto
  with slot_lookup_unique [OF i(1) _ assms(1)] i(2) show ?thesis by blast
qed

subsection \<open>The contract\<close>

text \<open>
  A request at a time by a client: \<open>Some (refused, state')\<close>, or \<open>None\<close> when the code would
  write outside its table.
\<close>

fun run_requests ::
  "(int \<Rightarrow> 'k \<Rightarrow> 's \<Rightarrow> (bool \<times> 's) option) \<Rightarrow> (int \<times> 'k) list \<Rightarrow> 's \<Rightarrow> (bool list \<times> 's) option"
where
  "run_requests step [] s = Some ([], s)"
| "run_requests step ((now, k) # reqs) s =
     (case step now k s of
        None \<Rightarrow> None
      | Some (r, s') \<Rightarrow> map_option (\<lambda>(rs, s''). (r # rs, s'')) (run_requests step reqs s'))"

definition requests_of :: "'k \<Rightarrow> (int \<times> 'k) list \<Rightarrow> nat" where
  "requests_of k reqs = length (filter (\<lambda>q. snd q = k) reqs)"

lemma requests_of_take: "requests_of k (take n reqs) \<le> requests_of k reqs"
proof -
  have "requests_of k reqs = requests_of k (take n reqs) + requests_of k (drop n reqs)"
    unfolding requests_of_def by (metis append_take_drop_id filter_append length_append)
  then show ?thesis by simp
qed

definition hits_of :: "('e \<Rightarrow> int) \<Rightarrow> 'e option \<Rightarrow> int" where
  "hits_of hits e = (case e of None \<Rightarrow> 0 | Some x \<Rightarrow> hits x)"

locale rate_limiter =
  fixes step :: "int \<Rightarrow> 'k \<Rightarrow> 's \<Rightarrow> (bool \<times> 's) option"
    and view :: "'s \<Rightarrow> 'k \<Rightarrow> 'e option"
    and hits :: "'e \<Rightarrow> int"
    and limit :: "'s \<Rightarrow> int"
    and inv :: "'s \<Rightarrow> bool"
    and valid :: "'k \<Rightarrow> bool"
  assumes total: "inv s \<Longrightarrow> valid k \<Longrightarrow> \<exists>r s'. step now k s = Some (r, s')"
    and keeps: "inv s \<Longrightarrow> valid k \<Longrightarrow> step now k s = Some (r, s') \<Longrightarrow> inv s' \<and> limit s' = limit s"
    and others: "inv s \<Longrightarrow> valid k \<Longrightarrow> valid k' \<Longrightarrow> k' \<noteq> k \<Longrightarrow> step now k s = Some (r, s') \<Longrightarrow>
      view s' k' = view s k' \<or> view s' k' = None"
    and counted: "inv s \<Longrightarrow> valid k \<Longrightarrow> step now k s = Some (r, s') \<Longrightarrow>
      hits_of hits (view s' k) \<le> hits_of hits (view s k) + 1"
    and positive: "inv s \<Longrightarrow> valid k \<Longrightarrow> 0 \<le> hits_of hits (view s k)"
    and refused: "inv s \<Longrightarrow> valid k \<Longrightarrow> step now k s = Some (True, s') \<Longrightarrow>
      limit s < hits_of hits (view s' k)"
begin

lemma run_total:
  assumes "inv s" and "\<forall>q\<in>set reqs. valid (snd q)"
  shows "\<exists>rs s'. run_requests step reqs s = Some (rs, s') \<and> length rs = length reqs \<and> inv s'"
  using assms
proof (induction reqs arbitrary: s)
  case (Cons q reqs)
  obtain now k where q: "q = (now, k)" by fastforce
  with total [of s k now] Cons.prems obtain r s1 where st: "step now k s = Some (r, s1)" by auto
  have "valid k" using Cons.prems q by simp
  with keeps [OF Cons.prems(1) _ st] have "inv s1" by blast
  with Cons.IH [of s1] Cons.prems(2)
  obtain rs s2 where "run_requests step reqs s1 = Some (rs, s2)" "length rs = length reqs" "inv s2"
    by auto
  with q st show ?case by simp
qed simp

lemma hits_step:
  assumes "inv s" "valid k" "valid k'" "step now k s = Some (r, s')"
  shows "hits_of hits (view s' k') \<le> hits_of hits (view s k') + (if k = k' then 1 else 0)"
proof (cases "k = k'")
  case True
  with counted assms show ?thesis by simp
next
  case False
  from others [OF assms(1,2,3) _ assms(4)] False
  have "view s' k' = view s k' \<or> view s' k' = None" by simp
  with positive [OF assms(1,3)] False show ?thesis by (auto simp: hits_of_def)
qed

text \<open>A client is refused only for its own requests: it has made more than the limit.\<close>

lemma refused_only_over_limit:
  assumes "inv s" "valid k" "\<forall>q\<in>set reqs. valid (snd q)"
    and "run_requests step reqs s = Some (rs, s')" "i < length reqs" "rs ! i" "snd (reqs ! i) = k"
  shows "limit s < hits_of hits (view s k) + int (requests_of k (take (Suc i) reqs))"
  using assms
proof (induction reqs arbitrary: s rs i)
  case (Cons q reqs)
  obtain now j where q: "q = (now, j)" by fastforce
  with Cons.prems(4) obtain r s1 rs1 where st: "step now j s = Some (r, s1)"
    and run: "run_requests step reqs s1 = Some (rs1, s')" and rs: "rs = r # rs1"
    by (auto split: option.splits)
  have vj: "valid j" using Cons.prems(3) q by auto
  have one: "hits_of hits (view s1 k) \<le> hits_of hits (view s k) + (if j = k then 1 else 0)"
    by (rule hits_step [OF Cons.prems(1) vj Cons.prems(2) st])
  have inv: "inv s1" "limit s1 = limit s" using keeps [OF Cons.prems(1) vj st] by auto
  show ?case
  proof (cases i)
    case 0
    with Cons.prems rs q have "r" "j = k" by auto
    with refused [OF Cons.prems(1,2)] st have "limit s < hits_of hits (view s1 k)" by simp
    with one 0 q \<open>j = k\<close> show ?thesis by (simp add: requests_of_def)
  next
    case (Suc m)
    have "limit s1 < hits_of hits (view s1 k) + int (requests_of k (take (Suc m) reqs))"
    proof (rule Cons.IH)
      show "inv s1" "valid k" by (simp_all add: inv Cons.prems)
      show "\<forall>q\<in>set reqs. valid (snd q)" using Cons.prems(3) by simp
      show "run_requests step reqs s1 = Some (rs1, s')" by (rule run)
      show "m < length reqs" "rs1 ! m" "snd (reqs ! m) = k" using Cons.prems Suc rs by auto
    qed
    with one inv Suc q show ?thesis by (auto simp: requests_of_def split: if_splits)
  qed
qed simp

text \<open>From a table that does not know the client, its first \<open>limit\<close> requests are served.\<close>

lemma within_limit_served:
  assumes "inv s" "view s k = None" "\<forall>q\<in>set reqs. valid (snd q)" "int (requests_of k reqs) \<le> limit s"
    and "run_requests step reqs s = Some (rs, s')" "i < length reqs" "snd (reqs ! i) = k"
  shows "\<not> rs ! i"
proof
  assume "rs ! i"
  have "valid k" using assms(3,6,7) nth_mem by blast
  from refused_only_over_limit [OF assms(1) this assms(3,5,6) \<open>rs ! i\<close> assms(7)]
  have "limit s < int (requests_of k (take (Suc i) reqs))" by (simp add: assms(2) hits_of_def)
  moreover have "requests_of k (take (Suc i) reqs) \<le> requests_of k reqs" by (rule requests_of_take)
  ultimately show False using assms(4) by simp
qed

end

text \<open>A limiter with a periodic sweep that may drop or soften entries, never harden them.\<close>

locale swept_limiter = rate_limiter step view hits limit inv valid
  for step :: "int \<Rightarrow> 'k \<Rightarrow> 's \<Rightarrow> (bool \<times> 's) option"
    and view :: "'s \<Rightarrow> 'k \<Rightarrow> 'e option"
    and hits :: "'e \<Rightarrow> int"
    and limit :: "'s \<Rightarrow> int"
    and inv :: "'s \<Rightarrow> bool"
    and valid :: "'k \<Rightarrow> bool" +
  fixes sweep :: "int \<Rightarrow> 's \<Rightarrow> 's"
  assumes sweep_keeps: "inv s \<Longrightarrow> inv (sweep now s) \<and> limit (sweep now s) = limit s"
    and sweep_hits: "inv s \<Longrightarrow> valid k \<Longrightarrow>
      hits_of hits (view (sweep now s) k) \<le> hits_of hits (view s k)"
begin

text \<open>A sweep before a run of requests never makes a refusal of the run more likely.\<close>

lemma swept_refused_only_over_limit:
  assumes "inv s" "valid k" "\<forall>q\<in>set reqs. valid (snd q)"
    and "run_requests step reqs (sweep now s) = Some (rs, s')"
    and "i < length reqs" "rs ! i" "snd (reqs ! i) = k"
  shows "limit s < hits_of hits (view s k) + int (requests_of k (take (Suc i) reqs))"
proof -
  have "limit (sweep now s) < hits_of hits (view (sweep now s) k) + int (requests_of k (take (Suc i) reqs))"
    by (rule refused_only_over_limit [OF _ assms(2-7)]) (use sweep_keeps assms(1) in blast)
  with sweep_hits [OF assms(1,2), of now] sweep_keeps [OF assms(1), of now] show ?thesis by simp
qed

end

end
