(* ===== verification/Escaping.thy ===== *)
theory Escaping
  imports BR_Prelude
begin

text \<open>
  The contract the server's bounded escapers share: each source byte becomes one plain byte
  or a longer escape, written into an array with room for a terminating NUL, and the loop
  stops before an escape that would not fit. The lemmas are proved once, for every routine
  that satisfies the laws; the components interpret the locale on their own loops.
\<close>

locale bounded_escape =
  fixes enc :: "char \<Rightarrow> string" and loop :: "nat \<Rightarrow> string \<Rightarrow> string" and dec :: "string \<Rightarrow> string"
  assumes enc_not_Nil: "enc c \<noteq> []"
    and loop_Nil: "loop r [] = []"
    and loop_full: "loop 0 s = []"
    and loop_Cons: "loop (Suc r) (c # s) =
      (if length (enc c) = 1 then enc c @ loop r s
       else if Suc r \<le> length (enc c) then []
       else enc c @ loop (Suc r - length (enc c)) s)"
    and dec_Nil: "dec [] = []"
    and dec_enc: "dec (enc c @ t) = c # dec t"
begin

lemma loop_length: "length (loop r s) \<le> r"
proof (induction s arbitrary: r)
  case (Cons c s)
  then show ?case
  proof (cases r)
    case (Suc q)
    have "length (loop q s) \<le> q" "length (loop (Suc q - length (enc c)) s) \<le> Suc q - length (enc c)"
      by (rule Cons.IH)+
    then show ?thesis by (auto simp: Suc loop_Cons)
  qed (simp add: loop_full)
qed (simp add: loop_Nil)

lemma loop_prefix: "\<exists>k\<le>length s. loop r s = concat (map enc (take k s))"
proof (induction s arbitrary: r)
  case (Cons c s)
  show ?case
  proof (cases r)
    case 0
    then show ?thesis by (intro exI [of _ 0]) (simp add: loop_full)
  next
    case (Suc q)
    have step: "\<exists>k\<le>length (c # s). enc c @ loop q' s = concat (map enc (take k (c # s)))" for q'
    proof -
      from Cons.IH [of q'] obtain k where "k \<le> length s" "loop q' s = concat (map enc (take k s))"
        by blast
      then show ?thesis by (intro exI [of _ "Suc k"]) simp
    qed
    consider "loop r (c # s) = []" | q' where "loop r (c # s) = enc c @ loop q' s"
      unfolding Suc loop_Cons by metis
    then show ?thesis
    proof cases
      case 1
      then show ?thesis by (intro exI [of _ 0]) simp
    next
      case 2
      then show ?thesis using step by simp
    qed
  qed
qed (simp add: loop_Nil)

lemma loop_all: "length (concat (map enc s)) < r \<Longrightarrow> loop r s = concat (map enc s)"
proof (induction s arbitrary: r)
  case (Cons c s)
  then obtain q where r: "r = Suc q" by (cases r) auto
  have "length (enc c) + length (concat (map enc s)) < Suc q" using Cons.prems r by simp
  then show ?case
    using Cons.IH [of q] Cons.IH [of "Suc q - length (enc c)"] enc_not_Nil [of c]
    by (simp add: r loop_Cons)
qed (simp add: loop_Nil)

lemma dec_concat: "dec (concat (map enc s)) = s"
  by (induction s) (simp_all add: dec_Nil dec_enc)

lemma dec_loop: "prefix (dec (loop r s)) s"
  using loop_prefix [of s r] dec_concat take_is_prefix by metis

lemma dec_loop_all: "length (concat (map enc s)) < r \<Longrightarrow> dec (loop r s) = s"
  by (simp add: loop_all dec_concat)

lemma loop_chars: "x \<in> set (loop r s) \<Longrightarrow> \<exists>c\<in>set s. x \<in> set (enc c)"
  using loop_prefix [of s r] set_take_subset [of _ s] by fastforce

end

end
