(* ===== verification/Http_Utils.thy ===== *)
theory Http_Utils
  imports Escaping
begin

text \<open>
  The helpers every handler uses (src/src/utils/http_utils.c): MIME types by extension, URL
  and HTML escaping into bounded arrays, the path check in front of every static file, and
  the list of trusted proxies. The file system is not part of the program: \<open>realpath\<close> is a
  parameter of \<open>sanitize_path\<close>.
\<close>

subsection \<open>MIME types\<close>

definition mime_table :: "(string \<times> string) list" where
  "mime_table =
     [(''.html'', ''text/html; charset=UTF-8''), (''.htm'', ''text/html; charset=UTF-8''),
      (''.css'', ''text/css''), (''.js'', ''application/javascript''),
      (''.json'', ''application/json''), (''.xml'', ''application/xml''),
      (''.txt'', ''text/plain; charset=UTF-8''), (''.jpg'', ''image/jpeg''),
      (''.jpeg'', ''image/jpeg''), (''.png'', ''image/png''), (''.gif'', ''image/gif''),
      (''.bmp'', ''image/bmp''), (''.pcx'', ''image/vnd.zbrush.pcx''),
      (''.ico'', ''image/x-icon''), (''.svg'', ''image/svg+xml''), (''.webp'', ''image/webp''),
      (''.mp4'', ''video/mp4''), (''.webm'', ''video/webm''), (''.mp3'', ''audio/mpeg''),
      (''.ogg'', ''audio/ogg''), (''.woff'', ''font/woff''), (''.woff2'', ''font/woff2''),
      (''.ttf'', ''font/ttf''), (''.pdf'', ''application/pdf''),
      (''.wbmp'', ''image/vnd.wap.wbmp'')]"

definition get_mime_type :: "string \<Rightarrow> string" where
  "get_mime_type path =
     (case strrchr path CHR ''.'' of
        None \<Rightarrow> ''application/octet-stream''
      | Some i \<Rightarrow> (case map_of mime_table (drop i path) of
                     None \<Rightarrow> ''application/octet-stream''
                   | Some m \<Rightarrow> m))"

subsection \<open>URL escaping\<close>

definition hex_digit_value :: "char \<Rightarrow> nat" where
  "hex_digit_value a0 =
     (let a = tolower a0 in if ord a \<ge> 97 then ord a - 97 + 10 else ord a - 48)"

fun url_decode :: "string \<Rightarrow> string" where
  "url_decode [] = []"
| "url_decode (c # src) =
     (if c = CHR ''%'' then
        (case src of
           a # b # rest \<Rightarrow>
             if isxdigit a \<and> isxdigit b
             then chr (16 * hex_digit_value a + hex_digit_value b) # url_decode rest
             else c # url_decode src
         | _ \<Rightarrow> c # url_decode src)
      else if c = CHR ''+'' then CHR '' '' # url_decode src
      else c # url_decode src)"

definition url_safe :: "char \<Rightarrow> bool" where
  "url_safe c \<longleftrightarrow> isalnum c \<or> c \<in> set ''-_.~/''"

definition hex_upper :: "nat \<Rightarrow> char" where
  "hex_upper d = (if d < 10 then chr (48 + d) else chr (55 + d))"

definition percent :: "char \<Rightarrow> string" where
  "percent c = [CHR ''%'', hex_upper (ord c div 16), hex_upper (ord c mod 16)]"

text \<open>The loop; the first argument is \<open>end - dst\<close>.\<close>

fun url_encode_loop :: "nat \<Rightarrow> string \<Rightarrow> string" where
  "url_encode_loop room [] = []"
| "url_encode_loop room (c # src) =
     (if room = 0 then []
      else if url_safe c then c # url_encode_loop (room - 1) src
      else if 3 \<ge> room then []
      else percent c @ url_encode_loop (room - 3) src)"

definition url_encode :: "string \<Rightarrow> nat \<Rightarrow> string" where
  "url_encode src dst_size = url_encode_loop (dst_size - 1) src"

subsection \<open>HTML escaping\<close>

fun html_encode_loop :: "nat \<Rightarrow> string \<Rightarrow> string" where
  "html_encode_loop room [] = []"
| "html_encode_loop room (c # src) =
     (if room = 0 then []
      else if c = CHR ''&'' then
        (if 5 \<ge> room then [] else ''&amp;'' @ html_encode_loop (room - 5) src)
      else if c = CHR ''<'' then
        (if 4 \<ge> room then [] else ''&lt;'' @ html_encode_loop (room - 4) src)
      else if c = CHR ''>'' then
        (if 4 \<ge> room then [] else ''&gt;'' @ html_encode_loop (room - 4) src)
      else if c = DQ then
        (if 6 \<ge> room then [] else ''&quot;'' @ html_encode_loop (room - 6) src)
      else c # html_encode_loop (room - 1) src)"

definition html_encode :: "string \<Rightarrow> nat \<Rightarrow> string" where
  "html_encode src dst_size = html_encode_loop (dst_size - 1) src"

subsection \<open>Paths\<close>

definition PATH_MAX :: nat where
  "PATH_MAX = 4096"

definition sanitize_path ::
  "(string \<Rightarrow> string option) \<Rightarrow> string \<Rightarrow> nat \<Rightarrow> string \<Rightarrow> string option"
where
  "sanitize_path realpath url_path safe_size root_directory =
     (let path = root_directory @ url_path; root_len = length root_directory in
      if length path \<ge> PATH_MAX then None
      else case realpath path of
        None \<Rightarrow> None
      | Some resolved \<Rightarrow>
          if take root_len resolved \<noteq> root_directory
             \<or> (root_len < length resolved \<and> resolved ! root_len \<noteq> CHR ''/'') then None
          else if length resolved \<ge> safe_size then None
          else Some resolved)"

subsection \<open>Trusted proxies\<close>

definition TRUSTED_PROXIES_SIZE :: nat where
  "TRUSTED_PROXIES_SIZE = 512"

definition is_trusted_proxy :: "string \<Rightarrow> string option \<Rightarrow> bool" where
  "is_trusted_proxy trusted_proxies peer_ip =
     (case peer_ip of
        None \<Rightarrow> False
      | Some ip \<Rightarrow>
          if trusted_proxies = [] then False
          else list_ex (\<lambda>token. dropWhile (\<lambda>c. c = CHR '' '') token = ip)
                 (strtok (\<lambda>c. c = CHR '','') (fit TRUSTED_PROXIES_SIZE trusted_proxies)))"

subsection \<open>Both escapers satisfy the contract\<close>

definition url_enc :: "char \<Rightarrow> string" where
  "url_enc c = (if url_safe c then [c] else percent c)"

lemma url_safe_plain: "url_safe c \<Longrightarrow> c \<noteq> CHR ''%'' \<and> c \<noteq> CHR ''+''"
  by (auto simp: url_safe_def ctype_defs)

lemma ord_hex_upper: "d < 16 \<Longrightarrow> ord (hex_upper d) = (if d < 10 then 48 + d else 55 + d)"
  by (simp add: hex_upper_def)

lemma hex_upper_xdigit: "d < 16 \<Longrightarrow> isxdigit (hex_upper d)"
  by (auto simp: isxdigit_def isdigit_def ord_hex_upper)

lemma hex_upper_value: "d < 16 \<Longrightarrow> hex_digit_value (hex_upper d) = d"
  by (auto simp: hex_digit_value_def tolower_def isupper_def ord_hex_upper)

text \<open>The bytes of a hash as hexadecimal digits.\<close>

definition hex_of :: "byte list \<Rightarrow> string" where
  "hex_of bs = concat (map (\<lambda>b. [hex_upper (unat b div 16), hex_upper (unat b mod 16)]) bs)"

lemma byte_nibbles: "unat (b :: byte) div 16 < 16" "unat b mod 16 < 16"
proof -
  have "unat b < 2 ^ LENGTH(8)" by (rule unsigned_less)
  then show "unat b div 16 < 16" by (simp add: less_mult_imp_div_less)
qed simp

lemma hex_of_inject: "hex_of a = hex_of b \<Longrightarrow> a = b"
proof (induction a arbitrary: b)
  case Nil
  then show ?case by (cases b) (simp_all add: hex_of_def)
next
  case (Cons x a)
  then obtain y c where b: "b = y # c" by (cases b) (simp_all add: hex_of_def)
  have eq: "hex_upper (unat x div 16) = hex_upper (unat y div 16)" "hex_upper (unat x mod 16) = hex_upper (unat y mod 16)" "hex_of a = hex_of c"
    using Cons.prems b by (simp_all add: hex_of_def)
  have "unat x div 16 = unat y div 16" "unat x mod 16 = unat y mod 16"
    using eq(1,2) hex_upper_value [OF byte_nibbles(1)] hex_upper_value [OF byte_nibbles(2)] by metis+
  then have "unat x = unat y" by (metis div_mult_mod_eq)
  then show ?case using Cons.IH [OF eq(3)] b by (simp add: word_unat_eq_iff)
qed

lemma length_percent: "length (percent c) = 3"
  by (simp add: percent_def)

lemma url_decode_enc: "url_decode (url_enc c @ t) = c # url_decode t"
proof (cases "url_safe c")
  case True
  with url_safe_plain show ?thesis by (simp add: url_enc_def)
next
  case False
  have "ord c div 16 < 16" "ord c mod 16 < 16"
    using ord_less_256 [of c] by (simp_all add: less_mult_imp_div_less)
  moreover have "16 * (ord c div 16) + ord c mod 16 = ord c" by simp
  ultimately show ?thesis
    using False by (simp add: url_enc_def percent_def hex_upper_xdigit hex_upper_value)
qed

interpretation url: bounded_escape url_enc url_encode_loop url_decode
proof
  fix r c s
  show "url_encode_loop (Suc r) (c # s) =
      (if length (url_enc c) = 1 then url_enc c @ url_encode_loop r s
       else if Suc r \<le> length (url_enc c) then []
       else url_enc c @ url_encode_loop (Suc r - length (url_enc c)) s)"
    by (simp add: url_enc_def length_percent)
  show "url_encode_loop 0 s = []" by (cases s) auto
  show "url_enc c \<noteq> []" by (simp add: url_enc_def percent_def)
qed (simp_all add: url_decode_enc)

definition html_enc :: "char \<Rightarrow> string" where
  "html_enc c =
     (if c = CHR ''&'' then ''&amp;'' else if c = CHR ''<'' then ''&lt;''
      else if c = CHR ''>'' then ''&gt;'' else if c = DQ then ''&quot;'' else [c])"

text \<open>What a browser reads back from the four entities the escaper writes.\<close>

fun html_decode :: "string \<Rightarrow> string" where
  "html_decode [] = []"
| "html_decode (c # s) =
     (if c = CHR ''&'' then
        (if prefix ''amp;'' s then CHR ''&'' # html_decode (drop 4 s)
         else if prefix ''lt;'' s then CHR ''<'' # html_decode (drop 3 s)
         else if prefix ''gt;'' s then CHR ''>'' # html_decode (drop 3 s)
         else if prefix ''quot;'' s then DQ # html_decode (drop 5 s)
         else c # html_decode s)
      else c # html_decode s)"

lemma html_decode_enc: "html_decode (html_enc c @ t) = c # html_decode t"
  by (auto simp: html_enc_def)

interpretation html: bounded_escape html_enc html_encode_loop html_decode
proof
  fix r c s
  show "html_encode_loop (Suc r) (c # s) =
      (if length (html_enc c) = 1 then html_enc c @ html_encode_loop r s
       else if Suc r \<le> length (html_enc c) then []
       else html_enc c @ html_encode_loop (Suc r - length (html_enc c)) s)"
    by (simp add: html_enc_def eval_nat_numeral)
  show "html_encode_loop 0 s = []" by (cases s) auto
  show "html_enc c \<noteq> []" by (simp add: html_enc_def)
qed (simp_all add: html_decode_enc)

text \<open>
  Decoding what \<open>url_encode\<close> wrote gives a beginning of the source, and the whole of it
  when the array has room for it; the array is never overrun and what is written needs no
  further escaping.
\<close>

theorem url_encode_roundtrip:
  assumes "0 < dst_size"
  shows "prefix (url_decode (url_encode src dst_size)) src
     \<and> (length (concat (map url_enc src)) + 1 < dst_size \<longrightarrow> url_decode (url_encode src dst_size) = src)
     \<and> length (url_encode src dst_size) < dst_size
     \<and> (\<forall>c\<in>set (url_encode src dst_size). url_safe c \<or> c = CHR ''%'')"
proof -
  have hex: "url_safe (hex_upper d)" if "d < 16" for d
    using hex_upper_xdigit [OF that] by (auto simp: url_safe_def ctype_defs)
  have e: "url_safe x \<or> x = CHR ''%''" if "x \<in> set (url_enc c)" for x c
    using that ord_less_256 [of c]
    by (auto simp: url_enc_def percent_def hex less_mult_imp_div_less split: if_splits)
  have "length (url_encode_loop (dst_size - 1) src) \<le> dst_size - 1" by (rule url.loop_length)
  then show ?thesis
    using assms url.dec_loop [of "dst_size - 1" src] url.dec_loop_all [of src "dst_size - 1"]
      url.loop_chars [of _ "dst_size - 1" src] e
    by (auto simp: url_encode_def)
qed

theorem url_encode_roundtrip_witness:
  "url_encode ''a b&c'' 64 = ''a%20b%26c'' \<and> url_decode (url_encode ''a b&c'' 64) = ''a b&c''"
proof -
  have "length (concat (map url_enc ''a b&c'')) + 1 < 64" by code_simp
  moreover have "url_encode ''a b&c'' 64 = ''a%20b%26c''" by code_simp
  ultimately show ?thesis using url_encode_roundtrip [of 64 "''a b&c''"] by simp
qed

text \<open>
  \<open>html_encode\<close> never overruns its array, never writes a character that could open a tag or
  close an attribute, and never writes a truncated entity: what a browser decodes from it is
  a beginning of the source, and the whole of it when it fits.
\<close>

theorem html_encode_safe:
  assumes "0 < dst_size"
  shows "length (html_encode src dst_size) < dst_size
     \<and> CHR ''<'' \<notin> set (html_encode src dst_size) \<and> CHR ''>'' \<notin> set (html_encode src dst_size)
     \<and> DQ \<notin> set (html_encode src dst_size)
     \<and> prefix (html_decode (html_encode src dst_size)) src
     \<and> (length (concat (map html_enc src)) + 1 < dst_size \<longrightarrow>
          html_decode (html_encode src dst_size) = src)"
proof -
  have e: "x \<noteq> CHR ''<'' \<and> x \<noteq> CHR ''>'' \<and> x \<noteq> DQ" if "x \<in> set (html_enc c)" for x c
    using that by (auto simp: html_enc_def split: if_splits)
  have "length (html_encode_loop (dst_size - 1) src) \<le> dst_size - 1" by (rule html.loop_length)
  then show ?thesis
    using assms html.dec_loop [of "dst_size - 1" src] html.dec_loop_all [of src "dst_size - 1"]
      html.loop_chars [of _ "dst_size - 1" src] e
    by (auto simp: html_encode_def)
qed

theorem html_encode_safe_witness:
  "html_encode ''<b>'' 10 = ''&lt;b'' \<and> CHR ''>'' \<notin> set (html_encode ''<b>'' 10)"
proof -
  have "html_encode ''<b>'' 10 = ''&lt;b''" by (simp add: html_encode_def)
  with html_encode_safe [of 10 "''<b>''"] show ?thesis by simp
qed

subsection \<open>A served path stays under its root\<close>

text \<open>
  C13. Whatever the URL and the file system, a path \<open>sanitize_path\<close> lets through is the
  canonical name of a file that is the root directory itself or lies below it, and fits the
  caller's array. A sibling directory whose name merely begins like the root is refused.
\<close>

theorem sanitize_path_under_root:
  assumes "sanitize_path realpath url_path safe_size root = Some p"
  shows "realpath (root @ url_path) = Some p \<and> length p < safe_size
     \<and> (p = root \<or> (\<exists>below. p = root @ CHR ''/'' # below))"
proof -
  from assms have r: "realpath (root @ url_path) = Some p" and len: "length p < safe_size"
    and t: "take (length root) p = root"
    and s: "length root < length p \<longrightarrow> p ! length root = CHR ''/''"
    by (auto simp: sanitize_path_def Let_def split: if_splits option.splits)
  have p: "p = root @ drop (length root) p" using t by (metis append_take_drop_id)
  show ?thesis
  proof (cases "length root < length p")
    case True
    with s have "drop (length root) p = CHR ''/'' # drop (Suc (length root)) p"
      by (simp add: Cons_nth_drop_Suc [symmetric])
    with p r len show ?thesis by metis
  next
    case False
    with p r len show ?thesis by simp
  qed
qed

theorem sanitize_path_under_root_witness:
  "sanitize_path Some ''/img/a.png'' 100 ''/srv/www'' = Some ''/srv/www/img/a.png''
   \<and> (\<exists>below. ''/srv/www/img/a.png'' = ''/srv/www'' @ CHR ''/'' # below)"
proof -
  have s: "sanitize_path Some ''/img/a.png'' 100 ''/srv/www'' = Some ''/srv/www/img/a.png''"
    by (simp add: sanitize_path_def PATH_MAX_def)
  from sanitize_path_under_root [OF s] show ?thesis using s by simp
qed

subsection \<open>The trusted list\<close>

lemma strtok_join:
  "(\<forall>w\<in>set ws. w \<noteq> [] \<and> CHR '','' \<notin> set w) \<Longrightarrow>
     strtok (\<lambda>c. c = CHR '','') (join_with CHR '','' ws) = ws"
proof (induction "CHR '',''" ws rule: join_with.induct)
  case (2 w)
  then show ?case by (auto intro!: strtok_plain)
next
  case (3 w v vs)
  then show ?case by (subst join_with.simps, subst strtok_sep) auto
qed simp

text \<open>
  A peer is trusted exactly when its address is one of the addresses configured, each
  written after a comma and any number of blanks; no address is trusted by an empty list.
\<close>

theorem is_trusted_proxy_iff:
  assumes "\<forall>ip\<in>set ips. ip \<noteq> [] \<and> CHR '','' \<notin> set ip \<and> hd ip \<noteq> CHR '' ''"
    and "length (join_with CHR '','' (map (\<lambda>ip. replicate n CHR '' '' @ ip) ips)) < TRUSTED_PROXIES_SIZE"
  shows "is_trusted_proxy (join_with CHR '','' (map (\<lambda>ip. replicate n CHR '' '' @ ip) ips)) (Some peer)
     \<longleftrightarrow> peer \<in> set ips"
proof -
  let ?ws = "map (\<lambda>ip. replicate n CHR '' '' @ ip) ips"
  have tok: "strtok (\<lambda>c. c = CHR '','') (join_with CHR '','' ?ws) = ?ws"
    by (rule strtok_join) (use assms(1) in auto)
  have strip: "dropWhile (\<lambda>c. c = CHR '' '') (replicate n CHR '' '' @ ip) = ip" if "ip \<in> set ips" for ip
    using assms(1) that by (cases ip) (auto simp: dropWhile_append)
  have "join_with CHR '','' ?ws = [] \<Longrightarrow> ips = []"
    using assms(1) tok by (metis list.map_disc_iff strtok.simps(1))
  then show ?thesis
    using strip by (auto simp: is_trusted_proxy_def fit_id [OF assms(2)] tok list_ex_iff)
qed

theorem is_trusted_proxy_iff_witness:
  "is_trusted_proxy (join_with CHR '','' (map (\<lambda>ip. replicate 1 CHR '' '' @ ip) [''127.0.0.1'', ''10.0.0.1'']))
     (Some ''10.0.0.1'')"
  by (rule is_trusted_proxy_iff [THEN iffD2]) (simp_all add: TRUSTED_PROXIES_SIZE_def)

end
