(* ===== verification/Inet.thy ===== *)
theory Inet
  imports BR_Prelude
begin

text \<open>
  The address conversions of the C library that the sources call: \<open>inet_pton\<close> (text to
  the 4 or 16 bytes of an address, \<open>None\<close> where the C function does not return 1) and
  \<open>inet_ntop\<close> (bytes to canonical text), for both families, as glibc implements them. An
  address is its bytes in network order.
\<close>

datatype family = AF_INET | AF_INET6

subsection \<open>IPv4: dotted decimal\<close>

definition octet :: "string \<Rightarrow> nat option" where
  "octet s =
     (if s \<noteq> [] \<and> length s \<le> 3 \<and> list_all isdigit s
         \<and> (hd s = CHR ''0'' \<longrightarrow> length s = 1) \<and> dec_value s \<le> 255
      then Some (dec_value s) else None)"

definition inet_pton4 :: "string \<Rightarrow> string option" where
  "inet_pton4 s =
     (case map octet (split_on CHR ''.'' s) of
        [Some a, Some b, Some c, Some d] \<Rightarrow> Some [chr a, chr b, chr c, chr d]
      | _ \<Rightarrow> None)"

definition inet_ntop4 :: "string \<Rightarrow> string" where
  "inet_ntop4 bs = join_with CHR ''.'' (map (\<lambda>b. show_nat (ord b)) (take 4 bs))"

subsection \<open>IPv6\<close>

definition hexval :: "char \<Rightarrow> nat option" where
  "hexval c =
     (if isdigit c then Some (ord c - 48)
      else if 97 \<le> ord c \<and> ord c \<le> 102 then Some (ord c - 87)
      else if 65 \<le> ord c \<and> ord c \<le> 70 then Some (ord c - 55)
      else None)"

text \<open>
  The scanning loop: the text left, the text of the field being read (where an embedded
  IPv4 address would start), the hex digits seen in it and their value, the bytes stored so
  far and the position of a double colon.
\<close>

fun pton6_loop ::
  "string \<Rightarrow> string \<Rightarrow> nat \<Rightarrow> nat \<Rightarrow> string \<Rightarrow> nat option \<Rightarrow> (nat \<times> nat \<times> string \<times> nat option) option"
where
  "pton6_loop [] tok seen val out colon = Some (seen, val, out, colon)"
| "pton6_loop (c # cs) tok seen val out colon =
     (case hexval c of
        Some d \<Rightarrow> if seen = 4 then None else pton6_loop cs tok (Suc seen) (val * 16 + d) out colon
      | None \<Rightarrow>
          if c = CHR '':'' then
            if seen = 0 then
              (if colon \<noteq> None then None else pton6_loop cs cs 0 val out (Some (length out)))
            else if cs = [] then None
            else if length out + 2 > 16 then None
            else pton6_loop cs cs 0 0 (out @ [chr (val div 256), chr (val mod 256)]) colon
          else if c = CHR ''.'' \<and> length out + 4 \<le> 16 then
            (case inet_pton4 tok of
               Some b \<Rightarrow> Some (0, val, out @ b, colon)
             | None \<Rightarrow> None)
          else None)"

definition inet_pton6 :: "string \<Rightarrow> string option" where
  "inet_pton6 s =
     (if s = [] then None
      else if hd s = CHR '':'' \<and> (tl s = [] \<or> hd (tl s) \<noteq> CHR '':'') then None
      else
        let s1 = (if hd s = CHR '':'' then tl s else s) in
        case pton6_loop s1 s1 0 0 [] None of
          None \<Rightarrow> None
        | Some (seen, val, out, colon) \<Rightarrow>
            if seen > 0 \<and> length out + 2 > 16 then None
            else
              let out1 = (if seen > 0 then out @ [chr (val div 256), chr (val mod 256)] else out)
              in case colon of
                   Some k \<Rightarrow>
                     if length out1 = 16 then None
                     else Some (take k out1 @ replicate (16 - length out1) NUL @ drop k out1)
                 | None \<Rightarrow> if length out1 = 16 then Some out1 else None)"

fun show_hex :: "nat \<Rightarrow> string" where
  "show_hex n = (let d = (\<lambda>k. if k < 10 then chr (48 + k) else chr (87 + k))
     in if n < 16 then [d n] else show_hex (n div 16) @ [d (n mod 16)])"

declare show_hex.simps [simp del]

fun word_list :: "string \<Rightarrow> nat list" where
  "word_list (a # b # bs) = (ord a * 256 + ord b) # word_list bs"
| "word_list _ = []"

text \<open>The first longest run of zero words: its start and length.\<close>

fun best_zero_run :: "nat list \<Rightarrow> nat \<Rightarrow> (nat \<times> nat) option \<Rightarrow> (nat \<times> nat) option \<Rightarrow> (nat \<times> nat) option"
where
  "best_zero_run [] i cur best =
     (case cur of None \<Rightarrow> best
      | Some (cb, cl) \<Rightarrow> (case best of None \<Rightarrow> cur | Some (bb, bl) \<Rightarrow> if cl > bl then cur else best))"
| "best_zero_run (w # ws) i cur best =
     (if w = 0 then
        best_zero_run ws (Suc i) (case cur of None \<Rightarrow> Some (i, 1) | Some (cb, cl) \<Rightarrow> Some (cb, Suc cl)) best
      else
        best_zero_run ws (Suc i) None
          (case cur of None \<Rightarrow> best
           | Some (cb, cl) \<Rightarrow> (case best of None \<Rightarrow> cur | Some (bb, bl) \<Rightarrow> if cl > bl then cur else best)))"

fun ntop6_words :: "string \<Rightarrow> nat list \<Rightarrow> (nat \<times> nat) option \<Rightarrow> nat list \<Rightarrow> nat \<Rightarrow> string" where
  "ntop6_words bs ws best [] i = []"
| "ntop6_words bs ws best (w # rest) i =
     (case best of
        Some (b, l) \<Rightarrow>
          if b \<le> i \<and> i < b + l then
            (if i = b then CHR '':'' # ntop6_words bs ws best rest (Suc i)
             else ntop6_words bs ws best rest (Suc i))
          else
            (if i \<noteq> 0 then [CHR '':''] else []) @
            (if i = 6 \<and> b = 0 \<and> (l = 6 \<or> l = 5 \<and> ws ! 5 = 65535)
             then inet_ntop4 (drop 12 bs)
             else show_hex w @ ntop6_words bs ws best rest (Suc i))
      | None \<Rightarrow>
          (if i \<noteq> 0 then [CHR '':''] else []) @ show_hex w @ ntop6_words bs ws best rest (Suc i))"

definition inet_ntop6 :: "string \<Rightarrow> string" where
  "inet_ntop6 bs =
     (let ws = word_list (take 16 bs);
          best = (case best_zero_run ws 0 None None of
                    Some (b, l) \<Rightarrow> if l < 2 then None else Some (b, l)
                  | None \<Rightarrow> None)
      in ntop6_words bs ws best ws 0 @
         (case best of Some (b, l) \<Rightarrow> if b + l = 8 then [CHR '':''] else [] | None \<Rightarrow> []))"

fun inet_pton :: "family \<Rightarrow> string \<Rightarrow> string option" where
  "inet_pton AF_INET s = inet_pton4 s"
| "inet_pton AF_INET6 s = inet_pton6 s"

fun inet_ntop :: "family \<Rightarrow> string \<Rightarrow> string" where
  "inet_ntop AF_INET bs = inet_ntop4 bs"
| "inet_ntop AF_INET6 bs = inet_ntop6 bs"

subsection \<open>Facts the components use\<close>

lemma octet_Some:
  "octet s = Some n \<Longrightarrow> s \<noteq> [] \<and> length s \<le> 3 \<and> list_all isdigit s \<and> n \<le> 255 \<and> n = dec_value s
     \<and> (hd s = CHR ''0'' \<longrightarrow> length s = 1)"
  by (auto simp: octet_def split: if_splits)

lemma digit_eq_chr: "isdigit c \<Longrightarrow> c = chr (48 + (ord c - 48))"
  by (simp add: isdigit_def)

text \<open>A decimal number without leading zeros is what printing its value gives.\<close>

lemma dec_value_Cons_pos:
  "list_all isdigit s \<Longrightarrow> s \<noteq> [] \<Longrightarrow> hd s \<noteq> CHR ''0'' \<Longrightarrow> 0 < dec_value s"
proof (induction s rule: rev_induct)
  case (snoc c s)
  show ?case
  proof (cases s)
    case Nil
    with snoc have "ord c \<noteq> ord (CHR ''0'')" unfolding ord_inject by simp
    with snoc Nil show ?thesis by (simp add: dec_value_def isdigit_def)
  next
    case Cons
    with snoc have "0 < dec_value s" by simp
    then show ?thesis by simp
  qed
qed simp

lemma show_dec_value:
  "list_all isdigit s \<Longrightarrow> s \<noteq> [] \<Longrightarrow> (hd s = CHR ''0'' \<longrightarrow> length s = 1) \<Longrightarrow> show_nat (dec_value s) = s"
proof (induction s rule: rev_induct)
  case (snoc c s)
  then have c: "isdigit c" by simp
  then have d: "ord c - 48 < 10" and cc: "chr (48 + (ord c - 48)) = c"
    by (auto simp: isdigit_def)
  show ?case
  proof (cases "s = []")
    case True
    with d cc show ?thesis by (subst show_nat.simps) (simp add: dec_value_def)
  next
    case False
    with snoc.prems have hd: "hd s \<noteq> CHR ''0''" and s: "list_all isdigit s" by auto
    with False have pos: "0 < dec_value s" by (simp add: dec_value_Cons_pos)
    from snoc.IH s False hd have IH: "show_nat (dec_value s) = s" by simp
    have "(dec_value s * 10 + (ord c - 48)) div 10 = dec_value s"
      and "(dec_value s * 10 + (ord c - 48)) mod 10 = ord c - 48"
      using d by simp_all
    with IH pos cc show ?thesis by (subst show_nat.simps) simp
  qed
qed simp

lemma inet_pton4_Some:
  assumes "inet_pton4 s = Some bs"
  obtains a b c d where
    "split_on CHR ''.'' s = [a, b, c, d]"
    "octet a = Some (dec_value a)" "octet b = Some (dec_value b)"
    "octet c = Some (dec_value c)" "octet d = Some (dec_value d)"
    "bs = [chr (dec_value a), chr (dec_value b), chr (dec_value c), chr (dec_value d)]"
proof -
  from assms obtain a b c d where
    f: "split_on CHR ''.'' s = [a, b, c, d]" and
    o: "octet a \<noteq> None" "octet b \<noteq> None" "octet c \<noteq> None" "octet d \<noteq> None" and
    bs: "bs = [chr (the (octet a)), chr (the (octet b)), chr (the (octet c)), chr (the (octet d))]"
    by (auto simp: inet_pton4_def map_eq_Cons_conv split: list.splits option.splits)
  have v: "octet x = Some (dec_value x)" if "octet x \<noteq> None" for x
    using that by (auto dest: octet_Some)
  show thesis
    by (rule that [OF f o [THEN v]]) (simp add: bs o [THEN v])
qed

lemma inet_pton4_length: "inet_pton4 s = Some bs \<Longrightarrow> length bs = 4"
  by (erule inet_pton4_Some) simp

text \<open>glibc's \<open>inet_pton\<close> accepts only canonical dotted decimal: printing gives the text back.\<close>

lemma inet_ntop4_pton4: "inet_pton4 s = Some bs \<Longrightarrow> inet_ntop4 bs = s"
proof (erule inet_pton4_Some)
  fix a b c d
  assume f: "split_on CHR ''.'' s = [a, b, c, d]"
    and o: "octet a = Some (dec_value a)" "octet b = Some (dec_value b)"
           "octet c = Some (dec_value c)" "octet d = Some (dec_value d)"
    and bs: "bs = [chr (dec_value a), chr (dec_value b), chr (dec_value c), chr (dec_value d)]"
  have sh: "show_nat (ord (chr (dec_value x))) = x" if "octet x = Some (dec_value x)" for x
    using octet_Some [OF that] by (simp add: show_dec_value)
  have "inet_ntop4 bs = join_with CHR ''.'' [a, b, c, d]"
    using o by (simp add: inet_ntop4_def bs sh)
  also have "\<dots> = s" using join_split [of "CHR ''.''" s] f by simp
  finally show "inet_ntop4 bs = s" .
qed

lemma inet_pton4_chars:
  assumes "inet_pton4 s = Some bs" and "ch \<in> set s"
  shows "isdigit ch \<or> ch = CHR ''.''"
  using assms(1)
proof (rule inet_pton4_Some)
  fix a b c d
  assume f: "split_on CHR ''.'' s = [a, b, c, d]"
    and o: "octet a = Some (dec_value a)" "octet b = Some (dec_value b)"
           "octet c = Some (dec_value c)" "octet d = Some (dec_value d)"
  have dg: "\<forall>y\<in>set x. isdigit y" if "octet x = Some (dec_value x)" for x
    using octet_Some [OF that] by (simp add: list_all_iff)
  have "s = join_with CHR ''.'' [a, b, c, d]" using join_split [of "CHR ''.''" s] f by simp
  with assms(2) o dg show ?thesis by auto
qed

lemma inet_pton4_len_le: "inet_pton4 s = Some bs \<Longrightarrow> length s \<le> 15"
proof (erule inet_pton4_Some)
  fix a b c d
  assume f: "split_on CHR ''.'' s = [a, b, c, d]"
    and o: "octet a = Some (dec_value a)" "octet b = Some (dec_value b)"
           "octet c = Some (dec_value c)" "octet d = Some (dec_value d)"
  have "s = join_with CHR ''.'' [a, b, c, d]" using join_split [of "CHR ''.''" s] f by simp
  then show "length s \<le> 15" using o [THEN octet_Some] by simp
qed

lemma pton6_loop_chars:
  assumes "pton6_loop cs tok seen val out colon = Some r" and "suffix cs tok" and "ch \<in> set cs"
  shows "isxdigit ch \<or> ch = CHR '':'' \<or> ch = CHR ''.''"
  using assms
proof (induction cs tok seen val out colon rule: pton6_loop.induct)
  case (2 c cs tok seen val out colon)
  from "2.prems"(2) have suf: "suffix cs tok" by (rule suffix_ConsD)
  show ?case
  proof (cases "hexval c")
    case (Some d)
    then have "isxdigit c" by (auto simp: hexval_def isxdigit_def split: if_splits)
    with 2 Some suf show ?thesis by (auto split: if_splits)
  next
    case None
    consider "c = CHR '':''" | b where "c = CHR ''.''" "inet_pton4 tok = Some b"
      using "2.prems"(1) None by (auto split: if_splits option.splits)
    then show ?thesis
    proof cases
      case 1
      with 2 None show ?thesis by (auto split: if_splits)
    next
      case (2 b)
      from "2.prems"(2,3) have "ch \<in> set tok" by (auto simp: suffix_def)
      with 2 show ?thesis by (auto dest: inet_pton4_chars simp: isxdigit_def)
    qed
  qed
qed simp

lemma inet_pton6_chars:
  assumes "inet_pton6 s = Some bs" and "ch \<in> set s"
  shows "isxdigit ch \<or> ch = CHR '':'' \<or> ch = CHR ''.''"
proof -
  define s1 where "s1 = (if hd s = CHR '':'' then tl s else s)"
  from assms(1) obtain r where r: "pton6_loop s1 s1 0 0 [] None = Some r"
    by (auto simp: inet_pton6_def Let_def s1_def split: if_splits option.splits)
  from assms(1) have "s \<noteq> []" by (auto simp: inet_pton6_def)
  with assms(2) have "ch = CHR '':'' \<or> ch \<in> set s1"
    by (cases s) (auto simp: s1_def)
  with pton6_loop_chars [OF r] show ?thesis by auto
qed

lemma inet_pton_chars:
  assumes "inet_pton af s = Some bs" and "ch \<in> set s"
  shows "isxdigit ch \<or> ch = CHR '':'' \<or> ch = CHR ''.''"
proof (cases af)
  case AF_INET
  with assms have "isdigit ch \<or> ch = CHR ''.''" using inet_pton4_chars by simp
  then show ?thesis by (auto simp: isxdigit_def)
next
  case AF_INET6
  with assms show ?thesis using inet_pton6_chars by simp
qed

lemma inet_pton_not_Nil: "inet_pton af s = Some bs \<Longrightarrow> s \<noteq> []"
  by (cases af) (auto simp: inet_pton4_def octet_def inet_pton6_def)

lemma inet_pton_plain:
  assumes "inet_pton af s = Some bs"
  shows "CHR '' '' \<notin> set s" and "CR \<notin> set s" and "NUL \<notin> set s"
  using inet_pton_chars [OF assms, of "CHR '' ''"] inet_pton_chars [OF assms, of CR]
    inet_pton_chars [OF assms, of NUL] by (auto simp: isxdigit_def isdigit_def)

end
