(* ===== verification/Server_Listener.thy ===== *)
theory Server_Listener
  imports Rate_Limit Http_Utils Inet
begin

text \<open>
  The listener (src/src/web_server/server_listener.c): the cap on live connections, the
  per-address rate limit with its temporary ban and its LRU table, the cleanup pass, and the
  accept loop's decision for each new connection. The clock is a parameter of every
  operation that reads it; every operation runs under its mutex, so an interleaving of the
  threads is a sequence of these operations. \<open>None\<close> stands for a write outside the table.
  Counters are unbounded integers: an entry that goes over the limit is blocked and counts no further, so that
  the code's int holds its count for every limit below the largest int.
\<close>

subsection \<open>State\<close>

record ddos_config =
  ddos_max_connections :: int
  ddos_rate_window_secs :: int
  ddos_rate_limit :: int
  ddos_max_ips :: int
  ddos_ip_stale_secs :: int
  cfg_proxy_protocol :: bool
  cfg_trusted_proxies :: string

record ip_entry =
  ip :: string
  used :: bool
  last_conn :: int
  last_rejected :: int
  count :: int
  blocked :: bool

definition zero_entry :: ip_entry where
  "zero_entry = \<lparr>ip = replicate 16 NUL, used = False, last_conn = 0, last_rejected = 0, count = 0,
                 blocked = False\<rparr>"

record listener =
  cfg :: ddos_config
  server_fd_http :: int
  server_fd_https :: int
  ssl_ctx :: bool
  running :: bool
  cleanup_running :: bool
  cleanup_thread_started :: bool
  accept_thread_started :: bool
  active_connections :: int
  ip_table :: "ip_entry list"

subsection \<open>The connection cap\<close>

definition try_register_connection :: "listener \<Rightarrow> bool \<times> listener" where
  "try_register_connection s =
     (if active_connections s < ddos_max_connections (cfg s)
      then (True, s\<lparr>active_connections := active_connections s + 1\<rparr>)
      else (False, s))"

text \<open>Whether \<open>server_stop\<close> is signalled, and the state.\<close>

definition unregister_connection :: "listener \<Rightarrow> bool \<times> listener" where
  "unregister_connection s =
     (let s1 = (if active_connections s > 0
                then s\<lparr>active_connections := active_connections s - 1\<rparr> else s)
      in (active_connections s1 = 0, s1))"

subsection \<open>The rate limit\<close>

definition ipv4_key :: "string \<Rightarrow> string" where
  "ipv4_key addr = replicate 10 NUL @ [CHR 0xFF, CHR 0xFF] @ addr"

text \<open>What a known address's entry becomes, and whether the connection is refused.\<close>

definition touch_entry :: "ddos_config \<Rightarrow> int \<Rightarrow> ip_entry \<Rightarrow> bool \<times> ip_entry" where
  "touch_entry c now e =
     (if blocked e \<and> \<not> (now - last_rejected e > ddos_rate_window_secs c * 2) then (True, e)
      else
        let e1 = (if blocked e then e\<lparr>blocked := False, count := 0\<rparr> else e) in
        if now - last_conn e1 < ddos_rate_window_secs c then
          let e2 = e1\<lparr>count := count e1 + 1, last_conn := now\<rparr> in
          if count e2 > ddos_rate_limit c
          then (True, e2\<lparr>blocked := True, last_rejected := now\<rparr>)
          else (False, e2)
        else (False, e1\<lparr>count := 1, last_conn := now\<rparr>))"

definition fresh_entry :: "string \<Rightarrow> int \<Rightarrow> ip_entry" where
  "fresh_entry key now = zero_entry\<lparr>used := True, count := 1, last_conn := now, ip := key\<rparr>"

definition too_many_connections :: "int \<Rightarrow> string \<Rightarrow> listener \<Rightarrow> (bool \<times> listener) option" where
  "too_many_connections now key s =
     (let table = ip_table s in
      case first_index (\<lambda>e. used e \<and> ip e = key) table of
        Some i \<Rightarrow>
          let (refuse, e) = touch_entry (cfg s) now (table ! i)
          in Some (refuse, s\<lparr>ip_table := table[i := e]\<rparr>)
      | None \<Rightarrow>
          (case first_index (\<lambda>e. \<not> used e) table of
             Some i \<Rightarrow> Some (False, s\<lparr>ip_table := table[i := fresh_entry key now]\<rparr>)
           | None \<Rightarrow>
               let oldest_idx = oldest_index (map last_conn table) in
               if oldest_idx < length table
               then Some (False, s\<lparr>ip_table := table[oldest_idx := fresh_entry key now]\<rparr>)
               else None))"

definition server_ip_rate_limited :: "int \<Rightarrow> string \<Rightarrow> listener \<Rightarrow> (bool \<times> listener) option" where
  "server_ip_rate_limited now ip_text s =
     (case inet_pton AF_INET ip_text of
        Some v4 \<Rightarrow> too_many_connections now (ipv4_key v4) s
      | None \<Rightarrow> (case inet_pton AF_INET6 ip_text of
                   Some key \<Rightarrow> too_many_connections now key s
                 | None \<Rightarrow> Some (False, s)))"

definition rate_limit_after_header :: "ddos_config \<Rightarrow> string \<Rightarrow> bool" where
  "rate_limit_after_header c peer \<longleftrightarrow>
     cfg_proxy_protocol c \<and> is_trusted_proxy (cfg_trusted_proxies c) (Some (inet_ntop AF_INET peer))"

definition rate_limited_at_accept :: "int \<Rightarrow> string \<Rightarrow> listener \<Rightarrow> (bool \<times> listener) option" where
  "rate_limited_at_accept now peer s =
     (if rate_limit_after_header (cfg s) peer then Some (False, s)
      else too_many_connections now (ipv4_key peer) s)"

subsection \<open>The cleanup pass\<close>

definition cleanup_entry :: "ddos_config \<Rightarrow> int \<Rightarrow> ip_entry \<Rightarrow> ip_entry" where
  "cleanup_entry c now e =
     (if \<not> used e then e
      else
        let e1 = (if blocked e \<and> now - last_rejected e > ddos_rate_window_secs c * 2
                  then e\<lparr>blocked := False\<rparr> else e)
        in if \<not> blocked e1 \<and> now - last_conn e1 > ddos_ip_stale_secs c then zero_entry else e1)"

text \<open>The pass under the table's mutex, with the number of entries it freed.\<close>

definition ip_table_cleanup :: "int \<Rightarrow> listener \<Rightarrow> nat \<times> listener" where
  "ip_table_cleanup now s =
     (length (filter (\<lambda>e. used e \<and> \<not> used (cleanup_entry (cfg s) now e)) (ip_table s)),
      s\<lparr>ip_table := map (cleanup_entry (cfg s) now) (ip_table s)\<rparr>)"

subsection \<open>Accepting a connection\<close>

definition RESPONSE_429 :: string where
  "RESPONSE_429 =
     ''HTTP/1.1 429 Too Many Requests'' @ CRLF @
     ''Content-Type: text/plain'' @ CRLF @
     ''Retry-After: 10'' @ CRLF @
     ''Content-Length: 19'' @ CRLF @
     ''Connection: close'' @ CRLF @
     CRLF @
     ''Too Many Requests'' @ [LF]"

text \<open>What happens to an accepted socket: bytes written before it is closed, or a thread.\<close>

datatype disposition = Closed string | Spawned bool

text \<open>Whether the allocation of the arguments and the thread's creation succeed is given.\<close>

definition spawn_thread :: "bool \<Rightarrow> bool \<Rightarrow> bool \<Rightarrow> listener \<Rightarrow> disposition \<times> listener" where
  "spawn_thread malloc_ok create_ok ssl s =
     (if \<not> malloc_ok then (Closed [], snd (unregister_connection s))
      else if \<not> create_ok then (Closed [], snd (unregister_connection s))
      else (Spawned ssl, s))"

definition accept_http ::
  "int \<Rightarrow> string \<Rightarrow> bool \<Rightarrow> bool \<Rightarrow> listener \<Rightarrow> (disposition \<times> listener) option"
where
  "accept_http now peer malloc_ok create_ok s =
     (case rate_limited_at_accept now peer s of
        None \<Rightarrow> None
      | Some (limited, s1) \<Rightarrow>
          if limited then Some (Closed RESPONSE_429, s1)
          else
            let (ok, s2) = try_register_connection s1 in
            if \<not> ok then Some (Closed RESPONSE_429, s2)
            else Some (spawn_thread malloc_ok create_ok False s2))"

definition accept_https ::
  "int \<Rightarrow> string \<Rightarrow> bool \<Rightarrow> bool \<Rightarrow> bool \<Rightarrow> listener \<Rightarrow> (disposition \<times> listener) option"
where
  "accept_https now peer ssl_ok malloc_ok create_ok s =
     (case rate_limited_at_accept now peer s of
        None \<Rightarrow> None
      | Some (limited, s1) \<Rightarrow>
          if limited then Some (Closed [], s1)
          else
            let (ok, s2) = try_register_connection s1 in
            if \<not> ok then Some (Closed [], s2)
            else if \<not> ssl_ok then Some (Closed [], snd (unregister_connection s2))
            else Some (spawn_thread malloc_ok create_ok True s2))"

subsection \<open>Starting and stopping\<close>

text \<open>The results of the system calls are given: \<open>socket\<close>'s descriptor, \<open>bind\<close> and \<open>listen\<close>.\<close>

definition make_listener :: "string \<Rightarrow> int \<Rightarrow> int \<Rightarrow> int \<Rightarrow> int" where
  "make_listener listen_address fd bind_rc listen_rc =
     (if fd < 0 then -1
      else if listen_address \<noteq> [] \<and> inet_pton AF_INET listen_address = None then -1
      else if bind_rc < 0 then -1
      else if listen_rc < 0 then -1
      else fd)"

record start_env =
  calloc_ok :: bool
  cleanup_create_ok :: bool
  http_fd :: int
  https_fd :: int
  tls_ok :: bool
  accept_create_ok :: bool

definition static_listener :: "ddos_config \<Rightarrow> listener" where
  "static_listener c =
     \<lparr>cfg = c, server_fd_http = -1, server_fd_https = -1, ssl_ctx = False, running = True,
      cleanup_running = True, cleanup_thread_started = False, accept_thread_started = False,
      active_connections = 0, ip_table = []\<rparr>"

text \<open>
  \<open>http_fd\<close> and \<open>https_fd\<close> are what \<open>make_listener\<close> returns. A failure leaves what was already
  started as it is, as the code does.
\<close>

definition server_start :: "start_env \<Rightarrow> bool \<Rightarrow> listener \<Rightarrow> int \<times> listener" where
  "server_start env ssl_enabled s0 =
     (if \<not> calloc_ok env then (-1, s0)
      else
        let s1 = s0\<lparr>ip_table := replicate (nat (ddos_max_ips (cfg s0))) zero_entry,
                    cleanup_running := True\<rparr> in
        if \<not> cleanup_create_ok env then (-1, s1\<lparr>ip_table := []\<rparr>)
        else
          let s2 = s1\<lparr>cleanup_thread_started := True, server_fd_http := http_fd env\<rparr> in
          if http_fd env < 0 then (-1, s2)
          else
            let s3 = (if ssl_enabled then s2\<lparr>server_fd_https := https_fd env\<rparr> else s2) in
            if ssl_enabled \<and> https_fd env < 0 then (-1, s3)
            else if ssl_enabled \<and> \<not> tls_ok env then (-1, s3)
            else
              let s4 = (if ssl_enabled then s3\<lparr>ssl_ctx := True\<rparr> else s3) in
              if \<not> accept_create_ok env then (-1, s4)
              else (0, s4\<lparr>accept_thread_started := True\<rparr>))"

text \<open>
  The wait of \<open>server_stop\<close> for the connections that use the TLS context: each wake-up comes
  after some connections have unregistered, or is the timeout.
\<close>

datatype wait_event = WaitTimeout | WaitWoken nat

fun wait_drained :: "wait_event list \<Rightarrow> listener \<Rightarrow> (bool \<times> listener) option" where
  "wait_drained es s =
     (if active_connections s > 0 then
        (case es of
           [] \<Rightarrow> None
         | WaitTimeout # es' \<Rightarrow> Some (True, s)
         | WaitWoken n # es' \<Rightarrow> wait_drained es' (((snd \<circ> unregister_connection) ^^ n) s))
      else Some (False, s))"

declare wait_drained.simps [simp del]

definition server_stop :: "wait_event list \<Rightarrow> listener \<Rightarrow> (bool \<times> listener) option" where
  "server_stop es s =
     (let s1 = s\<lparr>running := False, server_fd_http := -1, server_fd_https := -1,
                accept_thread_started := False\<rparr>;
          finish = (\<lambda>s. s\<lparr>cleanup_running := (if cleanup_thread_started s then False else cleanup_running s),
                          cleanup_thread_started := False, ip_table := []\<rparr>)
      in
        if ssl_ctx s1 then
          map_option (\<lambda>(late, s2). (late, finish (s2\<lparr>ssl_ctx := False\<rparr>))) (wait_drained es s1)
        else Some (False, finish s1))"

subsection \<open>The table satisfies the rate limiter's contract\<close>

definition entry_key :: "ip_entry \<Rightarrow> string option" where
  "entry_key e = (if used e then Some (ip e) else None)"

definition listener_view :: "listener \<Rightarrow> string \<Rightarrow> ip_entry option" where
  "listener_view s = slot_lookup entry_key (ip_table s)"

definition listener_limit :: "listener \<Rightarrow> int" where
  "listener_limit s = ddos_rate_limit (cfg s)"

text \<open>
  One entry per address, counts that are never negative, and a ban only on an address that
  has gone over the limit.
\<close>

definition listener_inv :: "listener \<Rightarrow> bool" where
  "listener_inv s \<longleftrightarrow>
     ip_table s \<noteq> [] \<and> slots_distinct entry_key (ip_table s)
     \<and> (\<forall>e\<in>set (ip_table s). 0 \<le> count e \<and> (blocked e \<longrightarrow> ddos_rate_limit (cfg s) < count e))"

lemma touch_entry_key [simp]: "entry_key (snd (touch_entry c now e)) = entry_key e"
  by (auto simp: touch_entry_def Let_def entry_key_def)

lemma fresh_entry_key [simp]: "entry_key (fresh_entry key now) = Some key"
  by (simp add: entry_key_def fresh_entry_def)

lemma touch_entry_count:
  "0 \<le> count e \<Longrightarrow> blocked e \<longrightarrow> ddos_rate_limit c < count e \<Longrightarrow>
   touch_entry c now e = (r, e') \<Longrightarrow>
     0 \<le> count e' \<and> count e' \<le> count e + 1 \<and> (blocked e' \<longrightarrow> ddos_rate_limit c < count e')
     \<and> (r \<longrightarrow> ddos_rate_limit c < count e')"
  by (auto simp: touch_entry_def Let_def split: if_splits)

text \<open>One request replaces the slot of its address, found or newly given.\<close>

lemma too_many_cases:
  assumes "listener_inv s"
  obtains i r e where "too_many_connections now key s = Some (r, s\<lparr>ip_table := (ip_table s)[i := e]\<rparr>)"
    and "owns entry_key (ip_table s) i key" and "entry_key e = Some key"
    and "0 \<le> count e" and "blocked e \<longrightarrow> ddos_rate_limit (cfg s) < count e"
    and "count e \<le> hits_of count (listener_view s key) + 1"
    and "r \<longrightarrow> ddos_rate_limit (cfg s) < count e"
proof -
  let ?t = "ip_table s"
  note result = that
  from assms have ne: "?t \<noteq> []" and d: "slots_distinct entry_key ?t"
    and e: "\<And>e. e \<in> set ?t \<Longrightarrow> 0 \<le> count e \<and> (blocked e \<longrightarrow> ddos_rate_limit (cfg s) < count e)"
    by (auto simp: listener_inv_def)
  have k: "(\<lambda>e. used e \<and> ip e = key) = (\<lambda>e. entry_key e = Some key)"
    by (auto simp: entry_key_def fun_eq_iff)
  have new: thesis if "first_index (\<lambda>e. entry_key e = Some key) ?t = None" "i < length ?t"
    and tm: "too_many_connections now key s = Some (False, s\<lparr>ip_table := ?t[i := fresh_entry key now]\<rparr>)" for i
  proof (rule result [OF tm])
    have "\<forall>e\<in>set ?t. entry_key e \<noteq> Some key" using that(1) by (simp add: first_index_None)
    then show "owns entry_key ?t i key" using that(2) by (rule owns_new)
    from that(1) have "listener_view s key = None" by (simp add: listener_view_def slot_lookup_def)
    then show "count (fresh_entry key now) \<le> hits_of count (listener_view s key) + 1"
      by (simp add: hits_of_def fresh_entry_def)
  qed (simp_all add: fresh_entry_def zero_entry_def entry_key_def)
  show thesis
  proof (cases "first_index (\<lambda>e. entry_key e = Some key) ?t")
    case (Some i)
    from first_index_Some [OF Some] have i: "i < length ?t" "entry_key (?t ! i) = Some key" by auto
    obtain r e' where te: "touch_entry (cfg s) now (?t ! i) = (r, e')" by fastforce
    show thesis
    proof (rule result)
      show "too_many_connections now key s = Some (r, s\<lparr>ip_table := ?t[i := e']\<rparr>)"
        using Some te by (simp add: too_many_connections_def k)
      show "owns entry_key ?t i key" using owns_found [OF d i] .
      show "entry_key e' = Some key" using touch_entry_key [of "cfg s" now "?t ! i"] te i by simp
      have "hits_of count (listener_view s key) = count (?t ! i)"
        using Some by (simp add: listener_view_def slot_lookup_def hits_of_def)
      then show "0 \<le> count e'" "blocked e' \<longrightarrow> ddos_rate_limit (cfg s) < count e'"
        "count e' \<le> hits_of count (listener_view s key) + 1" "r \<longrightarrow> ddos_rate_limit (cfg s) < count e'"
        using touch_entry_count [OF _ _ te] e [OF nth_mem [OF i(1)]] by auto
    qed
  next
    case None
    show thesis
    proof (cases "first_index (\<lambda>e. \<not> used e) ?t")
      case (Some i)
      with new [OF None, of i] first_index_Some [OF Some] None show thesis
        by (simp add: too_many_connections_def k)
    next
      case full: None
      have "oldest_index (map last_conn ?t) < length ?t"
        using oldest_index_less [of "map last_conn ?t"] ne by simp
      with new [OF None this] None full show thesis
        by (simp add: too_many_connections_def k Let_def)
    qed
  qed
qed

lemma too_many_inv:
  assumes "listener_inv s" "too_many_connections now key s = Some (r, s')"
  shows "listener_inv s' \<and> s' = s\<lparr>ip_table := ip_table s'\<rparr> \<and> length (ip_table s') = length (ip_table s)"
proof -
  obtain i r' e where tm: "too_many_connections now key s = Some (r', s\<lparr>ip_table := (ip_table s)[i := e]\<rparr>)"
    and o: "owns entry_key (ip_table s) i key" "entry_key e = Some key"
    and e: "0 \<le> count e" "blocked e \<longrightarrow> ddos_rate_limit (cfg s) < count e"
    by (rule too_many_cases [OF assms(1)])
  have "set ((ip_table s)[i := e]) \<subseteq> insert e (set (ip_table s))" by (rule set_update_subset_insert)
  with assms(1) e have "\<forall>x\<in>set ((ip_table s)[i := e]). 0 \<le> count x
      \<and> (blocked x \<longrightarrow> ddos_rate_limit (cfg s) < count x)"
    unfolding listener_inv_def by blast
  moreover have "slots_distinct entry_key ((ip_table s)[i := e])"
    using assms(1) o by (auto simp: listener_inv_def intro: slots_distinct_update)
  ultimately show ?thesis using tm assms by (auto simp: listener_inv_def)
qed

interpretation listener: rate_limiter too_many_connections listener_view count listener_limit
  listener_inv "\<lambda>_. True"
proof
  fix s k now
  assume inv: "listener_inv s"
  then show "\<exists>r s'. too_many_connections now k s = Some (r, s')"
    by (rule too_many_cases [of s now k]) blast
  show "0 \<le> hits_of count (listener_view s k)"
  proof (cases "listener_view s k")
    case (Some e)
    with slot_lookup_Some [of entry_key "ip_table s" k e] inv show ?thesis
      by (simp add: listener_view_def listener_inv_def hits_of_def)
  qed (simp add: hits_of_def)
next
  fix s k now r s'
  assume inv: "listener_inv s" and st: "too_many_connections now k s = Some (r, s')"
  from too_many_inv [OF inv st] show "listener_inv s' \<and> listener_limit s' = listener_limit s"
    by (metis listener.select_convs(1) listener.simps listener_limit_def listener.surjective listener.update_convs(10))
next
  fix s k k' now r s'
  assume inv: "listener_inv s" and k': "k' \<noteq> k" and st: "too_many_connections now k s = Some (r, s')"
  obtain i r' e where tm: "too_many_connections now k s = Some (r', s\<lparr>ip_table := (ip_table s)[i := e]\<rparr>)"
    and o: "owns entry_key (ip_table s) i k" "entry_key e = Some k"
    by (rule too_many_cases [OF inv])
  from slot_lookup_update_other [OF _ o k'] inv tm st
  show "listener_view s' k' = listener_view s k' \<or> listener_view s' k' = None"
    by (auto simp: listener_view_def listener_inv_def)
next
  fix s k now r s'
  assume inv: "listener_inv s" and st: "too_many_connections now k s = Some (r, s')"
  obtain i r' e where tm: "too_many_connections now k s = Some (r', s\<lparr>ip_table := (ip_table s)[i := e]\<rparr>)"
    and o: "owns entry_key (ip_table s) i k" "entry_key e = Some k"
    and c: "count e \<le> hits_of count (listener_view s k) + 1" "r' \<longrightarrow> ddos_rate_limit (cfg s) < count e"
    by (rule too_many_cases [OF inv])
  have v: "listener_view s' k = Some e"
    using slot_lookup_update [OF _ o] inv tm st by (auto simp: listener_view_def listener_inv_def)
  then show "hits_of count (listener_view s' k) \<le> hits_of count (listener_view s k) + 1"
    using c by (simp add: hits_of_def [of _ "Some e"])
next
  fix s k now s'
  assume inv: "listener_inv s" and st: "too_many_connections now k s = Some (True, s')"
  obtain i r' e where tm: "too_many_connections now k s = Some (r', s\<lparr>ip_table := (ip_table s)[i := e]\<rparr>)"
    and o: "owns entry_key (ip_table s) i k" "entry_key e = Some k"
    and c: "r' \<longrightarrow> ddos_rate_limit (cfg s) < count e"
    by (rule too_many_cases [OF inv])
  have "listener_view s' k = Some e"
    using slot_lookup_update [OF _ o] inv tm st by (auto simp: listener_view_def listener_inv_def)
  then show "listener_limit s < hits_of count (listener_view s' k)"
    using c tm st by (simp add: hits_of_def listener_limit_def)
qed

subsection \<open>The cleanup pass only frees and forgives\<close>

lemma cleanup_entry_key:
  "entry_key (cleanup_entry c now e) = entry_key e \<or> entry_key (cleanup_entry c now e) = None"
  by (auto simp: cleanup_entry_def Let_def entry_key_def zero_entry_def)

lemma cleanup_entry_count:
  "0 \<le> count e \<Longrightarrow> 0 \<le> count (cleanup_entry c now e) \<and> count (cleanup_entry c now e) \<le> count e
     \<and> (blocked (cleanup_entry c now e) \<longrightarrow> blocked e \<and> count (cleanup_entry c now e) = count e)"
  by (auto simp: cleanup_entry_def Let_def zero_entry_def)

lemma cleanup_inv: "listener_inv s \<Longrightarrow> listener_inv (snd (ip_table_cleanup now s))"
proof -
  assume inv: "listener_inv s"
  have "slots_distinct entry_key (map (cleanup_entry (cfg s) now) (ip_table s))"
    by (rule slots_distinct_map) (use inv cleanup_entry_key in \<open>auto simp: listener_inv_def\<close>)
  moreover have "0 \<le> count (cleanup_entry (cfg s) now e)
      \<and> (blocked (cleanup_entry (cfg s) now e) \<longrightarrow> ddos_rate_limit (cfg s) < count (cleanup_entry (cfg s) now e))"
    if "e \<in> set (ip_table s)" for e
    using inv that cleanup_entry_count [of e "cfg s" now] by (auto simp: listener_inv_def)
  ultimately show ?thesis using inv by (simp add: listener_inv_def ip_table_cleanup_def)
qed

interpretation listener: swept_limiter too_many_connections listener_view count listener_limit
  listener_inv "\<lambda>_. True" "\<lambda>now s. snd (ip_table_cleanup now s)"
proof
  fix s now
  assume inv: "listener_inv s"
  then show "listener_inv (snd (ip_table_cleanup now s))
      \<and> listener_limit (snd (ip_table_cleanup now s)) = listener_limit s"
    using cleanup_inv by (simp add: listener_limit_def ip_table_cleanup_def)
  fix k
  show "hits_of count (listener_view (snd (ip_table_cleanup now s)) k) \<le> hits_of count (listener_view s k)"
  proof (cases "listener_view (snd (ip_table_cleanup now s)) k")
    case None
    then show ?thesis using listener.positive [OF inv, of k] by (simp add: hits_of_def)
  next
    case (Some x)
    then have "slot_lookup entry_key (map (cleanup_entry (cfg s) now) (ip_table s)) k = Some x"
      by (simp add: listener_view_def ip_table_cleanup_def)
    from slot_lookup_map [OF _ cleanup_entry_key this] inv obtain e
      where e: "listener_view s k = Some e" "x = cleanup_entry (cfg s) now e"
      by (auto simp: listener_view_def listener_inv_def)
    then have "0 \<le> count e"
      using slot_lookup_Some [of entry_key "ip_table s" k e] inv
      by (auto simp: listener_view_def listener_inv_def)
    then show ?thesis
      using cleanup_entry_count [of e "cfg s" now] unfolding Some e hits_of_def by simp
  qed
qed

text \<open>
  C10. An address is refused only for its own connections: whatever any number of other clients
  do, in any interleaving and at any times, and whether or not a cleanup pass ran before, an
  address the table does not know is served for as long as it has not connected more than
  \<open>ddos_rate_limit\<close> times; and no sequence of connections writes outside the table.
\<close>

theorem listener_no_innocent_refused:
  assumes "listener_inv s" and "listener_view s key = None"
    and "int (requests_of key reqs) \<le> ddos_rate_limit (cfg s)"
  shows "\<exists>rs s'. run_requests too_many_connections reqs (snd (ip_table_cleanup t s)) = Some (rs, s')
     \<and> length rs = length reqs \<and> listener_inv s'
     \<and> (\<forall>i<length reqs. snd (reqs ! i) = key \<longrightarrow> \<not> rs ! i)"
proof -
  let ?s = "snd (ip_table_cleanup t s)"
  have inv: "listener_inv ?s" using assms(1) by (rule cleanup_inv)
  from listener.run_total [OF inv, of reqs] obtain rs s' where
    run: "run_requests too_many_connections reqs ?s = Some (rs, s')" "length rs = length reqs"
      "listener_inv s'" by auto
  have "\<not> rs ! i" if "i < length reqs" "snd (reqs ! i) = key" for i
  proof
    assume "rs ! i"
    from listener.swept_refused_only_over_limit [OF assms(1) _ _ run(1) that(1) this that(2)]
    have "ddos_rate_limit (cfg s) < int (requests_of key (take (Suc i) reqs))"
      by (simp add: assms(2) hits_of_def listener_limit_def)
    also have "requests_of key (take (Suc i) reqs) \<le> requests_of key reqs"
      by (rule requests_of_take)
    finally show False using assms(3) by simp
  qed
  with run show ?thesis by blast
qed


theorem listener_no_innocent_refused_witness:
  "let s = (static_listener \<lparr>ddos_max_connections = 200, ddos_rate_window_secs = 5, ddos_rate_limit = 2,
              ddos_max_ips = 1, ddos_ip_stale_secs = 300, cfg_proxy_protocol = False,
              cfg_trusted_proxies = []\<rparr>)\<lparr>ip_table := [zero_entry]\<rparr>;
       reqs = [(1, ''a''), (2, ''b''), (2, ''b''), (3, ''a'')]
   in \<exists>rs s'. run_requests too_many_connections reqs (snd (ip_table_cleanup 1 s)) = Some (rs, s')
       \<and> length rs = length reqs \<and> listener_inv s'
       \<and> (\<forall>i<length reqs. snd (reqs ! i) = ''a'' \<longrightarrow> \<not> rs ! i)"
  unfolding Let_def
  by (rule listener_no_innocent_refused)
    (simp_all add: listener_inv_def slots_distinct_def listener_view_def slot_lookup_def
      entry_key_def zero_entry_def requests_of_def static_listener_def)

subsection \<open>A flood is banned\<close>

lemma known_step:
  assumes "listener_inv s" "listener_view s key = Some e" "touch_entry (cfg s) now e = (r, e')"
  obtains s' where "too_many_connections now key s = Some (r, s')" "listener_view s' key = Some e'"
    "listener_inv s'" "cfg s' = cfg s" "e' = e \<Longrightarrow> s' = s"
proof -
  from assms(2) obtain i where i: "first_index (\<lambda>e. entry_key e = Some key) (ip_table s) = Some i"
    and e: "ip_table s ! i = e" by (auto simp: listener_view_def slot_lookup_def)
  from first_index_Some [OF i] have il: "i < length (ip_table s)" "entry_key e = Some key" using e by auto
  have k: "(\<lambda>e. used e \<and> ip e = key) = (\<lambda>e. entry_key e = Some key)"
    by (auto simp: entry_key_def fun_eq_iff)
  let ?s = "s\<lparr>ip_table := (ip_table s)[i := e']\<rparr>"
  have st: "too_many_connections now key s = Some (r, ?s)"
    using i e assms(3) by (simp add: too_many_connections_def k)
  have d: "slots_distinct entry_key (ip_table s)" using assms(1) by (simp add: listener_inv_def)
  have "entry_key e' = Some key" using touch_entry_key [of "cfg s" now e] assms(3) il by simp
  then have "listener_view ?s key = Some e'"
    using slot_lookup_update [OF d owns_found [OF d il(1)]] il e by (simp add: listener_view_def)
  moreover have "listener_inv ?s" using too_many_inv [OF assms(1) st] by blast
  moreover have "e' = e \<Longrightarrow> ?s = s" using e by (simp add: list_update_id [of "ip_table s" i, unfolded e])
  ultimately show thesis using that [OF st] by simp
qed

lemma new_step:
  assumes "listener_inv s" "listener_view s key = None"
  obtains s' where "too_many_connections now key s = Some (False, s')"
    "listener_view s' key = Some (fresh_entry key now)" "listener_inv s'" "cfg s' = cfg s"
proof -
  have n: "first_index (\<lambda>e. entry_key e = Some key) (ip_table s) = None"
    using assms(2) by (simp add: listener_view_def slot_lookup_def)
  have k: "(\<lambda>e. used e \<and> ip e = key) = (\<lambda>e. entry_key e = Some key)"
    by (auto simp: entry_key_def fun_eq_iff)
  have d: "slots_distinct entry_key (ip_table s)" "ip_table s \<noteq> []"
    using assms(1) by (simp_all add: listener_inv_def)
  have "oldest_index (map last_conn (ip_table s)) < length (ip_table s)"
    using oldest_index_less [of "map last_conn (ip_table s)"] d by simp
  then obtain i where i: "i < length (ip_table s)"
    and st: "too_many_connections now key s = Some (False, s\<lparr>ip_table := (ip_table s)[i := fresh_entry key now]\<rparr>)"
    using n by (cases "first_index (\<lambda>e. \<not> used e) (ip_table s)")
      (auto simp: too_many_connections_def k Let_def dest: first_index_Some)
  have "owns entry_key (ip_table s) i key"
    using n i by (intro owns_new) (simp_all add: first_index_None)
  then have "listener_view (s\<lparr>ip_table := (ip_table s)[i := fresh_entry key now]\<rparr>) key = Some (fresh_entry key now)"
    using slot_lookup_update [OF d(1)] by (simp add: listener_view_def)
  with too_many_inv [OF assms(1) st] st that show thesis by simp
qed

lemma flood_run:
  assumes "listener_inv s" "listener_view s key = Some e" "\<not> blocked e"
    and "successively (\<lambda>a b. b - a < ddos_rate_window_secs (cfg s)) (last_conn e # ts)"
    and "count e + int (length ts) = ddos_rate_limit (cfg s) + 1" "ts \<noteq> []"
  shows "\<exists>s' e'. run_requests too_many_connections (map (\<lambda>t. (t, key)) ts) s =
        Some (replicate (length ts - 1) False @ [True], s')
     \<and> listener_inv s' \<and> cfg s' = cfg s \<and> listener_view s' key = Some e' \<and> blocked e'
     \<and> last_rejected e' = last ts \<and> last_conn e' = last ts"
  using assms
proof (induction ts arbitrary: s e)
  case (Cons t ts)
  let ?e2 = "e\<lparr>count := count e + 1, last_conn := t\<rparr>"
  let ?e3 = "?e2\<lparr>blocked := True, last_rejected := t\<rparr>"
  have gap: "t - last_conn e < ddos_rate_window_secs (cfg s)" using Cons.prems(4) by simp
  show ?case
  proof (cases "ts = []")
    case True
    with Cons.prems gap have "touch_entry (cfg s) t e = (True, ?e3)" by (simp add: touch_entry_def)
    from known_step [OF Cons.prems(1,2) this] obtain s' where
      "too_many_connections t key s = Some (True, s')" "listener_view s' key = Some ?e3"
      "listener_inv s'" "cfg s' = cfg s" by metis
    with True show ?thesis by auto
  next
    case False
    then have "0 < int (length ts)" by simp
    moreover have "count e + int (length ts) = ddos_rate_limit (cfg s)" using Cons.prems(5) by simp
    ultimately have "\<not> ddos_rate_limit (cfg s) < count e + 1" by linarith
    with Cons.prems(3) gap have "touch_entry (cfg s) t e = (False, ?e2)" by (simp add: touch_entry_def)
    from known_step [OF Cons.prems(1,2) this] obtain s1 where
      s1: "too_many_connections t key s = Some (False, s1)" "listener_view s1 key = Some ?e2"
      "listener_inv s1" "cfg s1 = cfg s" by metis
    have "\<exists>s' e'. run_requests too_many_connections (map (\<lambda>t. (t, key)) ts) s1 =
        Some (replicate (length ts - 1) False @ [True], s')
     \<and> listener_inv s' \<and> cfg s' = cfg s1 \<and> listener_view s' key = Some e' \<and> blocked e'
     \<and> last_rejected e' = last ts \<and> last_conn e' = last ts"
      by (rule Cons.IH [OF s1(3,2)]) (use Cons.prems False s1(4) in \<open>auto simp: successively_Cons\<close>)
    then show ?thesis using s1 False by (cases ts) auto
  qed
qed simp



subsection \<open>Every interleaving keeps the counters\<close>

text \<open>
  The server's threads as steps on the listener and the number of connection threads that
  are alive: the accept loop, the connection threads (their own rate check, and their end),
  and the cleanup thread.
\<close>

inductive server_step :: "listener \<times> nat \<Rightarrow> listener \<times> nat \<Rightarrow> bool" where
  http_spawned: "running s \<Longrightarrow> accept_http now peer m c s = Some (Spawned ssl, s') \<Longrightarrow>
     server_step (s, n) (s', Suc n)"
| http_closed: "running s \<Longrightarrow> accept_http now peer m c s = Some (Closed out, s') \<Longrightarrow>
     server_step (s, n) (s', n)"
| https_spawned: "running s \<Longrightarrow> ssl_ctx s \<Longrightarrow> accept_https now peer o1 m c s = Some (Spawned ssl, s') \<Longrightarrow>
     server_step (s, n) (s', Suc n)"
| https_closed: "running s \<Longrightarrow> ssl_ctx s \<Longrightarrow> accept_https now peer o1 m c s = Some (Closed out, s') \<Longrightarrow>
     server_step (s, n) (s', n)"
| thread_checks: "server_ip_rate_limited now ip_text s = Some (r, s') \<Longrightarrow>
     server_step (s, Suc n) (s', Suc n)"
| thread_ends: "unregister_connection s = (signal, s') \<Longrightarrow> server_step (s, Suc n) (s', n)"
| cleanup: "ip_table_cleanup now s = (freed, s') \<Longrightarrow> server_step (s, n) (s', n)"

definition server_ok :: "ddos_config \<Rightarrow> listener \<times> nat \<Rightarrow> bool" where
  "server_ok c w \<longleftrightarrow>
     (case w of (s, n) \<Rightarrow>
        cfg s = c \<and> active_connections s = int n \<and> active_connections s \<le> max 0 (ddos_max_connections c)
        \<and> listener_inv s \<and> int (length (ip_table s)) = ddos_max_ips c)"

lemma too_many_frame:
  assumes "listener_inv s" "too_many_connections now key s = Some (r, s')"
  shows "listener_inv s' \<and> length (ip_table s') = length (ip_table s) \<and> cfg s' = cfg s
     \<and> active_connections s' = active_connections s \<and> running s' = running s"
proof -
  from too_many_inv [OF assms] have i: "listener_inv s'" "length (ip_table s') = length (ip_table s)"
    and "s' = s\<lparr>ip_table := ip_table s'\<rparr>" by auto
  then obtain t where "s' = s\<lparr>ip_table := t\<rparr>" by blast
  with i show ?thesis by simp
qed

lemma rate_limited_at_accept_frame:
  "listener_inv s \<Longrightarrow> rate_limited_at_accept now peer s = Some (r, s') \<Longrightarrow>
     listener_inv s' \<and> length (ip_table s') = length (ip_table s) \<and> cfg s' = cfg s
     \<and> active_connections s' = active_connections s \<and> running s' = running s"
  using too_many_frame by (auto simp: rate_limited_at_accept_def split: if_splits)

lemma server_ip_rate_limited_frame:
  "listener_inv s \<Longrightarrow> server_ip_rate_limited now ip_text s = Some (r, s') \<Longrightarrow>
     listener_inv s' \<and> length (ip_table s') = length (ip_table s) \<and> cfg s' = cfg s
     \<and> active_connections s' = active_connections s \<and> running s' = running s"
  using too_many_frame by (auto simp: server_ip_rate_limited_def split: option.splits)

lemma accept_http_step:
  assumes "server_ok c (s, n)" "accept_http now peer m t s = Some (d, s')"
  shows "server_ok c (s', case d of Spawned _ \<Rightarrow> Suc n | Closed _ \<Rightarrow> n)"
proof -
  from assms(2) obtain r s1 where rl: "rate_limited_at_accept now peer s = Some (r, s1)"
    by (auto simp: accept_http_def split: option.splits)
  have f: "listener_inv s1 \<and> length (ip_table s1) = length (ip_table s) \<and> cfg s1 = cfg s
     \<and> active_connections s1 = active_connections s \<and> running s1 = running s"
    by (rule rate_limited_at_accept_frame [OF _ rl]) (use assms(1) in \<open>simp add: server_ok_def\<close>)
  show ?thesis
    using assms f rl
    by (auto simp: accept_http_def server_ok_def try_register_connection_def spawn_thread_def
        unregister_connection_def listener_inv_def Let_def split: if_splits)
qed

lemma accept_https_step:
  assumes "server_ok c (s, n)" "accept_https now peer o1 m t s = Some (d, s')"
  shows "server_ok c (s', case d of Spawned _ \<Rightarrow> Suc n | Closed _ \<Rightarrow> n)"
proof -
  from assms(2) obtain r s1 where rl: "rate_limited_at_accept now peer s = Some (r, s1)"
    by (auto simp: accept_https_def split: option.splits)
  have f: "listener_inv s1 \<and> length (ip_table s1) = length (ip_table s) \<and> cfg s1 = cfg s
     \<and> active_connections s1 = active_connections s \<and> running s1 = running s"
    by (rule rate_limited_at_accept_frame [OF _ rl]) (use assms(1) in \<open>simp add: server_ok_def\<close>)
  show ?thesis
    using assms f rl
    by (auto simp: accept_https_def server_ok_def try_register_connection_def spawn_thread_def
        unregister_connection_def listener_inv_def Let_def split: if_splits)
qed

lemma server_step_ok: "server_step w w' \<Longrightarrow> server_ok c w \<Longrightarrow> server_ok c w'"
proof (induction rule: server_step.induct)
  case (http_spawned s now peer m t ssl s' n)
  then show ?case using accept_http_step [of c s n now peer m t] by simp
next
  case (http_closed s now peer m t out s' n)
  then show ?case using accept_http_step [of c s n now peer m t] by simp
next
  case (https_spawned s now peer o1 m t ssl s' n)
  then show ?case using accept_https_step [of c s n now peer o1 m t] by simp
next
  case (https_closed s now peer o1 m t out s' n)
  then show ?case using accept_https_step [of c s n now peer o1 m t] by simp
next
  case (thread_checks now ip_text s r s' n)
  then show ?case using server_ip_rate_limited_frame [of s now ip_text r s'] by (simp add: server_ok_def)
next
  case (thread_ends s signal s' n)
  then show ?case by (auto simp: server_ok_def unregister_connection_def listener_inv_def Let_def)
next
  case (cleanup now s freed s' n)
  then show ?case
    using cleanup_inv [of s now] by (auto simp: server_ok_def ip_table_cleanup_def)
qed

lemma server_start_ok:
  assumes "server_start env ssl (static_listener c) = (0, s)" "0 < ddos_max_ips c"
  shows "server_ok c (s, 0)"
proof -
  have "slots_distinct entry_key (replicate k zero_entry)" for k
    by (simp add: slots_distinct_def entry_key_def zero_entry_def)
  with assms show ?thesis
    by (auto simp: server_ok_def server_start_def static_listener_def listener_inv_def Let_def
        zero_entry_def split: if_splits)
qed

text \<open>
  C5. From a successful start, whatever the accept loop, the connection threads and the cleanup
  thread do and however their steps interleave: the connection counter equals the number of
  live connection threads and never exceeds the configured cap, the table keeps its size and
  one entry per address, and every step of the accept loop has a result, so none writes
  outside the table.
\<close>

theorem server_reachable_ok:
  assumes "server_start env ssl (static_listener c) = (0, s0)" and "0 < ddos_max_ips c"
    and "server_step\<^sup>*\<^sup>* (s0, 0) (s, n)"
  shows "active_connections s = int n \<and> int n \<le> max 0 (ddos_max_connections c)
     \<and> int (length (ip_table s)) = ddos_max_ips c \<and> slots_distinct entry_key (ip_table s)
     \<and> (\<exists>r. accept_http now peer m t s = Some r)"
proof -
  have "server_ok c (s, n)"
    using assms(3) by (induction rule: rtranclp_induct2)
      (auto intro: server_step_ok server_start_ok [OF assms(1,2)])
  moreover have "\<exists>r s1. rate_limited_at_accept now peer s = Some (r, s1)"
    using listener.total [of s now "ipv4_key peer"] calculation
    by (auto simp: rate_limited_at_accept_def server_ok_def)
  then have "\<exists>r. accept_http now peer m t s = Some r"
    by (auto simp: accept_http_def split: prod.splits)
  ultimately show ?thesis by (auto simp: server_ok_def listener_inv_def)
qed


theorem server_reachable_ok_witness:
  "let c = \<lparr>ddos_max_connections = 1, ddos_rate_window_secs = 5, ddos_rate_limit = 2, ddos_max_ips = 1,
            ddos_ip_stale_secs = 300, cfg_proxy_protocol = False, cfg_trusted_proxies = []\<rparr>;
       env = \<lparr>calloc_ok = True, cleanup_create_ok = True, http_fd = 3, https_fd = -1, tls_ok = False,
              accept_create_ok = True\<rparr>;
       s0 = snd (server_start env False (static_listener c));
       s1 = snd (the (accept_http 7 ''abcd'' True True s0))
   in server_step\<^sup>*\<^sup>* (s0, 0) (s1, 1) \<and> active_connections s1 = int 1"
proof -
  define c where "c = \<lparr>ddos_max_connections = 1, ddos_rate_window_secs = 5, ddos_rate_limit = 2,
     ddos_max_ips = 1, ddos_ip_stale_secs = 300, cfg_proxy_protocol = False, cfg_trusted_proxies = []\<rparr>"
  define env where "env = \<lparr>calloc_ok = True, cleanup_create_ok = True, http_fd = 3, https_fd = -1,
     tls_ok = False, accept_create_ok = True\<rparr>"
  define s0 where "s0 = snd (server_start env False (static_listener c))"
  define s1 where "s1 = snd (the (accept_http 7 ''abcd'' True True s0))"
  note defs = server_start_def static_listener_def c_def env_def s0_def
  have s: "server_start env False (static_listener c) = (0, s0)" by (simp add: defs)
  have "accept_http 7 ''abcd'' True True s0 = Some (Spawned False, s1)"
    by (simp add: s1_def defs accept_http_def rate_limited_at_accept_def rate_limit_after_header_def
        too_many_connections_def zero_entry_def try_register_connection_def spawn_thread_def)
  then have "server_step (s0, 0) (s1, Suc 0)"
    by (rule server_step.http_spawned [rotated]) (simp add: defs)
  then have r: "server_step\<^sup>*\<^sup>* (s0, 0) (s1, 1)" by simp
  have "0 < ddos_max_ips c" by (simp add: c_def)
  from server_reachable_ok [OF s this r] r show ?thesis
    unfolding Let_def c_def [symmetric] env_def [symmetric] s0_def [symmetric] s1_def [symmetric]
    by simp
qed

end
