(* ===== verification/Proxy_Protocol.thy ===== *)
theory Proxy_Protocol
  imports Inet
begin

text \<open>
  The PROXY protocol header a layer-4 front puts before the client's bytes
  (src/src/web_server/proxy_protocol.c): the pure parser of both versions, the reader that
  peeks at a socket until the bytes are classified and then drains exactly the header, and
  the version 1 writer. Buffers are lists of bytes; an out parameter is a header taken and
  returned. A socket is the script of what its system calls return.
\<close>

subsection \<open>Data\<close>

datatype ProxyParseStatus = PROXY_NONE | PROXY_INCOMPLETE | PROXY_INVALID | PROXY_OK

record ProxyHeader =
  hlength :: nat
  has_source :: bool
  source_ip :: string
  source_port :: int

definition zero_header :: ProxyHeader where
  "zero_header = \<lparr>hlength = 0, has_source = False, source_ip = [], source_port = 0\<rparr>"

definition PROXY_V2_MAX_PAYLOAD :: nat where
  "PROXY_V2_MAX_PAYLOAD = 512"

definition PROXY_HEADER_MAX :: nat where
  "PROXY_HEADER_MAX = 16 + PROXY_V2_MAX_PAYLOAD"

definition V2_SIGNATURE :: string where
  "V2_SIGNATURE = [CHR 0x0D, CHR 0x0A, CHR 0x0D, CHR 0x0A, CHR 0x00, CHR 0x0D, CHR 0x0A,
                   CHR 0x51, CHR 0x55, CHR 0x49, CHR 0x54, CHR 0x0A]"

definition V1_PREFIX :: string where
  "V1_PREFIX = ''PROXY ''"

definition V1_MAX_LEN :: nat where
  "V1_MAX_LEN = 107"

definition is_prefix_of :: "string \<Rightarrow> string \<Rightarrow> bool" where
  "is_prefix_of buf sig \<longleftrightarrow> length buf < length sig \<and> take (length buf) sig = buf"

subsection \<open>Version 2\<close>

definition parse_v2 :: "string \<Rightarrow> ProxyHeader \<Rightarrow> ProxyParseStatus \<times> ProxyHeader" where
  "parse_v2 buf out =
     (if length buf < 16 then (PROXY_INCOMPLETE, out)
      else
        let version = ord (buf ! 12) div 16;
            command = ord (buf ! 12) mod 16;
            family = ord (buf ! 13) div 16;
            proto = ord (buf ! 13) mod 16;
            payload = ord (buf ! 14) * 256 + ord (buf ! 15)
        in
          if version \<noteq> 2 \<or> command > 1 \<or> payload > PROXY_V2_MAX_PAYLOAD then (PROXY_INVALID, out)
          else if length buf < 16 + payload then (PROXY_INCOMPLETE, out)
          else
            let out1 = out\<lparr>hlength := 16 + payload\<rparr>;
                a = drop 16 buf
            in
              if command = 0 \<or> proto \<noteq> 1 \<or> (family \<noteq> 1 \<and> family \<noteq> 2) then (PROXY_OK, out1)
              else if family = 1 then
                (if payload < 12 then (PROXY_INVALID, out1)
                 else (PROXY_OK, out1\<lparr>source_ip := inet_ntop AF_INET (take 4 a),
                                      source_port := int (ord (a ! 8) * 256 + ord (a ! 9)),
                                      has_source := True\<rparr>))
              else
                (if payload < 36 then (PROXY_INVALID, out1)
                 else (PROXY_OK, out1\<lparr>source_ip := inet_ntop AF_INET6 (take 16 a),
                                      source_port := int (ord (a ! 32) * 256 + ord (a ! 33)),
                                      has_source := True\<rparr>)))"

subsection \<open>Version 1\<close>

fun parse_port_loop :: "string \<Rightarrow> int \<Rightarrow> int option" where
  "parse_port_loop [] v = Some v"
| "parse_port_loop (c # s) v =
     (if ord c < 48 \<or> ord c > 57 then None
      else parse_port_loop s (v * 10 + (int (ord c) - 48)))"

definition parse_port :: "string \<Rightarrow> int option" where
  "parse_port s =
     (if s = [] \<or> length s > 5 then None
      else if hd s = CHR ''0'' \<and> tl s \<noteq> [] then None
      else case parse_port_loop s 0 of
             None \<Rightarrow> None
           | Some v \<Rightarrow> if v > 65535 then None else Some v)"

text \<open>The fields of a line: split at single spaces, up to seven of them.\<close>

definition v1_fields :: "string \<Rightarrow> string list" where
  "v1_fields line = take 7 (split_on CHR '' '' (cstr line))"

definition parse_v1_fields :: "string list \<Rightarrow> ProxyHeader \<Rightarrow> ProxyParseStatus \<times> ProxyHeader" where
  "parse_v1_fields field out =
     (if length field \<ge> 2 \<and> field ! 1 = ''UNKNOWN'' then (PROXY_OK, out)
      else if length field \<noteq> 6 then (PROXY_INVALID, out)
      else
        case (if field ! 1 = ''TCP4'' then Some AF_INET
              else if field ! 1 = ''TCP6'' then Some AF_INET6 else None) of
          None \<Rightarrow> (PROXY_INVALID, out)
        | Some af \<Rightarrow>
            (case (inet_pton af (field ! 2), inet_pton af (field ! 3),
                   parse_port (field ! 4), parse_port (field ! 5)) of
               (Some src, Some dst, Some src_port, Some dst_port) \<Rightarrow>
                 (PROXY_OK, out\<lparr>source_ip := inet_ntop af src, source_port := src_port,
                               has_source := True\<rparr>)
             | _ \<Rightarrow> (PROXY_INVALID, out)))"

definition parse_v1 :: "string \<Rightarrow> ProxyHeader \<Rightarrow> ProxyParseStatus \<times> ProxyHeader" where
  "parse_v1 buf out =
     (let scan = (if length buf < V1_MAX_LEN then length buf else V1_MAX_LEN) in
      case strstr (take scan buf) CRLF of
        None \<Rightarrow> (if length buf < V1_MAX_LEN then PROXY_INCOMPLETE else PROXY_INVALID, out)
      | Some line_len \<Rightarrow>
          parse_v1_fields (v1_fields (take line_len buf)) (out\<lparr>hlength := line_len + 2\<rparr>))"

subsection \<open>The parser\<close>

definition proxy_protocol_parse :: "string \<Rightarrow> ProxyParseStatus \<times> ProxyHeader" where
  "proxy_protocol_parse buf =
     (if buf = [] then (PROXY_INCOMPLETE, zero_header)
      else if length buf \<ge> length V2_SIGNATURE \<and> take (length V2_SIGNATURE) buf = V2_SIGNATURE
      then parse_v2 buf zero_header
      else if length buf \<ge> length V1_PREFIX \<and> take (length V1_PREFIX) buf = V1_PREFIX
      then parse_v1 buf zero_header
      else if is_prefix_of buf V2_SIGNATURE \<or> is_prefix_of buf V1_PREFIX
      then (PROXY_INCOMPLETE, zero_header)
      else (PROXY_NONE, zero_header))"

subsection \<open>Reading from a socket\<close>

text \<open>
  What \<open>recv(fd, buf, sizeof(buf), MSG_PEEK)\<close> gives: interrupted, failed or closed, or the
  bytes buffered so far, with whether the clock has reached the deadline when it is read
  after them.
\<close>

datatype peek_event = PeekIntr | PeekFail | PeekData string bool

fun peek_loop :: "peek_event list \<Rightarrow> ProxyHeader \<Rightarrow> (ProxyParseStatus \<times> ProxyHeader) option" where
  "peek_loop [] out = None"
| "peek_loop (PeekIntr # es) out = peek_loop es out"
| "peek_loop (PeekFail # es) out = Some (PROXY_INVALID, out)"
| "peek_loop (PeekData buf late # es) out =
     (let (status, out1) = proxy_protocol_parse buf in
      if status \<noteq> PROXY_INCOMPLETE then Some (status, out1)
      else if length buf = PROXY_HEADER_MAX \<or> late then Some (PROXY_INVALID, out1)
      else peek_loop es out1)"

text \<open>What a consuming \<open>recv\<close> gives: interrupted, failed or closed, or some bytes of the queue.\<close>

datatype recv_event = RecvIntr | RecvFail | RecvData nat

fun drain_loop :: "recv_event list \<Rightarrow> nat \<Rightarrow> nat \<Rightarrow> string \<Rightarrow> (ProxyParseStatus \<times> string) option" where
  "drain_loop es drained len queue =
     (if drained < len then
        (case es of
           [] \<Rightarrow> None
         | RecvIntr # es' \<Rightarrow> drain_loop es' drained len queue
         | RecvFail # es' \<Rightarrow> Some (PROXY_INVALID, queue)
         | RecvData n # es' \<Rightarrow>
             let k = min n (min (len - drained) (length queue)) in
             if k = 0 then Some (PROXY_INVALID, queue)
             else drain_loop es' (drained + k) len (drop k queue))
      else Some (PROXY_OK, queue))"

declare drain_loop.simps [simp del]

text \<open>
  The reader over the bytes in the socket's queue: its status, the header and the queue it
  leaves; \<open>None\<close> while it is still waiting for the environment.
\<close>

definition proxy_protocol_read ::
  "peek_event list \<Rightarrow> recv_event list \<Rightarrow> string \<Rightarrow> ProxyHeader \<Rightarrow>
     (ProxyParseStatus \<times> ProxyHeader \<times> string) option"
where
  "proxy_protocol_read peeks recvs queue out =
     (case peek_loop peeks out of
        None \<Rightarrow> None
      | Some (status, h) \<Rightarrow>
          if status \<noteq> PROXY_OK then Some (status, h, queue)
          else (case drain_loop recvs 0 (hlength h) queue of
                  None \<Rightarrow> None
                | Some (st, queue') \<Rightarrow> Some (st, h, queue')))"

subsection \<open>Writing version 1\<close>

definition v1_family :: "string option \<Rightarrow> int \<Rightarrow> string option \<Rightarrow> int \<Rightarrow> string option" where
  "v1_family src_ip src_port dst_ip dst_port =
     (if src_port < 0 \<or> src_port > 65535 \<or> dst_port < 0 \<or> dst_port > 65535 then None
      else case (src_ip, dst_ip) of
        (Some s, Some d) \<Rightarrow>
          if inet_pton AF_INET s \<noteq> None \<and> inet_pton AF_INET d \<noteq> None then Some ''TCP4''
          else if inet_pton AF_INET6 s \<noteq> None \<and> inet_pton AF_INET6 d \<noteq> None then Some ''TCP6''
          else None
      | _ \<Rightarrow> None)"

definition v1_text :: "string option \<Rightarrow> int \<Rightarrow> string option \<Rightarrow> int \<Rightarrow> string" where
  "v1_text src_ip src_port dst_ip dst_port =
     (case v1_family src_ip src_port dst_ip dst_port of
        Some fam \<Rightarrow>
          ''PROXY '' @ fam @ '' '' @ the src_ip @ '' '' @ the dst_ip @ '' '' @ show_int src_port
            @ '' '' @ show_int dst_port @ CRLF
      | None \<Rightarrow> ''PROXY UNKNOWN'' @ CRLF)"

text \<open>The returned length, and what the buffer of \<open>out_size\<close> bytes holds.\<close>

definition proxy_protocol_format_v1 ::
  "nat \<Rightarrow> string option \<Rightarrow> int \<Rightarrow> string option \<Rightarrow> int \<Rightarrow> nat \<times> string"
where
  "proxy_protocol_format_v1 out_size src_ip src_port dst_ip dst_port =
     (let text = v1_text src_ip src_port dst_ip dst_port; n = length text
      in (if n > 0 \<and> n < out_size then n else 0, fit out_size text))"

subsection \<open>The parser is stable under more bytes\<close>

lemma prefix_take_iff: "length n \<le> length s \<and> take (length n) s = n \<longleftrightarrow> prefix n s"
  by (metis append_eq_conv_conj append_take_drop_id length_take min.absorb2 prefixE prefixI
      prefix_length_le)

lemma parse_unfold:
  "proxy_protocol_parse buf =
     (if prefix V2_SIGNATURE buf then parse_v2 buf zero_header
      else if prefix V1_PREFIX buf then parse_v1 buf zero_header
      else if strict_prefix buf V2_SIGNATURE \<or> strict_prefix buf V1_PREFIX
      then (PROXY_INCOMPLETE, zero_header)
      else (PROXY_NONE, zero_header))"
proof -
  have ip: "is_prefix_of buf sig \<longleftrightarrow> strict_prefix buf sig" for sig
    by (metis is_prefix_of_def append_eq_conv_conj prefix_length_less strict_prefix_def prefix_def
        append_take_drop_id nat_less_le)
  have ne: "V2_SIGNATURE \<noteq> []" "V1_PREFIX \<noteq> []"
    by (simp_all add: V2_SIGNATURE_def V1_PREFIX_def)
  show ?thesis
    unfolding proxy_protocol_parse_def ip prefix_take_iff by (auto simp: strict_prefix_def ne [symmetric] ne)
qed

lemma parse_v2_stable:
  assumes "parse_v2 buf out = (st, h)" and "st \<noteq> PROXY_INCOMPLETE"
  shows "parse_v2 (buf @ later) out = (st, h)"
proof -
  from assms have len: "16 \<le> length buf" by (auto simp: parse_v2_def split: if_splits)
  define payload where "payload = ord (buf ! 14) * 256 + ord (buf ! 15)"
  have n: "(buf @ later) ! k = buf ! k" if "k < 16" for k
    using that len by (simp add: nth_append)
  have a: "drop 16 (buf @ later) = drop 16 buf @ later" using len by simp
  have na: "(drop 16 buf @ later) ! k = drop 16 buf ! k" if "k < payload" "16 + payload \<le> length buf" for k
    using that by (simp add: nth_append less_diff_conv)
  have ta: "take k (drop 16 buf @ later) = take k (drop 16 buf)"
    if "k \<le> payload" "16 + payload \<le> length buf" for k
    using that by simp
  show ?thesis
  proof (cases "ord (buf ! 12) div 16 \<noteq> 2 \<or> ord (buf ! 12) mod 16 > 1 \<or> payload > PROXY_V2_MAX_PAYLOAD")
    case True
    with assms len show ?thesis by (simp add: parse_v2_def n payload_def [symmetric])
  next
    case False
    with assms len have full: "16 + payload \<le> length buf"
      by (auto simp: parse_v2_def Let_def payload_def [symmetric] split: if_splits)
    have "\<not> length (buf @ later) < 16 + payload" "\<not> length buf < 16 + payload"
      "\<not> length (buf @ later) < 16" "\<not> length buf < 16"
      using full len by auto
    then show ?thesis using assms False full
      unfolding parse_v2_def Let_def
      by (simp only: n a payload_def [symmetric] if_False Let_def rel_simps)
        (auto simp: na ta split: if_splits)
  qed
qed

lemma parse_v1_stable:
  assumes "parse_v1 buf out = (st, h)" and "st \<noteq> PROXY_INCOMPLETE"
  shows "parse_v1 (buf @ later) out = (st, h)"
proof -
  define scan where "scan b = (if length b < V1_MAX_LEN then length b else V1_MAX_LEN)" for b :: string
  have pv: "parse_v1 b out =
      (case strstr (take (scan b) b) CRLF of
         None \<Rightarrow> (if length b < V1_MAX_LEN then PROXY_INCOMPLETE else PROXY_INVALID, out)
       | Some i \<Rightarrow> parse_v1_fields (v1_fields (take i b)) (out\<lparr>hlength := i + 2\<rparr>))" for b
    by (simp add: parse_v1_def scan_def)
  obtain rest where ext: "take (scan (buf @ later)) (buf @ later) = take (scan buf) buf @ rest"
    by (cases "length buf < V1_MAX_LEN") (auto simp: scan_def)
  show ?thesis
  proof (cases "strstr (take (scan buf) buf) CRLF")
    case None
    with assms have "V1_MAX_LEN \<le> length buf"
      by (auto simp: parse_v1_def scan_def [symmetric] split: if_splits)
    then show ?thesis using assms None by (simp add: parse_v1_def scan_def)
  next
    case (Some i)
    then have i: "strstr (take (scan (buf @ later)) (buf @ later)) CRLF = Some i"
      unfolding ext by (rule strstr_append)
    from strstr_length [OF Some] have t: "take i (buf @ later) = take i buf" by simp
    from assms(1) show ?thesis unfolding pv Some i option.case t .
  qed
qed

lemma parse_stable:
  assumes "proxy_protocol_parse buf = (st, h)" and "st \<noteq> PROXY_INCOMPLETE"
  shows "proxy_protocol_parse (buf @ later) = (st, h)"
proof -
  have pre: "prefix sig (buf @ later)" if "prefix sig buf" for sig
    using that by (auto simp: prefix_def)
  consider "prefix V2_SIGNATURE buf" | "\<not> prefix V2_SIGNATURE buf" "prefix V1_PREFIX buf"
    | "st = PROXY_NONE" "h = zero_header" "\<not> prefix V2_SIGNATURE buf" "\<not> prefix V1_PREFIX buf"
      "\<not> prefix buf V2_SIGNATURE" "\<not> prefix buf V1_PREFIX"
    using assms by (auto simp: parse_unfold strict_prefix_def split: if_splits)
  then show ?thesis
  proof cases
    case 1
    with assms pre show ?thesis by (simp add: parse_unfold parse_v2_stable)
  next
    case 2
    then have "\<not> prefix V2_SIGNATURE (buf @ later)"
      by (auto simp: V2_SIGNATURE_def V1_PREFIX_def prefix_def)
    with 2 assms pre show ?thesis by (simp add: parse_unfold parse_v1_stable)
  next
    case 3
    have no: "\<not> prefix sig (buf @ later) \<and> \<not> prefix (buf @ later) sig"
      if "\<not> prefix sig buf" "\<not> prefix buf sig" for sig
      using that by (auto simp: prefix_append dest: append_prefixD)
    from 3 no show ?thesis by (simp add: parse_unfold strict_prefix_def)
  qed
qed

text \<open>
  Once the parser has classified the bytes received so far (anything but
  \<open>PROXY_INCOMPLETE\<close>), bytes that arrive later change neither the verdict nor the header:
  peeking again at a longer buffer gives the same answer.
\<close>

theorem proxy_parse_stable:
  assumes "proxy_protocol_parse buf = (st, h)" and "st \<noteq> PROXY_INCOMPLETE"
  shows "proxy_protocol_parse (buf @ later) = (st, h)"
  using assms by (rule parse_stable)

theorem proxy_parse_stable_witness:
  "proxy_protocol_parse ''GET / HTTP/1.1'' = (PROXY_NONE, zero_header)
   \<and> proxy_protocol_parse (''GET / HTTP/1.1'' @ CRLF) = (PROXY_NONE, zero_header)"
proof -
  have "proxy_protocol_parse ''GET / HTTP/1.1'' = (PROXY_NONE, zero_header)"
    by (simp add: parse_unfold V2_SIGNATURE_def V1_PREFIX_def strict_prefix_def)
  with proxy_parse_stable [OF this, of CRLF] show ?thesis by simp
qed

subsection \<open>Bounds\<close>

lemma parse_v2_bounds:
  "parse_v2 buf out = (PROXY_OK, h) \<Longrightarrow>
     16 \<le> hlength h \<and> hlength h \<le> length buf \<and> hlength h \<le> PROXY_HEADER_MAX"
  by (auto simp: parse_v2_def Let_def PROXY_HEADER_MAX_def split: if_splits)

lemma parse_v1_fields_hlength: "hlength (snd (parse_v1_fields f out)) = hlength out"
  by (simp add: parse_v1_fields_def split: option.split)

lemma parse_v1_bounds:
  assumes "parse_v1 buf out = (PROXY_OK, h)"
  shows "2 \<le> hlength h \<and> hlength h \<le> length buf \<and> hlength h \<le> V1_MAX_LEN"
proof -
  from assms obtain i where
    i: "strstr (take (if length buf < V1_MAX_LEN then length buf else V1_MAX_LEN) buf) CRLF = Some i"
    and f: "parse_v1_fields (v1_fields (take i buf)) (out\<lparr>hlength := i + 2\<rparr>) = (PROXY_OK, h)"
    by (auto simp: parse_v1_def Let_def split: option.splits if_splits)
  from strstr_length [OF i] have "i + 2 \<le> length buf" "i + 2 \<le> V1_MAX_LEN"
    by (auto split: if_splits)
  moreover from f parse_v1_fields_hlength [of "v1_fields (take i buf)" "out\<lparr>hlength := i + 2\<rparr>"]
  have "hlength h = i + 2" by simp
  ultimately show ?thesis by simp
qed

lemma parse_complete:
  assumes "PROXY_HEADER_MAX \<le> length buf"
  shows "fst (proxy_protocol_parse buf) \<noteq> PROXY_INCOMPLETE"
proof -
  have v2: "fst (parse_v2 buf zero_header) \<noteq> PROXY_INCOMPLETE"
    using assms by (auto simp: parse_v2_def Let_def PROXY_HEADER_MAX_def)
  have f: "fst (parse_v1_fields f out) \<noteq> PROXY_INCOMPLETE" for f out
    by (auto simp: parse_v1_fields_def split: option.splits)
  have v1: "fst (parse_v1 buf zero_header) \<noteq> PROXY_INCOMPLETE"
    using assms f by (auto simp: parse_v1_def Let_def PROXY_HEADER_MAX_def PROXY_V2_MAX_PAYLOAD_def
        V1_MAX_LEN_def split: option.splits)
  have "\<not> strict_prefix buf V2_SIGNATURE" "\<not> strict_prefix buf V1_PREFIX"
    using assms by (auto dest!: prefix_length_less
        simp: V2_SIGNATURE_def V1_PREFIX_def PROXY_HEADER_MAX_def PROXY_V2_MAX_PAYLOAD_def)
  with v1 v2 show ?thesis by (simp add: parse_unfold)
qed

text \<open>
  A header the parser accepts lies inside the bytes it was given and is never longer
  than the reader's buffer; and a full buffer is always classified, so waiting for more
  bytes than the buffer holds is never needed.
\<close>

theorem proxy_parse_bounds:
  "(proxy_protocol_parse buf = (PROXY_OK, h) \<longrightarrow>
      0 < hlength h \<and> hlength h \<le> length buf \<and> hlength h \<le> PROXY_HEADER_MAX)
   \<and> (PROXY_HEADER_MAX \<le> length buf \<longrightarrow> fst (proxy_protocol_parse buf) \<noteq> PROXY_INCOMPLETE)"
proof (intro conjI impI)
  assume "proxy_protocol_parse buf = (PROXY_OK, h)"
  then consider "parse_v2 buf zero_header = (PROXY_OK, h)" | "parse_v1 buf zero_header = (PROXY_OK, h)"
    by (auto simp: parse_unfold split: if_splits)
  then have "2 \<le> hlength h \<and> hlength h \<le> length buf \<and> hlength h \<le> PROXY_HEADER_MAX"
    by cases (auto dest!: parse_v2_bounds parse_v1_bounds
        simp: V1_MAX_LEN_def PROXY_HEADER_MAX_def PROXY_V2_MAX_PAYLOAD_def)
  then show "0 < hlength h" "hlength h \<le> length buf" "hlength h \<le> PROXY_HEADER_MAX" by auto
qed (rule parse_complete)

theorem proxy_parse_bounds_witness:
  "proxy_protocol_parse (''PROXY UNKNOWN'' @ CRLF @ ''GET'') = (PROXY_OK, zero_header\<lparr>hlength := 15\<rparr>)
   \<and> hlength (zero_header\<lparr>hlength := 15\<rparr>) \<le> length (''PROXY UNKNOWN'' @ CRLF @ ''GET'')"
proof -
  have "proxy_protocol_parse (''PROXY UNKNOWN'' @ CRLF @ ''GET'') = (PROXY_OK, zero_header\<lparr>hlength := 15\<rparr>)"
    by (simp add: parse_unfold V2_SIGNATURE_def V1_PREFIX_def parse_v1_def V1_MAX_LEN_def
        parse_v1_fields_def v1_fields_def cstr_def)
  with proxy_parse_bounds [of "''PROXY UNKNOWN'' @ CRLF @ ''GET''" "zero_header\<lparr>hlength := 15\<rparr>"]
  show ?thesis by blast
qed

subsection \<open>The reader consumes exactly the header\<close>

lemma peek_loop_Some:
  "peek_loop peeks out = Some (st, h) \<Longrightarrow> st = PROXY_OK \<or> st = PROXY_NONE \<Longrightarrow>
     \<exists>buf late. PeekData buf late \<in> set peeks \<and> proxy_protocol_parse buf = (st, h)"
proof (induction peeks out rule: peek_loop.induct)
  case (4 buf late es out)
  obtain st1 h1 where p: "proxy_protocol_parse buf = (st1, h1)" by fastforce
  show ?case
  proof (cases "st1 = PROXY_INCOMPLETE")
    case True
    with 4 p have "peek_loop es h1 = Some (st, h)" by (auto split: if_splits)
    with 4 p True have "\<exists>buf late. PeekData buf late \<in> set es \<and> proxy_protocol_parse buf = (st, h)"
      by (auto split: if_splits)
    then show ?thesis by auto
  next
    case False
    with 4 p show ?thesis by auto
  qed
qed auto

lemma drain_loop_steps:
  "drain_loop [] drained len queue = (if drained < len then None else Some (PROXY_OK, queue))"
  "drain_loop (RecvIntr # es) drained len queue = (if drained < len then drain_loop es drained len queue else Some (PROXY_OK, queue))"
  "drain_loop (RecvFail # es) drained len queue = (if drained < len then Some (PROXY_INVALID, queue) else Some (PROXY_OK, queue))"
  "drain_loop (RecvData n # es) drained len queue =
     (if drained < len then
        (if min n (min (len - drained) (length queue)) = 0 then Some (PROXY_INVALID, queue)
         else drain_loop es (drained + min n (min (len - drained) (length queue))) len (drop (min n (min (len - drained) (length queue))) queue))
      else Some (PROXY_OK, queue))"
  by (simp_all add: drain_loop.simps [of "[]"] drain_loop.simps [of "RecvIntr # es"] drain_loop.simps [of "RecvFail # es"]
      drain_loop.simps [of "RecvData n # es"] Let_def)

lemma drain_loop_OK:
  "drain_loop es drained len queue = Some (PROXY_OK, queue') \<Longrightarrow> queue' = drop (len - drained) queue"
proof (induction es arbitrary: drained queue)
  case Nil
  then show ?case by (simp add: drain_loop_steps split: if_splits)
next
  case (Cons e es)
  show ?case
  proof (cases "drained < len")
    case False
    then show ?thesis using Cons.prems by (cases e) (simp_all add: drain_loop_steps)
  next
    case True
    show ?thesis
    proof (cases e)
      case (RecvData n)
      define k where "k = min n (min (len - drained) (length queue))"
      have "drain_loop es (drained + k) len (drop k queue) = Some (PROXY_OK, queue')"
        using Cons.prems RecvData True by (simp add: drain_loop_steps k_def [symmetric] split: if_splits)
      then have "queue' = drop (len - (drained + k)) (drop k queue)" by (rule Cons.IH)
      moreover have "len - (drained + k) + k = len - drained" using True by (simp add: k_def)
      ultimately show ?thesis by simp
    qed (use Cons True in \<open>simp_all add: drain_loop_steps\<close>)
  qed
qed

lemma drain_loop_not_NONE: "drain_loop es drained len queue = Some (st, queue') \<Longrightarrow> st \<noteq> PROXY_NONE"
proof (induction es arbitrary: drained queue)
  case (Cons e es)
  then show ?case by (cases e) (auto simp: drain_loop_steps split: if_splits)
qed (auto simp: drain_loop_steps split: if_splits)

text \<open>
  C11. However the client's bytes trickle in and however the reads are cut: when the reader
  accepts a header it is the header of the whole stream and the queue is left at the byte
  after it; when it finds no header the client's bytes are untouched. (Each peek shows a
  beginning of the stream.)
\<close>

theorem proxy_read_exact:
  assumes "proxy_protocol_read peeks recvs stream out = Some (st, h, stream')"
    and "\<forall>buf late. PeekData buf late \<in> set peeks \<longrightarrow> prefix buf stream"
  shows "(st = PROXY_OK \<longrightarrow>
            proxy_protocol_parse stream = (PROXY_OK, h) \<and> stream' = drop (hlength h) stream)
       \<and> (st = PROXY_NONE \<longrightarrow>
            proxy_protocol_parse stream = (PROXY_NONE, h) \<and> stream' = stream)"
proof -
  from assms(1) obtain st1 where l: "peek_loop peeks out = Some (st1, h)"
    and r: "st1 \<noteq> PROXY_OK \<longrightarrow> st = st1 \<and> stream' = stream"
           "st1 = PROXY_OK \<longrightarrow> drain_loop recvs 0 (hlength h) stream = Some (st, stream')"
    by (auto simp: proxy_protocol_read_def split: option.splits if_splits)
  have parsed: "proxy_protocol_parse stream = (st1, h)" if "st1 = PROXY_OK \<or> st1 = PROXY_NONE"
  proof -
    from peek_loop_Some [OF l that] obtain buf late where "PeekData buf late \<in> set peeks"
      and p: "proxy_protocol_parse buf = (st1, h)" by blast
    with assms(2) obtain later where "stream = buf @ later" by (auto simp: prefix_def)
    with parse_stable [OF p, of later] that show ?thesis by auto
  qed
  show ?thesis
  proof (cases "st1 = PROXY_OK")
    case True
    with r(2) have "drain_loop recvs 0 (hlength h) stream = Some (st, stream')" by simp
    with drain_loop_OK [of recvs 0 "hlength h" stream stream'] drain_loop_not_NONE parsed True
    show ?thesis by fastforce
  next
    case False
    with r(1) parsed show ?thesis by auto
  qed
qed

theorem proxy_read_exact_witness:
  "proxy_protocol_read [PeekData ''PROXY UNK'' False, PeekIntr, PeekData (''PROXY UNKNOWN'' @ CRLF) False]
     [RecvData 10, RecvIntr, RecvData 99] (''PROXY UNKNOWN'' @ CRLF @ ''GET'') zero_header
     = Some (PROXY_OK, zero_header\<lparr>hlength := 15\<rparr>, ''GET'')
   \<and> ''GET'' = drop 15 (''PROXY UNKNOWN'' @ CRLF @ ''GET'')"
proof -
  let ?peeks = "[PeekData ''PROXY UNK'' False, PeekIntr, PeekData (''PROXY UNKNOWN'' @ CRLF) False]"
  let ?recvs = "[RecvData 10, RecvIntr, RecvData 99]"
  have r: "proxy_protocol_read ?peeks ?recvs (''PROXY UNKNOWN'' @ CRLF @ ''GET'') zero_header
     = Some (PROXY_OK, zero_header\<lparr>hlength := 15\<rparr>, ''GET'')"
    by (simp add: proxy_protocol_read_def drain_loop.simps parse_unfold V2_SIGNATURE_def V1_PREFIX_def
        parse_v1_def V1_MAX_LEN_def parse_v1_fields_def v1_fields_def cstr_def PROXY_HEADER_MAX_def
        PROXY_V2_MAX_PAYLOAD_def strict_prefix_def)
  have "\<forall>buf late. PeekData buf late \<in> set ?peeks \<longrightarrow> prefix buf (''PROXY UNKNOWN'' @ CRLF @ ''GET'')"
    by simp
  from proxy_read_exact [OF r this] r show ?thesis by simp
qed

subsection \<open>What the writer writes, the parser reads\<close>

lemma parse_port_loop_digits:
  "list_all isdigit s \<Longrightarrow>
     parse_port_loop s v = Some (v * 10 ^ length s + int (dec_value s))"
proof (induction s arbitrary: v rule: rev_induct)
  case (snoc c s)
  have app: "parse_port_loop (s @ [c]) v =
      (case parse_port_loop s v of None \<Rightarrow> None | Some w \<Rightarrow> parse_port_loop [c] w)" for v
    by (induction s arbitrary: v) auto
  from snoc show ?case
    by (auto simp: app isdigit_def algebra_simps of_nat_diff)
qed simp

lemma parse_port_show:
  assumes "0 \<le> p" and "p \<le> 65535"
  shows "parse_port (show_int p) = Some p"
proof -
  define n where "n = nat p"
  with assms have p: "p = int n" and n: "n \<le> 65535" by auto
  have d: "list_all isdigit (show_nat n)" by (auto simp: list_all_iff show_nat_digits)
  have l: "length (show_nat n) \<le> 5" by (rule length_show_nat) (use n in auto)
  have z: "hd (show_nat n) = CHR ''0'' \<Longrightarrow> tl (show_nat n) = []"
    by (cases "n = 0") (auto simp: show_nat_hd show_nat.simps [of 0])
  show ?thesis
    using n l z by (auto simp: parse_port_def show_int_def p parse_port_loop_digits [OF d])
qed

lemma show_int_plain: "0 \<le> p \<Longrightarrow> c \<in> set (show_int p) \<Longrightarrow> isdigit c"
  by (auto simp: show_int_def show_nat_digits split: if_splits)

lemma strstr_line: "CR \<notin> set line \<Longrightarrow> strstr (line @ CRLF @ t) CRLF = Some (length line)"
  by (induction line) auto

lemma take_line:
  assumes "length line + 2 \<le> k"
  shows "take k (line @ CRLF @ later) = line @ CRLF @ take (k - (length line + 2)) later"
proof -
  from assms obtain j where k: "k = length line + Suc (Suc j)"
    by (metis add_2_eq_Suc add.assoc le_Suc_ex)
  show ?thesis unfolding k by simp
qed

lemma v1_line:
  assumes line: "CR \<notin> set line" and nul: "NUL \<notin> set line" and len: "length line + 2 \<le> V1_MAX_LEN"
    and pre: "prefix V1_PREFIX line"
  shows "proxy_protocol_parse (line @ CRLF @ later) =
    parse_v1_fields (take 7 (split_on CHR '' '' line)) (zero_header\<lparr>hlength := length line + 2\<rparr>)"
proof -
  let ?buf = "line @ CRLF @ later"
  have v2: "\<not> prefix V2_SIGNATURE ?buf" and v1: "prefix V1_PREFIX ?buf"
    using pre by (auto simp: V2_SIGNATURE_def V1_PREFIX_def prefix_def)
  let ?scan = "if length ?buf < V1_MAX_LEN then length ?buf else V1_MAX_LEN"
  have "length line + 2 \<le> ?scan" using len by simp
  then have "strstr (take ?scan ?buf) CRLF = Some (length line)"
    by (simp only: take_line strstr_line [OF line])
  then show ?thesis
    unfolding parse_unfold parse_v1_def Let_def
    using v1 v2 nul by (simp only: if_True if_False option.case v1_fields_def) (simp add: cstr_id)
qed

lemma v1_family_SomeE:
  assumes "v1_family src sport dst dport = Some fam"
  obtains s d sb db af where "src = Some s" "dst = Some d"
    and "fam = (case af of AF_INET \<Rightarrow> ''TCP4'' | AF_INET6 \<Rightarrow> ''TCP6'')"
    and "inet_pton af s = Some sb" "inet_pton af d = Some db"
    and "0 \<le> sport" "sport \<le> 65535" "0 \<le> dport" "dport \<le> 65535"
proof -
  from assms obtain s d where sd: "src = Some s" "dst = Some d"
    and p: "0 \<le> sport" "sport \<le> 65535" "0 \<le> dport" "dport \<le> 65535"
    by (auto simp: v1_family_def split: if_splits option.splits)
  show thesis
  proof (cases "inet_pton AF_INET s \<noteq> None \<and> inet_pton AF_INET d \<noteq> None")
    case True
    with assms sd p that [of s d AF_INET] show thesis by (auto simp: v1_family_def)
  next
    case False
    with assms sd p that [of s d AF_INET6] show thesis by (auto simp: v1_family_def split: if_splits)
  qed
qed

text \<open>
  What \<open>proxy_protocol_format_v1\<close> writes in full, \<open>proxy_protocol_parse\<close> reads back: the
  header is exactly the bytes written, whatever follows them, and it carries the source
  address and port given, or no source when the addresses or ports are not valid. (107
  bytes is the protocol's own limit on a version 1 line.)
\<close>

theorem proxy_v1_roundtrip:
  assumes "proxy_protocol_format_v1 out_size src sport dst dport = (n, text)" and "0 < n"
    and "n \<le> V1_MAX_LEN"
  shows "\<exists>h. proxy_protocol_parse (text @ rest) = (PROXY_OK, h) \<and> hlength h = n
     \<and> (case v1_family src sport dst dport of
          None \<Rightarrow> \<not> has_source h
        | Some fam \<Rightarrow> has_source h \<and> source_port h = sport
            \<and> (fam = ''TCP4'' \<longrightarrow> Some (source_ip h) = src)
            \<and> (fam = ''TCP6'' \<longrightarrow> Some (source_ip h) = map_option inet_ntop6 (inet_pton6 (the src))))"
proof -
  from assms(1,2) have tx: "text = v1_text src sport dst dport" and n: "n = length text"
    by (auto simp: proxy_protocol_format_v1_def Let_def fit_id split: if_splits)
  show ?thesis
  proof (cases "v1_family src sport dst dport")
    case None
    with tx have t: "text = ''PROXY UNKNOWN'' @ CRLF" by (simp add: v1_text_def)
    have "proxy_protocol_parse (''PROXY UNKNOWN'' @ CRLF @ rest) =
        (PROXY_OK, zero_header\<lparr>hlength := 15\<rparr>)"
      by (subst v1_line) (simp_all add: V1_MAX_LEN_def V1_PREFIX_def parse_v1_fields_def)
    with None t n show ?thesis by (simp add: zero_header_def)
  next
    case (Some fam)
    then obtain s d sb db af where sd: "src = Some s" "dst = Some d"
      and af: "fam = (case af of AF_INET \<Rightarrow> ''TCP4'' | AF_INET6 \<Rightarrow> ''TCP6'')"
      and b: "inet_pton af s = Some sb" "inet_pton af d = Some db"
      and ports: "0 \<le> sport" "sport \<le> 65535" "0 \<le> dport" "dport \<le> 65535"
      by (rule v1_family_SomeE)
    define line where "line = ''PROXY '' @ fam @ '' '' @ s @ '' '' @ d @ '' '' @ show_int sport
            @ '' '' @ show_int dport"
    have t: "text = line @ CRLF" using tx Some sd by (simp add: v1_text_def line_def)
    have sp: "CHR '' '' \<notin> set (show_int p)" "CR \<notin> set (show_int p)" "NUL \<notin> set (show_int p)"
      if "0 \<le> p" for p
      using show_int_plain [OF that, of "CHR '' ''"] show_int_plain [OF that, of CR]
        show_int_plain [OF that, of NUL] by (auto simp: isdigit_def)
    note plain = inet_pton_plain [OF b(1)] inet_pton_plain [OF b(2)] sp [OF ports(1)] sp [OF ports(3)]
    have fam: "CHR '' '' \<notin> set fam" "CR \<notin> set fam" "NUL \<notin> set fam"
      by (auto simp: af split: family.splits)
    have f: "split_on CHR '' '' line = [''PROXY'', fam, s, d, show_int sport, show_int dport]"
      using plain fam split_on_append [of "CHR '' ''" "''PROXY''"]
      by (simp add: line_def split_on_append split_on_no_sep)
    have p: "proxy_protocol_parse (line @ CRLF @ rest) =
        parse_v1_fields [''PROXY'', fam, s, d, show_int sport, show_int dport]
          (zero_header\<lparr>hlength := n\<rparr>)"
    proof (subst v1_line)
      show "CR \<notin> set line" "NUL \<notin> set line" using plain fam by (auto simp: line_def)
      show "length line + 2 \<le> V1_MAX_LEN" using assms(3) n t by simp
      show "prefix V1_PREFIX line" by (simp add: line_def V1_PREFIX_def)
      show "parse_v1_fields (take 7 (split_on CHR '' '' line)) (zero_header\<lparr>hlength := length line + 2\<rparr>) =
        parse_v1_fields [''PROXY'', fam, s, d, show_int sport, show_int dport] (zero_header\<lparr>hlength := n\<rparr>)"
        using n t by (simp add: f)
    qed
    show ?thesis
      using p t sd b ports af Some [unfolded sd]
      by (cases af) (auto simp: parse_v1_fields_def parse_port_show Some inet_ntop4_pton4)
  qed
qed

theorem proxy_v1_roundtrip_witness:
  "proxy_protocol_format_v1 2048 (Some ''10.0.0.7'') 0 (Some ''127.0.0.1'') 80 =
     (36, ''PROXY TCP4 10.0.0.7 127.0.0.1 0 80'' @ CRLF)
   \<and> (\<exists>h. proxy_protocol_parse ((''PROXY TCP4 10.0.0.7 127.0.0.1 0 80'' @ CRLF) @ ''GET'') = (PROXY_OK, h)
        \<and> hlength h = 36)"
proof -
  have f: "proxy_protocol_format_v1 2048 (Some ''10.0.0.7'') 0 (Some ''127.0.0.1'') 80 =
     (36, ''PROXY TCP4 10.0.0.7 127.0.0.1 0 80'' @ CRLF)"
    by code_simp
  have "(36 :: nat) \<le> V1_MAX_LEN" by (simp add: V1_MAX_LEN_def)
  from proxy_v1_roundtrip [OF f _ this, of "''GET''"] f show ?thesis by auto
qed

end
