(* ===== verification/Connection.thy ===== *)
theory Connection
  imports Server_Listener Proxy_Protocol
begin

text \<open>
  One connection (src/src/web_server/connection.c and connection_thread.c): the write path
  with the header stripping of an HTTP/0.9 response, the mapping of system and TLS results
  to the codes the router sees, and the life of a connection thread from its arguments to
  the unregistering of its slot. The results of system calls are given.
\<close>

subsection \<open>State and system results\<close>

record connection_ctx =
  client_socket :: int
  ssl :: bool
  simple_response :: bool
  header_end_matched :: nat
  proxy_client_ip :: string

datatype errno = EPIPE | ECONNRESET | EINTR | EOTHER

datatype ssl_error = SSL_ERROR_ZERO_RETURN | SSL_ERROR_WANT_READ | SSL_ERROR_WANT_WRITE
  | SSL_ERROR_SYSCALL | SSL_ERROR_OTHER

record io_result =
  io_ret :: int
  io_errno :: errno
  io_ssl_error :: ssl_error

subsection \<open>Reading and writing\<close>

definition raw_write :: "connection_ctx \<Rightarrow> io_result \<Rightarrow> int" where
  "raw_write conn r =
     (if ssl conn then
        (if io_ret r > 0 then io_ret r
         else case io_ssl_error r of
           SSL_ERROR_ZERO_RETURN \<Rightarrow> 0
         | SSL_ERROR_WANT_READ \<Rightarrow> -2
         | SSL_ERROR_WANT_WRITE \<Rightarrow> -2
         | SSL_ERROR_SYSCALL \<Rightarrow>
             (if io_errno r = EPIPE \<or> io_errno r = ECONNRESET \<or> io_ret r = 0 then 0 else -1)
         | SSL_ERROR_OTHER \<Rightarrow> -1)
      else if io_ret r > 0 then io_ret r
      else if io_ret r = 0 then 0
      else if io_errno r = EPIPE \<or> io_errno r = ECONNRESET then 0
      else if io_errno r = EINTR then -2
      else -1)"

definition header_end :: string where
  "header_end = [CR, LF, CR, LF]"

text \<open>The loop over the header: how many bytes it takes, and how much of the blank line it matched.\<close>

fun strip_loop :: "string \<Rightarrow> nat \<Rightarrow> nat \<times> nat" where
  "strip_loop [] matched = (0, matched)"
| "strip_loop (c # buf) matched =
     (if matched < 4 then
        let m = (if c = header_end ! matched then matched + 1 else if c = CR then 1 else 0);
            (i, m') = strip_loop buf m
        in (Suc i, m')
      else (0, matched))"

text \<open>
  A write of a buffer: the value returned, the bytes that reach the wire, and the new
  context. \<open>env\<close> says what the system does with a write of so many bytes.
\<close>

definition connection_write ::
  "(nat \<Rightarrow> io_result) \<Rightarrow> connection_ctx \<Rightarrow> string \<Rightarrow> int \<times> string \<times> connection_ctx"
where
  "connection_write env conn buf =
     (if simple_response conn \<and> header_end_matched conn < 4 then
        let (i, m) = strip_loop buf (header_end_matched conn);
            conn1 = conn\<lparr>header_end_matched := m\<rparr>
        in
          if i = length buf then (int (length buf), [], conn1)
          else
            let sent = raw_write conn1 (env (length buf - i)) in
            (if sent > 0 then int i + sent else sent, take (nat sent) (drop i buf), conn1)
      else
        let sent = raw_write conn (env (length buf)) in (sent, take (nat sent) buf, conn))"

definition plain_read :: "io_result \<Rightarrow> int" where
  "plain_read r =
     (if io_ret r > 0 then io_ret r
      else if io_ret r = 0 then 0
      else if io_errno r = EINTR then -2
      else if io_errno r = EPIPE \<or> io_errno r = ECONNRESET then 0
      else -1)"

definition ssl_read :: "connection_ctx \<Rightarrow> io_result \<Rightarrow> int" where
  "ssl_read conn r =
     (if \<not> ssl conn then -1
      else if io_ret r > 0 then io_ret r
      else case io_ssl_error r of
        SSL_ERROR_ZERO_RETURN \<Rightarrow> 0
      | SSL_ERROR_WANT_READ \<Rightarrow> -2
      | SSL_ERROR_WANT_WRITE \<Rightarrow> -2
      | SSL_ERROR_SYSCALL \<Rightarrow>
          (if io_errno r = EINTR then -2
           else if io_errno r = EPIPE \<or> io_errno r = ECONNRESET then 0 else -1)
      | SSL_ERROR_OTHER \<Rightarrow> -1)"

definition connection_close :: "connection_ctx \<Rightarrow> connection_ctx" where
  "connection_close conn =
     (let c1 = (if ssl conn then conn\<lparr>ssl := False\<rparr> else conn)
      in if client_socket c1 \<ge> 0 then c1\<lparr>client_socket := -1\<rparr> else c1)"

subsection \<open>The connection thread\<close>

text \<open>
  \<open>peer\<close> is the IPv4 address of \<open>getpeername\<close>, if there is one; \<open>read\<close> what
  \<open>proxy_protocol_read\<close> returned.
\<close>

definition read_proxy_header ::
  "ddos_config \<Rightarrow> string option \<Rightarrow> ProxyParseStatus \<times> ProxyHeader \<Rightarrow> connection_ctx \<Rightarrow>
     bool \<times> connection_ctx"
where
  "read_proxy_header c peer read conn =
     (let peer_ip = (case peer of None \<Rightarrow> ''unknown'' | Some a \<Rightarrow> inet_ntop AF_INET a);
          loopback = (case peer of None \<Rightarrow> False | Some a \<Rightarrow> ord (a ! 0) = 127)
      in case fst read of
           PROXY_OK \<Rightarrow>
             if \<not> is_trusted_proxy (cfg_trusted_proxies c) (Some peer_ip) then (False, conn)
             else if has_source (snd read)
             then (True, conn\<lparr>proxy_client_ip := fit 46 (source_ip (snd read))\<rparr>)
             else (True, conn)
         | PROXY_NONE \<Rightarrow> (loopback, conn)
         | _ \<Rightarrow> (False, conn))"

record thread_env =
  args_ok :: bool
  conn_malloc_ok :: bool
  te_socket :: int
  te_ssl :: bool
  te_peer :: "string option"
  te_read :: "ProxyParseStatus \<times> ProxyHeader"
  te_now :: int
  te_ssl_accept :: int

text \<open>What the thread did: the 429 it may have sent, the context \<open>http_route\<close> was called with.\<close>

record thread_trace =
  sent_429 :: bool
  routed :: "connection_ctx option"

definition thread_body ::
  "thread_env \<Rightarrow> connection_ctx \<Rightarrow> listener \<Rightarrow> (thread_trace \<times> listener) option"
where
  "thread_body env conn s =
     (let serve = (\<lambda>conn s. Some (\<lparr>sent_429 = False,
                      routed = (if ssl conn \<and> te_ssl_accept env \<le> 0 then None else Some conn)\<rparr>, s))
      in
        if cfg_proxy_protocol (cfg s) then
          let (ok, conn1) = read_proxy_header (cfg s) (te_peer env) (te_read env) conn in
          if \<not> ok then Some (\<lparr>sent_429 = False, routed = None\<rparr>, s)
          else if proxy_client_ip conn1 \<noteq> [] then
            (case server_ip_rate_limited (te_now env) (proxy_client_ip conn1) s of
               None \<Rightarrow> None
             | Some (limited, s1) \<Rightarrow>
                 if limited then Some (\<lparr>sent_429 = \<not> ssl conn1, routed = None\<rparr>, s1)
                 else serve conn1 s1)
          else serve conn1 s
        else serve conn s)"

definition connection_thread :: "thread_env \<Rightarrow> listener \<Rightarrow> (thread_trace \<times> listener) option" where
  "connection_thread env s =
     (if \<not> args_ok env \<or> \<not> conn_malloc_ok env
      then Some (\<lparr>sent_429 = False, routed = None\<rparr>, snd (unregister_connection s))
      else
        map_option (\<lambda>(tr, s1). (tr, snd (unregister_connection s1)))
          (thread_body env \<lparr>client_socket = te_socket env, ssl = te_ssl env, simple_response = False,
                            header_end_matched = 0, proxy_client_ip = []\<rparr> s))"

subsection \<open>An HTTP/0.9 client gets the body and nothing else\<close>

text \<open>The specification: what follows the first blank line, if there is one yet.\<close>

definition after_header :: "string \<Rightarrow> string" where
  "after_header s = (case strstr s header_end of None \<Rightarrow> [] | Some i \<Rightarrow> drop (i + 4) s)"

definition header_seen :: "string \<Rightarrow> bool" where
  "header_seen s \<longleftrightarrow> strstr s header_end \<noteq> None"

lemma less_4_cases: "(m::nat) < 4 \<Longrightarrow> m = 0 \<or> m = 1 \<or> m = 2 \<or> m = 3"
  by auto

text \<open>
  The matched length is a faithful summary: going on from \<open>m\<close> matched bytes is the same as
  reading them again.
\<close>

lemma strstr_mismatch:
  assumes "m < 4" "c \<noteq> header_end ! m"
  shows "strstr (take m header_end @ c # s) header_end =
    map_option (\<lambda>i. i + m + (if c = CR then 0 else 1)) (strstr (if c = CR then CR # s else s) header_end)"
  using less_4_cases [OF assms(1)] assms(2)
  by (elim disjE) (simp_all add: header_end_def option.map_comp comp_def numeral_2_eq_2 numeral_3_eq_3)

lemma strstr_short: "m < 4 \<Longrightarrow> strstr (take m header_end) header_end = None"
  using less_4_cases [of m] by (auto simp: header_end_def numeral_2_eq_2 numeral_3_eq_3)

lemma take_match:
  assumes "m < 4"
  shows "take m header_end @ header_end ! m # s = take (m + 1) header_end @ s"
  using less_4_cases [OF assms] by (auto simp: header_end_def numeral_2_eq_2 numeral_3_eq_3)

lemma strip_loop_spec:
  "m < 4 \<Longrightarrow> strip_loop s m = (i, m') \<Longrightarrow>
     (case strstr (take m header_end @ s) header_end of
        None \<Rightarrow> i = length s \<and> m' < 4
          \<and> (\<forall>t. strstr (take m header_end @ s @ t) header_end =
                 map_option (\<lambda>k. k + (m + length s - m')) (strstr (take m' header_end @ t) header_end)
               \<and> m' \<le> m + length s)
      | Some k \<Rightarrow> m' = 4 \<and> m + i = k + 4 \<and> i \<le> length s)"
proof (induction s arbitrary: m i m')
  case Nil
  then show ?case by (simp add: strstr_short option.map_ident)
next
  case (Cons c s)
  define m1 where "m1 = (if c = header_end ! m then m + 1 else if c = CR then 1 else 0)"
  obtain i1 where rec: "strip_loop s m1 = (i1, m')" and i: "i = Suc i1"
    using Cons.prems by (auto simp: m1_def Let_def split: prod.splits)
  consider (match) "c = header_end ! m" | (cr) "c \<noteq> header_end ! m" "c = CR"
    | (other) "c \<noteq> header_end ! m" "c \<noteq> CR" by blast
  then show ?case
  proof cases
    case match
    show ?thesis
    proof (cases "m = 3")
      case True
      with match m1_def have "m1 = 4" by simp
      with rec have "i1 = 0" "m' = 4" by (cases s; simp)+
      moreover have "strstr (take m header_end @ c # s) header_end = Some 0"
        using match take_match [of m s] True by (simp add: header_end_def)
      ultimately show ?thesis using i True by simp
    next
      case False
      with Cons.prems(1) have m1: "m1 = m + 1" "m1 < 4" using match m1_def by auto
      have tk: "take m header_end @ c # t = take m1 header_end @ t" for t
        using match take_match [OF Cons.prems(1)] m1 by simp
      from Cons.IH [OF m1(2) rec] show ?thesis
        using m1(1) i by (auto simp: tk split: option.splits)
    qed
  next
    case cr
    then have m1: "m1 = 1" "m1 < 4" using m1_def by auto
    have st: "strstr (take m header_end @ c # t) header_end =
        map_option (\<lambda>k. k + m) (strstr (take m1 header_end @ t) header_end)" for t
      using strstr_mismatch [OF Cons.prems(1) cr(1), of t] cr m1(1) by (simp add: header_end_def)
    from Cons.IH [OF m1(2) rec] show ?thesis
      using m1(1) i
      by (auto simp: st option.map_comp comp_def split: option.splits intro!: option.map_cong)
  next
    case other
    then have m1: "m1 = 0" "m1 < 4" using m1_def by auto
    have st: "strstr (take m header_end @ c # t) header_end =
        map_option (\<lambda>k. k + m + 1) (strstr (take m1 header_end @ t) header_end)" for t
      using strstr_mismatch [OF Cons.prems(1) other(1), of t] other m1(1) by simp
    from Cons.IH [OF m1(2) rec] show ?thesis
      using m1(1) i
      by (auto simp: st option.map_comp comp_def split: option.splits intro!: option.map_cong)
  qed
qed

text \<open>A sequence of writes: the bytes that reach the wire, in order.\<close>

fun write_all :: "(nat \<Rightarrow> io_result) \<Rightarrow> connection_ctx \<Rightarrow> string list \<Rightarrow> string" where
  "write_all env conn [] = []"
| "write_all env conn (buf # bufs) =
     (let (ret, wire, conn') = connection_write env conn buf in wire @ write_all env conn' bufs)"

text \<open>A system that takes every byte it is given.\<close>

definition takes_all :: "(nat \<Rightarrow> io_result) \<Rightarrow> bool" where
  "takes_all env \<longleftrightarrow> (\<forall>n. io_ret (env n) = int n)"

lemma raw_write_all: "takes_all env \<Longrightarrow> 0 < n \<Longrightarrow> raw_write conn (env n) = int n"
  by (simp add: raw_write_def takes_all_def)

lemma write_all_body:
  "takes_all env \<Longrightarrow> \<not> (simple_response conn \<and> header_end_matched conn < 4) \<Longrightarrow>
     \<forall>b\<in>set bufs. b \<noteq> [] \<Longrightarrow> write_all env conn bufs = concat bufs"
  by (induction bufs arbitrary: conn) (auto simp: connection_write_def Let_def raw_write_all)

lemma write_all_strip:
  "takes_all env \<Longrightarrow> simple_response conn \<Longrightarrow> header_end_matched conn < 4 \<Longrightarrow>
     \<forall>b\<in>set bufs. b \<noteq> [] \<Longrightarrow>
     write_all env conn bufs = after_header (take (header_end_matched conn) header_end @ concat bufs)"
proof (induction bufs arbitrary: conn)
  case Nil
  then show ?case by (simp add: after_header_def strstr_short)
next
  case (Cons b bufs)
  let ?m = "header_end_matched conn" and ?E = header_end
  obtain i m' where sl: "strip_loop b ?m = (i, m')" by fastforce
  let ?conn = "conn\<lparr>header_end_matched := m'\<rparr>"
  note spec = strip_loop_spec [OF Cons.prems(3) sl]
  show ?case
  proof (cases "strstr (take ?m ?E @ b) ?E")
    case None
    with spec have i: "i = length b" and m': "m' < 4" and
      cont: "strstr (take ?m ?E @ b @ t) ?E = map_option (\<lambda>k. k + (?m + length b - m')) (strstr (take m' ?E @ t) ?E)"
      and le: "m' \<le> ?m + length b" for t
      by auto
    have "write_all env conn (b # bufs) = write_all env ?conn bufs"
      using Cons.prems sl i by (simp add: connection_write_def)
    also have "\<dots> = after_header (take m' ?E @ concat bufs)"
      using Cons.IH [of ?conn] Cons.prems m' by simp
    also have "\<dots> = after_header (take ?m ?E @ b @ concat bufs)"
    proof -
      have len: "min (length ?E) ?m = ?m" "min (length ?E) m' = m'"
        using Cons.prems(3) m' by (simp_all add: header_end_def)
      have "drop (k + (?m + length b - m') + 4) (take ?m ?E @ b @ concat bufs) =
          drop (k + 4) (take m' ?E @ concat bufs)"
        if "strstr (take m' ?E @ concat bufs) ?E = Some k" for k
      proof -
        have "m' \<le> k + 4" using m' by simp
        moreover have "k + (?m + 4) - (m' + ?m) = k + 4 - m'" by simp
        ultimately show ?thesis using le by (simp add: len)
      qed
      then show ?thesis by (cases "strstr (take m' ?E @ concat bufs) ?E") (simp_all add: after_header_def cont)
    qed
    finally show ?thesis by simp
  next
    case (Some k)
    with spec have m': "m' = 4" and k: "?m + i = k + 4" and il: "i \<le> length b" by auto
    have len: "min (length ?E) ?m = ?m" using Cons.prems(3) by (simp add: header_end_def)
    have "strstr (take ?m ?E @ b @ concat bufs) ?E = Some k"
      using strstr_append [OF Some, of "concat bufs"] by simp
    then have "after_header (take ?m ?E @ concat (b # bufs)) = drop (?m + i) (take ?m ?E @ b @ concat bufs)"
      by (simp add: after_header_def k)
    also have "\<dots> = drop i b @ concat bufs" using il by (simp add: len)
    also have "\<dots> = write_all env conn (b # bufs)"
    proof -
      have "write_all env ?conn bufs = concat bufs"
        using write_all_body [of env ?conn bufs] Cons.prems m' by simp
      then show ?thesis
        using Cons.prems sl il raw_write_all [OF Cons.prems(1), of "length b - i" ?conn]
        by (auto simp: connection_write_def Let_def)
    qed
    finally show ?thesis by simp
  qed
qed

text \<open>
  C25. On a connection that made an HTTP/0.9 request the client receives exactly the bytes after
  the blank line that ends the headers, however the response is cut into writes (also inside
  the blank line itself); on any other connection it receives every byte.
\<close>

theorem connection_write_simple_response:
  assumes "takes_all env" "\<forall>b\<in>set bufs. b \<noteq> []" "header_end_matched conn = 0"
  shows "write_all env conn bufs =
    (if simple_response conn then after_header (concat bufs) else concat bufs)"
  using write_all_strip [OF assms(1) _ _ assms(2), of conn] write_all_body [OF assms(1) _ assms(2), of conn]
    assms(3) by (cases "simple_response conn") simp_all

theorem connection_write_simple_response_witness:
  "write_all (\<lambda>n. \<lparr>io_ret = int n, io_errno = EOTHER, io_ssl_error = SSL_ERROR_OTHER\<rparr>)
     \<lparr>client_socket = 5, ssl = False, simple_response = True, header_end_matched = 0, proxy_client_ip = []\<rparr>
     [''HTTP/1.0 200 OK'' @ [CR], [LF, CR], LF # ''<p>'', ''hi''] = ''<p>hi''"
proof -
  have t: "takes_all (\<lambda>n. \<lparr>io_ret = int n, io_errno = EOTHER, io_ssl_error = SSL_ERROR_OTHER\<rparr>)"
    by (simp add: takes_all_def)
  show ?thesis
    by (subst connection_write_simple_response [OF t])
      (simp_all add: after_header_def header_end_def)
qed

subsection \<open>Which connections reach the router\<close>

lemma unregister_active:
  "0 < active_connections s \<Longrightarrow>
     active_connections (snd (unregister_connection s)) = active_connections s - 1"
  by (simp add: unregister_connection_def Let_def)

lemma thread_body_frame:
  assumes "listener_inv s" "thread_body env conn s = Some (tr, s')"
  shows "active_connections s' = active_connections s \<and> listener_inv s' \<and> cfg s' = cfg s"
proof (cases "s' = s")
  case False
  with assms(2) obtain now ip r where "server_ip_rate_limited now ip s = Some (r, s')"
    by (auto simp: thread_body_def Let_def split: if_splits option.splits prod.splits)
  with server_ip_rate_limited_frame [OF assms(1)] show ?thesis by blast
qed (use assms in simp)

lemma server_ip_rate_limited_total:
  "listener_inv s \<Longrightarrow> \<exists>r s'. server_ip_rate_limited now ip_text s = Some (r, s')"
  using listener.total by (auto simp: server_ip_rate_limited_def split: option.splits)

text \<open>
  C12. With \<open>proxy_protocol\<close> on, a connection reaches the router only if it carries a header
  from a trusted proxy, and then with the address of that header, or if it has no header and
  comes from a loopback address, and then with no claimed address: a peer that is not
  trusted can never choose the client address.
\<close>

theorem proxy_trust_boundary:
  assumes "connection_thread env s = Some (tr, s')" "cfg_proxy_protocol (cfg s)"
    and "routed tr = Some conn" "te_peer env = Some a"
  shows "(fst (te_read env) = PROXY_OK \<and> is_trusted_proxy (cfg_trusted_proxies (cfg s)) (Some (inet_ntop4 a))
            \<and> proxy_client_ip conn =
                (if has_source (snd (te_read env)) then fit 46 (source_ip (snd (te_read env))) else []))
       \<or> (fst (te_read env) = PROXY_NONE \<and> ord (a ! 0) = 127 \<and> proxy_client_ip conn = [])"
  using assms
  by (auto simp: connection_thread_def thread_body_def read_proxy_header_def Let_def
      split: if_splits option.splits prod.splits ProxyParseStatus.splits)

theorem proxy_trust_boundary_witness:
  "let c = \<lparr>ddos_max_connections = 1, ddos_rate_window_secs = 5, ddos_rate_limit = 2, ddos_max_ips = 1,
            ddos_ip_stale_secs = 300, cfg_proxy_protocol = True, cfg_trusted_proxies = ''10.0.0.1''\<rparr>;
       env = \<lparr>args_ok = True, conn_malloc_ok = True, te_socket = 4, te_ssl = False,
              te_peer = Some [CHR 0x7F, CHR 0x00, CHR 0x00, CHR 0x01],
              te_read = (PROXY_NONE, zero_header), te_now = 9, te_ssl_accept = 0\<rparr>;
       conn = \<lparr>client_socket = 4, ssl = False, simple_response = False, header_end_matched = 0,
               proxy_client_ip = []\<rparr>
   in connection_thread env (static_listener c) =
        Some (\<lparr>sent_429 = False, routed = Some conn\<rparr>, static_listener c)
      \<and> fst (te_read env) = PROXY_NONE \<and> proxy_client_ip conn = []"
proof -
  define c where "c = \<lparr>ddos_max_connections = 1, ddos_rate_window_secs = 5, ddos_rate_limit = 2,
     ddos_max_ips = 1, ddos_ip_stale_secs = 300, cfg_proxy_protocol = True,
     cfg_trusted_proxies = ''10.0.0.1''\<rparr>"
  define env where "env = \<lparr>args_ok = True, conn_malloc_ok = True, te_socket = 4, te_ssl = False,
     te_peer = Some [CHR 0x7F, CHR 0x00, CHR 0x00, CHR 0x01], te_read = (PROXY_NONE, zero_header),
     te_now = 9, te_ssl_accept = 0\<rparr>"
  define conn where "conn = \<lparr>client_socket = 4, ssl = False, simple_response = False,
     header_end_matched = 0, proxy_client_ip = []\<rparr>"
  have t: "connection_thread env (static_listener c) =
      Some (\<lparr>sent_429 = False, routed = Some conn\<rparr>, static_listener c)"
    by (simp add: connection_thread_def thread_body_def read_proxy_header_def env_def c_def conn_def
        static_listener_def unregister_connection_def)
  have "fst (te_read env) = PROXY_NONE \<and> proxy_client_ip conn = []"
    using proxy_trust_boundary [OF t, of conn] by (simp add: env_def static_listener_def c_def)
  with t show ?thesis unfolding Let_def c_def env_def conn_def by simp
qed

text \<open>
  C28. Every path of a connection thread gives back exactly one connection slot, and a connection that
  was told 429 is never routed: whatever the allocations, the reading of the PROXY header, the TLS
  handshake and the rate limiter have answered. What these steps and the router answer is taken as given; that they
  come back at all is not part of this statement.
\<close>


theorem connection_thread_releases_slot:
  assumes "listener_inv s" "0 < active_connections s"
  shows "\<exists>tr s'. connection_thread env s = Some (tr, s')
     \<and> active_connections s' = active_connections s - 1 \<and> (sent_429 tr \<longrightarrow> routed tr = None)"
proof (cases "args_ok env \<and> conn_malloc_ok env")
  case False
  with unregister_active [OF assms(2)] show ?thesis by (auto simp: connection_thread_def)
next
  case True
  let ?conn = "\<lparr>client_socket = te_socket env, ssl = te_ssl env, simple_response = False,
                header_end_matched = 0, proxy_client_ip = []\<rparr>"
  have never: False if "server_ip_rate_limited now ip_text s = None" for now ip_text
    using server_ip_rate_limited_total [OF assms(1), of now ip_text] that by simp
  have "\<exists>tr s1. thread_body env ?conn s = Some (tr, s1) \<and> (sent_429 tr \<longrightarrow> routed tr = None)"
    by (auto simp: thread_body_def Let_def split: option.splits prod.splits dest: never)
  then obtain tr s1 where b: "thread_body env ?conn s = Some (tr, s1)" "sent_429 tr \<longrightarrow> routed tr = None"
    by blast
  with thread_body_frame [OF assms(1) b(1)] unregister_active [of s1] assms(2) True
  show ?thesis by (simp add: connection_thread_def)
qed

theorem connection_thread_releases_slot_witness:
  "let c = \<lparr>ddos_max_connections = 1, ddos_rate_window_secs = 5, ddos_rate_limit = 2, ddos_max_ips = 1,
            ddos_ip_stale_secs = 300, cfg_proxy_protocol = True, cfg_trusted_proxies = ''10.0.0.1''\<rparr>;
       env = \<lparr>args_ok = True, conn_malloc_ok = True, te_socket = 4, te_ssl = False, te_peer = None,
              te_read = (PROXY_INVALID, zero_header), te_now = 9, te_ssl_accept = 0\<rparr>;
       s = (static_listener c)\<lparr>ip_table := [zero_entry], active_connections := 1\<rparr>
   in \<exists>tr s'. connection_thread env s = Some (tr, s')
     \<and> active_connections s' = active_connections s - 1 \<and> (sent_429 tr \<longrightarrow> routed tr = None)"
  unfolding Let_def
  by (rule connection_thread_releases_slot)
    (simp_all add: listener_inv_def slots_distinct_def entry_key_def zero_entry_def static_listener_def)

end
