(* ===== verification/Http_Request.thy ===== *)
theory Http_Request
  imports BR_Prelude
begin

text \<open>
  The request parser (src/src/web_server/http_request_parser.c) and the splitter of a URL
  into its path and parameters (src/src/web_server/utils/url_parser.c). A field of a C
  struct with \<open>n\<close> bytes holds a string of fewer than \<open>n\<close> bytes; \<open>fit\<close> is the copy into it.
\<close>

subsection \<open>The request\<close>

definition MAX_HEADERS :: nat where "MAX_HEADERS = 64"
definition MAX_HEADER_KEY :: nat where "MAX_HEADER_KEY = 64"
definition MAX_HEADER_VALUE :: nat where "MAX_HEADER_VALUE = 512"

record HttpHeader =
  hkey :: string
  hval :: string

record HttpRequest =
  req_method :: string
  req_url :: string
  req_protocol :: string
  req_headers :: "HttpHeader list"
  req_body :: "string option"

definition is_blank :: "char \<Rightarrow> bool" where
  "is_blank c \<longleftrightarrow> c = CHR '' '' \<or> c = TAB"

definition is_trail :: "char \<Rightarrow> bool" where
  "is_trail c \<longleftrightarrow> c = CHR '' '' \<or> c = TAB \<or> c = CR \<or> c = LF"

text \<open>The trailing loop stops at the first byte of the string, which it never drops.\<close>

definition trim :: "string \<Rightarrow> string" where
  "trim str =
     (case dropWhile is_blank str of
        [] \<Rightarrow> []
      | c # rest \<Rightarrow> c # rev (dropWhile is_trail (rev rest)))"

text \<open>\<open>%<n>s\<close> of \<open>sscanf\<close>: at most \<open>n\<close> bytes other than white space, after any white space.\<close>

definition scan_s :: "nat \<Rightarrow> string \<Rightarrow> (string \<times> string) option" where
  "scan_s n s =
     (let t = dropWhile isspace s; w = take n (takeWhile (\<lambda>c. \<not> isspace c) t)
      in if w = [] then None else Some (w, drop (length w) t))"

definition scan_request_line :: "string \<Rightarrow> nat \<times> string \<times> string \<times> string" where
  "scan_request_line line =
     (case scan_s 15 line of
        None \<Rightarrow> (0, [], [], [])
      | Some (m, r1) \<Rightarrow>
          (case scan_s 1023 r1 of
             None \<Rightarrow> (1, m, [], [])
           | Some (u, r2) \<Rightarrow>
               (case scan_s 15 r2 of
                  None \<Rightarrow> (2, m, u, [])
                | Some (p, r3) \<Rightarrow> (3, m, u, p))))"

definition split_absolute_form :: "string \<Rightarrow> string \<times> string" where
  "split_absolute_form u =
     (let scheme = (if prefix_ci ''http://'' u then 7 else if prefix_ci ''https://'' u then 8 else 0) in
      if scheme = 0 then (u, [])
      else
        let host = drop scheme u;
            auth = takeWhile (\<lambda>c. c \<notin> set ''/?#'') host;
            rest = dropWhile (\<lambda>c. c \<notin> set ''/?#'') host
        in (if rest \<noteq> [] \<and> hd rest = CHR ''/'' then rest else CHR ''/'' # rest,
            fit MAX_HEADER_VALUE auth))"

fun header_loop :: "string list \<Rightarrow> HttpHeader list \<Rightarrow> HttpHeader list" where
  "header_loop [] hs = hs"
| "header_loop (line # lines) hs =
     (if length hs \<ge> MAX_HEADERS then hs
      else case strchr line CHR '':'' of
             None \<Rightarrow> header_loop lines hs
           | Some i \<Rightarrow>
               header_loop lines
                 (hs @ [\<lparr>hkey = fit MAX_HEADER_KEY (trim (take i line)),
                         hval = fit MAX_HEADER_VALUE (trim (drop (Suc i) line))\<rparr>]))"

fun host_index :: "HttpHeader list \<Rightarrow> nat" where
  "host_index [] = 0"
| "host_index (h # hs) = (if eq_ci (hkey h) ''Host'' then 0 else Suc (host_index hs))"

definition apply_authority :: "string \<Rightarrow> HttpHeader list \<Rightarrow> HttpHeader list" where
  "apply_authority authority hs =
     (if authority = [] then hs
      else
        let h = host_index hs;
            hs1 = (if h = length hs \<and> h < MAX_HEADERS
                   then hs @ [\<lparr>hkey = fit MAX_HEADER_KEY ''Host'', hval = []\<rparr>] else hs)
        in if h < length hs1 then hs1[h := (hs1 ! h)\<lparr>hval := fit MAX_HEADER_VALUE authority\<rparr>] else hs1)"

text \<open>
  \<open>None\<close> is the return of -1. The buffer is followed by a NUL, so the search for the blank
  line stops at the first NUL of the request.
\<close>

definition parse_http_request :: "string \<Rightarrow> HttpRequest option" where
  "parse_http_request raw =
     (case strtok (\<lambda>c. c = CR \<or> c = LF) (cstr raw) of
        [] \<Rightarrow> None
      | line # lines \<Rightarrow>
          (case scan_request_line line of (nf, m, u, p) \<Rightarrow>
             if nf \<noteq> 3 \<and> nf \<noteq> 2 then None
             else
               let (u1, authority) = split_absolute_form u;
                   hs = apply_authority authority (header_loop lines []);
                   b = (case strstr (cstr raw) (CRLF @ CRLF) of
                          None \<Rightarrow> None
                        | Some i \<Rightarrow> if length raw > i + 4 then Some (drop (i + 4) raw) else None)
               in Some \<lparr>req_method = m, req_url = u1, req_protocol = p, req_headers = hs, req_body = b\<rparr>))"

subsection \<open>The URL\<close>

definition MAX_PARAMS :: nat where "MAX_PARAMS = 16"
definition MAX_PARAM_LENGTH :: nat where "MAX_PARAM_LENGTH = 256"

type_synonym QueryParam = "string \<times> string"

definition skip_amp :: "string \<Rightarrow> string" where
  "skip_amp param = (if prefix ''amp;'' param then drop 4 param else param)"

text \<open>The loop over the bytes from \<open>param\<close> to \<open>end\<close>, with the number of parameters stored.\<close>

function param_loop :: "string \<Rightarrow> nat \<Rightarrow> QueryParam list" where
  "param_loop param n =
     (if param = [] \<or> n \<ge> MAX_PARAMS then []
      else case strchr param CHR ''='' of
        None \<Rightarrow> []
      | Some eq \<Rightarrow>
          (case strchr param CHR ''&'' of
             Some next \<Rightarrow>
               if next < eq then param_loop (drop (Suc next) param) n
               else (fit MAX_PARAM_LENGTH (take eq param),
                     fit MAX_PARAM_LENGTH (drop (Suc eq) (take next param)))
                    # param_loop (skip_amp (drop (Suc next) param)) (Suc n)
           | None \<Rightarrow>
               [(fit MAX_PARAM_LENGTH (take eq param), fit MAX_PARAM_LENGTH (drop (Suc eq) param))]))"
  by pat_completeness auto
termination
  by (relation "measure (length \<circ> fst)") (auto simp: strchr_Some skip_amp_def)

declare param_loop.simps [simp del]

definition url_parse :: "string \<Rightarrow> nat \<Rightarrow> string \<times> QueryParam list" where
  "url_parse u route_size =
     (let target = takeWhile (\<lambda>c. c \<noteq> CHR ''#'') u in
      case strchr target CHR ''?'' of
        None \<Rightarrow> (fit route_size target, [])
      | Some q \<Rightarrow> (fit route_size (take q target), param_loop (drop (Suc q) target) 0))"

subsection \<open>Every field fits its array\<close>

definition header_fits :: "HttpHeader \<Rightarrow> bool" where
  "header_fits h \<longleftrightarrow> length (hkey h) < MAX_HEADER_KEY \<and> length (hval h) < MAX_HEADER_VALUE"

lemma scan_s_length: "scan_s n s = Some (w, r) \<Longrightarrow> length w \<le> n"
  by (auto simp: scan_s_def Let_def split: if_splits)

lemma scan_request_line_length:
  "scan_request_line line = (nf, m, u, p) \<Longrightarrow> length m \<le> 15 \<and> length u \<le> 1023 \<and> length p \<le> 15"
  by (auto simp: scan_request_line_def dest!: scan_s_length split: option.splits)

lemma split_absolute_form_length:
  assumes "split_absolute_form u = (u', a)"
  shows "length u' \<le> Suc (length u) \<and> length a < MAX_HEADER_VALUE"
proof -
  define k :: nat where
    "k = (if prefix_ci ''http://'' u then 7 else if prefix_ci ''https://'' u then 8 else 0)"
  let ?P = "\<lambda>c. c \<notin> set ''/?#''"
  let ?rest = "dropWhile ?P (drop k u)"
  have eq: "split_absolute_form u = (if k = 0 then (u, [])
      else (if ?rest \<noteq> [] \<and> hd ?rest = CHR ''/'' then ?rest else CHR ''/'' # ?rest,
            fit MAX_HEADER_VALUE (takeWhile ?P (drop k u))))"
    unfolding split_absolute_form_def k_def [symmetric] Let_def ..
  have d: "length ?rest \<le> length u"
    using length_dropWhile_le [of ?P "drop k u"] by (simp only: length_drop)
  have v: "0 < MAX_HEADER_VALUE" by (simp add: MAX_HEADER_VALUE_def)
  show ?thesis
  proof (cases "k = 0")
    case True
    with assms eq v show ?thesis by simp
  next
    case False
    with assms eq have u': "u' = (if ?rest \<noteq> [] \<and> hd ?rest = CHR ''/'' then ?rest else CHR ''/'' # ?rest)"
      and a: "a = fit MAX_HEADER_VALUE (takeWhile ?P (drop k u))" by (simp_all only: if_False prod.inject)
    from u' have "u' = ?rest \<or> u' = CHR ''/'' # ?rest" by argo
    with a d v show ?thesis by (auto simp only: list.size fit_length)
  qed
qed

lemma header_loop_fits:
  "\<forall>h\<in>set hs. header_fits h \<Longrightarrow> length hs \<le> MAX_HEADERS \<Longrightarrow>
     (\<forall>h\<in>set (header_loop lines hs). header_fits h) \<and> length (header_loop lines hs) \<le> MAX_HEADERS"
proof (induction lines hs rule: header_loop.induct)
  case (2 line lines hs)
  have pos: "0 < MAX_HEADER_KEY" "0 < MAX_HEADER_VALUE"
    by (simp_all add: MAX_HEADER_KEY_def MAX_HEADER_VALUE_def)
  show ?case
  proof (cases "length hs \<ge> MAX_HEADERS")
    case True
    with "2.prems" show ?thesis by simp
  next
    case False
    show ?thesis
    proof (cases "strchr line CHR '':''")
      case None
      with "2.IH"(1) "2.prems" False show ?thesis by simp
    next
      case (Some i)
      let ?h = "\<lparr>hkey = fit MAX_HEADER_KEY (trim (take i line)),
                 hval = fit MAX_HEADER_VALUE (trim (drop (Suc i) line))\<rparr>"
      have "header_fits ?h" using pos by (simp add: header_fits_def)
      with "2.prems" False have "\<forall>h\<in>set (hs @ [?h]). header_fits h" "length (hs @ [?h]) \<le> MAX_HEADERS"
        by auto
      with "2.IH"(2) [OF False Some] Some False show ?thesis by simp
    qed
  qed
qed simp

lemma host_index_le: "host_index hs \<le> length hs"
  by (induction hs) auto

lemma apply_authority_fits:
  assumes "\<forall>h\<in>set hs. header_fits h" "length hs \<le> MAX_HEADERS"
  shows "(\<forall>h\<in>set (apply_authority a hs). header_fits h) \<and> length (apply_authority a hs) \<le> MAX_HEADERS"
proof -
  have pos: "0 < MAX_HEADER_KEY" "0 < MAX_HEADER_VALUE"
    by (simp_all add: MAX_HEADER_KEY_def MAX_HEADER_VALUE_def)
  have upd: "\<forall>h\<in>set (xs[i := (xs ! i)\<lparr>hval := fit MAX_HEADER_VALUE a\<rparr>]). header_fits h"
    if "\<forall>h\<in>set xs. header_fits h" "i < length xs" for xs i
  proof -
    have "header_fits ((xs ! i)\<lparr>hval := fit MAX_HEADER_VALUE a\<rparr>)"
      using that pos nth_mem [OF that(2)] by (simp add: header_fits_def)
    then show ?thesis
      using that(1) set_update_subset_insert [of xs i] by blast
  qed
  define hs1 where "hs1 = (if host_index hs = length hs \<and> host_index hs < MAX_HEADERS
      then hs @ [\<lparr>hkey = fit MAX_HEADER_KEY ''Host'', hval = []\<rparr>] else hs)"
  have hs1: "\<forall>h\<in>set hs1. header_fits h" "length hs1 \<le> MAX_HEADERS"
    using assms pos by (auto simp: hs1_def header_fits_def)
  have "apply_authority a hs = (if a = [] then hs else if host_index hs < length hs1
      then hs1[host_index hs := (hs1 ! host_index hs)\<lparr>hval := fit MAX_HEADER_VALUE a\<rparr>] else hs1)"
    by (simp add: apply_authority_def hs1_def Let_def)
  with assms hs1 upd [OF hs1(1)] show ?thesis by simp
qed

text \<open>
  Whatever bytes a client sends: every string of a parsed request fits the array of its
  field with its terminating NUL, there are never more headers than the array holds, and the
  body is a tail of the bytes received.
\<close>

theorem parse_request_bounds:
  assumes "parse_http_request raw = Some req"
  shows "length (req_method req) < 16 \<and> length (req_url req) < 2048 \<and> length (req_protocol req) < 16
     \<and> length (req_headers req) \<le> MAX_HEADERS \<and> (\<forall>h\<in>set (req_headers req). header_fits h)
     \<and> (\<forall>b. req_body req = Some b \<longrightarrow> b \<noteq> [] \<and> suffix b raw)"
proof -
  from assms obtain line lines where l: "strtok (\<lambda>c. c = CR \<or> c = LF) (cstr raw) = line # lines"
    by (auto simp: parse_http_request_def split: list.splits)
  obtain nf m u p where s: "scan_request_line line = (nf, m, u, p)" by (metis prod_cases4)
  obtain u' a where a: "split_absolute_form u = (u', a)" by fastforce
  from assms l s a have req: "req = \<lparr>req_method = m, req_url = u', req_protocol = p,
      req_headers = apply_authority a (header_loop lines []),
      req_body = (case strstr (cstr raw) (CRLF @ CRLF) of None \<Rightarrow> None
        | Some i \<Rightarrow> if length raw > i + 4 then Some (drop (i + 4) raw) else None)\<rparr>"
    by (auto simp: parse_http_request_def split: if_splits)
  have "header_fits h" if "h \<in> set (req_headers req)" for h
    using that req apply_authority_fits [of "header_loop lines []" a] header_loop_fits [of "[]" lines]
    by (auto simp: MAX_HEADERS_def)
  moreover have "length (req_headers req) \<le> MAX_HEADERS"
    using req apply_authority_fits [of "header_loop lines []" a] header_loop_fits [of "[]" lines] by simp
  ultimately show ?thesis
    using scan_request_line_length [OF s] split_absolute_form_length [OF a] req
    by (auto simp: suffix_drop split: option.splits if_splits)
qed

theorem parse_request_bounds_witness:
  "parse_http_request (''GET /'' @ CRLF @ CRLF) =
     Some \<lparr>req_method = ''GET'', req_url = ''/'', req_protocol = [], req_headers = [], req_body = None\<rparr>
   \<and> length ''/'' < 2048"
proof -
  have p: "parse_http_request (''GET /'' @ CRLF @ CRLF) =
     Some \<lparr>req_method = ''GET'', req_url = ''/'', req_protocol = [], req_headers = [], req_body = None\<rparr>"
    by code_simp
  from parse_request_bounds [OF p] p show ?thesis by simp
qed

subsection \<open>A well-formed request is read as it was written\<close>

abbreviation is_eol :: "char \<Rightarrow> bool" where
  "is_eol c \<equiv> c = CR \<or> c = LF"

definition header_line :: "HttpHeader \<Rightarrow> string" where
  "header_line h = hkey h @ '': '' @ hval h"

definition request_lines :: "string \<Rightarrow> string \<Rightarrow> string \<Rightarrow> HttpHeader list \<Rightarrow> string list" where
  "request_lines m u p hs = (m @ '' '' @ u @ '' '' @ p) # map header_line hs"

definition request_head :: "string \<Rightarrow> string \<Rightarrow> string \<Rightarrow> HttpHeader list \<Rightarrow> string" where
  "request_head m u p hs = concat (map (\<lambda>w. w @ CRLF) (request_lines m u p hs)) @ CRLF"

definition request_text :: "string \<Rightarrow> string \<Rightarrow> string \<Rightarrow> HttpHeader list \<Rightarrow> string \<Rightarrow> string" where
  "request_text m u p hs b = request_head m u p hs @ b"

definition word_ok :: "nat \<Rightarrow> string \<Rightarrow> bool" where
  "word_ok n w \<longleftrightarrow> w \<noteq> [] \<and> length w \<le> n \<and> (\<forall>c\<in>set w. \<not> isspace c \<and> c \<noteq> NUL)"

definition text_ok :: "string \<Rightarrow> bool" where
  "text_ok w \<longleftrightarrow> (\<forall>c\<in>set w. \<not> is_eol c \<and> c \<noteq> NUL)
     \<and> (w \<noteq> [] \<longrightarrow> \<not> is_blank (hd w) \<and> \<not> is_blank (last w))"

definition header_ok :: "HttpHeader \<Rightarrow> bool" where
  "header_ok h \<longleftrightarrow> text_ok (hkey h) \<and> text_ok (hval h) \<and> hkey h \<noteq> [] \<and> CHR '':'' \<notin> set (hkey h)
     \<and> header_fits h"

lemma word_ok_eol: "word_ok n w \<Longrightarrow> c \<in> set w \<Longrightarrow> \<not> is_eol c"
proof -
  assume w: "word_ok n w" "c \<in> set w"
  have "isspace CR" "isspace LF" by (simp_all add: isspace_def)
  moreover have "\<not> isspace c" using w by (simp add: word_ok_def)
  ultimately show "\<not> is_eol c" by metis
qed

lemma header_line_ok:
  assumes "header_ok h"
  shows "header_line h \<noteq> []" and "c \<in> set (header_line h) \<Longrightarrow> \<not> is_eol c \<and> c \<noteq> NUL"
proof -
  show "header_line h \<noteq> []" by (simp add: header_line_def)
  have "\<forall>c\<in>set (hkey h). \<not> is_eol c \<and> c \<noteq> NUL" "\<forall>c\<in>set (hval h). \<not> is_eol c \<and> c \<noteq> NUL"
    using assms by (simp_all add: header_ok_def text_ok_def)
  moreover have "set (header_line h) = set (hkey h) \<union> {CHR '':'', CHR '' ''} \<union> set (hval h)"
    by (simp add: header_line_def)
  moreover assume "c \<in> set (header_line h)"
  ultimately show "\<not> is_eol c \<and> c \<noteq> NUL" by fastforce
qed

lemma scan_s_word:
  assumes "word_ok n w" "r = [] \<or> isspace (hd r)" "\<forall>c\<in>set sp. isspace c"
  shows "scan_s n (sp @ w @ r) = Some (w, r)"
proof -
  from assms(1) obtain c w' where w: "w = c # w'" "\<not> isspace c" by (cases w) (auto simp: word_ok_def)
  have d: "dropWhile isspace (sp @ w @ r) = w @ r"
    using assms(3) w by (induction sp) auto
  have t: "takeWhile (\<lambda>c. \<not> isspace c) (w @ r) = w"
    using assms(1,2) by (cases r) (auto simp: word_ok_def takeWhile_append2)
  have "w \<noteq> []" "length w \<le> n" "0 < n" using assms(1) w by (auto simp: word_ok_def)
  then show ?thesis by (simp add: scan_s_def d t)
qed

lemma scan_request_line_text:
  assumes "word_ok 15 m" "word_ok 1023 u" "word_ok 15 p"
  shows "scan_request_line (m @ '' '' @ u @ '' '' @ p) = (3, m, u, p)"
proof -
  have sp: "isspace CHR '' ''" by (simp add: isspace_def)
  have "scan_s 15 (m @ '' '' @ u @ '' '' @ p) = Some (m, '' '' @ u @ '' '' @ p)"
    using scan_s_word [OF assms(1), of "'' '' @ u @ '' '' @ p" "[]"] sp by simp
  moreover have "scan_s 1023 ('' '' @ u @ '' '' @ p) = Some (u, '' '' @ p)"
    using scan_s_word [OF assms(2), of "'' '' @ p" "'' ''"] sp by simp
  moreover have "scan_s 15 ('' '' @ p) = Some (p, [])"
    using scan_s_word [OF assms(3), of "[]" "'' ''"] sp by simp
  ultimately show ?thesis by (simp add: scan_request_line_def)
qed

lemma trim_text:
  assumes "text_ok w" "\<forall>c\<in>set sp. is_blank c"
  shows "trim (sp @ w) = w"
proof (cases w)
  case Nil
  from assms(2) have "dropWhile is_blank sp = []" by (simp add: dropWhile_eq_Nil_conv)
  then show ?thesis unfolding trim_def Nil append_Nil2 by (simp only: list.case)
next
  case (Cons c rest)
  have d: "dropWhile is_blank (sp @ w) = w"
    using assms Cons by (induction sp) (auto simp: text_ok_def)
  have "rev (dropWhile is_trail (rev rest)) = rest"
  proof (cases rest rule: rev_cases)
    case (snoc ys y)
    with assms(1) Cons have "\<not> is_trail y" by (auto simp: text_ok_def is_trail_def is_blank_def)
    with snoc show ?thesis by simp
  qed simp
  with d Cons show ?thesis by (simp add: trim_def)
qed

lemma header_loop_append:
  "length hs + length ws \<le> MAX_HEADERS \<Longrightarrow> \<forall>w\<in>set ws. header_ok w \<Longrightarrow>
     header_loop (map header_line ws @ lines) hs = header_loop lines (hs @ ws)"
proof (induction ws arbitrary: hs)
  case (Cons w ws)
  have w: "header_ok w" using Cons.prems by simp
  then have "strchr (header_line w) CHR '':'' = Some (length (hkey w))"
    by (simp add: header_line_def strchr_append header_ok_def strchr_None [THEN iffD2])
  moreover have "trim (hkey w) = hkey w" "trim (CHR '' '' # hval w) = hval w"
    using w trim_text [of "hkey w" "[]"] trim_text [of "hval w" "'' ''"]
    by (simp_all add: header_ok_def is_blank_def)
  moreover have "fit MAX_HEADER_KEY (hkey w) = hkey w" "fit MAX_HEADER_VALUE (hval w) = hval w"
    using w by (simp_all add: header_ok_def header_fits_def fit_id)
  ultimately have "header_loop (header_line w # ls) hs = header_loop ls (hs @ [w])" for ls
    using Cons.prems(1) by (cases w) (simp add: header_line_def)
  with Cons show ?case by simp
qed simp

lemma header_loop_no_colon: "\<forall>w\<in>set lines. CHR '':'' \<notin> set w \<Longrightarrow> header_loop lines hs = hs"
  by (induction lines) (auto simp: strchr_None [THEN iffD2])

lemma strtok_lines:
  assumes "\<forall>w\<in>set ws. w \<noteq> [] \<and> (\<forall>c\<in>set w. \<not> is_eol c)"
  shows "strtok is_eol (concat (map (\<lambda>w. w @ CRLF) ws) @ s) = ws @ strtok is_eol s"
  using assms
proof (induction ws)
  case (Cons w ws)
  have "strtok is_eol (w @ CR # (LF # t)) = w # strtok is_eol (LF # t)" for t
    by (rule strtok_sep) (use Cons.prems in auto)
  with Cons show ?case by simp
qed simp

lemma strstr_blank_line:
  assumes "\<forall>w\<in>set ws. w \<noteq> [] \<and> (\<forall>c\<in>set w. \<not> is_eol c)" "ws \<noteq> []"
  shows "\<exists>i. strstr (concat (map (\<lambda>w. w @ CRLF) ws) @ CRLF @ s) (CRLF @ CRLF) = Some i
     \<and> i + 2 = length (concat (map (\<lambda>w. w @ CRLF) ws))"
  using assms
proof (induction ws)
  case (Cons w ws)
  have skip: "strstr (w @ t) (CRLF @ CRLF) = map_option (\<lambda>i. length w + i) (strstr t (CRLF @ CRLF))" for t
    using strstr_skip [of CR w t] Cons.prems by auto
  show ?case
  proof (cases ws)
    case Nil
    then show ?thesis using skip by simp
  next
    case (Cons v vs)
    then obtain c v' where v: "v = c # v'" "\<not> is_eol c" using Cons.prems by (cases v) auto
    let ?rest = "concat (map (\<lambda>w. w @ CRLF) ws) @ CRLF @ s"
    from Cons.IH Cons.prems Cons obtain i where "strstr ?rest (CRLF @ CRLF) = Some i"
      "i + 2 = length (concat (map (\<lambda>w. w @ CRLF) ws))" by auto
    moreover have "strstr (CRLF @ ?rest) (CRLF @ CRLF) = map_option (\<lambda>i. Suc (Suc i)) (strstr ?rest (CRLF @ CRLF))"
    proof -
      obtain t where t: "?rest = c # t" using Cons v by simp
      have "CR \<noteq> c" "LF \<noteq> c" using v by auto
      then show ?thesis unfolding t by (simp add: option.map_comp comp_def)
    qed
    ultimately show ?thesis using skip [of "CRLF @ ?rest"] by simp
  qed
qed simp

lemma parse_http_request_eq:
  assumes "strtok is_eol (cstr raw) = line # lines" "scan_request_line line = (3, m, u, p)"
    and "split_absolute_form u = (u', a)"
  shows "parse_http_request raw = Some \<lparr>req_method = m, req_url = u', req_protocol = p,
      req_headers = apply_authority a (header_loop lines []),
      req_body = (case strstr (cstr raw) (CRLF @ CRLF) of None \<Rightarrow> None
        | Some i \<Rightarrow> if length raw > i + 4 then Some (drop (i + 4) raw) else None)\<rparr>"
  using assms by (simp add: parse_http_request_def)

lemma drop_blank_line:
  assumes "i + 2 = length h"
  shows "drop (i + 4) (h @ CRLF @ b) = b" and "length (h @ CRLF @ b) > i + 4 \<longleftrightarrow> b \<noteq> []"
proof -
  have e: "i + 4 = length h + 2" using assms by simp
  show "drop (i + 4) (h @ CRLF @ b) = b" unfolding e by simp
  show "length (h @ CRLF @ b) > i + 4 \<longleftrightarrow> b \<noteq> []" unfolding e by simp
qed

lemma cstr_append: "NUL \<notin> set h \<Longrightarrow> cstr (h @ s) = h @ cstr s"
  unfolding cstr_def by (rule takeWhile_append2) auto

lemma request_lines_ok:
  assumes "word_ok 15 m" "word_ok 1023 u" "word_ok 15 p" "\<forall>h\<in>set hs. header_ok h"
  shows "\<forall>w\<in>set (request_lines m u p hs). w \<noteq> [] \<and> (\<forall>c\<in>set w. \<not> is_eol c)"
proof
  have l: "m @ '' '' @ u @ '' '' @ p \<noteq> [] \<and> (\<forall>c\<in>set (m @ '' '' @ u @ '' '' @ p). \<not> is_eol c)"
    using assms(1-3) [THEN word_ok_eol] by (simp add: ball_Un)
  fix w assume "w \<in> set (request_lines m u p hs)"
  then consider "w = m @ '' '' @ u @ '' '' @ p" | h where "h \<in> set hs" "w = header_line h"
    by (auto simp: request_lines_def)
  then show "w \<noteq> [] \<and> (\<forall>c\<in>set w. \<not> is_eol c)"
  proof cases
    case 1
    show ?thesis unfolding 1 by (rule l)
  next
    case 2
    have "header_ok h" using assms(4) 2(1) by blast
    then show ?thesis unfolding 2(2) using header_line_ok [of h] by blast
  qed
qed

lemma request_head_nul:
  assumes "word_ok 15 m" "word_ok 1023 u" "word_ok 15 p" "\<forall>h\<in>set hs. header_ok h"
  shows "NUL \<notin> set (request_head m u p hs)"
proof -
  have "NUL \<notin> set m" "NUL \<notin> set u" "NUL \<notin> set p" using assms(1-3) by (auto simp: word_ok_def)
  moreover have "NUL \<notin> set (header_line h)" if "h \<in> set hs" for h
    using header_line_ok(2) [of h NUL] assms(4) that by blast
  ultimately show ?thesis by (simp add: request_head_def request_lines_def)
qed

lemma strtok_body_no_colon: "CHR '':'' \<notin> set b \<Longrightarrow> \<forall>w\<in>set (strtok is_eol (cstr b)). CHR '':'' \<notin> set w"
proof
  fix w assume b: "CHR '':'' \<notin> set b" and "w \<in> set (strtok is_eol (cstr b))"
  then have "set w \<subseteq> set (cstr b)" using strtok_no_delim by blast
  also have "set (cstr b) \<subseteq> set b" by (auto simp: cstr_def dest: set_takeWhileD)
  finally show "CHR '':'' \<notin> set w" using b by blast
qed

lemma parse_request_text:
  assumes "word_ok 15 m" "word_ok 1023 u" "word_ok 15 p"
    and "\<not> prefix_ci ''http://'' u" "\<not> prefix_ci ''https://'' u"
    and "\<forall>h\<in>set hs. header_ok h" "length hs \<le> MAX_HEADERS" "CHR '':'' \<notin> set b"
  shows "parse_http_request (request_text m u p hs b) =
    Some \<lparr>req_method = m, req_url = u, req_protocol = p, req_headers = hs,
          req_body = (if b = [] then None else Some b)\<rparr>"
proof -
  let ?head = "concat (map (\<lambda>w. w @ CRLF) (request_lines m u p hs))" and ?raw = "request_text m u p hs b"
  note ok = request_lines_ok [OF assms(1-3,6)]
  have raw: "?raw = ?head @ CRLF @ b" by (simp add: request_text_def request_head_def)
  have cs: "cstr ?raw = ?head @ CRLF @ cstr b"
    using cstr_append [OF request_head_nul [OF assms(1-3,6)], of b] by (simp add: request_text_def request_head_def)
  have tok: "strtok is_eol (cstr ?raw) =
      (m @ '' '' @ u @ '' '' @ p) # (map header_line hs @ strtok is_eol (cstr b))"
    unfolding cs using strtok_lines [OF ok, of "CRLF @ cstr b"] by (simp add: request_lines_def)
  have hl: "header_loop (map header_line hs @ strtok is_eol (cstr b)) [] = hs"
    using header_loop_append [of "[]" hs] assms(6,7) header_loop_no_colon [OF strtok_body_no_colon [OF assms(8)]] by simp
  obtain i where i: "strstr (?head @ CRLF @ cstr b) (CRLF @ CRLF) = Some i" "i + 2 = length ?head"
    using strstr_blank_line [OF ok] by (auto simp: request_lines_def)
  have body: "drop (i + 4) ?raw = b" "length ?raw > i + 4 \<longleftrightarrow> b \<noteq> []"
    unfolding raw by (rule drop_blank_line [OF i(2), of b])+
  note sl = scan_request_line_text [OF assms(1-3)]
  have sa: "split_absolute_form u = (u, [])" using assms(4,5) by (simp add: split_absolute_form_def)
  have "strstr (cstr ?raw) (CRLF @ CRLF) = Some i" unfolding cs by (rule i(1))
  with tok body show ?thesis
    by (simp only: parse_http_request_eq [OF _ sl sa] hl) (simp add: apply_authority_def)
qed

text \<open>
  A request written with one space between the words of its first line, one header per
  line, a blank line and a body is parsed back exactly: method, URL, version, headers in
  order and the body, byte for byte. The body's own lines must hold no colon: the header loop
  does not stop at the blank line (see the next property).
\<close>

theorem parse_request_roundtrip:
  assumes "word_ok 15 m" "word_ok 1023 u" "word_ok 15 p"
    and "\<not> prefix_ci ''http://'' u" "\<not> prefix_ci ''https://'' u"
    and "\<forall>h\<in>set hs. header_ok h" "length hs \<le> MAX_HEADERS" "CHR '':'' \<notin> set b"
  shows "parse_http_request (request_text m u p hs b) =
    Some \<lparr>req_method = m, req_url = u, req_protocol = p, req_headers = hs,
          req_body = (if b = [] then None else Some b)\<rparr>"
  using assms by (rule parse_request_text)

theorem parse_request_roundtrip_witness:
  "parse_http_request (request_text ''POST'' ''/a?b=1'' ''HTTP/1.1''
       [\<lparr>hkey = ''Host'', hval = ''x.org''\<rparr>, \<lparr>hkey = ''Accept'', hval = []\<rparr>] ''k=v'') =
     Some \<lparr>req_method = ''POST'', req_url = ''/a?b=1'', req_protocol = ''HTTP/1.1'',
           req_headers = [\<lparr>hkey = ''Host'', hval = ''x.org''\<rparr>, \<lparr>hkey = ''Accept'', hval = []\<rparr>],
           req_body = Some ''k=v''\<rparr>"
  by (subst parse_request_roundtrip)
    (simp_all add: word_ok_def isspace_def prefix_ci_def tolower_def isupper_def header_ok_def text_ok_def
      is_blank_def header_fits_def MAX_HEADER_KEY_def MAX_HEADER_VALUE_def MAX_HEADERS_def)

text \<open>
  The blank line does not end the headers: \<open>strtok_r\<close> skips empty lines, so a line of the
  body that holds a colon is added to the request's headers.
\<close>

theorem parse_request_body_header:
  "parse_http_request (request_text ''POST'' ''/'' ''HTTP/1.0'' [] (''X-Real-IP: 1.2.3.4'')) =
     Some \<lparr>req_method = ''POST'', req_url = ''/'', req_protocol = ''HTTP/1.0'',
           req_headers = [\<lparr>hkey = ''X-Real-IP'', hval = ''1.2.3.4''\<rparr>],
           req_body = Some ''X-Real-IP: 1.2.3.4''\<rparr>"
  by code_simp

subsection \<open>Query parameters come back\<close>

text \<open>A query string; the flag says that a separator is written as HTML writes it.\<close>

fun query_text :: "(bool \<times> QueryParam) list \<Rightarrow> string" where
  "query_text [] = []"
| "query_text [(a, k, v)] = k @ ''='' @ v"
| "query_text ((a, k, v) # q # qs) =
     k @ ''='' @ v @ ''&'' @ (if a then ''amp;'' else []) @ query_text (q # qs)"

definition param_ok :: "QueryParam \<Rightarrow> bool" where
  "param_ok kv \<longleftrightarrow> length (fst kv) < MAX_PARAM_LENGTH \<and> length (snd kv) < MAX_PARAM_LENGTH
     \<and> CHR ''='' \<notin> set (fst kv) \<and> CHR ''&'' \<notin> set (fst kv) \<and> CHR ''#'' \<notin> set (fst kv)
     \<and> CHR ''&'' \<notin> set (snd kv) \<and> CHR ''#'' \<notin> set (snd kv) \<and> \<not> prefix ''amp;'' (fst kv)"

lemma query_text_Cons: "\<exists>t. query_text ((a, k, v) # qs) = k @ CHR ''='' # v @ t"
  by (cases qs) auto

lemma not_prefix_amp:
  assumes "\<not> prefix ''amp;'' k"
  shows "\<not> prefix ''amp;'' (k @ CHR ''='' # t)"
proof
  assume p: "prefix ''amp;'' (k @ CHR ''='' # t)"
  have k: "k = [] \<or> k = ''a'' \<or> k = ''am'' \<or> k = ''amp'' \<or> prefix ''amp;'' k"
  proof -
    from p have "prefix ''amp;'' k \<or> (\<exists>us. ''amp;'' = k @ us \<and> prefix us (CHR ''='' # t))"
      by (simp only: prefix_append)
    then show ?thesis by (auto simp: Cons_eq_append_conv)
  qed
  with p assms show False by auto
qed

lemma skip_amp_query:
  assumes "param_ok (snd q)"
  shows "skip_amp ((if a then ''amp;'' else []) @ query_text (q # qs)) = query_text (q # qs)"
proof (cases a)
  case False
  obtain b k v where q: "q = (b, k, v)" by (cases q) auto
  obtain t where t: "query_text (q # qs) = k @ CHR ''='' # t"
    using query_text_Cons [of b k v qs] q by auto
  have "\<not> prefix ''amp;'' k" using assms q by (simp add: param_ok_def)
  with False not_prefix_amp [of k t] show ?thesis unfolding skip_amp_def t by simp
qed (simp add: skip_amp_def)

lemma param_loop_query:
  "\<forall>q\<in>set qs. param_ok (snd q) \<Longrightarrow> n + length qs \<le> MAX_PARAMS \<Longrightarrow>
     param_loop (query_text qs) n = map snd qs"
proof (induction qs arbitrary: n rule: query_text.induct)
  case 1
  show ?case by (simp add: param_loop.simps [of "[]"])
next
  case (2 a k v)
  let ?p = "k @ CHR ''='' # v"
  have ok: "param_ok (k, v)" using "2.prems"(1) by simp
  have "strchr ?p CHR ''='' = Some (length k)" using ok by (simp add: strchr_here param_ok_def)
  moreover have "strchr ?p CHR ''&'' = None" using ok by (simp add: strchr_None param_ok_def)
  ultimately have "param_loop ?p n = [(fit MAX_PARAM_LENGTH k, fit MAX_PARAM_LENGTH v)]"
    using "2.prems"(2) by (simp add: param_loop.simps [of ?p])
  with ok show ?case by (simp add: param_ok_def fit_id)
next
  case (3 a k v q qs)
  let ?r = "(if a then ''amp;'' else []) @ query_text (q # qs)"
  let ?p = "k @ CHR ''='' # v @ CHR ''&'' # ?r"
  have ok: "param_ok (k, v)" and okq: "param_ok (snd q)" using "3.prems"(1) by simp_all
  have eq: "strchr ?p CHR ''='' = Some (length k)" using ok by (simp add: strchr_here param_ok_def)
  have nx: "strchr ?p CHR ''&'' = Some (Suc (length k + length v))"
    using ok strchr_here [of "CHR ''&''" "k @ CHR ''='' # v" ?r] by (simp add: param_ok_def)
  have tk: "take (length k) ?p = k" by simp
  have vl: "drop (Suc (length k)) (take (Suc (length k + length v)) ?p) = v" by simp
  have rs: "drop (Suc (Suc (length k + length v))) ?p = ?r" by simp
  have "param_loop ?p n = (fit MAX_PARAM_LENGTH k, fit MAX_PARAM_LENGTH v)
      # param_loop (skip_amp ?r) (Suc n)"
    unfolding param_loop.simps [of ?p] eq nx option.case tk vl rs
    using "3.prems"(2) by simp
  also have "\<dots> = (k, v) # param_loop (query_text (q # qs)) (Suc n)"
    using ok by (simp only: skip_amp_query [OF okq]) (simp add: param_ok_def fit_id)
  also have "param_loop (query_text (q # qs)) (Suc n) = map snd (q # qs)"
    using "3.IH" [of "Suc n"] "3.prems" by simp
  finally show ?case by simp
qed

lemma query_text_no_hash: "\<forall>q\<in>set qs. param_ok (snd q) \<Longrightarrow> CHR ''#'' \<notin> set (query_text qs)"
  by (induction qs rule: query_text.induct) (auto simp: param_ok_def)

text \<open>
  C38. A URL of a path, up to \<open>MAX_PARAMS\<close> parameters and any fragment is split back into the
  path and the parameters in order, whether each separator is written \<open>&\<close> or \<open>&amp;\<close>; the
  fragment reaches neither.
\<close>

theorem url_parse_roundtrip:
  assumes "CHR ''#'' \<notin> set path" "CHR ''?'' \<notin> set path" "length path < route_size"
    and "\<forall>q\<in>set qs. param_ok (snd q)" "length qs \<le> MAX_PARAMS" "frag = [] \<or> hd frag = CHR ''#''"
  shows "url_parse (path @ ''?'' @ query_text qs @ frag) route_size = (path, map snd qs)"
proof -
  let ?t = "path @ ''?'' @ query_text qs"
  have h: "CHR ''#'' \<notin> set ?t" using assms(1) query_text_no_hash [OF assms(4)] by simp
  have "takeWhile (\<lambda>c. c \<noteq> CHR ''#'') (?t @ frag) = ?t @ takeWhile (\<lambda>c. c \<noteq> CHR ''#'') frag"
    by (rule takeWhile_append2) (use h in auto)
  also have "takeWhile (\<lambda>c. c \<noteq> CHR ''#'') frag = []" using assms(6) by (cases frag) auto
  finally have "takeWhile (\<lambda>c. c \<noteq> CHR ''#'') (path @ ''?'' @ query_text qs @ frag) = ?t" by simp
  moreover have "strchr ?t CHR ''?'' = Some (length path)" using assms(2) by (simp add: strchr_here)
  ultimately show ?thesis
    using param_loop_query [OF assms(4), of 0] assms(3,5) by (simp add: url_parse_def fit_id)
qed

theorem url_parse_roundtrip_witness:
  "url_parse (''/blog'' @ ''?'' @ query_text [(True, ''page'', ''2''), (False, ''q'', [])] @ ''#top'') 300 =
     (''/blog'', [(''page'', ''2''), (''q'', [])])"
  by (subst url_parse_roundtrip) (simp_all add: param_ok_def MAX_PARAM_LENGTH_def MAX_PARAMS_def)

end
