(* ===== verification/Multipart.thy ===== *)
theory Multipart
  imports BR_Prelude
begin

text \<open>
  The parser of multipart/form-data bodies (src/src/web_server/utils/multipart_parser.c), with
  the portable \<open>memmem\<close> it searches with (memmem_compat.h). A part's data is the stretch of
  the body it points at. Memory is assumed to be available.
\<close>

subsection \<open>Data\<close>

definition MAX_PARTS :: nat where "MAX_PARTS = 64"

record MultipartPart =
  part_name :: string
  part_filename :: string
  part_content_type :: string
  part_data :: string

subsection \<open>Searching\<close>

fun memmem_loop :: "string \<Rightarrow> string \<Rightarrow> nat \<Rightarrow> nat \<Rightarrow> nat option" where
  "memmem_loop h n i 0 = None"
| "memmem_loop h n i (Suc left) =
     (if h ! i = n ! 0 \<and> take (length n) (drop i h) = n then Some i
      else memmem_loop h n (Suc i) left)"

definition portable_memmem :: "string \<Rightarrow> string \<Rightarrow> nat option" where
  "portable_memmem h n =
     (if n = [] then Some 0
      else if length h < length n then None
      else memmem_loop h n 0 (length h - length n + 1))"

subsection \<open>Parsing\<close>

definition extract_header_value :: "string \<Rightarrow> string \<Rightarrow> nat \<Rightarrow> string" where
  "extract_header_value hdrs k out_size =
     (case portable_memmem hdrs k of
        None \<Rightarrow> []
      | Some i \<Rightarrow>
          let pos = drop (i + length k) hdrs in
          if k \<noteq> [] \<and> last k = DQ
          then (case strchr pos DQ of None \<Rightarrow> [] | Some e \<Rightarrow> fit out_size (take e pos))
          else fit out_size (takeWhile (\<lambda>c. c \<noteq> CHR '';'' \<and> c \<noteq> CR \<and> c \<noteq> CHR '' '') pos))"

text \<open>The boundary of a Content-Type, without the two dashes put before it.\<close>

definition boundary_of :: "string \<Rightarrow> string option" where
  "boundary_of content_type =
     (case strstr content_type ''boundary='' of
        None \<Rightarrow> None
      | Some i \<Rightarrow>
          let bp = drop (i + 9) content_type;
              quoted = (bp \<noteq> [] \<and> hd bp = DQ);
              bp1 = (if quoted then tl bp else bp)
          in if quoted \<and> DQ \<notin> set bp1 then None
             else Some (takeWhile (\<lambda>c. c \<noteq> CR \<and> c \<noteq> LF \<and> c \<noteq> DQ) (take 253 bp1)))"

definition content_type_of :: "string \<Rightarrow> string \<Rightarrow> string" where
  "content_type_of hdrs slot =
     (case portable_memmem hdrs ''Content-Type: '' of
        None \<Rightarrow> slot
      | Some i \<Rightarrow>
          let ct = drop (i + 14) hdrs in
          fit 64 (case portable_memmem ct CRLF of None \<Rightarrow> ct | Some e \<Rightarrow> take e ct))"

definition strip_crlf :: "string \<Rightarrow> string" where
  "strip_crlf d =
     (if length d \<ge> 2 \<and> d ! (length d - 2) = CR \<and> d ! (length d - 1) = LF
      then take (length d - 2) d else d)"

lemma part_shrinks: "part \<noteq> [] \<Longrightarrow> length (drop k (drop (length (''--'' @ bp)) part)) < length part"
  by (cases part) auto

text \<open>
  The loop over the parts, from the boundary that starts the current one. \<open>slot\<close> is the content
  type left in the current array slot by a part that was not counted; \<open>n\<close> is the count.
\<close>

function part_loop :: "string \<Rightarrow> string \<Rightarrow> string \<Rightarrow> nat \<Rightarrow> MultipartPart list" where
  "part_loop bp part slot n =
     (if part = [] \<or> n \<ge> MAX_PARTS then []
      else
        let boundary = ''--'' @ bp;
            after = drop (length boundary) part;
            next = (case portable_memmem after boundary of Some i \<Rightarrow> i | None \<Rightarrow> length after);
            h0 = (if length after \<ge> 2 \<and> take 2 after = CRLF then 2 else 0);
            header_start = drop h0 after
        in
          if header_start = [] \<or> prefix ''--'' header_start then []
          else case portable_memmem (take (next - h0) header_start) (CRLF @ CRLF) of
            None \<Rightarrow> part_loop bp (drop next after) slot n
          | Some e \<Rightarrow>
              let hdrs = take e header_start;
                  data = strip_crlf (drop (e + 4) (take (next - h0) header_start));
                  name = extract_header_value hdrs (''name='' @ [DQ]) 128;
                  ct = content_type_of hdrs slot
              in
                if name \<noteq> []
                then \<lparr>part_name = name,
                      part_filename = extract_header_value hdrs (''filename='' @ [DQ]) 256,
                      part_content_type = ct, part_data = data\<rparr>
                     # part_loop bp (drop next after) [] (Suc n)
                else part_loop bp (drop next after) ct n)"
  by pat_completeness auto
termination
  by (relation "measure (\<lambda>(bp, part, slot, n). length part)")
    (simp, (simp only: in_measure prod.case de_Morgan_disj part_shrinks not_False_eq_True)+)

declare part_loop.simps [simp del]

definition parse_multipart :: "string \<Rightarrow> string option \<Rightarrow> MultipartPart list option" where
  "parse_multipart bd content_type =
     (case content_type of
        None \<Rightarrow> None
      | Some ct \<Rightarrow>
          (case boundary_of ct of
             None \<Rightarrow> None
           | Some bp \<Rightarrow>
               (case portable_memmem bd (''--'' @ bp) of
                  None \<Rightarrow> None
                | Some i \<Rightarrow> Some (part_loop bp (drop i bd) [] 0))))"

definition multipart_find :: "MultipartPart list \<Rightarrow> string \<Rightarrow> MultipartPart option" where
  "multipart_find parts name = find (\<lambda>p. part_name p = name) parts"

subsection \<open>The portable search is the search\<close>

lemma memmem_loop_spec:
  assumes "n \<noteq> []"
  shows "i + left + length n = length h + 1 \<Longrightarrow> \<forall>j<i. \<not> prefix n (drop j h) \<Longrightarrow>
    memmem_loop h n i left = strstr h n"
proof (induction left arbitrary: i)
  case 0
  have "strstr h n = None"
  proof (rule ccontr)
    assume "strstr h n \<noteq> None"
    then obtain k where k: "strstr h n = Some k" by blast
    then have "k + length n \<le> length h" by (rule strstr_length)
    with 0 have "k < i" by simp
    with 0 k show False by (simp add: strstr_Some_iff)
  qed
  then show ?case by simp
next
  case (Suc left)
  have il: "i < length h" using Suc.prems(1) assms by (cases n) auto
  have t: "take (length n) (drop i h) = n \<longleftrightarrow> prefix n (drop i h)"
    by (metis append_eq_conv_conj prefix_def)
  have hd: "h ! i = n ! 0" if "prefix n (drop i h)"
  proof -
    from that obtain t where "drop i h = n @ t" by (auto simp: prefix_def)
    with assms have "drop i h = n ! 0 # tl n @ t" by (cases n) auto
    then show ?thesis by (rule nth_via_drop)
  qed
  show ?case
  proof (cases "prefix n (drop i h)")
    case True
    with Suc.prems(2) il have "strstr h n = Some i" by (simp add: strstr_Some_iff)
    with True t hd show ?thesis by simp
  next
    case False
    with Suc.prems(2) have "\<forall>j<Suc i. \<not> prefix n (drop j h)" using less_Suc_eq by auto
    with Suc.IH [of "Suc i"] Suc.prems(1) False t show ?thesis by simp
  qed
qed

lemma portable_memmem_strstr: "portable_memmem h n = strstr h n"
proof (cases "n = []")
  case True
  then show ?thesis by (cases h) (simp_all add: portable_memmem_def)
next
  case False
  show ?thesis
  proof (cases "length h < length n")
    case True
    then have "strstr h n = None" using strstr_length by (cases "strstr h n") fastforce+
    with True False show ?thesis by (simp add: portable_memmem_def)
  next
    case le: False
    with False memmem_loop_spec [OF False, of 0 "length h - length n + 1" h] show ?thesis
      by (simp add: portable_memmem_def)
  qed
qed

text \<open>
  The portable \<open>memmem\<close> finds exactly the first occurrence, and nothing when there is none.
\<close>

theorem portable_memmem_first:
  "(portable_memmem h n = Some i \<longrightarrow> (\<exists>a b. h = a @ n @ b \<and> length a = i)
      \<and> (\<forall>a b. h = a @ n @ b \<longrightarrow> i \<le> length a))
   \<and> (portable_memmem h n = None \<longrightarrow> \<not> (\<exists>a b. h = a @ n @ b))"
proof (intro conjI impI)
  assume "portable_memmem h n = Some i"
  then have s: "strstr h n = Some i" by (simp add: portable_memmem_strstr)
  then have i: "i \<le> length h" "prefix n (drop i h)" by (simp_all add: strstr_Some_iff)
  then obtain b where b: "drop i h = n @ b" by (auto simp: prefix_def)
  have "h = take i h @ n @ b" using append_take_drop_id [of i h] unfolding b by simp
  moreover have "length (take i h) = i" using i(1) by simp
  ultimately show "\<exists>a b. h = a @ n @ b \<and> length a = i" by blast
  show "\<forall>a b. h = a @ n @ b \<longrightarrow> i \<le> length a"
  proof (intro allI impI)
    fix a b assume "h = a @ n @ b"
    then have "prefix n (drop (length a) h)" by simp
    with s show "i \<le> length a" by (meson not_le strstr_Some_iff)
  qed
next
  assume "portable_memmem h n = None"
  then show "\<not> (\<exists>a b. h = a @ n @ b)"
    using contains_iff [of h n] by (simp add: portable_memmem_strstr contains_def)
qed

theorem portable_memmem_first_witness:
  "portable_memmem ''xabab'' ''ab'' = Some 1 \<and> (\<exists>a b. ''xabab'' = a @ ''ab'' @ b \<and> length a = 1)"
proof -
  have "portable_memmem ''xabab'' ''ab'' = Some 1" by code_simp
  with portable_memmem_first [of "''xabab''" "''ab''" 1] show ?thesis by blast
qed

subsection \<open>A form comes back\<close>

text \<open>One part as a browser writes it, its headers and its data, and a whole body.\<close>

definition piece_text :: "string \<times> string \<Rightarrow> string" where
  "piece_text pc = CRLF @ fst pc @ CRLF @ CRLF @ snd pc @ CRLF"

fun body_text :: "string \<Rightarrow> (string \<times> string) list \<Rightarrow> string \<Rightarrow> string" where
  "body_text bp [] tail = (''--'' @ bp) @ ''--'' @ tail"
| "body_text bp (p # ps) tail = (''--'' @ bp) @ piece_text p @ body_text bp ps tail"

definition part_of :: "string \<times> string \<Rightarrow> MultipartPart" where
  "part_of pc =
     \<lparr>part_name = extract_header_value (fst pc) (''name='' @ [DQ]) 128,
      part_filename = extract_header_value (fst pc) (''filename='' @ [DQ]) 256,
      part_content_type = content_type_of (fst pc) [], part_data = snd pc\<rparr>"

text \<open>
  The boundary does not occur in the part, the headers hold no blank line, and the part has
  a name.
\<close>

definition piece_ok :: "string \<Rightarrow> string \<times> string \<Rightarrow> bool" where
  "piece_ok bp pc \<longleftrightarrow>
     strstr (piece_text pc @ ''--'' @ bp) (''--'' @ bp) = Some (length (piece_text pc))
     \<and> strstr (fst pc @ CRLF @ CRLF) (CRLF @ CRLF) = Some (length (fst pc))
     \<and> fst pc \<noteq> [] \<and> \<not> prefix ''-'' (fst pc)
     \<and> extract_header_value (fst pc) (''name='' @ [DQ]) 128 \<noteq> []"

lemma strip_crlf_append: "strip_crlf (d @ CRLF) = d"
proof -
  have "(d @ CRLF) ! length d = CR" "(d @ CRLF) ! Suc (length d) = LF"
    by (simp_all add: nth_append)
  then show ?thesis by (simp add: strip_crlf_def)
qed

lemma body_text_boundary: "\<exists>t. body_text bp ps tail = (''--'' @ bp) @ t"
  by (cases ps) simp_all

lemma drop_length_append: "drop (length a) (a @ b) = b"
  by simp

lemma part_loop_step:
  assumes "piece_ok bp p" "n < MAX_PARTS"
  shows "part_loop bp (body_text bp (p # ps) tail) [] n =
    part_of p # part_loop bp (body_text bp ps tail) [] (Suc n)"
proof -
  obtain h d where p: "p = (h, d)" by fastforce
  let ?B = "''--'' @ bp" and ?rest = "body_text bp ps tail"
  let ?hs = "h @ CRLF @ CRLF @ d @ CRLF"
  have pt: "piece_text p = CRLF @ ?hs" by (simp add: piece_text_def p)
  have after: "drop (length ?B) (body_text bp (p # ps) tail) = CRLF @ ?hs @ ?rest"
    by (simp add: pt)
  obtain t where t: "?rest = ?B @ t" using body_text_boundary by blast
  have "strstr ((piece_text p @ ?B) @ t) ?B = Some (length (piece_text p))"
    by (rule strstr_append) (use assms(1) in \<open>simp only: piece_ok_def\<close>)
  then have nx: "strstr (CRLF @ ?hs @ ?rest) ?B = Some (length (CRLF @ ?hs))"
    by (simp only: t pt append_assoc)
  have he: "strstr ?hs (CRLF @ CRLF) = Some (length h)"
    using strstr_append [of "h @ CRLF @ CRLF" "CRLF @ CRLF" "length h" "d @ CRLF"] assms(1) p
    by (simp add: piece_ok_def)
  have hne: "h \<noteq> []" "\<not> prefix ''--'' (h @ x)" for x
    using assms(1) p by (cases h; auto simp: piece_ok_def)+
  have nm: "extract_header_value h (''name='' @ [DQ]) 128 \<noteq> []"
    using assms(1) p by (simp add: piece_ok_def)
  have ne: "body_text bp (p # ps) tail \<noteq> []" by simp
  have h0: "length (CRLF @ ?hs @ ?rest) \<ge> 2 \<and> take 2 (CRLF @ ?hs @ ?rest) = CRLF"
    "drop 2 (CRLF @ ?hs @ ?rest) = ?hs @ ?rest" by simp_all
  have tk: "take (length (CRLF @ ?hs) - 2) (?hs @ ?rest) = ?hs"
  proof -
    have l: "length (CRLF @ ?hs) - 2 = length ?hs" by simp
    show ?thesis unfolding l using append_eq_conv_conj [of ?hs ?rest "?hs @ ?rest"] by metis
  qed
  have dr: "drop (length (CRLF @ ?hs)) (CRLF @ ?hs @ ?rest) = ?rest"
    using drop_length_append [of "CRLF @ ?hs" ?rest] by (simp only: append_assoc)
  have hd: "take (length h) (?hs @ ?rest) = h" "drop (length h + 4) ?hs = d @ CRLF" by simp_all
  have hs: "\<not> (?hs @ ?rest = [] \<or> prefix ''--'' (?hs @ ?rest))" using hne by simp
  show ?thesis
    unfolding part_loop.simps [of bp "body_text bp (p # ps) tail"] Let_def after
      portable_memmem_strstr nx option.case h0(1) [THEN eqTrueI] if_True h0(2) tk he dr hd strip_crlf_append
    using ne assms(2) hs nm hd by (simp only: if_False if_True not_le de_Morgan_disj simp_thms)
      (simp add: part_of_def p)
qed

lemma part_loop_end: "n < MAX_PARTS \<Longrightarrow> part_loop bp (body_text bp [] tail) [] n = []"
  by (subst part_loop.simps) simp

lemma part_loop_body:
  "\<forall>p\<in>set ps. piece_ok bp p \<Longrightarrow> n + length ps < MAX_PARTS \<Longrightarrow>
     part_loop bp (body_text bp ps tail) [] n = map part_of ps"
proof (induction ps arbitrary: n)
  case Nil
  then show ?case using part_loop_end [of n bp tail] by simp
next
  case (Cons p ps)
  then show ?case using part_loop_step [of bp p n ps tail] by simp
qed

text \<open>
  C37. The parts of a body a browser wrote come back in order, each with exactly its data, byte
  for byte (line breaks and NULs in a file included), and with its own name, file name and
  content type.
\<close>

theorem parse_multipart_roundtrip:
  assumes "\<forall>p\<in>set ps. piece_ok bp p" "length ps < MAX_PARTS"
    and "length bp \<le> 253" "CR \<notin> set bp" "LF \<notin> set bp" "DQ \<notin> set bp"
  shows "parse_multipart (body_text bp ps tail) (Some (''multipart/form-data; boundary='' @ bp)) =
    Some (map part_of ps)"
proof -
  have tw: "takeWhile (\<lambda>c. c \<noteq> CR \<and> c \<noteq> LF \<and> c \<noteq> DQ) bp = bp"
    using assms(4-6) by (auto simp: takeWhile_eq_all_conv)
  have q: "(bp \<noteq> [] \<and> hd bp = DQ) = False" using assms(6) by (cases bp) auto
  have "strstr (''multipart/form-data; boundary='' @ bp) ''boundary='' = Some 21" by simp
  moreover have "drop (21 + 9) (''multipart/form-data; boundary='' @ bp) = bp" by simp
  moreover have "take 253 bp = bp" using assms(3) by simp
  ultimately have b: "boundary_of (''multipart/form-data; boundary='' @ bp) = Some bp"
    unfolding boundary_of_def Let_def by (simp only: option.case q if_False simp_thms tw)
  obtain t where t: "body_text bp ps tail = (''--'' @ bp) @ t" using body_text_boundary by blast
  have "strstr (body_text bp ps tail) (''--'' @ bp) = Some 0"
    unfolding t by (simp add: strstr_Some_iff)
  then show ?thesis
    using part_loop_body [OF assms(1), of 0] assms(2) b
    by (simp only: parse_multipart_def option.case portable_memmem_strstr) simp
qed

theorem parse_multipart_roundtrip_witness:
  "parse_multipart (body_text ''XyZ'' [(''Content-Disposition: form-data; name='' @ [DQ] @ ''a'' @ [DQ], ''1'' @ CRLF)] [])
     (Some (''multipart/form-data; boundary='' @ ''XyZ'')) =
     Some [\<lparr>part_name = ''a'', part_filename = [], part_content_type = [], part_data = ''1'' @ CRLF\<rparr>]"
proof -
  let ?p = "(''Content-Disposition: form-data; name='' @ [DQ] @ ''a'' @ [DQ], ''1'' @ CRLF)"
  have "piece_ok ''XyZ'' ?p" by code_simp
  then have "\<forall>p\<in>set [?p]. piece_ok ''XyZ'' p" by simp
  moreover have "part_of ?p = \<lparr>part_name = ''a'', part_filename = [], part_content_type = [], part_data = ''1'' @ CRLF\<rparr>"
    by code_simp
  ultimately show ?thesis
    using parse_multipart_roundtrip [of "[?p]" "''XyZ''" "[]"] by (simp add: MAX_PARTS_def)
qed

text \<open>
  A part without a name is dropped, but its content type stays in the array slot: the next
  part that declares none is given it.
\<close>

theorem multipart_content_type_leaks:
  "let bd = ''--b'' @ CRLF @ ''Content-Type: text/x'' @ CRLF @ CRLF @ ''1'' @ CRLF
          @ ''--b'' @ CRLF @ ''Content-Disposition: form-data; name='' @ [DQ] @ ''n'' @ [DQ] @ CRLF @ CRLF
          @ ''2'' @ CRLF @ ''--b--''
   in parse_multipart bd (Some ''multipart/form-data; boundary=b'') =
      Some [\<lparr>part_name = ''n'', part_filename = [], part_content_type = ''text/x'', part_data = ''2''\<rparr>]"
  by code_simp

end
