(* ===== verification/Wbxml.thy ===== *)
theory Wbxml
  imports BR_Prelude
begin

text \<open>
  The WML reader and the compiler to WBXML (src/src/wap_gateway/wbxml.c, the parts before
  pagination): UTF-8 output, entities, the tolerant reader with its stack of open elements,
  and the compiler of strings, elements and one-card decks. A tree is a value: the C code's
  pointers, pool and growing buffers carry no behaviour beyond running out of memory, which
  is not modelled.
\<close>

subsection \<open>UTF-8 and entities\<close>

definition b_utf8 :: "nat \<Rightarrow> string" where
  "b_utf8 cp =
     (if cp < 0x80 then [chr cp]
      else if cp < 0x800 then [chr (0xC0 + cp div 64), chr (0x80 + cp mod 64)]
      else if cp < 0x10000 then
        [chr (0xE0 + cp div 4096), chr (0x80 + cp div 64 mod 64), chr (0x80 + cp mod 64)]
      else
        [chr (0xF0 + cp div 262144), chr (0x80 + cp div 4096 mod 64),
         chr (0x80 + cp div 64 mod 64), chr (0x80 + cp mod 64)])"

datatype node = Text string | Elem string "(string \<times> string) list" "node list"

text \<open>\<open>node_attr\<close>: the value of the first attribute of that name.\<close>

fun node_attr :: "(string \<times> string) list \<Rightarrow> string \<Rightarrow> string option" where
  "node_attr [] k = None"
| "node_attr ((a, v) # avs) k = (if eq_ci a k then Some v else node_attr avs k)"

text \<open>The digits of \<open>strtoul\<close> in a base, and where it stops.\<close>

definition digit_of :: "nat \<Rightarrow> char \<Rightarrow> nat option" where
  "digit_of base c =
     (let v = (if isdigit c then Some (ord c - 48)
               else if islower c then Some (ord c - 87)
               else if isupper c then Some (ord c - 55) else None)
      in case v of Some d \<Rightarrow> if d < base then Some d else None | None \<Rightarrow> None)"

fun digits_value :: "nat \<Rightarrow> string \<Rightarrow> int \<Rightarrow> int \<times> string" where
  "digits_value base [] acc = (acc, [])"
| "digits_value base (c # s) acc =
     (case digit_of base c of
        Some d \<Rightarrow> digits_value base s (acc * int base + int d)
      | None \<Rightarrow> (acc, c # s))"

definition ULONG_MAX :: int where
  "ULONG_MAX = 18446744073709551615"

definition strtoul :: "nat \<Rightarrow> string \<Rightarrow> int \<times> string" where
  "strtoul base s =
     (let t = dropWhile isspace s;
          neg = (t \<noteq> [] \<and> hd t = CHR ''-'');
          u = (if t \<noteq> [] \<and> (hd t = CHR ''-'' \<or> hd t = CHR ''+'') then tl t else t);
          w = (if base = 16 \<and> length u > 2 \<and> hd u = CHR ''0'' \<and> (u ! 1 = CHR ''x'' \<or> u ! 1 = CHR ''X'')
                  \<and> digit_of 16 (u ! 2) \<noteq> None then drop 2 u else u)
      in if w = [] \<or> digit_of base (hd w) = None then (0, s)
         else case digits_value base w 0 of
           (v, rest) \<Rightarrow> (if v > ULONG_MAX then ULONG_MAX
                         else if neg \<and> v \<noteq> 0 then ULONG_MAX + 1 - v else v, rest))"

text \<open>The code point of an entity's name, if it is known.\<close>

definition entity_value :: "string \<Rightarrow> nat option" where
  "entity_value e =
     (if e = ''amp'' then Some 38
      else if e = ''lt'' then Some 60
      else if e = ''gt'' then Some 62
      else if e = ''quot'' then Some 34
      else if e = ''apos'' then Some 39
      else if e = ''nbsp'' then Some 160
      else if length e > 1 \<and> hd e = CHR ''#'' then
        (let num = take 11 (tl e);
             r = (if hd num = CHR ''x'' \<or> hd num = CHR ''X'' then strtoul 16 (tl num) else strtoul 10 num)
         in if snd r \<noteq> [] \<or> fst r = 0 \<or> fst r > 0x10FFFF then None else Some (nat (fst r)))
      else None)"

fun decode_entities :: "string \<Rightarrow> string" where
  "decode_entities [] = []"
| "decode_entities (c # s) =
     (if c \<noteq> CHR ''&'' then c # decode_entities s
      else case strchr (take 12 (c # s)) CHR '';'' of
        None \<Rightarrow> CHR ''&'' # decode_entities s
      | Some k \<Rightarrow>
          (case entity_value (take (k - 1) s) of
             None \<Rightarrow> CHR ''&'' # decode_entities s
           | Some cp \<Rightarrow> b_utf8 cp @ decode_entities (drop k s)))"

definition is_white :: "char \<Rightarrow> bool" where
  "is_white c \<longleftrightarrow> c = CHR '' '' \<or> c = TAB \<or> c = CR \<or> c = LF"

fun collapse :: "bool \<Rightarrow> string \<Rightarrow> string" where
  "collapse sp [] = (if sp then '' '' else [])"
| "collapse sp (c # s) =
     (if is_white c then collapse True s
      else (if sp then '' '' else []) @ c # collapse False s)"

definition make_text :: "string \<Rightarrow> string option" where
  "make_text s =
     (let raw = decode_entities s in
      if list_all is_white raw then None else Some (collapse False raw))"

subsection \<open>The reader\<close>

definition is_name_char :: "char \<Rightarrow> bool" where
  "is_name_char c \<longleftrightarrow> isalnum c \<or> c = CHR '':'' \<or> c = CHR ''_'' \<or> c = CHR ''-'' \<or> c = CHR ''.''"

definition is_void_tag :: "string \<Rightarrow> bool" where
  "is_void_tag name \<longleftrightarrow> eq_ci name ''br'' \<or> eq_ci name ''img'' \<or> eq_ci name ''input'' \<or> eq_ci name ''meta''"

text \<open>An open element: its name, its attributes and the children read so far.\<close>

record frame =
  fr_name :: string
  fr_attrs :: "(string \<times> string) list"
  fr_kids :: "node list"

definition text_parents :: "string list" where
  "text_parents = [''p'', ''a'', ''anchor'', ''b'', ''i'', ''u'', ''em'', ''strong'', ''big'', ''small'', ''td'']"

definition inline_gap :: "frame \<Rightarrow> bool" where
  "inline_gap f =
     (if fr_kids f = [] then False
      else case last (fr_kids f) of
        Text t \<Rightarrow> False
      | Elem name as ks \<Rightarrow>
          if eq_ci name ''br'' then False else list_ex (eq_ci (fr_name f)) text_parents)"

definition add_kid :: "node \<Rightarrow> frame \<Rightarrow> frame" where
  "add_kid n f = f\<lparr>fr_kids := fr_kids f @ [n]\<rparr>"

definition frame_node :: "frame \<Rightarrow> node" where
  "frame_node f = Elem (fr_name f) (fr_attrs f) (fr_kids f)"

text \<open>A close tag pops to its match; one that matches no open element (the root apart) is ignored.\<close>

fun close_to :: "string \<Rightarrow> frame list \<Rightarrow> frame list option" where
  "close_to name (f # p # fs) =
     (if eq_ci (fr_name f) name then Some (add_kid (frame_node f) p # fs)
      else close_to name (add_kid (frame_node f) p # fs))"
| "close_to name fs = None"

text \<open>One attribute, from its name on, and what follows it.\<close>

definition attr_item :: "string \<Rightarrow> (string \<times> string) \<times> string" where
  "attr_item t =
     (let an = take 31 (takeWhile is_name_char t);
          r1 = dropWhile isspace (dropWhile is_name_char t)
      in if r1 \<noteq> [] \<and> hd r1 = CHR ''='' then
           let r2 = dropWhile isspace (tl r1) in
           if r2 \<noteq> [] \<and> (hd r2 = DQ \<or> hd r2 = SQ) then
             ((an, decode_entities (takeWhile (\<lambda>c. c \<noteq> hd r2) (tl r2))),
              tl (dropWhile (\<lambda>c. c \<noteq> hd r2) (tl r2)))
           else
             ((an, decode_entities (takeWhile (\<lambda>c. \<not> isspace c \<and> c \<noteq> CHR ''>'') r2)),
              dropWhile (\<lambda>c. \<not> isspace c \<and> c \<noteq> CHR ''>'') r2)
         else ((an, an), r1))"

lemma length_dropWhile_less: "t \<noteq> [] \<Longrightarrow> P (hd t) \<Longrightarrow> length (dropWhile P t) < length t"
  by (cases t) (simp_all add: length_dropWhile_le le_imp_less_Suc)

lemma quoted_rest_length:
  fixes r1 :: string
  shows "length (tl (dropWhile Q (tl (dropWhile P (tl r1))))) \<le> length r1"
    and "length (dropWhile Q (dropWhile P (tl r1))) \<le> length r1"
proof -
  have 1: "length (dropWhile P (tl r1)) \<le> length r1"
    using length_dropWhile_le [of P "tl r1"] by simp
  show "length (tl (dropWhile Q (tl (dropWhile P (tl r1))))) \<le> length r1"
    using 1 length_dropWhile_le [of Q "tl (dropWhile P (tl r1))"] by simp
  show "length (dropWhile Q (dropWhile P (tl r1))) \<le> length r1"
    using 1 length_dropWhile_le [of Q "dropWhile P (tl r1)"] by simp
qed

lemma attr_item_length:
  assumes "is_name_char c"
  shows "length (snd (attr_item (c # t))) < Suc (length t)"
proof -
  define r1 where "r1 = dropWhile isspace (dropWhile is_name_char (c # t))"
  have "length r1 \<le> length (dropWhile is_name_char (c # t))"
    unfolding r1_def by (rule length_dropWhile_le)
  then have r1: "length r1 < Suc (length t)"
    using length_dropWhile_less [of "c # t" is_name_char] assms by simp
  have "length (snd (attr_item (c # t))) \<le> length r1"
    unfolding attr_item_def Let_def r1_def [symmetric]
    using quoted_rest_length by (auto simp del: length_tl)
  then show ?thesis using r1 by simp
qed

text \<open>The attributes of a tag, whether it closes itself, and what follows it.\<close>

function attr_loop :: "string \<Rightarrow> (string \<times> string) list \<Rightarrow> bool \<Rightarrow> (string \<times> string) list \<times> bool \<times> string" where
  "attr_loop s avs self_close =
     (case dropWhile isspace s of
        [] \<Rightarrow> (avs, self_close, [])
      | c # t \<Rightarrow>
          if c = CHR ''>'' then (avs, self_close, t)
          else if c = CHR ''/'' then attr_loop t avs True
          else if \<not> is_name_char c then attr_loop t avs self_close
          else attr_loop (snd (attr_item (c # t))) (avs @ [fst (attr_item (c # t))]) self_close)"
  by pat_completeness auto

lemma length_dropWhile_Cons: "dropWhile P s = c # t \<Longrightarrow> length t < length s"
  using length_dropWhile_le [of P s] by simp

termination attr_loop
proof (relation "measure (\<lambda>(s, avs, b). length s)", goal_cases)
  case (2 s avs b c t)
  then show ?case using length_dropWhile_Cons [of isspace s c t] by simp
next
  case (3 s avs b c t)
  then show ?case using length_dropWhile_Cons [of isspace s c t] by simp
next
  case (4 s avs b c t)
  then show ?case
    using length_dropWhile_Cons [of isspace s c t] attr_item_length [of c t] by simp
qed simp

declare attr_loop.simps [simp del]

lemma attr_loop_length: "length (snd (snd (attr_loop s avs b))) \<le> length s"
proof (induction s avs b rule: attr_loop.induct)
  case (1 s avs b)
  show ?case
  proof (cases "dropWhile isspace s")
    case Nil
    then show ?thesis by (simp only: attr_loop.simps [of s]) simp
  next
    case (Cons c t)
    have "length t < length s" by (rule length_dropWhile_Cons [OF Cons])
    then show ?thesis
      using "1.IH" [OF Cons] attr_item_length [of c t] Cons
      by (auto simp: attr_loop.simps [of s] split: if_splits)
  qed
qed

text \<open>
  The reader's loop over the source, on the stack of open elements, innermost first. A stray
  close tag pops back to its match or is ignored; an element that would be the 65th on the
  stack, one that closes itself and a void one get no children.
\<close>

definition read_text :: "string \<Rightarrow> string \<Rightarrow> frame list \<Rightarrow> frame list" where
  "read_text t rest fs =
     (let x = (case make_text t of
                 Some x \<Rightarrow> Some x
               | None \<Rightarrow> if rest \<noteq> [] \<and> take 1 (tl rest) \<noteq> ''/'' \<and> inline_gap (hd fs) then Some '' ''
                         else None)
      in case x of Some x \<Rightarrow> add_kid (Text x) (hd fs) # tl fs | None \<Rightarrow> fs)"

definition close_tag :: "string \<Rightarrow> frame list \<Rightarrow> frame list" where
  "close_tag name fs = (case close_to name fs of Some fs' \<Rightarrow> fs' | None \<Rightarrow> fs)"

definition open_tag :: "string \<Rightarrow> (string \<times> string) list \<Rightarrow> bool \<Rightarrow> frame list \<Rightarrow> frame list" where
  "open_tag name avs self_close fs =
     (let f = \<lparr>fr_name = name, fr_attrs = avs, fr_kids = []\<rparr> in
      if \<not> self_close \<and> \<not> is_void_tag name \<and> length fs < 64 then f # fs
      else add_kid (frame_node f) (hd fs) # tl fs)"

definition after_gt :: "string \<Rightarrow> string" where
  "after_gt s = tl (dropWhile (\<lambda>c. c \<noteq> CHR ''>'') s)"

function parse_loop :: "string \<Rightarrow> frame list \<Rightarrow> frame list" where
  "parse_loop [] fs = fs"
| "parse_loop (c # s) fs =
     (if c \<noteq> CHR ''<'' then
        let rest = dropWhile (\<lambda>x. x \<noteq> CHR ''<'') s in
        parse_loop rest (read_text (c # takeWhile (\<lambda>x. x \<noteq> CHR ''<'') s) rest fs)
      else if prefix ''!--'' s then
        case strstr (drop 3 s) ''-->'' of
          Some k \<Rightarrow> parse_loop (drop (3 + k + 3) s) fs
        | None \<Rightarrow> fs
      else if s \<noteq> [] \<and> (hd s = CHR ''?'' \<or> hd s = CHR ''!'') then parse_loop (after_gt s) fs
      else if s \<noteq> [] \<and> hd s = CHR ''/'' then
        parse_loop (after_gt (dropWhile is_name_char (tl s)))
          (close_tag (take 31 (takeWhile is_name_char (tl s))) fs)
      else
        let name = takeWhile is_name_char s in
        if name = [] then parse_loop s fs
        else
          let el = attr_loop (dropWhile is_name_char s) [] False in
          parse_loop (snd (snd el)) (open_tag (take 31 name) (fst el) (fst (snd el)) fs))"
  by pat_completeness auto

lemma after_gt_length: "length (after_gt s) \<le> length s"
  using length_dropWhile_le [of "\<lambda>c. c \<noteq> CHR ''>''" s] by (simp add: after_gt_def)

termination parse_loop
proof (relation "measure (\<lambda>(s, fs). length s)", goal_cases)
  case (4 c s fs)
  then show ?case using after_gt_length [of s] by simp
next
  case (5 c s fs)
  then show ?case
    using after_gt_length [of "dropWhile is_name_char (tl s)"] length_dropWhile_le [of is_name_char "tl s"]
    by simp
next
  case (7 c s fs name el)
  then show ?case
    using attr_loop_length [of "dropWhile is_name_char s" "[]" False] length_dropWhile_le [of is_name_char s]
    by simp
qed (simp_all add: length_dropWhile_le le_imp_less_Suc)

declare parse_loop.simps(2) [simp del]

text \<open>The elements still open at the end close there.\<close>

fun fold_stack :: "frame list \<Rightarrow> node" where
  "fold_stack (f # p # fs) = fold_stack (add_kid (frame_node f) p # fs)"
| "fold_stack [f] = frame_node f"
| "fold_stack [] = Elem ''#root'' [] []"

definition parse_wml :: "string \<Rightarrow> node" where
  "parse_wml s = fold_stack (parse_loop s [\<lparr>fr_name = ''#root'', fr_attrs = [], fr_kids = []\<rparr>])"

definition latin1_to_utf8 :: "string \<Rightarrow> string" where
  "latin1_to_utf8 s = concat (map (\<lambda>c. b_utf8 (ord c)) s)"

subsection \<open>The compiler\<close>

abbreviation TOKEN_END :: char where "TOKEN_END \<equiv> CHR 0x01"
abbreviation TOKEN_STR_I :: char where "TOKEN_STR_I \<equiv> CHR 0x03"

definition ATTR_HREF :: nat where "ATTR_HREF = 0x4A"
definition ATTR_SRC :: nat where "ATTR_SRC = 0x32"

definition ELEMENTS :: "(string \<times> nat) list" where
  "ELEMENTS =
    [(''wml'', 0x3F), (''card'', 0x27), (''do'', 0x28), (''onevent'', 0x33), (''head'', 0x2C),
     (''template'', 0x3B), (''access'', 0x23), (''meta'', 0x30), (''go'', 0x2B),
     (''prev'', 0x32), (''refresh'', 0x36), (''noop'', 0x31), (''postfield'', 0x21),
     (''setvar'', 0x3E), (''select'', 0x37), (''optgroup'', 0x34), (''option'', 0x35),
     (''input'', 0x2F), (''fieldset'', 0x2A), (''timer'', 0x3C), (''img'', 0x2E),
     (''anchor'', 0x22), (''a'', 0x1C), (''table'', 0x1F), (''tr'', 0x1E), (''td'', 0x1D),
     (''em'', 0x29), (''strong'', 0x39), (''b'', 0x24), (''i'', 0x2D), (''u'', 0x3D),
     (''big'', 0x25), (''small'', 0x38), (''p'', 0x20), (''br'', 0x26)]"

definition VALUE_ATTRS :: "(string \<times> string \<times> nat) list" where
  "VALUE_ATTRS =
    [(''method'', ''get'', 0x1B), (''method'', ''post'', 0x1C)]"

definition ATTRS :: "(string \<times> nat) list" where
  "ATTRS =
    [(''accept-charset'', 0x05), (''accesskey'', 0x5E), (''align'', 0x52), (''alt'', 0x0C),
     (''class'', 0x54), (''columns'', 0x53), (''content'', 0x0D), (''domain'', 0x0F),
     (''enctype'', 0x5F), (''format'', 0x12), (''height'', 0x13), (''href'', ATTR_HREF),
     (''hspace'', 0x14), (''http-equiv'', 0x5A), (''id'', 0x55), (''ivalue'', 0x15),
     (''iname'', 0x16), (''label'', 0x18), (''localsrc'', 0x19), (''maxlength'', 0x1A),
     (''name'', 0x21), (''onenterbackward'', 0x25), (''onenterforward'', 0x26),
     (''onpick'', 0x24), (''ontimer'', 0x27), (''path'', 0x2A), (''scheme'', 0x2E),
     (''size'', 0x31), (''src'', ATTR_SRC), (''tabindex'', 0x35), (''title'', 0x36),
     (''type'', 0x37), (''value'', 0x4D), (''vspace'', 0x4E), (''width'', 0x4F),
     (''xml:lang'', 0x50)]"

definition element_code :: "string \<Rightarrow> nat option" where
  "element_code name = map_option snd (find (\<lambda>e. eq_ci (fst e) name) ELEMENTS)"

definition value_attr_code :: "string \<Rightarrow> string \<Rightarrow> nat option" where
  "value_attr_code name v =
     map_option (snd \<circ> snd) (find (\<lambda>e. eq_ci (fst e) name \<and> eq_ci (fst (snd e)) v) VALUE_ATTRS)"

definition attr_code :: "string \<Rightarrow> nat option" where
  "attr_code name = map_option snd (find (\<lambda>e. eq_ci (fst e) name) ATTRS)"

definition put_literal :: "string \<Rightarrow> string" where
  "put_literal s = (if s = [] then [] else TOKEN_STR_I # s @ [NUL])"

definition is_var_start :: "char \<Rightarrow> bool" where
  "is_var_start c \<longleftrightarrow> isalpha c \<or> c = CHR ''_''"

definition is_var_char :: "char \<Rightarrow> bool" where
  "is_var_char c \<longleftrightarrow> isalnum c \<or> c = CHR ''_''"

text \<open>
  A variable reference at a \<open>$\<close>, from what follows it: the token, the name and what comes
  after; \<open>None\<close> when the \<open>$\<close> is plain text.
\<close>

definition conv_token :: "string \<Rightarrow> char" where
  "conv_token conv =
     (if conv = ''e'' \<or> conv = ''escape'' then CHR 0x40
      else if conv = ''u'' \<or> conv = ''unesc'' then CHR 0x41 else CHR 0x42)"

definition var_ref :: "string \<Rightarrow> (char \<times> string \<times> string) option" where
  "var_ref s =
     (let paren = (s \<noteq> [] \<and> hd s = CHR ''(''); t = (if paren then tl s else s) in
      if t = [] \<or> \<not> is_var_start (hd t) then None
      else
        let name = takeWhile is_var_char t; e = dropWhile is_var_char t in
        if \<not> paren then Some (CHR 0x42, name, e)
        else case strchr e (CHR '')'') of
            None \<Rightarrow> None
          | Some k \<Rightarrow>
              if hd e = CHR '':'' then Some (conv_token (take (k - 1) (tl e)), name, drop (Suc k) e)
              else if k \<noteq> 0 then None
              else Some (CHR 0x42, name, tl e))"

lemma var_ref_length: "var_ref s = Some (tok, name, r) \<Longrightarrow> length r \<le> length s"
proof -
  assume a: "var_ref s = Some (tok, name, r)"
  define t where "t = (if s \<noteq> [] \<and> hd s = CHR ''('' then tl s else s)"
  have "length r \<le> length (dropWhile is_var_char t)"
    using a unfolding var_ref_def Let_def t_def [symmetric]
    by (auto split: if_splits option.splits)
  also have "\<dots> \<le> length t" by (rule length_dropWhile_le)
  also have "\<dots> \<le> length s" by (simp add: t_def)
  finally show ?thesis .
qed

function put_loop :: "string \<Rightarrow> string \<Rightarrow> string" where
  "put_loop run [] = put_literal run"
| "put_loop run (c # s) =
     (if c \<noteq> CHR ''$'' then put_loop (run @ [c]) s
      else if s \<noteq> [] \<and> hd s = CHR ''$'' then put_literal (run @ [c]) @ put_loop [] (tl s)
      else case var_ref s of
          None \<Rightarrow> put_loop (run @ [c]) s
        | Some (tok, name, r) \<Rightarrow> put_literal run @ tok # name @ NUL # put_loop [] r)"
  by pat_completeness auto

termination put_loop
  by (relation "measure (\<lambda>(run, s). length s)") (auto dest: var_ref_length)

declare put_loop.simps(2) [simp del]

definition put_str :: "string \<Rightarrow> string" where
  "put_str s = (if s = [] then [TOKEN_STR_I, NUL] else put_loop [] s)"

definition put_attr :: "string \<Rightarrow> string \<times> string \<Rightarrow> string" where
  "put_attr base av =
     (case value_attr_code (fst av) (snd av) of
        Some vc \<Rightarrow> [chr vc]
      | None \<Rightarrow>
          (case attr_code (fst av) of
             None \<Rightarrow> []
           | Some ac \<Rightarrow>
               chr ac # put_str (if (ac = ATTR_HREF \<or> ac = ATTR_SRC) \<and> prefix ''/'' (snd av)
                                    \<and> \<not> prefix ''//'' (snd av) then base @ snd av else snd av)))"

text \<open>The tag byte: the element's code, with a bit for attributes and one for content.\<close>

definition tag_byte :: "nat \<Rightarrow> string \<Rightarrow> string \<Rightarrow> char" where
  "tag_byte code as content =
     chr (code + (if as \<noteq> [] then 0x80 else 0) + (if content \<noteq> [] then 0x40 else 0))"

definition put_elem :: "nat \<Rightarrow> string \<Rightarrow> string \<Rightarrow> string" where
  "put_elem code as content =
     tag_byte code as content
       # (if as \<noteq> [] then as @ [TOKEN_END] else []) @ (if content \<noteq> [] then content @ [TOKEN_END] else [])"

fun compile_node :: "string \<Rightarrow> node \<Rightarrow> string" where
  "compile_node base (Text t) = put_str t"
| "compile_node base (Elem name avs ks) =
     (case element_code name of
        None \<Rightarrow> concat (map (compile_node base) ks)
      | Some code \<Rightarrow>
          put_elem code (concat (map (put_attr base) avs)) (concat (map (compile_node base) ks)))"

definition compile_card :: "string \<Rightarrow> node list \<Rightarrow> node list \<Rightarrow> string \<Rightarrow> string" where
  "compile_card title blocks nav base =
     [CHR 0x01, CHR 0x04, CHR 0x6A, NUL, CHR 0x7F, CHR 0xE7, CHR 0x55] @ put_str ''p''
       @ CHR 0x36 # put_str title @ TOKEN_END #
       (let body = concat (map (compile_node base) (blocks @ nav)) in
        if body = [] then put_str '' '' else body)
       @ [TOKEN_END, TOKEN_END]"

definition card_size :: "string \<Rightarrow> node list \<Rightarrow> node list \<Rightarrow> string \<Rightarrow> nat" where
  "card_size title blocks nav base = length (compile_card title blocks nav base)"

subsection \<open>What a phone reads\<close>

text \<open>
  The reading of a WML string the compiler has to preserve: its characters and its variable
  references. \<open>render\<close> writes a list of items as WML text; \<open>str_items\<close> reads text.
\<close>

datatype item = Ch char | Var char string

definition render_item :: "item \<Rightarrow> string" where
  "render_item i =
     (case i of
        Ch c \<Rightarrow> if c = CHR ''$'' then ''$$'' else [c]
      | Var tok name \<Rightarrow>
          ''$('' @ name @ (if tok = CHR 0x40 then '':e'' else if tok = CHR 0x41 then '':u'' else []) @ '')'')"

definition item_ok :: "item \<Rightarrow> bool" where
  "item_ok i =
     (case i of
        Ch c \<Rightarrow> c \<noteq> NUL
      | Var tok name \<Rightarrow> tok \<in> {CHR 0x40, CHR 0x41, CHR 0x42} \<and> name \<noteq> [] \<and> is_var_start (hd name)
                        \<and> list_all is_var_char name)"

function str_items :: "string \<Rightarrow> item list" where
  "str_items [] = []"
| "str_items (c # s) =
     (if c \<noteq> CHR ''$'' then Ch c # str_items s
      else if s \<noteq> [] \<and> hd s = CHR ''$'' then Ch c # str_items (tl s)
      else case var_ref s of
          None \<Rightarrow> Ch c # str_items s
        | Some (tok, name, r) \<Rightarrow> Var tok name # str_items r)"
  by pat_completeness auto

termination str_items
  by (relation "measure length") (auto dest: var_ref_length)

declare str_items.simps(2) [simp del]

text \<open>
  A WBXML reader, from the format: string tokens, attribute lists and content, each up to its
  END. It has fuel; \<open>reads\<close> says that every large enough fuel gives the same result.
\<close>

datatype wb = Item item | WElem nat "(nat \<times> item list) list" "wb list"

definition read_z :: "string \<Rightarrow> (string \<times> string) option" where
  "read_z b = (if NUL \<in> set b then Some (takeWhile (\<lambda>c. c \<noteq> NUL) b, tl (dropWhile (\<lambda>c. c \<noteq> NUL) b)) else None)"

definition dec_token :: "string \<Rightarrow> (item list \<times> string) option" where
  "dec_token b =
     (if b \<noteq> [] \<and> hd b = TOKEN_STR_I then map_option (\<lambda>(s, r). (map Ch s, r)) (read_z (tl b))
      else if b \<noteq> [] \<and> hd b \<in> {CHR 0x40, CHR 0x41, CHR 0x42} then
        map_option (\<lambda>(s, r). ([Var (hd b) s], r)) (read_z (tl b))
      else None)"

definition string_token :: "char \<Rightarrow> bool" where
  "string_token c \<longleftrightarrow> c \<in> {TOKEN_STR_I, CHR 0x40, CHR 0x41, CHR 0x42}"

fun dec_value_items :: "nat \<Rightarrow> string \<Rightarrow> (item list \<times> string) option" where
  "dec_value_items 0 b = None"
| "dec_value_items (Suc f) b =
     (if b \<noteq> [] \<and> string_token (hd b) then
        case dec_token b of
          None \<Rightarrow> None
        | Some (is, r) \<Rightarrow> map_option (\<lambda>(js, r'). (is @ js, r')) (dec_value_items f r)
      else Some ([], b))"

fun dec_attrs :: "nat \<Rightarrow> string \<Rightarrow> ((nat \<times> item list) list \<times> string) option" where
  "dec_attrs 0 b = None"
| "dec_attrs (Suc f) [] = None"
| "dec_attrs (Suc f) (c # b) =
     (if c = TOKEN_END then Some ([], b)
      else case dec_value_items f b of
          None \<Rightarrow> None
        | Some (v, r) \<Rightarrow> map_option (\<lambda>(as, r'). ((ord c, v) # as, r')) (dec_attrs f r))"

fun dec_content :: "nat \<Rightarrow> string \<Rightarrow> (wb list \<times> string) option" where
  "dec_content 0 b = None"
| "dec_content (Suc f) [] = None"
| "dec_content (Suc f) (c # b) =
     (if c = TOKEN_END then Some ([], b)
      else if string_token c then
        case dec_token (c # b) of
          None \<Rightarrow> None
        | Some (is, r) \<Rightarrow> map_option (\<lambda>(ws, r'). (map Item is @ ws, r')) (dec_content f r)
      else
        case (if 0x80 \<le> ord c then dec_attrs f b else Some ([], b)) of
          None \<Rightarrow> None
        | Some (as, r) \<Rightarrow>
            (case (if 0x40 \<le> ord c mod 0x80 then dec_content f r else Some ([], r)) of
               None \<Rightarrow> None
             | Some (ks, r1) \<Rightarrow>
                 map_option (\<lambda>(ws, r2). (WElem (ord c mod 0x40) as ks # ws, r2)) (dec_content f r1)))"

definition reads :: "(nat \<Rightarrow> string \<Rightarrow> 'a option) \<Rightarrow> string \<Rightarrow> 'a \<Rightarrow> bool" where
  "reads d b x \<longleftrightarrow> (\<exists>N. \<forall>f\<ge>N. d f b = Some x)"

text \<open>The tree a phone is meant to see: unknown tags dropped, their content kept.\<close>

definition link_value :: "string \<Rightarrow> nat \<Rightarrow> string \<Rightarrow> string" where
  "link_value base ac v =
     (if (ac = ATTR_HREF \<or> ac = ATTR_SRC) \<and> prefix ''/'' v \<and> \<not> prefix ''//'' v then base @ v else v)"

definition attr_meaning :: "string \<Rightarrow> string \<times> string \<Rightarrow> (nat \<times> item list) list" where
  "attr_meaning base av =
     (case value_attr_code (fst av) (snd av) of
        Some vc \<Rightarrow> [(vc, [])]
      | None \<Rightarrow> (case attr_code (fst av) of
                   None \<Rightarrow> []
                 | Some ac \<Rightarrow> [(ac, str_items (link_value base ac (snd av)))]))"

fun meaning :: "string \<Rightarrow> node \<Rightarrow> wb list" where
  "meaning base (Text t) = map Item (str_items t)"
| "meaning base (Elem name avs ks) =
     (case element_code name of
        None \<Rightarrow> concat (map (meaning base) ks)
      | Some code \<Rightarrow> [WElem code (concat (map (attr_meaning base) avs)) (concat (map (meaning base) ks))])"

fun nul_free :: "node \<Rightarrow> bool" where
  "nul_free (Text t) = (NUL \<notin> set t)"
| "nul_free (Elem name avs ks) = (list_all (\<lambda>av. NUL \<notin> set (snd av)) avs \<and> list_all nul_free ks)"

subsection \<open>String tokens\<close>

datatype chunk = Lit string | Ref char string

definition put_chunk :: "chunk \<Rightarrow> string" where
  "put_chunk ch = (case ch of Lit s \<Rightarrow> TOKEN_STR_I # s @ [NUL] | Ref tok name \<Rightarrow> tok # name @ [NUL])"

definition chunk_items :: "chunk \<Rightarrow> item list" where
  "chunk_items ch = (case ch of Lit s \<Rightarrow> map Ch s | Ref tok name \<Rightarrow> [Var tok name])"

definition chunk_ok :: "chunk \<Rightarrow> bool" where
  "chunk_ok ch =
     (case ch of Lit s \<Rightarrow> NUL \<notin> set s
               | Ref tok name \<Rightarrow> tok \<in> {CHR 0x40, CHR 0x41, CHR 0x42} \<and> NUL \<notin> set name)"

lemma chunk_simps [simp]:
  "put_chunk (Lit s) = TOKEN_STR_I # s @ [NUL]" "put_chunk (Ref tok name) = tok # name @ [NUL]"
  "chunk_items (Lit s) = map Ch s" "chunk_items (Ref tok name) = [Var tok name]"
  "chunk_ok (Lit s) = (NUL \<notin> set s)"
  "chunk_ok (Ref tok name) = (tok \<in> {CHR 0x40, CHR 0x41, CHR 0x42} \<and> NUL \<notin> set name)"
  by (simp_all add: put_chunk_def chunk_items_def chunk_ok_def)

lemma set_tl_subset: "set (tl xs) \<subseteq> set xs"
  by (cases xs) auto

lemma var_ref_parts:
  assumes "var_ref s = Some (tok, name, r)"
  shows "tok \<in> {CHR 0x40, CHR 0x41, CHR 0x42}" and "set name \<subseteq> set s" and "set r \<subseteq> set s"
proof -
  define t where "t = (if s \<noteq> [] \<and> hd s = CHR ''('' then tl s else s)"
  have t: "set t \<subseteq> set s" by (auto simp: t_def dest: list.set_sel(2))
  note d = assms [unfolded var_ref_def Let_def t_def [symmetric]]
  show "tok \<in> {CHR 0x40, CHR 0x41, CHR 0x42}"
    using d by (auto simp: conv_token_def split: if_splits option.splits)
  have "name = takeWhile is_var_char t" using d by (auto split: if_splits option.splits)
  then show "set name \<subseteq> set s" using t set_takeWhileD by fastforce
  have "set r \<subseteq> set (dropWhile is_var_char t)"
    using d by (auto split: if_splits option.splits dest: in_set_dropD set_tl_subset [THEN subsetD])
  then show "set r \<subseteq> set s" using t set_dropWhileD by fastforce
qed

lemma put_loop_chunks:
  "NUL \<notin> set run \<Longrightarrow> NUL \<notin> set s \<Longrightarrow>
   \<exists>cs. put_loop run s = concat (map put_chunk cs) \<and> list_all chunk_ok cs
      \<and> concat (map chunk_items cs) = map Ch run @ str_items s \<and> (run @ s \<noteq> [] \<longrightarrow> cs \<noteq> [])"
proof (induction run s rule: put_loop.induct)
  case (1 run)
  show ?case
    by (rule exI [of _ "if run = [] then [] else [Lit run]"])
       (use 1 in \<open>simp add: put_literal_def\<close>)
next
  case (2 run c s)
  have lit: "\<exists>cs. put_literal u = concat (map put_chunk cs) \<and> list_all chunk_ok cs
      \<and> concat (map chunk_items cs) = map Ch u \<and> (u \<noteq> [] \<longrightarrow> cs \<noteq> [])" if "NUL \<notin> set u" for u
    by (rule exI [of _ "if u = [] then [] else [Lit u]"])
       (use that in \<open>simp add: put_literal_def\<close>)
  show ?case
  proof (cases "c = CHR ''$''")
    case False
    then show ?thesis using 2 by (simp add: put_loop.simps(2) str_items.simps(2))
  next
    case c: True
    show ?thesis
    proof (cases "s \<noteq> [] \<and> hd s = CHR ''$''")
      case True
      have "NUL \<notin> set (tl s)" using "2.prems" True by (auto dest: list.set_sel(2))
      then obtain cs where cs: "put_loop [] (tl s) = concat (map put_chunk cs)" "list_all chunk_ok cs"
        "concat (map chunk_items cs) = str_items (tl s)"
        using "2.IH"(2) c True by auto
      obtain ds where ds: "put_literal (run @ [c]) = concat (map put_chunk ds)" "list_all chunk_ok ds"
        "concat (map chunk_items ds) = map Ch (run @ [c])" "ds \<noteq> []"
        using lit [of "run @ [c]"] "2.prems" by auto
      show ?thesis
        by (rule exI [of _ "ds @ cs"])
           (use cs ds c True in \<open>simp add: put_loop.simps(2) str_items.simps(2)\<close>)
    next
      case no: False
      show ?thesis
      proof (cases "var_ref s")
        case None
        have "put_loop run (c # s) = put_loop (run @ [c]) s" "str_items (c # s) = Ch c # str_items s"
          using c by (simp_all only: put_loop.simps(2) str_items.simps(2) no None simp_thms if_False option.case)
        then show ?thesis using 2 c no None by simp
      next
        case (Some v)
        obtain tok name r where v: "v = (tok, name, r)" by (cases v) auto
        note p = var_ref_parts [OF Some [unfolded v]]
        have "NUL \<notin> set r" "NUL \<notin> set name" using p "2.prems" by auto
        then obtain cs where cs: "put_loop [] r = concat (map put_chunk cs)" "list_all chunk_ok cs"
          "concat (map chunk_items cs) = str_items r"
          using "2.IH"(4) [OF _ no Some v [symmetric] refl] c by auto
        obtain ds where ds: "put_literal run = concat (map put_chunk ds)" "list_all chunk_ok ds"
          "concat (map chunk_items ds) = map Ch run"
          using lit [of run] "2.prems" by auto
        have "put_loop run (c # s) = put_literal run @ tok # name @ NUL # put_loop [] r"
          "str_items (c # s) = Var tok name # str_items r"
          using c by (simp_all only: put_loop.simps(2) str_items.simps(2) no Some v simp_thms if_False option.case prod.case)
        then show ?thesis
          by (intro exI [of _ "ds @ Ref tok name # cs"]) (use cs ds p(1) \<open>NUL \<notin> set name\<close> in simp)
      qed
    qed
  qed
qed

lemma put_str_chunks:
  assumes "NUL \<notin> set s"
  obtains cs where "put_str s = concat (map put_chunk cs)" "list_all chunk_ok cs"
    "concat (map chunk_items cs) = str_items s" "cs \<noteq> []"
proof (cases "s = []")
  case True
  then show ?thesis using that [of "[Lit []]"] by (simp add: put_str_def)
next
  case False
  then show ?thesis using put_loop_chunks [of "[]" s] assms that by (auto simp: put_str_def)
qed

lemma read_z_append: "NUL \<notin> set s \<Longrightarrow> read_z (s @ NUL # r) = Some (s, r)"
proof -
  assume "NUL \<notin> set s"
  then have "\<And>x. x \<in> set s \<Longrightarrow> x \<noteq> NUL" by blast
  then show ?thesis by (simp add: read_z_def takeWhile_append2 dropWhile_append2)
qed

lemma dec_token_chunk: "chunk_ok ch \<Longrightarrow> dec_token (put_chunk ch @ r) = Some (chunk_items ch, r)"
  by (cases ch) (auto simp: dec_token_def read_z_append)

lemma put_chunk_hd: "chunk_ok ch \<Longrightarrow> string_token (hd (put_chunk ch)) \<and> put_chunk ch \<noteq> []"
  by (cases ch) (auto simp: string_token_def)

lemma reads_step:
  assumes "reads d b x" and "\<And>f. d f b = Some x \<Longrightarrow> d' (Suc f) b' = Some y"
  shows "reads d' b' y"
proof -
  obtain N where N: "\<forall>f\<ge>N. d f b = Some x" using assms(1) by (auto simp: reads_def)
  have "d' f b' = Some y" if "f \<ge> Suc N" for f
    using that assms(2) [of "f - 1"] N by (cases f) auto
  then show ?thesis by (auto simp: reads_def)
qed

lemma reads_step2:
  assumes "reads d b x" "reads e c z"
    and "\<And>f. d f b = Some x \<Longrightarrow> e f c = Some z \<Longrightarrow> d' (Suc f) b' = Some y"
  shows "reads d' b' y"
proof -
  obtain N M where N: "\<forall>f\<ge>N. d f b = Some x" and M: "\<forall>f\<ge>M. e f c = Some z"
    using assms(1,2) by (auto simp: reads_def)
  have "d' f b' = Some y" if "f \<ge> Suc (max N M)" for f
    using that assms(3) [of "f - 1"] N M by (cases f) auto
  then show ?thesis by (auto simp: reads_def)
qed

text \<open>Decoding a value: the string tokens, up to a byte that is none.\<close>

lemma dec_value_items_end: "b = [] \<or> \<not> string_token (hd b) \<Longrightarrow> reads dec_value_items b ([], b)"
  unfolding reads_def by (rule exI [of _ "Suc 0"]) (auto simp: Suc_le_eq gr0_conv_Suc)

lemma dec_value_items_chunks:
  assumes "list_all chunk_ok cs" "b = [] \<or> \<not> string_token (hd b)"
  shows "reads dec_value_items (concat (map put_chunk cs) @ b) (concat (map chunk_items cs), b)"
  using assms(1)
proof (induction cs)
  case Nil
  then show ?case using dec_value_items_end [OF assms(2)] by simp
next
  case (Cons ch cs)
  then have "reads dec_value_items (concat (map put_chunk cs) @ b) (concat (map chunk_items cs), b)" by simp
  then show ?case
    by (rule reads_step)
       (use Cons.prems put_chunk_hd [of ch] dec_token_chunk [of ch] in \<open>auto simp: hd_append\<close>)
qed

lemma dec_value_put_str:
  "NUL \<notin> set s \<Longrightarrow> b = [] \<or> \<not> string_token (hd b) \<Longrightarrow>
   reads dec_value_items (put_str s @ b) (str_items s, b)"
  by (metis dec_value_items_chunks put_str_chunks)

text \<open>Content: string tokens in front of what is read so far.\<close>

lemma dec_content_chunks:
  assumes "list_all chunk_ok cs" "reads dec_content b (ws, r)"
  shows "reads dec_content (concat (map put_chunk cs) @ b) (map Item (concat (map chunk_items cs)) @ ws, r)"
  using assms(1)
proof (induction cs)
  case Nil
  then show ?case using assms(2) by simp
next
  case (Cons ch cs)
  then have "reads dec_content (concat (map put_chunk cs) @ b)
      (map Item (concat (map chunk_items cs)) @ ws, r)" by simp
  moreover obtain c t where "put_chunk ch = c # t" "string_token c"
    using Cons.prems put_chunk_hd [of ch] by (cases "put_chunk ch") auto
  moreover have "dec_token (put_chunk ch @ concat (map put_chunk cs) @ b)
      = Some (chunk_items ch, concat (map put_chunk cs) @ b)"
    using Cons.prems dec_token_chunk [of ch] by simp
  ultimately show ?case
    by (elim reads_step) (auto simp: string_token_def)
qed

lemma dec_content_put_str:
  "NUL \<notin> set s \<Longrightarrow> reads dec_content b (ws, r) \<Longrightarrow>
   reads dec_content (put_str s @ b) (map Item (str_items s) @ ws, r)"
  by (metis dec_content_chunks put_str_chunks)

subsection \<open>Attributes and elements\<close>

text \<open>The codes of the tables: none is END or a string token, and element codes fit six bits.\<close>

lemma find_in: "find P xs = Some x \<Longrightarrow> x \<in> set xs"
  by (induction xs) (auto split: if_splits)

lemma find_all: "find P xs = Some x \<Longrightarrow> list_all Q xs \<Longrightarrow> Q x"
  by (auto simp: list_all_iff dest: find_in)

lemma element_code_range:
  assumes "element_code name = Some code"
  shows "0x1C \<le> code \<and> code < 0x40"
proof -
  have "list_all (\<lambda>e. 0x1C \<le> snd e \<and> snd e < 0x40) ELEMENTS" by (simp add: ELEMENTS_def)
  then show ?thesis using assms by (auto simp: element_code_def dest: find_all)
qed

definition plain_attr_code :: "nat \<Rightarrow> bool" where
  "plain_attr_code c \<longleftrightarrow> 0x05 \<le> c \<and> c < 0x80 \<and> (c < 0x40 \<or> 0x42 < c)"

lemma attr_code_range:
  assumes "attr_code name = Some c"
  shows "plain_attr_code c"
proof -
  have "list_all (\<lambda>e. plain_attr_code (snd e)) ATTRS"
    by (simp add: ATTRS_def ATTR_HREF_def ATTR_SRC_def plain_attr_code_def)
  then show ?thesis using assms by (auto simp: attr_code_def dest: find_all)
qed

lemma value_attr_code_range:
  assumes "value_attr_code name v = Some c"
  shows "plain_attr_code c"
proof -
  have "list_all (\<lambda>e. plain_attr_code (snd (snd e))) VALUE_ATTRS"
    by (simp add: VALUE_ATTRS_def plain_attr_code_def)
  then show ?thesis using assms by (auto simp: value_attr_code_def dest: find_all)
qed

lemma plain_attr_char:
  assumes "plain_attr_code c"
  shows "ord (chr c) = c" "chr c \<noteq> TOKEN_END" "\<not> string_token (chr c)"
proof -
  show o: "ord (chr c) = c" using assms by (simp add: plain_attr_code_def)
  show "chr c \<noteq> TOKEN_END" "\<not> string_token (chr c)"
    using assms o by (auto simp: plain_attr_code_def string_token_def dest: arg_cong [of _ _ ord])
qed

lemma reads_unique: "reads d b x \<Longrightarrow> reads d b y \<Longrightarrow> x = y"
proof -
  assume "reads d b x" "reads d b y"
  then obtain N M where "\<forall>f\<ge>N. d f b = Some x" "\<forall>f\<ge>M. d f b = Some y" by (auto simp: reads_def)
  then show ?thesis by (metis max.cobounded1 max.cobounded2 option.inject)
qed

lemma dec_attrs_end: "reads dec_attrs (TOKEN_END # b) ([], b)"
  unfolding reads_def by (rule exI [of _ "Suc 0"]) (auto simp: Suc_le_eq gr0_conv_Suc)

lemma dec_content_end: "reads dec_content (TOKEN_END # b) ([], b)"
  unfolding reads_def by (rule exI [of _ "Suc 0"]) (auto simp: Suc_le_eq gr0_conv_Suc)

lemma dec_attrs_code:
  assumes "plain_attr_code c" "reads dec_value_items vb (v, b)" "reads dec_attrs b (as, r)"
  shows "reads dec_attrs (chr c # vb) ((c, v) # as, r)"
  using assms(2,3) by (rule reads_step2) (use plain_attr_char [OF assms(1)] in simp)

lemma put_attr_value:
  "attr_code (fst av) = Some ac \<Longrightarrow> value_attr_code (fst av) (snd av) = None \<Longrightarrow>
   put_attr base av = chr ac # put_str (link_value base ac (snd av))"
  by (simp add: put_attr_def link_value_def)

lemma dec_attrs_step:
  assumes r: "reads dec_attrs b (as, r)" and b: "b \<noteq> [] \<and> \<not> string_token (hd b)"
    and nul: "NUL \<notin> set base" "NUL \<notin> set (snd av)"
  shows "reads dec_attrs (put_attr base av @ b) (attr_meaning base av @ as, r)
       \<and> put_attr base av @ b \<noteq> [] \<and> \<not> string_token (hd (put_attr base av @ b))"
proof (cases "value_attr_code (fst av) (snd av)")
  case (Some vc)
  have "reads dec_attrs (chr vc # b) ((vc, []) # as, r)"
    using dec_attrs_code [OF value_attr_code_range [OF Some] dec_value_items_end r] b by blast
  then show ?thesis
    using Some plain_attr_char(3) [OF value_attr_code_range [OF Some]] by (simp add: put_attr_def attr_meaning_def)
next
  case None
  show ?thesis
  proof (cases "attr_code (fst av)")
    case None
    then show ?thesis using \<open>value_attr_code _ _ = None\<close> r b by (simp add: put_attr_def attr_meaning_def)
  next
    case (Some ac)
    let ?v = "link_value base ac (snd av)"
    have "NUL \<notin> set ?v" using nul by (simp add: link_value_def)
    then have "reads dec_value_items (put_str ?v @ b) (str_items ?v, b)"
      using dec_value_put_str b by blast
    then have "reads dec_attrs (chr ac # put_str ?v @ b) ((ac, str_items ?v) # as, r)"
      by (rule dec_attrs_code [OF attr_code_range [OF Some] _ r])
    then show ?thesis
      using Some None plain_attr_char(3) [OF attr_code_range [OF Some]]
      by (simp add: put_attr_value attr_meaning_def)
  qed
qed

lemma dec_attrs_put:
  assumes "NUL \<notin> set base" "list_all (\<lambda>av. NUL \<notin> set (snd av)) avs"
  shows "reads dec_attrs (concat (map (put_attr base) avs) @ TOKEN_END # b)
           (concat (map (attr_meaning base) avs), b)
       \<and> \<not> string_token (hd (concat (map (put_attr base) avs) @ TOKEN_END # b))"
  using assms(2)
proof (induction avs)
  case Nil
  then show ?case by (simp add: dec_attrs_end) (simp add: string_token_def)
next
  case (Cons av avs)
  then show ?case
    using dec_attrs_step [of "concat (map (put_attr base) avs) @ TOKEN_END # b"
        "concat (map (attr_meaning base) avs)" b base av] assms(1) by simp
qed

text \<open>The tag byte carries the code and the two flags.\<close>

lemma tag_byte_parts:
  assumes "0x1C \<le> code" "code < 0x40"
  shows "ord (tag_byte code as content) mod 0x40 = code"
    and "0x80 \<le> ord (tag_byte code as content) \<longleftrightarrow> as \<noteq> []"
    and "0x40 \<le> ord (tag_byte code as content) mod 0x80 \<longleftrightarrow> content \<noteq> []"
    and "tag_byte code as content \<noteq> TOKEN_END" "\<not> string_token (tag_byte code as content)"
proof -
  let ?n = "code + (if as \<noteq> [] then 0x80 else 0) + (if content \<noteq> [] then 0x40 else 0)"
  have o: "ord (tag_byte code as content) = ?n" using assms by (simp add: tag_byte_def)
  have m: "(code + 64 * k) mod 64 = code" for k
    using assms by (simp only: mod_mult_self2 mod_less)
  show "ord (tag_byte code as content) mod 0x40 = code"
    unfolding o using m [of 0] m [of 1] m [of 2] m [of 3] by (simp add: add.assoc)
  show "0x80 \<le> ord (tag_byte code as content) \<longleftrightarrow> as \<noteq> []" unfolding o using assms by simp
  show "0x40 \<le> ord (tag_byte code as content) mod 0x80 \<longleftrightarrow> content \<noteq> []"
    unfolding o using assms mod_add_self2 [of code 128] mod_add_self2 [of "code + 64" 128]
    by (simp add: add.assoc)
  have n: "?n \<notin> {1, 3, 0x40, 0x41, 0x42}" using assms by simp
  have "ord c \<in> {1, 3, 0x40, 0x41, 0x42}" if "c = TOKEN_END \<or> string_token c" for c
    using that by (elim disjE) (auto simp: string_token_def)
  then show "tag_byte code as content \<noteq> TOKEN_END" "\<not> string_token (tag_byte code as content)"
    using n o by metis+
qed

lemma dec_content_elem:
  assumes code: "0x1C \<le> code" "code < 0x40"
    and a: "reads dec_attrs (as @ TOKEN_END # (if content \<noteq> [] then content @ TOKEN_END # b else b))
              (am, if content \<noteq> [] then content @ TOKEN_END # b else b)"
    and c: "reads dec_content (content @ TOKEN_END # b) (cm, b)"
    and b: "reads dec_content b (ws, r)"
  shows "reads dec_content (put_elem code as content @ b) (WElem code am cm # ws, r)"
proof -
  note t = tag_byte_parts [OF code, of as content]
  have am: "as = [] \<Longrightarrow> am = []" using a reads_unique [OF dec_attrs_end] by fastforce
  have cm: "content = [] \<Longrightarrow> cm = []" using c reads_unique [OF dec_content_end] by fastforce
  let ?r = "if content \<noteq> [] then content @ TOKEN_END # b else b"
  obtain N1 N2 N3 where N: "\<forall>f\<ge>N1. dec_attrs f (as @ TOKEN_END # ?r) = Some (am, ?r)"
      "\<forall>f\<ge>N2. dec_content f (content @ TOKEN_END # b) = Some (cm, b)"
      "\<forall>f\<ge>N3. dec_content f b = Some (ws, r)"
    using a b c unfolding reads_def by metis
  have "dec_content (Suc f) (put_elem code as content @ b) = Some (WElem code am cm # ws, r)"
    if "f \<ge> max N1 (max N2 N3)" for f
    using that N t am cm by (auto simp: put_elem_def)
  then show ?thesis unfolding reads_def by (metis Suc_le_D Suc_le_mono)
qed

lemma dec_content_list:
  assumes "\<And>n b ws r. n \<in> set ks \<Longrightarrow> reads dec_content b (ws, r) \<Longrightarrow>
             reads dec_content (compile_node base n @ b) (meaning base n @ ws, r)"
    and "reads dec_content b (ws, r)"
  shows "reads dec_content (concat (map (compile_node base) ks) @ b) (concat (map (meaning base) ks) @ ws, r)"
  using assms by (induction ks) auto

lemma dec_content_node:
  assumes "NUL \<notin> set base"
  shows "nul_free n \<Longrightarrow> reads dec_content b (ws, r) \<Longrightarrow>
         reads dec_content (compile_node base n @ b) (meaning base n @ ws, r)"
proof (induction n arbitrary: b ws r)
  case (Text t)
  then show ?case by (simp add: dec_content_put_str)
next
  case (Elem name avs ks)
  have list: "reads dec_content (concat (map (compile_node base) ks) @ b') (concat (map (meaning base) ks) @ ws', r')"
    if "reads dec_content b' (ws', r')" for b' ws' r'
    by (rule dec_content_list [OF _ that]) (use Elem in \<open>auto simp: list_all_iff\<close>)
  show ?case
  proof (cases "element_code name")
    case None
    then show ?thesis using list Elem.prems by simp
  next
    case (Some code)
    show ?thesis
      using Some element_code_range [OF Some] dec_attrs_put [of base avs] list [OF dec_content_end] Elem.prems assms
      by (simp del: append_assoc add: dec_content_elem)
  qed
qed

subsection \<open>A card, and what its strings mean\<close>

lemma var_ref_render:
  assumes "item_ok (Var tok name)"
  shows "var_ref (tl (render_item (Var tok name)) @ r) = Some (tok, name, r)"
proof -
  have ok: "tok \<in> {CHR 0x40, CHR 0x41, CHR 0x42}" "name \<noteq> []" "is_var_start (hd name)"
    "\<forall>c\<in>set name. is_var_char c"
    using assms by (auto simp: item_ok_def list_all_iff)
  have stop: "takeWhile is_var_char (name @ x # y) = name" "dropWhile is_var_char (name @ x # y) = x # y"
    if "\<not> is_var_char x" for x y
    using ok(4) that by (simp_all add: takeWhile_append2 dropWhile_append2)
  have nc: "\<not> is_var_char (CHR '':'')" "\<not> is_var_char (CHR '')'')"
    by (simp_all add: is_var_char_def ctype_defs)
  have hdn: "hd (name @ x) = hd name" for x using ok(2) by simp
  have "tok = CHR 0x40 \<or> tok = CHR 0x41 \<or> tok = CHR 0x42" using ok(1) by simp
  then show ?thesis
    by (elim disjE) (simp_all add: render_item_def var_ref_def Let_def ok(2,3) hdn stop nc conv_token_def)
qed

lemma str_items_render:
  "list_all item_ok is \<Longrightarrow> str_items (concat (map render_item is) @ t) = is @ str_items t"
proof (induction "is")
  case Nil
  then show ?case by simp
next
  case (Cons i "is")
  show ?case
  proof (cases i)
    case (Ch c)
    then show ?thesis using Cons by (simp add: render_item_def str_items.simps(2))
  next
    case (Var tok name)
    let ?r = "concat (map render_item is) @ t"
    have e: "render_item i @ ?r = CHR ''$'' # tl (render_item i) @ ?r"
      using Var by (simp add: render_item_def)
    have n: "\<not> (tl (render_item i) @ ?r \<noteq> [] \<and> hd (tl (render_item i) @ ?r) = CHR ''$'')"
      using Var by (simp add: render_item_def)
    have v: "var_ref (tl (render_item i) @ ?r) = Some (tok, name, ?r)"
      using var_ref_render [of tok name] Cons.prems Var by simp
    have "str_items (render_item i @ ?r) = Var tok name # str_items ?r"
      by (simp only: e str_items.simps(2) n v simp_thms if_False option.case prod.case)
    then show ?thesis using Cons Var by simp
  qed
qed

lemma render_nul_free: "list_all item_ok is \<Longrightarrow> NUL \<notin> set (concat (map render_item is))"
proof -
  have v: "\<not> is_var_char NUL" by (simp add: is_var_char_def ctype_defs)
  have "item_ok i \<Longrightarrow> NUL \<notin> set (render_item i)" for i
    using v by (cases i) (auto simp: item_ok_def render_item_def list_all_iff)
  then show "list_all item_ok is \<Longrightarrow> ?thesis" by (auto simp: list_all_iff)
qed

text \<open>
  Variables survive the compiler. Written as WML text (a dollar sign doubled, a reference
  with or without a conversion) and compiled, any sequence of characters and variable
  references is read back from the byte code as that sequence: a form posts the value of a
  field, not its name, and a price in dollars stays one.
\<close>

theorem put_str_roundtrip:
  assumes "list_all item_ok is"
  shows "reads dec_value_items (put_str (concat (map render_item is))) (is, [])"
  using dec_value_put_str [of "concat (map render_item is)" "[]"] render_nul_free [OF assms]
    str_items_render [OF assms, of "[]"] by simp

theorem put_str_roundtrip_witness:
  "reads dec_value_items (put_str ''$$5 for $(name:e)!'')
     ([Ch (CHR ''$''), Ch (CHR ''5''), Ch (CHR '' ''), Ch (CHR ''f''), Ch (CHR ''o''), Ch (CHR ''r''),
       Ch (CHR '' ''), Var (CHR 0x40) ''name'', Ch (CHR ''!'')], [])"
  using put_str_roundtrip [of "[Ch (CHR ''$''), Ch (CHR ''5''), Ch (CHR '' ''), Ch (CHR ''f''),
      Ch (CHR ''o''), Ch (CHR ''r''), Ch (CHR '' ''), Var (CHR 0x40) ''name'', Ch (CHR ''!'')]"]
  by (simp add: item_ok_def render_item_def is_var_start_def is_var_char_def ctype_defs)

definition card_meaning :: "string \<Rightarrow> node list \<Rightarrow> string \<Rightarrow> wb list" where
  "card_meaning title ns base =
     [WElem 0x3F [] [WElem 0x27 [(0x55, [Ch (CHR ''p'')]), (0x36, str_items title)]
        (if concat (map (compile_node base) ns) = [] then [Item (Ch (CHR '' ''))]
         else concat (map (meaning base) ns))]]"

lemma str_items_plain: "CHR ''$'' \<notin> set s \<Longrightarrow> str_items s = map Ch s"
  by (induction s) (auto simp: str_items.simps(2))

lemma put_elem_tag:
  "as \<noteq> [] \<Longrightarrow> content \<noteq> [] \<Longrightarrow> put_elem 0x27 as content = CHR 0xE7 # as @ TOKEN_END # content @ [TOKEN_END]"
  "content \<noteq> [] \<Longrightarrow> put_elem 0x3F [] content = CHR 0x7F # content @ [TOKEN_END]"
proof -
  have "chr 0xE7 = CHR 0xE7" "chr 0x7F = CHR 0x7F"
    by (rule ord_inject [THEN iffD1], simp)+
  then show
    "as \<noteq> [] \<Longrightarrow> content \<noteq> [] \<Longrightarrow> put_elem 0x27 as content = CHR 0xE7 # as @ TOKEN_END # content @ [TOKEN_END]"
    "content \<noteq> [] \<Longrightarrow> put_elem 0x3F [] content = CHR 0x7F # content @ [TOKEN_END]"
    by (simp_all add: put_elem_def tag_byte_def)
qed

lemma compile_card_elem:
  "drop 4 (compile_card title blocks nav base) =
     put_elem 0x3F [] (put_elem 0x27 (CHR 0x55 # put_str ''p'' @ CHR 0x36 # put_str title)
       (let body = concat (map (compile_node base) (blocks @ nav)) in if body = [] then put_str '' '' else body))"
proof -
  have "put_str '' '' \<noteq> []" by (simp add: put_str_def put_loop.simps(2) put_literal_def)
  then show ?thesis
    by (simp add: compile_card_def put_elem_tag Let_def)
qed

lemma card_attrs_read:
  assumes "NUL \<notin> set title"
  shows "reads dec_attrs ((CHR 0x55 # put_str ''p'' @ CHR 0x36 # put_str title) @ TOKEN_END # b)
           ([(0x55, [Ch (CHR ''p'')]), (0x36, str_items title)], b)"
proof -
  have c: "chr 0x55 = CHR 0x55" "chr 0x36 = CHR 0x36" by (rule ord_inject [THEN iffD1], simp)+
  have t: "\<not> string_token TOKEN_END" "\<not> string_token (CHR 0x36)" by (simp_all add: string_token_def)
  have p: "plain_attr_code 0x55" "plain_attr_code 0x36" by (simp_all add: plain_attr_code_def)
  have "reads dec_attrs (CHR 0x36 # put_str title @ TOKEN_END # b) ([(0x36, str_items title)], b)"
    using dec_attrs_code [OF p(2) dec_value_put_str [OF assms] dec_attrs_end, of b] t c by simp
  from dec_attrs_code [OF p(1) dec_value_put_str this, of "''p''"] t c
  show ?thesis by (simp add: str_items_plain)
qed

lemma compile_card_read:
  assumes nul: "NUL \<notin> set title" "NUL \<notin> set base" "list_all nul_free (blocks @ nav)"
  shows "reads dec_content (drop 4 (compile_card title blocks nav base) @ [TOKEN_END])
           (card_meaning title (blocks @ nav) base, [])"
proof -
  let ?body = "concat (map (compile_node base) (blocks @ nav))"
  define content where "content = (if ?body = [] then put_str '' '' else ?body)"
  define cm where "cm = (if ?body = [] then [Item (Ch (CHR '' ''))] else concat (map (meaning base) (blocks @ nav)))"
  let ?as = "CHR 0x55 # put_str ''p'' @ CHR 0x36 # put_str title"
  have ne: "content \<noteq> []"
    by (simp add: content_def put_str_def put_loop.simps(2) put_literal_def)
  have content: "reads dec_content (content @ TOKEN_END # b) (cm, b)" for b
  proof (cases "?body = []")
    case True
    then show ?thesis
      using dec_content_put_str [OF _ dec_content_end, of "'' ''" b] by (simp add: content_def cm_def str_items_plain)
  next
    case False
    have "reads dec_content (?body @ TOKEN_END # b) (concat (map (meaning base) (blocks @ nav)) @ [], b)"
      by (rule dec_content_list [OF _ dec_content_end])
         (use dec_content_node [OF nul(2)] nul(3) in \<open>auto simp: list_all_iff\<close>)
    moreover have "content = ?body" "cm = concat (map (meaning base) (blocks @ nav))"
      unfolding content_def cm_def by (simp_all only: False if_False)
    ultimately show ?thesis by (simp only: append_Nil2)
  qed
  let ?card = "put_elem 0x27 ?as content"
  have card: "reads dec_content (?card @ TOKEN_END # b) ([WElem 0x27 [(0x55, [Ch (CHR ''p'')]), (0x36, str_items title)] cm], b)" for b
    by (rule dec_content_elem) (use ne card_attrs_read [OF nul(1)] content dec_content_end in simp_all)
  have wml: "reads dec_content (put_elem 0x3F [] ?card @ [TOKEN_END]) ([WElem 0x3F [] [WElem 0x27 [(0x55, [Ch (CHR ''p'')]), (0x36, str_items title)] cm]], [])"
    by (rule dec_content_elem) (use card dec_attrs_end dec_content_end in \<open>simp_all add: put_elem_def\<close>)
  then show ?thesis by (simp only: compile_card_elem card_meaning_def cm_def content_def Let_def)
qed

lemma compile_card_header: "take 4 (compile_card title blocks nav base) = [CHR 0x01, CHR 0x04, CHR 0x6A, NUL]"
  by (simp add: compile_card_def)

text \<open>
  C15. The compiler is correct. A card compiled to WBXML starts with the version, public
  identifier and character set, and a reader of the format gets back the card: its title, and
  the tree of its blocks and navigation with every known tag and attribute, text and variables,
  unknown tags dropped with their content kept, and site-relative links made absolute.
\<close>

theorem compile_card_correct:
  assumes "NUL \<notin> set title" "NUL \<notin> set base" "list_all nul_free (blocks @ nav)"
  shows "take 4 (compile_card title blocks nav base) = [CHR 0x01, CHR 0x04, CHR 0x6A, NUL]
       \<and> reads dec_content (drop 4 (compile_card title blocks nav base) @ [TOKEN_END])
           (card_meaning title (blocks @ nav) base, [])"
  using compile_card_header compile_card_read [OF assms] by blast

theorem compile_card_correct_witness:
  "reads dec_content
     (drop 4 (compile_card ''Hi'' [Elem ''p'' [] [Elem ''a'' [(''href'', ''/x'')] [Text ''go'']]] [] ''http://h'')
       @ [TOKEN_END])
     ([WElem 0x3F [] [WElem 0x27 [(0x55, [Ch (CHR ''p'')]), (0x36, map Ch ''Hi'')]
        [WElem 0x20 [] [WElem 0x1C [(0x4A, map Ch ''http://h/x'')] (map (Item \<circ> Ch) ''go'')]]]], [])"
  using compile_card_correct [of "''Hi''" "''http://h''" "[Elem ''p'' [] [Elem ''a'' [(''href'', ''/x'')] [Text ''go'']]]" "[]"]
  by (simp add: card_meaning_def element_code_def ELEMENTS_def attr_meaning_def value_attr_code_def VALUE_ATTRS_def
      attr_code_def ATTRS_def ATTR_HREF_def ATTR_SRC_def link_value_def eq_ci_def ctype_defs tolower_def
      put_elem_def str_items.simps(2))

subsection \<open>The reader's stack and its trees\<close>

text \<open>
  What the reader keeps: between one and 64 open elements, and no NUL byte in any text or
  attribute, so that every string of the tree is a C string.
\<close>

definition frame_ok :: "frame \<Rightarrow> bool" where
  "frame_ok f \<longleftrightarrow> list_all (\<lambda>av. NUL \<notin> set (snd av)) (fr_attrs f) \<and> list_all nul_free (fr_kids f)"

definition stack_ok :: "frame list \<Rightarrow> bool" where
  "stack_ok fs \<longleftrightarrow> fs \<noteq> [] \<and> length fs \<le> 64 \<and> list_all frame_ok fs"

lemma chr_not_NUL: "0 < n \<Longrightarrow> n < 256 \<Longrightarrow> chr n \<noteq> NUL"
  using ord_chr [of n] by (auto dest: arg_cong [of _ _ ord])

lemma b_utf8_nul_free: "0 < cp \<Longrightarrow> cp \<le> 0x10FFFF \<Longrightarrow> NUL \<notin> set (b_utf8 cp)"
proof -
  assume a: "0 < cp" "cp \<le> 0x10FFFF"
  have "cp div 64 < 32" if "cp < 0x800" using that by (simp add: less_mult_imp_div_less)
  moreover have "cp div 4096 < 16" if "cp < 0x10000" using that by (simp add: less_mult_imp_div_less)
  moreover have "cp div 262144 < 5" using a by (simp add: less_mult_imp_div_less)
  moreover have "x mod 64 < 64" for x :: nat by simp
  ultimately show ?thesis
    using a chr_not_NUL by (auto simp: b_utf8_def less_SucI eq_commute [of NUL])
qed

lemma digits_value_nonneg: "0 \<le> acc \<Longrightarrow> 0 \<le> fst (digits_value b u acc)"
  by (induction b u acc rule: digits_value.induct) (auto split: option.splits)

lemma strtoul_nonneg: "0 \<le> fst (strtoul b t)"
proof -
  have "0 \<le> fst (if w = [] \<or> digit_of b (hd w) = None then (0, t)
         else case digits_value b w 0 of
           (v, rest) \<Rightarrow> (if v > ULONG_MAX then ULONG_MAX
                         else if neg \<and> v \<noteq> 0 then ULONG_MAX + 1 - v else v, rest))" for w neg
    using digits_value_nonneg [of 0 b w] by (cases "digits_value b w 0") (simp add: ULONG_MAX_def)
  then show ?thesis unfolding strtoul_def Let_def .
qed

lemma entity_value_range: "entity_value e = Some cp \<Longrightarrow> 0 < cp \<and> cp \<le> 0x10FFFF"
proof -
  have r: "0 < nat v \<and> nat v \<le> 0x10FFFF" if "0 \<le> v" "v \<noteq> 0 \<and> \<not> v > 0x10FFFF" for v :: int
    using that by linarith
  assume "entity_value e = Some cp"
  then show ?thesis
    using r [OF strtoul_nonneg [of 16 "tl (take 11 (tl e))"]] r [OF strtoul_nonneg [of 10 "take 11 (tl e)"]]
    unfolding entity_value_def Let_def
    by (simp split: if_split_asm) linarith+
qed

lemma decode_entities_nul_free: "NUL \<notin> set s \<Longrightarrow> NUL \<notin> set (decode_entities s)"
proof (induction s rule: decode_entities.induct)
  case (2 c s)
  have d: "NUL \<notin> set (drop k s)" for k using "2.prems" by (auto dest: in_set_dropD)
  show ?case
    using 2 d b_utf8_nul_free entity_value_range by (auto split: option.splits)
qed simp

lemma collapse_nul_free: "NUL \<notin> set s \<Longrightarrow> NUL \<notin> set (collapse b s)"
  by (induction b s rule: collapse.induct) auto

lemma make_text_nul_free: "NUL \<notin> set s \<Longrightarrow> make_text s = Some t \<Longrightarrow> NUL \<notin> set t"
  by (auto simp: make_text_def Let_def decode_entities_nul_free collapse_nul_free split: if_splits)

lemma read_text_ok:
  assumes "stack_ok fs" "NUL \<notin> set t"
  shows "stack_ok (read_text t rest fs)"
proof -
  have add: "stack_ok (add_kid (Text x) (hd fs) # tl fs)" if "NUL \<notin> set x" for x
    using assms(1) that by (cases fs) (auto simp: stack_ok_def add_kid_def frame_ok_def)
  show ?thesis
    using assms add make_text_nul_free [OF assms(2)]
    by (auto simp: read_text_def Let_def split: option.splits if_splits)
qed

lemma frame_node_ok: "frame_ok f \<Longrightarrow> nul_free (frame_node f)"
  by (simp add: frame_ok_def frame_node_def)

lemma add_kid_ok: "frame_ok f \<Longrightarrow> nul_free n \<Longrightarrow> frame_ok (add_kid n f)"
  by (simp add: frame_ok_def add_kid_def)

lemma close_to_ok: "stack_ok fs \<Longrightarrow> close_to name fs = Some fs' \<Longrightarrow> stack_ok fs'"
  by (induction name fs rule: close_to.induct)
     (auto simp: stack_ok_def frame_node_ok add_kid_ok split: if_splits)

lemma close_tag_ok: "stack_ok fs \<Longrightarrow> stack_ok (close_tag name fs)"
  by (auto simp: close_tag_def close_to_ok split: option.splits)

lemma open_tag_ok:
  assumes "stack_ok fs" "list_all (\<lambda>av. NUL \<notin> set (snd av)) avs"
  shows "stack_ok (open_tag name avs sc fs)"
  using assms by (cases fs) (auto simp: open_tag_def Let_def stack_ok_def add_kid_def frame_ok_def frame_node_def)

lemma attr_item_nul_free:
  assumes "NUL \<notin> set t"
  shows "NUL \<notin> set (snd (fst (attr_item t)))" "NUL \<notin> set (snd (attr_item t))"
proof -
  define r1 where "r1 = dropWhile isspace (dropWhile is_name_char t)"
  have sub: "set (dropWhile P x) \<subseteq> set x" "set (takeWhile P x) \<subseteq> set x" for P and x :: string
    by (auto dest: set_dropWhileD set_takeWhileD)
  have r1: "NUL \<notin> set r1"
    using assms sub(1) [of isspace "dropWhile is_name_char t"] sub(1) [of is_name_char t] unfolding r1_def by blast
  have tl: "NUL \<notin> set (tl x)" if "NUL \<notin> set x" for x using that set_tl_subset [of x] by blast
  have n: "NUL \<notin> set (take 31 (takeWhile is_name_char t))"
    using assms by (auto dest!: in_set_takeD set_takeWhileD)
  have r2: "NUL \<notin> set (dropWhile isspace (tl r1))" using tl [OF r1] sub(1) [of isspace "tl r1"] by blast
  let ?q = "\<lambda>c. c \<noteq> hd (dropWhile isspace (tl r1))" and ?u = "\<lambda>c. \<not> isspace c \<and> c \<noteq> CHR ''>''"
  have q: "NUL \<notin> set (takeWhile ?q (tl (dropWhile isspace (tl r1))))" "NUL \<notin> set (dropWhile ?q (tl (dropWhile isspace (tl r1))))"
    using tl [OF r2] sub(1) [of ?q "tl (dropWhile isspace (tl r1))"] sub(2) [of ?q "tl (dropWhile isspace (tl r1))"] by blast+
  have u: "NUL \<notin> set (takeWhile ?u (dropWhile isspace (tl r1)))" "NUL \<notin> set (dropWhile ?u (dropWhile isspace (tl r1)))"
    using r2 sub(1) [of ?u "dropWhile isspace (tl r1)"] sub(2) [of ?u "dropWhile isspace (tl r1)"] by blast+
  show "NUL \<notin> set (snd (fst (attr_item t)))"
    unfolding attr_item_def Let_def r1_def [symmetric]
    using n decode_entities_nul_free [OF q(1)] decode_entities_nul_free [OF u(1)] by (simp only: prod.sel split: if_split) simp
  show "NUL \<notin> set (snd (attr_item t))"
    unfolding attr_item_def Let_def r1_def [symmetric]
    using r1 tl [OF q(2)] u(2) by (simp only: prod.sel split: if_split) simp
qed

lemma attr_loop_nul_free:
  "NUL \<notin> set s \<Longrightarrow> list_all (\<lambda>av. NUL \<notin> set (snd av)) avs \<Longrightarrow>
   list_all (\<lambda>av. NUL \<notin> set (snd av)) (fst (attr_loop s avs b)) \<and> NUL \<notin> set (snd (snd (attr_loop s avs b)))"
proof (induction s avs b rule: attr_loop.induct)
  case (1 s avs b)
  show ?case
  proof (cases "dropWhile isspace s")
    case Nil
    then show ?thesis using "1.prems" by (simp only: attr_loop.simps [of s]) simp
  next
    case (Cons c t)
    have "NUL \<notin> set (c # t)" using "1.prems"(1) Cons set_dropWhileD [of NUL isspace s] by auto
    then show ?thesis
      using "1.IH" [OF Cons] attr_item_nul_free [of "c # t"] Cons "1.prems"(2)
      by (simp add: attr_loop.simps [of s])
  qed
qed

lemma set_drop_While: "x \<notin> set s \<Longrightarrow> x \<notin> set (dropWhile P s)" "x \<notin> set s \<Longrightarrow> x \<notin> set (takeWhile P s)"
  "x \<notin> set s \<Longrightarrow> x \<notin> set (tl s)" "x \<notin> set s \<Longrightarrow> x \<notin> set (drop n s)"
  using set_tl_subset [of s] by (auto dest: set_dropWhileD set_takeWhileD in_set_dropD)

lemma parse_loop_ok: "NUL \<notin> set s \<Longrightarrow> stack_ok fs \<Longrightarrow> stack_ok (parse_loop s fs)"
proof (induction s fs rule: parse_loop.induct)
  case (2 c s fs)
  have s: "NUL \<notin> set s" "NUL \<noteq> c" using "2.prems"(1) by auto
  have gt: "NUL \<notin> set (after_gt t)" if "NUL \<notin> set t" for t
    unfolding after_gt_def using that by (intro set_drop_While)
  note d = set_drop_While [OF s(1)]
  consider (chars) "c \<noteq> CHR ''<''" | (com) "c = CHR ''<''" "prefix ''!--'' s"
    | (dir) "c = CHR ''<''" "\<not> prefix ''!--'' s" "s \<noteq> [] \<and> (hd s = CHR ''?'' \<or> hd s = CHR ''!'')"
    | (close) "c = CHR ''<''" "\<not> prefix ''!--'' s" "\<not> (s \<noteq> [] \<and> (hd s = CHR ''?'' \<or> hd s = CHR ''!''))"
        "s \<noteq> [] \<and> hd s = CHR ''/''"
    | (tag) "c = CHR ''<''" "\<not> prefix ''!--'' s" "\<not> (s \<noteq> [] \<and> (hd s = CHR ''?'' \<or> hd s = CHR ''!''))"
        "\<not> (s \<noteq> [] \<and> hd s = CHR ''/'')" by blast
  then show ?case
  proof cases
    case chars
    have "stack_ok (read_text (c # takeWhile (\<lambda>x. x \<noteq> CHR ''<'') s) (dropWhile (\<lambda>x. x \<noteq> CHR ''<'') s) fs)"
      using "2.prems"(2) s d(2) by (intro read_text_ok) auto
    then show ?thesis
      using "2.IH"(1) [OF chars refl] d(1) chars by (simp add: parse_loop.simps(2) Let_def)
  next
    case com
    then show ?thesis
      using "2.IH"(2) "2.prems" d(4) by (simp add: parse_loop.simps(2) split: option.split)
  next
    case dir
    then have "stack_ok (parse_loop (after_gt s) fs)" using "2.IH"(3) "2.prems"(2) gt [OF s(1)] by blast
    then show ?thesis using dir by (simp only: parse_loop.simps(2) simp_thms if_True if_False)
  next
    case close
    have "stack_ok (close_tag (take 31 (takeWhile is_name_char (tl s))) fs)"
      using "2.prems"(2) by (rule close_tag_ok)
    moreover have "NUL \<notin> set (after_gt (dropWhile is_name_char (tl s)))"
      using d(3) by (intro gt set_drop_While(1))
    ultimately have "stack_ok (parse_loop (after_gt (dropWhile is_name_char (tl s)))
          (close_tag (take 31 (takeWhile is_name_char (tl s))) fs))"
      using "2.IH"(4) close by blast
    then show ?thesis using close by (simp only: parse_loop.simps(2) simp_thms if_True if_False)
  next
    case tag
    show ?thesis
    proof (cases "takeWhile is_name_char s = []")
      case True
      then show ?thesis
        using tag "2.IH"(5) "2.prems" s by (simp only: parse_loop.simps(2) simp_thms if_True if_False Let_def)
    next
      case False
      let ?el = "attr_loop (dropWhile is_name_char s) [] False"
      have el: "list_all (\<lambda>av. NUL \<notin> set (snd av)) (fst ?el)" "NUL \<notin> set (snd (snd ?el))"
        using attr_loop_nul_free [of "dropWhile is_name_char s" "[]" False] d(1) by auto
      have "stack_ok (parse_loop (snd (snd ?el))
          (open_tag (take 31 (takeWhile is_name_char s)) (fst ?el) (fst (snd ?el)) fs))"
        using "2.IH"(6) [OF _ tag(2-4) refl False refl] tag(1) el open_tag_ok "2.prems"(2) by blast
      then show ?thesis
        using tag False by (simp only: parse_loop.simps(2) simp_thms if_True if_False Let_def)
    qed
  qed
qed simp

lemma fold_stack_ok: "fs \<noteq> [] \<Longrightarrow> list_all frame_ok fs \<Longrightarrow> nul_free (fold_stack fs)"
  by (induction fs rule: fold_stack.induct) (auto simp: frame_node_ok add_kid_ok)

lemma root_stack_ok: "stack_ok [\<lparr>fr_name = ''#root'', fr_attrs = [], fr_kids = []\<rparr>]"
  by (simp add: stack_ok_def frame_ok_def)

lemma parse_wml_nul_free: "NUL \<notin> set s \<Longrightarrow> nul_free (parse_wml s)"
  using parse_loop_ok [OF _ root_stack_ok, of s]
  by (auto simp: parse_wml_def stack_ok_def intro: fold_stack_ok)

text \<open>
  The reader never overruns its stack of 64 open elements and never loses its root,
  whatever the nesting and the stray tags of the source, and every string of the tree it
  builds is a C string (no entity can smuggle a NUL byte in).
\<close>

theorem parse_wml_stack_safe:
  assumes "NUL \<notin> set s" "stack_ok fs"
  shows "stack_ok (parse_loop s fs) \<and> stack_ok (close_tag name fs)
       \<and> stack_ok (open_tag name (fst (attr_loop s [] False)) sc fs) \<and> nul_free (parse_wml s)"
  using parse_loop_ok [OF assms] close_tag_ok [OF assms(2)] parse_wml_nul_free [OF assms(1)]
    open_tag_ok [OF assms(2)] attr_loop_nul_free [OF assms(1), of "[]" False] by simp

theorem parse_wml_stack_safe_witness:
  "stack_ok (parse_loop ''<a></x></a>'' [\<lparr>fr_name = ''#root'', fr_attrs = [], fr_kids = []\<rparr>])"
  using parse_wml_stack_safe [of "''<a></x></a>''" "[\<lparr>fr_name = ''#root'', fr_attrs = [], fr_kids = []\<rparr>]" "[]" False]
  by (simp add: stack_ok_def frame_ok_def)

end
