(* ===== verification/Wbxml_Pages.thy ===== *)
theory Wbxml_Pages
  imports Wbxml "HOL-Library.Monad_Syntax"
begin

text \<open>
  Pagination (src/src/wap_gateway/wbxml.c, from the pagination section on): a card is packed
  into pages of at most a given number of compiled bytes, with Prev and Next links; a page goes
  out as WBXML (the gateway) or as WML text (HTTP). Numbers of bytes are natural numbers; the
  subtractions of \<open>size_t\<close> are written with their wrap-around.
\<close>

subsection \<open>Cutting a block\<close>

fun find_card :: "node \<Rightarrow> node option" and find_card_in :: "node list \<Rightarrow> node option" where
  "find_card (Text t) = None"
| "find_card (Elem name avs ks) = (if eq_ci name ''card'' then Some (Elem name avs ks) else find_card_in ks)"
| "find_card_in [] = None"
| "find_card_in (k # ks) = (case find_card k of Some c \<Rightarrow> Some c | None \<Rightarrow> find_card_in ks)"

fun node_name :: "node \<Rightarrow> string option" where
  "node_name (Text t) = None"
| "node_name (Elem name avs ks) = Some name"

fun node_attrs :: "node \<Rightarrow> (string \<times> string) list" where
  "node_attrs (Text t) = []"
| "node_attrs (Elem name avs ks) = avs"

fun node_kids :: "node \<Rightarrow> node list" where
  "node_kids (Text t) = []"
| "node_kids (Elem name avs ks) = ks"

definition wrapper_like :: "node \<Rightarrow> node list \<Rightarrow> node" where
  "wrapper_like n kids = Elem (case node_name n of Some nm \<Rightarrow> nm | None \<Rightarrow> ''p'') (node_attrs n) kids"

definition page_size_with :: "string \<Rightarrow> node list \<Rightarrow> node \<Rightarrow> string \<Rightarrow> nat" where
  "page_size_with title cur extra base = card_size title (cur @ [extra]) [] base"

definition prefix_of :: "node \<Rightarrow> nat \<Rightarrow> string option \<Rightarrow> nat \<Rightarrow> node" where
  "prefix_of blk m t tcut =
     wrapper_like blk (take m (node_kids blk)
       @ (case t of Some s \<Rightarrow> if tcut \<noteq> 0 then [Text (take tcut s)] else [] | None \<Rightarrow> []))"

definition MAX_WORDS :: nat where "MAX_WORDS = 4096"

definition word_cuts :: "string \<Rightarrow> nat \<Rightarrow> nat list" where
  "word_cuts t mx =
     take mx (filter (\<lambda>i. i = length t \<or> (t ! i = CHR '' '' \<and> t ! (i - 1) \<noteq> CHR '' '')) [1..<Suc (length t)])"

definition has_alnum :: "string \<Rightarrow> bool" where
  "has_alnum w \<longleftrightarrow> list_ex (\<lambda>c. isalnum c \<or> 0x80 \<le> ord c) w"

definition is_sep :: "char \<Rightarrow> bool" where
  "is_sep c \<longleftrightarrow> c \<in> set ''|,;:-''"

definition ends_line :: "string \<Rightarrow> bool" where
  "ends_line w \<longleftrightarrow>
     has_alnum w \<or> (\<not> list_ex (\<lambda>c. c \<in> set ''[({<'') w \<and> list_ex (\<lambda>c. \<not> is_sep c) w)"

definition rtrim :: "string \<Rightarrow> string" where
  "rtrim t = rev (dropWhile (\<lambda>c. c = CHR '' '') (rev t))"

definition last_word :: "string \<Rightarrow> string" where
  "last_word t = rev (takeWhile (\<lambda>c. c \<noteq> CHR '' '') (rev t))"

definition before_last_word :: "string \<Rightarrow> string" where
  "before_last_word t = rev (dropWhile (\<lambda>c. c \<noteq> CHR '' '') (rev t))"

lemma rtrim_length: "length (rtrim t) \<le> length t"
  using length_dropWhile_le [of "\<lambda>c. c = CHR '' ''" "rev t"] by (simp add: rtrim_def)

lemma rtrim_last: "rtrim t \<noteq> [] \<Longrightarrow> hd (rev (rtrim t)) \<noteq> CHR '' ''"
  using hd_dropWhile [of "\<lambda>c. c = CHR '' ''" "rev t"] by (simp add: rtrim_def)

lemma before_last_word_length: "rtrim t \<noteq> [] \<Longrightarrow> length (before_last_word (rtrim t)) < length t"
proof -
  assume a: "rtrim t \<noteq> []"
  have "length (dropWhile (\<lambda>c. c \<noteq> CHR '' '') (rev (rtrim t))) < length (rev (rtrim t))"
    by (rule length_dropWhile_less) (use a rtrim_last [OF a] in auto)
  then show ?thesis using rtrim_length [of t] by (simp add: before_last_word_def)
qed

function trim_dangling_tail :: "string \<Rightarrow> nat" where
  "trim_dangling_tail t =
     (let u = rtrim t in
      if u = [] then 0
      else if ends_line (last_word u) then length u
      else trim_dangling_tail (before_last_word u))"
  by pat_completeness auto

termination trim_dangling_tail
  by (relation "measure length") (simp_all add: before_last_word_length)

declare trim_dangling_tail.simps [simp del]

function skip_leading_separators :: "string \<Rightarrow> string" where
  "skip_leading_separators s =
     (let t = dropWhile (\<lambda>c. c = CHR '' '') s; w = takeWhile (\<lambda>c. c \<noteq> CHR '' '') t in
      if w = [] \<or> has_alnum w \<or> length (takeWhile is_sep t) \<noteq> length w then t
      else skip_leading_separators (drop (length w) t))"
  by pat_completeness auto

lemma skip_length:
  "takeWhile P (dropWhile Q s) \<noteq> [] \<Longrightarrow> length (drop (length (takeWhile P (dropWhile Q s))) (dropWhile Q s)) < length s"
proof -
  assume "takeWhile P (dropWhile Q s) \<noteq> []"
  then have "0 < length (takeWhile P (dropWhile Q s))" by simp
  moreover have "length (takeWhile P (dropWhile Q s)) \<le> length (dropWhile Q s)" by (rule length_takeWhile_le)
  moreover have "length (dropWhile Q s) \<le> length s" by (rule length_dropWhile_le)
  ultimately show ?thesis by (simp only: length_drop)
qed

termination skip_leading_separators
  by (relation "measure length") (simp_all add: skip_length del: length_drop)

declare skip_leading_separators.simps [simp del]

text \<open>The largest number of children that fit: the loop stops at the first that does not.\<close>

function kids_that_fit :: "(nat \<Rightarrow> bool) \<Rightarrow> nat \<Rightarrow> nat \<Rightarrow> nat" where
  "kids_that_fit fits nk m = (if m < nk \<and> fits (Suc m) then kids_that_fit fits nk (Suc m) else m)"
  by pat_completeness auto

termination kids_that_fit
  by (relation "measure (\<lambda>(fits, nk, m). nk - m)") auto

declare kids_that_fit.simps [simp del]

text \<open>The binary search for the most words that fit.\<close>

function words_that_fit :: "(nat \<Rightarrow> bool) \<Rightarrow> nat \<Rightarrow> nat \<Rightarrow> nat" where
  "words_that_fit fits lo hi =
     (if lo < hi then
        let mid = (lo + hi + 1) div 2 in
        if fits mid then words_that_fit fits mid hi else words_that_fit fits lo (mid - 1)
      else lo)"
  by pat_completeness auto

termination words_that_fit
  by (relation "measure (\<lambda>(fits, lo, hi). hi - lo)") auto

declare words_that_fit.simps [simp del]

definition text_of :: "node \<Rightarrow> string option" where
  "text_of n = (case n of Text t \<Rightarrow> Some t | Elem nm avs ks \<Rightarrow> None)"

definition text_cut :: "node list \<Rightarrow> node \<Rightarrow> nat \<Rightarrow> string \<Rightarrow> string \<Rightarrow> nat \<Rightarrow> string \<Rightarrow> nat" where
  "text_cut cur blk m t title limit base =
     (let cuts = word_cuts t MAX_WORDS;
          lo = words_that_fit
                 (\<lambda>k. page_size_with title cur (prefix_of blk m (Some t) (cuts ! (k - 1))) base \<le> limit)
                 0 (length cuts)
      in if lo > 0 then cuts ! (lo - 1) else 0)"

definition fitting_kids :: "node list \<Rightarrow> node \<Rightarrow> string \<Rightarrow> nat \<Rightarrow> string \<Rightarrow> nat" where
  "fitting_kids cur blk title limit base =
     kids_that_fit (\<lambda>k. page_size_with title cur (prefix_of blk k None 0) base \<le> limit) (length (node_kids blk)) 0"

definition split_cut :: "node list \<Rightarrow> node \<Rightarrow> string \<Rightarrow> nat \<Rightarrow> string \<Rightarrow> nat \<times> nat" where
  "split_cut cur blk title limit base =
     (let m = fitting_kids cur blk title limit base in
      (m, if m < length (node_kids blk) then
            case text_of (node_kids blk ! m) of
              None \<Rightarrow> 0
            | Some t \<Rightarrow> text_cut cur blk m t title limit base
          else 0))"

definition tidy_seam :: "node list \<Rightarrow> nat \<times> nat \<Rightarrow> nat \<times> nat" where
  "tidy_seam ks mc =
     (case mc of (m, tcut) \<Rightarrow>
        if tcut = 0 \<and> m > 0 then
          case text_of (ks ! (m - 1)) of
            Some t \<Rightarrow> if trim_dangling_tail t < length t then (m - 1, trim_dangling_tail t) else (m, tcut)
          | None \<Rightarrow> (m, tcut)
        else (m, tcut))"

definition split_at :: "node \<Rightarrow> nat \<times> nat \<Rightarrow> node \<times> node option" where
  "split_at blk mc =
     (case mc of (m, tcut) \<Rightarrow>
        let ks = node_kids blk;
            rest = (case text_of (ks ! m) of
                      Some t \<Rightarrow>
                        (let after = skip_leading_separators (drop tcut t) in
                         (if after \<noteq> [] then [Text after] else []) @ drop (Suc m) ks)
                    | None \<Rightarrow> drop m ks)
        in (prefix_of blk m (text_of (ks ! m)) tcut, if rest \<noteq> [] then Some (wrapper_like blk rest) else None))"

definition split_to_fit :: "node list \<Rightarrow> node \<Rightarrow> string \<Rightarrow> nat \<Rightarrow> string \<Rightarrow> (node \<times> node option) option" where
  "split_to_fit cur blk title limit base =
     (if node_name blk = None \<or> node_kids blk = [] then None
      else
        let mc = split_cut cur blk title limit base in
        if fst mc = length (node_kids blk) then None
        else
          let mc' = tidy_seam (node_kids blk) mc in
          if fst mc' = 0 \<and> snd mc' = 0 then None else Some (split_at blk mc'))"

subsection \<open>Page numbers in links\<close>

definition WAP_PAGE_BYTES :: nat where "WAP_PAGE_BYTES = 860"

definition page_key :: string where "page_key = ''__page=''"

definition is_query_sep :: "char \<Rightarrow> bool" where
  "is_query_sep c \<longleftrightarrow> c = CHR ''?'' \<or> c = CHR ''&''"

text \<open>Where the parameter is: the first occurrence that starts the string or follows a separator.\<close>

function find_page_from :: "string \<Rightarrow> nat \<Rightarrow> nat option" where
  "find_page_from uri i =
     (case strstr (drop i uri) page_key of
        None \<Rightarrow> None
      | Some k \<Rightarrow>
          if i + k > 0 \<and> \<not> is_query_sep (uri ! (i + k - 1)) then find_page_from uri (Suc (i + k))
          else Some (i + k))"
  by pat_completeness auto

termination find_page_from
proof (relation "measure (\<lambda>(uri, i). length uri - i)", goal_cases)
  case (2 uri i k)
  then have "k + 7 \<le> length uri - i" using strstr_length [OF 2(1)] by (simp add: page_key_def)
  then show ?case by simp
qed simp

declare find_page_from.simps [simp del]

definition wbxml_page_param :: "string \<Rightarrow> int" where
  "wbxml_page_param uri = (case find_page_from uri 0 of Some p \<Rightarrow> atoi (drop (p + 7) uri) | None \<Rightarrow> 0)"

text \<open>
  \<open>drop_page\<close> is the URI without its parameter. When the URI starts with the parameter and no
  ampersand follows it, the code reads the byte before its array: the result is \<open>None\<close>.
\<close>

definition strip_sep_end :: "string \<Rightarrow> string" where
  "strip_sep_end b = (if b \<noteq> [] \<and> is_query_sep (last b) then butlast b else b)"

definition drop_page :: "string \<Rightarrow> string option" where
  "drop_page b =
     (case find_page_from b 0 of
        None \<Rightarrow> Some b
      | Some p \<Rightarrow>
          let e = dropWhile isdigit (drop (p + 7) b) in
          if e \<noteq> [] \<and> hd e = CHR ''&'' then Some (strip_sep_end (take p b @ tl e))
          else if p = 0 then None
          else if is_query_sep (b ! (p - 1)) then Some (strip_sep_end (take (p - 1) b @ e))
          else Some (strip_sep_end (take p b @ e)))"

definition cut_hash :: "string \<Rightarrow> string" where
  "cut_hash b = takeWhile (\<lambda>c. c \<noteq> CHR ''#'') b"

definition wbxml_set_page_param :: "string \<Rightarrow> int \<Rightarrow> nat \<Rightarrow> string option" where
  "wbxml_set_page_param uri page out_size =
     (case drop_page (cut_hash (fit 1024 uri)) of
        None \<Rightarrow> None
      | Some b \<Rightarrow>
          Some (fit out_size
            (if page \<le> 0 then b
             else b @ (if CHR ''?'' \<in> set b then ''&'' else ''?'') @ page_key @ show_int page)))"

definition nav_link :: "string \<Rightarrow> string \<Rightarrow> node" where
  "nav_link label href = Elem ''p'' [] [Elem ''a'' [(''href'', href)] [Text label]]"

definition uri_base :: "string \<Rightarrow> nat \<Rightarrow> string" where
  "uri_base uri out_size =
     (case strstr uri ''://'' of
        None \<Rightarrow> []
      | Some k \<Rightarrow>
          fit out_size (case strchr (drop (k + 3) uri) (CHR ''/'') of
                          Some j \<Rightarrow> take (k + 3 + j) uri
                        | None \<Rightarrow> uri))"

fun utf8_back :: "string \<Rightarrow> nat \<Rightarrow> nat" where
  "utf8_back s 0 = 0"
| "utf8_back s (Suc n) =
     (if Suc n < length s \<and> ord (s ! Suc n) div 64 = 2 then utf8_back s n else Suc n)"

definition utf8_truncate :: "string \<Rightarrow> nat \<Rightarrow> nat \<Rightarrow> string" where
  "utf8_truncate s mx out_size =
     (let n = min (length s) mx; n' = (if n \<ge> out_size then out_size - 1 else n)
      in take (utf8_back s n') s)"

subsection \<open>Packing pages\<close>

fun node_weight :: "node \<Rightarrow> nat" where
  "node_weight (Text t) = Suc (length t)"
| "node_weight (Elem name avs ks) = Suc (sum_list (map node_weight ks))"

lemma node_weight_pos: "0 < node_weight n"
  by (cases n) simp_all

lemma skip_leading_separators_length: "length (skip_leading_separators s) \<le> length s"
proof (induction s rule: skip_leading_separators.induct)
  case (1 s)
  let ?t = "dropWhile (\<lambda>c. c = CHR '' '') s"
  have t: "length ?t \<le> length s" by (rule length_dropWhile_le)
  show ?case
  proof (cases "takeWhile (\<lambda>c. c \<noteq> CHR '' '') ?t = [] \<or> has_alnum (takeWhile (\<lambda>c. c \<noteq> CHR '' '') ?t)
      \<or> length (takeWhile is_sep ?t) \<noteq> length (takeWhile (\<lambda>c. c \<noteq> CHR '' '') ?t)")
    case True
    then have "skip_leading_separators s = ?t" by (subst skip_leading_separators.simps) (simp only: Let_def if_True)
    then show ?thesis using t by simp
  next
    case False
    then have "skip_leading_separators s = skip_leading_separators (drop (length (takeWhile (\<lambda>c. c \<noteq> CHR '' '') ?t)) ?t)"
      by (subst skip_leading_separators.simps) (simp only: Let_def if_False)
    then show ?thesis using "1.IH" [OF refl refl False] t by simp
  qed
qed

lemma take_weight: "m \<le> length ks \<Longrightarrow> m + sum_list (map node_weight (drop m ks)) \<le> sum_list (map node_weight ks)"
proof (induction m arbitrary: ks)
  case (Suc m)
  then obtain k ks' where ks: "ks = k # ks'" by (cases ks) auto
  then show ?case using Suc.IH [of ks'] Suc.prems node_weight_pos [of k] by simp
qed simp

lemma kids_that_fit_bounds:
  "m \<le> nk \<Longrightarrow> kids_that_fit fits nk m \<le> nk \<and> m \<le> kids_that_fit fits nk m
     \<and> (\<forall>k. m < k \<and> k \<le> kids_that_fit fits nk m \<longrightarrow> fits k)"
proof (induction fits nk m rule: kids_that_fit.induct)
  case (1 fits nk m)
  show ?case
  proof (cases "m < nk \<and> fits (Suc m)")
    case True
    then have e: "kids_that_fit fits nk m = kids_that_fit fits nk (Suc m)" by (subst kids_that_fit.simps) simp
    have IH: "kids_that_fit fits nk (Suc m) \<le> nk" "Suc m \<le> kids_that_fit fits nk (Suc m)"
      "\<And>k. Suc m < k \<Longrightarrow> k \<le> kids_that_fit fits nk (Suc m) \<Longrightarrow> fits k"
      using 1 True by auto
    have "fits k" if "m < k" "k \<le> kids_that_fit fits nk (Suc m)" for k
      using that IH(3) [of k] True by (cases "k = Suc m") auto
    then show ?thesis using IH e by auto
  next
    case False
    then have "kids_that_fit fits nk m = m" by (subst kids_that_fit.simps) (simp only: if_False)
    then show ?thesis using 1 by auto
  qed
qed

lemma words_that_fit_bounds:
  "lo \<le> hi \<Longrightarrow> lo \<le> words_that_fit fits lo hi \<and> words_that_fit fits lo hi \<le> hi
     \<and> (words_that_fit fits lo hi = lo \<or> fits (words_that_fit fits lo hi))"
proof (induction fits lo hi rule: words_that_fit.induct)
  case (1 fits lo hi)
  let ?mid = "(lo + hi + 1) div 2"
  show ?case
  proof (cases "lo < hi")
    case True
    have mid: "lo < ?mid" "?mid \<le> hi" using True by auto
    show ?thesis
    proof (cases "fits ?mid")
      case f: True
      have "words_that_fit fits lo hi = words_that_fit fits ?mid hi"
        using True f by (simp add: words_that_fit.simps [of fits lo hi] Let_def)
      then show ?thesis using "1.IH"(1) [OF True refl f] mid f by auto
    next
      case f: False
      have "words_that_fit fits lo hi = words_that_fit fits lo (?mid - 1)"
        using True f by (simp add: words_that_fit.simps [of fits lo hi] Let_def)
      moreover have le: "lo \<le> ?mid - 1" "?mid - 1 \<le> hi" using mid by linarith+
      ultimately show ?thesis using "1.IH"(2) [OF True refl f le(1)] by (metis le_trans)
    qed
  next
    case False
    then have "words_that_fit fits lo hi = lo" by (subst words_that_fit.simps) simp
    then show ?thesis using "1.prems" by simp
  qed
qed

lemma word_cuts_range: "c \<in> set (word_cuts t mx) \<Longrightarrow> 0 < c \<and> c \<le> length t"
  by (auto simp: word_cuts_def dest!: in_set_takeD)

lemma word_cuts_nth: "k < length (word_cuts t mx) \<Longrightarrow> 0 < word_cuts t mx ! k \<and> word_cuts t mx ! k \<le> length t"
  using word_cuts_range nth_mem by blast

text \<open>What a split gives: the children before the cut, and a part of the child it falls in.\<close>

definition cut_ok :: "node list \<Rightarrow> nat \<times> nat \<Rightarrow> bool" where
  "cut_ok ks mc \<longleftrightarrow>
     fst mc < length ks \<and>
     (case text_of (ks ! fst mc) of Some t \<Rightarrow> snd mc \<le> length t | None \<Rightarrow> snd mc = 0)"

lemma fitting_kids_bounds:
  "fitting_kids cur blk title limit base \<le> length (node_kids blk)"
  "0 < k \<Longrightarrow> k \<le> fitting_kids cur blk title limit base \<Longrightarrow>
   page_size_with title cur (prefix_of blk k None 0) base \<le> limit"
  using kids_that_fit_bounds [of 0 "length (node_kids blk)"
      "\<lambda>k. page_size_with title cur (prefix_of blk k None 0) base \<le> limit"]
  unfolding fitting_kids_def by simp_all

lemma text_cut_fits:
  "text_cut cur blk m t title limit base = 0 \<or>
   text_cut cur blk m t title limit base \<le> length t
   \<and> page_size_with title cur (prefix_of blk m (Some t) (text_cut cur blk m t title limit base)) base \<le> limit"
proof -
  let ?cuts = "word_cuts t MAX_WORDS"
  let ?fits = "\<lambda>k. page_size_with title cur (prefix_of blk m (Some t) (?cuts ! (k - 1))) base \<le> limit"
  let ?lo = "words_that_fit ?fits 0 (length ?cuts)"
  have b: "?lo \<le> length ?cuts" "?lo = 0 \<or> ?fits ?lo"
    using words_that_fit_bounds [of 0 "length ?cuts" ?fits] by blast+
  have e: "text_cut cur blk m t title limit base = (if ?lo > 0 then ?cuts ! (?lo - 1) else 0)"
    by (simp add: text_cut_def Let_def)
  show ?thesis
  proof (cases "?lo = 0")
    case False
    then have "text_cut cur blk m t title limit base = ?cuts ! (?lo - 1)" "?fits ?lo"
      using e b(2) by simp_all
    moreover have "?cuts ! (?lo - 1) \<le> length t"
      using word_cuts_nth [of "?lo - 1" t MAX_WORDS] b(1) False by linarith
    ultimately show ?thesis by simp
  qed (use e in simp)
qed

lemma split_cut_ok:
  assumes "fst (split_cut cur blk title limit base) \<noteq> length (node_kids blk)"
  shows "cut_ok (node_kids blk) (split_cut cur blk title limit base)"
proof -
  let ?m = "fitting_kids cur blk title limit base"
  have m: "?m < length (node_kids blk)"
    using assms fitting_kids_bounds(1) [of cur blk title limit base] by (simp add: split_cut_def Let_def)
  have "text_cut cur blk ?m t title limit base \<le> length t" for t
    using text_cut_fits [of cur blk ?m t title limit base] by auto
  then show ?thesis using m by (auto simp: cut_ok_def split_cut_def Let_def split: option.splits)
qed

lemma tidy_seam_ok: "cut_ok ks mc \<Longrightarrow> cut_ok ks (tidy_seam ks mc)"
  by (cases mc) (auto simp: tidy_seam_def cut_ok_def split: option.splits)

lemma split_to_fit_cases:
  assumes "split_to_fit cur blk title limit base = Some (head, rest)"
  obtains name avs ks mc where "blk = Elem name avs ks" "mc = tidy_seam ks (split_cut cur blk title limit base)"
    "cut_ok ks (split_cut cur blk title limit base)" "cut_ok ks mc" "0 < fst mc \<or> 0 < snd mc"
    "split_at blk mc = (head, rest)"
proof -
  obtain name avs ks where b: "blk = Elem name avs ks" using assms by (cases blk) (auto simp: split_to_fit_def)
  let ?sc = "split_cut cur blk title limit base"
  have "fst ?sc \<noteq> length ks" and mc: "fst (tidy_seam ks ?sc) \<noteq> 0 \<or> snd (tidy_seam ks ?sc) \<noteq> 0"
    "split_at blk (tidy_seam ks ?sc) = (head, rest)"
    using assms b by (auto simp: split_to_fit_def Let_def split: if_splits)
  then have "cut_ok ks ?sc" using split_cut_ok [of cur blk] b by simp
  then show ?thesis using that [OF b refl _ tidy_seam_ok] mc by simp
qed

lemma split_rest_smaller:
  assumes "split_to_fit cur blk title limit base = Some (head, Some r)"
  shows "node_weight r < node_weight blk"
  using assms
proof (rule split_to_fit_cases)
  fix name avs ks mc
  assume b: "blk = Elem name avs ks" and ok: "cut_ok ks mc" and pos: "0 < fst mc \<or> 0 < snd mc"
    and sp: "split_at blk mc = (head, Some r)"
  obtain m c where mc: "mc = (m, c)" by (cases mc)
  have m: "m < length ks" using ok mc by (simp add: cut_ok_def)
  have ks: "drop m ks = ks ! m # drop (Suc m) ks" using m by (simp add: Cons_nth_drop_Suc)
  have w: "m + (node_weight (ks ! m) + sum_list (map node_weight (drop (Suc m) ks))) \<le> sum_list (map node_weight ks)"
    using take_weight [of m ks] m ks by simp
  show ?thesis
  proof (cases "text_of (ks ! m)")
    case None
    then have "c = 0" "node_weight r = Suc (sum_list (map node_weight (drop m ks)))"
      using sp ok b mc by (auto simp: split_at_def cut_ok_def wrapper_like_def Let_def split: if_splits)
    then show ?thesis using w pos b mc ks by simp
  next
    case (Some t)
    then have t: "ks ! m = Text t" by (cases "ks ! m") (auto simp: text_of_def)
    let ?a = "skip_leading_separators (drop c t)"
    have c: "c \<le> length t" using ok mc Some by (simp add: cut_ok_def)
    have a: "length ?a \<le> length t - c" using skip_leading_separators_length [of "drop c t"] by simp
    have r: "node_weight r = Suc ((if ?a \<noteq> [] then Suc (length ?a) else 0) + sum_list (map node_weight (drop (Suc m) ks)))"
      using sp b mc Some by (auto simp: split_at_def wrapper_like_def Let_def split: if_splits)
    have "0 < m \<or> 0 < c" using pos mc by simp
    then have "(if ?a \<noteq> [] then Suc (length ?a) else 0) < m + Suc (length t)" using a c by auto
    then show ?thesis using w r b t by simp
  qed
qed

text \<open>The loop that fills pages. The current page is emptied or the queue gets lighter.\<close>

definition MIN_SPLIT_HEAD_BYTES :: int where "MIN_SPLIT_HEAD_BYTES = 24"

definition worth_splitting :: "node list \<Rightarrow> node \<Rightarrow> string \<Rightarrow> string \<Rightarrow> bool" where
  "worth_splitting cur head title base \<longleftrightarrow>
     cur = [] \<or> \<not> (int (page_size_with title cur head base) - int (card_size title cur [] base)) mod 2 ^ 64
               < MIN_SPLIT_HEAD_BYTES"

function pack :: "string \<Rightarrow> nat \<Rightarrow> string \<Rightarrow> node list \<Rightarrow> node list \<Rightarrow> node list list \<Rightarrow> node list list" where
  "pack title limit base [] cur pages = (if cur \<noteq> [] \<or> pages = [] then pages @ [cur] else pages)"
| "pack title limit base (blk # q) cur pages =
     (if page_size_with title cur blk base \<le> limit then pack title limit base q (cur @ [blk]) pages
      else
        case (case split_to_fit cur blk title limit base of
                Some (head, rest) \<Rightarrow> if worth_splitting cur head title base then Some (head, rest) else None
              | None \<Rightarrow> None) of
          Some (head, Some r) \<Rightarrow> pack title limit base (r # q) [] (pages @ [cur @ [head]])
        | Some (head, None) \<Rightarrow> pack title limit base q [] (pages @ [cur @ [head]])
        | None \<Rightarrow>
            if cur = [] then pack title limit base q [] (pages @ [[blk]])
            else pack title limit base (blk # q) [] (pages @ [cur]))"
  by pat_completeness auto

termination pack
  by (relation "measures [\<lambda>(title, limit, base, q, cur, pages). sum_list (map node_weight q),
          \<lambda>(title, limit, base, q, cur, pages). length cur]")
     (auto simp: node_weight_pos split: option.splits if_splits dest: split_rest_smaller)

declare pack.simps(2) [simp del]

text \<open>
  A paginated card: its pages, the one asked for, its title and navigation, and the prefix of
  absolute links. \<open>None\<close> only stands for the undefined read of \<open>drop_page\<close>.
\<close>

record paged =
  pg_pages :: "node list list"
  pg_page :: nat
  pg_base :: string
  pg_nav :: "node list"
  pg_title :: string

definition reference_base :: string where "reference_base = ''http://000.000.000.000:00''"

definition card_of :: "string \<Rightarrow> node" where
  "card_of src = (case find_card (parse_wml src) of Some c \<Rightarrow> c | None \<Rightarrow> parse_wml src)"

definition base_title_of :: "node \<Rightarrow> string" where
  "base_title_of crd = utf8_truncate (case node_attr (node_attrs crd) ''title'' of Some t \<Rightarrow> t | None \<Rightarrow> []) 30 48"

definition measure_base :: "string \<Rightarrow> string" where
  "measure_base base = (if length base > length reference_base then base else reference_base)"

definition uri_path_of :: "string \<Rightarrow> string" where
  "uri_path_of uri =
     (case strstr uri ''://'' of
        None \<Rightarrow> uri
      | Some k \<Rightarrow> (case strchr (drop (k + 3) uri) (CHR ''/'') of Some j \<Rightarrow> drop (k + 3 + j) uri | None \<Rightarrow> ''/''))"

definition queue_of :: "node \<Rightarrow> node list" where
  "queue_of crd = filter (\<lambda>k. node_name k \<noteq> None) (node_kids crd)"

definition nav_cost_of :: "string \<Rightarrow> string \<Rightarrow> string \<Rightarrow> string \<Rightarrow> int" where
  "nav_cost_of title prev_href next_href basep =
     (int (card_size title [] [nav_link ''<< Prev'' prev_href, nav_link ''Next >>'' next_href] basep)
       - int (card_size title [] [] basep) + 3) mod 2 ^ 64"

definition limit_of :: "nat \<Rightarrow> int \<Rightarrow> nat" where
  "limit_of page_bytes nav_cost = (if int page_bytes > (nav_cost + 128) mod 2 ^ 64 then nat (int page_bytes - nav_cost) else 128)"

definition page_nav :: "string \<Rightarrow> nat \<Rightarrow> nat \<Rightarrow> node list option" where
  "page_nav uri pages page =
     do {
       prev \<leftarrow> (if page > 0 then map_option (\<lambda>h. [nav_link ''<< Prev'' h]) (wbxml_set_page_param uri (int page - 1) 1100)
                else Some []);
       nxt \<leftarrow> (if Suc page < pages then map_option (\<lambda>h. [nav_link ''Next >>'' h]) (wbxml_set_page_param uri (int page + 1) 1100)
               else Some []);
       Some (prev @ nxt)
     }"

definition clamp_page :: "int \<Rightarrow> nat \<Rightarrow> nat" where
  "clamp_page page pages = (if page < 0 then 0 else if page \<ge> int pages then pages - 1 else nat page)"

definition page_title_of :: "string \<Rightarrow> nat \<Rightarrow> nat \<Rightarrow> string" where
  "page_title_of base_title page pages =
     fit 96 (if pages > 1
             then base_title @ '' ('' @ show_nat (page + 1) @ ''/'' @ show_nat pages @ '')'' else base_title)"

definition paged_build :: "string \<Rightarrow> string \<Rightarrow> bool \<Rightarrow> int \<Rightarrow> nat \<Rightarrow> paged option" where
  "paged_build src uri absolute_links page page_bytes =
     do {
       let base = (if absolute_links then uri_base uri 512 else []);
       let basep = measure_base base;
       let crd = card_of src;
       let base_title = base_title_of crd;
       let title = fit 64 (base_title @ '' (99/99)'');
       prev_href \<leftarrow> wbxml_set_page_param (uri_path_of uri) 98 1100;
       next_href \<leftarrow> wbxml_set_page_param (uri_path_of uri) 99 1100;
       let limit = limit_of page_bytes (nav_cost_of title prev_href next_href basep);
       let queue = queue_of crd;
       if card_size base_title queue [] basep \<le> page_bytes
       then Some \<lparr>pg_pages = [queue], pg_page = 0, pg_base = base, pg_nav = [], pg_title = fit 96 base_title\<rparr>
       else do {
         let pages = pack title limit basep queue [] [];
         let pg = clamp_page page (length pages);
         nav \<leftarrow> page_nav uri (length pages) pg;
         Some \<lparr>pg_pages = pages, pg_page = pg, pg_base = base, pg_nav = nav,
               pg_title = page_title_of base_title pg (length pages)\<rparr>
       }
     }"

definition wbxml_compile_page :: "string \<Rightarrow> bool \<Rightarrow> string \<Rightarrow> int \<Rightarrow> nat \<Rightarrow> string option" where
  "wbxml_compile_page wml latin1 uri page page_bytes =
     do {
       let src = cstr (if latin1 then latin1_to_utf8 wml else wml);
       pg \<leftarrow> paged_build src uri True page page_bytes;
       Some (compile_card (pg_title pg) (pg_pages pg ! pg_page pg) (pg_nav pg) (pg_base pg))
     }"

subsection \<open>WML text\<close>

fun ser_escape :: "bool \<Rightarrow> string \<Rightarrow> string" where
  "ser_escape attr [] = []"
| "ser_escape attr (c # s) =
     (if c = CHR ''&'' then ''&amp;''
      else if c = CHR ''<'' then ''&lt;''
      else if c = CHR ''>'' then ''&gt;''
      else if c = DQ \<and> attr then ''&quot;''
      else [c]) @ ser_escape attr s"

definition ser_attr :: "string \<times> string \<Rightarrow> string" where
  "ser_attr av = CHR '' '' # fst av @ CHR ''='' # DQ # ser_escape True (snd av) @ [DQ]"

fun ser_node :: "node \<Rightarrow> string" where
  "ser_node (Text t) = ser_escape False t"
| "ser_node (Elem name avs ks) =
     ''<'' @ name @ concat (map ser_attr avs)
       @ (if ks = [] then ''/>'' else ''>'' @ concat (map ser_node ks) @ ''</'' @ name @ ''>'')"

definition wml_head :: "string \<Rightarrow> string" where
  "wml_head xml_encoding =
     ''<?xml version='' @ DQ # ''1.0'' @ DQ # '' encoding='' @ DQ # xml_encoding @ DQ # ''?>'' @ LF
       # ''<!DOCTYPE wml PUBLIC '' @ DQ # ''-//WAPFORUM//DTD WML 1.1//EN'' @ DQ # '' ''
       @ DQ # ''http://www.wapforum.org/DTD/wml_1.1.xml'' @ DQ # ''>'' @ LF # ''<wml>'' @ LF
       # ''<card id='' @ DQ # ''p'' @ [DQ]"

text \<open>\<open>wml_paginate\<close>: \<open>Some None\<close> when the card fits one page and nothing is written.\<close>

definition wml_paginate :: "string \<Rightarrow> bool \<Rightarrow> string \<Rightarrow> int \<Rightarrow> nat \<Rightarrow> string \<Rightarrow> string option option" where
  "wml_paginate wml latin1 uri page page_bytes xml_encoding =
     do {
       let src = cstr (if latin1 then latin1_to_utf8 wml else wml);
       pg \<leftarrow> paged_build src uri False page page_bytes;
       Some (if length (pg_pages pg) \<le> 1 then None
             else Some (wml_head xml_encoding @ ser_attr (''title'', pg_title pg) @ ''>'' @ LF
                    # concat (map (\<lambda>n. ser_node n @ [LF]) (pg_pages pg ! pg_page pg @ pg_nav pg))
                    @ ''</card>'' @ LF # ''</wml>'' @ [LF]))
     }"

definition wbxml_message_card :: "string \<Rightarrow> string \<Rightarrow> string" where
  "wbxml_message_card title t = compile_card title [Elem ''p'' [] [Text t]] [] []"

subsection \<open>No word is lost\<close>

text \<open>The text of a tree, and its characters other than spaces and separators.\<close>

fun node_text :: "node \<Rightarrow> string" where
  "node_text (Text t) = t"
| "node_text (Elem name avs ks) = concat (map node_text ks)"

definition solid :: "string \<Rightarrow> string" where
  "solid s = filter (\<lambda>c. c \<noteq> CHR '' '' \<and> \<not> is_sep c) s"

definition words_of :: "node list \<Rightarrow> string" where
  "words_of ns = solid (concat (map node_text ns))"

lemma solid_append: "solid (a @ b) = solid a @ solid b"
  by (simp add: solid_def)

lemma words_of_append [simp]: "words_of (a @ b) = words_of a @ words_of b"
  by (simp add: words_of_def solid_append)

lemma words_of_Nil [simp]: "words_of [] = []"
  by (simp add: words_of_def solid_def)

lemma words_of_Cons: "words_of (n # ns) = solid (node_text n) @ words_of ns"
  by (simp add: words_of_def solid_append)

lemma words_of_Elem: "solid (node_text (Elem name avs ks)) = words_of ks"
  by (simp add: words_of_def)

lemma solid_skip: "solid (skip_leading_separators s) = solid s"
proof (induction s rule: skip_leading_separators.induct)
  case (1 s)
  let ?t = "dropWhile (\<lambda>c. c = CHR '' '') s" and ?w = "takeWhile (\<lambda>c. c \<noteq> CHR '' '') (dropWhile (\<lambda>c. c = CHR '' '') s)"
  have "solid (takeWhile (\<lambda>c. c = CHR '' '') s) = []"
    by (auto simp: solid_def filter_empty_conv dest: set_takeWhileD)
  then have t: "solid ?t = solid s"
    by (metis append_Nil solid_append takeWhile_dropWhile_id)
  show ?case
  proof (cases "?w = [] \<or> has_alnum ?w \<or> length (takeWhile is_sep ?t) \<noteq> length ?w")
    case True
    then have "skip_leading_separators s = ?t" by (subst skip_leading_separators.simps) (simp only: Let_def if_True)
    then show ?thesis using t by simp
  next
    case False
    then have e: "skip_leading_separators s = skip_leading_separators (drop (length ?w) ?t)"
      by (subst skip_leading_separators.simps) (simp only: Let_def if_False)
    have "take (length ?w) ?t = takeWhile is_sep ?t"
      using False by (metis takeWhile_eq_take)
    then have "solid (take (length ?w) ?t) = []"
      by (auto simp: solid_def filter_empty_conv dest: set_takeWhileD)
    then have "solid (drop (length ?w) ?t) = solid ?t"
      by (metis append_Nil append_take_drop_id solid_append)
    then show ?thesis using "1.IH" [OF refl refl False] t e by simp
  qed
qed

lemma split_at_words:
  assumes "split_at blk mc = (head, rest)" "cut_ok (node_kids blk) mc" "node_name blk \<noteq> None"
  shows "words_of [head] @ words_of (case rest of Some r \<Rightarrow> [r] | None \<Rightarrow> []) = words_of [blk]"
proof -
  obtain m c where mc: "mc = (m, c)" by (cases mc)
  obtain name avs ks where b: "blk = Elem name avs ks" using assms(3) by (cases blk) auto
  have m: "m < length ks" using assms(2) mc b by (simp add: cut_ok_def)
  have w: "words_of ks = words_of (take m ks) @ solid (node_text (ks ! m)) @ words_of (drop (Suc m) ks)"
    using id_take_nth_drop [OF m] by (metis words_of_Cons words_of_append)
  show ?thesis
  proof (cases "text_of (ks ! m)")
    case None
    then have "c = 0" using assms(2) mc b by (simp add: cut_ok_def)
    then show ?thesis
      using assms(1) b mc None w m
      by (auto simp: split_at_def prefix_of_def wrapper_like_def Let_def words_of_Elem words_of_Cons
          Cons_nth_drop_Suc [symmetric] words_of_def solid_append split: if_splits)
  next
    case (Some t)
    then have t: "ks ! m = Text t" by (cases "ks ! m") (auto simp: text_of_def)
    have "solid (take c t) @ solid (skip_leading_separators (drop c t)) = solid t"
      by (metis append_take_drop_id solid_append solid_skip)
    moreover have "solid [] = []" by (simp add: solid_def)
    ultimately show ?thesis
      using assms(1) b mc Some t w
      by (auto simp: split_at_def prefix_of_def wrapper_like_def Let_def words_of_def solid_append split: if_splits)
  qed
qed

lemma split_to_fit_words:
  assumes "split_to_fit cur blk title limit base = Some (head, rest)"
  shows "words_of [head] @ words_of (case rest of Some r \<Rightarrow> [r] | None \<Rightarrow> []) = words_of [blk]"
  using assms by (rule split_to_fit_cases) (auto intro: split_at_words)

text \<open>The four ways a step of the packing loop goes, for the inductions over it.\<close>

lemma pack_step:
  obtains (fits) "page_size_with title cur blk base \<le> limit"
      "pack title limit base (blk # q) cur pages = pack title limit base q (cur @ [blk]) pages"
  | (split) head rest where "split_to_fit cur blk title limit base = Some (head, rest)"
      "\<not> page_size_with title cur blk base \<le> limit"
      "pack title limit base (blk # q) cur pages =
         pack title limit base ((case rest of Some r \<Rightarrow> [r] | None \<Rightarrow> []) @ q) [] (pages @ [cur @ [head]])"
  | (whole) "cur = []" "\<not> page_size_with title cur blk base \<le> limit" "split_to_fit [] blk title limit base = None"
      "pack title limit base (blk # q) cur pages = pack title limit base q [] (pages @ [[blk]])"
  | (flush) "cur \<noteq> []" "\<not> page_size_with title cur blk base \<le> limit"
      "pack title limit base (blk # q) cur pages = pack title limit base (blk # q) [] (pages @ [cur])"
proof (cases "page_size_with title cur blk base \<le> limit")
  case True
  then show ?thesis using that(1) by (simp add: pack.simps(2) [of title limit base blk q cur pages])
next
  case no: False
  show ?thesis
  proof (cases "split_to_fit cur blk title limit base")
    case None
    show ?thesis
    proof (cases "cur = []")
      case True
      have "pack title limit base (blk # q) cur pages = pack title limit base q [] (pages @ [[blk]])"
        using no None unfolding True by (simp add: pack.simps(2) [of title limit base blk q "[]" pages])
      then show ?thesis using that(3) no None True by simp
    next
      case False
      then show ?thesis using no None that(4) by (simp add: pack.simps(2) [of title limit base blk q cur pages])
    qed
  next
    case (Some hr)
    obtain head rest where hr: "hr = (head, rest)" by (cases hr)
    show ?thesis
    proof (cases "worth_splitting cur head title base")
      case True
      then show ?thesis
        using no Some hr that(2) [of head rest]
        by (cases rest) (simp_all add: pack.simps(2) [of title limit base blk q cur pages])
    next
      case False
      then show ?thesis
        using no Some hr that(4)
        by (simp add: pack.simps(2) [of title limit base blk q cur pages] worth_splitting_def)
    qed
  qed
qed

definition pack_work :: "node list \<Rightarrow> node list \<Rightarrow> nat" where
  "pack_work q cur = 2 * sum_list (map node_weight q) + (if cur = [] then 0 else 1)"

lemma split_work:
  "split_to_fit cur blk title limit base = Some (head, rest) \<Longrightarrow>
   sum_list (map node_weight (case rest of Some r \<Rightarrow> [r] | None \<Rightarrow> [])) < node_weight blk"
  by (cases rest) (auto simp: node_weight_pos intro: split_rest_smaller)

lemma pack_induct [case_names Nil fits split whole flush]:
  assumes "\<And>cur pages. P [] cur pages"
    and "\<And>blk q cur pages. page_size_with title cur blk base \<le> limit \<Longrightarrow> P q (cur @ [blk]) pages \<Longrightarrow>
           pack title limit base (blk # q) cur pages = pack title limit base q (cur @ [blk]) pages \<Longrightarrow>
           P (blk # q) cur pages"
    and "\<And>blk q cur pages head rest. split_to_fit cur blk title limit base = Some (head, rest) \<Longrightarrow>
           P ((case rest of Some r \<Rightarrow> [r] | None \<Rightarrow> []) @ q) [] (pages @ [cur @ [head]]) \<Longrightarrow>
           pack title limit base (blk # q) cur pages =
             pack title limit base ((case rest of Some r \<Rightarrow> [r] | None \<Rightarrow> []) @ q) [] (pages @ [cur @ [head]]) \<Longrightarrow>
           P (blk # q) cur pages"
    and "\<And>blk q pages. split_to_fit [] blk title limit base = None \<Longrightarrow> P q [] (pages @ [[blk]]) \<Longrightarrow>
           pack title limit base (blk # q) [] pages = pack title limit base q [] (pages @ [[blk]]) \<Longrightarrow>
           P (blk # q) [] pages"
    and "\<And>blk q cur pages. cur \<noteq> [] \<Longrightarrow> P (blk # q) [] (pages @ [cur]) \<Longrightarrow>
           pack title limit base (blk # q) cur pages = pack title limit base (blk # q) [] (pages @ [cur]) \<Longrightarrow>
           P (blk # q) cur pages"
  shows "P q cur pages"
proof (induction "pack_work q cur" arbitrary: q cur pages rule: less_induct)
  case (less q cur pages)
  show ?case
  proof (cases q)
    case Nil
    then show ?thesis using assms(1) by simp
  next
    case (Cons blk q')
    show ?thesis
    proof (rule pack_step [where title = title and cur = cur and blk = blk and base = base and limit = limit
          and q = q' and pages = pages])
      assume a: "page_size_with title cur blk base \<le> limit"
        "pack title limit base (blk # q') cur pages = pack title limit base q' (cur @ [blk]) pages"
      have "P q' (cur @ [blk]) pages"
        using less Cons node_weight_pos [of blk] by (simp add: pack_work_def)
      then show ?thesis using assms(2) a Cons by blast
    next
      fix head rest
      assume a: "split_to_fit cur blk title limit base = Some (head, rest)"
        "pack title limit base (blk # q') cur pages =
           pack title limit base ((case rest of Some r \<Rightarrow> [r] | None \<Rightarrow> []) @ q') [] (pages @ [cur @ [head]])"
      have "P ((case rest of Some r \<Rightarrow> [r] | None \<Rightarrow> []) @ q') [] (pages @ [cur @ [head]])"
        using less Cons split_work [OF a(1)] by (simp add: pack_work_def)
      then show ?thesis using assms(3) [OF a(1)] a(2) Cons by blast
    next
      assume a: "cur = []" "split_to_fit [] blk title limit base = None"
        "pack title limit base (blk # q') cur pages = pack title limit base q' [] (pages @ [[blk]])"
      have "P q' [] (pages @ [[blk]])"
        using less Cons node_weight_pos [of blk] by (simp add: pack_work_def)
      then show ?thesis using assms(4) [OF a(2)] a(1,3) Cons by blast
    next
      assume a: "cur \<noteq> []"
        "pack title limit base (blk # q') cur pages = pack title limit base (blk # q') [] (pages @ [cur])"
      have "P (blk # q') [] (pages @ [cur])"
        using less Cons a(1) by (simp add: pack_work_def)
      then show ?thesis using assms(5) [OF a(1)] a(2) Cons by blast
    qed
  qed
qed

lemma pack_words: "words_of (concat (pack title limit base q cur pages)) = words_of (concat pages @ cur @ q)"
proof (induction q cur pages rule: pack_induct [where title = title and limit = limit and base = base])
  case (split blk q cur pages head rest)
  then show ?case using split_to_fit_words [OF split(1)] by (simp add: words_of_Cons)
qed (simp_all add: words_of_Cons)

text \<open>
  Pagination loses no word. The letters, digits and other characters of the text, spaces and
  bare separators aside, appear on the pages in the order they have in the card: none is
  dropped at a seam, none is shown twice.
\<close>

theorem pack_keeps_words:
  "words_of (concat (pack title limit base q [] [])) = words_of q"
  using pack_words [of title limit base q "[]" "[]"] by simp

lemma pack_length: "length (pack title limit base q cur pages) \<le> length pages + pack_work q cur + 1"
proof (induction q cur pages rule: pack_induct [where title = title and limit = limit and base = base])
  case (fits blk q cur pages)
  then show ?case using node_weight_pos [of blk] by (simp add: pack_work_def split: if_splits)
next
  case (split blk q cur pages head rest)
  then show ?case using split_work [OF split(1)] by (simp add: pack_work_def split: if_splits)
next
  case (whole blk q pages)
  then show ?case using node_weight_pos [of blk] by (simp add: pack_work_def)
qed (simp_all add: pack_work_def)

lemma pack_not_Nil: "pack title limit base q cur pages \<noteq> []"
  by (induction q cur pages rule: pack_induct [where title = title and limit = limit and base = base]) simp_all

text \<open>
  Pagination ends. The loop, which puts the rest of a split block back at the head of its
  queue, makes progress every time and gives at most two pages for each character and tag of
  the card, plus one, however small the page and whatever cannot be split.
\<close>

theorem pack_terminates:
  "length (pack title limit base q [] []) \<le> 2 * sum_list (map node_weight q) + 1 \<and> pack title limit base q [] [] \<noteq> []"
  using pack_length [of title limit base q "[]" "[]"] pack_not_Nil by (simp add: pack_work_def)

subsection \<open>No page is too big\<close>

text \<open>Text without variable references compiles to its length and two bytes more.\<close>

lemma put_loop_plain: "CHR ''$'' \<notin> set s \<Longrightarrow> put_loop run s = put_literal (run @ s)"
  by (induction s arbitrary: run) (auto simp: put_loop.simps(2))

lemma put_str_plain_length: "CHR ''$'' \<notin> set s \<Longrightarrow> length (put_str s) = length s + 2"
  by (simp add: put_str_def put_loop_plain put_literal_def)

lemma put_str_not_Nil: "put_str s \<noteq> []"
proof -
  have "run \<noteq> [] \<Longrightarrow> put_loop run t \<noteq> []" for run t
    by (induction run t rule: put_loop.induct)
       (auto simp: put_loop.simps(2) put_literal_def split: option.split)
  moreover have "t \<noteq> [] \<Longrightarrow> put_loop [] t \<noteq> []" for t
    using calculation by (cases t) (auto simp: put_loop.simps(2) put_literal_def split: option.split)
  ultimately show ?thesis by (simp add: put_str_def)
qed

definition body_length :: "string \<Rightarrow> node list \<Rightarrow> nat" where
  "body_length base ns = length (concat (map (compile_node base) ns))"

text \<open>The bytes of a card around its body: the empty card carries a filler of three bytes.\<close>

definition card_frame :: "string \<Rightarrow> nat" where
  "card_frame title = 7 + length (put_str ''p'') + 1 + length (put_str title) + 3"

lemma body_length_append [simp]: "body_length base (a @ b) = body_length base a + body_length base b"
  by (simp add: body_length_def)

lemma body_length_Nil [simp]: "body_length base [] = 0"
  by (simp add: body_length_def)

lemma body_length_Cons: "body_length base (n # ns) = length (compile_node base n) + body_length base ns"
  by (simp add: body_length_def)

lemma card_size_body:
  "card_size title blocks nav base =
     card_frame title + (if body_length base (blocks @ nav) = 0 then 3 else body_length base (blocks @ nav))"
proof -
  have "length (put_str '' '') = 3" by (simp add: put_str_plain_length)
  then show ?thesis
    unfolding card_size_def compile_card_def card_frame_def body_length_def Let_def
    by (auto simp del: length_concat)
qed

lemma elem_body_length:
  "body_length base ks \<le> body_length base ks' \<Longrightarrow> (body_length base ks = 0 \<longleftrightarrow> body_length base ks' = 0) \<Longrightarrow>
   length (compile_node base (Elem name avs ks)) \<le> length (compile_node base (Elem name avs ks'))
   \<and> (body_length base ks \<noteq> 0 \<longrightarrow> compile_node base (Elem name avs ks) \<noteq> [])"
  by (auto simp: body_length_def put_elem_def simp del: length_concat split: option.split)

lemma text_prefix_fits:
  assumes "CHR ''$'' \<notin> set t"
    and "card_size title (cur @ [Elem name avs (ks @ [Text t])]) [] base \<le> limit"
  shows "card_size title (cur @ [Elem name avs (ks @ [Text (take k t)])]) [] base \<le> limit"
proof -
  have d: "CHR ''$'' \<notin> set (take k t)" using assms(1) by (auto dest: in_set_takeD)
  have le: "body_length base (ks @ [Text (take k t)]) \<le> body_length base (ks @ [Text t])"
    and nz: "body_length base (ks @ [Text (take k t)]) \<noteq> 0" "body_length base (ks @ [Text t]) \<noteq> 0"
    using put_str_plain_length [OF assms(1)] put_str_plain_length [OF d] by (simp_all add: body_length_Cons)
  have iff: "(body_length base (ks @ [Text (take k t)]) = 0) = (body_length base (ks @ [Text t]) = 0)"
    using nz by blast
  have "length (compile_node base (Elem name avs (ks @ [Text (take k t)])))
      \<le> length (compile_node base (Elem name avs (ks @ [Text t])))"
    "compile_node base (Elem name avs (ks @ [Text (take k t)])) \<noteq> []"
    using elem_body_length [OF le iff, of name avs] nz(1) by blast+
  then show ?thesis using assms(2) by (simp add: card_size_body body_length_Cons split: if_splits)
qed

definition plain_block :: "node \<Rightarrow> bool" where
  "plain_block blk \<longleftrightarrow> (\<forall>t. Text t \<in> set (node_kids blk) \<longrightarrow> CHR ''$'' \<notin> set t)"

lemma text_of_Some: "text_of n = Some t \<longleftrightarrow> n = Text t"
  by (cases n) (auto simp: text_of_def)

lemma split_at_head: "fst (split_at blk (m, c)) = prefix_of blk m (text_of (node_kids blk ! m)) c"
  by (simp add: split_at_def Let_def)

lemma prefix_of_none: "prefix_of blk m t 0 = prefix_of blk m None 0"
  by (cases t) (simp_all add: prefix_of_def)

lemma split_head_fits:
  assumes "split_to_fit cur blk title limit base = Some (head, rest)" "plain_block blk"
  shows "page_size_with title cur head base \<le> limit"
  using assms(1)
proof (rule split_to_fit_cases)
  fix name avs ks mc
  let ?sc = "split_cut cur blk title limit base"
  assume b: "blk = Elem name avs ks" and mc: "mc = tidy_seam ks ?sc" and ok: "cut_ok ks ?sc"
    and pos: "0 < fst mc \<or> 0 < snd mc" and sp: "split_at blk mc = (head, rest)"
  obtain m c where sc: "?sc = (m, c)" by (cases ?sc)
  have m: "m = fitting_kids cur blk title limit base" "m < length ks"
    using sc ok b by (auto simp: split_cut_def Let_def cut_ok_def)
  have kids: "page_size_with title cur (prefix_of blk k t 0) base \<le> limit" if "0 < k" "k \<le> m" for k t
    using fitting_kids_bounds(2) that m(1) prefix_of_none by metis
  show ?thesis
  proof (cases "mc = (m, c)")
    case True
    then have h: "head = prefix_of blk m (text_of (ks ! m)) c" using sp split_at_head [of blk m c] b by simp
    show ?thesis
    proof (cases "c = 0")
      case True
      then show ?thesis using h kids [of m] pos \<open>mc = (m, c)\<close> by simp
    next
      case False
      then obtain t where t: "text_of (ks ! m) = Some t" using ok sc by (auto simp: cut_ok_def split: option.splits)
      then have "c = text_cut cur blk m t title limit base"
        using sc m b by (auto simp: split_cut_def Let_def)
      then show ?thesis using text_cut_fits [of cur blk m t title limit base] False h t by simp
    qed
  next
    case False
    then obtain t where t: "0 < m" "ks ! (m - 1) = Text t" "mc = (m - 1, trim_dangling_tail t)"
      using mc sc by (auto simp: tidy_seam_def text_of_Some split: if_splits option.splits)
    have h: "head = prefix_of blk (m - 1) (Some t) (trim_dangling_tail t)"
      using sp t split_at_head [of blk "m - 1" "trim_dangling_tail t"] b by (simp add: text_of_def)
    show ?thesis
    proof (cases "trim_dangling_tail t = 0")
      case True
      then show ?thesis using h kids [of "m - 1"] pos t by simp
    next
      case nz: False
      have "take m ks = take (m - 1) ks @ [Text t]"
        using t m(2) take_Suc_conv_app_nth [of "m - 1" ks] by simp
      then have "card_size title (cur @ [Elem name avs (take (m - 1) ks @ [Text t])]) [] base \<le> limit"
        using kids [of m None] t(1) b by (simp add: page_size_with_def prefix_of_def wrapper_like_def)
      moreover have "CHR ''$'' \<notin> set t"
        using assms(2) t m(2) b nth_mem [of "m - 1" ks] by (auto simp: plain_block_def)
      ultimately show ?thesis
        using text_prefix_fits h nz b by (simp add: page_size_with_def prefix_of_def wrapper_like_def)
    qed
  qed
qed

lemma set_skip: "set (skip_leading_separators s) \<subseteq> set s"
proof (induction s rule: skip_leading_separators.induct)
  case (1 s)
  let ?t = "dropWhile (\<lambda>c. c = CHR '' '') s" and ?w = "takeWhile (\<lambda>c. c \<noteq> CHR '' '') (dropWhile (\<lambda>c. c = CHR '' '') s)"
  have t: "set ?t \<subseteq> set s" by (auto dest: set_dropWhileD)
  show ?case
  proof (cases "?w = [] \<or> has_alnum ?w \<or> length (takeWhile is_sep ?t) \<noteq> length ?w")
    case True
    then have "skip_leading_separators s = ?t" by (subst skip_leading_separators.simps) (simp only: Let_def if_True)
    then show ?thesis using t by simp
  next
    case False
    then have "skip_leading_separators s = skip_leading_separators (drop (length ?w) ?t)"
      by (subst skip_leading_separators.simps) (simp only: Let_def if_False)
    then show ?thesis using "1.IH" [OF refl refl False] t set_drop_subset [of "length ?w" ?t] by auto
  qed
qed

lemma split_rest_plain:
  assumes "split_to_fit cur blk title limit base = Some (head, Some r)" "plain_block blk"
  shows "plain_block r"
  using assms(1)
proof (rule split_to_fit_cases)
  fix name avs ks mc
  assume b: "blk = Elem name avs ks" and ok: "cut_ok ks mc" and sp: "split_at blk mc = (head, Some r)"
  obtain m c where mc: "mc = (m, c)" by (cases mc)
  have m: "m < length ks" using ok mc by (simp add: cut_ok_def)
  have pl: "CHR ''$'' \<notin> set t" if "Text t \<in> set ks" for t using assms(2) b that by (simp add: plain_block_def)
  show ?thesis
  proof (cases "text_of (ks ! m)")
    case None
    then have "node_kids r = drop m ks"
      using sp b mc by (auto simp: split_at_def wrapper_like_def Let_def split: if_splits)
    then show ?thesis using pl by (auto simp: plain_block_def dest: in_set_dropD)
  next
    case (Some t)
    then have "Text t \<in> set ks" using m nth_mem [of m ks] by (simp add: text_of_Some)
    then have "CHR ''$'' \<notin> set (skip_leading_separators (drop c t))"
      using pl set_skip [of "drop c t"] by (auto dest: in_set_dropD)
    moreover have "set (node_kids r) \<subseteq> insert (Text (skip_leading_separators (drop c t))) (set ks)"
      using sp b mc Some by (auto simp: split_at_def wrapper_like_def Let_def split: if_splits dest: in_set_dropD)
    ultimately show ?thesis using pl by (auto simp: plain_block_def)
  qed
qed

definition page_fits :: "string \<Rightarrow> nat \<Rightarrow> string \<Rightarrow> node list \<Rightarrow> bool" where
  "page_fits title limit base p \<longleftrightarrow>
     p = [] \<or> card_size title p [] base \<le> limit \<or> (\<exists>blk. p = [blk] \<and> split_to_fit [] blk title limit base = None)"

lemma pack_fits:
  "list_all plain_block q \<Longrightarrow> (cur = [] \<or> card_size title cur [] base \<le> limit) \<Longrightarrow>
   list_all (page_fits title limit base) pages \<Longrightarrow>
   list_all (page_fits title limit base) (pack title limit base q cur pages)"
proof (induction q cur pages rule: pack_induct [where title = title and limit = limit and base = base])
  case (Nil cur pages)
  then show ?case by (auto simp: page_fits_def)
next
  case (fits blk q cur pages)
  then show ?case by (simp add: page_size_with_def)
next
  case (split blk q cur pages head rest)
  have "page_fits title limit base (cur @ [head])"
    using split_head_fits [OF split(1)] split.prems(1) by (simp add: page_fits_def page_size_with_def)
  moreover have "list_all plain_block ((case rest of Some r \<Rightarrow> [r] | None \<Rightarrow> []) @ q)"
    using split_rest_plain split(1) split.prems(1) by (auto split: option.split)
  ultimately show ?case using split by simp
next
  case (whole blk q pages)
  then show ?case by (simp add: page_fits_def)
next
  case (flush blk q cur pages)
  then show ?case by (simp add: page_fits_def)
qed

text \<open>
  C31. No page is too big. Every page the packing loop makes compiles, with the longest title it
  can carry, to at most the limit, except a page that holds a single block which cannot be
  split even on a page of its own. (For text without variable references, whose compiled
  size does not grow when it is cut.)
\<close>

theorem pack_pages_fit:
  assumes "list_all plain_block q" "p \<in> set (pack title limit base q [] [])"
  shows "p = [] \<or> card_size title p [] base \<le> limit \<or> (\<exists>blk. p = [blk] \<and> split_to_fit [] blk title limit base = None)"
  using pack_fits [OF assms(1), of "[]" title base limit "[]"] assms(2)
  by (auto simp: list_all_iff page_fits_def)

theorem pack_pages_fit_witness:
  "hd (pack ''t'' 60 [] [Elem ''p'' [] [Text ''one two'']] [] []) = []
   \<or> card_size ''t'' (hd (pack ''t'' 60 [] [Elem ''p'' [] [Text ''one two'']] [] [])) [] [] \<le> 60
   \<or> (\<exists>blk. hd (pack ''t'' 60 [] [Elem ''p'' [] [Text ''one two'']] [] []) = [blk]
        \<and> split_to_fit [] blk ''t'' 60 [] = None)"
  using pack_pages_fit [of "[Elem ''p'' [] [Text ''one two'']]" _ "''t''" 60 "[]"] hd_in_set [OF pack_not_Nil]
  by (simp add: plain_block_def)

subsection \<open>Page numbers survive the link\<close>

lemma find_page_from_sep:
  assumes "strstr u page_key = None" "is_query_sep c"
  shows "find_page_from (u @ c # page_key @ t) 0 = Some (Suc (length u))"
proof -
  have "c \<notin> set page_key" using assms(2) by (auto simp: page_key_def is_query_sep_def)
  then have "strstr (drop 0 (u @ c # page_key @ t)) page_key = Some (Suc (length u))"
    using strstr_after_sep [OF assms(1)] by simp
  then show ?thesis using assms(2) by (simp add: find_page_from.simps [of _ 0])
qed

definition clean_uri :: "string \<Rightarrow> bool" where
  "clean_uri u \<longleftrightarrow> \<not> contains u page_key \<and> CHR ''#'' \<notin> set u \<and> length u \<le> 1000 \<and> (u \<noteq> [] \<longrightarrow> \<not> is_query_sep (last u))"

definition with_page :: "string \<Rightarrow> nat \<Rightarrow> string" where
  "with_page u p = (if p = 0 then u else u @ (if CHR ''?'' \<in> set u then CHR ''&'' else CHR ''?'') # page_key @ show_nat p)"

lemma with_page_query_sep: "is_query_sep (if b then CHR ''&'' else CHR ''?'')"
  by (simp add: is_query_sep_def)

lemma show_nat_no_hash: "CHR ''#'' \<notin> set (show_nat p)"
  using show_nat_digits [of "CHR ''#''" p] by (auto simp: ctype_defs)

lemma with_page_short: "clean_uri u \<Longrightarrow> p < 2147483648 \<Longrightarrow> length (with_page u p) \<le> 1018 \<and> CHR ''#'' \<notin> set (with_page u p)"
  using length_show_nat [of p 10] show_nat_no_hash [of p] by (auto simp: clean_uri_def with_page_def page_key_def)

lemma clean_strstr: "clean_uri u \<Longrightarrow> strstr u page_key = None"
  by (simp add: clean_uri_def contains_def)

lemma find_page_with:
  "clean_uri u \<Longrightarrow> 0 < p \<Longrightarrow> find_page_from (with_page u p) 0 = Some (Suc (length u))"
  using find_page_from_sep [OF clean_strstr with_page_query_sep, of u "CHR ''?'' \<in> set u" "show_nat p"]
  by (simp add: with_page_def)

lemma drop_page_with:
  assumes "clean_uri u" "p < 2147483648"
  shows "drop_page (with_page u p) = Some u"
proof (cases "p = 0")
  case True
  have "find_page_from u 0 = None" using clean_strstr [OF assms(1)] by (simp add: find_page_from.simps [of u 0])
  then show ?thesis using True by (simp add: drop_page_def with_page_def)
next
  case False
  have d: "dropWhile isdigit (show_nat p) = []" using show_nat_digits [of _ p] by simp
  have "strip_sep_end u = u" using assms(1) by (auto simp: strip_sep_end_def clean_uri_def)
  then show ?thesis
    using find_page_with [OF assms(1)] False
    by (simp add: d drop_page_def with_page_def Let_def page_key_def nth_append is_query_sep_def)
qed

lemma set_page_param_with:
  assumes "clean_uri u" "p < 2147483648" "q < 2147483648"
  shows "wbxml_set_page_param (with_page u p) (int q) 1100 = Some (with_page u q)"
proof -
  have "cut_hash (fit 1024 (with_page u p)) = with_page u p"
    using with_page_short [OF assms(1,2)] by (simp add: cut_hash_def fit_id takeWhile_eq_all_conv) (metis)
  then show ?thesis
    using drop_page_with [OF assms(1,2)] with_page_short [OF assms(1,3)]
    by (auto simp: wbxml_set_page_param_def fit_id with_page_def show_int_def clean_uri_def)
qed

lemma page_param_with: "clean_uri u \<Longrightarrow> p < 2147483648 \<Longrightarrow> wbxml_page_param (with_page u p) = int p"
proof (cases "p = 0")
  case True
  assume "clean_uri u"
  then have "find_page_from u 0 = None" using clean_strstr by (simp add: find_page_from.simps [of u 0])
  then show ?thesis using True by (simp add: wbxml_page_param_def with_page_def)
next
  case False
  assume "clean_uri u" "p < 2147483648"
  then show ?thesis
    using False find_page_with [of u p] atoi_show [of p] by (simp add: wbxml_page_param_def with_page_def page_key_def)
qed

text \<open>
  The page number of a link is the one the server reads. For a URI without a page parameter
  of its own, setting page \<open>p\<close>, then page \<open>q\<close> on the result, gives the same link as setting \<open>q\<close>
  at once; reading it gives \<open>q\<close>; and setting page 0 gives the URI back, whether it has a query
  or not.
\<close>

theorem page_param_roundtrip:
  assumes "clean_uri u" "p < 2147483648" "q < 2147483648"
  shows "wbxml_set_page_param u (int p) 1100 = Some (with_page u p)
       \<and> wbxml_set_page_param (with_page u p) (int q) 1100 = wbxml_set_page_param u (int q) 1100
       \<and> wbxml_page_param (with_page u q) = int q
       \<and> wbxml_set_page_param (with_page u p) 0 1100 = Some u"
proof -
  have "with_page u 0 = u" by (simp add: with_page_def)
  then show ?thesis
    using set_page_param_with [OF assms(1), of 0 p] set_page_param_with [OF assms] set_page_param_with [OF assms(1), of 0 q]
      set_page_param_with [OF assms(1,2), of 0] page_param_with [OF assms(1,3)] assms by simp
qed

theorem page_param_roundtrip_witness:
  "wbxml_set_page_param (with_page ''/a?b=1'' 2) 3 1100 = Some ''/a?b=1&__page=3''"
proof -
  have "clean_uri ''/a?b=1''"
    by (simp add: clean_uri_def contains_def page_key_def is_query_sep_def)
  moreover have "chr 51 = CHR ''3''" by (rule ord_inject [THEN iffD1]) simp
  ultimately show ?thesis
    using page_param_roundtrip [of "''/a?b=1''" 2 3] page_param_roundtrip [of "''/a?b=1''" 3 3]
    by (simp add: with_page_def page_key_def show_nat.simps [of 3])
qed

lemma set_page_param_first: "wbxml_set_page_param ''__page=2'' n m = None"
proof -
  have "find_page_from ''__page=2'' 0 = Some 0"
    by (simp add: find_page_from.simps [of "''__page=2''" 0] page_key_def)
  then show ?thesis
    by (simp add: wbxml_set_page_param_def drop_page_def fit_def cut_hash_def page_key_def ctype_defs)
qed

text \<open>
  A URI that starts with the page parameter makes the code read the byte before its array
  (\<open>p[-1]\<close> with \<open>p\<close> at its first byte), and move the string there when that byte is a separator:
  the model has no result, and so neither has the request of a phone that asks for such a URI.
\<close>

theorem set_page_param_underrun:
  "wbxml_set_page_param ''__page=2'' n m = None \<and> paged_build src ''__page=2'' links page bytes = None"
  using set_page_param_first by (simp add: paged_build_def uri_path_of_def)

end
