(* ===== verification/Wml_Text.thy ===== *)
theory Wml_Text
  imports Wbxml_Pages
begin

text \<open>
  The WML text of a page (\<open>ser_node\<close> and its helpers in src/src/wap_gateway/wbxml.c) against the
  reader of the same file: what is written reads back as the tree it was written from.
\<close>

subsection \<open>Escaping\<close>

lemma b_utf8_ascii: "n < 0x80 \<Longrightarrow> b_utf8 n = [chr n]"
  by (simp add: b_utf8_def)

lemma decode_escape: "decode_entities (ser_escape attr s) = s"
proof (induction s)
  case (Cons c s)
  have c: "chr 38 = CHR ''&''" "chr 60 = CHR ''<''" "chr 62 = CHR ''>''" "chr 34 = DQ"
    by (rule ord_inject [THEN iffD1], simp)+
  show ?case using Cons c by (auto simp: entity_value_def b_utf8_ascii eval_nat_numeral)
qed simp

lemma escape_no_lt: "CHR ''<'' \<notin> set (ser_escape attr s)"
  by (induction s) auto

lemma escape_no_quote: "DQ \<notin> set (ser_escape True s)"
  by (induction s) auto

subsection \<open>Well-formed trees\<close>

definition name_ok :: "string \<Rightarrow> bool" where
  "name_ok n \<longleftrightarrow> n \<noteq> [] \<and> length n \<le> 31 \<and> list_all is_name_char n"

text \<open>
  A text child reads back as itself when its white space is collapsed and it is not blank, or when
  it is the single space of a gap between two inline siblings.
\<close>

definition kid_text_ok :: "string \<Rightarrow> node list \<Rightarrow> string \<Rightarrow> node list \<Rightarrow> bool" where
  "kid_text_ok parent before t after \<longleftrightarrow>
     (after = [] \<or> node_name (hd after) \<noteq> None) \<and>
     (\<not> list_all is_white t \<and> collapse False t = t
      \<or> t = '' '' \<and> after \<noteq> [] \<and> inline_gap \<lparr>fr_name = parent, fr_attrs = [], fr_kids = before\<rparr>)"

fun kids_ok :: "string \<Rightarrow> node list \<Rightarrow> node list \<Rightarrow> bool" where
  "kids_ok parent before [] = True"
| "kids_ok parent before (k # ks) =
     ((case k of Text t \<Rightarrow> kid_text_ok parent before t ks | Elem nm avs js \<Rightarrow> True) \<and> kids_ok parent (before @ [k]) ks)"

fun tree_ok :: "nat \<Rightarrow> node \<Rightarrow> bool" where
  "tree_ok d (Text t) = True"
| "tree_ok d (Elem name avs ks) =
     (name_ok name \<and> list_all (\<lambda>av. name_ok (fst av)) avs
      \<and> (ks = [] \<or> \<not> is_void_tag name \<and> d < 64 \<and> kids_ok name [] ks) \<and> list_all (tree_ok (Suc d)) ks)"

subsection \<open>Tags\<close>

lemma not_name_chars:
  "\<not> is_name_char (CHR '' '')" "\<not> is_name_char (CHR ''>'')" "\<not> is_name_char (CHR ''/'')" "\<not> is_name_char (CHR ''='')"
  "\<not> is_name_char (CHR ''!'')" "\<not> is_name_char (CHR ''?'')"
  by (simp_all add: is_name_char_def ctype_defs)

lemma name_run:
  assumes "name_ok n" "\<not> is_name_char c"
  shows "takeWhile is_name_char (n @ c # r) = n" "dropWhile is_name_char (n @ c # r) = c # r"
  using assms by (auto simp: name_ok_def list_all_iff takeWhile_append2 dropWhile_append2)

lemma name_take: "name_ok n \<Longrightarrow> take 31 n = n"
  by (simp add: name_ok_def)

lemma name_not_space: "is_name_char c \<Longrightarrow> \<not> isspace c"
  by (auto simp: is_name_char_def ctype_defs)

lemma attr_item_ser:
  assumes "name_ok n"
  shows "attr_item (n @ CHR ''='' # DQ # ser_escape True v @ DQ # r) = ((n, v), r)"
proof -
  have q: "takeWhile (\<lambda>c. c \<noteq> DQ) (ser_escape True v @ DQ # r) = ser_escape True v"
    "dropWhile (\<lambda>c. c \<noteq> DQ) (ser_escape True v @ DQ # r) = DQ # r"
    by (rule run_until [OF escape_no_quote])+
  have sp: "\<not> isspace (CHR ''='')" "\<not> isspace DQ" by (simp_all add: ctype_defs)
  show ?thesis
    using name_run [OF assms, of "CHR ''=''" "DQ # ser_escape True v @ DQ # r"] not_name_chars q sp decode_escape name_take [OF assms]
    by (simp add: attr_item_def Let_def)
qed

lemma attr_loop_ser:
  "list_all (\<lambda>av. name_ok (fst av)) avs \<Longrightarrow>
   attr_loop (concat (map ser_attr avs) @ r) acc sc = attr_loop r (acc @ avs) sc"
proof (induction avs arbitrary: acc)
  case (Cons av avs)
  obtain n v where av: "av = (n, v)" by (cases av)
  have n: "name_ok n" using Cons.prems av by simp
  obtain c m where cm: "n = c # m" "is_name_char c" using n by (cases n) (auto simp: name_ok_def)
  let ?r = "concat (map ser_attr avs) @ r"
  have sp: "isspace (CHR '' '')" by (simp add: isspace_def)
  have d: "dropWhile isspace (ser_attr av @ ?r) = n @ CHR ''='' # DQ # ser_escape True v @ DQ # ?r"
    using cm name_not_space [of c] sp by (simp add: ser_attr_def av)
  have ne: "c \<noteq> CHR ''>''" "c \<noteq> CHR ''/''" using cm(2) not_name_chars by auto
  have "attr_loop (ser_attr av @ ?r) acc sc = attr_loop ?r (acc @ [(n, v)]) sc"
    using d ne cm attr_item_ser [OF n, of v ?r] by (simp add: attr_loop.simps [of "ser_attr av @ ?r"])
  then show ?case using Cons av by simp
qed simp

lemma attr_loop_ends:
  "attr_loop (CHR ''>'' # r) acc sc = (acc, sc, r)" "attr_loop (CHR ''/'' # CHR ''>'' # r) acc sc = (acc, True, r)"
  by (simp_all add: attr_loop.simps [of "CHR ''>'' # _"] attr_loop.simps [of "CHR ''/'' # _"] isspace_def)

subsection \<open>Reading what was written\<close>

lemma read_nonblank:
  "\<not> list_all is_white t \<Longrightarrow> collapse False t = t \<Longrightarrow> read_text (ser_escape False t) rest fs = add_kid (Text t) (hd fs) # tl fs"
  by (simp add: read_text_def make_text_def decode_escape)

lemma inline_gap_kids: "inline_gap f = inline_gap \<lparr>fr_name = fr_name f, fr_attrs = [], fr_kids = fr_kids f\<rparr>"
  by (cases "fr_kids f = []"; cases "last (fr_kids f)") (simp_all add: inline_gap_def eq_ci_def)

lemma parse_text:
  assumes "kid_text_ok (fr_name f) (fr_kids f) t ks" "t \<noteq> []"
    and rest: "rest = CHR ''<'' # r" "ks \<noteq> [] \<longrightarrow> take 1 r \<noteq> ''/''"
  shows "parse_loop (ser_escape False t @ rest) (f # fs) = parse_loop rest (add_kid (Text t) f # fs)"
proof -
  let ?e = "ser_escape False t"
  have "?e \<noteq> []" using assms(2) by (cases t) simp_all
  then obtain c s where e: "?e = c # s" by (cases ?e) auto
  have c: "c \<noteq> CHR ''<''" "CHR ''<'' \<notin> set s" using escape_no_lt [of False t] e by auto
  have "parse_loop (?e @ rest) (f # fs) = parse_loop rest (read_text ?e rest (f # fs))"
    using run_until [OF c(2), of r] e rest c(1) by (simp add: parse_loop.simps(2) Let_def)
  moreover have "read_text ?e rest (f # fs) = add_kid (Text t) f # fs"
  proof (cases "list_all is_white t")
    case True
    then have t: "t = '' ''" and k: "ks \<noteq> []" and g: "inline_gap f"
      using assms(1) inline_gap_kids [of f] by (auto simp: kid_text_ok_def)
    have "make_text ?e = None" using True by (simp add: make_text_def decode_escape)
    then show ?thesis using rest k g t by (simp add: read_text_def Let_def)
  next
    case False
    then show ?thesis using assms(1) read_nonblank [of t rest "f # fs"] by (auto simp: kid_text_ok_def)
  qed
  ultimately show ?thesis by simp
qed

lemma parse_close:
  assumes "name_ok (fr_name f)"
  shows "parse_loop (''</'' @ fr_name f @ CHR ''>'' # rest) (f # p # fs) = parse_loop rest (add_kid (frame_node f) p # fs)"
proof -
  note n = name_run [OF assms not_name_chars(2), of rest]
  have "close_tag (fr_name f) (f # p # fs) = add_kid (frame_node f) p # fs"
    by (simp add: close_tag_def)
  then show ?thesis using n name_take [OF assms] by (simp add: parse_loop.simps(2) after_gt_def)
qed

lemma parse_open:
  assumes "name_ok name" "list_all (\<lambda>av. name_ok (fst av)) avs"
    and "\<not> is_name_char (hd (concat (map ser_attr avs) @ r))" "concat (map ser_attr avs) @ r \<noteq> []"
  shows "parse_loop (CHR ''<'' # name @ concat (map ser_attr avs) @ r) fs =
         parse_loop (snd (snd (attr_loop r avs False)))
           (open_tag name (fst (attr_loop r avs False)) (fst (snd (attr_loop r avs False))) fs)"
proof -
  obtain c y where cy: "concat (map ser_attr avs) @ r = c # y" "\<not> is_name_char c"
    using assms(3,4) by (cases "concat (map ser_attr avs) @ r") auto
  obtain d m where dm: "name = d # m" "is_name_char d" using assms(1) by (cases name) (auto simp: name_ok_def)
  have d: "d \<noteq> CHR ''!''" "d \<noteq> CHR ''?''" "d \<noteq> CHR ''/''" using dm(2) not_name_chars by auto
  note n = name_run [OF assms(1) cy(2), of y]
  have "attr_loop (c # y) [] False = attr_loop r avs False"
    using attr_loop_ser [OF assms(2), of r "[]" False] cy by simp
  then show ?thesis
    unfolding cy(1) using n d dm name_take [OF assms(1)] by (simp add: parse_loop.simps(2) Let_def)
qed

lemma ser_attrs_next:
  "\<not> is_name_char c \<Longrightarrow> \<not> is_name_char (hd (concat (map ser_attr avs) @ c # r))"
  by (cases avs) (simp_all add: ser_attr_def not_name_chars)

lemma parse_empty_elem:
  assumes "name_ok name" "list_all (\<lambda>av. name_ok (fst av)) avs"
  shows "parse_loop (ser_node (Elem name avs []) @ rest) (p # fs) = parse_loop rest (add_kid (Elem name avs []) p # fs)"
  using parse_open [OF assms ser_attrs_next [OF not_name_chars(3), of avs "CHR ''>'' # rest"]]
  by (simp add: attr_loop_ends open_tag_def frame_node_def)

lemma parse_kids:
  assumes "\<And>k f fs rest. k \<in> set ks \<Longrightarrow> node_name k \<noteq> None \<Longrightarrow> tree_ok (length (f # fs)) k \<Longrightarrow>
             parse_loop (ser_node k @ rest) (f # fs) = parse_loop rest (add_kid k f # fs)"
    and "kids_ok (fr_name f) (fr_kids f) ks" "list_all (tree_ok (length (f # fs))) ks"
  shows "parse_loop (concat (map ser_node ks) @ ''</'' @ r) (f # fs) =
         parse_loop (''</'' @ r) (f\<lparr>fr_kids := fr_kids f @ ks\<rparr> # fs)"
  using assms
proof (induction ks arbitrary: f)
  case Nil
  then show ?case by simp
next
  case (Cons k ks)
  let ?rest = "concat (map ser_node ks) @ ''</'' @ r"
  have step: "parse_loop (ser_node k @ ?rest) (f # fs) = parse_loop ?rest (add_kid k f # fs)"
  proof (cases k)
    case (Text t)
    then have ok: "kid_text_ok (fr_name f) (fr_kids f) t ks" using Cons.prems(2) by simp
    have t: "t \<noteq> []" using ok by (auto simp: kid_text_ok_def)
    have "\<exists>r'. ?rest = CHR ''<'' # r' \<and> (ks \<noteq> [] \<longrightarrow> take 1 r' \<noteq> ''/'')"
    proof (cases ks)
      case ks: (Cons k' ks')
      then obtain nm avs js where k': "k' = Elem nm avs js" using ok by (cases k') (auto simp: kid_text_ok_def)
      then have "name_ok nm" using Cons.prems(3) ks by simp
      then show ?thesis using ks k' not_name_chars by (cases nm) (auto simp: name_ok_def)
    qed simp
    then show ?thesis using parse_text [OF ok t] Text by auto
  next
    case (Elem nm avs js)
    then show ?thesis using Cons.prems(1) [of k f fs ?rest] Cons.prems(3) by simp
  qed
  have "parse_loop ?rest (add_kid k f # fs) = parse_loop (''</'' @ r) ((add_kid k f)\<lparr>fr_kids := fr_kids (add_kid k f) @ ks\<rparr> # fs)"
    by (rule Cons.IH) (use Cons.prems in \<open>auto simp: add_kid_def\<close>)
  then show ?case using step by (simp add: add_kid_def)
qed

lemma parse_elem:
  "node_name n \<noteq> None \<Longrightarrow> tree_ok (length (p # fs)) n \<Longrightarrow>
   parse_loop (ser_node n @ rest) (p # fs) = parse_loop rest (add_kid n p # fs)"
proof (induction n arbitrary: p fs rest)
  case (Text t)
  then show ?case by simp
next
  case (Elem name avs ks)
  have ok: "name_ok name" "list_all (\<lambda>av. name_ok (fst av)) avs" using Elem.prems(2) by simp_all
  show ?case
  proof (cases "ks = []")
    case True
    then show ?thesis using parse_empty_elem [OF ok] by simp
  next
    case False
    then have k: "\<not> is_void_tag name" "length (p # fs) < 64" "kids_ok name [] ks"
      "list_all (tree_ok (Suc (length (p # fs)))) ks" using Elem.prems(2) by simp_all
    define f where "f = \<lparr>fr_name = name, fr_attrs = avs, fr_kids = []\<rparr>"
    let ?tail = "name @ CHR ''>'' # rest"
    have "parse_loop (ser_node (Elem name avs ks) @ rest) (p # fs)
        = parse_loop (concat (map ser_node ks) @ ''</'' @ ?tail) (f # p # fs)"
      using parse_open [OF ok ser_attrs_next [OF not_name_chars(2)], of "concat (map ser_node ks) @ ''</'' @ ?tail" "p # fs"]
        False k(1,2) by (simp add: attr_loop_ends open_tag_def f_def)
    also have "\<dots> = parse_loop (''</'' @ ?tail) (f\<lparr>fr_kids := ks\<rparr> # p # fs)"
      using parse_kids [of ks f "p # fs" ?tail] Elem.IH k by (simp add: f_def)
    also have "\<dots> = parse_loop rest (add_kid (Elem name avs ks) p # fs)"
      using parse_close [of "f\<lparr>fr_kids := ks\<rparr>" rest p fs] ok(1) by (simp add: f_def frame_node_def)
    finally show ?thesis .
  qed
qed

text \<open>
  The WML the server writes is the WML it reads: an element with any attributes and
  children, nested as deep as the reader's stack allows, written out with its markup escaped
  and read back, is the same tree; text keeps its characters and the single spaces between
  inline siblings.
\<close>

theorem ser_parse_roundtrip:
  assumes "node_name n \<noteq> None" "tree_ok 1 n"
  shows "parse_wml (ser_node n) = Elem ''#root'' [] [n]"
  using parse_elem [OF assms(1), of "\<lparr>fr_name = ''#root'', fr_attrs = [], fr_kids = []\<rparr>" "[]" "[]"] assms(2)
  by (simp add: parse_wml_def add_kid_def frame_node_def)

theorem ser_parse_roundtrip_witness:
  "parse_wml (ser_node (Elem ''p'' [] [Text ''a & b '', Elem ''br'' [] [], Elem ''a'' [(''href'', ''/x?y=1&z=<2>'')] [Text ''go'']]))
   = Elem ''#root'' [] [Elem ''p'' [] [Text ''a & b '', Elem ''br'' [] [], Elem ''a'' [(''href'', ''/x?y=1&z=<2>'')] [Text ''go'']]]"
  by (rule ser_parse_roundtrip)
     (simp_all add: name_ok_def is_name_char_def ctype_defs is_void_tag_def eq_ci_def kid_text_ok_def is_white_def)

end
