(* ===== verification/Wap_Gateway.thy ===== *)
theory Wap_Gateway
  imports Wml_Text Rate_Limit Http_Utils Proxy_Protocol Http_Request
begin

text \<open>
  The WAP gateway (src/src/wap_gateway/wap_gateway.c): one UDP datagram in, one datagram out.
  A request in the framing of its socket is decoded, its page is fetched over HTTP and comes
  back as WBXML. What the network does is an argument: \<open>net\<close> gives, for an address, a port and
  the bytes sent, the chunks received until the peer closes, or \<open>None\<close> when a socket call
  fails. Log lines and running out of memory are left out.
\<close>

subsection \<open>Variable-length integers\<close>

fun uintvar_high :: "nat \<Rightarrow> nat \<Rightarrow> string" where
  "uintvar_high 0 v = []"
| "uintvar_high (Suc n) v = (if v = 0 then [] else uintvar_high n (v div 128) @ [chr (128 + v mod 128)])"

definition bytes_uintvar :: "nat \<Rightarrow> string" where
  "bytes_uintvar v = uintvar_high 4 (v div 128) @ [chr (v mod 128)]"

fun read_uintvar_loop :: "nat \<Rightarrow> nat \<Rightarrow> string \<Rightarrow> (nat \<times> string) option" where
  "read_uintvar_loop 0 v s = None"
| "read_uintvar_loop (Suc k) v [] = None"
| "read_uintvar_loop (Suc k) v (c # s) =
     (let v' = v * 128 + ord c mod 128 in
      if ord c < 128 then Some (v', s) else read_uintvar_loop k v' s)"

definition read_uintvar :: "string \<Rightarrow> (nat \<times> string) option" where
  "read_uintvar s = read_uintvar_loop 5 0 s"

subsection \<open>Fetching a page\<close>

record HttpResponse =
  status :: int
  content_type :: string
  location :: string
  body :: string

text \<open>The value of a header: of the first line with that name, without leading blanks.\<close>

fun header_lines :: "nat \<Rightarrow> string \<Rightarrow> string list" where
  "header_lines 0 s = []"
| "header_lines (Suc n) s =
     (if s = [] then []
      else case strstr s CRLF of
          None \<Rightarrow> []
        | Some k \<Rightarrow> take k s # header_lines n (drop (k + 2) s))"

definition is_lws :: "char \<Rightarrow> bool" where
  "is_lws c \<longleftrightarrow> c = CHR '' '' \<or> c = TAB"

definition header_value :: "string \<Rightarrow> string \<Rightarrow> nat \<Rightarrow> string" where
  "header_value headers name out_size =
     (case List.find (\<lambda>l. prefix_ci name l \<and> take 1 (drop (length name) l) = '':'')
             (header_lines (length headers) headers) of
        None \<Rightarrow> []
      | Some l \<Rightarrow> fit out_size (dropWhile is_lws (drop (Suc (length name)) l)))"

record wap_cfg =
  http_port :: int
  listen_address :: string
  wap_upstream :: string
  wap_upstream_proxy_protocol :: bool
  proxy_protocol :: bool
  trusted_proxies :: string
  wap_gateway_rate_limit :: int
  wap_gateway_enabled :: bool
  wap_gateway_ips :: string
  wap_gateway_rover_port :: int
  wap_gateway_wsp_port :: int

definition INADDR_LOOPBACK :: string where "INADDR_LOOPBACK = [chr 127, chr 0, chr 0, chr 1]"
definition INADDR_ANY :: string where "INADDR_ANY = [chr 0, chr 0, chr 0, chr 0]"

definition fetch_target :: "wap_cfg \<Rightarrow> (string \<times> int) option" where
  "fetch_target cfg =
     (if wap_upstream cfg \<noteq> [] then
        let host = fit 64 (wap_upstream cfg) in
        case strrchr host (CHR '':'') of
          None \<Rightarrow> None
        | Some k \<Rightarrow>
            (case strtol10 (drop (Suc k) host) of
               (port, rest) \<Rightarrow>
                 if rest \<noteq> [] \<or> port < 1 \<or> port > 65535 then None
                 else case inet_pton4 (take k host) of None \<Rightarrow> None | Some a \<Rightarrow> Some (a, port))
      else
        let a = (if listen_address cfg = [] then INADDR_LOOPBACK
                 else case inet_pton4 (listen_address cfg) of Some a \<Rightarrow> a | None \<Rightarrow> INADDR_LOOPBACK)
        in Some (if a = INADDR_ANY then INADDR_LOOPBACK else a, http_port cfg mod 65536))"

definition fetch_sends_proxy_header :: "wap_cfg \<Rightarrow> string \<Rightarrow> bool" where
  "fetch_sends_proxy_header cfg server_ip =
     (if wap_upstream cfg \<noteq> [] then wap_upstream_proxy_protocol cfg
      else proxy_protocol cfg \<and> is_trusted_proxy (trusted_proxies cfg) (Some server_ip))"

record WapPost =
  post_type :: string
  post_agent :: string
  post_body :: string

definition post_headers :: "WapPost option \<Rightarrow> string" where
  "post_headers post =
     (case post of
        None \<Rightarrow> []
      | Some p \<Rightarrow> fit 512 (''Content-Type: '' @ post_type p @ CRLF
                     @ ''Content-Length: '' @ show_nat (length (post_body p)) @ CRLF))"

definition wap_request_text :: "string \<Rightarrow> string \<Rightarrow> string \<Rightarrow> WapPost option \<Rightarrow> string" where
  "wap_request_text host path client_ip post =
     (if post = None then ''GET'' else ''POST'') @ '' '' @ path @ '' HTTP/1.0'' @ CRLF
       @ ''Host: '' @ (if host = [] then ''127.0.0.1'' else host) @ CRLF
       @ ''User-Agent: '' @ (case post of Some p \<Rightarrow> if post_agent p = [] then ''BoatRudder-WAP-Gateway'' else post_agent p
                                        | None \<Rightarrow> ''BoatRudder-WAP-Gateway'') @ CRLF
       @ ''Accept: text/vnd.wap.wml, image/vnd.wap.wbmp'' @ CRLF
       @ ''X-Forwarded-For: '' @ client_ip @ CRLF
       @ post_headers post
       @ ''Connection: close'' @ CRLF @ CRLF"

text \<open>The bytes sent: a PROXY header if asked for, the request, which must fit the array, and the body.\<close>

definition request_bytes :: "wap_cfg \<Rightarrow> string \<times> int \<Rightarrow> string \<Rightarrow> string \<Rightarrow> string \<Rightarrow> WapPost option \<Rightarrow> string option" where
  "request_bytes cfg target host path client_ip post =
     (let server_ip = inet_ntop4 (fst target);
          pp = (if fetch_sends_proxy_header cfg server_ip
                then proxy_protocol_format_v1 2048 (Some client_ip) 0 (Some server_ip) (snd target) else (0, []));
          r = wap_request_text host path client_ip post
      in if length r \<ge> 2048 - fst pp then None
         else Some (take (fst pp) (snd pp) @ r @ (case post of Some p \<Rightarrow> post_body p | None \<Rightarrow> [])))"

definition MAX_FETCH_BYTES :: int where "MAX_FETCH_BYTES = 1048576"

fun receive :: "string \<Rightarrow> string list \<Rightarrow> string" where
  "receive got [] = got"
| "receive got (c # cs) =
     (if c \<noteq> [] \<and> int (length got) < MAX_FETCH_BYTES then receive (got @ c) cs else got)"

text \<open>\<open>sscanf\<close> of the status line, format HTTP/ then a word that is skipped and a number.\<close>

definition scan_status :: "string \<Rightarrow> int option" where
  "scan_status s =
     (if \<not> prefix ''HTTP/'' s then None
      else
        let t = dropWhile isspace (drop 5 s); u = dropWhile (\<lambda>c. \<not> isspace c) t; r = strtol10 u in
        if takeWhile (\<lambda>c. \<not> isspace c) t = [] \<or> snd r = u then None else Some (to_int32 (fst r)))"

definition parse_response :: "string \<Rightarrow> HttpResponse option" where
  "parse_response raw =
     (if raw = [] then None
      else case strstr (cstr raw) (CRLF @ CRLF) of
          None \<Rightarrow> None
        | Some k \<Rightarrow>
            (case scan_status (cstr raw) of
               None \<Rightarrow> None
             | Some st \<Rightarrow>
                 let head = take (k + 2) raw;
                     fields = (case strstr head CRLF of Some j \<Rightarrow> drop (j + 2) head | None \<Rightarrow> [])
                 in Some \<lparr>status = st, content_type = header_value fields ''Content-Type'' 128,
                          location = header_value fields ''Location'' 512, body = drop (k + 4) raw\<rparr>))"

type_synonym network = "string \<Rightarrow> int \<Rightarrow> string \<Rightarrow> string list option"

definition fetch_page ::
  "wap_cfg \<Rightarrow> network \<Rightarrow> string \<Rightarrow> string \<Rightarrow> string \<Rightarrow> WapPost option \<Rightarrow> string list \<times> HttpResponse option" where
  "fetch_page cfg net host path client_ip post =
     (case fetch_target cfg of
        None \<Rightarrow> ([], None)
      | Some target \<Rightarrow>
          (case request_bytes cfg target host path client_ip post of
             None \<Rightarrow> ([], None)
           | Some req \<Rightarrow>
               ([req], case net (fst target) (snd target) req of
                         None \<Rightarrow> None
                       | Some chunks \<Rightarrow> parse_response (receive [] chunks))))"

definition contains_ci :: "string \<Rightarrow> string \<Rightarrow> bool" where
  "contains_ci haystack needle \<longleftrightarrow> list_ex (\<lambda>i. prefix_ci needle (drop i haystack)) [0..<length haystack]"

definition is_host_char :: "char \<Rightarrow> bool" where
  "is_host_char c \<longleftrightarrow> isalnum c \<or> c = CHR ''.'' \<or> c = CHR ''-''"

definition uri_host :: "string \<Rightarrow> nat \<Rightarrow> string" where
  "uri_host uri out_size =
     (case strstr uri ''://'' of
        None \<Rightarrow> []
      | Some k \<Rightarrow>
          let h0 = takeWhile (\<lambda>c. c \<notin> set ''/?#'') (drop (k + 3) uri);
              h = (case strchr h0 (CHR ''@'') of Some j \<Rightarrow> drop (Suc j) h0 | None \<Rightarrow> h0);
              len = length h;
              colon = strchr h (CHR '':'');
              name_len = (case colon of Some j \<Rightarrow> j | None \<Rightarrow> len)
          in if len = 0 \<or> len > 253 \<or> len \<ge> out_size then []
             else if name_len = 0 then []
             else if \<not> (list_all is_host_char (take name_len h) \<and> list_all isdigit (drop (Suc name_len) h)) then []
             else if colon \<noteq> None \<and> len - name_len < 2 then []
             else map tolower h)"

definition local_path :: "string \<Rightarrow> nat \<Rightarrow> string" where
  "local_path uri out_size =
     (let p = (case strstr uri ''://'' of
                 Some k \<Rightarrow> (case strchr (drop (k + 3) uri) (CHR ''/'') of
                              Some j \<Rightarrow> drop (k + 3 + j) uri | None \<Rightarrow> ''/'')
               | None \<Rightarrow> if prefix ''/'' uri then uri else ''/'');
          q = cut_hash (fit out_size p)
      in if q = [] then fit out_size ''/'' else q)"

subsection \<open>The rate limit per source address\<close>

definition RATE_TABLE_SIZE :: nat where "RATE_TABLE_SIZE = 256"
definition RATE_WINDOW_SEC :: int where "RATE_WINDOW_SEC = 60"

text \<open>An address is the 32-bit number of \<open>s_addr\<close>; 0 marks a free slot.\<close>

record RateEntry =
  re_ip :: nat
  window_start :: int
  re_count :: int
  warned :: bool

definition empty_entry :: RateEntry where
  "empty_entry = \<lparr>re_ip = 0, window_start = 0, re_count = 0, warned = False\<rparr>"

definition roll_entry :: "int \<Rightarrow> RateEntry \<Rightarrow> RateEntry" where
  "roll_entry now e =
     (if now - window_start e \<ge> RATE_WINDOW_SEC then e\<lparr>window_start := now, re_count := 0, warned := False\<rparr> else e)"

definition count_entry :: "int \<Rightarrow> RateEntry \<Rightarrow> bool \<times> RateEntry" where
  "count_entry lim e =
     (let e' = e\<lparr>re_count := re_count e + 1\<rparr> in
      if re_count e' \<le> lim then (True, e') else (False, e'\<lparr>warned := True\<rparr>))"

definition rate_allow :: "int \<Rightarrow> int \<Rightarrow> nat \<Rightarrow> RateEntry list \<Rightarrow> bool \<times> RateEntry list" where
  "rate_allow lim now ip tab =
     (if lim \<le> 0 then (True, tab)
      else
        let (i, e) = (case first_index (\<lambda>e. re_ip e = ip) tab of
                        Some i \<Rightarrow> (i, roll_entry now (tab ! i))
                      | None \<Rightarrow> (oldest_index (map window_start tab), empty_entry\<lparr>re_ip := ip, window_start := now\<rparr>));
            (ok, e') = count_entry lim e
        in (ok, tab[i := e']))"

subsection \<open>Replies\<close>

definition CT_WMLC :: nat where "CT_WMLC = 0x14"
definition CT_WBMP :: nat where "CT_WBMP = 0x21"

definition wsp_reply :: "nat \<Rightarrow> string \<Rightarrow> string" where
  "wsp_reply ct b = [chr 0x04, chr 0x20] @ bytes_uintvar 1 @ chr (0x80 + ct) # b"

definition message_reply :: "string \<Rightarrow> string \<Rightarrow> string" where
  "message_reply title t = wsp_reply CT_WMLC (wbxml_message_card title t)"

definition reply_page :: "HttpResponse \<Rightarrow> string \<Rightarrow> int \<Rightarrow> nat \<Rightarrow> string option" where
  "reply_page resp uri page page_bytes =
     (if status resp = 200 \<and> prefix_ci ''text/vnd.wap.wml'' (content_type resp) then
        map_option (wsp_reply CT_WMLC)
          (wbxml_compile_page (body resp) (\<not> contains_ci (content_type resp) ''utf-8'') uri page page_bytes)
      else if status resp = 200 \<and> prefix_ci ''image/vnd.wap.wbmp'' (content_type resp) then
        Some (wsp_reply CT_WBMP (body resp))
      else if status resp = 404 then Some (message_reply ''Not found'' ''This page does not exist.'')
      else Some (message_reply ''Unavailable'' ''This content is not available on WAP.''))"

definition MAX_REDIRECTS :: nat where "MAX_REDIRECTS = 3"

definition hop_path :: "string \<Rightarrow> string" where
  "hop_path path =
     fit 1200 (path @ (if CHR ''?'' \<in> set path then ''&'' else ''?'') @ ''preview_epoch=-1&wml_pages=all'')"

text \<open>The redirect loop: \<open>hops\<close> more fetches are allowed. The requests sent are returned too.\<close>

fun follow :: "wap_cfg \<Rightarrow> network \<Rightarrow> nat \<Rightarrow> string \<Rightarrow> string \<Rightarrow> string \<Rightarrow> WapPost option \<Rightarrow> HttpResponse option \<Rightarrow>
  string list \<times> string \<times> string \<times> HttpResponse option"
where
  "follow cfg net 0 host path client_ip post prev = ([], host, path, prev)"
| "follow cfg net (Suc hops) host path client_ip post prev =
     (case fetch_page cfg net host (hop_path path) client_ip post of
        (sent, None) \<Rightarrow> (sent, host, path, None)
      | (sent, Some resp) \<Rightarrow>
          if status resp < 300 \<or> status resp \<ge> 400 \<or> location resp = [] then (sent, host, path, Some resp)
          else
            let next_host = uri_host (location resp) 256;
                host' = (if next_host \<noteq> [] then fit 256 next_host else host);
                path' = local_path (location resp) 1100
            in case follow cfg net hops host' path' client_ip None (Some resp) of
                 (sent', h, p, r) \<Rightarrow> (sent @ sent', h, p, r))"

definition fetch_following ::
  "wap_cfg \<Rightarrow> network \<Rightarrow> string \<Rightarrow> string \<Rightarrow> string \<Rightarrow> WapPost option \<Rightarrow> string list \<times> string \<times> string \<times> HttpResponse option"
where
  "fetch_following cfg net host path client_ip post = follow cfg net (Suc MAX_REDIRECTS) host path client_ip post None"

definition handle_request ::
  "wap_cfg \<Rightarrow> network \<Rightarrow> string \<Rightarrow> WapPost option \<Rightarrow> string \<Rightarrow> nat \<Rightarrow> string option" where
  "handle_request cfg net uri post client_ip page_bytes =
     (let page = (if post \<noteq> None then 0 else wbxml_page_param uri) in
      case wbxml_set_page_param uri 0 1100 of
        None \<Rightarrow> None
      | Some page0 \<Rightarrow>
          (case fetch_following cfg net (uri_host page0 256) (local_path page0 1100) client_ip post of
             (sent, host, path, resp) \<Rightarrow>
               (case resp of
                  None \<Rightarrow> Some (message_reply ''Error'' ''The site is not responding. Try again later.'')
                | Some r \<Rightarrow>
                    let shown = fit 1400 (if post \<noteq> None \<and> host \<noteq> [] then ''http://'' @ host @ path else uri)
                    in reply_page r shown page page_bytes)))"

subsection \<open>The headers of a Post\<close>

text \<open>One header value: its text, when it is one, and what follows it.\<close>

definition wsp_value :: "string \<Rightarrow> (string option \<times> string) option" where
  "wsp_value s =
     (case s of
        [] \<Rightarrow> None
      | c # t \<Rightarrow>
          if ord c \<ge> 128 then Some (None, t)
          else if ord c \<le> 31 then
            (case (if ord c = 31 then read_uintvar t else Some (ord c, t)) of
               None \<Rightarrow> None
             | Some (len, r) \<Rightarrow> if len > length r then None else Some (None, drop len r))
          else if NUL \<notin> set s then None
          else Some (Some (takeWhile (\<lambda>x. x \<noteq> NUL) s), tl (dropWhile (\<lambda>x. x \<noteq> NUL) s)))"

lemma read_uintvar_loop_length: "read_uintvar_loop k v s = Some (w, r) \<Longrightarrow> length r < length s"
  by (induction k v s rule: read_uintvar_loop.induct) (fastforce simp: Let_def split: if_splits)+

lemma wsp_value_length: "wsp_value s = Some (t, r) \<Longrightarrow> length r < length s"
proof -
  assume a: "wsp_value s = Some (t, r)"
  then obtain c u where s: "s = c # u" by (cases s) (auto simp: wsp_value_def)
  have r: "read_uintvar u = Some (l, v) \<Longrightarrow> length v < length u" for l v
    by (simp add: read_uintvar_def read_uintvar_loop_length)
  have d: "length (tl (dropWhile (\<lambda>x. x \<noteq> NUL) s)) < length s"
    using length_dropWhile_le [of "\<lambda>x. x \<noteq> NUL" s] s by (cases "dropWhile (\<lambda>x. x \<noteq> NUL) s") auto
  show ?thesis
    using a r d s by (auto simp: wsp_value_def split: if_splits option.splits)
qed

definition WSP_TYPES :: "(nat \<times> string) list" where
  "WSP_TYPES = [(0x12, ''application/x-www-form-urlencoded''), (0x24, ''multipart/form-data''), (0x03, ''text/plain'')]"

function agent_loop :: "string \<Rightarrow> string \<Rightarrow> string option" where
  "agent_loop s ua =
     (case s of
        [] \<Rightarrow> Some ua
      | c # t \<Rightarrow>
          if ord c \<ge> 128 then
            (case wsp_value t of
               None \<Rightarrow> None
             | Some (x, r) \<Rightarrow>
                 agent_loop r (case x of Some v \<Rightarrow> if ord c - 128 = 0x29 then fit 256 v else ua | None \<Rightarrow> ua))
          else if 32 \<le> ord c \<and> ord c < 127 then
            (case wsp_value s of
               None \<Rightarrow> None
             | Some (x, r) \<Rightarrow> (case wsp_value r of None \<Rightarrow> None | Some (y, r') \<Rightarrow> agent_loop r' ua))
          else Some ua)"
  by pat_completeness auto

termination agent_loop
  by (relation "measure (\<lambda>(s, ua). length s)") (auto dest!: wsp_value_length)

declare agent_loop.simps [simp del]

definition printable :: "char \<Rightarrow> char" where
  "printable c = (if ord c < 0x20 \<or> ord c > 0x7E then CHR ''?'' else c)"

text \<open>
  The content type: where its media value starts and where the headers after it start. A
  length of zero at the end makes the code read \<open>d[media]\<close> one byte past the headers:
  \<open>nxt\<close> is that byte.
\<close>

definition media_span :: "string \<Rightarrow> (string \<times> string) option" where
  "media_span d =
     (case d of
        [] \<Rightarrow> None
      | c # t \<Rightarrow>
          if ord c \<le> 31 then
            (case (if ord c = 31 then read_uintvar t else Some (ord c, t)) of
               None \<Rightarrow> None
             | Some (len, r) \<Rightarrow> if len > length r then None else Some (take len r, drop len r))
          else (case wsp_value d of
                  None \<Rightarrow> None
                | Some (x, r) \<Rightarrow> Some (take (length d - length r) d, r)))"

definition media_type :: "string \<Rightarrow> char \<Rightarrow> string option" where
  "media_type m nxt =
     (let b = (case m of c # _ \<Rightarrow> c | [] \<Rightarrow> nxt) in
      if ord b \<ge> 128 then
        Some (case List.find (\<lambda>e. fst e = ord b - 128) WSP_TYPES of Some e \<Rightarrow> snd e | None \<Rightarrow> [])
      else case wsp_value m of
          None \<Rightarrow> None
        | Some (x, r) \<Rightarrow> Some (case x of Some v \<Rightarrow> fit 128 v | None \<Rightarrow> []))"

definition wsp_post_headers :: "string \<Rightarrow> char \<Rightarrow> (string \<times> string) option" where
  "wsp_post_headers d nxt =
     (case media_span d of
        None \<Rightarrow> None
      | Some (m, after) \<Rightarrow>
          (case media_type m (case after of c # _ \<Rightarrow> c | [] \<Rightarrow> nxt) of
             None \<Rightarrow> None
           | Some ct \<Rightarrow>
               (case agent_loop after [] of
                  None \<Rightarrow> None
                | Some ua \<Rightarrow> Some (if ct = [] then ''application/octet-stream'' else ct, map printable ua))))"

subsection \<open>One datagram\<close>

datatype Framing = FRAMING_ROVER | FRAMING_WSP

definition wsp_at :: "Framing \<Rightarrow> string \<Rightarrow> nat option" where
  "wsp_at fr d =
     (case fr of
        FRAMING_ROVER \<Rightarrow> if length d < 6 \<or> ord (d ! 0) div 8 mod 16 \<noteq> 1 then None else Some 4
      | FRAMING_WSP \<Rightarrow> if length d < 3 then None else Some 1)"

text \<open>The URI and, for a Post, the form; \<open>stale\<close> is the byte after the datagram in the receive buffer.\<close>

definition decode_request :: "Framing \<Rightarrow> char \<Rightarrow> string \<Rightarrow> (string \<times> WapPost option) option" where
  "decode_request fr stale d =
     (case wsp_at fr d of
        None \<Rightarrow> None
      | Some at \<Rightarrow>
          let type = ord (d ! at); is_post = (type = 0x60) in
          if (type < 0x40 \<or> type > 0x44) \<and> \<not> is_post then None
          else case read_uintvar (drop (Suc at) d) of
              None \<Rightarrow> None
            | Some (uri_len, r) \<Rightarrow>
                (case (if is_post then read_uintvar r else Some (0, r)) of
                   None \<Rightarrow> None
                 | Some (headers_len, r') \<Rightarrow>
                     if uri_len = 0 \<or> uri_len > length r' \<or> uri_len > 1000 then None
                     else
                       let uri = cstr (take uri_len r'); q = drop uri_len r' in
                       if \<not> is_post then Some (uri, None)
                       else if headers_len > length q then None
                       else case wsp_post_headers (take headers_len q)
                                   (case drop headers_len q of c # _ \<Rightarrow> c | [] \<Rightarrow> stale) of
                           None \<Rightarrow> None
                         | Some (ct, ua) \<Rightarrow>
                             Some (uri, Some \<lparr>post_type = ct, post_agent = ua, post_body = drop headers_len q\<rparr>)))"

definition reply_frame :: "Framing \<Rightarrow> string \<Rightarrow> string" where
  "reply_frame fr d =
     (case fr of
        FRAMING_ROVER \<Rightarrow> chr (16 + ord (d ! 0) mod 8) # take 3 (drop 1 d)
      | FRAMING_WSP \<Rightarrow> [d ! 0])"

definition ip_number :: "string \<Rightarrow> nat" where
  "ip_number a = foldr (\<lambda>c v. ord c + 256 * v) a 0"

text \<open>The datagram sent back, if any, and the rate table; \<open>None\<close> when the code's behaviour is undefined.\<close>

definition handle_datagram ::
  "wap_cfg \<Rightarrow> network \<Rightarrow> int \<Rightarrow> Framing \<Rightarrow> char \<Rightarrow> string \<Rightarrow> string \<Rightarrow> RateEntry list \<Rightarrow>
   (string option \<times> RateEntry list) option"
where
  "handle_datagram cfg net now fr stale d from tab =
     (case decode_request fr stale d of
        None \<Rightarrow> Some (None, tab)
      | Some (uri, post) \<Rightarrow>
          (case rate_allow (wap_gateway_rate_limit cfg) now (ip_number from) tab of
             (ok, tab') \<Rightarrow>
               if \<not> ok then Some (None, tab')
               else case handle_request cfg net uri post (inet_ntop4 from) WAP_PAGE_BYTES of
                   None \<Rightarrow> None
                 | Some b \<Rightarrow> Some (if b \<noteq> [] then Some (reply_frame fr d @ b) else None, tab')))"

subsection \<open>Sockets\<close>

record GatewaySocket =
  gs_fd :: nat
  gs_framing :: Framing
  gs_label :: string

record gateway =
  sockets :: "GatewaySocket list"
  gateway_running :: bool

definition MAX_SOCKETS :: nat where "MAX_SOCKETS = 16"

text \<open>\<open>binds\<close> gives the descriptor of a socket bound to an address and port, or \<open>None\<close>.\<close>

definition open_socket ::
  "(string \<Rightarrow> int \<Rightarrow> nat option) \<Rightarrow> string \<Rightarrow> int \<Rightarrow> Framing \<Rightarrow> GatewaySocket list \<Rightarrow> GatewaySocket list" where
  "open_socket binds ip port fr ss =
     (if length ss \<ge> MAX_SOCKETS \<or> port \<le> 0 then ss
      else case inet_pton4 ip of
          None \<Rightarrow> ss
        | Some a \<Rightarrow>
            (case binds a (port mod 65536) of
               None \<Rightarrow> ss
             | Some fd \<Rightarrow> ss @ [\<lparr>gs_fd = fd, gs_framing = fr, gs_label = fit 64 (ip @ '':'' @ show_int port)\<rparr>]))"

definition open_for_ip :: "wap_cfg \<Rightarrow> (string \<Rightarrow> int \<Rightarrow> nat option) \<Rightarrow> string \<Rightarrow> GatewaySocket list \<Rightarrow> GatewaySocket list" where
  "open_for_ip cfg binds ip ss =
     open_socket binds ip (wap_gateway_wsp_port cfg) FRAMING_WSP
       (open_socket binds ip (wap_gateway_rover_port cfg) FRAMING_ROVER ss)"

definition gateway_ips :: "wap_cfg \<Rightarrow> string list" where
  "gateway_ips cfg =
     filter (\<lambda>ip. ip \<noteq> [])
       (map (\<lambda>t. rev (dropWhile isspace (rev (dropWhile isspace t)))) (strtok (\<lambda>c. c = CHR '','') (fit 256 (wap_gateway_ips cfg))))"

definition wap_gateway_stop :: "gateway \<Rightarrow> gateway" where
  "wap_gateway_stop g = g\<lparr>sockets := [], gateway_running := False\<rparr>"

definition wap_gateway_start ::
  "wap_cfg \<Rightarrow> (string \<Rightarrow> int \<Rightarrow> nat option) \<Rightarrow> bool \<Rightarrow> gateway \<Rightarrow> int \<times> gateway" where
  "wap_gateway_start cfg binds thread_ok g =
     (if \<not> wap_gateway_enabled cfg then (0, g)
      else
        let ips = gateway_ips cfg;
            ss = fold (open_for_ip cfg binds) (if ips = [] then [''0.0.0.0''] else ips) (sockets g);
            g' = g\<lparr>sockets := ss\<rparr>
        in if ss = [] then (-1, g')
           else if \<not> thread_ok then (-1, wap_gateway_stop g')
           else (0, g'\<lparr>gateway_running := True\<rparr>))"

text \<open>
  A pass of the gateway thread over the sockets \<open>poll\<close> reports: each datagram received, with its
  socket, sender and time, in order. The replies go out on the socket the request came in on.
\<close>

fun gateway_pass ::
  "wap_cfg \<Rightarrow> network \<Rightarrow> char \<Rightarrow> (int \<times> GatewaySocket \<times> string \<times> string) list \<Rightarrow> RateEntry list \<Rightarrow>
   ((nat \<times> string \<times> string) list \<times> RateEntry list) option"
where
  "gateway_pass cfg net stale [] tab = Some ([], tab)"
| "gateway_pass cfg net stale ((now, gs, from, d) # ds) tab =
     (if d = [] then gateway_pass cfg net stale ds tab
      else case handle_datagram cfg net now (gs_framing gs) stale d from tab of
          None \<Rightarrow> None
        | Some (r, tab') \<Rightarrow>
            map_option (\<lambda>(rs, t). ((case r of Some x \<Rightarrow> [(gs_fd gs, from, x)] | None \<Rightarrow> []) @ rs, t))
              (gateway_pass cfg net stale ds tab'))"

subsection \<open>Integers and hosts\<close>

definition uintvar_value :: "nat \<Rightarrow> string \<Rightarrow> nat" where
  "uintvar_value w ds = foldl (\<lambda>v c. v * 128 + ord c mod 128) w ds"

lemma read_uintvar_run:
  "\<forall>c\<in>set ds. 128 \<le> ord c \<Longrightarrow> read_uintvar_loop (length ds + k) w (ds @ s) = read_uintvar_loop k (uintvar_value w ds) s"
  by (induction ds arbitrary: w) (auto simp: uintvar_value_def)

lemma uintvar_high_props:
  "v < 128 ^ n \<Longrightarrow> length (uintvar_high n v) \<le> n \<and> (\<forall>c\<in>set (uintvar_high n v). 128 \<le> ord c)
     \<and> uintvar_value 0 (uintvar_high n v) = v"
proof (induction n arbitrary: v)
  case 0
  then show ?case by (simp add: uintvar_value_def)
next
  case (Suc n)
  have "v div 128 < 128 ^ n" using Suc.prems by (simp add: less_mult_imp_div_less mult.commute)
  note IH = Suc.IH [OF this]
  have o: "ord (chr (128 + v mod 128)) = 128 + v mod 128" by simp
  show ?case
    using IH o by (auto simp: uintvar_value_def)
qed

text \<open>
  The lengths of the protocol: a number below \<open>2\<^sup>3\<^sup>5\<close> written as a variable-length integer is
  read back, whatever follows it.
\<close>

theorem uintvar_roundtrip:
  assumes "v < 2 ^ 35"
  shows "read_uintvar (bytes_uintvar v @ s) = Some (v, s)"
proof -
  let ?ds = "uintvar_high 4 (v div 128)"
  have "v div 128 < 128 ^ 4" using assms by (simp add: less_mult_imp_div_less)
  note p = uintvar_high_props [OF this]
  have "5 = length ?ds + Suc (4 - length ?ds)" using p by simp
  then have "read_uintvar (bytes_uintvar v @ s)
      = read_uintvar_loop (length ?ds + Suc (4 - length ?ds)) 0 (?ds @ chr (v mod 128) # s)"
    unfolding read_uintvar_def bytes_uintvar_def by simp
  also have "\<dots> = read_uintvar_loop (Suc (4 - length ?ds)) (v div 128) (chr (v mod 128) # s)"
    using read_uintvar_run [of ?ds "Suc (4 - length ?ds)" 0 "chr (v mod 128) # s"] p by simp
  also have "\<dots> = Some (v, s)" by (simp add: Let_def)
  finally show ?thesis .
qed

theorem uintvar_roundtrip_witness: "read_uintvar (bytes_uintvar 300 @ ''x'') = Some (300, ''x'')"
  using uintvar_roundtrip [of 300 "''x''"] by simp

lemma uri_host_cases:
  "uri_host uri n = [] \<or>
   (\<exists>h. uri_host uri n = map tolower h \<and> length h < n \<and> length h \<le> 253 \<and> h \<noteq> []
      \<and> (\<forall>c\<in>set h. is_host_char c \<or> isdigit c \<or> c = CHR '':''))"
proof (cases "strstr uri ''://''")
  case None
  then show ?thesis by (simp add: uri_host_def)
next
  case (Some k)
  define h0 where "h0 = takeWhile (\<lambda>c. c \<notin> set ''/?#'') (drop (k + 3) uri)"
  define h where "h = (case strchr h0 (CHR ''@'') of Some j \<Rightarrow> drop (Suc j) h0 | None \<Rightarrow> h0)"
  define nl where "nl = (case strchr h (CHR '':'') of Some j \<Rightarrow> j | None \<Rightarrow> length h)"
  have u: "uri_host uri n =
      (if length h = 0 \<or> length h > 253 \<or> length h \<ge> n then []
       else if nl = 0 then []
       else if \<not> (list_all is_host_char (take nl h) \<and> list_all isdigit (drop (Suc nl) h)) then []
       else if strchr h (CHR '':'') \<noteq> None \<and> length h - nl < 2 then [] else map tolower h)"
    unfolding uri_host_def Some h0_def h_def nl_def by (simp only: option.case Let_def)
  have "\<forall>c\<in>set h. is_host_char c \<or> isdigit c \<or> c = CHR '':''"
    if "list_all is_host_char (take nl h)" "list_all isdigit (drop (Suc nl) h)"
  proof (cases "strchr h (CHR '':'')")
    case None
    then show ?thesis using that by (simp add: nl_def list_all_iff)
  next
    case (Some j)
    have j: "j < length h" "h ! j = CHR '':''" using Some by (simp_all add: strchr_Some)
    have nl: "nl = j" using Some by (simp add: nl_def)
    have "set h = set (take j h @ h ! j # drop (Suc j) h)" using id_take_nth_drop [OF j(1)] by simp
    then show ?thesis using that j nl by (auto simp: list_all_iff)
  qed
  then show ?thesis unfolding u by (auto intro!: exI [of _ h])
qed

lemma tolower_host:
  "is_host_char c \<or> isdigit c \<or> c = CHR '':'' \<Longrightarrow>
   islower (tolower c) \<or> isdigit (tolower c) \<or> tolower c \<in> {CHR ''.'', CHR ''-'', CHR '':''}"
proof -
  assume a: "is_host_char c \<or> isdigit c \<or> c = CHR '':''"
  show ?thesis
  proof (cases "isupper c")
    case True
    then have "ord (tolower c) = ord c + 32" by (simp add: tolower_def isupper_def)
    then show ?thesis using True by (simp add: isupper_def islower_def)
  next
    case False
    then show ?thesis using a by (auto simp: tolower_def is_host_char_def isalnum_def isalpha_def)
  qed
qed

text \<open>
  Nothing but a plain host name reaches the Host header. Whatever URI a phone sends, the
  host taken from it is lower-case letters, digits, dots, dashes and the colon of a port, fits
  its array, and so can hold no space and no line break.
\<close>

theorem uri_host_plain:
  "list_all (\<lambda>c. islower c \<or> isdigit c \<or> c \<in> {CHR ''.'', CHR ''-'', CHR '':''}) (uri_host uri 256)
   \<and> length (uri_host uri 256) \<le> 253 \<and> CR \<notin> set (uri_host uri 256) \<and> LF \<notin> set (uri_host uri 256)"
proof -
  have c: "\<forall>c\<in>set (uri_host uri 256). islower c \<or> isdigit c \<or> c \<in> {CHR ''.'', CHR ''-'', CHR '':''}"
    and l: "length (uri_host uri 256) \<le> 253"
  proof -
    have "uri_host uri 256 = [] \<or> (\<exists>h. uri_host uri 256 = map tolower h \<and> length h \<le> 253
        \<and> (\<forall>c\<in>set h. is_host_char c \<or> isdigit c \<or> c = CHR '':''))"
      using uri_host_cases [of uri 256] by blast
    then show "\<forall>c\<in>set (uri_host uri 256). islower c \<or> isdigit c \<or> c \<in> {CHR ''.'', CHR ''-'', CHR '':''}"
      "length (uri_host uri 256) \<le> 253"
      using tolower_host by (elim disjE exE; simp)+
  qed
  have "\<not> (islower x \<or> isdigit x \<or> x \<in> {CHR ''.'', CHR ''-'', CHR '':''})" if "x = CR \<or> x = LF" for x
    using that by (auto simp: islower_def isdigit_def)
  then show ?thesis unfolding list_all_iff using c l by blast
qed

subsection \<open>The datagram and its reply\<close>

lemma find_page_zero: "find_page_from u i = Some p \<Longrightarrow> prefix page_key (drop p u)"
proof (induction u i rule: find_page_from.induct)
  case (1 u i)
  show ?case
  proof (cases "strstr (drop i u) page_key")
    case None
    then show ?thesis using "1.prems" by (simp add: find_page_from.simps [of u i])
  next
    case (Some k)
    then have "prefix page_key (drop (i + k) u)"
      using strstr_Some_prefix [OF Some] by (simp add: add.commute)
    then show ?thesis
      using "1.IH" [OF Some] "1.prems" Some by (auto simp: find_page_from.simps [of u i] split: if_splits)
  qed
qed

lemma set_page_param_defined:
  assumes "wbxml_set_page_param uri page n = None"
  shows "prefix page_key uri"
proof -
  let ?b = "cut_hash (fit 1024 uri)"
  have "find_page_from ?b 0 = Some 0"
    using assms by (auto simp: wbxml_set_page_param_def drop_page_def Let_def split: option.splits if_splits)
  then have "prefix page_key ?b" using find_page_zero by fastforce
  moreover have "prefix ?b uri"
    by (metis cut_hash_def fit_def prefix_order.trans take_is_prefix takeWhile_is_prefix)
  ultimately show ?thesis by (rule prefix_order.trans)
qed

lemma uri_path_of_page: "prefix page_key (uri_path_of uri) \<Longrightarrow> prefix page_key uri"
proof -
  have s: "\<not> prefix page_key (CHR ''/'' # x)" for x by (simp add: page_key_def)
  have d: "\<exists>x. drop (k + j) uri = CHR ''/'' # x" if "strchr (drop k uri) (CHR ''/'') = Some j" for k j
    using that by (metis strchr_Some Cons_nth_drop_Suc drop_drop add.commute)
  assume "prefix page_key (uri_path_of uri)"
  then show ?thesis using s d by (auto simp: uri_path_of_def split: option.splits) (metis s d)+
qed

lemma paged_build_defined: "paged_build src uri links page n = None \<Longrightarrow> prefix page_key uri"
  unfolding paged_build_def page_nav_def Let_def
  by (auto split: Option.bind_splits if_splits dest: set_page_param_defined uri_path_of_page)

lemma reply_page_defined: "reply_page resp uri page n = None \<Longrightarrow> prefix page_key uri"
  by (auto simp: reply_page_def wbxml_compile_page_def split: if_splits Option.bind_splits dest: paged_build_defined)

lemma handle_request_defined:
  assumes "handle_request cfg net uri post client_ip n = None"
  shows "prefix page_key uri"
proof -
  have h: "\<not> prefix page_key (fit 1400 (''http://'' @ x))" for x
    by (simp add: page_key_def fit_def)
  have f: "prefix page_key (fit 1400 uri) \<Longrightarrow> prefix page_key uri"
    by (metis fit_def prefix_order.trans take_is_prefix)
  show ?thesis
    using assms h f
    by (auto simp: handle_request_def Let_def split: option.splits prod.splits if_splits
        dest!: set_page_param_defined reply_page_defined)
qed

lemma reply_page_head: "reply_page resp uri page n = Some b \<Longrightarrow> \<exists>ct c. b = wsp_reply ct c"
  by (auto simp: reply_page_def message_reply_def split: if_splits)

lemma handle_request_head: "handle_request cfg net uri post client_ip n = Some b \<Longrightarrow> \<exists>ct c. b = wsp_reply ct c"
  by (auto simp: handle_request_def Let_def message_reply_def split: option.splits prod.splits dest: reply_page_head)

lemma wsp_reply_head: "wsp_reply ct c = [chr 0x04, chr 0x20, chr 1, chr (0x80 + ct)] @ c"
proof -
  have "uintvar_high k 0 = []" for k by (cases k) simp_all
  then show ?thesis by (simp add: wsp_reply_def bytes_uintvar_def)
qed

text \<open>
  The framings, written out in bytes: the bytes before the type of the request, and those before the
  reply. A Palm's transaction header has its type in four bits of the first byte, 1 in an invoke
  and 2 in a result, between a flag and three other bits; the plain framing has a transaction number.
\<close>

definition mirrors :: "Framing \<Rightarrow> string \<Rightarrow> string \<Rightarrow> bool" where
  "mirrors fr asked answered \<longleftrightarrow>
     (case fr of
        FRAMING_ROVER \<Rightarrow> (\<exists>flag low x y z. flag < 2 \<and> low < 8
           \<and> asked = [chr (128 * flag + 8 * 1 + low), x, y, z] \<and> answered = [chr (8 * 2 + low), x, y, z])
      | FRAMING_WSP \<Rightarrow> (\<exists>tid. asked = [tid] \<and> answered = [tid]))"

lemma invoke_byte:
  assumes "ord c div 8 mod 16 = 1"
  shows "\<exists>flag low. flag < 2 \<and> low < 8 \<and> c = chr (128 * flag + 8 * 1 + low) \<and> ord c mod 8 = low"
proof (intro exI conjI)
  have "ord c < 256" by simp
  then show "ord c div 128 < 2" by (simp add: less_mult_imp_div_less)
  show "ord c mod 8 < 8" by simp
  have "ord c = 128 * (ord c div 128) + 8 * 1 + ord c mod 8"
  proof -
    have "ord c = 8 * (ord c div 8) + ord c mod 8" by simp
    moreover have "ord c div 8 = 16 * (ord c div 8 div 16) + 1" using assms by (metis mult_div_mod_eq)
    moreover have "ord c div 8 div 16 = ord c div 128" by (simp add: div_mult2_eq [symmetric])
    ultimately show ?thesis by linarith
  qed
  then have "chr (128 * (ord c div 128) + 8 * 1 + ord c mod 8) = chr (ord c)" by (rule arg_cong [OF sym])
  then show "c = chr (128 * (ord c div 128) + 8 * 1 + ord c mod 8)" by simp
qed simp

lemma wsp_at_mirrors:
  assumes "wsp_at fr d = Some at"
  shows "mirrors fr (take at d) (reply_frame fr d) \<and> d = take at d @ (d ! at) # drop (Suc at) d"
proof (cases fr)
  case FRAMING_ROVER
  then have n: "6 \<le> length d" "ord (d ! 0) div 8 mod 16 = 1" "at = 4" using assms by (simp_all add: wsp_at_def split: if_splits)
  from n(1) obtain a x y z r where "d = a # x # y # z # r" by (auto simp: Suc_le_length_iff numeral_eq_Suc)
  then have "take 4 d = [d ! 0, d ! 1, d ! 2, d ! 3]" "take 3 (drop 1 d) = [d ! 1, d ! 2, d ! 3]"
    by (simp_all add: numeral_eq_Suc)
  moreover have "d = take at d @ (d ! at) # drop (Suc at) d" using n by (intro id_take_nth_drop) simp
  moreover obtain flag low where f: "flag < 2" "low < 8" "d ! 0 = chr (128 * flag + 8 * 1 + low)" "ord (d ! 0) mod 8 = low"
    using invoke_byte [OF n(2)] by blast
  moreover have "reply_frame fr d = chr (8 * 2 + low) # take 3 (drop 1 d)" using FRAMING_ROVER f(4) by (simp add: reply_frame_def)
  ultimately show ?thesis unfolding n(3) FRAMING_ROVER mirrors_def Framing.case
    by (intro conjI exI [of _ flag] exI [of _ low] exI [of _ "d ! 1"] exI [of _ "d ! 2"] exI [of _ "d ! 3"]) (simp_all only: FRAMING_ROVER)
next
  case FRAMING_WSP
  then have "3 \<le> length d" "at = 1" using assms by (simp_all add: wsp_at_def split: if_splits)
  moreover from this obtain a b r where "d = a # b # r" by (auto simp: Suc_le_length_iff numeral_eq_Suc)
  ultimately show ?thesis using FRAMING_WSP by (simp add: mirrors_def reply_frame_def)
qed

definition asks_get :: "nat \<Rightarrow> string \<Rightarrow> string \<Rightarrow> bool" where
  "asks_get pdu after uri \<longleftrightarrow> 0x40 \<le> pdu \<and> pdu \<le> 0x44
     \<and> (\<exists>k r. read_uintvar after = Some (k, r) \<and> 0 < k \<and> k \<le> 1000 \<and> k \<le> length r \<and> uri = cstr (take k r))"

definition asks_post :: "nat \<Rightarrow> string \<Rightarrow> string \<Rightarrow> WapPost \<Rightarrow> bool" where
  "asks_post pdu after uri p \<longleftrightarrow> pdu = 0x60
     \<and> (\<exists>k h r1 r. read_uintvar after = Some (k, r1) \<and> read_uintvar r1 = Some (h, r) \<and> 0 < k \<and> k \<le> 1000 \<and> k + h \<le> length r
          \<and> uri = cstr (take k r) \<and> post_body p = drop h (drop k r))"

lemma decode_request_asks:
  assumes "decode_request fr stale d = Some (uri, post)"
  obtains at pdu where "wsp_at fr d = Some at" "d ! at = chr pdu"
    "asks_get pdu (drop (Suc at) d) uri \<and> post = None \<or> (\<exists>p. asks_post pdu (drop (Suc at) d) uri p \<and> post = Some p)"
proof -
  obtain at where at: "wsp_at fr d = Some at" using assms by (auto simp: decode_request_def split: option.splits)
  have "asks_get (ord (d ! at)) (drop (Suc at) d) uri \<and> post = None
      \<or> (\<exists>p. asks_post (ord (d ! at)) (drop (Suc at) d) uri p \<and> post = Some p)"
    using assms at unfolding decode_request_def asks_get_def asks_post_def Let_def
    by (auto split: option.splits if_splits prod.splits simp: not_less)
  then show thesis using that [of at "ord (d ! at)"] at by simp
qed

text \<open>
  C32. What a datagram can get back. A reply is sent only to a request in the socket's framing: in
  the Palm framing a transaction header of four bytes whose type is invoke, which comes back with
  result in place of the type, the flag cleared and nothing else changed; in the other the
  transaction byte, which comes back as it is. The byte after it is one of the five types of the GET
  family, followed by the length of a URI of 1 to 1000 bytes and the URI, or that of a Post, followed
  by the lengths of URI and headers, the URI, the headers and the form. The sender is within its
  limit, and the reply is what the gateway has for that URI and form, with status OK and one header.
\<close>

theorem datagram_reply:
  assumes "handle_datagram cfg net now fr stale d from tab = Some (Some out, tab')"
  shows "\<exists>asked answered pdu after uri post ct b. d = asked @ chr pdu # after
       \<and> (case fr of
            FRAMING_ROVER \<Rightarrow> (\<exists>flag low x y z. flag < 2 \<and> low < 8
               \<and> asked = [chr (128 * flag + 8 * 1 + low), x, y, z] \<and> answered = [chr (8 * 2 + low), x, y, z])
          | FRAMING_WSP \<Rightarrow> (\<exists>tid. asked = [tid] \<and> answered = [tid]))
       \<and> (asks_get pdu after uri \<and> post = None \<or> (\<exists>p. asks_post pdu after uri p \<and> post = Some p))
       \<and> rate_allow (wap_gateway_rate_limit cfg) now (ip_number from) tab = (True, tab')
       \<and> handle_request cfg net uri post (inet_ntop4 from) WAP_PAGE_BYTES = Some ([chr 0x04, chr 0x20, chr 1, chr (0x80 + ct)] @ b)
       \<and> out = answered @ [chr 0x04, chr 0x20, chr 1, chr (0x80 + ct)] @ b"
proof -
  obtain uri post where dec: "decode_request fr stale d = Some (uri, post)"
    using assms by (auto simp: handle_datagram_def split: option.splits)
  obtain ok t where ra: "rate_allow (wap_gateway_rate_limit cfg) now (ip_number from) tab = (ok, t)" by fastforce
  obtain b where b: "handle_request cfg net uri post (inet_ntop4 from) WAP_PAGE_BYTES = Some b"
    "ok" "t = tab'" "out = reply_frame fr d @ b"
    using assms dec ra by (auto simp: handle_datagram_def split: option.splits if_splits)
  obtain ct c where h: "b = [chr 0x04, chr 0x20, chr 1, chr (0x80 + ct)] @ c"
    using handle_request_head [OF b(1)] wsp_reply_head by metis
  obtain at pdu where a: "wsp_at fr d = Some at" "d ! at = chr pdu"
    "asks_get pdu (drop (Suc at) d) uri \<and> post = None \<or> (\<exists>p. asks_post pdu (drop (Suc at) d) uri p \<and> post = Some p)"
    by (rule decode_request_asks [OF dec])
  note m = wsp_at_mirrors [OF a(1), unfolded mirrors_def a(2)]
  have "rate_allow (wap_gateway_rate_limit cfg) now (ip_number from) tab = (True, tab')" using ra b(2,3) by simp
  moreover have "handle_request cfg net uri post (inet_ntop4 from) WAP_PAGE_BYTES = Some ([chr 0x04, chr 0x20, chr 1, chr (0x80 + ct)] @ c)"
    using b(1) h by simp
  moreover have "out = reply_frame fr d @ [chr 0x04, chr 0x20, chr 1, chr (0x80 + ct)] @ c" using b(4) h by simp
  ultimately show ?thesis using m a(3)
    by (intro exI [of _ "take at d"] exI [of _ "reply_frame fr d"] exI [of _ pdu] exI [of _ "drop (Suc at) d"]
        exI [of _ uri] exI [of _ post] exI [of _ ct] exI [of _ c] conjI) simp_all
qed

text \<open>
  Conversely, every request of the GET family in the socket's framing is answered when its sender is within
  its limit, whatever the site says and whatever follows the URI.
\<close>

theorem get_datagram_answered:
  assumes "mirrors fr asked answered" "0x40 \<le> pdu" "pdu \<le> 0x44" "uri \<noteq> []" "length uri \<le> 1000" "NUL \<notin> set uri"
    and "\<not> prefix ''__page='' uri" "rate_allow (wap_gateway_rate_limit cfg) now (ip_number from) tab = (True, tab')"
  shows "\<exists>b. handle_datagram cfg net now fr stale (asked @ chr pdu # bytes_uintvar (length uri) @ uri @ rest) from tab
      = Some (Some (answered @ b), tab')"
proof -
  let ?d = "asked @ chr pdu # bytes_uintvar (length uri) @ uri @ rest"
  have u: "read_uintvar (bytes_uintvar (length uri) @ uri @ rest) = Some (length uri, uri @ rest)"
    using uintvar_roundtrip assms(5) by simp
  have o: "ord (chr pdu) = pdu" using assms(3) by simp
  have at: "wsp_at fr ?d = Some (length asked) \<and> reply_frame fr ?d = answered"
  proof (cases fr)
    case FRAMING_ROVER
    then obtain flag low x y z where f: "flag < 2" "low < 8" "asked = [chr (128 * flag + 8 * 1 + low), x, y, z]"
      "answered = [chr (8 * 2 + low), x, y, z]" using assms(1) by (auto simp: mirrors_def)
    have "flag = 0 \<or> flag = 1" using f(1) by linarith
    then have "ord (chr (128 * flag + 8 * 1 + low)) = 128 * flag + 8 + low" using f(2) by auto
    moreover have "(128 * flag + 8 + low) div 8 mod 16 = 1" "(128 * flag + 8 + low) mod 8 = low"
    proof -
      have e: "128 * flag + 8 + low = 8 * (16 * flag + 1) + low" by simp
      have q: "(8 * m + low) div 8 = m" "(8 * m + low) mod 8 = low" for m using f(2) by simp_all
      show "(128 * flag + 8 + low) div 8 mod 16 = 1" unfolding e q(1) by simp
      show "(128 * flag + 8 + low) mod 8 = low" unfolding e by (rule q(2))
    qed
    moreover have "0 < length uri" using assms(4) by simp
    ultimately show ?thesis using FRAMING_ROVER f by (simp add: wsp_at_def reply_frame_def bytes_uintvar_def)
  next
    case FRAMING_WSP
    then show ?thesis using assms(1,4) by (auto simp: mirrors_def wsp_at_def reply_frame_def bytes_uintvar_def)
  qed
  have dec: "decode_request fr stale ?d = Some (uri, None)"
    using at u o assms(2-6) by (simp add: decode_request_def Let_def cstr_id nth_append)
  obtain b where b: "handle_request cfg net uri None (inet_ntop4 from) WAP_PAGE_BYTES = Some b"
    using handle_request_defined [of cfg net uri None "inet_ntop4 from" WAP_PAGE_BYTES] assms(7)
    by (cases "handle_request cfg net uri None (inet_ntop4 from) WAP_PAGE_BYTES") (auto simp: page_key_def)
  then have "b \<noteq> []" using handle_request_head [OF b] wsp_reply_head by auto
  then show ?thesis using dec b at assms(8) by (simp add: handle_datagram_def)
qed

text \<open>
  Every datagram is handled. Whatever bytes arrive, in either framing, and whatever the site
  answers, the gateway's behaviour is defined, unless the URI asked for starts with the page
  parameter itself.
\<close>

theorem datagram_defined:
  assumes "handle_datagram cfg net now fr stale d from tab = None"
  shows "\<exists>uri post. decode_request fr stale d = Some (uri, post) \<and> prefix ''__page='' uri"
proof -
  obtain uri post where dec: "decode_request fr stale d = Some (uri, post)"
    using assms by (auto simp: handle_datagram_def split: option.splits)
  have "handle_request cfg net uri post (inet_ntop4 from) WAP_PAGE_BYTES = None"
    using assms dec by (auto simp: handle_datagram_def split: option.splits if_splits prod.splits)
  then show ?thesis using dec handle_request_defined by (fastforce simp: page_key_def)
qed

text \<open>The requests of a redirect chain: at most one for each hop, and a form only on the first.\<close>

lemma fetch_page_sent:
  "fetch_page cfg net host path client_ip post = (sent, r) \<Longrightarrow>
   sent = [] \<or> (\<exists>target req. sent = [req] \<and> fetch_target cfg = Some target
      \<and> request_bytes cfg target host path client_ip post = Some req)"
  by (auto simp: fetch_page_def split: option.splits)

lemma follow_sent:
  "follow cfg net hops host path client_ip post prev = (sent, h, p, r) \<Longrightarrow>
   length sent \<le> hops \<and>
   (\<forall>i<length sent. i > 0 \<or> post = None \<longrightarrow>
      (\<exists>target h' p'. fetch_target cfg = Some target \<and> request_bytes cfg target h' p' client_ip None = Some (sent ! i)))"
proof (induction hops arbitrary: host path post prev sent h p r)
  case 0
  then show ?case by simp
next
  case (Suc hops)
  obtain s1 r1 where f: "fetch_page cfg net host (hop_path path) client_ip post = (s1, r1)" by fastforce
  note s1 = fetch_page_sent [OF f]
  show ?case
  proof (cases "\<exists>resp. r1 = Some resp \<and> \<not> (status resp < 300 \<or> status resp \<ge> 400 \<or> location resp = [])")
    case False
    then have "sent = s1" using Suc.prems f by (auto split: option.splits)
    then show ?thesis using s1 by auto blast
  next
    case True
    then obtain resp where resp: "r1 = Some resp" "\<not> (status resp < 300 \<or> status resp \<ge> 400 \<or> location resp = [])" by blast
    obtain h' p' s2 h2 p2 r2 where rec: "follow cfg net hops h' p' client_ip None (Some resp) = (s2, h2, p2, r2)"
      and sent: "sent = s1 @ s2"
      using Suc.prems f resp by (auto simp: Let_def split: prod.splits)
    note IH = Suc.IH [OF rec]
    show ?thesis using s1 IH sent by (auto simp: nth_append nth_Cons' split: if_splits) blast
  qed
qed

text \<open>
  Redirects end and a form is posted once. Following redirects sends at most four requests
  (the first and three more), each to the configured target, and all but the first are GETs
  without a body, so a redirect after a post never posts again.
\<close>

theorem fetch_following_bounded:
  assumes "fetch_following cfg net host path client_ip post = (sent, h, p, r)"
  shows "length sent \<le> 4 \<and>
    (\<forall>i<length sent. i > 0 \<longrightarrow>
      (\<exists>target h' p'. fetch_target cfg = Some target \<and> request_bytes cfg target h' p' client_ip None = Some (sent ! i)))"
  using follow_sent [OF assms [unfolded fetch_following_def]] by (simp add: MAX_REDIRECTS_def)

subsection \<open>The rate limit\<close>

text \<open>The table with its limit, for the contract of a rate limiter; a free slot has no key.\<close>

definition rate_key :: "RateEntry \<Rightarrow> nat option" where
  "rate_key e = (if re_ip e = 0 then None else Some (re_ip e))"

definition rate_step :: "int \<Rightarrow> nat \<Rightarrow> int \<times> RateEntry list \<Rightarrow> (bool \<times> int \<times> RateEntry list) option" where
  "rate_step now ip s = (case rate_allow (fst s) now ip (snd s) of (ok, tab) \<Rightarrow> Some (\<not> ok, fst s, tab))"

definition rate_inv :: "int \<times> RateEntry list \<Rightarrow> bool" where
  "rate_inv s \<longleftrightarrow> 0 < fst s \<and> length (snd s) = RATE_TABLE_SIZE \<and> slots_distinct rate_key (snd s)
     \<and> (\<forall>e\<in>set (snd s). 0 \<le> re_count e)"

definition rate_view :: "int \<times> RateEntry list \<Rightarrow> nat \<Rightarrow> RateEntry option" where
  "rate_view s ip = slot_lookup rate_key (snd s) ip"

lemma count_entry_props:
  "count_entry lim e = (ok, e') \<Longrightarrow> re_ip e' = re_ip e \<and> re_count e' = re_count e + 1
     \<and> window_start e' = window_start e \<and> (ok \<longleftrightarrow> re_count e + 1 \<le> lim)"
  by (auto simp: count_entry_def Let_def split: if_splits)

lemma roll_entry_props: "re_ip (roll_entry now e) = re_ip e \<and> (re_count (roll_entry now e) = re_count e \<or> re_count (roll_entry now e) = 0)"
  by (simp add: roll_entry_def)

text \<open>One request updates exactly one slot, the one of its address.\<close>

lemma rate_step_cases:
  assumes inv: "rate_inv s" and ip: "ip \<noteq> 0"
  obtains i e r where "rate_step now ip s = Some (r, fst s, (snd s)[i := e])"
    "owns rate_key (snd s) i ip" "rate_key e = Some ip" "0 < re_count e" "r \<longleftrightarrow> fst s < re_count e"
    "re_count e \<le> hits_of re_count (rate_view s ip) + 1"
    "rate_view s ip = None \<Longrightarrow> re_count e = 1 \<and> window_start e = now"
    "\<And>x. rate_view s ip = Some x \<Longrightarrow> re_count e = re_count (roll_entry now x) + 1 \<and> window_start e = window_start (roll_entry now x)"
proof (cases "first_index (\<lambda>e. re_ip e = ip) (snd s)")
  case None
  let ?i = "oldest_index (map window_start (snd s))" and ?e = "empty_entry\<lparr>re_ip := ip, window_start := now\<rparr>"
  obtain ok e where c: "count_entry (fst s) ?e = (ok, e)" by fastforce
  note p = count_entry_props [OF c]
  have ne: "snd s \<noteq> []" using inv by (auto simp: rate_inv_def RATE_TABLE_SIZE_def)
  have no: "\<forall>e\<in>set (snd s). rate_key e \<noteq> Some ip"
    using None ip by (auto simp: first_index_None rate_key_def)
  then have v: "rate_view s ip = None" by (simp add: rate_view_def slot_lookup_None)
  have "?i < length (snd s)" using oldest_index_less [of "map window_start (snd s)"] ne by simp
  then have o: "owns rate_key (snd s) ?i ip" using owns_new [OF no] by blast
  have st: "rate_step now ip s = Some (\<not> ok, fst s, (snd s)[?i := e])"
    using None c inv by (simp add: rate_step_def rate_allow_def rate_inv_def)
  show ?thesis
    by (rule that [OF st o]) (use p v ip in \<open>auto simp: rate_key_def empty_entry_def hits_of_def\<close>)
next
  case (Some i)
  then have i: "i < length (snd s)" "re_ip (snd s ! i) = ip"
    using first_index_Some [OF Some] by auto
  let ?e = "roll_entry now (snd s ! i)"
  obtain ok e where c: "count_entry (fst s) ?e = (ok, e)" by fastforce
  note p = count_entry_props [OF c]
  have k: "rate_key (snd s ! i) = Some ip" using i ip by (simp add: rate_key_def)
  have d: "slots_distinct rate_key (snd s)" using inv by (simp add: rate_inv_def)
  have v: "rate_view s ip = Some (snd s ! i)"
    unfolding rate_view_def by (rule slot_lookup_unique [OF i(1) k d])
  have o: "owns rate_key (snd s) i ip" by (rule owns_found [OF d i(1) k])
  have st: "rate_step now ip s = Some (\<not> ok, fst s, (snd s)[i := e])"
    using Some c inv by (simp add: rate_step_def rate_allow_def rate_inv_def)
  have n: "0 \<le> re_count (snd s ! i)" using inv i by (simp add: rate_inv_def)
  show ?thesis
    by (rule that [OF st o]) (use p v n i ip roll_entry_props [of now "snd s ! i"] in \<open>auto simp: rate_key_def hits_of_def\<close>)
qed

lemma rate_step_view:
  assumes inv: "rate_inv s" and ip: "ip \<noteq> 0"
  obtains r s' e where "rate_step now ip s = Some (r, s')" "rate_inv s'" "fst s' = fst s" "rate_view s' ip = Some e"
    "r \<longleftrightarrow> fst s < re_count e" "re_count e \<le> hits_of re_count (rate_view s ip) + 1"
    "rate_view s ip = None \<Longrightarrow> re_count e = 1 \<and> window_start e = now"
    "\<And>x. rate_view s ip = Some x \<Longrightarrow> re_count e = re_count (roll_entry now x) + 1 \<and> window_start e = window_start (roll_entry now x)"
    "\<And>ip'. ip' \<noteq> ip \<Longrightarrow> rate_view s' ip' = rate_view s ip' \<or> rate_view s' ip' = None"
proof (rule rate_step_cases [OF inv ip, of now])
  fix i e r
  assume st: "rate_step now ip s = Some (r, fst s, (snd s)[i := e])" and o: "owns rate_key (snd s) i ip"
    and k: "rate_key e = Some ip" and n: "0 < re_count e" and r: "r \<longleftrightarrow> fst s < re_count e"
    and h: "re_count e \<le> hits_of re_count (rate_view s ip) + 1"
    and a: "rate_view s ip = None \<Longrightarrow> re_count e = 1 \<and> window_start e = now"
    and b: "\<And>x. rate_view s ip = Some x \<Longrightarrow>
        re_count e = re_count (roll_entry now x) + 1 \<and> window_start e = window_start (roll_entry now x)"
  have d: "slots_distinct rate_key (snd s)" using inv by (simp add: rate_inv_def)
  have v: "rate_view (fst s, (snd s)[i := e]) ip = Some e"
    using slot_lookup_update [OF d o k] by (simp add: rate_view_def)
  have inv': "rate_inv (fst s, (snd s)[i := e])"
    using inv slots_distinct_update [OF d o k] n set_update_subset_insert [of "snd s" i e]
    by (auto simp: rate_inv_def)
  have other: "rate_view (fst s, (snd s)[i := e]) ip' = rate_view s ip' \<or> rate_view (fst s, (snd s)[i := e]) ip' = None"
    if "ip' \<noteq> ip" for ip'
    using slot_lookup_update_other [OF d o k that] by (simp add: rate_view_def)
  show ?thesis by (rule that [OF st inv' _ v r h a b other]) simp_all
qed

interpretation wap: rate_limiter rate_step rate_view re_count fst rate_inv "\<lambda>ip. ip \<noteq> 0"
proof
  fix s :: "int \<times> RateEntry list" and ip :: nat and now
  assume inv: "rate_inv s" and ip: "ip \<noteq> 0"
  show "\<exists>r s'. rate_step now ip s = Some (r, s')"
    by (rule rate_step_view [OF inv ip, of now]) blast
  show "0 \<le> hits_of re_count (rate_view s ip)"
  proof (cases "rate_view s ip")
    case (Some e)
    then show ?thesis
      using slot_lookup_Some [of rate_key "snd s" ip e] inv by (simp add: rate_view_def rate_inv_def hits_of_def)
  qed (simp add: hits_of_def)
next
  fix s s' :: "int \<times> RateEntry list" and ip :: nat and now r
  assume inv: "rate_inv s" and ip: "ip \<noteq> 0" and st: "rate_step now ip s = Some (r, s')"
  show "rate_inv s' \<and> fst s' = fst s"
    by (rule rate_step_view [OF inv ip, of now]) (use st in auto)
  show "hits_of re_count (rate_view s' ip) \<le> hits_of re_count (rate_view s ip) + 1"
    by (rule rate_step_view [OF inv ip, of now]) (use st in \<open>simp add: hits_of_def [of _ "Some _"]\<close>)
next
  fix s s' :: "int \<times> RateEntry list" and ip ip' :: nat and now r
  assume inv: "rate_inv s" and ip: "ip \<noteq> 0" and ip': "ip' \<noteq> ip" and st: "rate_step now ip s = Some (r, s')"
  show "rate_view s' ip' = rate_view s ip' \<or> rate_view s' ip' = None"
    by (rule rate_step_view [OF inv ip, of now]) (use st ip' in simp)
next
  fix s s' :: "int \<times> RateEntry list" and ip :: nat and now
  assume inv: "rate_inv s" and ip: "ip \<noteq> 0" and st: "rate_step now ip s = Some (True, s')"
  show "fst s < hits_of re_count (rate_view s' ip)"
    by (rule rate_step_view [OF inv ip, of now]) (use st in \<open>simp add: hits_of_def [of _ "Some _"]\<close>)
qed

lemma wap_flood_run:
  "rate_inv s \<Longrightarrow> ip \<noteq> 0 \<Longrightarrow> rate_view s ip = Some x \<Longrightarrow> \<forall>t\<in>set ts. t - window_start x < RATE_WINDOW_SEC \<Longrightarrow>
   \<exists>rs s' y. run_requests rate_step (map (\<lambda>t. (t, ip)) ts) s = Some (rs, s') \<and> length rs = length ts
     \<and> (\<forall>i<length ts. rs ! i \<longleftrightarrow> fst s < re_count x + int i + 1)
     \<and> rate_inv s' \<and> fst s' = fst s \<and> rate_view s' ip = Some y \<and> window_start y = window_start x"
proof (induction ts arbitrary: s x)
  case Nil
  then show ?case by simp
next
  case (Cons t ts)
  have roll: "roll_entry t x = x" using Cons.prems(4) by (simp add: roll_entry_def)
  obtain r s1 e where st: "rate_step t ip s = Some (r, s1)" "rate_inv s1" "fst s1 = fst s" "rate_view s1 ip = Some e"
    "r \<longleftrightarrow> fst s < re_count e" "re_count e = re_count x + 1" "window_start e = window_start x"
    by (rule rate_step_view [OF Cons.prems(1,2), of t]) (use Cons.prems(3) roll that in simp)
  obtain rs s' y where IH: "run_requests rate_step (map (\<lambda>t. (t, ip)) ts) s1 = Some (rs, s')" "length rs = length ts"
    "\<forall>i<length ts. rs ! i \<longleftrightarrow> fst s1 < re_count e + int i + 1" "rate_inv s'" "fst s' = fst s1"
    "rate_view s' ip = Some y" "window_start y = window_start e"
    using Cons.IH [OF st(2) Cons.prems(2) st(4)] st(7) Cons.prems(4) by auto
  have "(r # rs) ! i \<longleftrightarrow> fst s < re_count x + int i + 1" if "i < length (t # ts)" for i
    using that IH(3) st by (cases i) (auto simp: algebra_simps)
  then show ?case using st IH by simp
qed

text \<open>
  The gateway is no amplifier. A source that sends any number of requests within a window
  gets exactly as many answers as the limit allows, and no more until the window is over; then
  it is answered again.
\<close>

theorem wap_rate_window:
  assumes "rate_inv s" "ip \<noteq> 0" "rate_view s ip = None" "\<forall>t\<in>set ts. t - t0 < RATE_WINDOW_SEC"
    and "t0 + RATE_WINDOW_SEC \<le> t1"
  shows "\<exists>rs s' s''. run_requests rate_step (map (\<lambda>t. (t, ip)) (t0 # ts)) s = Some (rs, s')
     \<and> (\<forall>i<length rs. rs ! i \<longleftrightarrow> fst s \<le> int i) \<and> length rs = Suc (length ts)
     \<and> rate_step t1 ip s' = Some (False, s'')"
proof -
  obtain r s1 e where st: "rate_step t0 ip s = Some (r, s1)" "rate_inv s1" "fst s1 = fst s" "rate_view s1 ip = Some e"
    "r \<longleftrightarrow> fst s < re_count e" "re_count e = 1" "window_start e = t0"
    by (rule rate_step_view [OF assms(1,2), of t0]) (use assms(3) that in simp)
  obtain rs s' y where run: "run_requests rate_step (map (\<lambda>t. (t, ip)) ts) s1 = Some (rs, s')" "length rs = length ts"
    "\<forall>i<length ts. rs ! i \<longleftrightarrow> fst s1 < re_count e + int i + 1" "rate_inv s'" "fst s' = fst s1"
    "rate_view s' ip = Some y" "window_start y = window_start e"
    using wap_flood_run [OF st(2) assms(2) st(4), of ts] assms(4) st(7) by auto
  have pos: "0 < fst s" using assms(1) by (simp add: rate_inv_def)
  have all: "(r # rs) ! i \<longleftrightarrow> fst s \<le> int i" if "i < length (r # rs)" for i
    using that run(2,3) st pos by (cases i) auto
  obtain r2 s2 and e2 :: RateEntry where w: "rate_step t1 ip s' = Some (r2, s2)" "r2 \<longleftrightarrow> fst s' < re_count e2"
    "re_count e2 = re_count (roll_entry t1 y) + 1"
  proof (rule rate_step_view [OF run(4) assms(2), of t1])
    fix r2 s2 and e2 :: RateEntry
    assume a: "rate_step t1 ip s' = Some (r2, s2)" "r2 \<longleftrightarrow> fst s' < re_count e2"
      and b: "\<And>x. rate_view s' ip = Some x \<Longrightarrow>
        re_count e2 = re_count (roll_entry t1 x) + 1 \<and> window_start e2 = window_start (roll_entry t1 x)"
    show ?thesis using that [OF a] b [OF run(6)] by blast
  qed
  have "re_count (roll_entry t1 y) = 0" using assms(5) run(7) st(7) by (simp add: roll_entry_def)
  then have "rate_step t1 ip s' = Some (False, s2)" using w pos run(5) st(3) by simp
  moreover have "run_requests rate_step (map (\<lambda>t. (t, ip)) (t0 # ts)) s = Some (r # rs, s')"
    using st(1) run(1) by simp
  ultimately show ?thesis using all run(2) by (metis length_Cons)
qed

text \<open>
  A phone is never refused because of others: from a table that does not know it, its
  first requests up to the limit are answered, however many requests other addresses make in
  between and whichever slots they take.
\<close>

theorem wap_no_innocent_refused:
  assumes "rate_inv s" "rate_view s ip = None" "\<forall>q\<in>set reqs. snd q \<noteq> 0" "int (requests_of ip reqs) \<le> fst s"
    and "run_requests rate_step reqs s = Some (rs, s')" "i < length reqs" "snd (reqs ! i) = ip"
  shows "\<not> rs ! i"
  by (rule wap.within_limit_served [OF assms])

subsection \<open>Witnesses\<close>

definition plain_cfg :: wap_cfg where
  "plain_cfg =
     \<lparr>http_port = 80, listen_address = [], wap_upstream = [], wap_upstream_proxy_protocol = False,
      proxy_protocol = False, trusted_proxies = [], wap_gateway_rate_limit = 60, wap_gateway_enabled = True,
      wap_gateway_ips = [], wap_gateway_rover_port = 49300, wap_gateway_wsp_port = 9200\<rparr>"

definition empty_table :: "RateEntry list" where
  "empty_table = replicate RATE_TABLE_SIZE empty_entry"

lemma empty_table_inv: "0 < n \<Longrightarrow> rate_inv (n, empty_table)" "rate_view (n, empty_table) ip = None"
  by (auto simp: rate_inv_def empty_table_def slots_distinct_def rate_view_def slot_lookup_None rate_key_def empty_entry_def)

theorem wap_rate_window_witness:
  "\<exists>rs s' s''. run_requests rate_step (map (\<lambda>t. (t, 7)) [100, 101, 159]) (2, empty_table) = Some (rs, s')
     \<and> (\<forall>i<length rs. rs ! i \<longleftrightarrow> 2 \<le> int i) \<and> length rs = 3 \<and> rate_step 160 7 s' = Some (False, s'')"
  using wap_rate_window [of "(2, empty_table)" 7 "[101, 159]" 100 160] empty_table_inv [of 2] by (simp add: RATE_WINDOW_SEC_def numeral_3_eq_3)

theorem wap_no_innocent_refused_witness:
  "\<not> fst (the (run_requests rate_step [(1, 5), (1, 6)] (1, empty_table))) ! 1"
proof -
  obtain rs s' where r: "run_requests rate_step [(1, 5), (1, 6)] (1, empty_table) = Some (rs, s')"
    using wap.run_total [OF empty_table_inv(1), of 1 "[(1, 5), (1, 6)]"] by auto
  have "\<not> rs ! 1"
    by (rule wap_no_innocent_refused [OF _ _ _ _ r, of 6]) (simp_all add: requests_of_def empty_table_inv)
  then show ?thesis using r by simp
qed

theorem fetch_following_bounded_witness:
  "length (fst (fetch_following plain_cfg (\<lambda>a p r. None) [] ''/'' ''10.0.0.1'' None)) \<le> 4"
proof (cases "fetch_following plain_cfg (\<lambda>a p r. None) [] ''/'' ''10.0.0.1'' None")
  case (fields sent h p r)
  then show ?thesis using fetch_following_bounded [OF fields] by simp
qed

text \<open>A connectionless WSP request for the home page, and the reply when the site is down.\<close>

definition get_root :: string where
  "get_root = [chr 9, chr 0x40, chr 1, CHR ''/'']"

lemma read_uintvar_small: "ord c < 128 \<Longrightarrow> read_uintvar (c # s) = Some (ord c, s)"
  using read_uintvar_loop.simps(3) [of 4 0 c s] by (simp add: read_uintvar_def Let_def)

lemma get_root_decoded: "decode_request FRAMING_WSP NUL get_root = Some (''/'', None)"
  by (simp add: decode_request_def wsp_at_def get_root_def Let_def read_uintvar_small cstr_def)

lemma get_root_request:
  "\<exists>b. handle_request plain_cfg (\<lambda>a p r. None) ''/'' None ip n = Some b \<and> b \<noteq> []"
proof (cases "handle_request plain_cfg (\<lambda>a p r. None) ''/'' None ip n")
  case None
  then show ?thesis using handle_request_defined [OF None] by (simp add: page_key_def)
next
  case (Some b)
  then show ?thesis using handle_request_head [OF Some] wsp_reply_head by auto
qed

theorem datagram_reply_witness:
  "\<exists>out tab'. handle_datagram plain_cfg (\<lambda>a p r. None) 100 FRAMING_WSP NUL get_root (chr 10 # replicate 3 (chr 1)) empty_table
       = Some (Some out, tab')
     \<and> (\<exists>ct b. out = [chr 9, chr 0x04, chr 0x20, chr 1, chr (0x80 + ct)] @ b)"
proof -
  let ?ip = "chr 10 # replicate 3 (chr 1)"
  have "ip_number ?ip \<noteq> 0" by (simp add: ip_number_def)
  have "\<exists>s'. rate_step 100 (ip_number ?ip) (60, empty_table) = Some (False, s')"
    by (rule rate_step_view [OF empty_table_inv(1) \<open>ip_number ?ip \<noteq> 0\<close>, of 60 100]) (simp_all add: empty_table_inv(2))
  then obtain tab' where ra: "rate_allow 60 100 (ip_number ?ip) empty_table = (True, tab')"
    by (auto simp: rate_step_def split: prod.splits)
  obtain b where b: "handle_request plain_cfg (\<lambda>a p r. None) ''/'' None (inet_ntop4 ?ip) WAP_PAGE_BYTES = Some b" "b \<noteq> []"
    using get_root_request by blast
  have h: "handle_datagram plain_cfg (\<lambda>a p r. None) 100 FRAMING_WSP NUL get_root ?ip empty_table
      = Some (Some (reply_frame FRAMING_WSP get_root @ b), tab')"
    using b ra by (simp add: handle_datagram_def get_root_decoded plain_cfg_def)
  then show ?thesis using datagram_reply [OF h] by (auto simp: get_root_def)
qed

theorem datagram_defined_witness:
  "\<exists>uri post. decode_request FRAMING_WSP NUL (chr 9 # chr 0x40 # chr 8 # ''__page=2'') = Some (uri, post)
     \<and> prefix ''__page='' uri"
proof -
  let ?d = "chr 9 # chr 0x40 # chr 8 # ''__page=2''"
  have "decode_request FRAMING_WSP NUL ?d = Some (''__page=2'', None)"
    by (simp add: decode_request_def wsp_at_def Let_def read_uintvar_small cstr_def)
  then have "handle_datagram (plain_cfg\<lparr>wap_gateway_rate_limit := 0\<rparr>) (\<lambda>a p r. None) 100 FRAMING_WSP NUL ?d ''abcd'' empty_table = None"
    by (simp add: handle_datagram_def rate_allow_def handle_request_def set_page_param_first)
  then show ?thesis by (rule datagram_defined)
qed

subsection \<open>What the path carries along\<close>

definition crafted_uri :: string where
  "crafted_uri = ''http://h/ HTTP/1.0'' @ CRLF @ ''X-Forwarded-For: 1.2.3.4'' @ CRLF @ ''A: ''"

text \<open>
  The path of a URI goes into the request as it is, line breaks included: a phone that asks
  for a crafted URI adds a header line of its own to the gateway's request, and the server's
  own parser reads it before the gateway's, here a forged client address.
\<close>

theorem phone_uri_injects_header:
  "map_option (\<lambda>r. hd (req_headers r))
     (parse_http_request (wap_request_text [] (hop_path (local_path crafted_uri 1100)) ''10.0.0.1'' None))
   = Some \<lparr>hkey = ''X-Forwarded-For'', hval = ''1.2.3.4''\<rparr>"
  by code_simp

end
