(* ===== verification/Markdown_Lite.thy ===== *)
theory Markdown_Lite
  imports BR_Prelude
begin

text \<open>
  The small Markdown of extension readmes and release notes
  (src/src/utils/markdown_lite.c): the scanner of inline markup, the collector of blocks and
  the loop over the lines. A \<open>Buf\<close> is the string it holds; running out of memory is not
  modelled. \<open>link_base\<close> is None for a NULL pointer.
\<close>

subsection \<open>Text and searches\<close>

definition md_esc :: "char \<Rightarrow> string" where
  "md_esc c =
     (if c = CHR ''&'' then ''&amp;'' else if c = CHR ''<'' then ''&lt;''
      else if c = CHR ''>'' then ''&gt;'' else if c = DQ then ''&quot;''
      else if c = SQ then ''&#39;'' else [c])"

definition buf_escaped :: "string \<Rightarrow> string" where
  "buf_escaped s = concat (map md_esc s)"

definition is_http :: "string \<Rightarrow> bool" where
  "is_http url \<longleftrightarrow> (7 < length url \<and> prefix ''http://'' url) \<or> (8 < length url \<and> prefix ''https://'' url)"

text \<open>
  The parts of a link whose bracket has been read: its text, its target and what follows. The
  searches start where the bracket ends, so they see the rest of the line only.
\<close>

definition link_parts :: "string \<Rightarrow> (string \<times> string \<times> string) option" where
  "link_parts r =
     (case strstr r ''](''  of
        None \<Rightarrow> None
      | Some k \<Rightarrow>
          if LF \<in> set (take k r) then None
          else (case strstr (drop (k + 2) r) '')'' of
                  None \<Rightarrow> None
                | Some j \<Rightarrow> Some (take k r, take j (drop (k + 2) r), drop (k + 2 + j + 1) r)))"

definition link_relative :: "string \<Rightarrow> bool" where
  "link_relative url \<longleftrightarrow> CHR '':'' \<notin> set url \<and> 0 < length url \<and> hd url \<noteq> CHR ''/'' \<and> hd url \<noteq> CHR ''#''"

definition link_open :: "string option \<Rightarrow> string \<Rightarrow> string" where
  "link_open link_base url =
     ''<a href='' @ [DQ] @ (if link_relative url then buf_escaped (the link_base) else []) @ buf_escaped url
       @ [DQ] @ '' rel='' @ [DQ] @ ''noopener noreferrer'' @ [DQ] @ ''>''"

definition is_link :: "string option \<Rightarrow> string \<Rightarrow> bool" where
  "is_link link_base url \<longleftrightarrow> is_http url \<or> (link_relative url \<and> link_base \<noteq> None)"

lemma link_parts_length:
  assumes "link_parts r = Some (t, u, rest)"
  shows "length t < Suc (length r)" "length rest < Suc (length r)"
  using assms by (auto simp: link_parts_def split: option.splits if_splits)

text \<open>
  Inline markup: the argument is the line from \<open>s + i\<close> on. A backquote, star or bracket that
  opens nothing is written as it is.
\<close>

function inline_html :: "string option \<Rightarrow> string \<Rightarrow> string" where
  "inline_html base [] = []"
| "inline_html base (c # r) =
     (if c = CHR ''`'' then
        (case strstr r ''`'' of
           Some k \<Rightarrow> if 0 < k then ''<code>'' @ buf_escaped (take k r) @ ''</code>'' @ inline_html base (drop (k + 1) r)
                      else md_esc c @ inline_html base r
         | None \<Rightarrow> md_esc c @ inline_html base r)
      else if c = CHR ''*'' \<and> r \<noteq> [] \<and> hd r = CHR ''*'' then
        (case strstr (tl r) ''**'' of
           Some k \<Rightarrow> if 0 < k then ''<strong>'' @ inline_html base (take k (tl r)) @ ''</strong>'' @ inline_html base (drop (k + 2) (tl r))
                      else md_esc c @ inline_html base r
         | None \<Rightarrow> md_esc c @ inline_html base r)
      else if c = CHR ''*'' \<and> r \<noteq> [] \<and> hd r \<noteq> CHR '' '' then
        (case strstr r ''*'' of
           Some k \<Rightarrow> if 0 < k \<and> r ! (k - 1) \<noteq> CHR '' ''
                      then ''<em>'' @ inline_html base (take k r) @ ''</em>'' @ inline_html base (drop (k + 1) r)
                      else md_esc c @ inline_html base r
         | None \<Rightarrow> md_esc c @ inline_html base r)
      else if c = CHR ''['' then
        (case link_parts r of
           Some (t, url, rest) \<Rightarrow>
             (if is_link base url then link_open base url @ inline_html base t @ ''</a>'' else inline_html base t)
               @ inline_html base rest
         | None \<Rightarrow> md_esc c @ inline_html base r)
      else md_esc c @ inline_html base r)"
  by pat_completeness auto
termination
  by (relation "measure (\<lambda>(base, s). length s)") (auto dest: link_parts_length)

subsection \<open>Blocks\<close>

datatype BlockKind = BLOCK_NONE | BLOCK_PARAGRAPH | BLOCK_ITEM

record Renderer =
  r_out :: string
  r_text :: string
  r_kind :: BlockKind
  r_in_list :: bool
  r_link_base :: "string option"

definition out_puts :: "string \<Rightarrow> Renderer \<Rightarrow> Renderer" where
  "out_puts s r = r\<lparr>r_out := r_out r @ s\<rparr>"

definition flush_block :: "Renderer \<Rightarrow> Renderer" where
  "flush_block r =
     (let html = inline_html (r_link_base r) (r_text r);
          r = (case r_kind r of
                 BLOCK_PARAGRAPH \<Rightarrow> out_puts (''<p>'' @ html @ ''</p>'' @ [LF]) r
               | BLOCK_ITEM \<Rightarrow> out_puts (''<li>'' @ html @ ''</li>'' @ [LF]) r
               | BLOCK_NONE \<Rightarrow> r)
      in r\<lparr>r_kind := BLOCK_NONE, r_text := []\<rparr>)"

definition close_list :: "Renderer \<Rightarrow> Renderer" where
  "close_list r =
     (let r = flush_block r;
          r = (if r_in_list r then out_puts (''</ul>'' @ [LF]) r else r)
      in r\<lparr>r_in_list := False\<rparr>)"

definition collect :: "string \<Rightarrow> Renderer \<Rightarrow> Renderer" where
  "collect s r = r\<lparr>r_text := r_text r @ (if r_text r \<noteq> [] then '' '' else []) @ s\<rparr>"

definition rtrim_line :: "string \<Rightarrow> string" where
  "rtrim_line s = rev (dropWhile (\<lambda>c. c = CR \<or> c = CHR '' '' \<or> c = TAB) (rev s))"

definition heading_level :: "nat \<Rightarrow> nat" where
  "heading_level hashes = (if 6 < hashes + 2 then 6 else hashes + 2)"

definition heading_tag :: "nat \<Rightarrow> string" where
  "heading_tag hashes = [CHR ''h'', chr (48 + heading_level hashes), CHR ''>'']"

text \<open>One line of the loop of \<open>markdown_to_html\<close>, without its newline.\<close>

definition md_line :: "string \<Rightarrow> Renderer \<Rightarrow> Renderer" where
  "md_line line r =
     (let s = rtrim_line line;
          indent = length (takeWhile (\<lambda>c. c = CHR '' '') s);
          body = drop indent s;
          hashes = length (takeWhile (\<lambda>c. c = CHR ''#'') body);
          is_heading = (indent = 0 \<and> 1 \<le> hashes \<and> hashes \<le> 6 \<and> hashes < length body \<and> body ! hashes = CHR '' '');
          is_item = (indent \<le> 1 \<and> 2 \<le> length body \<and> body ! 0 \<in> {CHR ''-'', CHR ''*'', CHR ''+''} \<and> body ! 1 = CHR '' '')
      in if length body = 0 then flush_block r
         else if is_heading then
           out_puts (''<'' @ heading_tag hashes @ inline_html (r_link_base r) (drop (hashes + 1) body)
             @ ''</'' @ heading_tag hashes @ [LF]) (close_list r)
         else if is_item then
           (let r = flush_block r;
                r = (if \<not> r_in_list r then (out_puts (''<ul>'' @ [LF]) r)\<lparr>r_in_list := True\<rparr> else r)
            in collect (drop 2 body) (r\<lparr>r_kind := BLOCK_ITEM\<rparr>))
         else if 0 < indent \<and> r_kind r = BLOCK_ITEM then collect body r
         else
           (let r = (if r_in_list r then close_list r else r)
            in collect body (r\<lparr>r_kind := BLOCK_PARAGRAPH\<rparr>)))"

function md_lines :: "string \<Rightarrow> Renderer \<Rightarrow> Renderer" where
  "md_lines [] r = r"
| "md_lines (c # s) r =
     (case strchr (c # s) LF of
        Some k \<Rightarrow> md_lines (drop (k + 1) (c # s)) (md_line (take k (c # s)) r)
      | None \<Rightarrow> md_line (c # s) r)"
  by pat_completeness auto
termination
  by (relation "measure (\<lambda>(s, r). length s)") auto

definition markdown_to_html :: "string option \<Rightarrow> string option \<Rightarrow> string" where
  "markdown_to_html md link_base =
     r_out (close_list (md_lines (case md of Some s \<Rightarrow> s | None \<Rightarrow> [])
       \<lparr>r_out = [], r_text = [], r_kind = BLOCK_NONE, r_in_list = False, r_link_base = link_base\<rparr>))"

subsection \<open>What a page may be given\<close>

text \<open>
  A strict reader of HTML fragments. It keeps the stack of open elements and accepts the
  elements the renderer uses, each only where HTML allows it: headings, paragraphs and lists
  at the top, items in a list, inline elements in those, and no link inside a link. A link has
  exactly the attributes \<open>href\<close> and \<open>rel\<close>, and leads to http, https or below the base. Text
  stands inside a block, and holds no character that could open a tag or end an attribute.
\<close>

definition text_char :: "char \<Rightarrow> bool" where
  "text_char c \<longleftrightarrow> c \<notin> {CHR ''<'', CHR ''>'', DQ, SQ}"

definition inline_place :: "string list \<Rightarrow> bool" where
  "inline_place st \<longleftrightarrow> st \<noteq> [] \<and> hd st \<noteq> ''ul''"

definition href_ok :: "string option \<Rightarrow> string \<Rightarrow> bool" where
  "href_ok base u \<longleftrightarrow> list_all text_char u \<and>
     (prefix ''http://'' u \<or> prefix ''https://'' u \<or>
      (case base of Some b \<Rightarrow> prefix (buf_escaped b) u \<and> CHR '':'' \<notin> set (drop (length (buf_escaped b)) u) | None \<Rightarrow> False))"

definition link_href :: "string \<Rightarrow> string option" where
  "link_href tag =
     (let pre = ''a href='' @ [DQ]; u = takeWhile (\<lambda>c. c \<noteq> DQ) (drop (length pre) tag)
      in if tag = pre @ u @ [DQ] @ '' rel='' @ [DQ] @ ''noopener noreferrer'' @ [DQ] then Some u else None)"

definition open_ok :: "string option \<Rightarrow> string list \<Rightarrow> string \<Rightarrow> string option" where
  "open_ok base st tag =
     (if tag \<in> {''p'', ''ul'', ''h3'', ''h4'', ''h5'', ''h6''} then (if st = [] then Some tag else None)
      else if tag = ''li'' then (if st = [''ul''] then Some tag else None)
      else if tag \<in> {''code'', ''strong'', ''em''} then (if inline_place st then Some tag else None)
      else (case link_href tag of
              Some u \<Rightarrow> if href_ok base u \<and> inline_place st \<and> ''a'' \<notin> set st then Some ''a'' else None
            | None \<Rightarrow> None))"

function html_ok :: "string option \<Rightarrow> string list \<Rightarrow> string \<Rightarrow> bool" where
  "html_ok base st [] \<longleftrightarrow> st = []"
| "html_ok base st (c # s) \<longleftrightarrow>
     (if c = CHR ''<'' then
        (let tag = takeWhile (\<lambda>x. x \<noteq> CHR ''>'') s; rest = drop (Suc (length tag)) s
         in length tag < length s \<and>
            (if prefix ''/'' tag then st \<noteq> [] \<and> tl tag = hd st \<and> html_ok base (tl st) rest
             else (case open_ok base st tag of Some e \<Rightarrow> html_ok base (e # st) rest | None \<Rightarrow> False)))
      else text_char c \<and> (inline_place st \<or> c = LF) \<and> html_ok base st s)"
  by pat_completeness auto
termination
  by (relation "measure (\<lambda>(base, st, s). length s)") auto

lemma md_esc_text: "list_all text_char (md_esc c)"
  by (simp add: md_esc_def text_char_def)

lemma buf_escaped_text: "list_all text_char (buf_escaped s)"
  by (induction s) (simp_all add: buf_escaped_def md_esc_text)

lemma html_ok_text:
  assumes "list_all text_char w" "inline_place st"
  shows "html_ok base st (w @ t) \<longleftrightarrow> html_ok base st t"
  using assms by (induction w) (auto simp: text_char_def)

lemma html_ok_tag:
  assumes "CHR ''>'' \<notin> set tag"
  shows "html_ok base st (''<'' @ tag @ ''>'' @ t) \<longleftrightarrow>
     (if prefix ''/'' tag then st \<noteq> [] \<and> tl tag = hd st \<and> html_ok base (tl st) t
      else (case open_ok base st tag of Some e \<Rightarrow> html_ok base (e # st) t | None \<Rightarrow> False))"
  using run_until(1) [OF assms, of t] by (simp add: Let_def split: option.split)

declare html_ok.simps(2) [simp del]

lemma html_ok_close: "CHR ''>'' \<notin> set e \<Longrightarrow> html_ok base (e # st) (''</'' @ e @ ''>'' @ t) \<longleftrightarrow> html_ok base st t"
  using html_ok_tag [of "CHR ''/'' # e" base "e # st" t] by simp

lemma html_ok_inline:
  assumes "e \<in> {''code'', ''strong'', ''em''}" "inline_place st"
  shows "html_ok base st (''<'' @ e @ ''>'' @ t) \<longleftrightarrow> html_ok base (e # st) t"
  using html_ok_tag [of e base st t] assms by (elim insertE emptyE) (simp_all add: open_ok_def)

lemma href_http: "is_http url \<Longrightarrow> href_ok base (buf_escaped url)"
  using buf_escaped_text [of url]
  by (auto simp: href_ok_def is_http_def prefix_def) (auto simp: buf_escaped_def md_esc_def)

lemma colon_escaped: "CHR '':'' \<notin> set url \<Longrightarrow> CHR '':'' \<notin> set (buf_escaped url)"
  by (induction url) (auto simp: buf_escaped_def md_esc_def)

lemma link_target_ok:
  assumes "is_link base url"
  shows "href_ok base ((if link_relative url then buf_escaped (the base) else []) @ buf_escaped url)"
proof (cases "link_relative url")
  case True
  then have "\<not> is_http url" by (auto simp: link_relative_def is_http_def prefix_def)
  then show ?thesis
    using assms True colon_escaped [of url]
    by (auto simp: is_link_def href_ok_def buf_escaped_text link_relative_def)
next
  case False
  then show ?thesis using assms href_http by (simp add: is_link_def)
qed

lemma html_ok_link:
  assumes "is_link base url" "inline_place st" "''a'' \<notin> set st"
  shows "html_ok base st (link_open base url @ t) \<longleftrightarrow> html_ok base (''a'' # st) t"
proof -
  define u where "u = (if link_relative url then buf_escaped (the base) else []) @ buf_escaped url"
  define tag where "tag = ''a href='' @ [DQ] @ u @ [DQ] @ '' rel='' @ [DQ] @ ''noopener noreferrer'' @ [DQ]"
  have ok: "href_ok base u" unfolding u_def by (rule link_target_ok [OF assms(1)])
  then have u: "DQ \<notin> set u" "CHR ''>'' \<notin> set u"
    by (auto simp: href_ok_def list_all_iff text_char_def)
  have "link_href tag = Some u"
    using run_until(1) [OF u(1)] by (simp add: link_href_def tag_def Let_def)
  then have "open_ok base st tag = Some ''a''"
    using ok assms by (simp add: open_ok_def tag_def)
  moreover have "link_open base url @ t = ''<'' @ tag @ ''>'' @ t"
    by (simp add: link_open_def tag_def u_def)
  moreover have "CHR ''>'' \<notin> set tag" "\<not> prefix ''/'' tag" using u(2) by (simp_all add: tag_def)
  ultimately show ?thesis using html_ok_tag [of tag base st t] by simp
qed

subsection \<open>The steps of the scanner\<close>

lemma sublist_contains: "sublist a s \<Longrightarrow> contains a n \<Longrightarrow> contains s n"
  unfolding sublist_def contains_iff by (metis append.assoc)

lemma sublist_take_drop: "sublist (take k (drop j s)) s" "sublist (take k s) s" "sublist (drop k s) s"
  by (meson sublist_drop sublist_order.order_trans sublist_take)+

lemma link_parts_pieces:
  assumes "link_parts r = Some (t, u, rest)"
  shows "\<not> contains t ''](''" "contains r ''](''" "sublist rest r" "sublist t r"
proof -
  from assms obtain k j where k: "strstr r ''](''  = Some k" and t: "t = take k r" "rest = drop (k + 2 + j + 1) r"
    by (auto simp: link_parts_def split: option.splits if_splits)
  show "contains r ''](''" using k by (simp add: contains_def)
  show "sublist rest r" "sublist t r" unfolding t by (rule sublist_take_drop)+
  show "\<not> contains t ''](''"
  proof
    assume "contains t ''](''"
    then obtain i where i: "strstr t ''](''  = Some i" by (auto simp: contains_def)
    have "strstr (t @ drop k r) ''](''  = Some i" by (rule strstr_append [OF i])
    then have "i = k" using k t by simp
    with strstr_length [OF i] t show False by simp
  qed
qed

lemma inline_html_step:
  obtains
    (plain) "inline_html base (c # r) = md_esc c @ inline_html base r"
  | (code) w b where "inline_html base (c # r) = ''<code>'' @ buf_escaped w @ ''</code>'' @ inline_html base b"
      "sublist b r"
  | (elem) e a b where "e \<in> {''strong'', ''em''}" "sublist a r" "sublist b r"
      "inline_html base (c # r) = ''<'' @ e @ ''>'' @ inline_html base a @ ''</'' @ e @ ''>'' @ inline_html base b"
  | (link) a url b where "is_link base url" "sublist a r" "sublist b r" "contains r ''](''" "\<not> contains a ''](''"
      "inline_html base (c # r) = link_open base url @ inline_html base a @ ''</a>'' @ inline_html base b"
  | (no_link) a b where "sublist a r" "sublist b r" "inline_html base (c # r) = inline_html base a @ inline_html base b"
proof -
  have tlr: "sublist a (tl r) \<Longrightarrow> sublist a r" for a using sublist_order.order_trans sublist_tl by blast
  consider "c = CHR ''`''" | "c = CHR ''*''" "r \<noteq> []" "hd r = CHR ''*''" | "c = CHR ''*''" "r \<noteq> []" "hd r \<noteq> CHR ''*''"
    | "c = CHR ''*''" "r = []" | "c = CHR ''[''" | "c \<notin> {CHR ''`'', CHR ''*'', CHR ''[''}" by blast
  then show thesis
  proof cases
    case 1
    show thesis
    proof (cases "case strstr r ''`'' of Some k \<Rightarrow> 0 < k | None \<Rightarrow> False")
      case True
      then obtain k where "0 < k" "strstr r ''`'' = Some k" by (auto split: option.splits)
      then show thesis by (intro code [of "take k r" "drop (k + 1) r"]) (simp_all add: 1 sublist_take_drop)
    next
      case False
      then show thesis by (intro plain) (auto simp: 1 split: option.splits)
    qed
  next
    case 2
    show thesis
    proof (cases "case strstr (tl r) ''**'' of Some k \<Rightarrow> 0 < k | None \<Rightarrow> False")
      case True
      then obtain k where "0 < k" "strstr (tl r) ''**'' = Some k" by (auto split: option.splits)
      then show thesis
        by (intro elem [of "''strong''" "take k (tl r)" "drop (k + 2) (tl r)"] tlr) (simp_all add: 2 sublist_take_drop)
    next
      case False
      then show thesis by (intro plain) (auto simp: 2 split: option.splits)
    qed
  next
    case 3
    show thesis
    proof (cases "case strstr r ''*'' of Some k \<Rightarrow> 0 < k \<and> r ! (k - 1) \<noteq> CHR '' '' \<and> hd r \<noteq> CHR '' '' | None \<Rightarrow> False")
      case True
      then obtain k where "strstr r ''*'' = Some k" "0 < k" "r ! (k - 1) \<noteq> CHR '' ''" "hd r \<noteq> CHR '' ''" by (auto split: option.splits)
      then show thesis
        by (intro elem [of "''em''" "take k r" "drop (k + 1) r"]) (simp_all add: 3 sublist_take_drop)
    next
      case False
      then show thesis by (intro plain) (auto simp: 3 split: option.splits)
    qed
  next
    case 5
    show thesis
    proof (cases "link_parts r")
      case None
      then show thesis using 5 plain by simp
    next
      case (Some p)
      then obtain a url b where p: "link_parts r = Some (a, url, b)" by (cases p) auto
      show thesis
        using 5 p link [of url a b] no_link [of a b] link_parts_pieces [OF p] by (cases "is_link base url") simp_all
    qed
  qed (use plain in auto)
qed

lemma inline_tags:
  "inline_place st \<Longrightarrow> html_ok base st (''<code>'' @ t) \<longleftrightarrow> html_ok base (''code'' # st) t"
  "html_ok base (''code'' # st) (''</code>'' @ t) \<longleftrightarrow> html_ok base st t"
  "html_ok base (''a'' # st) (''</a>'' @ t) \<longleftrightarrow> html_ok base st t"
  using html_ok_inline [of "''code''" st base t] html_ok_close [of "''code''" base st t] html_ok_close [of "''a''" base st t]
  by simp_all

lemma html_ok_inline_html:
  assumes "inline_place st" "''a'' \<in> set st \<Longrightarrow> \<not> contains s ''](''"
  shows "html_ok base st (inline_html base s @ t) \<longleftrightarrow> html_ok base st t"
  using assms
proof (induction s arbitrary: st t rule: length_induct)
  case (1 s)
  have IH: "html_ok base st' (inline_html base a @ t') \<longleftrightarrow> html_ok base st' t'"
    if "sublist a r" "s = c # r" "inline_place st'" "''a'' \<in> set st' \<Longrightarrow> \<not> contains a ''](''" for a r c st' t'
    using 1 that sublist_length_le [OF that(1)] by (metis length_Cons less_Suc_eq_le)
  show ?case
  proof (cases s)
    case (Cons c r)
    have sub: "\<not> contains a ''](''" if "sublist a r" "''a'' \<in> set st" for a
      using "1.prems"(2) [OF that(2)] that(1) Cons sublist_contains sublist_Cons_right by metis
    show ?thesis
    proof (cases rule: inline_html_step [of base c r])
      case plain
      then show ?thesis using IH [of r r c st t] sub Cons "1.prems"(1) html_ok_text [OF md_esc_text] by simp
    next
      case (code w b)
      have "inline_place (''code'' # st)" by (simp add: inline_place_def)
      then show ?thesis
        unfolding Cons code(1) append_assoc
        by (simp only: inline_tags "1.prems"(1) html_ok_text [OF buf_escaped_text] IH [OF code(2) Cons "1.prems"(1) sub [OF code(2)]])
    next
      case (elem e a b)
      have e: "CHR ''>'' \<notin> set e" "inline_place (e # st)" "''a'' \<in> set (e # st) \<Longrightarrow> ''a'' \<in> set st"
        using elem(1) by (auto simp: inline_place_def)
      have e': "e \<in> {''code'', ''strong'', ''em''}" using elem(1) by blast
      show ?thesis
        by (simp only: Cons elem(4) append_assoc html_ok_inline [OF e' "1.prems"(1)] html_ok_close [OF e(1)]
          IH [OF elem(2) Cons e(2) sub [OF elem(2) e(3)]] IH [OF elem(3) Cons "1.prems"(1) sub [OF elem(3)]])
    next
      case (link a url b)
      have st: "''a'' \<notin> set st" using sub [of r] link(4) by auto
      have p: "inline_place (''a'' # st)" by (simp add: inline_place_def)
      show ?thesis
        by (simp only: Cons link(6) append_assoc html_ok_link [OF link(1) "1.prems"(1) st]
          IH [OF link(2) Cons p link(5)] inline_tags IH [OF link(3) Cons "1.prems"(1) sub [OF link(3)]])
    next
      case (no_link a b)
      show ?thesis
        by (simp only: Cons no_link(3) append_assoc IH [OF no_link(1) Cons "1.prems"(1) sub [OF no_link(1)]]
          IH [OF no_link(2) Cons "1.prems"(1) sub [OF no_link(2)]])
    qed
  qed simp
qed

subsection \<open>Blocks\<close>

text \<open>
  What holds between the lines: an item is collected only inside a list and a paragraph only
  outside one, and the output so far leaves exactly the list open.
\<close>

definition open_blocks :: "Renderer \<Rightarrow> string list" where
  "open_blocks r = (if r_in_list r then [''ul''] else [])"

definition renderer_ok :: "Renderer \<Rightarrow> bool" where
  "renderer_ok r \<longleftrightarrow>
     (r_kind r = BLOCK_ITEM \<longrightarrow> r_in_list r) \<and> (r_kind r = BLOCK_PARAGRAPH \<longrightarrow> \<not> r_in_list r) \<and>
     (\<forall>t. html_ok (r_link_base r) [] (r_out r @ t) \<longleftrightarrow> html_ok (r_link_base r) (open_blocks r) t)"

lemma html_ok_block:
  assumes "CHR ''>'' \<notin> set e" "\<not> prefix ''/'' e" "open_ok base st e = Some e" "e \<noteq> ''ul''" "''a'' \<notin> set (e # st)"
  shows "html_ok base st (''<'' @ e @ ''>'' @ inline_html base s @ ''</'' @ e @ ''>'' @ [LF] @ t) \<longleftrightarrow> html_ok base st t"
proof -
  have p: "inline_place (e # st)" using assms(4) by (simp add: inline_place_def)
  have lf: "html_ok base st ([LF] @ t) \<longleftrightarrow> html_ok base st t" by (simp add: html_ok.simps(2) text_char_def)
  show ?thesis
    using html_ok_tag [OF assms(1)] html_ok_inline_html [OF p] html_ok_close [OF assms(1)] lf assms(2,3,5) by simp
qed

lemma list_tags:
  "html_ok base [] (''<ul>'' @ [LF] @ t) \<longleftrightarrow> html_ok base [''ul''] t"
  "html_ok base [''ul''] (''</ul>'' @ [LF] @ t) \<longleftrightarrow> html_ok base [] t"
  using html_ok_tag [of "''ul''" base "[]" "LF # t"] html_ok_close [of "''ul''" base "[]" "LF # t"]
  by (simp_all add: html_ok.simps(2) [of _ _ LF] text_char_def open_ok_def)

lemma flush_block_fields [simp]:
  "r_in_list (flush_block r) = r_in_list r" "r_link_base (flush_block r) = r_link_base r"
  "r_kind (flush_block r) = BLOCK_NONE" "r_text (flush_block r) = []"
  by (simp_all add: flush_block_def Let_def out_puts_def split: BlockKind.splits)

lemma flush_block_ok:
  assumes "renderer_ok r"
  shows "renderer_ok (flush_block r)"
proof -
  let ?b = "r_link_base r"
  have out: "\<And>t. html_ok ?b [] (r_out r @ t) \<longleftrightarrow> html_ok ?b (open_blocks r) t" using assms by (simp add: renderer_ok_def)
  have p: "html_ok ?b [] (''<p>'' @ inline_html ?b s @ ''</p>'' @ [LF] @ t) \<longleftrightarrow> html_ok ?b [] t"
    and li: "html_ok ?b [''ul''] (''<li>'' @ inline_html ?b s @ ''</li>'' @ [LF] @ t) \<longleftrightarrow> html_ok ?b [''ul''] t" for s t
    using html_ok_block [of "''p''" ?b "[]" s t] html_ok_block [of "''li''" ?b "[''ul'']" s t] by (simp_all add: open_ok_def)
  have "html_ok ?b [] (r_out (flush_block r) @ t) \<longleftrightarrow> html_ok ?b (open_blocks r) t" for t
    using assms out p li by (cases "r_kind r") (simp_all add: flush_block_def Let_def out_puts_def renderer_ok_def open_blocks_def)
  then show ?thesis by (simp add: renderer_ok_def open_blocks_def)
qed

lemma close_list_ok:
  assumes "renderer_ok r"
  shows "renderer_ok (close_list r)" "\<not> r_in_list (close_list r)" "r_kind (close_list r) = BLOCK_NONE"
    "r_link_base (close_list r) = r_link_base r"
  using flush_block_ok [OF assms] list_tags(2)
  by (auto simp: close_list_def Let_def out_puts_def renderer_ok_def open_blocks_def)

lemma collect_ok: "renderer_ok (collect s r) \<longleftrightarrow> renderer_ok r" "r_link_base (collect s r) = r_link_base r"
  by (simp_all add: collect_def renderer_ok_def open_blocks_def)

lemma digit_chars: "chr 51 = CHR ''3''" "chr 52 = CHR ''4''" "chr 53 = CHR ''5''" "chr 54 = CHR ''6''"
  by (rule ord_inject [THEN iffD1], simp)+

lemma heading_ok:
  assumes "1 \<le> h" "h \<le> 6"
  shows "html_ok base [] (''<'' @ heading_tag h @ inline_html base s @ ''</'' @ heading_tag h @ [LF] @ t) \<longleftrightarrow> html_ok base [] t"
proof -
  obtain e where e: "heading_tag h = e @ ''>''" "e \<in> {''h3'', ''h4'', ''h5'', ''h6''}"
  proof -
    have "heading_level h \<in> {3, 4, 5, 6}" using assms by (auto simp: heading_level_def)
    then have "heading_tag h \<in> {''h3>'', ''h4>'', ''h5>'', ''h6>''}" by (auto simp: heading_tag_def digit_chars)
    then show thesis using that by (elim insertE emptyE) simp_all
  qed
  show ?thesis
    unfolding e(1) append_assoc
    by (rule html_ok_block) (use e(2) in \<open>auto simp: open_ok_def\<close>)
qed

lemma md_line_ok:
  assumes "renderer_ok r"
  shows "renderer_ok (md_line line r) \<and> r_link_base (md_line line r) = r_link_base r"
proof -
  have item: "renderer_ok (r'\<lparr>r_kind := BLOCK_ITEM\<rparr>)" if "renderer_ok r'" "r_in_list r'" for r'
    using that by (simp add: renderer_ok_def open_blocks_def)
  have para: "renderer_ok (r'\<lparr>r_kind := BLOCK_PARAGRAPH\<rparr>)" if "renderer_ok r'" "\<not> r_in_list r'" for r'
    using that by (simp add: renderer_ok_def open_blocks_def)
  have opened: "renderer_ok ((out_puts (''<ul>'' @ [LF]) r')\<lparr>r_in_list := True\<rparr>)" if "renderer_ok r'" "\<not> r_in_list r'" "r_kind r' = BLOCK_NONE" for r'
    using that list_tags(1) by (simp add: renderer_ok_def open_blocks_def out_puts_def)
  have heading: "renderer_ok (out_puts (''<'' @ heading_tag h @ inline_html (r_link_base r') s @ ''</'' @ heading_tag h @ [LF]) r')"
    if "renderer_ok r'" "\<not> r_in_list r'" "1 \<le> h" "h \<le> 6" for r' h s
    using that heading_ok [OF that(3,4), of "r_link_base r'" s] by (simp add: renderer_ok_def open_blocks_def out_puts_def)
  have 1: "renderer_ok (flush_block r)" by (rule flush_block_ok [OF assms])
  note cl = close_list_ok [OF assms]
  show ?thesis
    using assms 1 cl heading [OF cl(1,2)] opened [OF 1] item [OF 1] item [OF opened [OF 1]] para [OF cl(1,2)] para [OF assms]
    by (auto simp: md_line_def Let_def collect_ok out_puts_def)
qed

lemma md_lines_ok:
  "renderer_ok r \<Longrightarrow> renderer_ok (md_lines s r) \<and> r_link_base (md_lines s r) = r_link_base r"
proof (induction s r rule: md_lines.induct)
  case (2 c s r)
  then show ?case
    using md_line_ok [OF "2.prems"] by (cases "strchr (c # s) LF") (simp_all del: strchr.simps)
qed simp

text \<open>
  C18. Whatever a readme or a release note holds, the page it is shown on gets a well-formed
  HTML fragment: every element is closed in order, blocks, items, inline elements and links
  stand only where HTML allows them, a link leads to http, https or below the given base and
  nowhere else (no \<open>javascript:\<close> target), and no character of the text can open a tag or leave an attribute.
\<close>

theorem markdown_html_ok: "html_ok link_base [] (markdown_to_html md link_base)"
proof -
  define r0 where "r0 = \<lparr>r_out = [], r_text = [], r_kind = BLOCK_NONE, r_in_list = False, r_link_base = link_base\<rparr>"
  let ?r = "md_lines (case md of Some s \<Rightarrow> s | None \<Rightarrow> []) r0"
  have "renderer_ok r0" by (simp add: r0_def renderer_ok_def open_blocks_def)
  then have ok: "renderer_ok ?r" "r_link_base ?r = link_base" using md_lines_ok [of r0] by (simp_all add: r0_def)
  have "html_ok link_base [] (r_out (close_list ?r) @ t) \<longleftrightarrow> html_ok link_base [] t" for t
    using close_list_ok [OF ok(1)] ok(2) unfolding renderer_ok_def open_blocks_def by simp
  from this [of "[]"] show ?thesis by (simp add: markdown_to_html_def r0_def)
qed

end
