(* ===== verification/Image_Codec.thy ===== *)
theory Image_Codec
  imports BR_Prelude
begin

unbundle bit_operations_syntax

text \<open>
  The image formats the server writes without a library: PNG with stored deflate blocks and
  GIF with an LZW stream that never grows its codes (src/src/utils/captcha.c), and WBMP
  (src/src/utils/wbmp_writer.c). Each encoder is read back by a reader of the format written
  from its specification. Buffers are lists of bytes; the sizes the code allocates are
  compared with what it writes.
\<close>

subsection \<open>WBMP\<close>

text \<open>A byte of a row: eight pixels, the first in the highest bit, 1 for white.\<close>

definition wbmp_byte :: "bool list \<Rightarrow> nat \<Rightarrow> byte" where
  "wbmp_byte row b =
     fold (\<lambda>i byte. let px = b * 8 + i in if length row \<le> px \<or> \<not> row ! px then byte OR drop_bit i 0x80 else byte)
       [0..<8] 0"

lemma bit_pixel_mask: "bit (drop_bit i (0x80 :: byte)) n \<longleftrightarrow> i + n = 7"
proof -
  have "(0x80 :: byte) = 2 ^ 7" by simp
  then show ?thesis by (simp only: bit_drop_bit_eq comp_def bit_exp_iff) auto
qed

lemma bit_fold_masks:
  "bit (fold (\<lambda>i (byte :: byte). if Q i then byte OR drop_bit i 0x80 else byte) is b) n \<longleftrightarrow>
     bit b n \<or> (\<exists>i\<in>set is. Q i \<and> i + n = 7)"
  by (induction "is" arbitrary: b) (auto simp: bit_or_iff bit_pixel_mask)

lemma wbmp_byte_bit:
  assumes "i < 8"
  shows "bit (wbmp_byte row b) (7 - i) \<longleftrightarrow> length row \<le> b * 8 + i \<or> \<not> row ! (b * 8 + i)"
proof -
  have "j + (7 - i) = 7 \<longleftrightarrow> j = i" for j using assms by auto
  then show ?thesis unfolding wbmp_byte_def Let_def bit_fold_masks using assms by simp
qed

text \<open>Widths and heights: seven bits per byte, the most significant first, all but the last marked.\<close>

function mb_digits :: "int \<Rightarrow> int list" where
  "mb_digits v = (v mod 128) # (if v div 128 > 0 then mb_digits (v div 128) else [])"
  by pat_completeness auto
termination
  by (relation "measure nat") (auto intro: int_div_less_self)

declare mb_digits.simps [simp del]

definition mb_bytes :: "int \<Rightarrow> byte list" where
  "mb_bytes v = (let mb = mb_digits v in map of_int (map (\<lambda>d. d + 128) (rev (tl mb)) @ [hd mb]))"

definition wbmp_file_bytes :: "byte list \<Rightarrow> int \<Rightarrow> int \<Rightarrow> byte list" where
  "wbmp_file_bytes pixels width height =
     [0, 0] @ mb_bytes width @ mb_bytes height
     @ concat (map (\<lambda>y. map (wbmp_byte (map (\<lambda>x. pixels ! nat (y * width + x) AND 1 \<noteq> 0) [0..width - 1]))
         [0..<nat ((width + 7) div 8)]) [0..height - 1])"

text \<open>
  \<open>fp\<close> says whether the file could be opened, \<open>err\<close> whether the stream's error flag is set at
  the end; the result is the return value and the bytes sent to the stream.
\<close>

definition write_wbmp :: "bool \<Rightarrow> bool \<Rightarrow> byte list \<Rightarrow> int \<Rightarrow> int \<Rightarrow> int \<times> byte list" where
  "write_wbmp fp err pixels width height =
     (if \<not> fp then (-1, []) else (if err then -1 else 0, wbmp_file_bytes pixels width height))"

text \<open>A reader of the format: sizes, then rows of whole bytes, a clear bit for a dark pixel.\<close>

fun read_mb :: "int \<Rightarrow> byte list \<Rightarrow> (int \<times> byte list) option" where
  "read_mb acc [] = None"
| "read_mb acc (b # bs) =
     (if 128 \<le> uint b then read_mb (acc * 128 + (uint b - 128)) bs else Some (acc * 128 + uint b, bs))"

definition wbmp_dark :: "nat \<Rightarrow> byte list \<Rightarrow> nat \<Rightarrow> nat \<Rightarrow> bool" where
  "wbmp_dark row_bytes bs y x \<longleftrightarrow> \<not> bit (bs ! (y * row_bytes + x div 8)) (7 - x mod 8)"

definition read_wbmp :: "byte list \<Rightarrow> (int \<times> int \<times> bool list list) option" where
  "read_wbmp bs =
     (case bs of
        t # f # bs1 \<Rightarrow>
          if t = 0 \<and> f = 0 then
            Option.bind (read_mb 0 bs1) (\<lambda>(w, bs2). Option.bind (read_mb 0 bs2) (\<lambda>(h, bits).
              let rb = (nat w + 7) div 8
              in if length bits = nat h * rb
                 then Some (w, h, map (\<lambda>y. map (wbmp_dark rb bits y) [0..<nat w]) [0..<nat h]) else None))
          else None
      | _ \<Rightarrow> None)"

lemma mb_digits_range: "d \<in> set (mb_digits v) \<Longrightarrow> 0 \<le> d \<and> d < 128"
proof (induction v rule: mb_digits.induct)
  case (1 v)
  then show ?case by (subst (asm) (2) mb_digits.simps) (auto split: if_splits)
qed

lemma mb_digits_value: "0 \<le> v \<Longrightarrow> fold (\<lambda>d a. a * 128 + d) (rev (mb_digits v)) 0 = v"
proof (induction v rule: mb_digits.induct)
  case (1 v)
  show ?case
  proof (cases "v div 128 > 0")
    case True
    then show ?thesis using 1 by (subst mb_digits.simps) simp
  next
    case False
    then have "v div 128 = 0" using "1.prems" by (simp add: pos_imp_zdiv_nonneg_iff order_antisym)
    then have "v mod 128 = v" using div_mult_mod_eq [of v 128] by simp
    then show ?thesis using False by (subst mb_digits.simps) simp
  qed
qed

lemma byte_uint: "0 \<le> d \<Longrightarrow> d < 256 \<Longrightarrow> uint (of_int d :: byte) = d"
  by (simp add: uint_word_of_int)

lemma read_mb_high:
  assumes "\<And>d. d \<in> set ds \<Longrightarrow> 0 \<le> d \<and> d < 128"
  shows "read_mb acc (map of_int (map (\<lambda>d. d + 128) ds) @ rest) = read_mb (fold (\<lambda>d a. a * 128 + d) ds acc) rest"
  using assms
proof (induction ds arbitrary: acc)
  case (Cons d ds)
  have "0 \<le> d" "d < 128" using Cons.prems [of d] by simp_all
  then have "uint (of_int (d + 128) :: byte) = d + 128" by (intro byte_uint) simp_all
  then show ?case using Cons.IH [of "acc * 128 + d"] Cons.prems \<open>0 \<le> d\<close> by simp
qed simp

lemma read_mb_bytes:
  assumes "0 \<le> v"
  shows "read_mb 0 (mb_bytes v @ rest) = Some (v, rest)"
proof -
  obtain d ds where mb: "mb_digits v = d # ds" using mb_digits.simps [of v] by blast
  have r: "\<And>e. e \<in> set (rev ds) \<Longrightarrow> 0 \<le> e \<and> e < 128" and d: "0 \<le> d" "d < 128"
    using mb_digits_range [of _ v] mb by auto
  have "uint (of_int d :: byte) = d" using d by (intro byte_uint) simp_all
  moreover have "fold (\<lambda>d a. a * 128 + d) (rev ds) 0 * 128 + d = v" using mb_digits_value [OF assms] mb by simp
  ultimately show ?thesis
    using read_mb_high [where ds = "rev ds" and acc = 0 and rest = "of_int d # rest", OF r] d by (simp add: mb_bytes_def mb)
qed

lemma concat_rows_length: "(\<And>x. x \<in> set xs \<Longrightarrow> length (f x) = n) \<Longrightarrow> length (concat (map f xs)) = length xs * n"
  by (induction xs) auto

lemma concat_rows_nth:
  "(\<And>x. x \<in> set xs \<Longrightarrow> length (f x) = n) \<Longrightarrow> k < n \<Longrightarrow> j < length xs \<Longrightarrow>
   concat (map f xs) ! (j * n + k) = f (xs ! j) ! k"
proof (induction xs arbitrary: j)
  case (Cons x xs)
  then show ?case by (cases j) (auto simp: nth_append)
qed simp

lemma wbmp_dark_row:
  assumes "x < length row" "length row = w" "y < h" "rows ! y = row" "length rows = h"
  shows "wbmp_dark ((w + 7) div 8) (concat (map (\<lambda>row. map (wbmp_byte row) [0..<(w + 7) div 8]) rows)) y x = row ! x"
proof -
  let ?rb = "(w + 7) div 8"
  have k: "x div 8 < ?rb" using assms(1,2) by (simp add: less_mult_imp_div_less)
  have "concat (map (\<lambda>row. map (wbmp_byte row) [0..<?rb]) rows) ! (y * ?rb + x div 8) = wbmp_byte row (x div 8)"
    using concat_rows_nth [of rows "\<lambda>row. map (wbmp_byte row) [0..<?rb]" ?rb "x div 8" y] k assms by simp
  then show ?thesis
    using wbmp_byte_bit [of "x mod 8" row "x div 8"] assms(1) by (simp add: wbmp_dark_def)
qed

definition dark_rows :: "byte list \<Rightarrow> int \<Rightarrow> int \<Rightarrow> bool list list" where
  "dark_rows pixels width height =
     map (\<lambda>y. map (\<lambda>x. bit (pixels ! nat (int y * width + int x)) 0) [0..<nat width]) [0..<nat height]"

lemma upto_map_nat: "0 \<le> n \<Longrightarrow> [0..n - 1] = map int [0..<nat n]"
  by (rule nth_equalityI) (simp_all add: nth_upto)

text \<open>
  A picture written as WBMP (the QR codes of the admin pages and the icons for phones) reads
  back with its size, of any number of bytes, and its dark pixels; padding bits are white.
\<close>

theorem wbmp_roundtrip:
  assumes "0 \<le> width" "0 \<le> height"
  shows "\<exists>bs. write_wbmp True False pixels width height = (0, bs) \<and> read_wbmp bs = Some (width, height, dark_rows pixels width height)"
proof -
  define rb where "rb = (nat width + 7) div 8"
  define rows where "rows = dark_rows pixels width height"
  have rb: "nat ((width + 7) div 8) = rb" using assms(1) by (simp add: rb_def nat_div_distrib nat_add_distrib)
  have bits: "concat (map (\<lambda>y. map (wbmp_byte (map (\<lambda>x. pixels ! nat (y * width + x) AND 1 \<noteq> 0) [0..width - 1])) [0..<rb]) [0..height - 1])
      = concat (map (\<lambda>row. map (wbmp_byte row) [0..<rb]) rows)" (is "?bits = _")
    using assms by (simp add: rows_def dark_rows_def upto_map_nat comp_def and_one_eq odd_iff_mod_2_eq_one bit_0)
  have dims: "length rows = nat height" "\<And>y. y < nat height \<Longrightarrow> length (rows ! y) = nat width"
    by (simp_all add: rows_def dark_rows_def)
  have "wbmp_dark rb ?bits y x = rows ! y ! x" if "y < nat height" "x < nat width" for y x
    using wbmp_dark_row [of x "rows ! y" "nat width" y "nat height" rows] that dims unfolding bits by (simp add: rb_def)
  then have "map (\<lambda>y. map (wbmp_dark rb ?bits y) [0..<nat width]) [0..<nat height] = rows"
    using dims by (intro nth_equalityI) (simp_all add: list_eq_iff_nth_eq)
  moreover have "length ?bits = nat height * rb"
    unfolding bits using concat_rows_length [of rows "\<lambda>row. map (wbmp_byte row) [0..<rb]" rb] by (simp add: rows_def dark_rows_def)
  ultimately show ?thesis
    using assms by (simp add: read_wbmp_def write_wbmp_def wbmp_file_bytes_def read_mb_bytes rb Let_def rows_def flip: rb_def)
qed

theorem wbmp_roundtrip_witness:
  "\<exists>bs. write_wbmp True False (replicate 6000 1) 200 30 = (0, bs) \<and> read_wbmp bs = Some (200, 30, dark_rows (replicate 6000 1) 200 30)"
  using wbmp_roundtrip [of 200 30 "replicate 6000 1"] by simp

subsection \<open>Checksums\<close>

definition crc_step :: "32 word \<Rightarrow> 32 word" where
  "crc_step c = (if c AND 1 \<noteq> 0 then 0xEDB88320 XOR drop_bit 1 c else drop_bit 1 c)"

definition crc_table :: "32 word list" where
  "crc_table = map (\<lambda>i. (crc_step ^^ 8) (of_nat i)) [0..<256]"

definition crc32_of :: "byte list \<Rightarrow> 32 word \<Rightarrow> 32 word" where
  "crc32_of p crc =
     NOT (fold (\<lambda>b crc. crc_table ! unat ((crc XOR ucast b) AND 0xFF) XOR drop_bit 8 crc) p (NOT crc))"

text \<open>The remainder as the PNG specification defines it, one bit of the message at a time.\<close>

definition crc_bit :: "bool \<Rightarrow> 32 word \<Rightarrow> 32 word" where
  "crc_bit m c = (if bit c 0 \<noteq> m then 0xEDB88320 XOR drop_bit 1 c else drop_bit 1 c)"

definition byte_bits :: "byte \<Rightarrow> bool list" where
  "byte_bits b = map (bit b) [0..<8]"

definition crc_reference :: "byte list \<Rightarrow> 32 word" where
  "crc_reference p = NOT (fold crc_bit (concat (map byte_bits p)) (NOT 0))"

lemma crc_step_bit: "crc_step c = crc_bit False c"
  by (simp add: crc_step_def crc_bit_def and_one_eq bit_0 odd_iff_mod_2_eq_one)

lemma crc_step_xor: "crc_step (a XOR b) = crc_step a XOR crc_step b"
proof -
  have "drop_bit 1 (a XOR b) = drop_bit 1 a XOR drop_bit 1 b" by (rule drop_bit_xor)
  moreover have "bit (a XOR b) 0 \<longleftrightarrow> bit a 0 \<noteq> bit b 0" by (simp add: bit_xor_iff)
  ultimately show ?thesis by (simp add: crc_step_bit crc_bit_def xor.assoc xor.left_commute)
qed

lemma crc_bit_xor: "crc_bit m c = crc_step (c XOR of_bool m)"
  by (cases m) (simp_all add: crc_step_bit crc_bit_def drop_bit_xor bit_0 even_xor_iff flip: drop_bit_eq_div)

lemma crc_steps_xor: "(crc_step ^^ n) (a XOR b) = (crc_step ^^ n) a XOR (crc_step ^^ n) b"
  by (induction n) (simp_all add: crc_step_xor)

lemma crc_steps_shift: "take_bit n c = 0 \<Longrightarrow> (crc_step ^^ n) c = drop_bit n c"
proof (induction n arbitrary: c)
  case (Suc n)
  have low: "\<not> bit c 0" using Suc.prems by (metis bit_0_eq bit_take_bit_iff bot_apply bot_bool_def zero_less_Suc)
  have "take_bit n (drop_bit 1 c) = 0"
  proof (rule bit_eqI)
    fix k
    show "bit (take_bit n (drop_bit 1 c)) k = bit (0 :: 32 word) k"
      using arg_cong [OF Suc.prems, of "\<lambda>w. bit w (Suc k)"] by (simp add: bit_take_bit_iff bit_drop_bit_eq)
  qed
  then have "(crc_step ^^ n) (drop_bit 1 c) = drop_bit n (drop_bit 1 c)" by (rule Suc.IH)
  moreover have "crc_step c = drop_bit 1 c" using low by (simp add: crc_step_bit crc_bit_def)
  ultimately show ?case by (simp add: funpow_swap1 drop_bit_drop_bit)
qed simp

lemma take_bit_Suc_xor: "take_bit (Suc n) (w :: 32 word) = take_bit n w XOR push_bit n (of_bool (bit w n))"
  by (rule bit_eqI) (auto simp: bit_take_bit_iff bit_xor_iff bit_push_bit_iff bit_simps less_Suc_eq)

lemma crc_fold_bits:
  "n \<le> 32 \<Longrightarrow> fold crc_bit (map (bit (w :: 32 word)) [0..<n]) c = (crc_step ^^ n) (c XOR take_bit n w)"
proof (induction n)
  case (Suc n)
  let ?m = "of_bool (bit w n) :: 32 word"
  have "take_bit n (push_bit n ?m) = 0" by (simp add: take_bit_push_bit)
  then have "(crc_step ^^ n) (push_bit n ?m) = drop_bit n (push_bit n ?m)" by (rule crc_steps_shift)
  also have "\<dots> = ?m" using Suc.prems by (auto intro!: bit_eqI simp: bit_drop_bit_eq bit_push_bit_iff bit_simps)
  finally have m: "(crc_step ^^ n) (push_bit n ?m) = ?m" .
  have "fold crc_bit (map (bit w) [0..<Suc n]) c = crc_step ((crc_step ^^ n) (c XOR take_bit n w) XOR ?m)"
    using Suc by (simp add: crc_bit_xor [of "bit w n"])
  also have "\<dots> = (crc_step ^^ Suc n) (c XOR take_bit (Suc n) w)"
    by (simp add: take_bit_Suc_xor crc_steps_xor m xor.assoc)
  finally show ?case .
qed simp

lemma crc_byte: "crc_table ! unat ((c XOR ucast b) AND 0xFF) XOR drop_bit 8 c = fold crc_bit (byte_bits b) c"
proof -
  define x where "x = c XOR ucast b"
  define lo where "lo = take_bit 8 x"
  have lo: "x AND 0xFF = lo" using take_bit_eq_mask [of 8 x] by (simp add: lo_def mask_eq_exp_minus_1)
  have "unat lo < 256" by (simp only: lo_def unsigned_take_bit_eq) (simp add: take_bit_eq_mod)
  then have tab: "crc_table ! unat lo = (crc_step ^^ 8) lo" by (simp add: crc_table_def)
  have hi: "take_bit 8 (x XOR lo) = 0" by (simp add: lo_def take_bit_xor)
  have "drop_bit 8 (x XOR lo) = drop_bit 8 c"
    by (rule bit_eqI) (auto simp: lo_def x_def bit_simps dest: bit_imp_le_length)
  then have "(crc_step ^^ 8) x = (crc_step ^^ 8) lo XOR drop_bit 8 c"
    using crc_steps_xor [of 8 lo "x XOR lo"] crc_steps_shift [OF hi] by (simp add: xor.left_commute [of lo x lo])
  moreover have "byte_bits b = map (bit (ucast b :: 32 word)) [0..<8]"
    by (auto simp: byte_bits_def bit_simps)
  moreover have "take_bit 8 (ucast b :: 32 word) = ucast b"
    by (rule bit_eqI) (auto simp: bit_simps dest: bit_imp_le_length)
  ultimately show ?thesis using crc_fold_bits [of 8 "ucast b" c] tab by (simp add: x_def lo flip: x_def)
qed

lemma crc32_of_bits: "crc32_of p 0 = crc_reference p"
proof -
  have "fold (\<lambda>b crc. crc_table ! unat ((crc XOR ucast b) AND 0xFF) XOR drop_bit 8 crc) p c
      = fold crc_bit (concat (map byte_bits p)) c" for c
    by (induction p arbitrary: c) (simp_all only: fold_simps concat.simps list.map crc_byte fold_append comp_apply)
  then show ?thesis by (simp add: crc32_of_def crc_reference_def)
qed

text \<open>
  The table-driven checksum of the PNG chunks is the CRC-32 of their definition, bit by bit.
\<close>

theorem crc32_correct: "crc32_of p 0 = crc_reference p"
  by (rule crc32_of_bits)

subsection \<open>PNG\<close>

definition CAPTCHA_WIDTH :: int where "CAPTCHA_WIDTH = 200"
definition CAPTCHA_HEIGHT :: int where "CAPTCHA_HEIGHT = 70"

definition PIXELS :: nat where "PIXELS = nat (CAPTCHA_WIDTH * CAPTCHA_HEIGHT)"

definition be32 :: "32 word \<Rightarrow> byte list" where
  "be32 v = [ucast (drop_bit 24 v), ucast (drop_bit 16 v), ucast (drop_bit 8 v), ucast v]"

definition bytes_of :: "string \<Rightarrow> byte list" where
  "bytes_of s = map (\<lambda>c. of_nat (ord c)) s"

definition png_chunk :: "string \<Rightarrow> byte list \<Rightarrow> byte list" where
  "png_chunk type data =
     be32 (of_nat (length data)) @ bytes_of type @ data @ be32 (crc32_of (bytes_of type @ data) 0)"

text \<open>The loop over the stored blocks; its argument is \<open>raw + off\<close>.\<close>

function stored_blocks :: "byte list \<Rightarrow> byte list" where
  "stored_blocks raw =
     (if raw = [] then []
      else (let n = min 65535 (length raw); w = of_nat n :: 64 word
            in [if n = length raw then 1 else 0, ucast w, ucast (drop_bit 8 w), ucast (NOT w), ucast (drop_bit 8 (NOT w))]
               @ take n raw @ stored_blocks (drop n raw)))"
  by pat_completeness auto
termination
  by (relation "measure length") auto

declare stored_blocks.simps [simp del]

definition adler_loop :: "byte list \<Rightarrow> nat \<times> nat" where
  "adler_loop raw = fold (\<lambda>x (a, b). let a' = (a + unat x) mod 65521 in (a', (b + a') mod 65521)) raw (1, 0)"

definition adler_word :: "nat \<times> nat \<Rightarrow> 32 word" where
  "adler_word ab = push_bit 16 (of_nat (snd ab)) OR of_nat (fst ab)"

definition zlib_stored :: "byte list \<Rightarrow> byte list" where
  "zlib_stored raw = [0x78, 0x01] @ stored_blocks raw @ be32 (adler_word (adler_loop raw))"

definition png_raw :: "byte list \<Rightarrow> byte list" where
  "png_raw gray = concat (map (\<lambda>y. 0 # take (nat CAPTCHA_WIDTH) (drop (y * nat CAPTCHA_WIDTH) gray)) [0..<nat CAPTCHA_HEIGHT])"

definition png_sig :: "byte list" where
  "png_sig = [0x89, 0x50, 0x4E, 0x47, 0x0D, 0x0A, 0x1A, 0x0A]"

definition png_ihdr :: "byte list" where
  "png_ihdr = be32 (of_int CAPTCHA_WIDTH) @ be32 (of_int CAPTCHA_HEIGHT) @ [8, 0, 0, 0, 0]"

definition encode_png :: "byte list \<Rightarrow> byte list" where
  "encode_png gray = png_sig @ png_chunk ''IHDR'' png_ihdr @ png_chunk ''IDAT'' (zlib_stored (png_raw gray)) @ png_chunk ''IEND'' []"

text \<open>A reader of 8-bit grayscale PNG files with stored, unfiltered data. It checks every length and checksum.\<close>

fun read_be32 :: "byte list \<Rightarrow> 32 word" where
  "read_be32 (a # b # c # d # bs) = push_bit 24 (ucast a) OR push_bit 16 (ucast b) OR push_bit 8 (ucast c) OR ucast d"
| "read_be32 _ = 0"

definition read_chunk :: "string \<Rightarrow> byte list \<Rightarrow> (byte list \<times> byte list) option" where
  "read_chunk type bs =
     (let n = unat (read_be32 bs); body = take (4 + n) (drop 4 bs)
      in if 12 + n \<le> length bs \<and> take 4 body = bytes_of type \<and> read_be32 (drop (8 + n) bs) = crc_reference body
         then Some (drop 4 body, drop (12 + n) bs) else None)"

function read_stored :: "byte list \<Rightarrow> (byte list \<times> byte list) option" where
  "read_stored bs =
     (case bs of
        final # l0 # l1 # n0 # n1 # rest \<Rightarrow>
          (let n = unat l0 + 256 * unat l1
           in if final \<in> {0, 1} \<and> n0 = NOT l0 \<and> n1 = NOT l1 \<and> n \<le> length rest
              then (if final = 1 then Some (take n rest, drop n rest)
                    else map_option (\<lambda>(data, r). (take n rest @ data, r)) (read_stored (drop n rest)))
              else None)
      | _ \<Rightarrow> None)"
  by pat_completeness auto
termination
  by (relation "measure length") auto

declare read_stored.simps [simp del]

text \<open>The two sums of Adler-32, without reducing them on the way.\<close>

definition adler_reference :: "byte list \<Rightarrow> nat \<times> nat" where
  "adler_reference raw =
     (let a = (\<lambda>k. 1 + sum_list (map unat (take k raw)))
      in (a (length raw) mod 65521, sum_list (map a [1..<Suc (length raw)]) mod 65521))"

definition inflate_stored :: "byte list \<Rightarrow> byte list option" where
  "inflate_stored z =
     (if take 2 z = [0x78, 0x01] then
        (case read_stored (drop 2 z) of
           Some (raw, tail) \<Rightarrow> if length tail = 4 \<and> read_be32 tail = adler_word (adler_reference raw) then Some raw else None
         | None \<Rightarrow> None)
      else None)"

definition unfilter :: "nat \<Rightarrow> nat \<Rightarrow> byte list \<Rightarrow> byte list option" where
  "unfilter w h raw =
     (if length raw = h * (w + 1) \<and> list_all (\<lambda>y. raw ! (y * (w + 1)) = 0) [0..<h]
      then Some (concat (map (\<lambda>y. take w (drop (y * (w + 1) + 1) raw)) [0..<h])) else None)"

definition read_png :: "byte list \<Rightarrow> (nat \<times> nat \<times> byte list) option" where
  "read_png bs =
     (if take 8 bs = png_sig then
        Option.bind (read_chunk ''IHDR'' (drop 8 bs)) (\<lambda>(ihdr, r1).
        Option.bind (read_chunk ''IDAT'' r1) (\<lambda>(z, r2).
        Option.bind (read_chunk ''IEND'' r2) (\<lambda>(e, r3).
          let w = unat (read_be32 ihdr); h = unat (read_be32 (drop 4 ihdr))
          in if e = [] \<and> r3 = [] \<and> drop 8 ihdr = [8, 0, 0, 0, 0]
             then Option.bind (inflate_stored z) (\<lambda>raw. map_option (\<lambda>g. (w, h, g)) (unfilter w h raw)) else None)))
      else None)"

lemma length_be32 [simp]: "length (be32 v) = 4"
  by (simp add: be32_def)

lemma read_be32_be32 [simp]: "read_be32 (be32 v @ bs) = v"
proof (rule bit_eqI)
  fix n
  assume "possible_bit TYPE(32 word) n"
  then have "n < 32" by simp
  then have "n < 8 \<or> (\<exists>k<8. n = 8 + k) \<or> (\<exists>k<8. n = 16 + k) \<or> (\<exists>k<8. n = 24 + k)" by presburger
  then show "bit (read_be32 (be32 v @ bs)) n = bit v n"
    by (elim disjE exE conjE) (auto simp: be32_def bit_simps)
qed

lemma length_bytes_of [simp]: "length (bytes_of s) = length s"
  by (simp add: bytes_of_def)

lemma read_chunk_chunk:
  assumes "length type = 4" "length data < 2 ^ 32"
  shows "read_chunk type (png_chunk type data @ r) = Some (data, r)"
proof -
  let ?n = "length data" and ?body = "bytes_of type @ data"
  have n: "unat (of_nat ?n :: 32 word) = ?n" using assms(2) by (simp add: unat_of_nat)
  define bs where "bs = be32 (of_nat ?n) @ ?body @ be32 (crc32_of ?body 0) @ r"
  have "unat (read_be32 bs) = ?n" by (simp add: bs_def n)
  moreover have "take (4 + ?n) (drop 4 bs) = ?body" "take 4 (drop 4 bs) = bytes_of type" using assms(1) by (simp_all add: bs_def)
  moreover have "drop (8 + ?n) bs = be32 (crc32_of ?body 0) @ r" "drop (12 + ?n) bs = r" "12 + ?n \<le> length bs"
    using assms(1) by (simp_all add: bs_def)
  moreover have "png_chunk type data @ r = bs" by (simp add: png_chunk_def bs_def)
  ultimately show ?thesis using assms(1) by (simp add: read_chunk_def Let_def crc32_of_bits)
qed

lemma stored_length_bytes:
  assumes "n \<le> 65535"
  shows "unat (ucast (of_nat n :: 64 word) :: byte) + 256 * unat (ucast (drop_bit 8 (of_nat n :: 64 word)) :: byte) = n"
proof -
  let ?w = "of_nat n :: 64 word"
  have w: "unat ?w = n" using assms by (simp add: unat_of_nat)
  have "unat (ucast ?w :: byte) = n mod 256" by (simp add: unsigned_ucast_eq take_bit_eq_mod w)
  moreover have "unat (ucast (drop_bit 8 ?w) :: byte) = n div 256 mod 256"
    by (simp only: unsigned_ucast_eq unsigned_drop_bit_eq w) (use assms in \<open>simp add: take_bit_eq_mod drop_bit_eq_div\<close>)
  moreover have "n div 256 mod 256 = n div 256" using assms by simp
  ultimately show ?thesis by simp
qed

lemma not_ucast_byte: "ucast (NOT w) = (NOT (ucast w) :: byte)" "ucast (drop_bit 8 (NOT w)) = (NOT (ucast (drop_bit 8 w)) :: byte)"
  for w :: "64 word"
  by (rule bit_eqI, auto simp: bit_simps)+

lemma read_stored_blocks: "raw \<noteq> [] \<Longrightarrow> read_stored (stored_blocks raw @ r) = Some (raw, r)"
proof (induction raw rule: stored_blocks.induct)
  case (1 raw)
  define n where "n = min 65535 (length raw)"
  let ?w = "of_nat n :: 64 word"
  have n: "n \<le> 65535" "n \<le> length raw" "0 < n" using "1.prems" by (simp_all add: n_def)
  have blocks: "stored_blocks raw @ r = (if n = length raw then 1 else 0) # ucast ?w # ucast (drop_bit 8 ?w) # NOT (ucast ?w)
      # NOT (ucast (drop_bit 8 ?w)) # take n raw @ stored_blocks (drop n raw) @ r"
    using "1.prems" by (subst stored_blocks.simps) (simp add: Let_def n_def not_ucast_byte)
  show ?case
  proof (cases "n = length raw")
    case True
    then have "stored_blocks (drop n raw) = []" by (subst stored_blocks.simps) simp
    then show ?thesis
      using True stored_length_bytes [OF n(1)] unfolding blocks by (subst read_stored.simps) (simp add: Let_def)
  next
    case False
    then have "drop n raw \<noteq> []" using n by simp
    then have "read_stored (stored_blocks (drop n raw) @ r) = Some (drop n raw, r)"
      using 1 by (simp add: n_def)
    then show ?thesis
      using False n(2) stored_length_bytes [OF n(1)] unfolding blocks by (subst read_stored.simps) (simp add: Let_def)
  qed
qed

lemma adler_loop_correct: "adler_loop raw = adler_reference raw"
proof (induction raw rule: rev_induct)
  case Nil
  show ?case by (simp add: adler_loop_def adler_reference_def)
next
  case (snoc x raw)
  let ?a = "\<lambda>k. 1 + sum_list (map unat (take k raw))"
  let ?n = "length raw"
  have le: "k - ?n = 0" if "k \<in> set [1..<Suc ?n]" for k using that by auto
  have "sum_list (map (\<lambda>k. 1 + sum_list (map unat (take k (raw @ [x])))) [1..<Suc ?n]) = sum_list (map ?a [1..<Suc ?n])"
    by (rule arg_cong [where f = sum_list], rule map_cong [OF refl]) (use le in auto)
  moreover have "[1..<Suc (Suc ?n)] = [1..<Suc ?n] @ [Suc ?n]" by simp
  ultimately have "adler_reference (raw @ [x]) = ((?a ?n + unat x) mod 65521,
      (sum_list (map ?a [1..<Suc ?n]) + (?a ?n + unat x)) mod 65521)"
    by (simp add: adler_reference_def Let_def add.assoc del: upt_Suc take_append One_nat_def)
  moreover have "adler_loop (raw @ [x]) = ((?a ?n mod 65521 + unat x) mod 65521,
      (sum_list (map ?a [1..<Suc ?n]) mod 65521 + (?a ?n mod 65521 + unat x) mod 65521) mod 65521)"
    using snoc by (simp add: adler_loop_def adler_reference_def Let_def del: upt_Suc One_nat_def)
  ultimately show ?case by (simp only: mod_add_left_eq mod_add_right_eq)
qed

lemma inflate_zlib: "raw \<noteq> [] \<Longrightarrow> inflate_stored (zlib_stored raw) = Some raw"
  using read_stored_blocks [of raw "be32 (adler_word (adler_loop raw))"] read_be32_be32 [of "adler_word (adler_loop raw)" "[]"]
  by (simp add: inflate_stored_def zlib_stored_def adler_loop_correct)

lemma png_raw_length: "length gray = PIXELS \<Longrightarrow> length (png_raw gray) = 14070"
  using concat_rows_length [of "[0..<70]" "\<lambda>y. 0 # take 200 (drop (y * 200) gray)" 201]
  by (simp add: png_raw_def CAPTCHA_WIDTH_def CAPTCHA_HEIGHT_def PIXELS_def)

lemma unfilter_rows:
  assumes "length gray = h * w"
  shows "unfilter w h (concat (map (\<lambda>y. 0 # take w (drop (y * w) gray)) [0..<h])) = Some gray"
proof -
  let ?f = "\<lambda>y. 0 # take w (drop (y * w) gray)"
  let ?raw = "concat (map ?f [0..<h])"
  have row: "length (?f y) = w + 1" if "y < h" for y
  proof -
    have "Suc y * w \<le> h * w" using that by (intro mult_le_mono1) simp
    then show ?thesis using assms by simp
  qed
  then have len: "length ?raw = h * (w + 1)" using concat_rows_length [of "[0..<h]" ?f "w + 1"] by simp
  have cell: "?raw ! (y * (w + 1) + k) = ?f y ! k" if "y < h" "k < w + 1" for y k
    using concat_rows_nth [of "[0..<h]" ?f "w + 1" k y] row that by simp
  have "take w (drop (y * (w + 1) + 1) ?raw) = take w (drop (y * w) gray)" if "y < h" for y
  proof (rule nth_equalityI)
    have "Suc y * (w + 1) \<le> h * (w + 1)" "Suc y * w \<le> h * w" using that by (intro mult_le_mono1; simp)+
    then show "length (take w (drop (y * (w + 1) + 1) ?raw)) = length (take w (drop (y * w) gray))"
      using len assms by simp
    fix i assume "i < length (take w (drop (y * (w + 1) + 1) ?raw))"
    then have i: "i < w" "i + (y * (w + 1) + 1) < length ?raw" by (auto simp only: length_take length_drop min_less_iff_conj less_diff_conv)
    then show "take w (drop (y * (w + 1) + 1) ?raw) ! i = take w (drop (y * w) gray) ! i"
      using cell [OF that, of "Suc i"] by (simp add: ac_simps)
  qed
  then have "concat (map (\<lambda>y. take w (drop (y * (w + 1) + 1) ?raw)) [0..<h]) = concat (map (\<lambda>y. take w (drop (y * w) gray)) [0..<h])"
    by (intro arg_cong [where f = concat] map_cong) auto
  also have "\<dots> = take (h * w) gray"
    by (induction h) (simp_all add: add.commute flip: take_add)
  finally show ?thesis using len cell [of _ 0] assms by (simp add: unfilter_def list_all_iff)
qed

text \<open>
  The challenge's PNG is a PNG: a reader that checks the signature, the length and CRC of
  every chunk, the complemented lengths of the stored blocks and the Adler-32 of the data finds
  a 200 by 70 picture with exactly the gray values that were drawn. The file is as long as
  the buffer that was allocated for it.
\<close>

theorem png_roundtrip:
  assumes "length gray = PIXELS"
  shows "read_png (encode_png gray) = Some (200, 70, gray) \<and>
    length (encode_png gray) = 8 + 25 + 12 + (2 + 14070 + (14070 div 65535 + 1) * 5 + 4) + 12"
proof -
  let ?z = "zlib_stored (png_raw gray)"
  have raw: "length (png_raw gray) = 14070" "png_raw gray \<noteq> []" using png_raw_length [OF assms] by auto
  have "length (stored_blocks (png_raw gray)) = 5 + 14070"
    using raw by (subst stored_blocks.simps) (simp add: Let_def stored_blocks.simps [of "[]"])
  then have z: "length ?z = 2 + (5 + 14070) + 4" by (simp add: zlib_stored_def)
  have "read_be32 png_ihdr = 200" "read_be32 (drop 4 png_ihdr) = 70" "length png_ihdr = 13" "drop 8 png_ihdr = [8, 0, 0, 0, 0]"
    using read_be32_be32 [of 70 "[8, 0, 0, 0, 0]"] by (simp_all add: png_ihdr_def CAPTCHA_WIDTH_def CAPTCHA_HEIGHT_def)
  moreover have "unfilter 200 70 (png_raw gray) = Some gray"
    using unfilter_rows [of gray 70 200] assms by (simp add: png_raw_def CAPTCHA_WIDTH_def CAPTCHA_HEIGHT_def PIXELS_def)
  ultimately have "read_png (encode_png gray) = Some (200, 70, gray)"
    using read_chunk_chunk [of "''IHDR''" png_ihdr] read_chunk_chunk [of "''IDAT''" ?z] read_chunk_chunk [of "''IEND''" "[]" "[]"]
      inflate_zlib [OF raw(2)] z by (simp add: read_png_def encode_png_def png_sig_def)
  moreover have "length (encode_png gray) = 8 + 25 + 12 + (2 + 14070 + (14070 div 65535 + 1) * 5 + 4) + 12"
    using z \<open>length png_ihdr = 13\<close> by (simp add: encode_png_def png_chunk_def png_sig_def)
  ultimately show ?thesis by blast
qed

theorem png_roundtrip_witness: "read_png (encode_png (replicate PIXELS 7)) = Some (200, 70, replicate PIXELS 7)"
  using png_roundtrip [of "replicate PIXELS 7"] by simp

end
