(* ===== verification/Captcha_Image.thy ===== *)
theory Captcha_Image
  imports Image_Codec "HOL-Library.State_Monad"
begin

unbundle bit_operations_syntax

text \<open>
  The pictures of the comment form's challenge (src/src/utils/captcha.c): the built-in font,
  the pseudo-random drawing, and the PNG, GIF, WBMP and text encoders written without an
  image library. The ChaCha20 stream of libsodium is an argument, and so is the one value the
  drawing takes from the floating-point library (\<open>lround(amp * sin(2 * M_PI * x / period + phase))\<close>);
  the other rounding, of a product of whole numbers over 100, is exact. Where C leaves the
  order of two draws in one argument list open, the model draws from left to right. Running
  out of memory is not modelled.
\<close>

subsection \<open>Font\<close>

definition ALPHABET :: string where
  "ALPHABET = ''ACDEFHJKMNPRTUVWXY34679''"

definition FONT :: "(char \<times> byte list) list" where
  "FONT =
     [(CHR ''A'', [0x0E, 0x11, 0x11, 0x1F, 0x11, 0x11, 0x11]),
      (CHR ''C'', [0x0E, 0x11, 0x10, 0x10, 0x10, 0x11, 0x0E]),
      (CHR ''D'', [0x1E, 0x11, 0x11, 0x11, 0x11, 0x11, 0x1E]),
      (CHR ''E'', [0x1F, 0x10, 0x10, 0x1E, 0x10, 0x10, 0x1F]),
      (CHR ''F'', [0x1F, 0x10, 0x10, 0x1E, 0x10, 0x10, 0x10]),
      (CHR ''H'', [0x11, 0x11, 0x11, 0x1F, 0x11, 0x11, 0x11]),
      (CHR ''J'', [0x07, 0x02, 0x02, 0x02, 0x02, 0x12, 0x0C]),
      (CHR ''K'', [0x11, 0x12, 0x14, 0x18, 0x14, 0x12, 0x11]),
      (CHR ''M'', [0x11, 0x1B, 0x15, 0x15, 0x11, 0x11, 0x11]),
      (CHR ''N'', [0x11, 0x11, 0x19, 0x15, 0x13, 0x11, 0x11]),
      (CHR ''P'', [0x1E, 0x11, 0x11, 0x1E, 0x10, 0x10, 0x10]),
      (CHR ''R'', [0x1E, 0x11, 0x11, 0x1E, 0x14, 0x12, 0x11]),
      (CHR ''T'', [0x1F, 0x04, 0x04, 0x04, 0x04, 0x04, 0x04]),
      (CHR ''U'', [0x11, 0x11, 0x11, 0x11, 0x11, 0x11, 0x0E]),
      (CHR ''V'', [0x11, 0x11, 0x11, 0x11, 0x11, 0x0A, 0x04]),
      (CHR ''W'', [0x11, 0x11, 0x11, 0x15, 0x15, 0x15, 0x0A]),
      (CHR ''X'', [0x11, 0x11, 0x0A, 0x04, 0x0A, 0x11, 0x11]),
      (CHR ''Y'', [0x11, 0x11, 0x0A, 0x04, 0x04, 0x04, 0x04]),
      (CHR ''3'', [0x1E, 0x01, 0x01, 0x0E, 0x01, 0x01, 0x1E]),
      (CHR ''4'', [0x02, 0x06, 0x0A, 0x12, 0x1F, 0x02, 0x02]),
      (CHR ''6'', [0x06, 0x08, 0x10, 0x1E, 0x11, 0x11, 0x0E]),
      (CHR ''7'', [0x1F, 0x01, 0x02, 0x04, 0x08, 0x08, 0x08]),
      (CHR ''9'', [0x0E, 0x11, 0x11, 0x0F, 0x01, 0x02, 0x0C])]"

definition glyph :: "char \<Rightarrow> byte list option" where
  "glyph c = map_of FONT c"

definition glyph_bit :: "byte list \<Rightarrow> nat \<Rightarrow> nat \<Rightarrow> bool" where
  "glyph_bit g r c \<longleftrightarrow> (g ! r) AND drop_bit c 0x10 \<noteq> 0"

subsection \<open>Randomness\<close>

type_synonym stream = "byte list \<Rightarrow> 64 word \<Rightarrow> byte list"

record Rng =
  rng_key :: "byte list"
  rng_buf :: "byte list"
  rng_block :: "64 word"
  rng_pos :: nat

definition rng_init :: "byte list \<Rightarrow> Rng" where
  "rng_init seed = \<lparr>rng_key = seed, rng_buf = replicate 64 0, rng_block = 0, rng_pos = 64\<rparr>"

text \<open>\<open>chacha key n\<close> is block \<open>n\<close> of the stream under \<open>key\<close>, which the code gets by encrypting zeros.\<close>

definition refill :: "stream \<Rightarrow> Rng \<Rightarrow> Rng" where
  "refill chacha r =
     (if rng_pos r + 4 > 64
      then r\<lparr>rng_buf := chacha (rng_key r) (rng_block r), rng_block := rng_block r + 1, rng_pos := 0\<rparr> else r)"

definition le32 :: "byte list \<Rightarrow> nat" where
  "le32 bs = unat (bs ! 0) + 2 ^ 8 * unat (bs ! 1) + 2 ^ 16 * unat (bs ! 2) + 2 ^ 24 * unat (bs ! 3)"

definition rnd :: "stream \<Rightarrow> int \<Rightarrow> int \<Rightarrow> (Rng, int) state" where
  "rnd chacha lo hi = State (\<lambda>r0.
     let r = refill chacha r0; v = le32 (drop (rng_pos r) (rng_buf r))
     in (lo + int v mod (hi - lo + 1), r\<lparr>rng_pos := rng_pos r + 4\<rparr>))"

text \<open>A \<open>for\<close> loop whose body draws numbers and changes the picture.\<close>

primrec for_each :: "'a list \<Rightarrow> ('a \<Rightarrow> 'b \<Rightarrow> (Rng, 'b) state) \<Rightarrow> 'b \<Rightarrow> (Rng, 'b) state" where
  "for_each [] f b = State_Monad.return b"
| "for_each (x # xs) f b = State_Monad.bind (f x b) (for_each xs f)"

subsection \<open>Drawing\<close>

definition put :: "byte list \<Rightarrow> int \<Rightarrow> int \<Rightarrow> byte \<Rightarrow> byte list" where
  "put img x y v =
     (if 0 \<le> x \<and> x < CAPTCHA_WIDTH \<and> 0 \<le> y \<and> y < CAPTCHA_HEIGHT
      then img[nat (y * CAPTCHA_WIDTH + x) := v] else img)"

text \<open>The loop of \<open>line\<close> has no bound of its own: that it ends is a theorem below.\<close>

partial_function (option) line_loop ::
  "int \<Rightarrow> int \<Rightarrow> int \<Rightarrow> int \<Rightarrow> int \<Rightarrow> int \<Rightarrow> byte \<Rightarrow> byte list \<Rightarrow> int \<Rightarrow> int \<Rightarrow> int \<Rightarrow> byte list option" where
  "line_loop dx dy sx sy x1 y1 v img x0 y0 err =
     (let img = put (put img x0 y0 v) x0 (y0 + 1) v
      in if x0 = x1 \<and> y0 = y1 then Some img
         else (let e2 = 2 * err;
                   xstep = (e2 \<ge> dy); ystep = (e2 \<le> dx)
               in line_loop dx dy sx sy x1 y1 v img
                    (if xstep then x0 + sx else x0) (if ystep then y0 + sy else y0)
                    (err + (if xstep then dy else 0) + (if ystep then dx else 0))))"

definition line :: "byte list \<Rightarrow> int \<Rightarrow> int \<Rightarrow> int \<Rightarrow> int \<Rightarrow> byte \<Rightarrow> byte list option" where
  "line img x0 y0 x1 y1 v =
     (let dx = \<bar>x1 - x0\<bar>; dy = - \<bar>y1 - y0\<bar>
      in line_loop dx dy (if x0 < x1 then 1 else -1) (if y0 < y1 then 1 else -1) x1 y1 v img x0 y0 (dx + dy))"

text \<open>\<open>lround(n / 100.0)\<close>: halves away from zero.\<close>

definition lround100 :: "int \<Rightarrow> int" where
  "lround100 n = (if 0 \<le> n then (n + 50) div 100 else - ((- n + 50) div 100))"

definition draw_cell :: "stream \<Rightarrow> int \<Rightarrow> int \<Rightarrow> int \<Rightarrow> int \<Rightarrow> byte \<Rightarrow> byte list \<Rightarrow> (Rng, byte list) state" where
  "draw_cell chacha bx by sx sy ink =
     for_each (List.product [0..sy - 1] [0..sx - 1]) (\<lambda>(yy, xx) img. do {
       hole \<leftarrow> rnd chacha 0 29;
       State_Monad.return (if hole > 0 then put img (bx + xx) (by + yy) ink else img)
     })"

definition draw_glyph :: "stream \<Rightarrow> int \<Rightarrow> int \<Rightarrow> byte list \<Rightarrow> byte list \<Rightarrow> (Rng, byte list) state" where
  "draw_glyph chacha step i g img = do {
     sx \<leftarrow> rnd chacha 4 5;
     sy \<leftarrow> rnd chacha 6 7;
     shear \<leftarrow> rnd chacha (-20) 20;
     jx \<leftarrow> rnd chacha (-3) 3;
     jy \<leftarrow> rnd chacha (-6) 6;
     ink \<leftarrow> rnd chacha 10 60;
     for_each (List.product [0..6] [0..4]) (\<lambda>(r, c) img.
       if glyph_bit g (nat r) (nat c)
       then draw_cell chacha (10 + i * step + jx + c * sx + lround100 (shear * (3 - r) * sy))
              ((CAPTCHA_HEIGHT - 7 * sy) div 2 + jy + r * sy) sx sy (of_int ink) img
       else State_Monad.return img) img
   }"

definition draw_line :: "stream \<Rightarrow> byte list option \<Rightarrow> (Rng, byte list option) state" where
  "draw_line chacha img = do {
     x0 \<leftarrow> rnd chacha 0 (CAPTCHA_WIDTH div 4);
     y0 \<leftarrow> rnd chacha 0 (CAPTCHA_HEIGHT - 1);
     x1 \<leftarrow> rnd chacha (3 * CAPTCHA_WIDTH div 4) (CAPTCHA_WIDTH - 1);
     y1 \<leftarrow> rnd chacha 0 (CAPTCHA_HEIGHT - 1);
     v \<leftarrow> rnd chacha 90 160;
     State_Monad.return (Option.bind img (\<lambda>img. line img x0 y0 x1 y1 (of_int v)))
   }"

definition draw_dot :: "stream \<Rightarrow> byte list \<Rightarrow> (Rng, byte list) state" where
  "draw_dot chacha img = do {
     x \<leftarrow> rnd chacha 0 (CAPTCHA_WIDTH - 1);
     y \<leftarrow> rnd chacha 0 (CAPTCHA_HEIGHT - 1);
     v \<leftarrow> rnd chacha 60 180;
     State_Monad.return (put img x y (of_int v))
   }"

text \<open>The wave: column by column, from the picture \<open>img\<close> to the caller's buffer \<open>out\<close>.\<close>

definition draw_wave :: "stream \<Rightarrow> (int \<Rightarrow> int \<Rightarrow> int \<Rightarrow> int \<Rightarrow> int) \<Rightarrow> byte list \<Rightarrow> byte list \<Rightarrow> (Rng, byte list) state" where
  "draw_wave chacha wave img out = do {
     amp \<leftarrow> rnd chacha 15 30;
     period \<leftarrow> rnd chacha 70 110;
     phase \<leftarrow> rnd chacha 0 628;
     for_each (List.product [0..CAPTCHA_WIDTH - 1] [0..CAPTCHA_HEIGHT - 1]) (\<lambda>(x, y) out.
       let src = y + wave amp period phase x; at = nat (y * CAPTCHA_WIDTH + x)
       in if 0 \<le> src \<and> src < CAPTCHA_HEIGHT
          then State_Monad.return (out[at := img ! nat (src * CAPTCHA_WIDTH + x)])
          else do { v \<leftarrow> rnd chacha 215 255; State_Monad.return (out[at := of_int v]) }) out
   }"

definition draw_glyphs :: "stream \<Rightarrow> string \<Rightarrow> byte list \<Rightarrow> (Rng, byte list) state" where
  "draw_glyphs chacha s =
     (let len = length s; step = (CAPTCHA_WIDTH - 20) div (if 0 < len then int len else 1)
      in for_each [0..<len] (\<lambda>i img. case glyph (s ! i) of
           None \<Rightarrow> State_Monad.return img
         | Some g \<Rightarrow> draw_glyph chacha step (int i) g img))"

definition draw_picture :: "stream \<Rightarrow> string \<Rightarrow> (Rng, byte list option) state" where
  "draw_picture chacha s = do {
     paper \<leftarrow> traverse_list (\<lambda>_. rnd chacha 215 255) [0..<nat (CAPTCHA_WIDTH * CAPTCHA_HEIGHT)];
     img \<leftarrow> draw_glyphs chacha s (map of_int paper);
     img \<leftarrow> for_each [0..<3 :: nat] (\<lambda>_. draw_line chacha) (Some img);
     case img of
       None \<Rightarrow> State_Monad.return None
     | Some img \<Rightarrow> do {
         img \<leftarrow> for_each [0..<250 :: nat] (\<lambda>_. draw_dot chacha) img;
         State_Monad.return (Some img)
       }
   }"

definition draw :: "stream \<Rightarrow> (int \<Rightarrow> int \<Rightarrow> int \<Rightarrow> int \<Rightarrow> int) \<Rightarrow> string \<Rightarrow> byte list \<Rightarrow> byte list \<Rightarrow> byte list option" where
  "draw chacha wave s seed out =
     (case run_state (draw_picture chacha s) (rng_init seed) of
        (None, rng) \<Rightarrow> None
      | (Some img, rng) \<Rightarrow> Some (fst (run_state (draw_wave chacha wave img out) rng)))"

subsection \<open>Text art\<close>

definition ART_ROWS :: nat where "ART_ROWS = 9"
definition ART_COLS :: nat where "ART_COLS = 80"

definition INKS :: string where "INKS = ''#%@$MWX8''"
definition NOISE :: string where "NOISE = [CHR ''.'', CHR '','', SQ, CHR ''`'', CHR '':'', CHR ''-'']"

text \<open>A two-dimensional array; a write outside it is undefined behaviour, the value None.\<close>

type_synonym 'a grid = "'a list list option"

definition grid_set :: "'a grid \<Rightarrow> int \<Rightarrow> int \<Rightarrow> 'a \<Rightarrow> 'a grid" where
  "grid_set grid r c v = Option.bind grid (\<lambda>g.
     if 0 \<le> r \<and> r < int (length g) \<and> 0 \<le> c \<and> c < int (length (g ! nat r))
     then Some (g[nat r := (g ! nat r)[nat c := v]]) else None)"

definition grid_get :: "'a grid \<Rightarrow> nat \<Rightarrow> nat \<Rightarrow> 'a option" where
  "grid_get grid r c = Option.bind grid (\<lambda>g. if r < length g \<and> c < length (g ! r) then Some (g ! r ! c) else None)"

definition art_pixel :: "stream \<Rightarrow> char \<Rightarrow> int \<Rightarrow> int \<Rightarrow> char grid \<Rightarrow> (Rng, char grid) state" where
  "art_pixel chacha ink row col grid =
     (if 0 \<le> col \<and> col < int ART_COLS
      then do {
        hole \<leftarrow> rnd chacha 0 24;
        State_Monad.return (if hole > 0 then grid_set grid row col ink else grid)
      }
      else State_Monad.return grid)"

definition art_glyph :: "stream \<Rightarrow> byte list \<Rightarrow> int \<times> char grid \<Rightarrow> (Rng, int \<times> char grid) state" where
  "art_glyph chacha g xg = do {
     k \<leftarrow> rnd chacha 0 (int (length INKS) - 1);
     y0 \<leftarrow> rnd chacha 0 (int ART_ROWS - 7);
     slant \<leftarrow> rnd chacha (-1) 1;
     grid \<leftarrow> for_each (List.product [0..6] [0..4]) (\<lambda>(r, c) grid.
       if glyph_bit g (nat r) (nat c)
       then for_each [0..1] (\<lambda>k2. art_pixel chacha (INKS ! nat k) (y0 + r) (fst xg + (if r < 3 then slant else 0) + c * 2 + k2)) grid
       else State_Monad.return grid) (snd xg);
     gap \<leftarrow> rnd chacha 3 5;
     State_Monad.return (fst xg + 10 + gap, grid)
   }"

definition art_noise :: "stream \<Rightarrow> int \<Rightarrow> char grid \<Rightarrow> (Rng, char grid) state" where
  "art_noise chacha x =
     for_each (List.product [0..<ART_ROWS] [0..<min (nat x) ART_COLS]) (\<lambda>(r, c) grid.
       if grid_get grid r c = Some (CHR '' '') then do {
         hit \<leftarrow> rnd chacha 0 13;
         if hit = 0 then do {
           k \<leftarrow> rnd chacha 0 (int (length NOISE) - 1);
           State_Monad.return (grid_set grid (int r) (int c) (NOISE ! nat k))
         } else State_Monad.return grid
       } else State_Monad.return grid)"

definition art_row :: "string \<Rightarrow> string" where
  "art_row s = rev (dropWhile (\<lambda>c. c = CHR '' '') (rev s)) @ [LF]"

definition draw_text_art :: "stream \<Rightarrow> string \<Rightarrow> byte list \<Rightarrow> string option" where
  "draw_text_art chacha s seed =
     (let grid = fst (run_state (do {
        x \<leftarrow> rnd chacha 1 3;
        xg \<leftarrow> for_each s (\<lambda>c xg. case glyph c of
               None \<Rightarrow> State_Monad.return xg
             | Some g \<Rightarrow> art_glyph chacha g xg) (x, Some (replicate ART_ROWS (replicate ART_COLS (CHR '' ''))));
        art_noise chacha (fst xg) (snd xg)
      }) (rng_init seed))
      in map_option (\<lambda>g. concat (map art_row g)) grid)"

subsection \<open>WBMP\<close>

definition CAPTCHA_WBMP_WIDTH :: int where "CAPTCHA_WBMP_WIDTH = 96"
definition CAPTCHA_WBMP_HEIGHT :: int where "CAPTCHA_WBMP_HEIGHT = 32"

definition wbmp_pixel :: "stream \<Rightarrow> int \<Rightarrow> int \<Rightarrow> bool grid \<Rightarrow> (Rng, bool grid) state" where
  "wbmp_pixel chacha px py ink =
     (if 0 \<le> px \<and> px < CAPTCHA_WBMP_WIDTH \<and> py < CAPTCHA_WBMP_HEIGHT
      then do {
        hole \<leftarrow> rnd chacha 0 19;
        State_Monad.return (if hole > 0 then grid_set ink py px True else ink)
      }
      else State_Monad.return ink)"

definition wbmp_glyph :: "stream \<Rightarrow> byte list \<Rightarrow> int \<times> bool grid \<Rightarrow> (Rng, int \<times> bool grid) state" where
  "wbmp_glyph chacha g xi = do {
     jy \<leftarrow> rnd chacha (-4) 4;
     ink \<leftarrow> for_each (List.product [0..6] [0..4]) (\<lambda>(r, c) ink.
       if glyph_bit g (nat r) (nat c)
       then for_each [0..3] (\<lambda>k. wbmp_pixel chacha (fst xi + c * 2 + k mod 2)
              ((CAPTCHA_WBMP_HEIGHT - 14) div 2 + jy + r * 2 + k div 2)) ink
       else State_Monad.return ink) (snd xi);
     gap \<leftarrow> rnd chacha 4 7;
     State_Monad.return (fst xi + 10 + gap, ink)
   }"

definition wbmp_dot :: "stream \<Rightarrow> bool grid \<Rightarrow> (Rng, bool grid) state" where
  "wbmp_dot chacha ink = do {
     r \<leftarrow> rnd chacha 0 (CAPTCHA_WBMP_HEIGHT - 1);
     c \<leftarrow> rnd chacha 0 (CAPTCHA_WBMP_WIDTH - 1);
     State_Monad.return (grid_set ink r c True)
   }"

definition wbmp_line_step :: "int \<Rightarrow> nat \<Rightarrow> int \<times> bool grid \<Rightarrow> int \<times> bool grid" where
  "wbmp_line_step dy lx yi =
     (let y = (if lx mod 24 = 23 then fst yi + dy else fst yi)
      in (y, if 0 \<le> y \<and> y < CAPTCHA_WBMP_HEIGHT \<and> lx mod 3 = 0 then grid_set (snd yi) y (int lx) True else snd yi))"

definition wbmp_ink :: "stream \<Rightarrow> string \<Rightarrow> byte list \<Rightarrow> bool grid" where
  "wbmp_ink chacha s seed =
     fst (run_state (do {
       x \<leftarrow> rnd chacha 2 6;
       xi \<leftarrow> for_each s (\<lambda>c xi. case glyph c of
               None \<Rightarrow> State_Monad.return xi
             | Some g \<Rightarrow> wbmp_glyph chacha g xi)
            (x, Some (replicate (nat CAPTCHA_WBMP_HEIGHT) (replicate (nat CAPTCHA_WBMP_WIDTH) False)));
       ink \<leftarrow> for_each [0..<25 :: nat] (\<lambda>_. wbmp_dot chacha) (snd xi);
       y \<leftarrow> rnd chacha 8 (CAPTCHA_WBMP_HEIGHT - 9);
       dy \<leftarrow> rnd chacha (-1) 1;
       State_Monad.return (snd (fold (wbmp_line_step dy) [0..<nat CAPTCHA_WBMP_WIDTH] (y, ink)))
     }) (rng_init seed))"

definition draw_wbmp :: "stream \<Rightarrow> string \<Rightarrow> byte list \<Rightarrow> byte list option" where
  "draw_wbmp chacha s seed =
     (let row_bytes = nat ((CAPTCHA_WBMP_WIDTH + 7) div 8)
      in map_option (\<lambda>ink. [0, 0, of_int CAPTCHA_WBMP_WIDTH, of_int CAPTCHA_WBMP_HEIGHT]
           @ concat (map (\<lambda>row. map (wbmp_byte row) [0..<row_bytes]) ink)) (wbmp_ink chacha s seed))"

subsection \<open>Invariants of a drawing\<close>

lemma rnd_range:
  assumes "lo \<le> hi"
  shows "pred_state (\<lambda>v. lo \<le> v \<and> v \<le> hi) (rnd chacha lo hi)"
proof (rule pred_stateI)
  fix a r r'
  assume "run_state (rnd chacha lo hi) r = (a, r')"
  then obtain v where a: "a = lo + int v mod (hi - lo + 1)" by (auto simp: rnd_def Let_def)
  have "0 < hi - lo + 1" using assms by simp
  then show "lo \<le> a \<and> a \<le> hi" using pos_mod_bound [of "hi - lo + 1" "int v"] pos_mod_sign [of "hi - lo + 1" "int v"] a by simp
qed

lemma pred_bind:
  assumes "pred_state Q m" "\<And>a. Q a \<Longrightarrow> pred_state P (f a)"
  shows "pred_state P (State_Monad.bind m f)"
  using assms by (intro bind_predI) (metis pred_stateD pred_stateI)

lemma pred_return [intro]: "P a \<Longrightarrow> pred_state P (State_Monad.return a)"
  by (rule pred_stateI) simp

lemma pred_rnd:
  assumes "lo \<le> hi" "\<And>v. lo \<le> v \<Longrightarrow> v \<le> hi \<Longrightarrow> pred_state P (f v)"
  shows "pred_state P (State_Monad.bind (rnd chacha lo hi) f)"
  using assms by (intro pred_bind [OF rnd_range]) auto

lemma pred_for_each:
  assumes "P b" "\<And>x b. x \<in> set xs \<Longrightarrow> P b \<Longrightarrow> pred_state P (f x b)"
  shows "pred_state P (for_each xs f b)"
  using assms
proof (induction xs arbitrary: b)
  case (Cons x xs)
  then show ?case by (auto intro: pred_bind [of P])
qed auto

lemma put_length [simp]: "length (put img x y v) = length img"
  by (simp add: put_def)

subsection \<open>Lines\<close>

text \<open>
  The error term is tied to the steps taken: after \<open>a\<close> steps along x and \<open>b\<close> along y it is
  \<open>dx - dy - a * dy + b * dx\<close>. When one coordinate has arrived, the term lets only the other
  one move, so the loop meets the end point after at most \<open>dx + dy\<close> steps.
\<close>

lemma line_loop_ends:
  fixes a b dx dy :: int
  assumes "n = nat ((dx - a) + (dy - b))" "0 \<le> a" "a \<le> dx" "0 \<le> b" "b \<le> dy" "\<bar>sx\<bar> = 1" "\<bar>sy\<bar> = 1"
    and "x0 = x1 - sx * (dx - a)" "y0 = y1 - sy * (dy - b)" "err = dx - dy - a * dy + b * dx"
  shows "\<exists>img'. line_loop dx (- dy) sx sy x1 y1 v img x0 y0 err = Some img' \<and> length img' = length img"
  using assms
proof (induction n arbitrary: a b img x0 y0 err rule: less_induct)
  case (less n)
  define img1 where "img1 = put (put img x0 y0 v) x0 (y0 + 1) v"
  have len: "length img1 = length img" by (simp add: img1_def)
  show ?case
  proof (cases "a = dx \<and> b = dy")
    case True
    then have "x0 = x1 \<and> y0 = y1" using less.prems by simp
    then show ?thesis using len by (subst line_loop.simps) (simp add: Let_def img1_def)
  next
    case False
    then have ne: "\<not> (x0 = x1 \<and> y0 = y1)" using less.prems by auto
    define xs ys where "xs \<longleftrightarrow> 2 * err \<ge> - dy" and "ys \<longleftrightarrow> 2 * err \<le> dx"
    define a' b' where "a' = (if xs then a + 1 else a)" and "b' = (if ys then b + 1 else b)"
    have some: "xs \<or> ys" using less.prems by (simp add: xs_def ys_def) linarith
    have xa: "a' \<le> dx"
    proof (rule ccontr)
      assume "\<not> a' \<le> dx"
      then have *: "xs" "a = dx" "b + 1 \<le> dy" using less.prems(3,5) False by (auto simp: a'_def split: if_splits)
      have "err = dx * (1 + b - dy) - dy" using less.prems(10) *(2) by (simp add: algebra_simps)
      moreover have "dx * (1 + b - dy) \<le> 0" using *(3) less.prems(2,3) by (simp add: mult_nonneg_nonpos)
      ultimately show False using *(1,3) less.prems(4) by (simp add: xs_def)
    qed
    have yb: "b' \<le> dy"
    proof (rule ccontr)
      assume "\<not> b' \<le> dy"
      then have *: "ys" "b = dy" "a + 1 \<le> dx" using less.prems(3,5) False by (auto simp: b'_def split: if_splits)
      have "err = dx + dy * (dx - a - 1)" using less.prems(10) *(2) by (simp add: algebra_simps)
      moreover have "0 \<le> dy * (dx - a - 1)" using *(3) less.prems(4,5) by simp
      ultimately show False using *(1,3) less.prems(2) by (simp add: ys_def)
    qed
    have "\<exists>img'. line_loop dx (- dy) sx sy x1 y1 v img1 (if xs then x0 + sx else x0) (if ys then y0 + sy else y0)
        (err + (if xs then - dy else 0) + (if ys then dx else 0)) = Some img' \<and> length img' = length img1"
      by (rule less.IH [OF _ refl, of a' b'])
        (use less.prems some xa yb in \<open>auto simp: a'_def b'_def algebra_simps\<close>)
    then show ?thesis
      using ne len by (subst line_loop.simps) (simp add: Let_def img1_def xs_def ys_def)
  qed
qed

lemma line_ends: "\<exists>img'. line img x0 y0 x1 y1 v = Some img' \<and> length img' = length img"
proof -
  have "\<exists>img'. line_loop \<bar>x1 - x0\<bar> (- \<bar>y1 - y0\<bar>) (if x0 < x1 then 1 else -1) (if y0 < y1 then 1 else -1) x1 y1 v img x0 y0
      (\<bar>x1 - x0\<bar> - \<bar>y1 - y0\<bar>) = Some img' \<and> length img' = length img"
    by (rule line_loop_ends [OF refl, of 0 _ 0]) auto
  then show ?thesis by (simp add: line_def Let_def)
qed

subsection \<open>The picture\<close>

lemma draw_cell_length: "length img = n \<Longrightarrow> pred_state (\<lambda>i. length i = n) (draw_cell chacha bx by sx sy ink img)"
  unfolding draw_cell_def by (rule pred_for_each) (auto intro!: pred_rnd)

lemma draw_glyph_length: "length img = n \<Longrightarrow> pred_state (\<lambda>i. length i = n) (draw_glyph chacha step i g img)"
  unfolding draw_glyph_def
  by (intro pred_rnd pred_for_each) (auto intro: draw_cell_length)

lemma draw_glyphs_length: "length img = n \<Longrightarrow> pred_state (\<lambda>i. length i = n) (draw_glyphs chacha s img)"
  unfolding draw_glyphs_def Let_def
  by (rule pred_for_each) (auto intro: draw_glyph_length split: option.split)

lemma draw_line_length:
  assumes "\<exists>i. img = Some i \<and> length i = n"
  shows "pred_state (\<lambda>img. \<exists>i. img = Some i \<and> length i = n) (draw_line chacha img)"
proof -
  obtain i where i: "img = Some i" "length i = n" using assms by blast
  show ?thesis
    unfolding draw_line_def i
    by (intro pred_rnd pred_return) (use i line_ends [of i] in \<open>auto simp: CAPTCHA_WIDTH_def CAPTCHA_HEIGHT_def\<close>)
qed

lemma draw_dot_length: "length img = n \<Longrightarrow> pred_state (\<lambda>i. length i = n) (draw_dot chacha img)"
  unfolding draw_dot_def by (intro pred_rnd pred_return) (auto simp: CAPTCHA_WIDTH_def CAPTCHA_HEIGHT_def)

lemma traverse_length: "pred_state (\<lambda>ys. length ys = length xs) (traverse_list f xs)"
proof (induction xs)
  case (Cons x xs)
  have "pred_state (\<lambda>_. True) (f x)" by blast
  then show ?case using Cons by (auto intro!: pred_bind [of "\<lambda>_. True"] pred_bind [OF Cons])
qed auto

lemma draw_picture_length: "pred_state (\<lambda>img. \<exists>i. img = Some i \<and> length i = PIXELS) (draw_picture chacha s)"
  unfolding draw_picture_def
proof (rule pred_bind [OF traverse_length])
  fix paper :: "int list"
  assume "length paper = length [0..<nat (CAPTCHA_WIDTH * CAPTCHA_HEIGHT)]"
  then have n: "length (map of_int paper :: byte list) = PIXELS" by (simp add: PIXELS_def)
  show "pred_state (\<lambda>img. \<exists>i. img = Some i \<and> length i = PIXELS)
     (State_Monad.bind (draw_glyphs chacha s (map of_int paper)) (\<lambda>img.
      State_Monad.bind (for_each [0..<3 :: nat] (\<lambda>_. draw_line chacha) (Some img)) (\<lambda>img.
      case img of None \<Rightarrow> State_Monad.return None
      | Some img \<Rightarrow> State_Monad.bind (for_each [0..<250 :: nat] (\<lambda>_. draw_dot chacha) img) (\<lambda>img. State_Monad.return (Some img)))))"
  proof (rule pred_bind [OF draw_glyphs_length [OF n]], rule pred_bind)
    fix img :: "byte list"
    assume "length img = PIXELS"
    then show "pred_state (\<lambda>img. \<exists>i. img = Some i \<and> length i = PIXELS) (for_each [0..<3 :: nat] (\<lambda>_. draw_line chacha) (Some img))"
      by (intro pred_for_each draw_line_length) blast
  next
    fix img :: "byte list option"
    assume "\<exists>i. img = Some i \<and> length i = PIXELS"
    then obtain i where i: "img = Some i" "length i = PIXELS" by blast
    have "pred_state (\<lambda>i. length i = PIXELS) (for_each [0..<250 :: nat] (\<lambda>_. draw_dot chacha) i)"
      by (rule pred_for_each [of _ i, OF i(2) draw_dot_length])
    then show "pred_state (\<lambda>img. \<exists>i. img = Some i \<and> length i = PIXELS) (case img of None \<Rightarrow> State_Monad.return None
      | Some img \<Rightarrow> State_Monad.bind (for_each [0..<250 :: nat] (\<lambda>_. draw_dot chacha) img) (\<lambda>img. State_Monad.return (Some img)))"
      unfolding i option.case by (rule pred_bind) blast
  qed
qed

text \<open>A loop whose steps each write one cell, with a value that does not depend on the array.\<close>

lemma for_each_writes:
  assumes "\<And>x. x \<in> set xs \<Longrightarrow> \<exists>m. \<forall>out. f x out = State_Monad.bind m (\<lambda>v. State_Monad.return (out[pos x := v]))"
    and "length out = length out'"
  shows "snd (run_state (for_each xs f out) r) = snd (run_state (for_each xs f out') r)
    \<and> length (fst (run_state (for_each xs f out) r)) = length out \<and> length (fst (run_state (for_each xs f out') r)) = length out
    \<and> (\<forall>i<length out. out ! i = out' ! i \<or> i \<in> pos ` set xs \<longrightarrow>
         fst (run_state (for_each xs f out) r) ! i = fst (run_state (for_each xs f out') r) ! i)"
  using assms
proof (induction xs arbitrary: out out' r)
  case (Cons x xs)
  obtain m where m: "\<And>out. f x out = State_Monad.bind m (\<lambda>v. State_Monad.return (out[pos x := v]))"
    using Cons.prems(1) [of x] by auto
  obtain v r1 where v: "run_state m r = (v, r1)" by fastforce
  have run: "run_state (for_each (x # xs) f o1) r = run_state (for_each xs f (o1[pos x := v])) r1" for o1
    by (simp add: m v)
  have "snd (run_state (for_each xs f (out[pos x := v])) r1) = snd (run_state (for_each xs f (out'[pos x := v])) r1)
    \<and> length (fst (run_state (for_each xs f (out[pos x := v])) r1)) = length (out[pos x := v])
    \<and> length (fst (run_state (for_each xs f (out'[pos x := v])) r1)) = length (out[pos x := v])
    \<and> (\<forall>i<length (out[pos x := v]). out[pos x := v] ! i = out'[pos x := v] ! i \<or> i \<in> pos ` set xs \<longrightarrow>
         fst (run_state (for_each xs f (out[pos x := v])) r1) ! i = fst (run_state (for_each xs f (out'[pos x := v])) r1) ! i)"
    by (rule Cons.IH) (use Cons.prems in auto)
  moreover have "out[pos x := v] ! i = out'[pos x := v] ! i \<or> i \<in> pos ` set xs"
    if "i < length out" "out ! i = out' ! i \<or> i \<in> pos ` set (x # xs)" for i
    using that Cons.prems(2) by (cases "pos x = i") auto
  ultimately show ?case unfolding run length_list_update by blast
qed simp

lemma pixel_positions: "(\<lambda>(x, y). nat (y * CAPTCHA_WIDTH + x)) ` set (List.product [0..CAPTCHA_WIDTH - 1] [0..CAPTCHA_HEIGHT - 1]) = {..<PIXELS}"
  unfolding set_product set_upto
proof (intro equalityI subsetI)
  fix i assume "i \<in> {..<PIXELS}"
  then have "i < 14000" by (simp add: PIXELS_def CAPTCHA_WIDTH_def CAPTCHA_HEIGHT_def)
  then have "0 \<le> int i div 200" "int i div 200 \<le> 69" by arith+
  then have "int i mod 200 \<in> {0..CAPTCHA_WIDTH - 1}" "int i div 200 \<in> {0..CAPTCHA_HEIGHT - 1}"
    "i = nat (int i div 200 * CAPTCHA_WIDTH + int i mod 200)"
    by (simp_all add: CAPTCHA_WIDTH_def CAPTCHA_HEIGHT_def)
  then show "i \<in> (\<lambda>(x, y). nat (y * CAPTCHA_WIDTH + x)) ` ({0..CAPTCHA_WIDTH - 1} \<times> {0..CAPTCHA_HEIGHT - 1})"
    by (intro image_eqI [of _ _ "(int i mod 200, int i div 200)"]) simp_all
next
  fix i assume "i \<in> (\<lambda>(x, y). nat (y * CAPTCHA_WIDTH + x)) ` ({0..CAPTCHA_WIDTH - 1} \<times> {0..CAPTCHA_HEIGHT - 1})"
  then obtain x y where "0 \<le> x" "x < CAPTCHA_WIDTH" "0 \<le> y" "y < CAPTCHA_HEIGHT" "i = nat (y * CAPTCHA_WIDTH + x)" by auto
  then show "i \<in> {..<PIXELS}" by (simp add: PIXELS_def CAPTCHA_WIDTH_def CAPTCHA_HEIGHT_def)
qed

lemma draw_wave_writes:
  assumes "length out = PIXELS" "length out' = PIXELS"
  shows "fst (run_state (draw_wave chacha wave img out) r) = fst (run_state (draw_wave chacha wave img out') r)"
    "length (fst (run_state (draw_wave chacha wave img out) r)) = PIXELS"
proof -
  define f where "f amp period phase = (\<lambda>(x :: int, y :: int) (out :: byte list).
       let src = y + wave amp period phase x; at = nat (y * CAPTCHA_WIDTH + x)
       in if 0 \<le> src \<and> src < CAPTCHA_HEIGHT
          then State_Monad.return (out[at := img ! nat (src * CAPTCHA_WIDTH + x)])
          else State_Monad.bind (rnd chacha 215 255) (\<lambda>v. State_Monad.return (out[at := of_int v])))" for amp period phase
  let ?ps = "List.product [0..CAPTCHA_WIDTH - 1] [0..CAPTCHA_HEIGHT - 1]"
  let ?pos = "\<lambda>(x, y). nat (y * CAPTCHA_WIDTH + x)"
  have step: "\<exists>m. \<forall>out. f a p h xy out = State_Monad.bind m (\<lambda>v. State_Monad.return (out[?pos xy := v]))" for a p h xy
  proof (cases xy)
    case (Pair x y)
    show ?thesis
    proof (cases "0 \<le> y + wave a p h x \<and> y + wave a p h x < CAPTCHA_HEIGHT")
      case True
      then show ?thesis
        by (intro exI [of _ "State_Monad.return (img ! nat ((y + wave a p h x) * CAPTCHA_WIDTH + x))"])
          (simp add: Pair f_def Let_def)
    next
      case False
      then show ?thesis
        by (intro exI [of _ "State_Monad.bind (rnd chacha 215 255) (\<lambda>v. State_Monad.return (of_int v))"])
          (auto simp: Pair f_def Let_def)
    qed
  qed
  have loop: "fst (run_state (for_each ?ps (f a p h) out) r) = fst (run_state (for_each ?ps (f a p h) out') r)"
    "length (fst (run_state (for_each ?ps (f a p h) out) r)) = PIXELS" for a p h r
    using for_each_writes [where xs = ?ps and f = "f a p h" and pos = ?pos and out = out and out' = out' and r = r, OF step] assms
    unfolding pixel_positions by (auto intro: nth_equalityI)
  have wave: "run_state (draw_wave chacha wave img o1) r =
      (case run_state (rnd chacha 15 30) r of (a, r1) \<Rightarrow> case run_state (rnd chacha 70 110) r1 of (p, r2) \<Rightarrow>
       case run_state (rnd chacha 0 628) r2 of (h, r3) \<Rightarrow> run_state (for_each ?ps (f a p h) o1) r3)" for o1
    by (simp add: draw_wave_def f_def)
  show "fst (run_state (draw_wave chacha wave img out) r) = fst (run_state (draw_wave chacha wave img out') r)"
    "length (fst (run_state (draw_wave chacha wave img out) r)) = PIXELS"
    unfolding wave using loop by (simp_all split: prod.split)
qed

text \<open>
  Drawing always ends with a whole picture, whatever the text, the seed and the rounding of
  the wave: the lines reach their end points, every one of the 14000 pixels of the buffer is
  written, and nothing of what the buffer held before is left in it.
\<close>

theorem captcha_draw_whole:
  "\<exists>img. length img = PIXELS \<and> (\<forall>out. length out = PIXELS \<longrightarrow> draw chacha wave s seed out = Some img)"
proof -
  obtain img rng where run: "run_state (draw_picture chacha s) (rng_init seed) = (Some img, rng)"
    using pred_stateD [OF draw_picture_length] by (metis surj_pair)
  let ?z = "replicate PIXELS 0 :: byte list"
  let ?out = "fst (run_state (draw_wave chacha wave img ?z) rng)"
  have z: "length ?z = PIXELS" by simp
  have "draw chacha wave s seed out = Some ?out" if "length out = PIXELS" for out
    using draw_wave_writes(1) [OF that z] run by (simp add: draw_def)
  then show ?thesis using draw_wave_writes(2) [OF z z] by blast
qed

theorem captcha_draw_whole_witness:
  "\<exists>img. draw (\<lambda>_ _. replicate 64 7) (\<lambda>_ _ _ x. x mod 3 - 1) ''AC3'' (replicate 32 1) (replicate PIXELS 255) = Some img"
  using captcha_draw_whole [of "\<lambda>_ _. replicate 64 7" "\<lambda>_ _ _ x. x mod 3 - 1" "''AC3''" "replicate 32 1"]
    length_replicate [of PIXELS "255 :: byte"] by (elim exE conjE, intro exI) (erule allE, erule mp)

subsection \<open>Text art and WBMP\<close>

definition grid_ok :: "nat \<Rightarrow> nat \<Rightarrow> ('a \<Rightarrow> bool) \<Rightarrow> 'a grid \<Rightarrow> bool" where
  "grid_ok rows cols P grid \<longleftrightarrow> (\<exists>g. grid = Some g \<and> length g = rows \<and> list_all (\<lambda>row. length row = cols \<and> list_all P row) g)"

lemma grid_set_ok:
  assumes "grid_ok rows cols P grid" "0 \<le> r" "r < int rows" "0 \<le> c" "c < int cols" "P v"
  shows "grid_ok rows cols P (grid_set grid r c v)"
proof -
  obtain g where g: "grid = Some g" "length g = rows" "list_all (\<lambda>row. length row = cols \<and> list_all P row) g"
    using assms(1) by (auto simp: grid_ok_def)
  have r: "nat r < length g" using assms(2,3) g(2) by simp
  then have row: "length (g ! nat r) = cols" "list_all P (g ! nat r)" using g(3) by (auto simp: list_all_length)
  then have "list_all P ((g ! nat r)[nat c := v])"
    using assms(6) set_update_subset_insert [of "g ! nat r" "nat c" v] by (auto simp: list_all_iff)
  then have "list_all (\<lambda>row. length row = cols \<and> list_all P row) (g[nat r := (g ! nat r)[nat c := v]])"
    using g(3) row r set_update_subset_insert [of g "nat r" "(g ! nat r)[nat c := v]"] by (auto simp: list_all_iff)
  then show ?thesis using assms g r row by (simp add: grid_ok_def grid_set_def)
qed

definition art_char :: "char \<Rightarrow> bool" where
  "art_char c \<longleftrightarrow> c = CHR '' '' \<or> c \<in> set INKS \<or> c \<in> set NOISE"

abbreviation art_ok :: "char grid \<Rightarrow> bool" where
  "art_ok \<equiv> grid_ok ART_ROWS ART_COLS art_char"

lemma art_pixel_ok:
  assumes "art_ok grid" "ink \<in> set INKS" "0 \<le> row" "row < int ART_ROWS"
  shows "pred_state art_ok (art_pixel chacha ink row col grid)"
  using assms by (auto simp: art_pixel_def art_char_def intro!: pred_rnd pred_return [where P = art_ok] grid_set_ok)

lemma nth_int_mem: "0 \<le> k \<Longrightarrow> k \<le> int (length xs) - 1 \<Longrightarrow> xs ! nat k \<in> set xs"
  by (intro nth_mem) linarith

lemma art_glyph_ok:
  assumes "art_ok (snd xg)"
  shows "pred_state (\<lambda>xg. art_ok (snd xg)) (art_glyph chacha g xg)"
proof -
  have row: "0 \<le> y0 + r" "y0 + r < int ART_ROWS" if "0 \<le> y0" "y0 \<le> int ART_ROWS - 7" "r \<in> {0..6}" for y0 r
    using that by (auto simp: ART_ROWS_def)
  have loop: "pred_state art_ok (for_each (List.product [0..6] [0..4]) (\<lambda>(r, c) grid.
       if glyph_bit g (nat r) (nat c)
       then for_each [0..1] (\<lambda>k2. art_pixel chacha ink (y0 + r) (fst xg + (if r < 3 then slant else 0) + c * 2 + k2)) grid
       else State_Monad.return grid) (snd xg))"
    if "ink \<in> set INKS" "0 \<le> y0" "y0 \<le> int ART_ROWS - 7" for ink y0 slant
    by (rule pred_for_each [where P = art_ok, OF assms])
      (use row [OF that(2,3)] that(1) in \<open>auto simp del: upto_rec_numeral intro!: pred_for_each [where P = art_ok] pred_return [where P = art_ok] art_pixel_ok\<close>)
  show ?thesis
    unfolding art_glyph_def
    by (rule pred_rnd, simp add: INKS_def, rule pred_rnd, simp add: ART_ROWS_def, rule pred_rnd, simp,
        rule pred_bind [OF loop], rule nth_int_mem, assumption+, rule pred_rnd) auto
qed

lemma art_noise_ok:
  assumes "art_ok grid"
  shows "pred_state art_ok (art_noise chacha x grid)"
  unfolding art_noise_def
proof (rule pred_for_each [where P = art_ok, OF assms])
  fix rc grid
  assume rc: "rc \<in> set (List.product [0..<ART_ROWS] [0..<min (nat x) ART_COLS])" and ok: "art_ok grid"
  obtain r c where p: "rc = (r, c)" "r < ART_ROWS" "c < ART_COLS" using rc by auto
  have set: "art_ok (grid_set grid (int r) (int c) (NOISE ! nat k))" if "0 \<le> k" "k \<le> int (length NOISE) - 1" for k
    by (rule grid_set_ok [OF ok]) (use p nth_int_mem [OF that] in \<open>auto simp: art_char_def\<close>)
  show "pred_state art_ok ((case rc of (r, c) \<Rightarrow> \<lambda>grid.
       if grid_get grid r c = Some (CHR '' '') then State_Monad.bind (rnd chacha 0 13) (\<lambda>hit.
         if hit = 0 then State_Monad.bind (rnd chacha 0 (int (length NOISE) - 1)) (\<lambda>k.
           State_Monad.return (grid_set grid (int r) (int c) (NOISE ! nat k)))
         else State_Monad.return grid)
       else State_Monad.return grid) grid)"
    unfolding p(1) prod.case
    by (auto simp: NOISE_def intro!: pred_rnd pred_return [where P = art_ok] ok set [unfolded NOISE_def])
qed

text \<open>
  The text challenge is what the header promises for a \<open>pre\<close> element: nine lines of at most
  80 columns, made of characters that need no HTML escaping, whatever the text and the seed; and
  drawing it never writes outside its grid.
\<close>

theorem text_art_fits:
  "\<exists>rows. draw_text_art chacha s seed = Some (concat (map (\<lambda>row. row @ [LF]) rows)) \<and> length rows = 9 \<and>
     list_all (\<lambda>row. length row \<le> 80 \<and> list_all (\<lambda>c. c \<notin> {CHR ''<'', CHR ''>'', CHR ''&'', DQ, LF}) row) rows"
proof -
  define m where "m = State_Monad.bind (rnd chacha 1 3) (\<lambda>x. State_Monad.bind
      (for_each s (\<lambda>c xg. case glyph c of None \<Rightarrow> State_Monad.return xg | Some g \<Rightarrow> art_glyph chacha g xg)
        (x, Some (replicate ART_ROWS (replicate ART_COLS (CHR '' '')))))
      (\<lambda>xg. art_noise chacha (fst xg) (snd xg)))"
  have start: "art_ok (Some (replicate ART_ROWS (replicate ART_COLS (CHR '' ''))))"
    by (auto simp: grid_ok_def list_all_iff art_char_def)
  have "pred_state art_ok m"
    unfolding m_def
    by (rule pred_rnd, simp, rule pred_bind [OF pred_for_each [where P = "\<lambda>xg. art_ok (snd xg)"] art_noise_ok])
      (use start in \<open>auto intro: art_glyph_ok pred_return [where P = "\<lambda>xg. art_ok (snd xg)"] split: option.split\<close>)
  then obtain g where g: "fst (run_state m (rng_init seed)) = Some g" "length g = 9"
    "list_all (\<lambda>row. length row = 80 \<and> list_all art_char row) g"
    using pred_state_run_state [of art_ok m "rng_init seed"] by (auto simp: grid_ok_def ART_ROWS_def ART_COLS_def)
  define trim where "trim row = rev (dropWhile (\<lambda>c. c = CHR '' '') (rev row))" for row :: string
  have trim: "length (trim row) \<le> length row" "set (trim row) \<subseteq> set row" for row
    using length_dropWhile_le [of "\<lambda>c. c = CHR '' ''" "rev row"] set_dropWhileD [of _ "\<lambda>c. c = CHR '' ''" "rev row"]
    by (auto simp: trim_def)
  have safe: "art_char c \<Longrightarrow> c \<notin> {CHR ''<'', CHR ''>'', CHR ''&'', DQ, LF}" for c
    by (auto simp: art_char_def INKS_def NOISE_def)
  have rows: "art_row = (\<lambda>row. trim row @ [LF])" by (rule ext) (simp add: art_row_def trim_def)
  have "draw_text_art chacha s seed = Some (concat (map (\<lambda>row. row @ [LF]) (map trim g)))"
    using g(1) rows by (simp add: draw_text_art_def m_def comp_def Let_def)
  moreover have "list_all (\<lambda>row. length row \<le> 80 \<and> list_all (\<lambda>c. c \<notin> {CHR ''<'', CHR ''>'', CHR ''&'', DQ, LF}) row) (map trim g)"
    unfolding list_all_iff
  proof
    fix row assume "row \<in> set (map trim g)"
    then obtain r where r: "row = trim r" "length r = 80" "list_all art_char r" using g(3) by (auto simp: list_all_iff)
    have "\<And>c. c \<in> set row \<Longrightarrow> art_char c" using r(1,3) trim(2) [of r] by (auto simp only: list_all_iff)
    then have "\<forall>c\<in>set row. c \<notin> {CHR ''<'', CHR ''>'', CHR ''&'', DQ, LF}" by (intro ballI safe)
    then show "length row \<le> 80 \<and> (\<forall>c\<in>set row. c \<notin> {CHR ''<'', CHR ''>'', CHR ''&'', DQ, LF})"
      using trim(1) [of r] r(1,2) by simp
  qed
  ultimately show ?thesis using g(2) by (intro exI [of _ "map trim g"]) simp
qed

lemma wbmp_ink_ok: "grid_ok 32 96 (\<lambda>_. True) (wbmp_ink chacha s seed)"
proof -
  let ?ok = "grid_ok 32 96 (\<lambda>_ :: bool. True)"
  have set: "?ok (grid_set ink r c v)" if "?ok ink" "0 \<le> r" "r < 32" "0 \<le> c" "c < 96" for ink r c v
    by (rule grid_set_ok) (use that in simp_all)
  have pixel: "pred_state ?ok (wbmp_pixel chacha px py ink)" if "?ok ink" "0 \<le> py" for px py ink
    using that unfolding wbmp_pixel_def CAPTCHA_WBMP_WIDTH_def CAPTCHA_WBMP_HEIGHT_def
    by (auto intro!: pred_rnd pred_return [where P = ?ok] set)
  have glyph: "pred_state (\<lambda>xi. ?ok (snd xi)) (wbmp_glyph chacha g xi)" if "?ok (snd xi)" for g xi
  proof -
    have "pred_state ?ok (for_each (List.product [0..6] [0..4]) (\<lambda>(r, c) ink.
       if glyph_bit g (nat r) (nat c)
       then for_each [0..3] (\<lambda>k. wbmp_pixel chacha (fst xi + c * 2 + k mod 2)
              ((CAPTCHA_WBMP_HEIGHT - 14) div 2 + jy + r * 2 + k div 2)) ink
       else State_Monad.return ink) (snd xi))" if "- 4 \<le> jy" for jy
      by (rule pred_for_each [where P = ?ok, OF \<open>?ok (snd xi)\<close>])
        (use that in \<open>auto simp del: upto_rec_numeral simp: CAPTCHA_WBMP_HEIGHT_def
           intro!: pred_for_each [where P = ?ok] pred_return [where P = ?ok] pixel\<close>)
    then show ?thesis
      unfolding wbmp_glyph_def by (auto intro!: pred_rnd pred_bind [where Q = ?ok] pred_return [where P = "\<lambda>xi. ?ok (snd xi)"] simp del: upto_rec_numeral)
  qed
  have dot: "pred_state ?ok (wbmp_dot chacha ink)" if "?ok ink" for ink
    unfolding wbmp_dot_def CAPTCHA_WBMP_WIDTH_def CAPTCHA_WBMP_HEIGHT_def
    by (intro pred_rnd pred_return [where P = ?ok] set) (use that in simp_all)
  have line: "?ok (snd (fold (wbmp_line_step dy) xs (y, ink)))" if "?ok ink" "\<forall>x\<in>set xs. x < 96" for dy xs y ink
    using that
  proof (induction xs arbitrary: y ink)
    case (Cons x xs)
    then show ?case
      using set [of ink _ "int x" True] by (auto simp: wbmp_line_step_def Let_def CAPTCHA_WBMP_HEIGHT_def)
  qed simp
  have start: "?ok (Some (replicate (nat CAPTCHA_WBMP_HEIGHT) (replicate (nat CAPTCHA_WBMP_WIDTH) False)))"
    by (simp add: grid_ok_def CAPTCHA_WBMP_WIDTH_def CAPTCHA_WBMP_HEIGHT_def list_all_iff)
  show ?thesis
    unfolding wbmp_ink_def
    by (rule pred_state_run_state, rule pred_rnd, simp,
        rule pred_bind [OF pred_for_each [where P = "\<lambda>xi. ?ok (snd xi)"] pred_bind [OF pred_for_each [where P = ?ok]]])
      (use start glyph dot line in \<open>auto intro!: pred_rnd pred_return [where P = ?ok] pred_return [where P = "\<lambda>xi. ?ok (snd xi)"]
         simp: CAPTCHA_WBMP_HEIGHT_def CAPTCHA_WBMP_WIDTH_def split: option.split\<close>)
qed

text \<open>
  The phone's challenge: whatever the text and the seed, no pixel is written outside the 96 by
  32 picture, and the bytes are a WBMP file that reads back as exactly the ink that was drawn.
\<close>

theorem captcha_wbmp_roundtrip:
  "\<exists>ink bytes. wbmp_ink chacha s seed = Some ink \<and> draw_wbmp chacha s seed = Some bytes \<and> read_wbmp bytes = Some (96, 32, ink)"
proof -
  obtain ink where ink: "wbmp_ink chacha s seed = Some ink" "length ink = 32" "\<And>y. y < 32 \<Longrightarrow> length (ink ! y) = 96"
    using wbmp_ink_ok [of chacha s seed] by (auto simp: grid_ok_def list_all_length)
  let ?bits = "concat (map (\<lambda>row. map (wbmp_byte row) [0..<12]) ink)"
  have "length ?bits = 32 * 12" using concat_rows_length [of ink "\<lambda>row. map (wbmp_byte row) [0..<12]" 12] ink(2) by simp
  moreover have "map (\<lambda>y. map (wbmp_dark 12 ?bits y) [0..<96]) [0..<32] = ink"
    using wbmp_dark_row [of _ _ 96 _ 32 ink] ink(2,3)
    by (intro nth_equalityI) (simp_all add: list_eq_iff_nth_eq)
  moreover have "draw_wbmp chacha s seed = Some ([0, 0, 96, 32] @ ?bits)"
    using ink(1) by (simp add: draw_wbmp_def CAPTCHA_WBMP_WIDTH_def CAPTCHA_WBMP_HEIGHT_def)
  moreover have "read_wbmp ([0, 0, 96, 32] @ bs) = (if length bs = 32 * 12
      then Some (96, 32, map (\<lambda>y. map (wbmp_dark 12 bs y) [0..<96]) [0..<32]) else None)" for bs
    by (simp add: read_wbmp_def Let_def del: upt_rec_numeral)
  ultimately show ?thesis using ink(1) by auto
qed

end
