(* ===== verification/Image_Gif.thy ===== *)
theory Image_Gif
  imports Image_Codec
begin

unbundle bit_operations_syntax

text \<open>
  The GIF of the challenge (src/src/utils/captcha.c). The writer keeps its LZW codes at five
  bits by clearing the table every \<open>GIF_RUN\<close> pixels; the reader below is a general LZW decoder,
  with its table and growing codes, so that the theorem says that the trick is sound.
\<close>

subsection \<open>The writer\<close>

definition GIF_CLEAR :: nat where "GIF_CLEAR = 16"
definition GIF_END :: nat where "GIF_END = 17"
definition GIF_CODE_BITS :: nat where "GIF_CODE_BITS = 5"
definition GIF_RUN :: nat where "GIF_RUN = 12"

record GifWriter =
  g_out :: "byte list"
  g_block :: "byte list"
  g_bits :: "32 word"
  g_nbits :: nat

definition gif_byte :: "byte \<Rightarrow> GifWriter \<Rightarrow> GifWriter" where
  "gif_byte b g =
     (let block = g_block g @ [b]
      in if length block = 255 then g\<lparr>g_out := g_out g @ 255 # block, g_block := []\<rparr> else g\<lparr>g_block := block\<rparr>)"

function gif_drain :: "GifWriter \<Rightarrow> GifWriter" where
  "gif_drain g =
     (if 8 \<le> g_nbits g
      then gif_drain ((gif_byte (ucast (g_bits g)) g)\<lparr>g_bits := drop_bit 8 (g_bits g), g_nbits := g_nbits g - 8\<rparr>)
      else g)"
  by pat_completeness auto
termination
  by (relation "measure g_nbits") auto

declare gif_drain.simps [simp del]

definition gif_code :: "nat \<Rightarrow> GifWriter \<Rightarrow> GifWriter" where
  "gif_code code g =
     gif_drain (g\<lparr>g_bits := g_bits g OR push_bit (g_nbits g) (of_nat code), g_nbits := g_nbits g + GIF_CODE_BITS\<rparr>)"

definition le16 :: "int \<Rightarrow> byte list" where
  "le16 n = [of_int n, of_int (n div 256)]"

definition gif_header :: "byte list" where
  "gif_header =
     bytes_of ''GIF87a'' @ le16 CAPTCHA_WIDTH @ le16 CAPTCHA_HEIGHT @ [0xB3, 0, 0]
     @ concat (map (\<lambda>i. let v = of_nat (i * 17) in [v, v, v]) [0..<16])
     @ [0x2C, 0, 0, 0, 0] @ le16 CAPTCHA_WIDTH @ le16 CAPTCHA_HEIGHT @ [0, 4]"

definition gif_pixel :: "nat \<times> byte \<Rightarrow> GifWriter \<Rightarrow> GifWriter" where
  "gif_pixel ig g =
     gif_code (unat (drop_bit 4 (snd ig))) (if fst ig mod GIF_RUN = 0 then gif_code GIF_CLEAR g else g)"

definition gif_finish :: "GifWriter \<Rightarrow> byte list" where
  "gif_finish g =
     (let g = gif_code GIF_END g;
          g = (if 0 < g_nbits g then gif_byte (ucast (g_bits g)) g else g);
          out = (if g_block g \<noteq> [] then g_out g @ of_nat (length (g_block g)) # g_block g else g_out g)
      in out @ [0, 0x3B])"

definition encode_gif :: "byte list \<Rightarrow> byte list" where
  "encode_gif gray =
     gif_finish (fold gif_pixel (enumerate 0 gray) \<lparr>g_out = gif_header, g_block = [], g_bits = 0, g_nbits = 0\<rparr>)"

subsection \<open>A reader\<close>

text \<open>Sub-blocks, each with its length in front, up to an empty one.\<close>

function sub_blocks :: "byte list \<Rightarrow> (byte list \<times> byte list) option" where
  "sub_blocks [] = None"
| "sub_blocks (n # bs) =
     (if n = 0 then Some ([], bs)
      else if length bs < unat n then None
      else map_option (\<lambda>(data, rest). (take (unat n) bs @ data, rest)) (sub_blocks (drop (unat n) bs)))"
  by pat_completeness auto
termination
  by (relation "measure length") auto

text \<open>
  LZW as the format defines it: after a clear the table holds the colours and the two special
  codes; every further code adds the previous string and the first colour of the current one,
  and codes grow by a bit when the table has as many entries as the width can name.
\<close>

definition bits_nat :: "bool list \<Rightarrow> nat" where
  "bits_nat bs = horner_sum of_bool 2 bs"

definition lzw_init :: "nat list list" where
  "lzw_init = map (\<lambda>c. [c]) [0..<16] @ [[], []]"

definition lzw_width :: "nat list list \<Rightarrow> nat \<Rightarrow> nat" where
  "lzw_width tab w = (if length tab = 2 ^ w \<and> w < 12 then w + 1 else w)"

function lzw :: "bool list \<Rightarrow> nat list list \<Rightarrow> nat list option \<Rightarrow> nat \<Rightarrow> nat list option" where
  "lzw bs tab prev w =
     (if w = 0 \<or> length bs < w then None
      else (let code = bits_nat (take w bs); rest = drop w bs
            in if code = GIF_CLEAR then lzw rest lzw_init None 5
               else if code = GIF_END then Some []
               else (case prev of
                       None \<Rightarrow> if code < 16 then map_option (\<lambda>out. tab ! code @ out) (lzw rest tab (Some (tab ! code)) w) else None
                     | Some p \<Rightarrow>
                         if code < length tab
                         then (let tab' = tab @ [p @ take 1 (tab ! code)]
                               in map_option (\<lambda>out. tab ! code @ out) (lzw rest tab' (Some (tab ! code)) (lzw_width tab' w)))
                         else if code = length tab
                         then (let e = p @ take 1 p; tab' = tab @ [e]
                               in map_option (\<lambda>out. e @ out) (lzw rest tab' (Some e) (lzw_width tab' w)))
                         else None)))"
  by pat_completeness auto
termination
  by (relation "measure (\<lambda>(bs, _). length bs)") auto

declare lzw.simps [simp del]

definition read_gif :: "byte list \<Rightarrow> nat list option" where
  "read_gif bs =
     (if take 72 bs = gif_header then
        (case sub_blocks (drop 72 bs) of
           Some (data, [t]) \<Rightarrow> if t = 0x3B then lzw (concat (map byte_bits data)) lzw_init None 5 else None
         | _ \<Rightarrow> None)
      else None)"

subsection \<open>Codes as bits\<close>

definition code_bits :: "nat \<Rightarrow> bool list" where
  "code_bits c = map (bit c) [0..<5]"

lemma length_code_bits [simp]: "length (code_bits c) = 5"
  by (simp add: code_bits_def)

lemma bits_nat_code: "c < 32 \<Longrightarrow> bits_nat (code_bits c) = c"
  by (simp only: bits_nat_def code_bits_def horner_sum_bit_eq_take_bit) (simp add: take_bit_eq_mod)

text \<open>
  The writer's state against the bits it has been given: the full sub-blocks, the block being
  filled and the bits of the accumulator spell them out, and no bit above \<open>nbits\<close> is set.
\<close>

definition gif_data :: "GifWriter \<Rightarrow> byte list \<Rightarrow> bool" where
  "gif_data g data \<longleftrightarrow> (\<exists>blks. g_out g = gif_header @ concat (map ((#) 255) blks) \<and> (\<forall>b\<in>set blks. length b = 255)
     \<and> length (g_block g) < 255 \<and> data = concat blks @ g_block g)"

definition gif_inv :: "GifWriter \<Rightarrow> bool list \<Rightarrow> bool" where
  "gif_inv g bl \<longleftrightarrow>
     (\<exists>data. gif_data g data \<and> concat (map byte_bits data) @ map (bit (g_bits g)) [0..<g_nbits g] = bl)
     \<and> (\<forall>k\<ge>g_nbits g. \<not> bit (g_bits g) k)"

lemma gif_data_update [simp]: "gif_data (g\<lparr>g_bits := x\<rparr>) data = gif_data g data" "gif_data (g\<lparr>g_nbits := n\<rparr>) data = gif_data g data"
  by (simp_all add: gif_data_def)

lemma gif_byte_data:
  assumes "gif_data g data"
  shows "gif_data (gif_byte b g) (data @ [b])"
proof -
  obtain blks where b: "g_out g = gif_header @ concat (map ((#) 255) blks)" "\<forall>b\<in>set blks. length b = 255"
    "length (g_block g) < 255" "data = concat blks @ g_block g" using assms by (auto simp: gif_data_def)
  show ?thesis
  proof (cases "length (g_block g) = 254")
    case True
    then show ?thesis unfolding gif_data_def
      by (intro exI [of _ "blks @ [g_block g @ [b]]"]) (use b in \<open>auto simp: gif_byte_def Let_def\<close>)
  next
    case False
    then show ?thesis unfolding gif_data_def
      by (intro exI [of _ blks]) (use b in \<open>auto simp: gif_byte_def Let_def\<close>)
  qed
qed

lemma gif_byte_inv:
  assumes "gif_inv g bl" "8 \<le> g_nbits g"
  shows "gif_inv ((gif_byte (ucast (g_bits g)) g)\<lparr>g_bits := drop_bit 8 (g_bits g), g_nbits := g_nbits g - 8\<rparr>) bl"
proof -
  obtain data where d: "gif_data g data" "concat (map byte_bits data) @ map (bit (g_bits g)) [0..<g_nbits g] = bl"
    using assms(1) by (auto simp: gif_inv_def)
  have "[0..<g_nbits g] = [0..<8] @ map (\<lambda>k. k + 8) [0..<g_nbits g - 8]"
    using assms(2) by (metis add.commute add_0 le_add_diff_inverse map_add_upt upt_add_eq_append zero_le)
  then have bits: "map (bit (g_bits g)) [0..<g_nbits g] = byte_bits (ucast (g_bits g)) @ map (bit (drop_bit 8 (g_bits g))) [0..<g_nbits g - 8]"
    by (simp add: byte_bits_def bit_simps comp_def add.commute)
  have "\<forall>k\<ge>g_nbits g - 8. \<not> bit (drop_bit 8 (g_bits g)) k"
    using assms by (auto simp: gif_inv_def bit_drop_bit_eq)
  then show ?thesis
    unfolding gif_inv_def by (auto intro!: exI [of _ "data @ [ucast (g_bits g)]"] gif_byte_data d(1) simp: d(2) [symmetric] bits)
qed

lemma gif_drain_inv: "gif_inv g bl \<Longrightarrow> gif_inv (gif_drain g) bl \<and> g_nbits (gif_drain g) = g_nbits g mod 8"
proof (induction g rule: gif_drain.induct)
  case (1 g)
  show ?case
  proof (cases "8 \<le> g_nbits g")
    case True
    then show ?thesis using 1 gif_byte_inv [OF "1.prems" True] by (subst (1 2) gif_drain.simps) (simp add: le_mod_geq)
  next
    case False
    then show ?thesis using "1.prems" by (subst (1 2) gif_drain.simps) simp
  qed
qed

lemma gif_code_inv:
  assumes "gif_inv g bl" "g_nbits g < 8" "code < 32"
  shows "gif_inv (gif_code code g) (bl @ code_bits code)" "g_nbits (gif_code code g) < 8"
proof -
  let ?g = "g\<lparr>g_bits := g_bits g OR push_bit (g_nbits g) (of_nat code), g_nbits := g_nbits g + 5\<rparr>"
  have "take_bit 5 code = code" using assms(3) by (simp add: take_bit_nat_eq_self_iff)
  then have hi: "\<not> bit code k" if "5 \<le> k" for k
    using that bit_take_bit_iff [of 5 code k] by simp
  have low: "map (bit (g_bits ?g)) [0..<g_nbits g] = map (bit (g_bits g)) [0..<g_nbits g]"
    by (auto simp: bit_simps)
  have new: "map (bit (g_bits ?g)) [g_nbits g..<g_nbits g + 5] = code_bits code"
    by (rule nth_equalityI) (use assms(1,2) in \<open>auto simp: code_bits_def bit_simps gif_inv_def\<close>)
  have "map (bit (g_bits ?g)) [0..<g_nbits ?g] = map (bit (g_bits g)) [0..<g_nbits g] @ code_bits code"
    using low new by (simp add: upt_add_eq_append [of 0 "g_nbits g" 5])
  moreover have "\<forall>k\<ge>g_nbits ?g. \<not> bit (g_bits ?g) k"
    using assms(1) hi by (auto simp: gif_inv_def bit_simps)
  ultimately have "gif_inv ?g (bl @ code_bits code)"
    using assms(1) unfolding gif_inv_def by auto
  then have "gif_inv (gif_drain ?g) (bl @ code_bits code) \<and> g_nbits (gif_drain ?g) = (g_nbits g + 5) mod 8"
    using gif_drain_inv [of ?g] by simp
  then show "gif_inv (gif_code code g) (bl @ code_bits code)" "g_nbits (gif_code code g) < 8"
    by (simp_all add: gif_code_def GIF_CODE_BITS_def)
qed

definition pixel_codes :: "nat \<times> byte \<Rightarrow> nat list" where
  "pixel_codes ig = (if fst ig mod GIF_RUN = 0 then [GIF_CLEAR] else []) @ [unat (drop_bit 4 (snd ig))]"

definition stream_bits :: "nat list \<Rightarrow> bool list" where
  "stream_bits codes = concat (map code_bits codes)"

lemma stream_bits_append: "stream_bits (a @ b) = stream_bits a @ stream_bits b"
  by (simp add: stream_bits_def)

lemma pixel_range: "unat (drop_bit 4 (b :: byte)) < 16"
proof -
  have "unat b < 2 ^ LENGTH(8)" by (rule unsigned_less)
  then show ?thesis by (simp only: unsigned_drop_bit_eq) (simp add: take_bit_eq_mod drop_bit_eq_div less_mult_imp_div_less)
qed

lemma gif_pixel_inv:
  assumes "gif_inv g bl" "g_nbits g < 8"
  shows "gif_inv (gif_pixel ig g) (bl @ stream_bits (pixel_codes ig)) \<and> g_nbits (gif_pixel ig g) < 8"
proof -
  have p: "unat (drop_bit 4 (snd ig)) < 32" using pixel_range [of "snd ig"] by simp
  have c: "GIF_CLEAR < 32" by (simp add: GIF_CLEAR_def)
  show ?thesis
    using gif_code_inv [OF assms p] gif_code_inv [OF gif_code_inv [OF assms c] p]
    by (simp add: gif_pixel_def pixel_codes_def stream_bits_def)
qed

lemma gif_pixels_inv:
  "gif_inv g bl \<Longrightarrow> g_nbits g < 8 \<Longrightarrow>
   gif_inv (fold gif_pixel igs g) (bl @ stream_bits (concat (map pixel_codes igs))) \<and> g_nbits (fold gif_pixel igs g) < 8"
proof (induction igs arbitrary: g bl)
  case (Cons ig igs)
  then show ?case
    using gif_pixel_inv [of g bl ig] Cons.IH [of "gif_pixel ig g" "bl @ stream_bits (pixel_codes ig)"] by (simp add: stream_bits_append)
qed (simp add: stream_bits_def)

lemma sub_blocks_full:
  "\<forall>b\<in>set blks. length b = 255 \<Longrightarrow>
   sub_blocks (concat (map ((#) 255) blks) @ r) = map_option (\<lambda>(data, rest). (concat blks @ data, rest)) (sub_blocks r)"
  by (induction blks) (auto simp: option.map_comp comp_def case_prod_beta option.map_id intro: option.map_cong split: option.split)

lemma sub_blocks_last: "length b < 256 \<Longrightarrow>
   sub_blocks ((if b \<noteq> [] then of_nat (length b) # b else []) @ 0 # r) = Some (b, r)"
proof -
  assume "length b < 256"
  then have "unat (of_nat (length b) :: byte) = length b" by (simp add: unat_of_nat)
  moreover from this have "b \<noteq> [] \<Longrightarrow> (of_nat (length b) :: byte) \<noteq> 0" by (metis length_0_conv unsigned_0)
  ultimately show ?thesis by simp
qed

lemma gif_data_read:
  assumes "gif_data g data" "72 = length gif_header"
  shows "\<exists>body. (if g_block g \<noteq> [] then g_out g @ of_nat (length (g_block g)) # g_block g else g_out g) @ [0, 0x3B]
        = gif_header @ body \<and> sub_blocks body = Some (data, [0x3B]) \<and> length body \<le> length data + length data div 255 + 3"
proof -
  obtain blks where b: "g_out g = gif_header @ concat (map ((#) 255) blks)" "\<forall>b\<in>set blks. length b = 255"
    "length (g_block g) < 255" "data = concat blks @ g_block g" using assms by (auto simp: gif_data_def)
  define body where "body = concat (map ((#) 255) blks) @ (if g_block g \<noteq> [] then of_nat (length (g_block g)) # g_block g else []) @ 0 # [0x3B]"
  have "length (concat (map ((#) 255) blks)) = length blks * 256" "length (concat blks) = length blks * 255"
    using b(2) by (induction blks) auto
  then have "length body \<le> length data + length data div 255 + 3" using b(3,4) by (simp add: body_def)
  moreover have "sub_blocks body = Some (data, [0x3B])"
    using sub_blocks_full [OF b(2)] sub_blocks_last [of "g_block g" "[0x3B]"] b(3,4) by (simp add: body_def)
  ultimately show ?thesis using b(1) by (intro exI [of _ body]) (simp add: body_def)
qed

lemma header_length: "length gif_header = 72"
  by (simp add: gif_header_def le16_def upt_rec numeral_eq_Suc)

lemma gif_finish_read:
  assumes "gif_inv g bl" "g_nbits g < 8"
  shows "\<exists>data pad. sub_blocks (drop 72 (gif_finish g)) = Some (data, [0x3B]) \<and> take 72 (gif_finish g) = gif_header
     \<and> concat (map byte_bits data) = bl @ code_bits GIF_END @ pad \<and> length pad < 8
     \<and> length (gif_finish g) \<le> 72 + length data + length data div 255 + 3"
proof -
  define g1 where "g1 = gif_code GIF_END g"
  have g1: "gif_inv g1 (bl @ code_bits GIF_END)" "g_nbits g1 < 8"
    using gif_code_inv [OF assms, of GIF_END] by (simp_all add: g1_def GIF_END_def)
  then obtain data where d: "gif_data g1 data" "concat (map byte_bits data) @ map (bit (g_bits g1)) [0..<g_nbits g1] = bl @ code_bits GIF_END"
    by (auto simp: gif_inv_def)
  define g2 where "g2 = (if 0 < g_nbits g1 then gif_byte (ucast (g_bits g1)) g1 else g1)"
  obtain data2 pad where d2: "gif_data g2 data2" "concat (map byte_bits data2) = bl @ code_bits GIF_END @ pad" "length pad < 8"
  proof (cases "g_nbits g1")
    case 0
    then show thesis using that [of data "[]"] d by (simp add: g2_def)
  next
    case (Suc n)
    have "byte_bits (ucast (g_bits g1)) = map (bit (g_bits g1)) [0..<8]" by (auto simp: byte_bits_def bit_simps)
    also have "\<dots> = map (bit (g_bits g1)) [0..<g_nbits g1] @ map (bit (g_bits g1)) [g_nbits g1..<8]"
      using g1(2) upt_add_eq_append [of 0 "g_nbits g1" "8 - g_nbits g1"] by (simp flip: map_append)
    finally show thesis
      using that [of "data @ [ucast (g_bits g1)]" "map (bit (g_bits g1)) [g_nbits g1..<8]"] d gif_byte_data [OF d(1)] Suc
      by (simp add: g2_def)
  qed
  have fin: "gif_finish g =
      (if g_block g2 \<noteq> [] then g_out g2 @ of_nat (length (g_block g2)) # g_block g2 else g_out g2) @ [0, 0x3B]"
    unfolding gif_finish_def Let_def g2_def g1_def by (rule refl)
  obtain body where body: "gif_finish g = gif_header @ body" "sub_blocks body = Some (data2, [0x3B])"
    "length body \<le> length data2 + length data2 div 255 + 3"
    using gif_data_read [OF d2(1) header_length [symmetric]] unfolding fin by blast
  show ?thesis
    by (rule exI [of _ data2], rule exI [of _ pad]) (use d2(2,3) body header_length in simp)
qed

subsection \<open>Reading the codes\<close>

definition tab_ok :: "nat list list \<Rightarrow> bool" where
  "tab_ok tab \<longleftrightarrow> take 16 tab = map (\<lambda>c. [c]) [0..<16] \<and> 18 \<le> length tab"

lemma tab_ok_init: "tab_ok lzw_init" "length lzw_init = 18"
  by (simp_all add: tab_ok_def lzw_init_def)

lemma tab_ok_nth: "tab_ok tab \<Longrightarrow> p < 16 \<Longrightarrow> tab ! p = [p]"
  by (metis (no_types, lifting) add_0 length_upt minus_nat.diff_0 nth_map nth_take nth_upt tab_ok_def)

lemma lzw_clear: "lzw (code_bits GIF_CLEAR @ r) tab prev 5 = lzw r lzw_init None 5"
  by (subst lzw.simps) (simp add: bits_nat_code Let_def GIF_CLEAR_def)

lemma lzw_end: "lzw (code_bits GIF_END @ r) tab prev 5 = Some []"
  by (subst lzw.simps) (simp add: bits_nat_code Let_def GIF_CLEAR_def GIF_END_def)

lemma lzw_pixel:
  assumes "p < 16" "tab_ok tab" "length tab < 31"
  obtains tab' where "lzw (code_bits p @ r) tab prev 5 = map_option ((#) p) (lzw r tab' (Some [p]) 5)"
    "tab_ok tab'" "length tab' = length tab + (if prev = None then 0 else 1)"
proof -
  define tab' where "tab' = (case prev of None \<Rightarrow> tab | Some q \<Rightarrow> tab @ [q @ [p]])"
  have cons: "(@) [p] = (#) p" by (rule ext) simp
  have p: "p < length tab" "tab ! p = [p]" using assms tab_ok_nth by (simp_all add: tab_ok_def)
  have "lzw (code_bits p @ r) tab prev 5 = map_option ((#) p) (lzw r tab' (Some [p]) 5)"
    using assms p by (subst lzw.simps, cases prev)
      (simp_all add: cons tab'_def bits_nat_code Let_def GIF_CLEAR_def GIF_END_def lzw_width_def)
  moreover have "tab_ok tab'" "length tab' = length tab + (if prev = None then 0 else 1)"
    using assms(2) by (cases prev; simp add: tab'_def tab_ok_def)+
  ultimately show thesis by (rule that)
qed

lemma lzw_pixels:
  assumes "i mod 12 \<noteq> 0 \<Longrightarrow> tab_ok tab \<and> length tab \<le> 17 + i mod 12 \<and> prev \<noteq> None"
  shows "lzw (stream_bits (concat (map pixel_codes (enumerate i gs))) @ code_bits GIF_END @ pad) tab prev 5
     = Some (map (\<lambda>g. unat (drop_bit 4 g)) gs)"
  using assms
proof (induction gs arbitrary: i tab prev)
  case Nil
  then show ?case using lzw_end by (simp add: stream_bits_def)
next
  case (Cons g gs)
  let ?rest = "stream_bits (concat (map pixel_codes (enumerate (Suc i) gs))) @ code_bits GIF_END @ pad"
  let ?p = "unat (drop_bit 4 g)"
  have step: "lzw (code_bits ?p @ ?rest) tab1 prev1 5 = Some (?p # map (\<lambda>g. unat (drop_bit 4 g)) gs)"
    if ok: "tab_ok tab1" and size: "length tab1 + (if prev1 = None then 0 else 1) \<le> 18 + i mod 12" for tab1 prev1
  proof -
    have "i mod 12 < 12" by simp
    then have len: "length tab1 < 31" using size by linarith
    obtain tab2 where t2: "lzw (code_bits ?p @ ?rest) tab1 prev1 5 = map_option ((#) ?p) (lzw ?rest tab2 (Some [?p]) 5)"
      "tab_ok tab2" "length tab2 = length tab1 + (if prev1 = None then 0 else 1)"
      using lzw_pixel [OF pixel_range ok len] by blast
    have "lzw ?rest tab2 (Some [?p]) 5 = Some (map (\<lambda>g. unat (drop_bit 4 g)) gs)"
      by (rule Cons.IH) (use t2 size in \<open>auto simp: mod_Suc split: if_splits\<close>)
    then show ?thesis using t2(1) by simp
  qed
  show ?case
  proof (cases "i mod 12 = 0")
    case True
    then show ?thesis
      using step [of lzw_init None] tab_ok_init lzw_clear by (simp add: pixel_codes_def [of "(i, g)"] stream_bits_def GIF_RUN_def)
  next
    case False
    then show ?thesis
      using step [of tab prev] Cons.prems by (simp add: pixel_codes_def [of "(i, g)"] stream_bits_def GIF_RUN_def)
  qed
qed

lemma count_codes: "length (concat (map pixel_codes (enumerate 0 gs))) = length gs + (length gs + 11) div 12"
proof (induction gs rule: rev_induct)
  case (snoc g gs)
  have "(Suc n + 11) div 12 = (n + 11) div 12 + of_bool (n mod 12 = 0)" for n :: nat
  proof -
    define q r where "q = n div 12" and "r = n mod 12"
    have n: "n = 12 * q + r" "r < 12" by (simp_all add: q_def r_def)
    have "(r + 11) div 12 = (if r = 0 then 0 else 1)" using n(2) by (auto intro!: div_nat_eqI)
    moreover have "(12 + (12 * q + r)) div 12 = Suc q" using n(2) by (intro div_nat_eqI) auto
    ultimately show ?thesis using n by (simp add: add.assoc flip: r_def)
  qed
  then show ?case using snoc by (simp add: enumerate_append_eq pixel_codes_def GIF_RUN_def)
qed simp

lemma stream_bits_length: "length (stream_bits cs) = 5 * length cs"
  by (induction cs) (simp_all add: stream_bits_def)

text \<open>
  C34. The challenge's GIF is a GIF: a decoder with a full LZW table and growing codes reads back
  the sixteen gray levels of all its pixels, because the table is cleared before its codes
  would need a sixth bit; and the file fits the buffer the code allocates for it.
\<close>

theorem gif_roundtrip:
  assumes "length gray = PIXELS"
  shows "read_gif (encode_gif gray) = Some (map (\<lambda>g. unat (drop_bit 4 g)) gray) \<and>
    (let codes = PIXELS + PIXELS div GIF_RUN + 3; data = codes * GIF_CODE_BITS div 8 + 2
     in length (encode_gif gray) \<le> 13 + 48 + 10 + 1 + data + data div 255 + 2 + 2)"
proof -
  define g0 where "g0 = \<lparr>g_out = gif_header, g_block = [], g_bits = 0, g_nbits = 0\<rparr>"
  define codes where "codes = concat (map pixel_codes (enumerate 0 gray))"
  have "gif_inv g0 []" unfolding gif_inv_def gif_data_def
    by (intro conjI exI [of _ "[]"]) (simp_all add: g0_def)
  then have inv: "gif_inv (fold gif_pixel (enumerate 0 gray) g0) (stream_bits codes)" "g_nbits (fold gif_pixel (enumerate 0 gray) g0) < 8"
    using gif_pixels_inv [of g0 "[]" "enumerate 0 gray"] by (simp_all add: codes_def g0_def)
  obtain data pad where d: "sub_blocks (drop 72 (encode_gif gray)) = Some (data, [0x3B])" "take 72 (encode_gif gray) = gif_header"
    "concat (map byte_bits data) = stream_bits codes @ code_bits GIF_END @ pad" "length pad < 8"
    "length (encode_gif gray) \<le> 72 + length data + length data div 255 + 3"
    using gif_finish_read [OF inv] by (auto simp: encode_gif_def g0_def)
  have "read_gif (encode_gif gray) = Some (map (\<lambda>g. unat (drop_bit 4 g)) gray)"
    using d lzw_pixels [of 0 lzw_init None gray pad] by (simp add: read_gif_def codes_def)
  moreover have "length (concat (map byte_bits data)) = 8 * length data"
    by (induction data) (simp_all add: byte_bits_def)
  then have "8 * length data = 5 * (14000 + 1167) + 5 + length pad"
    using arg_cong [OF d(3), of length] count_codes [of gray] assms
    by (simp add: stream_bits_length codes_def PIXELS_def CAPTCHA_WIDTH_def CAPTCHA_HEIGHT_def)
  then have "length data = 9480" using d(4) by presburger
  then have "length (encode_gif gray) \<le> 9592" using d(5) by simp
  ultimately show ?thesis by (simp add: PIXELS_def CAPTCHA_WIDTH_def CAPTCHA_HEIGHT_def GIF_RUN_def GIF_CODE_BITS_def)
qed

theorem gif_roundtrip_witness: "read_gif (encode_gif (replicate PIXELS 0x77)) = Some (replicate PIXELS 7)"
  using gif_roundtrip [of "replicate PIXELS 0x77"] by simp

end
