(* ===== verification/Captcha.thy ===== *)
theory Captcha
  imports Captcha_Image Image_Gif Http_Utils
begin

text \<open>
  The tokens of the challenge (src/src/utils/captcha.c): a token is a nonce, the time it was
  issued and a mac over both and the answer, so that the server keeps nothing. HMAC-SHA256,
  hexadecimal, base64, the constant-time comparison and the stream cipher are libsodium's: a
  record of functions, with what the library documents of them as \<open>sodium_ok\<close>. The random bytes
  of a nonce, the clock, the rounding of the drawing's wave and the allocated picture buffer are
  arguments. Wiping memory after use has no effect on the values and is left out.
\<close>

record Sodium =
  sod_hmac :: "byte list \<Rightarrow> string \<Rightarrow> byte list"
  sod_bin2hex :: "byte list \<Rightarrow> string"
  sod_base64 :: "byte list \<Rightarrow> string"
  sod_equal :: "string \<Rightarrow> string \<Rightarrow> bool"
  sod_stream :: stream

definition sodium_ok :: "Sodium \<Rightarrow> bool" where
  "sodium_ok S \<longleftrightarrow>
     (\<forall>k m. length (sod_hmac S k m) = 32)
     \<and> (\<forall>b. length (sod_bin2hex S b) = 2 * length b \<and> list_all isxdigit (sod_bin2hex S b))
     \<and> inj (sod_bin2hex S)
     \<and> (\<forall>a b. length a = 64 \<and> length b = 64 \<longrightarrow> (sod_equal S a b \<longleftrightarrow> a = b))"

definition CAPTCHA_LENGTH :: nat where "CAPTCHA_LENGTH = 5"
definition CAPTCHA_TTL_SECS :: int where "CAPTCHA_TTL_SECS = 900"
definition CAPTCHA_MIN_SECS :: int where "CAPTCHA_MIN_SECS = 3"
definition CAPTCHA_TOKEN_MAX :: nat where "CAPTCHA_TOKEN_MAX = 128"

record Captcha =
  c_token :: string
  c_image_data_uri :: "string option"

datatype CaptchaResult = CAPTCHA_OK | CAPTCHA_WRONG | CAPTCHA_EXPIRED | CAPTCHA_TOO_FAST | CAPTCHA_MALFORMED

subsection \<open>Texts and macs\<close>

definition derive_text :: "Sodium \<Rightarrow> byte list \<Rightarrow> string \<Rightarrow> int \<Rightarrow> string" where
  "derive_text S key nonce issued =
     (let h = sod_hmac S key (fit 96 (''captcha-text|'' @ nonce @ ''|'' @ show_int issued))
      in map (\<lambda>i. ALPHABET ! (unat (h ! i) mod length ALPHABET)) [0..<CAPTCHA_LENGTH])"

definition draw_seed :: "Sodium \<Rightarrow> byte list \<Rightarrow> string \<Rightarrow> int \<Rightarrow> byte list" where
  "draw_seed S key nonce issued = sod_hmac S key (fit 96 (''captcha-draw|'' @ nonce @ ''|'' @ show_int issued))"

definition mac_message :: "string \<Rightarrow> int \<Rightarrow> string \<Rightarrow> string" where
  "mac_message nonce issued answer = fit 128 (''captcha|'' @ nonce @ ''|'' @ show_int issued @ ''|'' @ answer)"

definition mac_hex :: "Sodium \<Rightarrow> byte list \<Rightarrow> string \<Rightarrow> int \<Rightarrow> string \<Rightarrow> string" where
  "mac_hex S key nonce issued answer = sod_bin2hex S (sod_hmac S key (mac_message nonce issued answer))"

subsection \<open>Reading a token\<close>

text \<open>\<open>strtoll\<close> in base 10: the value, saturated to 64 bits, and what follows the number.\<close>

definition clamp64 :: "int \<Rightarrow> int" where
  "clamp64 n = max (- (2 ^ 63)) (min (2 ^ 63 - 1) n)"

definition strtoll :: "string \<Rightarrow> int \<times> string" where
  "strtoll s =
     (let t = dropWhile isspace s;
          neg = (t \<noteq> [] \<and> hd t = CHR ''-'');
          u = (if t \<noteq> [] \<and> (hd t = CHR ''-'' \<or> hd t = CHR ''+'') then tl t else t);
          ds = takeWhile isdigit u; v = int (dec_value ds)
      in if ds = [] then (0, s) else (clamp64 (if neg then - v else v), drop (length ds) u))"

definition parse_token :: "string option \<Rightarrow> (string \<times> int \<times> string) option" where
  "parse_token token =
     (case token of
        None \<Rightarrow> None
      | Some tok \<Rightarrow>
          (case strchr tok CHR ''.'' of
             None \<Rightarrow> None
           | Some d1 \<Rightarrow>
               let after = drop (d1 + 1) tok
               in (case strchr after CHR ''.'' of
                     None \<Rightarrow> None
                   | Some k \<Rightarrow>
                       let mac = drop (k + 1) after; nonce = take 32 tok; (issued, rest) = strtoll after
                       in if d1 \<noteq> 32 \<or> length mac \<noteq> 64 then None
                          else if \<not> list_all isxdigit nonce then None
                          else if length rest \<noteq> length after - k \<or> issued \<le> 0 then None
                          else Some (nonce, issued, mac))))"

definition token_genuine :: "Sodium \<Rightarrow> byte list \<Rightarrow> string option \<Rightarrow> (string \<times> int \<times> string) option" where
  "token_genuine S key token =
     (case parse_token token of
        None \<Rightarrow> None
      | Some (nonce, issued, mac) \<Rightarrow>
          let s = derive_text S key nonce issued
          in if sod_equal S (mac_hex S key nonce issued s) mac then Some (nonce, issued, s) else None)"

subsection \<open>Issuing and drawing\<close>

definition image_of ::
  "Sodium \<Rightarrow> (int \<Rightarrow> int \<Rightarrow> int \<Rightarrow> int \<Rightarrow> int) \<Rightarrow> byte list \<Rightarrow> string \<Rightarrow> byte list \<Rightarrow> bool \<Rightarrow> byte list option" where
  "image_of S wave gray s seed gif =
     map_option (if gif then encode_gif else encode_png) (draw (sod_stream S) wave s seed gray)"

definition issue_token :: "Sodium \<Rightarrow> byte list \<Rightarrow> byte list \<Rightarrow> int \<Rightarrow> string" where
  "issue_token S key raw issued =
     (let nonce = sod_bin2hex S raw; s = derive_text S key nonce issued
      in fit CAPTCHA_TOKEN_MAX (nonce @ ''.'' @ show_int issued @ ''.'' @ mac_hex S key nonce issued s))"

definition captcha_issue ::
  "Sodium \<Rightarrow> (int \<Rightarrow> int \<Rightarrow> int \<Rightarrow> int \<Rightarrow> int) \<Rightarrow> byte list \<Rightarrow> byte list \<Rightarrow> byte list \<Rightarrow> int \<Rightarrow> bool \<Rightarrow> Captcha option" where
  "captcha_issue S wave gray key raw issued inline_png =
     (let nonce = sod_bin2hex S raw; token = issue_token S key raw issued
      in if \<not> inline_png then Some \<lparr>c_token = token, c_image_data_uri = None\<rparr>
         else map_option (\<lambda>png. \<lparr>c_token = token, c_image_data_uri = Some (''data:image/png;base64,'' @ sod_base64 S png)\<rparr>)
                (image_of S wave gray (derive_text S key nonce issued) (draw_seed S key nonce issued) False))"

definition captcha_new ::
  "Sodium \<Rightarrow> (int \<Rightarrow> int \<Rightarrow> int \<Rightarrow> int \<Rightarrow> int) \<Rightarrow> byte list \<Rightarrow> byte list \<Rightarrow> byte list \<Rightarrow> int \<Rightarrow> bool \<Rightarrow> Captcha option" where
  "captcha_new S wave gray key raw now inline_png = captcha_issue S wave gray key raw now inline_png"

definition captcha_free :: "Captcha option \<Rightarrow> Captcha option" where
  "captcha_free c = map_option (\<lambda>c. c\<lparr>c_image_data_uri := None\<rparr>) c"

text \<open>The pictures of a text alone, from a seed of zeros.\<close>

definition captcha_png :: "Sodium \<Rightarrow> (int \<Rightarrow> int \<Rightarrow> int \<Rightarrow> int \<Rightarrow> int) \<Rightarrow> byte list \<Rightarrow> string \<Rightarrow> byte list option" where
  "captcha_png S wave gray s = image_of S wave gray s (replicate 32 0) False"

definition captcha_gif :: "Sodium \<Rightarrow> (int \<Rightarrow> int \<Rightarrow> int \<Rightarrow> int \<Rightarrow> int) \<Rightarrow> byte list \<Rightarrow> string \<Rightarrow> byte list option" where
  "captcha_gif S wave gray s = image_of S wave gray s (replicate 32 0) True"

definition captcha_text_art :: "Sodium \<Rightarrow> string \<Rightarrow> string option" where
  "captcha_text_art S s = draw_text_art (sod_stream S) s (replicate 32 0)"

definition captcha_wbmp :: "Sodium \<Rightarrow> string \<Rightarrow> byte list option" where
  "captcha_wbmp S s = draw_wbmp (sod_stream S) s (replicate 32 0)"

definition captcha_answer :: "Sodium \<Rightarrow> byte list \<Rightarrow> string option \<Rightarrow> string option" where
  "captcha_answer S key token = map_option (\<lambda>(nonce, issued, s). s) (token_genuine S key token)"

definition token_drawing :: "Sodium \<Rightarrow> byte list \<Rightarrow> string option \<Rightarrow> int \<Rightarrow> (string \<times> byte list) option" where
  "token_drawing S key token now =
     (case token_genuine S key token of
        None \<Rightarrow> None
      | Some (nonce, issued, s) \<Rightarrow>
          if now - issued > CAPTCHA_TTL_SECS \<or> issued > now + 60 then None
          else Some (s, draw_seed S key nonce issued))"

definition captcha_token_gif ::
  "Sodium \<Rightarrow> (int \<Rightarrow> int \<Rightarrow> int \<Rightarrow> int \<Rightarrow> int) \<Rightarrow> byte list \<Rightarrow> byte list \<Rightarrow> string option \<Rightarrow> int \<Rightarrow> byte list option" where
  "captcha_token_gif S wave gray key token now =
     Option.bind (token_drawing S key token now) (\<lambda>(s, seed). image_of S wave gray s seed True)"

definition captcha_token_wbmp :: "Sodium \<Rightarrow> byte list \<Rightarrow> string option \<Rightarrow> int \<Rightarrow> byte list option" where
  "captcha_token_wbmp S key token now =
     Option.bind (token_drawing S key token now) (\<lambda>(s, seed). draw_wbmp (sod_stream S) s seed)"

definition captcha_token_text :: "Sodium \<Rightarrow> byte list \<Rightarrow> string option \<Rightarrow> int \<Rightarrow> string option" where
  "captcha_token_text S key token now =
     Option.bind (token_drawing S key token now) (\<lambda>(s, seed). draw_text_art (sod_stream S) s seed)"

subsection \<open>Checking an answer\<close>

text \<open>The loop over the answer; the first argument is the room left in \<open>norm\<close>, its NUL aside.\<close>

fun norm_answer :: "nat \<Rightarrow> string \<Rightarrow> string" where
  "norm_answer room [] = []"
| "norm_answer room (c # p) =
     (if room = 0 then [] else if isspace c then norm_answer room p else toupper c # norm_answer (room - 1) p)"

definition captcha_check ::
  "Sodium \<Rightarrow> byte list \<Rightarrow> string option \<Rightarrow> string option \<Rightarrow> int \<Rightarrow> string \<Rightarrow> CaptchaResult \<times> string" where
  "captcha_check S key token answer now nonce_out =
     (case answer of
        None \<Rightarrow> (CAPTCHA_MALFORMED, nonce_out)
      | Some a \<Rightarrow>
          (case parse_token token of
             None \<Rightarrow> (CAPTCHA_MALFORMED, nonce_out)
           | Some (nonce, issued, mac) \<Rightarrow>
               let norm = norm_answer 15 a
               in if \<not> sod_equal S (mac_hex S key nonce issued norm) mac then (CAPTCHA_WRONG, nonce_out)
                  else if now - issued > CAPTCHA_TTL_SECS then (CAPTCHA_EXPIRED, nonce_out)
                  else if now - issued < CAPTCHA_MIN_SECS then (CAPTCHA_TOO_FAST, nonce_out)
                  else (CAPTCHA_OK, nonce)))"

subsection \<open>Messages\<close>

lemma show_int_pos: "0 < i \<Longrightarrow> show_int i = show_nat (nat i)"
  by (simp add: show_int_def)

lemma show_int_chars:
  assumes "0 < i" "c \<in> set (show_int i)"
  shows "isdigit c"
  using assms show_nat_digits by (simp add: show_int_pos)

lemma show_int_length:
  assumes "0 < i" "i < 2 ^ 63"
  shows "length (show_int i) \<le> 19"
  unfolding show_int_pos [OF assms(1)] by (rule length_show_nat) (use assms in simp_all)

lemma show_int_inject: "0 < i \<Longrightarrow> 0 < j \<Longrightarrow> show_int i = show_int j \<longleftrightarrow> i = j"
  by (metis dec_value_show_nat nat_eq_iff2 less_imp_le show_int_pos)

lemma not_bar_xdigit: "isxdigit c \<Longrightarrow> c \<noteq> CHR ''|''" "isdigit c \<Longrightarrow> c \<noteq> CHR ''|''"
  "isxdigit c \<Longrightarrow> c \<noteq> CHR ''.''" "isdigit c \<Longrightarrow> c \<noteq> CHR ''.''"
  by (auto simp: isxdigit_def isdigit_def)

definition nonce_ok :: "string \<Rightarrow> bool" where
  "nonce_ok n \<longleftrightarrow> length n = 32 \<and> list_all isxdigit n"

definition time_ok :: "int \<Rightarrow> bool" where
  "time_ok i \<longleftrightarrow> 0 < i \<and> i < 2 ^ 63"

text \<open>The message determines its parts: neither the nonce nor the time can hold the separator.\<close>

lemma mac_message_inject:
  assumes "nonce_ok n" "nonce_ok n'" "time_ok i" "time_ok i'" "length a \<le> 15" "length a' \<le> 15"
    and "mac_message n i a = mac_message n' i' a'"
  shows "n = n' \<and> i = i' \<and> a = a'"
proof -
  have len: "length (show_int i) \<le> 19" "length (show_int i') \<le> 19"
    using show_int_length assms(3,4) by (simp_all add: time_ok_def)
  have eq: "n @ CHR ''|'' # show_int i @ CHR ''|'' # a = n' @ CHR ''|'' # show_int i' @ CHR ''|'' # a'"
    using assms(1,2,5,6,7) len by (simp add: mac_message_def fit_id nonce_ok_def)
  then have n: "n = n'" "show_int i @ CHR ''|'' # a = show_int i' @ CHR ''|'' # a'"
    using assms(1,2) by (simp_all add: nonce_ok_def)
  have "CHR ''|'' \<notin> set (show_int i)" "CHR ''|'' \<notin> set (show_int i')"
    using show_int_chars not_bar_xdigit(2) assms(3,4) unfolding time_ok_def by blast+
  then have "show_int i = show_int i'" "a = a'"
    using n(2) run_until [of "CHR ''|''" "show_int i" a] run_until [of "CHR ''|''" "show_int i'" a'] by simp_all
  then show ?thesis using n(1) show_int_inject assms(3,4) by (simp add: time_ok_def)
qed

lemma norm_answer_length: "length (norm_answer room a) \<le> room"
  by (induction room a rule: norm_answer.induct) auto

lemma derive_text_length [simp]: "length (derive_text S key nonce issued) = 5"
  by (simp add: derive_text_def Let_def CAPTCHA_LENGTH_def)

lemma mac_hex_inject:
  assumes "sodium_ok S" "mac_hex S key n i a = mac_hex S key n' i' a'"
  shows "sod_hmac S key (mac_message n i a) = sod_hmac S key (mac_message n' i' a')"
  using assms by (auto simp: mac_hex_def sodium_ok_def inj_eq)

lemma mac_hex_length: "sodium_ok S \<Longrightarrow> length (mac_hex S key n i a) = 64"
  by (simp add: mac_hex_def sodium_ok_def)

subsection \<open>Tokens\<close>

lemma strtoll_show_int:
  assumes "time_ok i" "r = [] \<or> \<not> isdigit (hd r)"
  shows "strtoll (show_int i @ r) = (i, r)"
proof -
  obtain d ds where s: "show_int i = d # ds"
    using assms(1) show_nat_not_Nil by (cases "show_int i") (auto simp: time_ok_def show_int_pos)
  have dig: "\<And>c. c \<in> set (d # ds) \<Longrightarrow> isdigit c" using show_int_chars [of i] assms(1) s by (simp add: time_ok_def)
  have d: "isdigit d" "\<not> isspace d" "d \<noteq> CHR ''-''" "d \<noteq> CHR ''+''"
    using dig [of d] by (auto simp: isdigit_def isspace_def)
  have "takeWhile isdigit (ds @ r) = ds"
    using dig assms(2) by (subst takeWhile_append2) (auto simp: takeWhile_eq_Nil_iff)
  moreover have "int (dec_value (d # ds)) = i" using assms(1) s by (simp add: time_ok_def show_int_pos flip: s)
  ultimately show ?thesis using d assms(1) by (simp add: s strtoll_def Let_def clamp64_def time_ok_def)
qed

lemma strtoll_show: "time_ok i \<Longrightarrow> strtoll (show_int i @ CHR ''.'' # r) = (i, CHR ''.'' # r)"
  by (rule strtoll_show_int) (simp_all add: isdigit_def)

lemma parse_token_text:
  assumes "nonce_ok n" "time_ok i" "length mac = 64"
  shows "parse_token (Some (n @ ''.'' @ show_int i @ ''.'' @ mac)) = Some (n, i, mac)"
proof -
  have "strchr n CHR ''.'' = None" using assms(1) not_bar_xdigit(3) by (auto simp: strchr_None nonce_ok_def list_all_iff)
  then have 1: "strchr (n @ CHR ''.'' # r) CHR ''.'' = Some 32" for r
    using assms(1) by (simp add: strchr_append nonce_ok_def)
  have "strchr (show_int i) CHR ''.'' = None"
    unfolding strchr_None using show_int_chars assms(2) not_bar_xdigit(4) unfolding time_ok_def by blast
  then have 2: "strchr (show_int i @ CHR ''.'' # r) CHR ''.'' = Some (length (show_int i))" for r
    by (simp add: strchr_append)
  show ?thesis
    using assms 1 2 strtoll_show [OF assms(2), of mac] by (simp add: parse_token_def Let_def nonce_ok_def time_ok_def)
qed

lemma issue_token_parse:
  assumes "sodium_ok S" "length raw = 16" "time_ok issued"
  shows "parse_token (Some (issue_token S key raw issued)) =
     Some (sod_bin2hex S raw, issued, mac_hex S key (sod_bin2hex S raw) issued (derive_text S key (sod_bin2hex S raw) issued))"
    and "nonce_ok (sod_bin2hex S raw)"
proof -
  show n: "nonce_ok (sod_bin2hex S raw)" using assms(1,2) by (simp add: sodium_ok_def nonce_ok_def)
  have "length (show_int issued) \<le> 19" using show_int_length assms(3) by (simp add: time_ok_def)
  then show "parse_token (Some (issue_token S key raw issued)) =
     Some (sod_bin2hex S raw, issued, mac_hex S key (sod_bin2hex S raw) issued (derive_text S key (sod_bin2hex S raw) issued))"
    using parse_token_text [OF n assms(3) mac_hex_length [OF assms(1)]] n mac_hex_length [OF assms(1)]
    by (simp add: issue_token_def Let_def fit_id CAPTCHA_TOKEN_MAX_def nonce_ok_def)
qed

lemma clamp64_less: "clamp64 n < 9223372036854775808"
  by (auto simp: clamp64_def min_def max_def)

lemma strtoll_max: "fst (strtoll s) < 2 ^ 63"
  by (simp add: strtoll_def Let_def clamp64_less)

lemma parse_token_ok:
  assumes "parse_token (Some tok) = Some (n, i, mac)"
  shows "nonce_ok n" "time_ok i"
proof -
  obtain d1 where d1: "strchr tok CHR ''.'' = Some d1"
    using assms by (cases "strchr tok CHR ''.''") (simp_all add: parse_token_def)
  obtain k where k: "strchr (drop (d1 + 1) tok) CHR ''.'' = Some k"
    using assms d1 by (cases "strchr (drop (d1 + 1) tok) CHR ''.''") (simp_all add: parse_token_def Let_def)
  obtain v rest where v: "strtoll (drop (d1 + 1) tok) = (v, rest)" by fastforce
  have "d1 = 32 \<and> list_all isxdigit n \<and> n = take 32 tok \<and> 0 < i \<and> i = v"
    using assms d1 k v by (simp add: parse_token_def Let_def split: if_splits)
  then show "nonce_ok n" "time_ok i"
    using d1 strtoll_max [of "drop (d1 + 1) tok"] v by (auto simp: nonce_ok_def strchr_Some time_ok_def)
qed

text \<open>
  C26. A token the server issued is judged exactly: with its answer in any case and spacing it is
  expired after fifteen minutes, too fast within three seconds and good in between, when its
  nonce is handed to the caller; with any other answer it is wrong. The hypothesis on HMAC
  is that the given answer is not a collision with the right one.
\<close>

theorem captcha_check_issued:
  assumes "sodium_ok S" "length raw = 16" "time_ok issued"
    and "nonce = sod_bin2hex S raw" "s = derive_text S key nonce issued" "norm = norm_answer 15 a"
    and "sod_hmac S key (mac_message nonce issued norm) = sod_hmac S key (mac_message nonce issued s) \<Longrightarrow>
      mac_message nonce issued norm = mac_message nonce issued s"
  shows "captcha_check S key (Some (issue_token S key raw issued)) (Some a) now out =
     (if norm \<noteq> s then (CAPTCHA_WRONG, out)
      else if now - issued > 900 then (CAPTCHA_EXPIRED, out)
      else if now - issued < 3 then (CAPTCHA_TOO_FAST, out)
      else (CAPTCHA_OK, nonce))
    \<and> captcha_answer S key (Some (issue_token S key raw issued)) = Some s"
proof -
  note parse = issue_token_parse(1) [OF assms(1-3), of key]
  have n: "nonce_ok nonce" using issue_token_parse(2) [OF assms(1-3)] assms(4) by simp
  have lens: "length norm \<le> 15" "length s \<le> 15" using norm_answer_length [of 15 a] assms(5,6) by simp_all
  have eq: "sod_equal S (mac_hex S key nonce issued x) (mac_hex S key nonce issued y)
      \<longleftrightarrow> mac_hex S key nonce issued x = mac_hex S key nonce issued y" for x y
    using assms(1) mac_hex_length [OF assms(1)] by (simp add: sodium_ok_def)
  have "mac_hex S key nonce issued norm = mac_hex S key nonce issued s \<longleftrightarrow> norm = s"
    using mac_hex_inject [OF assms(1)] assms(7) mac_message_inject [OF n n assms(3,3) lens] by blast
  then have "captcha_check S key (Some (issue_token S key raw issued)) (Some a) now out =
     (if norm \<noteq> s then (CAPTCHA_WRONG, out)
      else if now - issued > 900 then (CAPTCHA_EXPIRED, out)
      else if now - issued < 3 then (CAPTCHA_TOO_FAST, out)
      else (CAPTCHA_OK, nonce))"
    using parse eq by (simp add: captcha_check_def CAPTCHA_TTL_SECS_def CAPTCHA_MIN_SECS_def Let_def flip: assms(4-6))
  moreover have "captcha_answer S key (Some (issue_token S key raw issued)) = Some s"
    using parse eq by (simp add: captcha_answer_def token_genuine_def Let_def flip: assms(4,5))
  ultimately show ?thesis by blast
qed

text \<open>
  C19. A mac of the server is good for the token it was made for and for no other: an accepted
  token that carries it has that token's nonce, time and answer (unless HMAC collides on the two
  messages), and was answered within its time.
\<close>

theorem captcha_token_bound:
  assumes "sodium_ok S" "length raw = 16" "time_ok issued"
    and "nonce = sod_bin2hex S raw" "s = derive_text S key nonce issued"
    and "captcha_check S key (Some tok) (Some a) now out = (CAPTCHA_OK, n)"
    and "parse_token (Some tok) = Some (n', i, mac_hex S key nonce issued s)"
    and "sod_hmac S key (mac_message n' i (norm_answer 15 a)) = sod_hmac S key (mac_message nonce issued s) \<Longrightarrow>
      mac_message n' i (norm_answer 15 a) = mac_message nonce issued s"
  shows "n = nonce \<and> i = issued \<and> norm_answer 15 a = s \<and> 3 \<le> now - issued \<and> now - issued \<le> 900"
proof -
  let ?norm = "norm_answer 15 a"
  have chk: "n = n'" "sod_equal S (mac_hex S key n' i ?norm) (mac_hex S key nonce issued s)" "3 \<le> now - i" "now - i \<le> 900"
    using assms(6,7) by (auto simp: captcha_check_def Let_def CAPTCHA_TTL_SECS_def CAPTCHA_MIN_SECS_def split: if_splits)
  have n': "nonce_ok n'" "time_ok i"
    using parse_token_ok [OF assms(7)] by simp_all
  have "mac_hex S key n' i ?norm = mac_hex S key nonce issued s"
    using chk(2) assms(1) mac_hex_length [OF assms(1)] by (simp add: sodium_ok_def)
  then have "mac_message n' i ?norm = mac_message nonce issued s"
    using assms(8) mac_hex_inject [OF assms(1)] by blast
  moreover have "nonce_ok nonce" using issue_token_parse(2) [OF assms(1-3)] assms(4) by simp
  ultimately have "n' = nonce \<and> i = issued \<and> ?norm = s"
    using mac_message_inject [of n' nonce i issued ?norm s] n' assms(3,5) norm_answer_length [of 15 a] by simp
  then show ?thesis using chk by simp
qed

subsection \<open>Witnesses\<close>

text \<open>A stand-in for libsodium that meets its documented laws; every message has the same mac.\<close>

definition toy_sodium :: Sodium where
  "toy_sodium = \<lparr>sod_hmac = (\<lambda>_ _. replicate 32 0), sod_bin2hex = hex_of, sod_base64 = (\<lambda>_. []),
     sod_equal = (\<lambda>a b. a = b), sod_stream = (\<lambda>_ _. replicate 64 0)\<rparr>"

lemma toy_sodium_ok: "sodium_ok toy_sodium"
proof -
  have "length (hex_of b) = 2 * length b" "list_all isxdigit (hex_of b)" for b
    by (induction b) (simp_all add: hex_of_def hex_upper_xdigit byte_nibbles)
  then show ?thesis using hex_of_inject by (simp add: sodium_ok_def toy_sodium_def inj_def)
qed

lemma toy_text: "derive_text toy_sodium key n i = ''AAAAA''"
proof -
  have "map (\<lambda>i. ALPHABET ! (unat (replicate 32 (0 :: byte) ! i) mod length ALPHABET)) [0..<5] = map (\<lambda>_. CHR ''A'') [0..<5]"
    by (rule map_cong [OF refl]) (simp add: ALPHABET_def)
  then show ?thesis by (simp add: derive_text_def toy_sodium_def CAPTCHA_LENGTH_def map_replicate_const numeral_eq_Suc)
qed

lemma toy_answer: "norm_answer 15 ''aa A aa'' = ''AAAAA''"
proof -
  have "toupper CHR ''a'' = CHR ''A''" by (rule ord_inject [THEN iffD1]) (simp add: toupper_def islower_def)
  then show ?thesis by (simp add: isspace_def toupper_def [of "CHR ''A''"] islower_def)
qed

declare norm_answer.simps [simp del]

lemma toy_equal: "sod_equal toy_sodium a b \<longleftrightarrow> a = b" "sod_bin2hex toy_sodium = hex_of"
  by (simp_all add: toy_sodium_def)

theorem captcha_check_issued_witness:
  "captcha_check toy_sodium [] (Some (issue_token toy_sodium [] (replicate 16 7) 1000)) (Some ''aa A aa'') 1010 []
   = (CAPTCHA_OK, hex_of (replicate 16 7))"
  using captcha_check_issued [OF toy_sodium_ok _ _ refl refl refl, where raw = "replicate 16 7" and issued = 1000
      and a = "''aa A aa''" and key = "[]" and now = 1010 and out = "[]"]
  by (simp add: toy_text toy_answer toy_equal time_ok_def)

theorem captcha_token_bound_witness:
  "norm_answer 15 ''aa A aa'' = ''AAAAA'' \<and> (3 :: int) \<le> 1010 - 1000"
proof -
  let ?n = "sod_bin2hex toy_sodium (replicate 16 7)" and ?tok = "issue_token toy_sodium [] (replicate 16 7) 1000"
  have t: "time_ok 1000" "length (replicate 16 (7 :: byte)) = 16" by (simp_all add: time_ok_def)
  have p: "parse_token (Some ?tok) = Some (?n, 1000, mac_hex toy_sodium [] ?n 1000 ''AAAAA'')"
    using issue_token_parse(1) [OF toy_sodium_ok t(2,1), of "[]"] by (simp add: toy_text)
  then have c: "captcha_check toy_sodium [] (Some ?tok) (Some ''aa A aa'') 1010 [] = (CAPTCHA_OK, ?n)"
    by (simp add: captcha_check_def toy_answer CAPTCHA_TTL_SECS_def CAPTCHA_MIN_SECS_def toy_equal)
  show ?thesis
    using captcha_token_bound [OF toy_sodium_ok t(2,1) refl toy_text [symmetric] c p] by (simp add: toy_answer)
qed

end
