(* ===== verification/Html_Text.thy ===== *)
theory Html_Text
  imports BR_Prelude
begin

text \<open>
  What a browser shows of a fragment of a page, for the writers that have to show a text as it
  is: the code blocks and the comments. \<open>displays\<close> says that a piece of markup shows a text wherever
  it stands, so that pieces can be put together.
\<close>

text \<open>
  Tags are not shown, except that \<open><br>\<close> breaks the line; the four entities the writer uses
  stand for their characters.
\<close>

function shown :: "string \<Rightarrow> string" where
  "shown [] = []"
| "shown (c # r) =
     (if c = CHR ''<'' then
        (let t = takeWhile (\<lambda>x. x \<noteq> CHR ''>'') r in (if t = ''br'' then [LF] else []) @ shown (drop (length t + 1) r))
      else if c = CHR ''&'' then
        (if prefix ''amp;'' r then CHR ''&'' # shown (drop 4 r)
         else if prefix ''lt;'' r then CHR ''<'' # shown (drop 3 r)
         else if prefix ''gt;'' r then CHR ''>'' # shown (drop 3 r)
         else if prefix ''quot;'' r then DQ # shown (drop 5 r)
         else c # shown r)
      else c # shown r)"
  by pat_completeness auto
termination
  by (relation "measure length") auto

declare shown.simps [simp del]

definition displays :: "string \<Rightarrow> string \<Rightarrow> bool" where
  "displays z t \<longleftrightarrow> (\<forall>y. shown (z @ y) = t @ shown y)"

lemma displays_append: "displays z t \<Longrightarrow> displays z' t' \<Longrightarrow> displays (z @ z') (t @ t')"
  by (simp add: displays_def)

lemma displays_nil: "displays [] []"
  by (simp add: displays_def)

lemma displays_shown: "displays z t \<Longrightarrow> shown z = t"
  unfolding displays_def by (drule spec [of _ "[]"]) (simp add: shown.simps)

lemma displays_plain: "list_all (\<lambda>c. c \<noteq> CHR ''<'' \<and> c \<noteq> CHR ''&'') w \<Longrightarrow> displays w w"
  by (induction w) (simp_all add: displays_def shown.simps)

lemma displays_tag:
  assumes "CHR ''>'' \<notin> set t" "t \<noteq> ''br''"
  shows "displays (CHR ''<'' # t @ ''>'') []"
proof -
  have "takeWhile (\<lambda>x. x \<noteq> CHR ''>'') (t @ CHR ''>'' # y) = t" for y
    using assms(1) by (subst takeWhile_append2) auto
  then show ?thesis using assms(2) by (simp add: displays_def shown.simps)
qed

lemma displays_br: "displays ''<br>'' [LF]"
  by (simp add: displays_def shown.simps)

end
