(* ===== verification/Code_Highlight.thy ===== *)
theory Code_Highlight
  imports Html_Text
begin

text \<open>
  Syntax highlighting of code blocks (src/src/utils/code_highlight.c): the languages, the
  scanners, and the output as classes for current browsers or as font tags for old ones. One
  turn of a scanner's loop is a list of pieces, each a length and the class of the token or None
  for text left pending; the scanners only look at the source, so that the pieces of the whole
  source are found first and written afterwards. A turn that takes nothing would repeat for
  ever: the value None. An \<open>Sb\<close> is the string it holds; running out of memory is not modelled.
\<close>

subsection \<open>Languages\<close>

record LangDef =
  l_key :: string
  l_display :: string
  l_keywords :: "string list"
  l_line_comment :: "string list"
  l_block :: "(string \<times> string) option"
  l_quotes :: string
  l_pre_markers :: "string list"
  l_nocase :: bool
  l_c_preproc :: bool
  l_dollar_vars :: bool
  l_shell_specials :: bool
  l_dollar_ident :: bool
  l_hash_word_start :: bool
  l_multiline_strings :: bool
  l_triple_quotes :: bool
  l_css :: bool
  l_html :: bool

text \<open>What a designated initializer leaves out is zero.\<close>

definition lang_zero :: "string \<Rightarrow> string \<Rightarrow> LangDef" where
  "lang_zero k d =
     \<lparr>l_key = k, l_display = d, l_keywords = [], l_line_comment = [], l_block = None, l_quotes = [],
      l_pre_markers = [], l_nocase = False, l_c_preproc = False, l_dollar_vars = False,
      l_shell_specials = False, l_dollar_ident = False, l_hash_word_start = False,
      l_multiline_strings = False, l_triple_quotes = False, l_css = False, l_html = False\<rparr>"

definition KW_JS :: "string list" where
  "KW_JS =
    [''async'', ''await'', ''break'', ''case'', ''catch'', ''class'', ''const'', ''continue'',
     ''debugger'', ''default'', ''delete'', ''do'', ''else'', ''export'', ''extends'', ''false'',
     ''finally'', ''for'', ''from'', ''function'', ''get'', ''if'', ''import'', ''in'',
     ''instanceof'', ''let'', ''new'', ''null'', ''of'', ''return'', ''set'', ''static'',
     ''super'', ''switch'', ''this'', ''throw'', ''true'', ''try'', ''typeof'', ''undefined'',
     ''var'', ''void'', ''while'', ''with'', ''yield'']"

definition KW_C :: "string list" where
  "KW_C =
    [''auto'', ''bool'', ''break'', ''case'', ''catch'', ''char'', ''class'', ''const'',
     ''constexpr'', ''continue'', ''default'', ''delete'', ''do'', ''double'', ''else'', ''enum'',
     ''extern'', ''false'', ''float'', ''for'', ''friend'', ''goto'', ''if'', ''inline'', ''int'',
     ''long'', ''namespace'', ''new'', ''nullptr'', ''NULL'', ''operator'', ''private'',
     ''protected'', ''public'', ''register'', ''restrict'', ''return'', ''short'', ''signed'',
     ''sizeof'', ''static'', ''struct'', ''switch'', ''template'', ''this'', ''throw'', ''true'',
     ''try'', ''typedef'', ''typename'', ''union'', ''unsigned'', ''using'', ''virtual'',
     ''void'', ''volatile'', ''while'']"

definition KW_PYTHON :: "string list" where
  "KW_PYTHON =
    [''False'', ''None'', ''True'', ''and'', ''as'', ''assert'', ''async'', ''await'', ''break'',
     ''class'', ''continue'', ''def'', ''del'', ''elif'', ''else'', ''except'', ''finally'',
     ''for'', ''from'', ''global'', ''if'', ''import'', ''in'', ''is'', ''lambda'', ''nonlocal'',
     ''not'', ''or'', ''pass'', ''raise'', ''return'', ''self'', ''try'', ''while'', ''with'',
     ''yield'']"

definition KW_PHP :: "string list" where
  "KW_PHP =
    [''abstract'', ''and'', ''array'', ''as'', ''break'', ''callable'', ''case'', ''catch'',
     ''class'', ''clone'', ''const'', ''continue'', ''declare'', ''default'', ''do'', ''echo'',
     ''else'', ''elseif'', ''empty'', ''endfor'', ''endforeach'', ''endif'', ''endswitch'',
     ''endwhile'', ''extends'', ''false'', ''final'', ''finally'', ''fn'', ''for'', ''foreach'',
     ''function'', ''global'', ''goto'', ''if'', ''implements'', ''include'', ''include_once'',
     ''instanceof'', ''interface'', ''isset'', ''list'', ''match'', ''namespace'', ''new'',
     ''null'', ''or'', ''print'', ''private'', ''protected'', ''public'', ''readonly'',
     ''require'', ''require_once'', ''return'', ''static'', ''switch'', ''throw'', ''trait'',
     ''true'', ''try'', ''unset'', ''use'', ''var'', ''while'', ''xor'', ''yield'']"

definition KW_BASH :: "string list" where
  "KW_BASH =
    [''alias'', ''break'', ''case'', ''cd'', ''continue'', ''declare'', ''do'', ''done'',
     ''echo'', ''elif'', ''else'', ''esac'', ''eval'', ''exec'', ''exit'', ''export'', ''false'',
     ''fi'', ''for'', ''function'', ''if'', ''in'', ''local'', ''printf'', ''read'', ''readonly'',
     ''return'', ''select'', ''set'', ''shift'', ''source'', ''test'', ''then'', ''time'',
     ''trap'', ''true'', ''unset'', ''until'', ''while'']"

definition KW_SQL :: "string list" where
  "KW_SQL =
    [''ADD'', ''ALL'', ''ALTER'', ''AND'', ''AS'', ''ASC'', ''AVG'', ''BETWEEN'', ''BOOLEAN'',
     ''BY'', ''CASE'', ''CHAR'', ''COUNT'', ''CREATE'', ''DATABASE'', ''DATE'', ''DEFAULT'',
     ''DELETE'', ''DESC'', ''DISTINCT'', ''DROP'', ''ELSE'', ''END'', ''EXISTS'', ''FALSE'',
     ''FOREIGN'', ''FROM'', ''FULL'', ''GRANT'', ''GROUP'', ''HAVING'', ''IN'', ''INDEX'',
     ''INNER'', ''INSERT'', ''INT'', ''INTEGER'', ''INTO'', ''IS'', ''JOIN'', ''KEY'', ''LEFT'',
     ''LIKE'', ''LIMIT'', ''MAX'', ''MIN'', ''NOT'', ''NULL'', ''OFFSET'', ''ON'', ''OR'',
     ''ORDER'', ''OUTER'', ''PRIMARY'', ''REFERENCES'', ''RIGHT'', ''SELECT'', ''SET'', ''SUM'',
     ''TABLE'', ''TEXT'', ''THEN'', ''TRUE'', ''UNION'', ''UNIQUE'', ''UPDATE'', ''USE'',
     ''VALUES'', ''VARCHAR'', ''VIEW'', ''WHEN'', ''WHERE'']"

definition c_block :: "(string \<times> string) option" where
  "c_block = Some (''/*'', ''*/'')"

definition LANGS :: "LangDef list" where
  "LANGS =
     [(lang_zero ''javascript'' ''JavaScript'')\<lparr>l_keywords := KW_JS, l_line_comment := [''//''], l_block := c_block,
        l_quotes := [DQ, SQ, CHR ''`''], l_dollar_ident := True\<rparr>,
      (lang_zero ''html'' ''HTML'')\<lparr>l_html := True\<rparr>,
      (lang_zero ''c'' ''C / C++'')\<lparr>l_keywords := KW_C, l_line_comment := [''//''], l_block := c_block,
        l_quotes := [DQ, SQ], l_c_preproc := True\<rparr>,
      (lang_zero ''python'' ''Python'')\<lparr>l_keywords := KW_PYTHON, l_line_comment := [''#''],
        l_quotes := [DQ, SQ], l_triple_quotes := True\<rparr>,
      (lang_zero ''css'' ''CSS'')\<lparr>l_block := c_block, l_quotes := [DQ, SQ], l_css := True\<rparr>,
      (lang_zero ''php'' ''PHP'')\<lparr>l_keywords := KW_PHP, l_line_comment := [''//'', ''#''], l_block := c_block,
        l_quotes := [DQ, SQ], l_pre_markers := [''<?php'', ''<?='', ''?>''], l_nocase := True, l_dollar_vars := True\<rparr>,
      (lang_zero ''bash'' ''Bash'')\<lparr>l_keywords := KW_BASH, l_line_comment := [''#''], l_quotes := [DQ, SQ, CHR ''`''],
        l_dollar_vars := True, l_shell_specials := True, l_hash_word_start := True, l_multiline_strings := True\<rparr>,
      (lang_zero ''sql'' ''SQL'')\<lparr>l_keywords := KW_SQL, l_line_comment := [''--''], l_block := c_block,
        l_quotes := [DQ, SQ, CHR ''`''], l_nocase := True\<rparr>]"

definition find_lang :: "string option \<Rightarrow> LangDef option" where
  "find_lang key = (case key of None \<Rightarrow> None | Some k \<Rightarrow> if k = [] then None else find (\<lambda>L. l_key L = k) LANGS)"

definition code_highlight_display_name :: "string option \<Rightarrow> string" where
  "code_highlight_display_name lang = (case find_lang lang of Some L \<Rightarrow> l_display L | None \<Rightarrow> ''Plain text'')"

subsection \<open>Scanning code\<close>

text \<open>
  The scanners see the source through two arguments: \<open>pre\<close>, the bytes before the position,
  nearest first, and \<open>s\<close>, the bytes from it on.
\<close>

type_synonym piece = "nat \<times> string option"

definition span_to :: "string \<Rightarrow> string \<Rightarrow> nat" where
  "span_to s m = (case strstr s m of Some k \<Rightarrow> k + length m | None \<Rightarrow> length s)"

definition is_ident :: "LangDef \<Rightarrow> char \<Rightarrow> bool" where
  "is_ident L c \<longleftrightarrow> isalnum c \<or> c = CHR ''_'' \<or> (l_css L \<and> c = CHR ''-'') \<or> (l_dollar_ident L \<and> c = CHR ''$'')"

definition is_ident_start :: "LangDef \<Rightarrow> string \<Rightarrow> bool" where
  "is_ident_start L s \<longleftrightarrow>
     isalpha (hd s) \<or> hd s = CHR ''_'' \<or> (l_dollar_ident L \<and> hd s = CHR ''$'')
     \<or> (l_css L \<and> hd s = CHR ''-'' \<and> 1 < length s \<and> (isalpha (s ! 1) \<or> s ! 1 = CHR ''-''))"

definition is_keyword :: "LangDef \<Rightarrow> string \<Rightarrow> bool" where
  "is_keyword L w \<longleftrightarrow> list_ex (\<lambda>k. if l_nocase L then eq_ci k w else k = w) (l_keywords L)"

definition line_comment_at :: "LangDef \<Rightarrow> string \<Rightarrow> string \<Rightarrow> bool" where
  "line_comment_at L pre s \<longleftrightarrow>
     list_ex (\<lambda>m. prefix m s \<and> \<not> (l_hash_word_start L \<and> hd m = CHR ''#'' \<and> pre \<noteq> [] \<and> \<not> isspace (hd pre)))
       (l_line_comment L)"

definition hl_blank :: "char \<Rightarrow> bool" where
  "hl_blank c \<longleftrightarrow> c = CHR '' '' \<or> c = TAB"

definition at_line_start :: "string \<Rightarrow> bool" where
  "at_line_start pre \<longleftrightarrow> (case dropWhile hl_blank pre of [] \<Rightarrow> True | c # _ \<Rightarrow> c = LF)"

text \<open>The bytes a string takes after its opening quote.\<close>

fun string_rest :: "bool \<Rightarrow> char \<Rightarrow> string \<Rightarrow> nat" where
  "string_rest multiline q [] = 0"
| "string_rest multiline q (c # r) =
     (if c = BSL \<and> r \<noteq> [] then 2 + string_rest multiline q (tl r)
      else if c = q then 1
      else if c = LF \<and> \<not> multiline then 0
      else 1 + string_rest multiline q r)"

definition string_len :: "LangDef \<Rightarrow> string \<Rightarrow> nat" where
  "string_len L s =
     (let q = hd s
      in if l_triple_quotes L \<and> 2 < length s \<and> s ! 1 = q \<and> s ! 2 = q then 3 + span_to (drop 3 s) [q, q, q]
         else 1 + string_rest (l_multiline_strings L \<or> q = CHR ''`'') q (tl s))"

definition preproc_pieces :: "string \<Rightarrow> piece list" where
  "preproc_pieces s =
     (let b1 = length (takeWhile hl_blank (tl s));
          word = takeWhile isalpha (drop (1 + b1) s);
          j = 1 + b1 + length word;
          u = dropWhile hl_blank (drop j s);
          b2 = length (takeWhile hl_blank (drop j s));
          k = length (takeWhile (\<lambda>c. c \<noteq> CHR ''>'' \<and> c \<noteq> LF) u)
      in (j, Some ''pre'') #
         (if word = ''include''
          then (b2, None) #
            (if u \<noteq> [] \<and> hd u = CHR ''<'' \<and> k < length u \<and> u ! k = CHR ''>'' then [(k + 1, Some ''str'')] else [])
          else []))"

definition dollar_len :: "LangDef \<Rightarrow> string \<Rightarrow> nat option" where
  "dollar_len L s =
     (if l_dollar_vars L \<and> hd s = CHR ''$'' \<and> 1 < length s then
        (let d = s ! 1
         in if d = CHR ''{'' then
              (let j = length (takeWhile (\<lambda>c. c \<noteq> CHR ''}'' \<and> c \<noteq> LF) (drop 2 s))
               in if 2 + j < length s \<and> s ! (2 + j) = CHR ''}'' then Some (j + 3) else None)
            else if isalpha d \<or> d = CHR ''_'' then Some (1 + length (takeWhile (\<lambda>c. isalnum c \<or> c = CHR ''_'') (tl s)))
            else if l_shell_specials L \<and> (isdigit d \<or> d \<in> set ''#?@*!$-'') then Some 2
            else None)
      else None)"

definition number_at :: "LangDef \<Rightarrow> string \<Rightarrow> string \<Rightarrow> bool" where
  "number_at L pre s \<longleftrightarrow>
     isdigit (hd s) \<or> (hd s = CHR ''.'' \<and> 1 < length s \<and> isdigit (s ! 1) \<and> (pre = [] \<or> \<not> is_ident L (hd pre)))"

definition number_len :: "LangDef \<Rightarrow> string \<Rightarrow> nat" where
  "number_len L s =
     1 + length (takeWhile (\<lambda>c. isalnum c \<or> c = CHR ''.'' \<or> c = CHR ''_'' \<or> (l_css L \<and> c = CHR ''%'')) (tl s))"

definition css_piece :: "LangDef \<Rightarrow> nat \<Rightarrow> string \<Rightarrow> piece option" where
  "css_piece L depth s =
     (if \<not> l_css L then None
      else if hd s = CHR ''@'' \<and> 1 < length s \<and> isalpha (s ! 1) then Some (1 + length (takeWhile (is_ident L) (tl s)), Some ''kw'')
      else if hd s = CHR ''#'' \<and> 0 < depth \<and> 1 < length s \<and> isxdigit (s ! 1) then Some (1 + length (takeWhile isxdigit (tl s)), Some ''num'')
      else if prefix ''!important'' s then Some (10, Some ''kw'')
      else None)"

definition ident_piece :: "LangDef \<Rightarrow> nat \<Rightarrow> string \<Rightarrow> piece" where
  "ident_piece L depth s =
     (let j = 1 + length (takeWhile (is_ident L) (tl s)); rest = drop j s; after = dropWhile hl_blank rest
      in (j, if l_css L \<and> 0 < depth \<and> after \<noteq> [] \<and> hd after = CHR '':'' then Some ''attr''
             else if is_keyword L (take j s) then Some ''kw''
             else if rest \<noteq> [] \<and> hd rest = CHR ''('' then Some ''fn''
             else None))"

definition brace_depth :: "LangDef \<Rightarrow> nat \<Rightarrow> char \<Rightarrow> nat" where
  "brace_depth L depth c =
     (if \<not> l_css L then depth else if c = CHR ''{'' then depth + 1
      else if c = CHR ''}'' \<and> 0 < depth then depth - 1 else depth)"

definition block_len :: "LangDef \<Rightarrow> string \<Rightarrow> nat option" where
  "block_len L s =
     (case l_block L of
        Some (bo, bc) \<Rightarrow> if prefix bo s then Some (length bo + span_to (drop (length bo) s) bc) else None
      | None \<Rightarrow> None)"

text \<open>One turn of the loop of \<open>scan_code\<close>; the state is the depth of braces.\<close>

definition code_step :: "LangDef \<Rightarrow> nat \<Rightarrow> string \<Rightarrow> string \<Rightarrow> piece list \<times> nat" where
  "code_step L depth pre s =
     (case block_len L s of
        Some k \<Rightarrow> ([(k, Some ''com'')], depth)
      | None \<Rightarrow>
     if line_comment_at L pre s then ([(length (takeWhile (\<lambda>c. c \<noteq> LF) s), Some ''com'')], depth)
     else if l_c_preproc L \<and> hd s = CHR ''#'' \<and> at_line_start pre then (preproc_pieces s, depth)
     else case find (\<lambda>m. prefix m s) (l_pre_markers L) of
        Some m \<Rightarrow> ([(length m, Some ''pre'')], depth)
      | None \<Rightarrow>
     if hd s \<in> set (l_quotes L) then ([(string_len L s, Some ''str'')], depth)
     else case dollar_len L s of
        Some k \<Rightarrow> ([(k, Some ''var'')], depth)
      | None \<Rightarrow>
     if number_at L pre s then ([(number_len L s, Some ''num'')], depth)
     else case css_piece L depth s of
        Some p \<Rightarrow> ([p], depth)
      | None \<Rightarrow>
     if is_ident_start L s then ([ident_piece L depth s], depth)
     else ([(1, None)], brace_depth L depth (hd s)))"

subsection \<open>Scanning markup\<close>

text \<open>The attributes of a tag, up to and including the end of the tag.\<close>

definition quoted_len :: "string \<Rightarrow> nat" where
  "quoted_len s =
     (let k = length (takeWhile (\<lambda>x. x \<noteq> hd s) (tl s)) in if k < length (tl s) then k + 2 else length s)"

definition attr_len :: "string \<Rightarrow> nat" where
  "attr_len s = 1 + length (takeWhile (\<lambda>c. isalnum c \<or> c \<in> set ''-_:.@'') (tl s))"

lemma quoted_len_bounds: "s \<noteq> [] \<Longrightarrow> 0 < quoted_len s \<and> quoted_len s \<le> length s"
  by (cases s) (auto simp: quoted_len_def Let_def)

lemma attr_len_bounds: "s \<noteq> [] \<Longrightarrow> 0 < attr_len s \<and> attr_len s \<le> length s"
  using length_takeWhile_le [of "\<lambda>c. isalnum c \<or> c \<in> set ''-_:.@''" "tl s"]
  by (cases s) (simp_all add: attr_len_def)

function tag_pieces :: "string \<Rightarrow> piece list" where
  "tag_pieces [] = []"
| "tag_pieces (c # r) =
     (if c = CHR ''>'' then [(1, Some ''tag'')]
      else if c = DQ \<or> c = SQ then (quoted_len (c # r), Some ''str'') # tag_pieces (drop (quoted_len (c # r)) (c # r))
      else if isalpha c \<or> c \<in> set ''_:@'' then (attr_len (c # r), Some ''attr'') # tag_pieces (drop (attr_len (c # r)) (c # r))
      else if c = CHR ''/'' \<and> r \<noteq> [] \<and> hd r = CHR ''>'' then [(2, Some ''tag'')]
      else (1, None) # tag_pieces r)"
  by pat_completeness auto
termination
  by (relation "measure length") (use quoted_len_bounds attr_len_bounds in auto)

declare tag_pieces.simps [simp del]

definition html_step :: "unit \<Rightarrow> string \<Rightarrow> string \<Rightarrow> piece list \<times> unit" where
  "html_step u pre s =
     (if prefix ''<!--'' s then ([(4 + span_to (drop 4 s) ''-->'', Some ''com'')], u)
      else if hd s = CHR ''<'' \<and> 1 < length s \<and> (isalpha (s ! 1) \<or> s ! 1 \<in> set ''/!'') then
        (let j0 = (if s ! 1 \<in> set ''/!'' then 2 else 1);
             j = j0 + length (takeWhile (\<lambda>c. isalnum c \<or> c \<in> set ''-:'') (drop j0 s))
         in ((j, Some ''tag'') # tag_pieces (drop j s), u))
      else ([(1, None)], u))"

subsection \<open>The loop over the source\<close>

fun cut_pieces :: "piece list \<Rightarrow> string \<Rightarrow> (string \<times> string option) list" where
  "cut_pieces [] s = []"
| "cut_pieces ((n, cls) # ps) s = (take n s, cls) # cut_pieces ps (drop n s)"

definition pieces_len :: "piece list \<Rightarrow> nat" where
  "pieces_len ps = sum_list (map fst ps)"

function scan :: "('st \<Rightarrow> string \<Rightarrow> string \<Rightarrow> piece list \<times> 'st) \<Rightarrow> 'st \<Rightarrow> string \<Rightarrow> string \<Rightarrow> (string \<times> string option) list option" where
  "scan step st pre s =
     (if s = [] then Some []
      else (let (ps, st') = step st pre s; k = pieces_len ps
            in if k = 0 then None
               else map_option ((@) (cut_pieces ps s)) (scan step st' (rev (take k s) @ pre) (drop k s))))"
  by pat_completeness auto
termination
  by (relation "measure (\<lambda>(step, st, pre, s). length s)") auto

declare scan.simps [simp del]

subsection \<open>Output\<close>

record CodeHighlightPalette =
  p_keyword :: string
  p_string :: string
  p_comment :: string
  p_number :: string
  p_variable :: string
  p_tag :: string
  p_line_number :: string
  p_numbers :: bool
  p_no_color :: bool
  p_br_newlines :: bool

record Out =
  o_buf :: string
  o_pal :: "CodeHighlightPalette option"
  o_line_no :: nat
  o_digits :: nat

definition quoted :: "string \<Rightarrow> string" where
  "quoted s = DQ # s @ [DQ]"

definition LINE_OPEN :: string where
  "LINE_OPEN = ''<span class='' @ quoted ''boat-rudder-code-line'' @ ''>''"

definition LINE_CLOSE :: string where
  "LINE_CLOSE = ''</span>''"

definition sb_puts :: "string \<Rightarrow> Out \<Rightarrow> Out" where
  "sb_puts s o1 = o1\<lparr>o_buf := o_buf o1 @ s\<rparr>"

definition palette_color :: "CodeHighlightPalette \<Rightarrow> string \<Rightarrow> string" where
  "palette_color pal cls =
     (if hd cls = CHR ''k'' \<or> hd cls = CHR ''f'' then p_keyword pal
      else if hd cls = CHR ''s'' then p_string pal
      else if hd cls = CHR ''c'' then p_comment pal
      else if hd cls = CHR ''n'' then p_number pal
      else if hd cls = CHR ''v'' then p_variable pal
      else p_tag pal)"

definition font_open :: "string \<Rightarrow> string" where
  "font_open color = ''<font color='' @ quoted color @ ''>''"

definition line_number :: "nat \<Rightarrow> nat \<Rightarrow> string" where
  "line_number digits n = replicate (digits - length (show_nat n)) (CHR '' '') @ show_nat n @ '' | ''"

definition line_start :: "Out \<Rightarrow> Out" where
  "line_start o0 =
     (let o1 = o0\<lparr>o_line_no := o_line_no o0 + 1\<rparr>; num = fit 48 (line_number (o_digits o1) (o_line_no o1))
      in case o_pal o1 of
           None \<Rightarrow> sb_puts LINE_OPEN o1
         | Some pal \<Rightarrow>
             if \<not> p_numbers pal then o1
             else if p_no_color pal then sb_puts num o1
             else sb_puts (font_open (p_line_number pal) @ num @ ''</font>'') o1)"

definition line_end :: "Out \<Rightarrow> Out" where
  "line_end o1 = (if o_pal o1 = None then sb_puts LINE_CLOSE o1 else o1)"

definition token_open :: "string \<Rightarrow> Out \<Rightarrow> Out" where
  "token_open cls o1 =
     sb_puts (case o_pal o1 of
        None \<Rightarrow> ''<span class='' @ quoted (''boat-rudder-code-token--'' @ cls) @ ''>''
      | Some pal \<Rightarrow> (if p_no_color pal then [] else font_open (palette_color pal cls))
                    @ (if cls = ''kw'' then ''<b>'' else if cls = ''com'' then ''<i>'' else [])) o1"

definition token_close :: "string \<Rightarrow> Out \<Rightarrow> Out" where
  "token_close cls o1 =
     sb_puts (case o_pal o1 of
        None \<Rightarrow> ''</span>''
      | Some pal \<Rightarrow> (if cls = ''kw'' then ''</b>'' else if cls = ''com'' then ''</i>'' else [])
                    @ (if p_no_color pal then [] else ''</font>'')) o1"

definition code_esc :: "char \<Rightarrow> string" where
  "code_esc c =
     (if c = CHR ''&'' then ''&amp;'' else if c = CHR ''<'' then ''&lt;''
      else if c = CHR ''>'' then ''&gt;'' else if c = DQ then ''&quot;'' else [c])"

definition emit_run :: "string option \<Rightarrow> string \<Rightarrow> Out \<Rightarrow> Out" where
  "emit_run cls w o0 =
     (if w = [] then o0
      else (let o1 = (case cls of Some c \<Rightarrow> token_open c o0 | None \<Rightarrow> o0);
                o2 = sb_puts (concat (map code_esc w)) o1
            in case cls of Some c \<Rightarrow> token_close c o2 | None \<Rightarrow> o2))"

definition emit_newline :: "Out \<Rightarrow> Out" where
  "emit_newline o0 =
     line_start (sb_puts (case o_pal o0 of Some pal \<Rightarrow> if p_br_newlines pal then ''<br>'' else [LF] | None \<Rightarrow> [LF]) (line_end o0))"

function emit :: "string option \<Rightarrow> string \<Rightarrow> Out \<Rightarrow> Out" where
  "emit cls s o0 =
     (let w = takeWhile (\<lambda>c. c \<noteq> LF) s; rest = drop (length w) s; o1 = emit_run cls w o0
      in if rest = [] then o1 else emit cls (tl rest) (emit_newline o1))"
  by pat_completeness auto
termination
  by (relation "measure (\<lambda>(cls, s, o0). length s)") auto

declare emit.simps [simp del]

text \<open>The tokens of a scan; \<open>plain\<close> is the text pending in front of the next one.\<close>

fun emit_tokens :: "string \<Rightarrow> (string \<times> string option) list \<Rightarrow> Out \<Rightarrow> Out" where
  "emit_tokens plain [] o0 = (if plain \<noteq> [] then emit None plain o0 else o0)"
| "emit_tokens plain ((w, None) # ts) o0 = emit_tokens (plain @ w) ts o0"
| "emit_tokens plain ((w, Some c) # ts) o0 =
     emit_tokens [] ts (emit (Some c) w (if plain \<noteq> [] then emit None plain o0 else o0))"

fun digit_count :: "nat \<Rightarrow> nat" where
  "digit_count v = (if v = 0 then 0 else 1 + digit_count (v div 10))"

declare digit_count.simps [simp del]

definition code_source :: "string option \<Rightarrow> string" where
  "code_source code =
     rev (dropWhile (\<lambda>c. c = LF) (rev (filter (\<lambda>c. c \<noteq> CR) (case code of Some s \<Rightarrow> s | None \<Rightarrow> []))))"

definition highlight :: "string option \<Rightarrow> string option \<Rightarrow> CodeHighlightPalette option \<Rightarrow> string option" where
  "highlight code lang pal =
     (let src = code_source code;
          digits = digit_count (1 + length (filter (\<lambda>c. c = LF) src));
          o1 = line_start \<lparr>o_buf = [], o_pal = pal, o_line_no = 0, o_digits = digits\<rparr>;
          o2 = (case find_lang lang of
                  None \<Rightarrow> Some (emit None src o1)
                | Some L \<Rightarrow>
                    if l_html L then map_option (\<lambda>ts. emit_tokens [] ts o1) (scan html_step () [] src)
                    else map_option (\<lambda>ts. emit_tokens [] ts o1) (scan (code_step L) 0 [] src))
      in map_option (\<lambda>o3. o_buf (line_end o3)) o2)"

definition code_highlight_html :: "string option \<Rightarrow> string option \<Rightarrow> string option" where
  "code_highlight_html code lang = highlight code lang None"

definition code_highlight_html_fonts :: "string option \<Rightarrow> string option \<Rightarrow> CodeHighlightPalette option \<Rightarrow> string option" where
  "code_highlight_html_fonts code lang palette = highlight code lang palette"

subsection \<open>Scanners that make progress\<close>

definition token_classes :: "string list" where
  "token_classes = [''kw'', ''str'', ''com'', ''num'', ''fn'', ''var'', ''pre'', ''tag'', ''attr'']"

definition class_ok :: "string option \<Rightarrow> bool" where
  "class_ok cls \<longleftrightarrow> (case cls of None \<Rightarrow> True | Some c \<Rightarrow> c \<in> set token_classes)"

locale scanner =
  fixes step :: "'st \<Rightarrow> string \<Rightarrow> string \<Rightarrow> piece list \<times> 'st"
  assumes step_progress: "s \<noteq> [] \<Longrightarrow> 0 < pieces_len (fst (step st pre s))"
    and step_inside: "s \<noteq> [] \<Longrightarrow> pieces_len (fst (step st pre s)) \<le> length s"
    and step_classes: "s \<noteq> [] \<Longrightarrow> list_all (\<lambda>p. class_ok (snd p)) (fst (step st pre s))"
begin

lemma cut_pieces_concat: "concat (map fst (cut_pieces ps s)) = take (pieces_len ps) s"
  by (induction ps s rule: cut_pieces.induct) (simp_all add: pieces_len_def take_add)

lemma cut_pieces_classes: "map snd (cut_pieces ps s) = map snd ps"
  by (induction ps s rule: cut_pieces.induct) simp_all

text \<open>The loop ends, loses and adds nothing, and marks tokens of known classes only.\<close>

lemma scan_complete:
  "\<exists>ts. scan step st pre s = Some ts \<and> concat (map fst ts) = s \<and> list_all (\<lambda>t. class_ok (snd t)) ts"
proof (induction s arbitrary: st pre rule: length_induct)
  case (1 s)
  show ?case
  proof (cases "s = []")
    case True
    then show ?thesis by (subst scan.simps) simp
  next
    case False
    obtain ps st' where ps: "step st pre s = (ps, st')" by fastforce
    let ?k = "pieces_len ps"
    have k: "0 < ?k" "?k \<le> length s" "list_all (\<lambda>p. class_ok (snd p)) ps"
      using step_progress [OF False, of st pre] step_inside [OF False, of st pre] step_classes [OF False, of st pre] ps by simp_all
    obtain ts where ts: "scan step st' (rev (take ?k s) @ pre) (drop ?k s) = Some ts"
      "concat (map fst ts) = drop ?k s" "list_all (\<lambda>t. class_ok (snd t)) ts"
      using 1 k False by (metis diff_less length_drop length_greater_0_conv)
    have "list_all (\<lambda>t. class_ok (snd t)) (cut_pieces ps s)"
      using k(3) cut_pieces_classes [of ps s] by (simp add: list_all_iff) (metis (mono_tags) image_eqI image_iff list.set_map)
    then show ?thesis
      using ts k(1) False by (subst scan.simps) (simp add: ps cut_pieces_concat)
  qed
qed

end

definition lang_ok :: "LangDef \<Rightarrow> bool" where
  "lang_ok L \<longleftrightarrow> list_all (\<lambda>m. m \<noteq> [] \<and> hd m \<noteq> LF) (l_line_comment L) \<and> list_all (\<lambda>m. m \<noteq> []) (l_pre_markers L)
     \<and> (case l_block L of Some (bo, bc) \<Rightarrow> bo \<noteq> [] | None \<Rightarrow> True)"

lemma LANGS_ok: "list_all lang_ok LANGS"
  by (simp add: LANGS_def lang_ok_def lang_zero_def c_block_def)

definition pieces_ok :: "string \<Rightarrow> piece list \<Rightarrow> bool" where
  "pieces_ok s ps \<longleftrightarrow> 0 < pieces_len ps \<and> pieces_len ps \<le> length s \<and> list_all (\<lambda>p. class_ok (snd p)) ps"

lemma pieces_ok_single: "pieces_ok s [(k, cls)] \<longleftrightarrow> 0 < k \<and> k \<le> length s \<and> class_ok cls"
  by (simp add: pieces_ok_def pieces_len_def)

lemma class_ok_simps [simp]: "class_ok None" "class_ok (Some c) \<longleftrightarrow> c \<in> set token_classes"
  by (simp_all add: class_ok_def)

lemma span_to_le: "span_to s m \<le> length s"
  using strstr_length [of s m] by (auto simp: span_to_def split: option.split)

lemma string_rest_le: "string_rest ml q s \<le> length s"
proof (induction ml q s rule: string_rest.induct)
  case (2 ml q c r)
  then show ?case by (cases r) auto
qed simp

lemma run_tl: "s \<noteq> [] \<Longrightarrow> 1 + length (takeWhile P (tl s)) \<le> length s"
  using length_takeWhile_le [of P "tl s"] by (cases s) auto

lemma string_len_ok:
  assumes "s \<noteq> []"
  shows "0 < string_len L s \<and> string_len L s \<le> length s"
proof -
  let ?m = "[hd s, hd s, hd s]" and ?b = "l_multiline_strings L \<or> hd s = CHR ''`''"
  have "span_to (drop 3 s) ?m \<le> length s - 3" using span_to_le [of "drop 3 s" ?m] by simp
  moreover have "string_rest ?b (hd s) (tl s) \<le> length s - 1" using string_rest_le [of ?b "hd s" "tl s"] by simp
  moreover have "1 \<le> length s" using assms by (cases s) simp_all
  ultimately show ?thesis unfolding string_len_def Let_def by (simp only: split: if_split) linarith
qed

lemma block_len_ok:
  assumes "lang_ok L" "block_len L s = Some k"
  shows "0 < k \<and> k \<le> length s"
proof -
  obtain bo bc where b: "l_block L = Some (bo, bc)" "prefix bo s" "k = length bo + span_to (drop (length bo) s) bc"
    using assms(2) by (auto simp: block_len_def split: option.splits if_splits)
  have "0 < length bo" using assms(1) b(1) by (simp add: lang_ok_def)
  moreover have "length bo \<le> length s" using b(2) by (rule prefix_length_le)
  ultimately show ?thesis using span_to_le [of "drop (length bo) s" bc] b(3) by simp
qed

lemma comment_len_ok:
  assumes "lang_ok L" "line_comment_at L pre s"
  shows "0 < length (takeWhile (\<lambda>c. c \<noteq> LF) s)"
proof -
  obtain m where "m \<in> set (l_line_comment L)" "prefix m s" using assms(2) by (auto simp: line_comment_at_def list_ex_iff)
  then have "m \<noteq> []" "hd m \<noteq> LF" "prefix m s" using assms(1) by (auto simp: lang_ok_def list_all_iff)
  then show ?thesis by (cases m; cases s) auto
qed

lemma preproc_pieces_ok:
  assumes "s \<noteq> []"
  shows "pieces_ok s (preproc_pieces s)"
proof -
  define b1 where "b1 = length (takeWhile hl_blank (tl s))"
  define word where "word = takeWhile isalpha (drop (1 + b1) s)"
  define j where "j = 1 + b1 + length word"
  define u where "u = dropWhile hl_blank (drop j s)"
  define b2 where "b2 = length (takeWhile hl_blank (drop j s))"
  define k where "k = length (takeWhile (\<lambda>c. c \<noteq> CHR ''>'' \<and> c \<noteq> LF) u)"
  have "1 + b1 \<le> length s" unfolding b1_def by (rule run_tl [OF assms])
  moreover have "length word \<le> length (drop (1 + b1) s)" unfolding word_def by (rule length_takeWhile_le)
  ultimately have j: "0 < j" "j \<le> length s" by (simp_all add: j_def)
  have "b2 + length u = length (drop j s)" unfolding b2_def u_def by (metis length_append takeWhile_dropWhile_id)
  moreover have "k \<le> length u" unfolding k_def by (rule length_takeWhile_le)
  moreover have "preproc_pieces s = (j, Some ''pre'') # (if word = ''include'' then (b2, None) #
      (if u \<noteq> [] \<and> hd u = CHR ''<'' \<and> k < length u \<and> u ! k = CHR ''>'' then [(k + 1, Some ''str'')] else []) else [])"
    by (simp only: preproc_pieces_def Let_def b1_def word_def j_def u_def b2_def k_def)
  ultimately show ?thesis using j by (auto simp: pieces_ok_def pieces_len_def token_classes_def)
qed

lemma dollar_len_ok: "s \<noteq> [] \<Longrightarrow> dollar_len L s = Some k \<Longrightarrow> 0 < k \<and> k \<le> length s"
  using run_tl [of s "\<lambda>c. isalnum c \<or> c = CHR ''_''"]
  by (auto simp: dollar_len_def Let_def split: if_splits)

lemma css_piece_ok: "s \<noteq> [] \<Longrightarrow> css_piece L depth s = Some p \<Longrightarrow> pieces_ok s [p]"
  using run_tl [of s "is_ident L"] run_tl [of s isxdigit] prefix_length_le [of "''!important''" s]
  by (auto simp: css_piece_def pieces_ok_single token_classes_def split: if_splits)

lemma ident_piece_ok: "s \<noteq> [] \<Longrightarrow> pieces_ok s [ident_piece L depth s]"
  using run_tl [of s "is_ident L"]
  by (auto simp: ident_piece_def Let_def pieces_ok_single token_classes_def)

lemma pieces_ok_if:
  "(c \<Longrightarrow> pieces_ok s (fst x)) \<Longrightarrow> (\<not> c \<Longrightarrow> pieces_ok s (fst y)) \<Longrightarrow> pieces_ok s (fst (if c then x else y))"
  by simp

lemma pieces_ok_option:
  "(x = None \<Longrightarrow> pieces_ok s (fst y)) \<Longrightarrow> (\<And>k. x = Some k \<Longrightarrow> pieces_ok s (fst (f k)))
   \<Longrightarrow> pieces_ok s (fst (case x of None \<Rightarrow> y | Some k \<Rightarrow> f k))"
  by (cases x) simp_all

lemma code_step_ok:
  assumes "lang_ok L" "s \<noteq> []"
  shows "pieces_ok s (fst (code_step L depth pre s))"
proof -
  have one: "Suc 0 \<le> length s" using assms(2) by (cases s) simp_all
  have cmt: "pieces_ok s [(length (takeWhile (\<lambda>c. c \<noteq> LF) s), Some ''com'')]" if "line_comment_at L pre s"
    using comment_len_ok [OF assms(1) that] length_takeWhile_le [of "\<lambda>c. c \<noteq> LF" s]
    by (simp add: pieces_ok_single token_classes_def)
  have marker: "pieces_ok s [(length m, Some ''pre'')]" if m: "find (\<lambda>m. prefix m s) (l_pre_markers L) = Some m" for m
  proof -
    have "m \<in> set (l_pre_markers L)" "prefix m s" using m by (auto simp: find_Some_iff)
    then show ?thesis using assms(1) prefix_length_le [of m s]
      by (simp add: lang_ok_def list_all_iff pieces_ok_single token_classes_def)
  qed
  have num: "pieces_ok s [(number_len L s, Some ''num'')]"
    unfolding number_len_def using run_tl [OF assms(2)] by (simp add: pieces_ok_single token_classes_def)
  have blk: "pieces_ok s [(k, Some ''com'')]" if "block_len L s = Some k" for k
    using block_len_ok [OF assms(1) that] by (simp add: pieces_ok_single token_classes_def)
  have var: "pieces_ok s [(k, Some ''var'')]" if "dollar_len L s = Some k" for k
    using dollar_len_ok [OF assms(2) that] by (simp add: pieces_ok_single token_classes_def)
  have str: "pieces_ok s [(string_len L s, Some ''str'')]"
    using string_len_ok [OF assms(2)] by (simp add: pieces_ok_single token_classes_def)
  have other: "pieces_ok s [(1, None)]" using one by (simp add: pieces_ok_single)
  show ?thesis
    unfolding code_step_def
    by (intro pieces_ok_if pieces_ok_option; simp only: fst_conv;
        rule blk cmt preproc_pieces_ok marker str var num css_piece_ok ident_piece_ok other; (assumption | rule assms(2)))
qed

lemma code_scanner: "lang_ok L \<Longrightarrow> scanner (code_step L)"
  using code_step_ok by unfold_locales (simp_all add: pieces_ok_def)

lemma pieces_len_simps [simp]: "pieces_len [] = 0" "pieces_len (p # ps) = fst p + pieces_len ps"
  by (simp_all add: pieces_len_def)

lemma tag_pieces_ok: "pieces_len (tag_pieces s) \<le> length s \<and> list_all (\<lambda>p. class_ok (snd p)) (tag_pieces s)"
proof (induction s rule: tag_pieces.induct)
  case 1
  then show ?case by (simp add: tag_pieces.simps)
next
  case (2 c r)
  have q: "quoted_len (c # r) \<le> Suc (length r)" and a: "attr_len (c # r) \<le> Suc (length r)"
    using quoted_len_bounds [of "c # r"] attr_len_bounds [of "c # r"] by simp_all
  have one: "r \<noteq> [] \<Longrightarrow> 1 \<le> length r" by (cases r) simp_all
  consider "c = CHR ''>''" | "c \<noteq> CHR ''>''" "c = DQ \<or> c = SQ"
    | "c \<noteq> CHR ''>''" "\<not> (c = DQ \<or> c = SQ)" "isalpha c \<or> c \<in> set ''_:@''"
    | "c \<noteq> CHR ''>''" "\<not> (c = DQ \<or> c = SQ)" "\<not> (isalpha c \<or> c \<in> set ''_:@'')" "c = CHR ''/'' \<and> r \<noteq> [] \<and> hd r = CHR ''>''"
    | "c \<noteq> CHR ''>''" "\<not> (c = DQ \<or> c = SQ)" "\<not> (isalpha c \<or> c \<in> set ''_:@'')" "\<not> (c = CHR ''/'' \<and> r \<noteq> [] \<and> hd r = CHR ''>'')"
    by blast
  then show ?case
  proof cases
    case 1
    then show ?thesis by (simp add: tag_pieces.simps token_classes_def)
  next
    case 2
    then show ?thesis using "2.IH"(1) [OF 2] q
      by (simp only: tag_pieces.simps if_True if_False pieces_len_simps list.pred_inject) (auto simp add: token_classes_def)
  next
    case 3
    then show ?thesis using "2.IH"(2) [OF 3] a
      by (simp only: tag_pieces.simps if_True if_False pieces_len_simps list.pred_inject) (auto simp add: token_classes_def)
  next
    case 4
    then show ?thesis using one
      by (simp only: tag_pieces.simps if_True if_False pieces_len_simps list.pred_inject) (auto simp add: token_classes_def)
  next
    case 5
    then show ?thesis using "2.IH"(3) [OF 5]
      by (simp only: tag_pieces.simps if_True if_False pieces_len_simps list.pred_inject) auto
  qed
qed

lemma html_step_ok:
  assumes "s \<noteq> []"
  shows "pieces_ok s (fst (html_step u pre s))"
proof -
  have other: "pieces_ok s [(1, None)]" using assms by (cases s) (simp_all add: pieces_ok_single)
  have cmt: "pieces_ok s [(4 + span_to (drop 4 s) ''-->'', Some ''com'')]" if "prefix ''<!--'' s"
    using span_to_le [of "drop 4 s" "''-->''"] prefix_length_le [OF that] by (simp add: pieces_ok_single token_classes_def)
  have tag: "pieces_ok s ((j0 + k, Some ''tag'') # tag_pieces (drop (j0 + k) s))"
    if "k \<le> length (drop j0 s)" "0 < j0" "j0 \<le> length s" for j0 k
    using that tag_pieces_ok [of "drop (j0 + k) s"] by (auto simp add: pieces_ok_def token_classes_def)
  show ?thesis
    unfolding html_step_def Let_def
    by (intro pieces_ok_if; simp only: fst_conv; rule cmt tag other; (assumption | rule length_takeWhile_le | force))
qed

interpretation html: scanner html_step
  using html_step_ok by unfold_locales (simp_all add: pieces_ok_def)

subsection \<open>The markup of current browsers\<close>

text \<open>
  The markup of current browsers: lines, each in its own span, with a line feed between them; in
  a line, escaped text and tokens, which do not nest. The states are outside a line (0), in a
  line (1) and in a token (2).
\<close>

definition token_tag :: "string \<Rightarrow> string" where
  "token_tag cls = ''<span class='' @ quoted (''boat-rudder-code-token--'' @ cls) @ ''>''"

definition escaped_char :: "char \<Rightarrow> string \<Rightarrow> bool" where
  "escaped_char c r \<longleftrightarrow>
     c \<noteq> CHR ''<'' \<and> c \<noteq> CHR ''>'' \<and> c \<noteq> DQ \<and> c \<noteq> LF
     \<and> (c = CHR ''&'' \<longrightarrow> list_ex (\<lambda>e. prefix e r) [''amp;'', ''lt;'', ''gt;'', ''quot;''])"

function hl_ok :: "nat \<Rightarrow> string \<Rightarrow> bool" where
  "hl_ok st [] \<longleftrightarrow> st = 0"
| "hl_ok st (c # r) \<longleftrightarrow>
     (if st = 0 then
        (if c = LF then hl_ok 0 r
         else if prefix LINE_OPEN (c # r) then hl_ok 1 (drop (length LINE_OPEN) (c # r))
         else False)
      else if prefix ''</span>'' (c # r) then hl_ok (st - 1) (drop 7 (c # r))
      else (case find (\<lambda>cls. prefix (token_tag cls) (c # r)) token_classes of
              Some cls \<Rightarrow> st = 1 \<and> hl_ok 2 (drop (length (token_tag cls)) (c # r))
            | None \<Rightarrow> escaped_char c r \<and> hl_ok st r))"
  by pat_completeness auto
termination
  by (relation "measure (\<lambda>(st, s). length s)") (auto simp: LINE_OPEN_def token_tag_def)

declare hl_ok.simps [simp del]

definition hl_reads :: "nat \<Rightarrow> string \<Rightarrow> nat \<Rightarrow> bool" where
  "hl_reads st z st' \<longleftrightarrow> (\<forall>y. hl_ok st (z @ y) = hl_ok st' y)"

lemma displays_escaped: "displays (concat (map code_esc w)) w"
proof (induction w)
  case (Cons c w)
  have "displays (code_esc c) [c]" by (simp add: displays_def code_esc_def shown.simps)
  from displays_append [OF this Cons] show ?case by simp
qed (simp add: displays_nil)

lemma hl_reads_trans: "hl_reads a z b \<Longrightarrow> hl_reads b z' c \<Longrightarrow> hl_reads a (z @ z') c"
  by (simp add: hl_reads_def)

lemma hl_reads_nil: "hl_reads a [] a"
  by (simp add: hl_reads_def)

lemma hl_reads_ok: "hl_reads a z b \<Longrightarrow> hl_ok a z \<longleftrightarrow> b = 0"
  unfolding hl_reads_def by (drule spec [of _ "[]"]) (simp add: hl_ok.simps)

lemma hl_reads_line: "hl_reads 0 LINE_OPEN 1" "hl_reads 1 LINE_CLOSE 0" "hl_reads 0 [LF] 0"
  by (simp_all add: hl_reads_def hl_ok.simps LINE_OPEN_def LINE_CLOSE_def)

lemma hl_reads_token_close: "hl_reads 2 ''</span>'' 1"
  by (simp add: hl_reads_def hl_ok.simps)

lemma prefix_to_quote:
  "DQ \<notin> set a \<Longrightarrow> DQ \<notin> set b \<Longrightarrow> prefix (a @ DQ # t) (b @ DQ # u) \<longleftrightarrow> a = b \<and> prefix t u"
proof (induction a arbitrary: b)
  case Nil
  then show ?case by (cases b) auto
next
  case (Cons x a)
  then show ?case by (cases b) auto
qed

lemma find_eq_Some: "c \<in> set xs \<Longrightarrow> find (\<lambda>x. x = c) xs = Some c"
  by (induction xs) auto

lemma find_token_tag:
  assumes "c \<in> set token_classes"
  shows "find (\<lambda>cls. prefix (token_tag cls) (token_tag c @ y)) token_classes = Some c"
proof -
  have q: "DQ \<notin> set cls" if "cls \<in> set token_classes" for cls using that by (auto simp: token_classes_def)
  have "find (\<lambda>cls. prefix (token_tag cls) (token_tag c @ y)) token_classes = find (\<lambda>cls. cls = c) token_classes"
    by (rule find_cong [OF refl]) (use q assms in \<open>simp add: token_tag_def quoted_def prefix_to_quote\<close>)
  with find_eq_Some [OF assms] show ?thesis by simp
qed

lemma hl_reads_token_open:
  assumes "cls \<in> set token_classes"
  shows "hl_reads 1 (token_tag cls) 2"
proof -
  obtain t where t: "token_tag cls = CHR ''<'' # t" "\<And>y. \<not> prefix ''</span>'' (CHR ''<'' # t @ y)" by (simp add: token_tag_def)
  have "hl_ok 1 (token_tag cls @ y) \<longleftrightarrow> hl_ok 2 y" for y
    using find_token_tag [OF assms, of y] t by (simp add: hl_ok.simps)
  then show ?thesis by (simp add: hl_reads_def)
qed

lemma hl_ok_text: "c \<noteq> CHR ''<'' \<Longrightarrow> 0 < st \<Longrightarrow> hl_ok st (c # r) \<longleftrightarrow> escaped_char c r \<and> hl_ok st r"
  by (simp add: hl_ok.simps token_tag_def token_classes_def)

lemma hl_reads_escaped:
  "0 < st \<Longrightarrow> LF \<notin> set w \<Longrightarrow> hl_reads st (concat (map code_esc w)) st"
proof (induction w)
  case (Cons c w)
  have "hl_reads st (code_esc c) st"
    using Cons.prems by (auto simp: hl_reads_def code_esc_def hl_ok_text escaped_char_def)
  from hl_reads_trans [OF this Cons.IH] Cons.prems show ?case by simp
qed (simp add: hl_reads_nil)

subsection \<open>Numbered lines\<close>

text \<open>What stands in front of line \<open>n\<close>, and a source with that in front of each of its lines.\<close>

definition line_prefix :: "CodeHighlightPalette option \<Rightarrow> nat \<Rightarrow> nat \<Rightarrow> string" where
  "line_prefix pal digits n =
     (case pal of Some p \<Rightarrow> if p_numbers p then fit 48 (line_number digits n) else [] | None \<Rightarrow> [])"

fun with_numbers :: "(nat \<Rightarrow> string) \<Rightarrow> nat \<Rightarrow> string \<Rightarrow> string" where
  "with_numbers f n [] = []"
| "with_numbers f n (c # r) = (if c = LF then LF # f (n + 1) @ with_numbers f (n + 1) r else c # with_numbers f n r)"

definition lf_count :: "string \<Rightarrow> nat" where
  "lf_count s = length (filter (\<lambda>c. c = LF) s)"

lemma with_numbers_append: "with_numbers f n (a @ b) = with_numbers f n a @ with_numbers f (n + lf_count a) b"
  by (induction a arbitrary: n) (simp_all add: lf_count_def)

lemma with_numbers_line: "LF \<notin> set w \<Longrightarrow> with_numbers f n w = w"
  by (induction w) auto

lemma with_numbers_none: "with_numbers (line_prefix None d) n s = s"
  by (induction s arbitrary: n) (simp_all add: line_prefix_def)

definition palette_ok :: "CodeHighlightPalette option \<Rightarrow> bool" where
  "palette_ok pal \<longleftrightarrow>
     (case pal of None \<Rightarrow> True
      | Some p \<Rightarrow> list_all (\<lambda>c. CHR ''>'' \<notin> set c)
          [p_keyword p, p_string p, p_comment p, p_number p, p_variable p, p_tag p, p_line_number p])"

text \<open>A step of the writer from \<open>o0\<close> to \<open>o1\<close> that shows \<open>s\<close>.\<close>

definition emits :: "Out \<Rightarrow> string \<Rightarrow> Out \<Rightarrow> bool" where
  "emits o0 s o1 \<longleftrightarrow>
     o_pal o1 = o_pal o0 \<and> o_digits o1 = o_digits o0 \<and> o_line_no o1 = o_line_no o0 + lf_count s
     \<and> (\<exists>z. o_buf o1 = o_buf o0 @ z \<and> (o_pal o0 = None \<longrightarrow> hl_reads 1 z 1)
            \<and> displays z (with_numbers (line_prefix (o_pal o0) (o_digits o0)) (o_line_no o0) s))"

lemma emits_refl: "emits o0 [] o0"
  by (auto simp: emits_def lf_count_def intro: exI [of _ "[]"] displays_nil hl_reads_nil)

lemma emits_trans:
  assumes "emits o0 s o1" "emits o1 t o2"
  shows "emits o0 (s @ t) o2"
proof -
  let ?f = "line_prefix (o_pal o0) (o_digits o0)"
  obtain z where z: "o_buf o1 = o_buf o0 @ z" "o_pal o0 = None \<longrightarrow> hl_reads 1 z 1" "displays z (with_numbers ?f (o_line_no o0) s)"
    and e: "o_pal o1 = o_pal o0" "o_digits o1 = o_digits o0" "o_line_no o1 = o_line_no o0 + lf_count s"
    using assms(1) by (auto simp: emits_def)
  obtain z' where z': "o_buf o2 = o_buf o1 @ z'" "o_pal o0 = None \<longrightarrow> hl_reads 1 z' 1"
    "displays z' (with_numbers ?f (o_line_no o0 + lf_count s) t)"
    and e': "o_pal o2 = o_pal o0" "o_digits o2 = o_digits o0" "o_line_no o2 = o_line_no o0 + lf_count s + lf_count t"
    using assms(2) e by (auto simp: emits_def)
  have "displays (z @ z') (with_numbers ?f (o_line_no o0) (s @ t))"
    unfolding with_numbers_append by (rule displays_append [OF z(3) z'(3)])
  then show ?thesis
    using z z' e' hl_reads_trans [of 1 z 1 z' 1]
    by (auto simp: emits_def lf_count_def intro!: exI [of _ "z @ z'"])
qed

subsection \<open>The writer shows what it is given\<close>

lemma token_class_chars: "cls \<in> set token_classes \<Longrightarrow> CHR ''>'' \<notin> set cls"
  by (auto simp: token_classes_def)

lemma displays_span: "displays LINE_OPEN []" "displays LINE_CLOSE []" "cls \<in> set token_classes \<Longrightarrow> displays (token_tag cls) []"
  using displays_tag [of "''span class='' @ quoted ''boat-rudder-code-line''"] displays_tag [of "''/span''"]
    displays_tag [of "''span class='' @ quoted (''boat-rudder-code-token--'' @ cls)"] token_class_chars [of cls]
  by (simp_all add: LINE_OPEN_def LINE_CLOSE_def token_tag_def quoted_def)

lemma displays_font: "CHR ''>'' \<notin> set color \<Longrightarrow> displays (font_open color) []"
  using displays_tag [of "''font color='' @ quoted color"] by (simp add: font_open_def quoted_def)

lemma displays_literals:
  "displays ''</span>'' []" "displays ''</font>'' []" "displays ''<b>'' []" "displays ''</b>'' []" "displays ''<i>'' []" "displays ''</i>'' []"
  by (simp_all add: displays_def shown.simps)

lemma palette_color_ok: "palette_ok (Some p) \<Longrightarrow> CHR ''>'' \<notin> set (palette_color p cls)"
  by (simp add: palette_ok_def palette_color_def)

lemma token_open_reads:
  assumes "palette_ok (o_pal o0)" "cls \<in> set token_classes"
  obtains a where "token_open cls o0 = sb_puts a o0" "displays a []" "o_pal o0 = None \<Longrightarrow> hl_reads 1 a 2"
proof (cases "o_pal o0")
  case None
  then show ?thesis using that [of "token_tag cls"] displays_span(3) [OF assms(2)] hl_reads_token_open [OF assms(2)]
    by (simp add: token_open_def token_tag_def)
next
  case (Some p)
  let ?f = "if p_no_color p then [] else font_open (palette_color p cls)"
  and ?g = "if cls = ''kw'' then ''<b>'' else if cls = ''com'' then ''<i>'' else []"
  have "displays ?f []" using displays_font [OF palette_color_ok] assms(1) Some by (simp add: displays_nil)
  moreover have "displays ?g []" by (simp add: displays_nil displays_literals)
  ultimately have "displays (?f @ ?g) []" using displays_append by fastforce
  with that [of "?f @ ?g"] Some show ?thesis by (simp add: token_open_def)
qed

lemma token_close_reads:
  obtains a where "token_close cls o0 = sb_puts a o0" "displays a []" "o_pal o0 = None \<Longrightarrow> hl_reads 2 a 1"
proof (cases "o_pal o0")
  case None
  then show ?thesis using that [of "''</span>''"] displays_literals(1) hl_reads_token_close by (simp add: token_close_def)
next
  case (Some p)
  let ?f = "if p_no_color p then [] else ''</font>''"
  and ?g = "if cls = ''kw'' then ''</b>'' else if cls = ''com'' then ''</i>'' else []"
  have "displays ?g []" "displays ?f []" by (simp_all add: displays_nil displays_literals)
  then have "displays (?g @ ?f) []" using displays_append by fastforce
  with that [of "?g @ ?f"] Some show ?thesis by (simp add: token_close_def)
qed

lemma sb_puts_simps [simp]:
  "o_pal (sb_puts a o0) = o_pal o0" "o_digits (sb_puts a o0) = o_digits o0" "o_line_no (sb_puts a o0) = o_line_no o0"
  "o_buf (sb_puts a o0) = o_buf o0 @ a"
  by (simp_all add: sb_puts_def)

lemma emits_line:
  assumes "LF \<notin> set w" "displays z w" "o_pal o0 = None \<Longrightarrow> hl_reads 1 z 1"
  shows "emits o0 w (sb_puts z o0)"
proof -
  have "lf_count w = 0" using assms(1) by (auto simp: lf_count_def filter_empty_conv)
  with assms show ?thesis by (auto simp: emits_def with_numbers_line)
qed

lemma emit_run_emits:
  assumes "palette_ok (o_pal o0)" "class_ok cls" "LF \<notin> set w"
  shows "emits o0 w (emit_run cls w o0)"
proof -
  let ?e = "concat (map code_esc w)"
  consider "w = []" | "w \<noteq> []" "cls = None" | c where "w \<noteq> []" "cls = Some c" "c \<in> set token_classes"
    using assms(2) by (cases cls) auto
  then show ?thesis
  proof cases
    case 1
    then show ?thesis by (simp add: emit_run_def emits_refl)
  next
    case 2
    then show ?thesis using emits_line [OF assms(3) displays_escaped] hl_reads_escaped [OF _ assms(3), of 1]
      by (simp add: emit_run_def)
  next
    case 3
    obtain a where a: "token_open c o0 = sb_puts a o0" "displays a []" "o_pal o0 = None \<Longrightarrow> hl_reads 1 a 2"
      using token_open_reads [OF assms(1) 3(3)] by blast
    let ?o2 = "sb_puts ?e (sb_puts a o0)"
    obtain b where b: "token_close c ?o2 = sb_puts b ?o2" "displays b []" "o_pal ?o2 = None \<Longrightarrow> hl_reads 2 b 1"
      using token_close_reads by blast
    have "emit_run cls w o0 = sb_puts (a @ ?e @ b) o0" using 3 a(1) b(1) by (simp add: emit_run_def sb_puts_def)
    moreover have "displays (a @ ?e @ b) w" using displays_append [OF a(2) displays_append [OF displays_escaped b(2)]] by simp
    moreover have "hl_reads 1 (a @ ?e @ b) 1" if "o_pal o0 = None"
      using hl_reads_trans [OF a(3) hl_reads_trans [OF hl_reads_escaped [OF _ assms(3), of 2] b(3)]] that by simp
    ultimately show ?thesis using emits_line [OF assms(3)] by simp
  qed
qed

lemma line_number_plain: "list_all (\<lambda>c. c \<noteq> CHR ''<'' \<and> c \<noteq> CHR ''&'') (line_number d n)"
proof -
  have "c \<noteq> CHR ''<'' \<and> c \<noteq> CHR ''&''" if "c \<in> set (show_nat n)" for c
    using show_nat_digits [OF that] by (auto simp: isdigit_def)
  then show ?thesis by (simp add: line_number_def list_all_iff ball_Un set_replicate_conv_if)
qed

lemmas line_prefix_plain = list_all_fit [OF line_number_plain]

lemma line_start_reads:
  assumes "palette_ok (o_pal o0)"
  obtains z where "line_start o0 = sb_puts z (o0\<lparr>o_line_no := o_line_no o0 + 1\<rparr>)"
    "displays z (line_prefix (o_pal o0) (o_digits o0) (o_line_no o0 + 1))" "o_pal o0 = None \<Longrightarrow> hl_reads 0 z 1"
proof (cases "o_pal o0")
  case None
  then show ?thesis using that [of LINE_OPEN] displays_span(1) hl_reads_line(1) by (simp add: line_start_def line_prefix_def Let_def)
next
  case (Some p)
  let ?n = "fit 48 (line_number (o_digits o0) (o_line_no o0 + 1))"
  have n: "displays ?n ?n" by (rule displays_plain [OF line_prefix_plain])
  have c: "displays (font_open (p_line_number p)) []" using assms Some by (simp add: displays_font palette_ok_def)
  have "displays (font_open (p_line_number p) @ ?n @ ''</font>'') ?n"
    using displays_append [OF c displays_append [OF n displays_literals(2)]] by simp
  with n show ?thesis
    using Some that [of "if p_numbers p then if p_no_color p then ?n else font_open (p_line_number p) @ ?n @ ''</font>'' else []"]
    by (simp add: line_start_def line_prefix_def Let_def sb_puts_def displays_nil split: if_splits)
qed

lemma emit_newline_emits:
  assumes "palette_ok (o_pal o0)"
  shows "emits o0 [LF] (emit_newline o0)"
proof -
  let ?e = "if o_pal o0 = None then LINE_CLOSE else []"
  and ?b = "case o_pal o0 of Some pal \<Rightarrow> if p_br_newlines pal then ''<br>'' else [LF] | None \<Rightarrow> [LF]"
  let ?o1 = "sb_puts (?e @ ?b) o0"
  obtain z where z: "line_start ?o1 = sb_puts z (?o1\<lparr>o_line_no := o_line_no o0 + 1\<rparr>)"
    "displays z (line_prefix (o_pal o0) (o_digits o0) (o_line_no o0 + 1))" "o_pal o0 = None \<Longrightarrow> hl_reads 0 z 1"
    using line_start_reads [of ?o1] assms by auto
  have nl: "emit_newline o0 = line_start ?o1" by (simp add: emit_newline_def line_end_def sb_puts_def)
  have lf: "displays [LF] [LF]" by (simp add: displays_plain)
  have "displays ?e []" "displays ?b [LF]" by (simp_all add: displays_span displays_nil displays_br lf split: option.split)
  then have "displays (?e @ ?b @ z) (LF # line_prefix (o_pal o0) (o_digits o0) (o_line_no o0 + 1))"
    using displays_append [OF _ displays_append [OF _ z(2)]] by fastforce
  moreover have "hl_reads 1 (?e @ ?b @ z) 1" if "o_pal o0 = None"
    using hl_reads_trans [OF hl_reads_line(2) hl_reads_trans [OF hl_reads_line(3) z(3) [OF that]]] that by simp
  ultimately show ?thesis
    unfolding nl z(1) emits_def by (auto simp: lf_count_def intro!: exI [of _ "?e @ ?b @ z"])
qed

lemma emit_emits:
  assumes "class_ok cls"
  shows "palette_ok (o_pal o0) \<Longrightarrow> emits o0 s (emit cls s o0)"
  using assms
proof (induction cls s o0 rule: emit.induct)
  case (1 cls s o0)
  let ?w = "takeWhile (\<lambda>c. c \<noteq> LF) s"
  let ?rest = "drop (length ?w) s" and ?o1 = "emit_run cls ?w o0"
  have rest: "?rest = dropWhile (\<lambda>c. c \<noteq> LF) s" by (simp add: dropWhile_eq_drop)
  have w: "emits o0 ?w ?o1" using 1(2,3) by (intro emit_run_emits) (auto dest: set_takeWhileD)
  show ?case
  proof (cases "?rest = []")
    case True
    then have "?w = s" using rest by (metis append_Nil2 takeWhile_dropWhile_id)
    with w True show ?thesis by (subst emit.simps) (simp only: Let_def if_True drop_all order_refl)
  next
    case False
    have p1: "palette_ok (o_pal ?o1)" using w 1(2) by (simp add: emits_def)
    note n = emit_newline_emits [OF p1]
    have p2: "palette_ok (o_pal (emit_newline ?o1))" using n p1 by (simp add: emits_def)
    have "hd ?rest = LF" unfolding rest using hd_dropWhile [of "\<lambda>c. c \<noteq> LF" s] False rest by simp
    then have s: "s = ?w @ [LF] @ tl ?rest" using False by (metis append_Cons append_Nil append_take_drop_id list.collapse length_takeWhile_le takeWhile_eq_take)
    have "emits o0 (?w @ [LF] @ tl ?rest) (emit cls (tl ?rest) (emit_newline ?o1))"
      using emits_trans [OF w emits_trans [OF n 1(1) [OF refl refl refl False p2 1(3)]]] .
    with False s show ?thesis by (subst emit.simps) (simp add: Let_def)
  qed
qed

lemma emit_pending_emits: "palette_ok (o_pal o0) \<Longrightarrow> emits o0 plain (if plain \<noteq> [] then emit None plain o0 else o0)"
  using emit_emits [of None o0 plain] by (simp add: emits_refl)

lemma emit_tokens_emits:
  "palette_ok (o_pal o0) \<Longrightarrow> list_all (\<lambda>t. class_ok (snd t)) ts \<Longrightarrow>
   emits o0 (plain @ concat (map fst ts)) (emit_tokens plain ts o0)"
proof (induction plain ts o0 rule: emit_tokens.induct)
  case (1 plain o0)
  then show ?case using emit_pending_emits [of o0 plain] by simp
next
  case (2 plain w ts o0)
  then show ?case by simp
next
  case (3 plain w c ts o0)
  let ?o1 = "if plain \<noteq> [] then emit None plain o0 else o0"
  let ?o2 = "emit (Some c) w ?o1"
  note a = emit_pending_emits [OF 3(2), of plain]
  then have p: "palette_ok (o_pal ?o1)" using 3(2) by (simp add: emits_def)
  have b: "emits ?o1 w ?o2" using 3(3) by (intro emit_emits p) simp
  then have "palette_ok (o_pal ?o2)" using p by (simp add: emits_def)
  from 3(1) [OF this] 3(3) have "emits ?o2 (concat (map fst ts)) (emit_tokens [] ts ?o2)" by simp
  from emits_trans [OF a emits_trans [OF b this]] show ?case by simp
qed

lemma lang_scan:
  assumes "find_lang lang = Some L"
  shows "\<exists>ts. scan (code_step L) 0 [] src = Some ts \<and> concat (map fst ts) = src \<and> list_all (\<lambda>t. class_ok (snd t)) ts"
proof -
  have "L \<in> set LANGS" using assms by (auto simp: find_lang_def find_Some_iff split: option.splits if_splits)
  then have "lang_ok L" using LANGS_ok by (simp add: list_all_iff)
  from scanner.scan_complete [OF code_scanner [OF this]] show ?thesis .
qed

lemma highlight_shows:
  assumes "palette_ok pal" "src = code_source code" "d = digit_count (1 + lf_count src)"
  shows "\<exists>html. highlight code lang pal = Some html \<and> (pal = None \<longrightarrow> hl_ok 0 html)
     \<and> shown html = line_prefix pal d 1 @ with_numbers (line_prefix pal d) 1 src"
proof -
  define o0 where "o0 = \<lparr>o_buf = [], o_pal = pal, o_line_no = 0, o_digits = d\<rparr>"
  obtain z where z: "line_start o0 = sb_puts z (o0\<lparr>o_line_no := o_line_no o0 + 1\<rparr>)"
    "displays z (line_prefix pal d 1)" "pal = None \<Longrightarrow> hl_reads 0 z 1"
    using line_start_reads [of o0] assms(1) by (auto simp: o0_def)
  define o1 where "o1 = line_start o0"
  have o1: "o_buf o1 = z" "o_pal o1 = pal" "o_line_no o1 = 1" "o_digits o1 = d" using z(1) by (simp_all add: o1_def o0_def)
  obtain ts where ts: "scan html_step () [] src = Some ts" "concat (map fst ts) = src" "list_all (\<lambda>t. class_ok (snd t)) ts"
    using html.scan_complete by blast
  obtain o2 where o2: "highlight code lang pal = Some (o_buf (line_end o2))" "emits o1 src o2"
  proof (cases "find_lang lang")
    case None
    then show ?thesis using that [of "emit None src o1"] emit_emits [of None o1 src] assms o1(2)
      by (simp add: highlight_def lf_count_def o1_def o0_def Let_def)
  next
    case (Some L)
    obtain us where us: "scan (code_step L) 0 [] src = Some us" "concat (map fst us) = src" "list_all (\<lambda>t. class_ok (snd t)) us"
      using lang_scan [OF Some] by blast
    show ?thesis
      using that [of "emit_tokens [] (if l_html L then ts else us) o1"] ts us Some assms o1(2)
        emit_tokens_emits [of o1 ts "[]"] emit_tokens_emits [of o1 us "[]"]
      by (simp add: highlight_def lf_count_def o1_def o0_def Let_def split: if_splits)
  qed
  obtain y where y: "o_buf o2 = z @ y" "pal = None \<longrightarrow> hl_reads 1 y 1" "displays y (with_numbers (line_prefix pal d) 1 src)"
    using o2(2) o1 by (auto simp: emits_def)
  let ?c = "if pal = None then LINE_CLOSE else []"
  have p2: "o_pal o2 = pal" using o2(2) o1 by (simp add: emits_def)
  have html: "o_buf (line_end o2) = z @ y @ ?c" using p2 y(1) by (simp add: line_end_def)
  have "displays ?c []" by (simp add: displays_span displays_nil)
  from displays_shown [OF displays_append [OF z(2) displays_append [OF y(3) this]]]
  have "shown (z @ y @ ?c) = line_prefix pal d 1 @ with_numbers (line_prefix pal d) 1 src" by simp
  moreover have "pal = None \<longrightarrow> hl_ok 0 (z @ y @ ?c)"
    using hl_reads_ok [OF hl_reads_trans [OF z(3) hl_reads_trans [OF _ hl_reads_line(2)]], of y] y(2) by simp
  ultimately show ?thesis using o2(1) html by auto
qed

subsection \<open>Properties\<close>

text \<open>
  C17. Highlighting for current browsers always gives its markup. The markup is lines in spans of
  their own with line feeds between them, with escaped text and tokens of the nine classes in
  them that do not nest; what a browser shows of it is the source without carriage returns and
  trailing line feeds, byte for byte, in every language.
\<close>

theorem code_highlight_html_faithful:
  "\<exists>html. code_highlight_html code lang = Some html \<and> hl_ok 0 html \<and> shown html = code_source code"
  using highlight_shows [of None "code_source code" code _ lang]
  by (simp add: code_highlight_html_def palette_ok_def with_numbers_none) (simp add: line_prefix_def)

text \<open>
  Highlighting with font tags always gives its markup, and what an old browser displays of it is
  the source with the number of the line in front of each line when the palette asks for
  numbers, and the source alone when it does not.
\<close>

theorem code_highlight_html_fonts_faithful:
  assumes "palette_ok palette"
  shows "\<exists>html. code_highlight_html_fonts code lang palette = Some html
     \<and> shown html = (let d = digit_count (1 + lf_count (code_source code))
                     in line_prefix palette d 1 @ with_numbers (line_prefix palette d) 1 (code_source code))"
  using highlight_shows [OF assms refl refl, of code lang]
  by (auto simp: code_highlight_html_fonts_def Let_def)

definition example_palette :: CodeHighlightPalette where
  "example_palette =
     \<lparr>p_keyword = ''#000080'', p_string = ''#008000'', p_comment = ''#808080'', p_number = ''#800000'', p_variable = ''#008080'',
      p_tag = ''#800080'', p_line_number = ''#808080'', p_numbers = True, p_no_color = False, p_br_newlines = True\<rparr>"

theorem code_highlight_html_fonts_faithful_witness:
  "palette_ok (Some example_palette)
   \<and> (\<exists>html. code_highlight_html_fonts (Some ''if'') (Some ''c'') (Some example_palette) = Some html
        \<and> shown html = ''1 | if'')"
proof -
  have p: "palette_ok (Some example_palette)" by (simp add: palette_ok_def example_palette_def)
  have one: "chr 49 = CHR ''1''" by (rule ord_inject [THEN iffD1], simp)
  have "let d = digit_count (1 + lf_count (code_source (Some ''if'')))
        in line_prefix (Some example_palette) d 1 @ with_numbers (line_prefix (Some example_palette) d) 1 (code_source (Some ''if''))
           = ''1 | if''"
    by (simp add: code_source_def lf_count_def line_prefix_def example_palette_def line_number_def digit_count.simps
        show_nat.simps fit_def Let_def one)
  with code_highlight_html_fonts_faithful [OF p, of "Some ''if''" "Some ''c''"] p show ?thesis by (simp add: Let_def)
qed

end
