(* ===== verification/Css_Compat.thy ===== *)
theory Css_Compat
  imports Detect_Epoch
begin

text \<open>
  The check of a stylesheet against the browser detection rules (src/src/utils/css_compat.c):
  the features a stylesheet uses, and for each of them the engines whose last version without it
  is still served the page. The rules are those of \<open>Detect_Epoch\<close>.
\<close>

subsection \<open>Features\<close>

datatype MatchKind = MATCH_TEXT | MATCH_PROPERTY | MATCH_UNIT | MATCH_WORD | MATCH_NESTING

record CssFeature =
  f_feature :: string
  f_kind :: MatchKind
  f_needle :: "string list"
  f_chrome :: string
  f_firefox :: string
  f_safari :: string

definition css_feature :: "string \<Rightarrow> MatchKind \<Rightarrow> string list \<Rightarrow> string \<Rightarrow> string \<Rightarrow> string \<Rightarrow> CssFeature" where
  "css_feature f k ns c x s = \<lparr>f_feature = f, f_kind = k, f_needle = ns, f_chrome = c, f_firefox = x, f_safari = s\<rparr>"

definition FEATURES :: "CssFeature list" where
  "FEATURES =
     [css_feature ''custom properties (var())'' MATCH_TEXT [''var(--''] ''49'' ''31'' ''10'',
      css_feature ''display: grid'' MATCH_TEXT [''display:grid'', ''display: grid''] ''57'' ''52'' ''10.1'',
      css_feature '':focus-within'' MATCH_TEXT ['':focus-within''] ''60'' ''52'' ''10.1'',
      css_feature ''clamp()'' MATCH_TEXT [''clamp(''] ''79'' ''75'' ''13.1'',
      css_feature ''@property'' MATCH_TEXT [''@property''] ''85'' ''128'' ''16.4'',
      css_feature '':focus-visible'' MATCH_TEXT ['':focus-visible''] ''86'' ''85'' ''15.4'',
      css_feature ''inset'' MATCH_PROPERTY [''inset''] ''87'' ''66'' ''14.1'',
      css_feature ''aspect-ratio'' MATCH_PROPERTY [''aspect-ratio''] ''88'' ''89'' ''15'',
      css_feature '':is() / :where()'' MATCH_TEXT ['':is('', '':where(''] ''88'' ''78'' ''14'',
      css_feature ''accent-color'' MATCH_PROPERTY [''accent-color''] ''93'' ''92'' ''15.4'',
      css_feature ''@layer'' MATCH_TEXT [''@layer''] ''99'' ''97'' ''15.4'',
      css_feature ''translate / rotate / scale properties'' MATCH_PROPERTY [''translate'', ''rotate'', ''scale''] ''104'' ''72'' ''14.1'',
      css_feature '':has()'' MATCH_TEXT ['':has(''] ''105'' ''121'' ''15.4'',
      css_feature ''container queries'' MATCH_TEXT [''@container'', ''container-type:'', ''container-type :''] ''105'' ''110'' ''16'',
      css_feature ''viewport units dvh / svh / lvh'' MATCH_UNIT [''dvh'', ''svh'', ''lvh''] ''108'' ''101'' ''15.4'',
      css_feature ''color-mix()'' MATCH_TEXT [''color-mix(''] ''111'' ''113'' ''16.2'',
      css_feature ''oklch() / oklab()'' MATCH_TEXT [''oklch('', ''oklab(''] ''111'' ''113'' ''15.4'',
      css_feature ''text-wrap'' MATCH_PROPERTY [''text-wrap''] ''114'' ''121'' ''17.5'',
      css_feature ''subgrid'' MATCH_WORD [''subgrid''] ''117'' ''71'' ''16'',
      css_feature ''CSS nesting (&)'' MATCH_NESTING [''&''] ''120'' ''117'' ''17.2'',
      css_feature ''light-dark()'' MATCH_TEXT [''light-dark(''] ''123'' ''120'' ''17.5'']"

subsection \<open>The text of a stylesheet\<close>

fun skip_quoted :: "char \<Rightarrow> string \<Rightarrow> string" where
  "skip_quoted q [] = []"
| "skip_quoted q (x # r) =
     (if x = q then r else if x = BSL \<and> r \<noteq> [] then skip_quoted q (tl r) else skip_quoted q r)"

lemma skip_quoted_length: "length (skip_quoted q s) \<le> length s"
proof (induction q s rule: skip_quoted.induct)
  case (2 q x r)
  then show ?case by (cases r) auto
qed simp

text \<open>What follows a comment whose first two bytes are gone.\<close>

definition skip_comment :: "string \<Rightarrow> string" where
  "skip_comment s = (case strstr s ''*/'' of Some k \<Rightarrow> drop (k + 2) s | None \<Rightarrow> [])"

definition skip_url :: "string \<Rightarrow> string" where
  "skip_url s = (case strchr s (CHR '')'') of Some k \<Rightarrow> drop (k + 1) s | None \<Rightarrow> [])"

lemma skip_comment_length: "length (skip_comment s) \<le> length s"
  by (simp add: skip_comment_def split: option.split)

function strip :: "string \<Rightarrow> string" where
  "strip [] = []"
| "strip (c # r) =
     (if c = CHR ''/'' \<and> prefix ''*'' r then CHR '' '' # strip (skip_comment (tl r))
      else if c = DQ \<or> c = SQ then CHR '' '' # strip (skip_quoted c r)
      else if prefix_ci ''url('' (c # r) then CHR '' '' # strip (skip_url (c # r))
      else tolower c # strip r)"
  by pat_completeness auto
termination
proof (relation "measure length")
  fix c :: char and r :: string
  show "(skip_comment (tl r), c # r) \<in> measure length" using skip_comment_length [of "tl r"] by (cases r) auto
  show "(skip_quoted c r, c # r) \<in> measure length" using skip_quoted_length [of c r] by simp
  show "(skip_url (c # r), c # r) \<in> measure length" by (auto simp: skip_url_def split: option.split)
qed auto

declare strip.simps [simp del]

definition is_ident_char :: "char \<Rightarrow> bool" where
  "is_ident_char c \<longleftrightarrow> isalnum c \<or> c = CHR ''-'' \<or> c = CHR ''_''"

definition ident_at :: "string \<Rightarrow> bool" where
  "ident_at s \<longleftrightarrow> s \<noteq> [] \<and> is_ident_char (hd s)"

definition css_blank :: "char \<Rightarrow> bool" where
  "css_blank c \<longleftrightarrow> c = CHR '' '' \<or> c = TAB \<or> c = LF \<or> c = CR"

text \<open>
  The loops that look at every occurrence of a name: \<open>before\<close> is the text in front of the
  position, \<open>s\<close> the text from it on; the test is given what stands before and after the name.
\<close>

function occurrence :: "(string \<Rightarrow> string \<Rightarrow> bool) \<Rightarrow> string \<Rightarrow> string \<Rightarrow> string \<Rightarrow> bool" where
  "occurrence test before s name =
     (case strstr s name of
        None \<Rightarrow> False
      | Some i \<Rightarrow>
          if test (before @ take i s) (drop (i + length name) s) then True
          else if s = [] then False
          else occurrence test (before @ take (i + 1) s) (drop (i + 1) s) name)"
  by pat_completeness auto
termination
  by (relation "measure (\<lambda>(test, before, s, name). length s)") auto

declare occurrence.simps [simp del]

definition property_at :: "string \<Rightarrow> string \<Rightarrow> bool" where
  "property_at before after \<longleftrightarrow>
     \<not> ident_at after
     \<and> (let a = dropWhile css_blank after in a \<noteq> [] \<and> hd a = CHR '':'')
     \<and> (let b = dropWhile css_blank (rev before) in b = [] \<or> hd b = CHR ''{'' \<or> hd b = CHR '';'')"

definition has_property :: "string \<Rightarrow> string \<Rightarrow> bool" where
  "has_property t name \<longleftrightarrow> occurrence property_at [] t name"

definition word_at :: "string \<Rightarrow> string \<Rightarrow> bool" where
  "word_at before after \<longleftrightarrow> (before = [] \<or> \<not> is_ident_char (last before)) \<and> \<not> ident_at after"

definition has_word :: "string \<Rightarrow> string \<Rightarrow> bool" where
  "has_word t word \<longleftrightarrow> occurrence word_at [] t word"

definition unit_at :: "string \<Rightarrow> string \<Rightarrow> bool" where
  "unit_at before after \<longleftrightarrow> before \<noteq> [] \<and> isdigit (last before) \<and> \<not> ident_at after"

definition has_unit :: "string \<Rightarrow> string \<Rightarrow> bool" where
  "has_unit t u \<longleftrightarrow> occurrence unit_at [] t u"

definition uses :: "string \<Rightarrow> CssFeature \<Rightarrow> bool" where
  "uses t f \<longleftrightarrow>
     list_ex (\<lambda>n. case f_kind f of
                MATCH_TEXT \<Rightarrow> contains t n
              | MATCH_NESTING \<Rightarrow> contains t n
              | MATCH_PROPERTY \<Rightarrow> has_property t n
              | MATCH_UNIT \<Rightarrow> has_unit t n
              | MATCH_WORD \<Rightarrow> has_word t n) (f_needle f)"

subsection \<open>The version before\<close>

definition previous_version :: "string \<Rightarrow> (int \<times> int) option" where
  "previous_version first =
     (let (ma, e) = strtol10 first;
          mi = (if e \<noteq> [] \<and> hd e = CHR ''.'' then fst (strtol10 (tl e)) else 0)
      in if mi > 0 then Some (ma, mi - 1)
         else if ma > 1 then Some (ma - 1, 9)
         else None)"

definition engine_version :: "string \<Rightarrow> int \<times> int \<Rightarrow> string" where
  "engine_version name v =
     fit 16 (if name = ''Chrome'' \<or> name = ''Firefox'' then show_int (fst v)
             else show_int (fst v) @ ''.'' @ show_int (snd v))"

definition engine_ua :: "string \<Rightarrow> int \<times> int \<Rightarrow> string" where
  "engine_ua name v =
     (let major = show_int (fst v); minor = show_int (snd v)
      in fit 256
        (if name = ''Chrome'' then
           ''Mozilla/5.0 (Windows NT 10.0; Win64; x64) AppleWebKit/537.36 (KHTML, like Gecko) Chrome/'' @ major @ ''.0.0.0 Safari/537.36''
         else if name = ''Firefox'' then
           ''Mozilla/5.0 (X11; Linux x86_64; rv:'' @ major @ ''.0) Gecko/20100101 Firefox/'' @ major @ ''.0''
         else if name = ''Safari'' then
           ''Mozilla/5.0 (Macintosh; Intel Mac OS X 10_15_7) AppleWebKit/605.1.15 (KHTML, like Gecko) Version/'' @ major @ ''.'' @ minor
           @ '' Safari/605.1.15''
         else
           ''Mozilla/5.0 (iPhone; CPU iPhone OS '' @ major @ ''_'' @ minor @ '' like Mac OS X) AppleWebKit/605.1.15 (KHTML, like Gecko) Version/''
           @ major @ ''.'' @ minor @ '' Mobile/15E148 Safari/604.1''))"

definition STILL_SERVED_SIZE :: nat where
  "STILL_SERVED_SIZE = 96"

definition check_engine :: "BrowserDetection \<Rightarrow> bool \<Rightarrow> string \<Rightarrow> string \<Rightarrow> string \<Rightarrow> string" where
  "check_engine d dashboard name first served =
     (case previous_version first of
        None \<Rightarrow> served
      | Some v \<Rightarrow>
          (let m = browser_detection_classify d (Some (engine_ua name v));
               served_page = (if dashboard then match_epoch m = EPOCH_MODERN \<and> match_dashboard m else match_epoch m = EPOCH_MODERN)
           in if \<not> served_page then served
              else served @ fit (STILL_SERVED_SIZE - length served)
                     ((if served \<noteq> [] then '', '' else []) @ name @ '' '' @ engine_version name v)))"

record CssCompatWarning =
  w_feature :: string
  w_needs :: string
  w_still_served :: string

definition still_served :: "BrowserDetection \<Rightarrow> bool \<Rightarrow> CssFeature \<Rightarrow> string" where
  "still_served d dashboard f =
     check_engine d dashboard ''iOS'' (f_safari f)
       (check_engine d dashboard ''Safari'' (f_safari f)
         (check_engine d dashboard ''Firefox'' (f_firefox f)
           (check_engine d dashboard ''Chrome'' (f_chrome f) [])))"

fun check_features :: "string \<Rightarrow> BrowserDetection \<Rightarrow> bool \<Rightarrow> nat \<Rightarrow> CssFeature list \<Rightarrow> CssCompatWarning list" where
  "check_features t d dashboard room [] = []"
| "check_features t d dashboard room (f # fs) =
     (if room = 0 then []
      else if \<not> uses t f \<or> still_served d dashboard f = [] then check_features t d dashboard room fs
      else \<lparr>w_feature = f_feature f,
            w_needs = fit 64 (''Chrome '' @ f_chrome f @ '', Firefox '' @ f_firefox f @ '', Safari '' @ f_safari f),
            w_still_served = still_served d dashboard f\<rparr> # check_features t d dashboard (room - 1) fs)"

definition css_compat_check :: "string option \<Rightarrow> BrowserDetection option \<Rightarrow> bool \<Rightarrow> nat \<Rightarrow> CssCompatWarning list" where
  "css_compat_check css d dashboard limit =
     (case (css, d) of
        (Some s, Some r) \<Rightarrow> if limit = 0 then [] else check_features (strip s) r dashboard limit FEATURES
      | _ \<Rightarrow> [])"

subsection \<open>Occurrences\<close>

lemma occurrence_iff:
  "name \<noteq> [] \<Longrightarrow> occurrence test before s name \<longleftrightarrow> (\<exists>a b. s = a @ name @ b \<and> test (before @ a) b)"
proof (induction test before s name rule: occurrence.induct)
  case (1 test before s name)
  show ?case
  proof (cases "strstr s name")
    case None
    then have "\<not> contains s name" by (simp add: contains_def)
    then show ?thesis using None by (subst occurrence.simps) (simp add: contains_iff)
  next
    case (Some i)
    obtain b0 where b0: "s = take i s @ name @ b0" "drop (i + length name) s = b0"
      using strstr_Some_prefix [OF Some] by (metis add.commute append_eq_conv_conj append_take_drop_id drop_drop prefix_def)
    have s: "s \<noteq> []" using b0(1) "1.prems" by auto
    have later: "(\<exists>a b. drop (i + 1) s = a @ name @ b \<and> test ((before @ take (i + 1) s) @ a) b)
        \<longleftrightarrow> (\<exists>a b. s = a @ name @ b \<and> i < length a \<and> test (before @ a) b)" (is "?l \<longleftrightarrow> ?r")
    proof
      assume ?l
      then obtain a b where ab: "drop (i + 1) s = a @ name @ b" "test ((before @ take (i + 1) s) @ a) b" by blast
      have len: "i + 1 \<le> length s" using strstr_length [OF Some] "1.prems" by (cases name) auto
      have "s = (take (i + 1) s @ a) @ name @ b" using ab(1) by (metis append.assoc append_take_drop_id)
      with ab(2) len show ?r by (intro exI [of _ "take (i + 1) s @ a"] exI [of _ b]) simp
    next
      assume ?r
      then obtain a b where ab: "s = a @ name @ b" "i < length a" "test (before @ a) b" by blast
      have "(before @ take (i + 1) s) @ drop (i + 1) a = before @ a" using ab(1,2) by (simp add: Suc_le_eq)
      moreover have "drop (i + 1) s = drop (i + 1) a @ name @ b" using ab(1,2) by (simp add: Suc_le_eq)
      ultimately show ?l using ab(3) by metis
    qed
    have first: "length a = i \<longrightarrow> a = take i s \<and> b = b0" "i \<le> length a" if "s = a @ name @ b" for a b
    proof -
      show "length a = i \<longrightarrow> a = take i s \<and> b = b0" using that b0(2) by auto
      show "i \<le> length a" using strstr_least [OF Some, of "length a"] that by (metis append_eq_conv_conj not_le prefixI)
    qed
    show ?thesis
    proof (cases "test (before @ take i s) b0")
      case True
      then show ?thesis using Some b0 by (subst occurrence.simps) auto
    next
      case False
      have "occurrence test before s name \<longleftrightarrow> (\<exists>a b. s = a @ name @ b \<and> i < length a \<and> test (before @ a) b)"
        using "1.IH" [OF Some _ s "1.prems"] False Some b0 s later by (subst occurrence.simps) simp
      also have "\<dots> \<longleftrightarrow> (\<exists>a b. s = a @ name @ b \<and> test (before @ a) b)"
        using first False by (metis le_neq_implies_less)
      finally show ?thesis .
    qed
  qed
qed

definition blanks :: "string \<Rightarrow> bool" where
  "blanks s \<longleftrightarrow> list_all css_blank s"

lemma blank_not_ident: "css_blank c \<or> c = CHR '':'' \<Longrightarrow> \<not> is_ident_char c"
  by (auto simp: css_blank_def is_ident_char_def ctype_defs)

lemma colon_after:
  "\<not> ident_at after \<and> (let a = dropWhile css_blank after in a \<noteq> [] \<and> hd a = CHR '':'')
   \<longleftrightarrow> (\<exists>v b. after = v @ CHR '':'' # b \<and> blanks v)"
proof
  assume l: "\<not> ident_at after \<and> (let a = dropWhile css_blank after in a \<noteq> [] \<and> hd a = CHR '':'')"
  then have "after = takeWhile css_blank after @ CHR '':'' # tl (dropWhile css_blank after)"
    by (metis list.collapse takeWhile_dropWhile_id)
  moreover have "blanks (takeWhile css_blank after)" by (auto simp: blanks_def list_all_iff dest: set_takeWhileD)
  ultimately show "\<exists>v b. after = v @ CHR '':'' # b \<and> blanks v" by blast
next
  assume "\<exists>v b. after = v @ CHR '':'' # b \<and> blanks v"
  then obtain v b where v: "after = v @ CHR '':'' # b" "list_all css_blank v" by (auto simp: blanks_def)
  have "\<not> css_blank (CHR '':'')" by (simp add: css_blank_def)
  then have "dropWhile css_blank after = CHR '':'' # b" using v by (simp add: list_all_iff dropWhile_append2)
  moreover have "\<not> ident_at after" using v blank_not_ident by (cases v) (auto simp: ident_at_def)
  ultimately show "\<not> ident_at after \<and> (let a = dropWhile css_blank after in a \<noteq> [] \<and> hd a = CHR '':'')" by simp
qed

lemma block_before:
  "(let b = dropWhile css_blank (rev before) in b = [] \<or> hd b = CHR ''{'' \<or> hd b = CHR '';'')
   \<longleftrightarrow> (\<exists>a u. before = a @ u \<and> blanks u \<and> (a = [] \<or> last a = CHR ''{'' \<or> last a = CHR '';''))"
proof
  assume l: "let b = dropWhile css_blank (rev before) in b = [] \<or> hd b = CHR ''{'' \<or> hd b = CHR '';''"
  let ?a = "rev (dropWhile css_blank (rev before))" and ?u = "rev (takeWhile css_blank (rev before))"
  have "before = ?a @ ?u" by (metis rev_append rev_rev_ident takeWhile_dropWhile_id)
  moreover have "blanks ?u" by (auto simp: blanks_def list_all_iff dest: set_takeWhileD)
  moreover have "?a = [] \<or> last ?a = CHR ''{'' \<or> last ?a = CHR '';''" using l by (simp add: Let_def last_rev)
  ultimately show "\<exists>a u. before = a @ u \<and> blanks u \<and> (a = [] \<or> last a = CHR ''{'' \<or> last a = CHR '';'')" by blast
next
  assume "\<exists>a u. before = a @ u \<and> blanks u \<and> (a = [] \<or> last a = CHR ''{'' \<or> last a = CHR '';'')"
  then obtain a u where a: "before = a @ u" "list_all css_blank u" "a = [] \<or> last a = CHR ''{'' \<or> last a = CHR '';''"
    by (auto simp: blanks_def)
  have "\<And>x. x \<in> set (rev u) \<Longrightarrow> css_blank x" using a(2) by (simp add: list_all_iff)
  from dropWhile_append2 [of "rev u" css_blank "rev a", OF this]
  have d: "dropWhile css_blank (rev before) = dropWhile css_blank (rev a)" by (simp add: a(1))
  show "let b = dropWhile css_blank (rev before) in b = [] \<or> hd b = CHR ''{'' \<or> hd b = CHR '';''"
    using a(3) unfolding d by (cases a rule: rev_cases) (auto simp: css_blank_def Let_def)
qed

subsection \<open>The engines still served\<close>

fun comma_join :: "string list \<Rightarrow> string" where
  "comma_join [] = []"
| "comma_join [w] = w"
| "comma_join (w # ws) = w @ '', '' @ comma_join ws"

definition engine_served :: "BrowserDetection \<Rightarrow> bool \<Rightarrow> string \<times> string \<Rightarrow> bool" where
  "engine_served d dashboard e =
     (case previous_version (snd e) of
        None \<Rightarrow> False
      | Some v \<Rightarrow>
          (let m = browser_detection_classify d (Some (engine_ua (fst e) v))
           in match_epoch m = EPOCH_MODERN \<and> (dashboard \<longrightarrow> match_dashboard m)))"

definition engine_text :: "string \<times> string \<Rightarrow> string" where
  "engine_text e = fst e @ '' '' @ (case previous_version (snd e) of Some v \<Rightarrow> engine_version (fst e) v | None \<Rightarrow> [])"

definition engines :: "CssFeature \<Rightarrow> (string \<times> string) list" where
  "engines f = [(''Chrome'', f_chrome f), (''Firefox'', f_firefox f), (''Safari'', f_safari f), (''iOS'', f_safari f)]"

definition served_engines :: "BrowserDetection \<Rightarrow> bool \<Rightarrow> CssFeature \<Rightarrow> string list" where
  "served_engines d dashboard f = map engine_text (filter (engine_served d dashboard) (engines f))"

lemma engine_text_length: "length (engine_text e) \<le> length (fst e) + 16"
proof -
  have "length (engine_version n v) < 16" for n v unfolding engine_version_def by (rule fit_length) simp
  then show ?thesis by (auto simp: engine_text_def less_Suc_eq_le [symmetric] split: option.split)
qed

lemma check_engine_room:
  assumes "length served + length name + 18 < STILL_SERVED_SIZE"
  shows "check_engine d dashboard name first served =
     (if engine_served d dashboard (name, first)
      then (if served \<noteq> [] then served @ '', '' else []) @ engine_text (name, first) else served)"
proof (cases "previous_version first")
  case None
  then show ?thesis by (simp add: check_engine_def engine_served_def)
next
  case (Some v)
  let ?t = "(if served \<noteq> [] then '', '' else []) @ name @ '' '' @ engine_version name v"
  have "length (engine_version name v) < 16" unfolding engine_version_def by (rule fit_length) simp
  then have "fit (STILL_SERVED_SIZE - length served) ?t = ?t"
    using assms by (intro fit_id) (auto simp: less_diff_conv)
  then show ?thesis
    using Some by (simp add: check_engine_def engine_served_def engine_text_def Let_def split: if_split)
qed

lemma still_served_join: "still_served d dashboard f = comma_join (served_engines d dashboard f)"
proof -
  let ?s = "engine_served d dashboard" and ?c = "check_engine d dashboard"
  let ?a = "(''Chrome'', f_chrome f)" and ?b = "(''Firefox'', f_firefox f)" and ?s1 = "(''Safari'', f_safari f)"
  define s1 where "s1 = ?c ''Chrome'' (f_chrome f) []"
  define s2 where "s2 = ?c ''Firefox'' (f_firefox f) s1"
  define s3 where "s3 = ?c ''Safari'' (f_safari f) s2"
  have s1: "s1 = (if ?s ?a then engine_text ?a else [])"
    unfolding s1_def by (subst check_engine_room) (simp_all add: STILL_SERVED_SIZE_def)
  then have l1: "length s1 \<le> 22" using engine_text_length [of ?a] by simp
  then have s2: "s2 = (if ?s ?b then (if s1 \<noteq> [] then s1 @ '', '' else []) @ engine_text ?b else s1)"
    unfolding s2_def by (subst check_engine_room) (simp_all add: STILL_SERVED_SIZE_def)
  then have l2: "length s2 \<le> 47" using engine_text_length [of ?b] l1 by simp
  then have s3: "s3 = (if ?s ?s1 then (if s2 \<noteq> [] then s2 @ '', '' else []) @ engine_text ?s1 else s2)"
    unfolding s3_def by (subst check_engine_room) (simp_all add: STILL_SERVED_SIZE_def)
  then have l3: "length s3 \<le> 71" using engine_text_length [of ?s1] l2 by simp
  have ne: "engine_text (n, v) \<noteq> []" if "n \<noteq> []" for n v using that by (simp add: engine_text_def)
  have "still_served d dashboard f = ?c ''iOS'' (f_safari f) s3" by (simp add: still_served_def s1_def s2_def s3_def)
  also have "\<dots> = comma_join (served_engines d dashboard f)"
    using l3 by (subst check_engine_room) (simp_all add: STILL_SERVED_SIZE_def served_engines_def engines_def s1 s2 s3 ne)
  finally show ?thesis .
qed

lemma comma_join_empty: "comma_join (served_engines d dashboard f) = [] \<longleftrightarrow> served_engines d dashboard f = []"
  by (simp add: served_engines_def engines_def engine_text_def)

subsection \<open>Properties\<close>

text \<open>
  A name counts as a declared property exactly when the text has it after the start, a brace
  or a semicolon and before a colon, with only blanks in between.
\<close>

theorem has_property_spec:
  assumes "name \<noteq> []"
  shows "has_property t name \<longleftrightarrow>
     (\<exists>a u v b. t = a @ u @ name @ v @ CHR '':'' # b \<and> blanks u \<and> blanks v
        \<and> (a = [] \<or> last a = CHR ''{'' \<or> last a = CHR '';''))"
proof -
  have "property_at before after \<longleftrightarrow>
      (\<exists>v b. after = v @ CHR '':'' # b \<and> blanks v)
      \<and> (\<exists>a u. before = a @ u \<and> blanks u \<and> (a = [] \<or> last a = CHR ''{'' \<or> last a = CHR '';''))" for before after
    using colon_after [of after] block_before [of before] by (auto simp: property_at_def)
  then have "has_property t name \<longleftrightarrow> (\<exists>x y. t = x @ name @ y \<and> (\<exists>v b. y = v @ CHR '':'' # b \<and> blanks v)
      \<and> (\<exists>a u. x = a @ u \<and> blanks u \<and> (a = [] \<or> last a = CHR ''{'' \<or> last a = CHR '';'')))"
    unfolding has_property_def occurrence_iff [OF assms] by (simp only: append_Nil)
  also have "\<dots> \<longleftrightarrow> (\<exists>x y a u v b. t = x @ name @ y \<and> y = v @ CHR '':'' # b \<and> blanks v \<and> x = a @ u \<and> blanks u
      \<and> (a = [] \<or> last a = CHR ''{'' \<or> last a = CHR '';''))"
    by blast
  also have "\<dots> \<longleftrightarrow> (\<exists>a u v b. t = (a @ u) @ name @ (v @ CHR '':'' # b) \<and> blanks u \<and> blanks v
      \<and> (a = [] \<or> last a = CHR ''{'' \<or> last a = CHR '';''))"
    by blast
  finally show ?thesis by (simp only: append_assoc)
qed

theorem has_property_spec_witness:
  "has_property ''a{ scale : 2}'' ''scale''"
proof -
  have "''a{ scale : 2}'' = ''a{'' @ '' '' @ ''scale'' @ '' '' @ CHR '':'' # '' 2}''" by simp
  moreover have "blanks '' ''" by (simp add: blanks_def css_blank_def)
  moreover have "last ''a{'' = CHR ''{''" by simp
  moreover have "''scale'' \<noteq> []" by simp
  ultimately show ?thesis using has_property_spec [THEN iffD2] by metis
qed

text \<open>
  The warnings are the features the text uses for which an engine is still served, oldest
  first and as many as the caller has room for; each names all of the engines that are served at
  the version before the feature and none that is not, and no text is cut to its array.
\<close>

theorem css_compat_check_spec:
  "css_compat_check (Some css) (Some d) dashboard limit =
     take limit (map (\<lambda>f. \<lparr>w_feature = f_feature f,
                        w_needs = ''Chrome '' @ f_chrome f @ '', Firefox '' @ f_firefox f @ '', Safari '' @ f_safari f,
                        w_still_served = comma_join (served_engines d dashboard f)\<rparr>)
       (filter (\<lambda>f. uses (strip css) f \<and> served_engines d dashboard f \<noteq> []) FEATURES))"
proof -
  have run: "check_features t d dashboard room fs =
     take room (map (\<lambda>f. \<lparr>w_feature = f_feature f,
                        w_needs = ''Chrome '' @ f_chrome f @ '', Firefox '' @ f_firefox f @ '', Safari '' @ f_safari f,
                        w_still_served = comma_join (served_engines d dashboard f)\<rparr>)
       (filter (\<lambda>f. uses t f \<and> served_engines d dashboard f \<noteq> []) fs))"
    if "list_all (\<lambda>f. length (f_chrome f) + length (f_firefox f) + length (f_safari f) + 26 < 64) fs" for t room fs
    using that
  proof (induction t d dashboard room fs rule: check_features.induct)
    case (2 t d dashboard room f fs)
    then show ?case
      by (cases room) (auto simp: still_served_join fit_id comma_join_empty)
  qed simp
  have "list_all (\<lambda>f. length (f_chrome f) + length (f_firefox f) + length (f_safari f) + 26 < 64) FEATURES"
    by (simp add: FEATURES_def css_feature_def)
  from run [OF this] show ?thesis by (simp add: css_compat_check_def)
qed

end
