(* ===== verification/Config_Loader.thy ===== *)
theory Config_Loader
  imports BR_Prelude
begin

text \<open>
  The configuration file (src/src/utils/config_loader.c). The globals of the server are a record
  whose fields carry their names, with a \<open>g_\<close> in front. The file is the string of its bytes and
  is read in the pieces \<open>fgets\<close> gives for a buffer of 512 bytes; a file that cannot be opened is
  None.
\<close>

subsection \<open>The globals and their defaults\<close>

record Config =
  g_verbose_level :: int
  g_http_port :: int
  g_https_port :: int
  g_ssl_enabled :: bool
  g_ssl_cert :: string
  g_ssl_key :: string
  g_listen_address :: string
  g_proxy_protocol :: bool
  g_trusted_proxies :: string
  g_theme :: string
  g_lang :: string
  g_public_url :: string
  g_site_key :: string
  g_site_directory :: string
  g_force_epoch :: int
  g_mongodb_uri :: string
  g_mongodb_db :: string
  g_session_ttl_seconds :: int
  g_ddos_max_connections :: int
  g_ddos_rate_window_secs :: int
  g_ddos_rate_limit :: int
  g_ddos_max_ips :: int
  g_ddos_cleanup_interval_secs :: int
  g_ddos_ip_stale_secs :: int
  g_connection_io_timeout_secs :: int
  g_wap_gateway_enabled :: bool
  g_wap_gateway_ips :: string
  g_wap_gateway_rover_port :: int
  g_wap_gateway_wsp_port :: int
  g_wap_gateway_rate_limit :: int
  g_wap_upstream :: string
  g_wap_upstream_proxy_protocol :: bool
  g_update_repo :: string
  g_mail_smtp_url :: string
  g_mail_smtp_user :: string
  g_mail_smtp_password :: string
  g_mail_from :: string
  g_mail_from_name :: string

definition config_defaults :: Config where
  "config_defaults =
     \<lparr>g_verbose_level = 3, g_http_port = 8080, g_https_port = 8443, g_ssl_enabled = False,
      g_ssl_cert = [], g_ssl_key = [], g_listen_address = [], g_proxy_protocol = False,
      g_trusted_proxies = [], g_theme = ''dark'', g_lang = ''Eng'', g_public_url = [],
      g_site_key = [], g_site_directory = [], g_force_epoch = - 2, g_mongodb_uri = ''mongodb://localhost:27017'',
      g_mongodb_db = ''boat_rudder'', g_session_ttl_seconds = 86400, g_ddos_max_connections = 200, g_ddos_rate_window_secs = 5,
      g_ddos_rate_limit = 500, g_ddos_max_ips = 1024, g_ddos_cleanup_interval_secs = 60, g_ddos_ip_stale_secs = 300,
      g_connection_io_timeout_secs = 5, g_wap_gateway_enabled = False, g_wap_gateway_ips = [], g_wap_gateway_rover_port = 49300,
      g_wap_gateway_wsp_port = 9200, g_wap_gateway_rate_limit = 60, g_wap_upstream = [], g_wap_upstream_proxy_protocol = False,
      g_update_repo = ''jpablotoledom/boat-rudder'', g_mail_smtp_url = [], g_mail_smtp_user = [], g_mail_smtp_password = [],
      g_mail_from = [], g_mail_from_name = []\<rparr>"

definition set_key :: "string \<Rightarrow> string \<Rightarrow> Config \<Rightarrow> Config" where
  "set_key key val c =
     (if key = ''verbose_level'' then c\<lparr>g_verbose_level := atoi val\<rparr>
      else if key = ''http_port'' then c\<lparr>g_http_port := atoi val\<rparr>
      else if key = ''https_port'' then c\<lparr>g_https_port := atoi val\<rparr>
      else if key = ''ssl_enabled'' then c\<lparr>g_ssl_enabled := (atoi val \<noteq> 0)\<rparr>
      else if key = ''ssl_cert'' then c\<lparr>g_ssl_cert := fit 256 val\<rparr>
      else if key = ''ssl_key'' then c\<lparr>g_ssl_key := fit 256 val\<rparr>
      else if key = ''listen_address'' then c\<lparr>g_listen_address := fit 64 val\<rparr>
      else if key = ''proxy_protocol'' then c\<lparr>g_proxy_protocol := (atoi val \<noteq> 0)\<rparr>
      else if key = ''trusted_proxies'' then c\<lparr>g_trusted_proxies := fit 512 val\<rparr>
      else if key = ''theme'' then c\<lparr>g_theme := fit 64 val\<rparr>
      else if key = ''lang'' then c\<lparr>g_lang := fit 16 val\<rparr>
      else if key = ''public_url'' then c\<lparr>g_public_url := fit 256 val\<rparr>
      else if key = ''site_key'' then c\<lparr>g_site_key := fit 64 val\<rparr>
      else if key = ''site_directory'' then c\<lparr>g_site_directory := fit 1024 val\<rparr>
      else if key = ''force_epoch'' then c\<lparr>g_force_epoch := atoi val\<rparr>
      else if key = ''mongodb_uri'' then c\<lparr>g_mongodb_uri := fit 256 val\<rparr>
      else if key = ''mongodb_db'' then c\<lparr>g_mongodb_db := fit 64 val\<rparr>
      else if key = ''session_ttl_seconds'' then c\<lparr>g_session_ttl_seconds := atoi val\<rparr>
      else if key = ''ddos_max_connections'' then c\<lparr>g_ddos_max_connections := atoi val\<rparr>
      else if key = ''ddos_rate_window_secs'' then c\<lparr>g_ddos_rate_window_secs := atoi val\<rparr>
      else if key = ''ddos_rate_limit'' then c\<lparr>g_ddos_rate_limit := atoi val\<rparr>
      else if key = ''ddos_max_ips'' then c\<lparr>g_ddos_max_ips := atoi val\<rparr>
      else if key = ''ddos_cleanup_interval_secs'' then c\<lparr>g_ddos_cleanup_interval_secs := atoi val\<rparr>
      else if key = ''ddos_ip_stale_secs'' then c\<lparr>g_ddos_ip_stale_secs := atoi val\<rparr>
      else if key = ''connection_io_timeout_secs'' then c\<lparr>g_connection_io_timeout_secs := atoi val\<rparr>
      else if key = ''wap_gateway_enabled'' then c\<lparr>g_wap_gateway_enabled := (atoi val \<noteq> 0)\<rparr>
      else if key = ''wap_gateway_ips'' then c\<lparr>g_wap_gateway_ips := fit 256 val\<rparr>
      else if key = ''wap_gateway_rover_port'' then c\<lparr>g_wap_gateway_rover_port := atoi val\<rparr>
      else if key = ''wap_gateway_wsp_port'' then c\<lparr>g_wap_gateway_wsp_port := atoi val\<rparr>
      else if key = ''wap_gateway_rate_limit'' then c\<lparr>g_wap_gateway_rate_limit := atoi val\<rparr>
      else if key = ''wap_upstream'' then c\<lparr>g_wap_upstream := fit 64 val\<rparr>
      else if key = ''wap_upstream_proxy_protocol'' then c\<lparr>g_wap_upstream_proxy_protocol := (atoi val \<noteq> 0)\<rparr>
      else if key = ''update_repo'' then c\<lparr>g_update_repo := fit 128 val\<rparr>
      else if key = ''mail_smtp_url'' then c\<lparr>g_mail_smtp_url := fit 256 val\<rparr>
      else if key = ''mail_smtp_user'' then c\<lparr>g_mail_smtp_user := fit 256 val\<rparr>
      else if key = ''mail_smtp_password'' then c\<lparr>g_mail_smtp_password := fit 256 val\<rparr>
      else if key = ''mail_from'' then c\<lparr>g_mail_from := fit 256 val\<rparr>
      else if key = ''mail_from_name'' then c\<lparr>g_mail_from_name := fit 128 val\<rparr>
      else c)"

subsection \<open>Reading the file\<close>

definition LINE_SIZE :: nat where
  "LINE_SIZE = 512"

definition fgets :: "nat \<Rightarrow> string \<Rightarrow> string" where
  "fgets n s = (let k = length (takeWhile (\<lambda>c. c \<noteq> LF) s) in take (min (k + 1) (n - 1)) s)"

definition config_line :: "string \<Rightarrow> Config \<Rightarrow> Config" where
  "config_line buf c =
     (let line = cstr buf
      in if line \<noteq> [] \<and> (hd line = LF \<or> hd line = CHR ''#'') then c
         else case strchr line (CHR ''='') of
                None \<Rightarrow> c
              | Some k \<Rightarrow> set_key (take k line) (takeWhile (\<lambda>x. x \<noteq> LF) (drop (k + 1) line)) c)"

function config_lines :: "string \<Rightarrow> Config \<Rightarrow> Config" where
  "config_lines s c =
     (if s = [] then c
      else (let line = fgets LINE_SIZE s in config_lines (drop (length line) s) (config_line line c)))"
  by pat_completeness auto
termination
  by (relation "measure (\<lambda>(s, c). length s)") (auto simp: fgets_def LINE_SIZE_def Let_def)

declare config_lines.simps [simp del]

definition load_config :: "string option \<Rightarrow> Config \<Rightarrow> int \<times> Config" where
  "load_config conf c = (case conf of None \<Rightarrow> (- 1, c) | Some s \<Rightarrow> (0, config_lines s c))"

subsection \<open>Every field keeps its type\<close>

definition int32 :: "int \<Rightarrow> bool" where
  "int32 i \<longleftrightarrow> - 2147483648 \<le> i \<and> i < 2147483648"

text \<open>A string in an array of \<open>n\<close> bytes that one line of the file can hold.\<close>

definition field_ok :: "nat \<Rightarrow> string \<Rightarrow> bool" where
  "field_ok n s \<longleftrightarrow> length s < n \<and> length s < LINE_SIZE \<and> NUL \<notin> set s \<and> LF \<notin> set s"

definition config_ok :: "Config \<Rightarrow> bool" where
  "config_ok c \<longleftrightarrow>
     int32 (g_verbose_level c) \<and> int32 (g_http_port c) \<and> int32 (g_https_port c)
     \<and> field_ok 256 (g_ssl_cert c) \<and> field_ok 256 (g_ssl_key c) \<and> field_ok 64 (g_listen_address c)
     \<and> field_ok 512 (g_trusted_proxies c) \<and> field_ok 64 (g_theme c) \<and> field_ok 16 (g_lang c)
     \<and> field_ok 256 (g_public_url c) \<and> field_ok 64 (g_site_key c) \<and> field_ok 1024 (g_site_directory c)
     \<and> int32 (g_force_epoch c) \<and> field_ok 256 (g_mongodb_uri c) \<and> field_ok 64 (g_mongodb_db c)
     \<and> int32 (g_session_ttl_seconds c) \<and> int32 (g_ddos_max_connections c) \<and> int32 (g_ddos_rate_window_secs c)
     \<and> int32 (g_ddos_rate_limit c) \<and> int32 (g_ddos_max_ips c) \<and> int32 (g_ddos_cleanup_interval_secs c)
     \<and> int32 (g_ddos_ip_stale_secs c) \<and> int32 (g_connection_io_timeout_secs c) \<and> field_ok 256 (g_wap_gateway_ips c)
     \<and> int32 (g_wap_gateway_rover_port c) \<and> int32 (g_wap_gateway_wsp_port c) \<and> int32 (g_wap_gateway_rate_limit c)
     \<and> field_ok 64 (g_wap_upstream c) \<and> field_ok 128 (g_update_repo c) \<and> field_ok 256 (g_mail_smtp_url c)
     \<and> field_ok 256 (g_mail_smtp_user c) \<and> field_ok 256 (g_mail_smtp_password c) \<and> field_ok 256 (g_mail_from c)
     \<and> field_ok 128 (g_mail_from_name c)"

lemma atoi_int32: "int32 (atoi s)"
  using atoi_range [of s] by (simp add: int32_def)

definition val_ok :: "string \<Rightarrow> bool" where
  "val_ok v \<longleftrightarrow> length v < LINE_SIZE \<and> NUL \<notin> set v \<and> LF \<notin> set v"

lemma fit_field_ok: "val_ok v \<Longrightarrow> 0 < n \<Longrightarrow> field_ok n (fit n v)"
  unfolding field_ok_def val_ok_def fit_def by (auto dest: in_set_takeD)

lemma config_ok_if: "(b \<Longrightarrow> config_ok x) \<Longrightarrow> (\<not> b \<Longrightarrow> config_ok y) \<Longrightarrow> config_ok (if b then x else y)"
  by simp

lemma set_key_ok: "val_ok v \<Longrightarrow> config_ok c \<Longrightarrow> config_ok (set_key k v c)"
  unfolding set_key_def by (intro config_ok_if) (simp_all add: config_ok_def atoi_int32 fit_field_ok)

lemma fgets_length: "length (fgets LINE_SIZE s) < LINE_SIZE"
  by (simp add: fgets_def LINE_SIZE_def Let_def)

lemma config_line_val:
  assumes "length buf < LINE_SIZE"
  shows "val_ok (takeWhile (\<lambda>x. x \<noteq> LF) (drop k (cstr buf)))"
proof -
  have "length (takeWhile (\<lambda>x. x \<noteq> LF) (drop k (cstr buf))) \<le> length buf"
    using length_takeWhile_le [of "\<lambda>x. x \<noteq> LF" "drop k (cstr buf)"] length_takeWhile_le [of "\<lambda>x. x \<noteq> NUL" buf]
    by (simp add: cstr_def)
  moreover have "set (takeWhile (\<lambda>x. x \<noteq> LF) (drop k (cstr buf))) \<subseteq> set (cstr buf) - {LF}"
    by (auto dest: set_takeWhileD in_set_dropD)
  ultimately show ?thesis using assms NUL_notin_cstr [of buf] unfolding val_ok_def by auto
qed

lemma config_line_ok: "length buf < LINE_SIZE \<Longrightarrow> config_ok c \<Longrightarrow> config_ok (config_line buf c)"
  using config_line_val set_key_ok by (auto simp: config_line_def Let_def split: option.split)

lemma config_lines_ok: "config_ok c \<Longrightarrow> config_ok (config_lines s c)"
proof (induction s c rule: config_lines.induct)
  case (1 s c)
  then show ?case by (subst config_lines.simps) (simp add: Let_def config_line_ok fgets_length)
qed

subsection \<open>Files of well-formed lines\<close>

definition entry :: "string \<times> string \<Rightarrow> string" where
  "entry kv = fst kv @ CHR ''='' # snd kv @ [LF]"

definition entry_ok :: "string \<times> string \<Rightarrow> bool" where
  "entry_ok kv \<longleftrightarrow>
     fst kv \<noteq> [] \<and> hd (fst kv) \<noteq> CHR ''#'' \<and> CHR ''='' \<notin> set (fst kv)
     \<and> NUL \<notin> set (fst kv @ snd kv) \<and> LF \<notin> set (fst kv @ snd kv) \<and> length (entry kv) < LINE_SIZE"

lemma fgets_entry:
  assumes "entry_ok kv"
  shows "fgets LINE_SIZE (entry kv @ r) = entry kv"
proof -
  have "takeWhile (\<lambda>c. c \<noteq> LF) (entry kv @ r) = fst kv @ CHR ''='' # snd kv"
    using assms run_until(1) [of LF "fst kv @ CHR ''='' # snd kv" r] by (simp add: entry_def entry_ok_def)
  moreover have "length (entry kv) = length (fst kv @ CHR ''='' # snd kv) + 1" by (simp add: entry_def)
  ultimately show ?thesis using assms by (simp add: fgets_def Let_def entry_ok_def LINE_SIZE_def)
qed

lemma config_line_entry:
  assumes "entry_ok kv"
  shows "config_line (entry kv) c = set_key (fst kv) (snd kv) c"
proof -
  have e: "fst kv \<noteq> []" "hd (fst kv) \<noteq> CHR ''#''" "hd (fst kv) \<noteq> LF" "CHR ''='' \<notin> set (fst kv)" "LF \<notin> set (snd kv)"
    using assms hd_in_set [of "fst kv"] unfolding entry_ok_def by (simp, simp, force, simp, simp)
  have "NUL \<notin> set (entry kv)" using assms by (simp add: entry_ok_def entry_def)
  then have l: "cstr (entry kv) = entry kv" by (rule cstr_id)
  have "strchr (entry kv) (CHR ''='') = Some (length (fst kv))"
    using e(4) by (simp add: entry_def strchr_append strchr_None [THEN iffD2])
  then show ?thesis
    using e run_until(1) [OF e(5), of "[]"] by (simp add: config_line_def Let_def l) (simp add: entry_def)
qed

lemma config_lines_entries:
  "list_all entry_ok kvs \<Longrightarrow> config_lines (concat (map entry kvs)) c = foldl (\<lambda>d kv. set_key (fst kv) (snd kv) d) c kvs"
proof (induction kvs arbitrary: c)
  case Nil
  then show ?case by (simp add: config_lines.simps)
next
  case (Cons kv kvs)
  have "entry kv \<noteq> []" by (simp add: entry_def)
  then show ?case
    using Cons fgets_entry [of kv "concat (map entry kvs)"] by (subst config_lines.simps) (simp add: Let_def config_line_entry)
qed

subsection \<open>The chooser of sites\<close>

lemma set_key_site_directory:
  "g_site_directory (set_key k v c) = (if k = ''site_directory'' then fit 1024 v else g_site_directory c)"
  by (simp add: set_key_def)

lemma config_line_site_directory:
  assumes "length buf < LINE_SIZE" "length (g_site_directory c) \<le> 496"
  shows "length (g_site_directory (config_line buf c)) \<le> 496"
proof -
  have "length (takeWhile (\<lambda>x. x \<noteq> LF) (drop (k + 1) (cstr buf))) \<le> 496"
    if "strchr (cstr buf) (CHR ''='') = Some k" "take k (cstr buf) = ''site_directory''" for k
  proof -
    have "length (cstr buf) < 512" using assms(1) length_takeWhile_le [of "\<lambda>x. x \<noteq> NUL" buf] by (simp add: cstr_def LINE_SIZE_def)
    moreover have "k = 14"
    proof -
      have "k < length (cstr buf)" using that(1) by (simp add: strchr_Some)
      moreover have "length (take k (cstr buf)) = 14" using that(2) by simp
      ultimately show ?thesis by simp
    qed
    moreover have "length (takeWhile (\<lambda>x. x \<noteq> LF) (drop (k + 1) (cstr buf))) \<le> length (drop (k + 1) (cstr buf))" by (rule length_takeWhile_le)
    ultimately show ?thesis by simp
  qed
  then show ?thesis using assms(2) by (auto simp: config_line_def Let_def set_key_site_directory fit_def split: option.split)
qed

lemma config_lines_site_directory:
  "length (g_site_directory c) \<le> 496 \<Longrightarrow> length (g_site_directory (config_lines s c)) \<le> 496"
proof (induction s c rule: config_lines.induct)
  case (1 s c)
  then show ?case by (subst config_lines.simps) (simp add: Let_def config_line_site_directory fgets_length)
qed

subsection \<open>Properties\<close>

text \<open>
  C29. Whatever bytes the configuration file holds, every setting keeps its type: each number is a
  32-bit integer, and each string ends inside its array, is no longer than a line and holds
  neither a NUL nor a line feed. Loading fails only for a file that cannot be opened, and then
  changes nothing.
\<close>

theorem load_config_typed:
  "config_ok (snd (load_config conf config_defaults))
   \<and> fst (load_config conf config_defaults) = (if conf = None then - 1 else 0)
   \<and> load_config None c = (- 1, c)"
proof -
  have "config_ok config_defaults" by (simp add: config_ok_def config_defaults_def int32_def field_ok_def LINE_SIZE_def)
  then show ?thesis using config_lines_ok by (cases conf) (simp_all add: load_config_def)
qed

text \<open>
  A file of \<open>key=value\<close> lines, each shorter than the line buffer, sets its keys in order:
  the settings are those of assigning each value to its key from the first line to the last.
\<close>

theorem load_config_entries:
  assumes "list_all entry_ok kvs"
  shows "load_config (Some (concat (map entry kvs))) c = (0, foldl (\<lambda>d kv. set_key (fst kv) (snd kv) d) c kvs)"
  using config_lines_entries [OF assms] by (simp add: load_config_def)

theorem load_config_entries_witness:
  "list_all entry_ok [(''http_port'', ''80''), (''theme'', ''light''), (''http_port'', ''8081'')]
   \<and> snd (load_config (Some (concat (map entry [(''http_port'', ''80''), (''theme'', ''light''), (''http_port'', ''8081'')]))) config_defaults)
     = config_defaults\<lparr>g_theme := ''light'', g_http_port := 8081\<rparr>"
proof -
  let ?kvs = "[(''http_port'', ''80''), (''theme'', ''light''), (''http_port'', ''8081'')]"
  have ok: "list_all entry_ok ?kvs" by (simp add: entry_ok_def entry_def LINE_SIZE_def)
  have a: "atoi ''8081'' = 8081"
    by (simp add: atoi_def to_int32_def dec_value_def isdigit_def isspace_def Let_def)
  show ?thesis
    using load_config_entries [OF ok, of config_defaults] ok a by (simp add: set_key_def fit_def config_defaults_def)
qed

text \<open>
  The array of the chooser of sites has 1024 bytes, and no configuration file fills more than
  496 of them: a longer line is cut where the line buffer ends, and the rest of it is read as a
  line of its own.
\<close>

theorem site_directory_cut:
  "length (g_site_directory (snd (load_config conf config_defaults))) \<le> 496"
  using config_lines_site_directory [of config_defaults]
  by (cases conf) (simp_all add: load_config_def config_defaults_def)

end
