(* ===== verification/Text_Utils.thy ===== *)
theory Text_Utils
  imports Inet
begin

text \<open>
  String helpers of the page builders: substitution in templates, slugs, names of image variants
  (src/src/utils/template_utils.c) and JSON string literals (src/src/utils/json_utils.c). A
  malloc'd string is a value; running out of memory is not modelled. The loop of
  \<open>str_replace_all\<close> need not end: not returning is the value None.
\<close>

subsection \<open>Replacing\<close>

definition str_replace_first :: "string \<Rightarrow> string \<Rightarrow> string \<Rightarrow> string" where
  "str_replace_first src needle replacement =
     (case strstr src needle of
        None \<Rightarrow> src
      | Some i \<Rightarrow> take i src @ replacement @ drop (i + length needle) src)"

partial_function (option) str_replace_all :: "string \<Rightarrow> string \<Rightarrow> string \<Rightarrow> string option" where
  "str_replace_all src needle replacement =
     (if contains src needle then str_replace_all (str_replace_first src needle replacement) needle replacement
      else Some src)"

definition str_append :: "string option \<Rightarrow> string \<Rightarrow> string" where
  "str_append dst src = (case dst of Some d \<Rightarrow> d | None \<Rightarrow> []) @ src"

subsection \<open>Slugs and names\<close>

fun slug_loop :: "string \<Rightarrow> string \<Rightarrow> string" where
  "slug_loop slug [] = slug"
| "slug_loop slug (c # r) =
     (if isupper c then slug_loop (slug @ [chr (ord c + 32)]) r
      else if islower c \<or> isdigit c then slug_loop (slug @ [c]) r
      else if c = CHR '' '' \<or> c = CHR ''-'' \<or> c = CHR ''_'' then
        slug_loop (if slug \<noteq> [] \<and> last slug \<noteq> CHR ''-'' then slug @ ''-'' else slug) r
      else slug_loop slug r)"

definition slugify :: "string option \<Rightarrow> string" where
  "slugify name =
     (case name of None \<Rightarrow> [] | Some s \<Rightarrow> rev (dropWhile (\<lambda>c. c = CHR ''-'') (rev (slug_loop [] s))))"

definition capitalize_first :: "string option \<Rightarrow> string option" where
  "capitalize_first s =
     map_option (\<lambda>t. case t of c # r \<Rightarrow> (if islower c then chr (ord c - 32) else c) # r | [] \<Rightarrow> []) s"

definition image_url_variant :: "string option \<Rightarrow> string option \<Rightarrow> string" where
  "image_url_variant url sfx =
     (case url of
        None \<Rightarrow> []
      | Some u \<Rightarrow>
          if u = [] then []
          else (case sfx of
                  None \<Rightarrow> u
                | Some x \<Rightarrow>
                    if x = [] then u
                    else (case strrchr u (CHR ''.'') of
                            None \<Rightarrow> u
                          | Some k \<Rightarrow> if k = 0 then u else take k u @ x @ drop k u)))"

subsection \<open>JSON string literals\<close>

definition hex_lower :: "nat \<Rightarrow> char" where
  "hex_lower n = chr (if n < 10 then 48 + n else 87 + n)"

definition json_esc :: "char \<Rightarrow> string" where
  "json_esc c =
     (if c = DQ then [BSL, DQ]
      else if c = BSL then [BSL, BSL]
      else if c = LF then [BSL, CHR ''n'']
      else if c = CR then [BSL, CHR ''r'']
      else if c = TAB then [BSL, CHR ''t'']
      else if ord c < 32 then BSL # ''u00'' @ [hex_lower (ord c div 16), hex_lower (ord c mod 16)]
      else [c])"

definition json_escape_alloc :: "string \<Rightarrow> string" where
  "json_escape_alloc src = concat (map json_esc src)"

subsection \<open>What one replacement does\<close>

lemma replace_first_parts:
  "str_replace_first src needle replacement = src \<and> \<not> contains src needle
   \<or> (\<exists>a b. src = a @ needle @ b \<and> str_replace_first src needle replacement = a @ replacement @ b)"
proof (cases "strstr src needle")
  case None
  then show ?thesis by (simp add: str_replace_first_def contains_def)
next
  case (Some i)
  then obtain b where b: "drop i src = needle @ b" using strstr_Some_prefix by (metis prefix_def)
  then have "src = take i src @ needle @ b" by (metis append_take_drop_id)
  moreover have "drop (i + length needle) src = b" using b by (metis add.commute append_eq_conv_conj drop_drop)
  ultimately show ?thesis using Some by (auto simp: str_replace_first_def)
qed

lemma contains_replaced: "contains src needle \<Longrightarrow> contains replacement needle \<Longrightarrow> contains (str_replace_first src needle replacement) needle"
  using replace_first_parts [of src needle replacement] by (auto simp: contains_iff) (metis append.assoc)

text \<open>A replacement that contains the needle is looked for again, and the loop does not end.\<close>

lemma replace_all_returns:
  assumes "str_replace_all src needle replacement = Some out"
  shows "contains replacement needle \<longrightarrow> \<not> contains src needle"
  using assms
  by (rule str_replace_all.raw_induct [where P = "\<lambda>src needle replacement out. contains replacement needle \<longrightarrow> \<not> contains src needle", rotated])
    (auto split: if_splits; meson contains_replaced)

lemma strstr_progress:
  assumes "strstr s n = Some i" "n \<noteq> []"
  shows "length s - (i + length n) < length s"
proof -
  have "0 < length n" using assms(2) by simp
  with strstr_length [OF assms(1)] show ?thesis by linarith
qed

text \<open>The replacements of one pass from left to right, each text taken from the source.\<close>

function subst_all :: "string \<Rightarrow> string \<Rightarrow> string \<Rightarrow> string" where
  "subst_all s needle replacement =
     (if needle = [] then s
      else case strstr s needle of
        None \<Rightarrow> s
      | Some i \<Rightarrow> take i s @ replacement @ subst_all (drop (i + length needle) s) needle replacement)"
  by pat_completeness auto
termination
  by (relation "measure (\<lambda>(s, needle, replacement). length s)") (simp_all add: strstr_progress)

declare subst_all.simps [simp del]

definition replace_safe :: "string \<Rightarrow> string \<Rightarrow> bool" where
  "replace_safe needle replacement \<longleftrightarrow>
     needle \<noteq> [] \<and> hd needle \<notin> set replacement \<and> last needle \<notin> set replacement \<and> \<not> contains needle replacement"

lemma replace_safe_skip:
  assumes "replace_safe n r" "strstr p n = None" "i < length p + length r"
  shows "\<not> prefix n (drop i (p @ r @ s))"
proof
  assume "prefix n (drop i (p @ r @ s))"
  then obtain t where t: "drop i (p @ r @ s) = n @ t" by (auto simp: prefix_def)
  have n: "n \<noteq> []" "hd n \<notin> set r" "last n \<notin> set r" "\<not> contains n r" using assms(1) by (simp_all add: replace_safe_def)
  show False
  proof (cases "length p \<le> i")
    case True
    then have "drop (i - length p) r @ s = n @ t" "drop (i - length p) r \<noteq> []" using t assms(3) by auto
    then have "hd n = hd (drop (i - length p) r)" using n(1) by (metis hd_append2)
    then show False using n(2) \<open>drop (i - length p) r \<noteq> []\<close> by (metis in_set_dropD list.set_sel(1))
  next
    case False
    then have "drop i p @ r @ s = n @ t" using t by simp
    then obtain v where v: "n = drop i p @ v" "v @ t = r @ s"
      using strstr_None [OF assms(2), of i] by (auto simp: append_eq_append_conv2 prefix_def)
    have "v \<noteq> []" using v(1) strstr_None [OF assms(2), of i] by auto
    moreover have "\<not> (\<exists>w. v = r @ w)" using n(4) v(1) by (auto simp: contains_iff)
    ultimately obtain w where "r = v @ w" using v(2) by (auto simp: append_eq_append_conv2)
    then show False using n(3) v(1) \<open>v \<noteq> []\<close> by simp
  qed
qed

lemma strstr_past:
  assumes "replace_safe n r" "strstr p n = None"
  shows "strstr (p @ r @ s) n = map_option (\<lambda>i. length p + length r + i) (strstr s n)"
proof (cases "strstr s n")
  case None
  have "\<not> prefix n (drop i (p @ r @ s))" for i
    using replace_safe_skip [OF assms, of i s] strstr_None [OF None, of "i - length p - length r"] by (cases "i < length p + length r") auto
  then show ?thesis using None strstr_Some_prefix [of "p @ r @ s" n] by (cases "strstr (p @ r @ s) n") auto
next
  case (Some k)
  have "\<not> prefix n (drop i (p @ r @ s))" if "i < length p + length r + k" for i
    using replace_safe_skip [OF assms, of i s] strstr_least [OF Some, of "i - length p - length r"] that by (cases "i < length p + length r") auto
  then show ?thesis using strstr_Some_prefix [OF Some] by (simp add: Some strstr_Some_iff)
qed

lemma replace_all_past:
  assumes "replace_safe n r" "strstr p n = None"
  shows "str_replace_all (p @ r @ s) n r = Some (p @ r @ subst_all s n r)"
  using assms(2)
proof (induction s arbitrary: p rule: length_induct)
  case (1 s)
  have n: "n \<noteq> []" using assms(1) by (simp add: replace_safe_def)
  note past = strstr_past [OF assms(1) 1(2), of s]
  show ?case
  proof (cases "strstr s n")
    case None
    then show ?thesis using n past by (subst str_replace_all.simps) (simp add: contains_def subst_all.simps)
  next
    case (Some k)
    have "length (drop (k + length n) s) < length s" using strstr_length [OF Some] n by (cases s) auto
    moreover have "strstr (p @ r @ take k s) n = None"
    proof (rule ccontr)
      assume "strstr (p @ r @ take k s) n \<noteq> None"
      then obtain j where "strstr (take k s) n = Some j" using strstr_past [OF assms(1) 1(2), of "take k s"] by auto
      then show False using strstr_append [of "take k s" n j "drop k s"] Some strstr_length [of "take k s" n j] n by auto
    qed
    ultimately have "str_replace_all ((p @ r @ take k s) @ r @ drop (k + length n) s) n r
        = Some ((p @ r @ take k s) @ r @ subst_all (drop (k + length n) s) n r)"
      using 1(1) by blast
    moreover have "str_replace_first (p @ r @ s) n r = (p @ r @ take k s) @ r @ drop (k + length n) s"
      using past Some by (simp add: str_replace_first_def ac_simps)
    ultimately show ?thesis
      using n past Some by (subst str_replace_all.simps) (simp add: contains_def subst_all.simps [of s])
  qed
qed

subsection \<open>Slugs\<close>

definition slug_char :: "char \<Rightarrow> bool" where
  "slug_char c \<longleftrightarrow> islower c \<or> isdigit c \<or> c = CHR ''-''"

text \<open>Words of lower-case letters and digits with one hyphen between two of them.\<close>

definition slug_ok :: "string \<Rightarrow> bool" where
  "slug_ok s \<longleftrightarrow> list_all slug_char s \<and> (s \<noteq> [] \<longrightarrow> hd s \<noteq> CHR ''-'' \<and> last s \<noteq> CHR ''-'') \<and> \<not> contains s ''--''"

definition slug_open :: "string \<Rightarrow> bool" where
  "slug_open s \<longleftrightarrow> list_all slug_char s \<and> (s \<noteq> [] \<longrightarrow> hd s \<noteq> CHR ''-'') \<and> \<not> contains s ''--''"

lemma contains_snoc:
  "contains (s @ [c]) [x, y] \<longleftrightarrow> contains s [x, y] \<or> (c = y \<and> s \<noteq> [] \<and> last s = x)"
proof (induction s)
  case Nil
  then show ?case by (simp add: contains_def)
next
  case (Cons a s)
  then show ?case by (cases s) (auto simp: contains_def split: if_splits)
qed

lemma slug_open_snoc:
  "slug_open s \<Longrightarrow> slug_char c \<Longrightarrow> c = CHR ''-'' \<Longrightarrow> s \<noteq> [] \<Longrightarrow> last s \<noteq> CHR ''-'' \<Longrightarrow> slug_open (s @ [c])"
  "slug_open s \<Longrightarrow> slug_char c \<Longrightarrow> c \<noteq> CHR ''-'' \<Longrightarrow> slug_open (s @ [c])"
  by (simp_all add: slug_open_def contains_snoc hd_append)

lemma slug_lower: "isupper c \<Longrightarrow> slug_char (chr (ord c + 32)) \<and> chr (ord c + 32) \<noteq> CHR ''-''"
proof -
  assume u: "isupper c"
  then have o: "ord (chr (ord c + 32)) = ord c + 32" by (intro ord_chr) (simp add: isupper_def)
  then have "ord (chr (ord c + 32)) \<noteq> ord (CHR ''-'')" using u by (simp add: isupper_def)
  then have "chr (ord c + 32) \<noteq> CHR ''-''" by metis
  moreover have "islower (chr (ord c + 32))" using u o by (simp add: isupper_def islower_def)
  ultimately show ?thesis by (simp add: slug_char_def)
qed

lemma slug_plain: "islower c \<or> isdigit c \<Longrightarrow> slug_char c \<and> c \<noteq> CHR ''-''"
  by (auto simp: slug_char_def islower_def isdigit_def)

lemma slug_loop_open: "slug_open acc \<Longrightarrow> slug_open (slug_loop acc s)"
proof (induction acc s rule: slug_loop.induct)
  case (2 slug c r)
  then show ?case
    using slug_open_snoc [of slug] slug_lower [of c] slug_plain [of c]
    by (auto simp: slug_char_def)
qed simp

lemma slug_open_butlast: "slug_open (s @ [c]) \<Longrightarrow> slug_open s"
  by (auto simp add: slug_open_def contains_snoc hd_append split: if_splits)

lemma slug_open_prefix: "slug_open (a @ b) \<Longrightarrow> slug_open a"
  by (induction b rule: rev_induct) (simp, metis append_assoc slug_open_butlast)

lemma slug_trim_ok: "slug_open s \<Longrightarrow> slug_ok (rev (dropWhile (\<lambda>c. c = CHR ''-'') (rev s)))"
proof (induction s rule: rev_induct)
  case Nil
  then show ?case by (simp add: slug_ok_def slug_open_def)
next
  case (snoc c s)
  then show ?case using slug_open_butlast [OF snoc.prems] by (simp add: slug_ok_def slug_open_def)
qed

lemma slug_loop_id: "slug_open (acc @ s) \<Longrightarrow> slug_loop acc s = acc @ s"
proof (induction s arbitrary: acc)
  case (Cons c s)
  have so: "slug_open (acc @ [c])"
    using Cons.prems slug_open_prefix [of "acc @ [c]" s] by simp
  then have c: "slug_char c" and h: "c = CHR ''-'' \<longrightarrow> acc \<noteq> [] \<and> last acc \<noteq> CHR ''-''"
    by (simp_all add: slug_open_def contains_snoc hd_append split: if_splits)
  have "\<not> isupper c" using c by (auto simp: slug_char_def islower_def isdigit_def isupper_def)
  then have "slug_loop acc (c # s) = slug_loop (acc @ [c]) s"
    using c h slug_plain [of c] by (auto simp: slug_char_def)
  then show ?case using Cons.IH [of "acc @ [c]"] Cons.prems by simp
qed simp

lemma slug_ok_fixed: "slug_ok s \<Longrightarrow> slugify (Some s) = s"
proof -
  assume ok: "slug_ok s"
  then have "slug_loop [] s = s" using slug_loop_id [of "[]" s] by (simp add: slug_ok_def slug_open_def)
  moreover have "dropWhile (\<lambda>c. c = CHR ''-'') (rev s) = rev s"
    using ok by (cases s rule: rev_cases) (simp_all add: slug_ok_def)
  ultimately show ?thesis by (simp add: slugify_def)
qed

subsection \<open>Reading a JSON string literal\<close>

text \<open>The code unit four digits stand for, as a byte; what is no ASCII character is refused.\<close>

definition unit_of :: "char \<Rightarrow> char \<Rightarrow> char \<Rightarrow> char \<Rightarrow> char option" where
  "unit_of a b x y =
     (case (hexval a, hexval b, hexval x, hexval y) of
        (Some i, Some j, Some k, Some l) \<Rightarrow>
          (let v = ((i * 16 + j) * 16 + k) * 16 + l in if v < 128 then Some (chr v) else None)
      | _ \<Rightarrow> None)"

fun json_read :: "string \<Rightarrow> (string \<times> string) option" where
  "json_read [] = None"
| "json_read (c # r) =
     (if c = DQ then Some ([], r)
      else if ord c < 32 then None
      else if c \<noteq> BSL then map_option (apfst ((#) c)) (json_read r)
      else case r of
        [] \<Rightarrow> None
      | e # r1 \<Rightarrow>
          if e = DQ \<or> e = BSL \<or> e = CHR ''/'' then map_option (apfst ((#) e)) (json_read r1)
          else if e = CHR ''n'' then map_option (apfst ((#) LF)) (json_read r1)
          else if e = CHR ''r'' then map_option (apfst ((#) CR)) (json_read r1)
          else if e = CHR ''t'' then map_option (apfst ((#) TAB)) (json_read r1)
          else if e = CHR ''u'' then
            (case r1 of
               a # b # x # y # r2 \<Rightarrow>
                 (case unit_of a b x y of
                    Some d \<Rightarrow> map_option (apfst ((#) d)) (json_read r2)
                  | None \<Rightarrow> None)
             | _ \<Rightarrow> None)
          else None)"

lemma hexval_lower: "n < 16 \<Longrightarrow> hexval (hex_lower n) = Some n"
proof (cases "n < 10")
  case True
  then have "ord (hex_lower n) = 48 + n" unfolding hex_lower_def by (simp add: ord_chr)
  then show ?thesis using True by (simp add: hexval_def isdigit_def)
next
  case False
  moreover assume "n < 16"
  ultimately have "ord (hex_lower n) = 87 + n" unfolding hex_lower_def by (simp add: ord_chr)
  then show ?thesis using False \<open>n < 16\<close> by (simp add: hexval_def isdigit_def)
qed

lemma unit_of_byte:
  assumes "v < 128"
  shows "unit_of (CHR ''0'') (CHR ''0'') (hex_lower (v div 16)) (hex_lower (v mod 16)) = Some (chr v)"
proof -
  have "hexval (CHR ''0'') = Some 0" by (simp add: hexval_def isdigit_def)
  moreover have "v div 16 < 16" using assms by simp
  moreover have "v div 16 * 16 + v mod 16 = v" by simp
  ultimately show ?thesis using assms hexval_lower [of "v div 16"] hexval_lower [of "v mod 16"] by (simp add: unit_of_def Let_def)
qed

lemma json_read_esc: "json_read (json_esc c @ t) = map_option (apfst ((#) c)) (json_read t)"
proof (cases "ord c < 32 \<and> c \<notin> {LF, CR, TAB}")
  case True
  then have "json_esc c = BSL # ''u00'' @ [hex_lower (ord c div 16), hex_lower (ord c mod 16)]" by (auto simp: json_esc_def)
  then show ?thesis using unit_of_byte [of "ord c"] True by simp
next
  case False
  then show ?thesis by (auto simp: json_esc_def)
qed

lemma json_read_escaped: "json_read (json_escape_alloc s @ DQ # rest) = Some (s, rest)"
proof (induction s)
  case Nil
  then show ?case by (simp add: json_escape_alloc_def)
next
  case (Cons c s)
  have "json_escape_alloc (c # s) @ DQ # rest = json_esc c @ json_escape_alloc s @ DQ # rest"
    by (simp add: json_escape_alloc_def)
  with Cons show ?case by (simp only: json_read_esc) simp
qed

lemma json_esc_length: "length (json_esc c) \<le> 6"
  by (simp add: json_esc_def)

subsection \<open>Properties\<close>

text \<open>
  Replacing every occurrence of a needle whose first and last bytes are not in the
  replacement, and which does not contain the replacement, ends, and gives what one pass from
  left to right over the source gives: no occurrence is made by the text that was put in.
\<close>

theorem str_replace_all_one_pass:
  assumes "replace_safe needle replacement"
  shows "str_replace_all src needle replacement = Some (subst_all src needle replacement)"
proof (cases "strstr src needle")
  case None
  then show ?thesis by (simp add: str_replace_all.simps subst_all.simps contains_def)
next
  case (Some k)
  have n: "needle \<noteq> []" using assms by (simp add: replace_safe_def)
  have "strstr (take k src) needle = None"
    using strstr_append [of "take k src" needle _ "drop k src"] Some strstr_length [of "take k src" needle] n
    by (cases "strstr (take k src) needle") fastforce+
  from replace_all_past [OF assms this] show ?thesis
    using Some n by (simp add: str_replace_all.simps [of src] str_replace_first_def subst_all.simps [of src] contains_def)
qed

theorem str_replace_all_one_pass_witness:
  "replace_safe ''{{COLOR}}'' ''#C0FFEE''
   \<and> str_replace_all ''a{{COLOR}}b{{COLOR}}'' ''{{COLOR}}'' ''#C0FFEE'' = Some ''a#C0FFEEb#C0FFEE''"
proof -
  have s: "replace_safe ''{{COLOR}}'' ''#C0FFEE''" by (simp add: replace_safe_def contains_def)
  have "subst_all ''a{{COLOR}}b{{COLOR}}'' ''{{COLOR}}'' ''#C0FFEE'' = ''a#C0FFEEb#C0FFEE''" by (simp add: subst_all.simps)
  with str_replace_all_one_pass [OF s, of "''a{{COLOR}}b{{COLOR}}''"] s show ?thesis by simp
qed

text \<open>
  When the replacement contains the needle and the source does, the loop that replaces every
  occurrence never ends: a site named with the placeholder of the site's name is such a case.
\<close>

theorem str_replace_all_never_ends:
  assumes "contains src needle" "contains replacement needle"
  shows "str_replace_all src needle replacement = None"
  using replace_all_returns [of src needle replacement] assms by (cases "str_replace_all src needle replacement") auto

theorem str_replace_all_never_ends_witness:
  "str_replace_all ''<title>{{SITE_NAME}}</title>'' ''{{SITE_NAME}}'' ''My {{SITE_NAME}}'' = None"
  by (rule str_replace_all_never_ends) (simp_all add: contains_def)

text \<open>
  A slug is words of lower-case letters and digits with single hyphens between them, and the
  slug of a slug is the slug itself.
\<close>

theorem slugify_normal_form:
  "slug_ok (slugify name) \<and> slugify (Some (slugify name)) = slugify name"
proof -
  have "slug_open []" by (simp add: slug_open_def contains_def)
  then have "slug_ok (slugify name)"
    using slug_trim_ok [OF slug_loop_open] by (cases name) (simp_all add: slugify_def slug_ok_def contains_def)
  with slug_ok_fixed show ?thesis by blast
qed

text \<open>
  A JSON reader that meets the escaped text and a closing quote gives back the text and stops
  at that quote, so that no text can end its literal; the escaped text fits the buffer of six
  bytes for every byte of the text.
\<close>

theorem json_escape_roundtrip:
  "json_read (json_escape_alloc src @ DQ # rest) = Some (src, rest) \<and> length (json_escape_alloc src) \<le> length src * 6"
proof -
  have "length (json_escape_alloc src) \<le> length src * 6"
    using json_esc_length by (induction src) (auto simp: json_escape_alloc_def intro: add_mono)
  with json_read_escaped show ?thesis by blast
qed

end
