(* ===== verification/Comment_Text.thy ===== *)
theory Comment_Text
  imports Http_Utils Text_Utils Html_Text
begin

text \<open>
  The texts of blog comments (src/src/modules/comments/comments.c): the fields of the form, their
  conversion to UTF-8, the checks of names and comments, and how a comment is written into a
  page. A buffer changed in place is the string it holds afterwards; a message is Some text, and
  None when there is nothing to say. Running out of memory is not modelled.
\<close>

definition COMMENT_NAME_MIN :: nat where "COMMENT_NAME_MIN = 2"
definition COMMENT_NAME_MAX :: nat where "COMMENT_NAME_MAX = 40"
definition COMMENT_TEXT_MAX :: nat where "COMMENT_TEXT_MAX = 2000"

subsection \<open>Form fields\<close>

definition form_field :: "string \<Rightarrow> string \<Rightarrow> nat \<Rightarrow> bool \<times> string" where
  "form_field body key bytes =
     (case find (\<lambda>p. length key < length p \<and> take (length key) p = key \<and> p ! length key = CHR ''='') (split_on (CHR ''&'') body) of
        None \<Rightarrow> (False, [])
      | Some p \<Rightarrow> (True, fit bytes (cstr (url_decode (cstr (drop (length key + 1) p))))))"

subsection \<open>UTF-8\<close>

definition CP1252_HIGH :: "nat list" where
  "CP1252_HIGH =
     [0x20AC, 0, 0x201A, 0x0192, 0x201E, 0x2026, 0x2020, 0x2021, 0x02C6, 0x2030, 0x0160, 0x2039, 0x0152, 0, 0x017D, 0,
      0, 0x2018, 0x2019, 0x201C, 0x201D, 0x2022, 0x2013, 0x2014, 0x02DC, 0x2122, 0x0161, 0x203A, 0x0153, 0, 0x017E, 0x0178]"

definition cp1252_point :: "char \<Rightarrow> nat" where
  "cp1252_point c =
     (if ord c < 128 then ord c else if ord c < 160 then CP1252_HIGH ! (ord c - 128) else ord c)"

definition utf8_bytes :: "nat \<Rightarrow> string" where
  "utf8_bytes cp =
     (if cp = 0 then []
      else if cp < 128 then [chr cp]
      else if cp < 2048 then [chr (192 + cp div 64), chr (128 + cp mod 64)]
      else [chr (224 + cp div 4096), chr (128 + cp div 64 mod 64), chr (128 + cp mod 64)])"

definition to_utf8 :: "string \<Rightarrow> nat \<Rightarrow> int \<times> string" where
  "to_utf8 s bytes =
     (if valid_utf8 s then (0, s)
      else (let out = concat (map (\<lambda>c. utf8_bytes (cp1252_point c)) s)
            in if length out < bytes then (0, out) else (- 1, s)))"

subsection \<open>Names and comments\<close>

definition comment_trim :: "string \<Rightarrow> string" where
  "comment_trim s = rev (dropWhile isspace (rev (dropWhile isspace s)))"

text \<open>
  The loop over the name, with what is written so far and whether a space waits: the whole name,
  or what was written when a character is refused.
\<close>

definition name_char :: "char \<Rightarrow> bool" where
  "name_char c \<longleftrightarrow> \<not> (ord c < 128 \<and> \<not> isalnum c \<and> c \<notin> {CHR ''.'', CHR ''_'', CHR ''-'', SQ})"

fun name_loop :: "string \<Rightarrow> bool \<Rightarrow> string \<Rightarrow> string + string" where
  "name_loop w space [] = Inr w"
| "name_loop w space (c # r) =
     (if c = CHR '' '' \<or> c = TAB then name_loop w True r
      else if \<not> name_char c then Inl w
      else name_loop (w @ (if space \<and> w \<noteq> [] then '' '' else []) @ [c]) False r)"

definition clean_name :: "string \<Rightarrow> string option \<times> string" where
  "clean_name name =
     (let t = comment_trim name in
      case name_loop [] False t of
        Inl w \<Rightarrow> (Some (''Your name may only use letters, digits, spaces and . _ - '' @ [SQ]), w @ drop (length w) t)
      | Inr w \<Rightarrow>
          if \<not> valid_utf8 w then (Some (''Your name has characters we can'' @ [SQ] @ ''t read.''), w)
          else if length w < COMMENT_NAME_MIN then (Some ''Please give a name (at least 2 characters).'', w)
          else if length w > COMMENT_NAME_MAX then (Some ''Your name is too long.'', w)
          else (None, w))"

definition text_char_out :: "char \<Rightarrow> string" where
  "text_char_out c0 =
     (if c0 = CR then []
      else (let c = (if c0 = TAB then CHR '' '' else c0)
            in if ord c < 32 \<and> c \<noteq> LF then [] else if ord c = 127 then [] else [c]))"

definition clean_text :: "string \<Rightarrow> string option \<times> string" where
  "clean_text t0 =
     (let t = comment_trim (concat (map text_char_out t0)) in
      if \<not> valid_utf8 t then (Some (''Your comment has characters we can'' @ [SQ] @ ''t read.''), t)
      else if t = [] then (Some ''Please write a comment.'', t)
      else if length t > COMMENT_TEXT_MAX then (Some ''Your comment is too long (2000 characters at most).'', t)
      else (None, t))"

subsection \<open>Into the page\<close>

definition html_encode_alloc :: "string \<Rightarrow> string" where
  "html_encode_alloc src = html_encode src (length src * 6 + 1)"

definition text_html :: "string \<Rightarrow> string" where
  "text_html t = concat (map (\<lambda>c. if c = LF then ''<br>'' else [c]) (html_encode_alloc t))"

text \<open>\<open>epoch_wml\<close> says whether the page is for a WAP browser.\<close>

definition wml_safe :: "string \<Rightarrow> bool \<Rightarrow> string" where
  "wml_safe html epoch_wml =
     (if \<not> epoch_wml \<or> CHR ''$'' \<notin> set html then html
      else concat (map (\<lambda>c. if c = CHR ''$'' then ''$$'' else [c]) html))"

subsection \<open>Conversion to UTF-8\<close>

lemma valid_utf8_append: "valid_utf8 a \<Longrightarrow> valid_utf8 (a @ b) \<longleftrightarrow> valid_utf8 b"
  by (induction a rule: valid_utf8.induct) (auto split: option.splits)

lemma utf8_bytes_valid:
  assumes "cp < 65536"
  shows "valid_utf8 (utf8_bytes cp)"
proof -
  consider "cp < 128" | "128 \<le> cp" "cp < 2048" | "2048 \<le> cp" by linarith
  then show ?thesis
  proof cases
    case 1
    then show ?thesis by (simp add: utf8_bytes_def utf8_more_def)
  next
    case 2
    then have "cp div 64 < 32" by (simp add: less_mult_imp_div_less)
    then have "utf8_more (chr (192 + cp div 64)) = Some 1" by (simp add: utf8_more_def)
    moreover have "utf8_cont (chr (128 + cp mod 64))" by (simp add: utf8_cont_def)
    ultimately show ?thesis using 2 by (simp add: utf8_bytes_def)
  next
    case 3
    define d where "d = cp div 4096"
    have d: "d < 16" unfolding d_def using assms by (simp add: less_mult_imp_div_less)
    then have "(224 + d) div 16 = 14" "(224 + d) div 32 = 7" by (intro div_nat_eqI; simp)+
    then have "utf8_more (chr (224 + d)) = Some 2" using d by (simp add: utf8_more_def)
    then have "utf8_more (chr (224 + cp div 4096)) = Some 2" by (simp only: d_def)
    moreover have "utf8_cont (chr (128 + cp div 64 mod 64))" "utf8_cont (chr (128 + cp mod 64))" by (simp_all add: utf8_cont_def)
    ultimately show ?thesis using 3 by (simp add: utf8_bytes_def numeral_2_eq_2)
  qed
qed

lemma cp1252_point_bound: "cp1252_point c < 65536"
proof -
  have "list_all (\<lambda>n. n < 65536) CP1252_HIGH" "length CP1252_HIGH = 32" by (simp_all add: CP1252_HIGH_def)
  then have "CP1252_HIGH ! (ord c - 128) < 65536" if "ord c < 160" "\<not> ord c < 128"
    using that by (simp add: list_all_length)
  moreover have "ord c < 65536" using ord_less_256 [of c] by linarith
  ultimately show ?thesis by (simp add: cp1252_point_def)
qed

lemma cp1252_valid: "valid_utf8 (concat (map (\<lambda>c. utf8_bytes (cp1252_point c)) s))"
  by (induction s) (simp_all add: valid_utf8_append utf8_bytes_valid cp1252_point_bound)

subsection \<open>Accepted names\<close>

text \<open>Names so far: characters of a name and single spaces, the first of them no space.\<close>

definition name_open :: "string \<Rightarrow> bool" where
  "name_open w \<longleftrightarrow>
     list_all (\<lambda>c. name_char c \<or> c = CHR '' '') w \<and> (w \<noteq> [] \<longrightarrow> hd w \<noteq> CHR '' '') \<and> \<not> contains w ''  ''"

definition comment_name_ok :: "string \<Rightarrow> bool" where
  "comment_name_ok w \<longleftrightarrow>
     name_open w \<and> (w \<noteq> [] \<longrightarrow> last w \<noteq> CHR '' '') \<and> valid_utf8 w
     \<and> COMMENT_NAME_MIN \<le> length w \<and> length w \<le> COMMENT_NAME_MAX"

lemma name_char_plain: "name_char c \<Longrightarrow> c \<noteq> CHR '' '' \<and> c \<noteq> TAB \<and> \<not> isspace c"
  by (auto simp: name_char_def ctype_defs)

lemma name_open_char: "name_open w \<Longrightarrow> name_char c \<Longrightarrow> name_open (w @ [c])"
  using name_char_plain [of c] by (simp add: name_open_def contains_snoc hd_append)

lemma name_open_space: "name_open w \<Longrightarrow> w \<noteq> [] \<Longrightarrow> last w \<noteq> CHR '' '' \<Longrightarrow> name_open (w @ '' '')"
  by (simp add: name_open_def contains_snoc hd_append)

lemma name_open_butlast: "name_open (s @ [c]) \<Longrightarrow> name_open s"
  by (auto simp: name_open_def contains_snoc hd_append split: if_splits)

lemma name_open_prefix: "name_open (a @ b) \<Longrightarrow> name_open a"
  by (induction b rule: rev_induct) (simp, metis append_assoc name_open_butlast)

lemma name_loop_shape:
  "name_loop w sp s = Inr v \<Longrightarrow> name_open w \<Longrightarrow> (w \<noteq> [] \<longrightarrow> last w \<noteq> CHR '' '') \<Longrightarrow>
   name_open v \<and> (v \<noteq> [] \<longrightarrow> last v \<noteq> CHR '' '')"
proof (induction w sp s rule: name_loop.induct)
  case (2 w sp c r)
  show ?case
  proof (cases "c = CHR '' '' \<or> c = TAB")
    case True
    then show ?thesis using 2 by simp
  next
    case False
    then have c: "name_char c" using 2(3) by (simp split: if_splits)
    have "name_open (w @ (if sp \<and> w \<noteq> [] then '' '' else []) @ [c])"
      using name_open_char [OF 2(4) c] name_open_char [OF name_open_space [OF 2(4)] c] 2(5) by simp
    moreover have "c \<noteq> CHR '' ''" using c name_char_plain by blast
    ultimately show ?thesis using 2(2) [OF False] 2(3) False c by simp
  qed
qed simp

lemma name_loop_id:
  "name_open (w @ s) \<Longrightarrow> (s \<noteq> [] \<longrightarrow> last s \<noteq> CHR '' '') \<Longrightarrow> (w \<noteq> [] \<longrightarrow> last w \<noteq> CHR '' '') \<Longrightarrow> name_loop w False s = Inr (w @ s)"
proof (induction s arbitrary: w rule: length_induct)
  case (1 s)
  show ?case
  proof (cases s)
    case (Cons c r)
    have ok: "name_char c \<or> c = CHR '' ''" using 1(2) Cons by (simp add: name_open_def)
    show ?thesis
    proof (cases "c = CHR '' ''")
      case True
      then obtain d r1 where r: "r = d # r1" using 1(3) Cons by (cases r) auto
      have wd: "name_open ((w @ '' '') @ [d])" using name_open_prefix [of "w @ [c, d]" r1] 1(2) Cons r True by simp
      then have d: "d \<noteq> CHR '' ''" and w: "w \<noteq> []" and dc: "name_char d"
        unfolding name_open_def contains_snoc by (auto simp: hd_append split: if_splits)
      have "name_loop w False s = name_loop (w @ '' '' @ [d]) False r1"
        using True r Cons w dc name_char_plain [OF dc] by simp
      also have "\<dots> = Inr ((w @ '' '' @ [d]) @ r1)"
        using 1(1) [rule_format, of r1 "w @ '' '' @ [d]"] 1(2,3) d True r Cons by (simp split: if_splits)
      finally show ?thesis using True r Cons by simp
    next
      case False
      then have c: "name_char c" using ok by simp
      have "name_loop w False s = name_loop (w @ [c]) False r" using Cons c name_char_plain [OF c] by simp
      also have "\<dots> = Inr ((w @ [c]) @ r)"
        using 1(1) [rule_format, of r "w @ [c]"] 1(2,3) False Cons by (simp split: if_splits)
      finally show ?thesis using Cons by simp
    qed
  qed simp
qed

lemma comment_trim_id:
  assumes "s \<noteq> [] \<longrightarrow> \<not> isspace (hd s) \<and> \<not> isspace (last s)"
  shows "comment_trim s = s"
proof -
  have "dropWhile isspace s = s" using assms by (cases s) simp_all
  moreover have "dropWhile isspace (rev s) = rev s" using assms by (cases s rule: rev_cases) simp_all
  ultimately show ?thesis by (simp add: comment_trim_def)
qed

lemma comment_trim_ends:
  "comment_trim s \<noteq> [] \<longrightarrow> \<not> isspace (hd (comment_trim s)) \<and> \<not> isspace (last (comment_trim s))"
proof
  let ?a = "dropWhile isspace s"
  let ?t = "comment_trim s"
  assume ne: "?t \<noteq> []"
  then have d: "dropWhile isspace (rev ?a) \<noteq> []" by (simp add: comment_trim_def)
  then have "\<not> isspace (last ?t)" using hd_dropWhile [OF d] by (simp add: comment_trim_def last_rev)
  moreover have "?a = ?t @ rev (takeWhile isspace (rev ?a))"
    unfolding comment_trim_def by (metis rev_append rev_rev_ident takeWhile_dropWhile_id)
  then have "hd ?t = hd ?a" "?a \<noteq> []" using ne by (metis hd_append2, metis append_is_Nil_conv)
  then have "\<not> isspace (hd ?t)" using hd_dropWhile [of isspace s] by simp
  ultimately show "\<not> isspace (hd ?t) \<and> \<not> isspace (last ?t)" by blast
qed

lemma comment_name_ok_fixed:
  assumes "comment_name_ok w"
  shows "clean_name w = (None, w)"
proof -
  have w: "w \<noteq> []" "name_open w" "last w \<noteq> CHR '' ''" using assms by (auto simp: comment_name_ok_def COMMENT_NAME_MIN_def)
  have sp: "\<not> isspace c" if "c \<in> set w" "c \<noteq> CHR '' ''" for c
    using that w(2) name_char_plain [of c] by (auto simp: name_open_def list_all_iff)
  have "hd w \<noteq> CHR '' ''" using w by (simp add: name_open_def)
  then have "comment_trim w = w" using sp w by (intro comment_trim_id) simp
  moreover have "name_loop [] False w = Inr w" using name_loop_id [of "[]" w] w by simp
  ultimately show ?thesis using assms by (simp add: clean_name_def Let_def comment_name_ok_def)
qed

lemma clean_name_accepts:
  assumes "clean_name s = (None, w)"
  shows "comment_name_ok w"
proof -
  have l: "name_loop [] False (comment_trim s) = Inr w" "valid_utf8 w" "COMMENT_NAME_MIN \<le> length w" "length w \<le> COMMENT_NAME_MAX"
    using assms by (auto simp: clean_name_def Let_def split: sum.splits if_splits)
  have "name_open []" by (simp add: name_open_def contains_def)
  from name_loop_shape [OF l(1) this] l show ?thesis by (simp add: comment_name_ok_def)
qed

subsection \<open>Accepted comments\<close>

definition comment_text_ok :: "string \<Rightarrow> bool" where
  "comment_text_ok t \<longleftrightarrow>
     list_all (\<lambda>c. c = LF \<or> (32 \<le> ord c \<and> ord c \<noteq> 127)) t \<and> t \<noteq> [] \<and> \<not> isspace (hd t) \<and> \<not> isspace (last t)
     \<and> valid_utf8 t \<and> length t \<le> COMMENT_TEXT_MAX"

lemma text_char_out_ok: "list_all (\<lambda>c. c = LF \<or> (32 \<le> ord c \<and> ord c \<noteq> 127)) (text_char_out c)"
  by (auto simp add: text_char_out_def Let_def not_less)

lemma text_char_out_id: "c = LF \<or> (32 \<le> ord c \<and> ord c \<noteq> 127) \<Longrightarrow> text_char_out c = [c]"
  by (auto simp: text_char_out_def Let_def)

lemma comment_trim_set: "set (comment_trim s) \<subseteq> set s"
  unfolding comment_trim_def by (auto dest!: set_dropWhileD)

lemma clean_text_accepts:
  assumes "clean_text s = (None, t)"
  shows "comment_text_ok t"
proof -
  let ?o = "concat (map text_char_out s)"
  have t: "t = comment_trim ?o" "valid_utf8 t" "t \<noteq> []" "length t \<le> COMMENT_TEXT_MAX"
    using assms by (auto simp: clean_text_def Let_def split: if_splits)
  have "list_all (\<lambda>c. c = LF \<or> (32 \<le> ord c \<and> ord c \<noteq> 127)) ?o" using text_char_out_ok by (induction s) simp_all
  then have "list_all (\<lambda>c. c = LF \<or> (32 \<le> ord c \<and> ord c \<noteq> 127)) t" using comment_trim_set [of ?o] unfolding t(1) list_all_iff by blast
  then show ?thesis using t comment_trim_ends [of ?o] by (simp add: comment_text_ok_def)
qed

lemma comment_text_ok_fixed: "comment_text_ok t \<Longrightarrow> clean_text t = (None, t)"
proof -
  assume ok: "comment_text_ok t"
  then have "list_all (\<lambda>c. c = LF \<or> (32 \<le> ord c \<and> ord c \<noteq> 127)) t" by (simp add: comment_text_ok_def)
  then have "concat (map text_char_out t) = t" by (induction t) (simp_all add: text_char_out_id)
  moreover have "comment_trim t = t" using ok by (intro comment_trim_id) (simp add: comment_text_ok_def)
  ultimately show ?thesis using ok by (simp add: clean_text_def Let_def comment_text_ok_def)
qed

subsection \<open>Escaping into a buffer of six bytes for each\<close>

lemma html_enc_length: "length (html_enc c) \<le> 6 \<and> (length (html_enc c) = 6 \<longleftrightarrow> c = DQ)"
  by (simp add: html_enc_def)

lemma html_enc_safe: "CHR ''<'' \<notin> set (html_enc c)" "DQ \<notin> set (html_enc c)"
  by (auto simp: html_enc_def)

lemma html_enc_total: "length (concat (map html_enc s)) \<le> 6 * length s"
  using html_enc_length by (induction s) (auto intro: add_mono)

lemma html_enc_room: "\<exists>c\<in>set s. c \<noteq> DQ \<Longrightarrow> length (concat (map html_enc s)) < 6 * length s"
proof (induction s)
  case (Cons c s)
  have "length (html_enc c) < 6" if "c \<noteq> DQ" using html_enc_length [of c] that by auto
  then show ?case using Cons html_enc_length [of c] html_enc_total [of s] by fastforce
qed simp

lemma html_encode_quotes: "html_encode_loop (6 * Suc n) (replicate (Suc n) DQ) = concat (map html_enc (replicate n DQ))"
proof (induction n)
  case (Suc n)
  have "html_encode_loop (6 * Suc (Suc n)) (replicate (Suc (Suc n)) DQ) = ''&quot;'' @ html_encode_loop (6 * Suc n) (replicate (Suc n) DQ)"
    by simp
  then show ?case by (simp only: Suc.IH) (simp add: html_enc_def)
qed simp

lemma quotes_cases:
  obtains "t = []" | n where "t = replicate (Suc n) DQ" | "t \<noteq> []" "\<not> list_all (\<lambda>c. c = DQ) t" "\<exists>c\<in>set t. c \<noteq> DQ"
proof (cases "t = [] \<or> \<not> list_all (\<lambda>c. c = DQ) t")
  case True
  then show ?thesis using that(1,3) by (auto simp: list_all_iff)
next
  case False
  then obtain c r where t: "t = c # r" by (cases t) auto
  have "t = replicate (length t) DQ" using False by (intro replicate_eqI) (simp_all add: list_all_iff)
  then show ?thesis using that(2) [of "length r"] t by simp
qed

lemma html_encode_alloc_all: "\<exists>c\<in>set s. c \<noteq> DQ \<Longrightarrow> html_encode_alloc s = concat (map html_enc s)"
  using html.loop_all [of s "6 * length s"] html_enc_room [of s] by (simp add: html_encode_alloc_def html_encode_def mult.commute)

lemma html_encode_alloc_quotes: "html_encode_alloc (replicate (Suc n) DQ) = concat (map html_enc (replicate n DQ))"
  using html_encode_quotes [of n] by (simp add: html_encode_alloc_def html_encode_def mult.commute)

lemma breaks_of_enc: "concat (map (\<lambda>c. if c = LF then ''<br>'' else [c]) (html_enc c)) = (if c = LF then ''<br>'' else html_enc c)"
  by (simp add: html_enc_def)

lemma text_html_all:
  assumes "\<exists>c\<in>set t. c \<noteq> DQ"
  shows "text_html t = concat (map (\<lambda>c. if c = LF then ''<br>'' else html_enc c) t)"
  unfolding text_html_def html_encode_alloc_all [OF assms]
  by (induction t) (simp_all add: breaks_of_enc)

lemma displays_html_enc: "displays (if c = LF then ''<br>'' else html_enc c) [c]"
  by (simp add: displays_def html_enc_def shown.simps)

lemma displays_comment: "displays (concat (map (\<lambda>c. if c = LF then ''<br>'' else html_enc c) t)) t"
proof (induction t)
  case (Cons c t)
  from displays_append [OF displays_html_enc [of c] Cons] show ?case by simp
qed (simp add: displays_nil)

subsection \<open>Plain comments\<close>

lemma cstr_plain: "list_all isalnum t \<Longrightarrow> cstr t = t"
  by (rule cstr_id) (auto simp: list_all_iff ctype_defs)

lemma isalnum_plain: "isalnum c \<Longrightarrow> c \<noteq> CHR ''%'' \<and> c \<noteq> CHR ''+'' \<and> c \<noteq> CHR ''&'' \<and> c \<noteq> CHR ''='' \<and> ord c < 128 \<and> \<not> isspace c
   \<and> 32 \<le> ord c \<and> ord c \<noteq> 127"
  by (auto simp: ctype_defs)

lemma url_decode_plain: "list_all isalnum t \<Longrightarrow> url_decode t = t"
  by (induction t) (simp_all add: isalnum_plain)

lemma valid_utf8_plain: "list_all isalnum t \<Longrightarrow> valid_utf8 t"
  by (induction t) (simp_all add: utf8_more_def isalnum_plain)

lemma clean_text_plain:
  assumes "list_all isalnum t" "t \<noteq> []" "length t \<le> COMMENT_TEXT_MAX"
  shows "clean_text t = (None, t)"
proof (rule comment_text_ok_fixed)
  have "\<not> isspace (hd t)" "\<not> isspace (last t)" using assms(1,2) isalnum_plain by (simp_all add: list_all_iff)
  moreover have "list_all (\<lambda>c. c = LF \<or> (32 \<le> ord c \<and> ord c \<noteq> 127)) t"
    using assms(1) isalnum_plain unfolding list_all_iff by blast
  ultimately show "comment_text_ok t" using assms valid_utf8_plain [OF assms(1)] by (simp add: comment_text_ok_def)
qed

lemma list_all_take: "list_all P t \<Longrightarrow> list_all P (take n t)"
  by (auto simp: list_all_iff dest: in_set_takeD)

lemma form_field_plain:
  assumes "list_all isalnum t"
  shows "form_field (''text='' @ t) ''text'' n = (True, fit n t)"
proof -
  have "CHR ''&'' \<notin> set (''text='' @ t)" using assms isalnum_plain by (auto simp: list_all_iff)
  then have "split_on (CHR ''&'') (''text='' @ t) = [''text='' @ t]" by (rule split_on_no_sep)
  then show ?thesis using assms by (simp add: form_field_def cstr_plain url_decode_plain)
qed

subsection \<open>Properties\<close>

text \<open>
  Converting a field never makes it wrong: after a successful conversion the field is UTF-8
  as the checks read it and fits its array, and a field that was UTF-8 is left as it was.
\<close>

theorem to_utf8_valid:
  assumes "length s < bytes"
  shows "(fst (to_utf8 s bytes) = 0 \<longrightarrow> valid_utf8 (snd (to_utf8 s bytes)))
    \<and> length (snd (to_utf8 s bytes)) < bytes
    \<and> (valid_utf8 s \<longrightarrow> to_utf8 s bytes = (0, s))"
  using assms cp1252_valid [of s] by (simp add: to_utf8_def Let_def)

theorem to_utf8_valid_witness:
  "to_utf8 [CHR ''c'', CHR ''a'', CHR ''f'', CHR 0xE9] 8 = (0, [CHR ''c'', CHR ''a'', CHR ''f'', CHR 0xC3, CHR 0xA9])
   \<and> valid_utf8 [CHR ''c'', CHR ''a'', CHR ''f'', CHR 0xC3, CHR 0xA9]"
proof -
  have "to_utf8 [CHR ''c'', CHR ''a'', CHR ''f'', CHR 0xE9] 8 = (0, [CHR ''c'', CHR ''a'', CHR ''f'', CHR 0xC3, CHR 0xA9])"
    by code_simp
  then show ?thesis using to_utf8_valid [of "[CHR ''c'', CHR ''a'', CHR ''f'', CHR 0xE9]" 8] by simp
qed

text \<open>
  A name or a comment is accepted exactly when cleaning leaves one of the accepted form, and
  what was accepted is accepted again unchanged. A name has 2 to 40 bytes of UTF-8, of letters,
  digits, the four signs, bytes above ASCII and single spaces inside; a comment has up to 2000
  bytes of UTF-8, no control character but line feeds, and no white space at its ends.
\<close>

theorem cleaned_fields:
  "(fst (clean_name s) = None \<longrightarrow> comment_name_ok (snd (clean_name s)) \<and> clean_name (snd (clean_name s)) = (None, snd (clean_name s)))
   \<and> (fst (clean_text t) = None \<longrightarrow> comment_text_ok (snd (clean_text t)) \<and> clean_text (snd (clean_text t)) = (None, snd (clean_text t)))"
  using clean_name_accepts [of s "snd (clean_name s)"] comment_name_ok_fixed [of "snd (clean_name s)"]
    clean_text_accepts [of t "snd (clean_text t)"] comment_text_ok_fixed [of "snd (clean_text t)"]
  by (metis prod.collapse)

theorem cleaned_fields_witness:
  "clean_name ''  Ana  Maria '' = (None, ''Ana Maria'') \<and> comment_name_ok ''Ana Maria''
   \<and> clean_text [CHR ''h'', CHR ''i'', CR, LF] = (None, ''hi'') \<and> comment_text_ok ''hi''"
proof -
  have n: "clean_name ''  Ana  Maria '' = (None, ''Ana Maria'')" by code_simp
  have t: "clean_text [CHR ''h'', CHR ''i'', CR, LF] = (None, ''hi'')" by code_simp
  show ?thesis using cleaned_fields [of "''  Ana  Maria ''" "[CHR ''h'', CHR ''i'', CR, LF]"] n t by simp
qed

text \<open>
  A browser shows a comment as it was written, with its line breaks, unless the comment is
  nothing but double quotes: then the last of them is lost, since the buffer is six bytes for
  each and the escaper stops when an escape would fill it.
\<close>

theorem comment_shown:
  "(if t \<noteq> [] \<and> list_all (\<lambda>c. c = DQ) t then shown (text_html t) = butlast t else shown (text_html t) = t)
   \<and> CHR ''<'' \<notin> set (html_encode_alloc t) \<and> DQ \<notin> set (html_encode_alloc t)"
proof -
  have safe: "CHR ''<'' \<notin> set (html_encode_alloc t) \<and> DQ \<notin> set (html_encode_alloc t)"
    using html.loop_chars [of _ "length t * 6" t] html_enc_safe
    by (auto simp: html_encode_alloc_def html_encode_def)
  consider "t = []" | n where "t = replicate (Suc n) DQ" | "t \<noteq> []" "\<not> list_all (\<lambda>c. c = DQ) t" "\<exists>c\<in>set t. c \<noteq> DQ"
    by (rule quotes_cases)
  then show ?thesis
  proof cases
    case 1
    then show ?thesis by (simp add: text_html_def html_encode_alloc_def html_encode_def shown.simps)
  next
    case 2
    have "text_html t = concat (map (\<lambda>c. if c = LF then ''<br>'' else html_enc c) (replicate n DQ))"
      unfolding text_html_def 2 html_encode_alloc_quotes by (induction n) (simp_all add: breaks_of_enc)
    then have "shown (text_html t) = replicate n DQ" using displays_shown [OF displays_comment [of "replicate n DQ"]] by simp
    moreover have "list_all (\<lambda>c. c = DQ) t" "t \<noteq> []" "butlast t = replicate n DQ"
      unfolding 2 by (simp_all add: list_all_iff del: replicate_Suc) (simp add: replicate_append_same [symmetric])
    ultimately show ?thesis using safe by simp
  next
    case 3
    then show ?thesis using displays_shown [OF displays_comment [of t]] safe by (auto simp: text_html_all)
  qed
qed

text \<open>
  A comment of letters and digits that is longer than 2000 bytes is not refused: the field is
  cut to its array before its length is checked, and its first 2000 bytes are accepted.
\<close>

theorem long_comment_cut:
  assumes "list_all isalnum t" "length t > COMMENT_TEXT_MAX"
  shows "clean_text (snd (to_utf8 (snd (form_field (''text='' @ t) ''text'' (COMMENT_TEXT_MAX + 1))) (COMMENT_TEXT_MAX + 1)))
    = (None, take COMMENT_TEXT_MAX t)"
proof -
  have "list_all isalnum (take COMMENT_TEXT_MAX t)" using assms(1) by (rule list_all_take)
  moreover have "take COMMENT_TEXT_MAX t \<noteq> []" using assms(2) by (auto simp: COMMENT_TEXT_MAX_def)
  ultimately show ?thesis
    using form_field_plain [OF assms(1)] clean_text_plain [of "take COMMENT_TEXT_MAX t"] valid_utf8_plain [of "take COMMENT_TEXT_MAX t"]
    by (simp add: fit_def to_utf8_def)
qed

theorem long_comment_cut_witness:
  "clean_text (snd (to_utf8 (snd (form_field (''text='' @ replicate 5000 (CHR ''a'')) ''text'' (COMMENT_TEXT_MAX + 1))) (COMMENT_TEXT_MAX + 1)))
    = (None, take COMMENT_TEXT_MAX (replicate 5000 (CHR ''a'')))"
proof (rule long_comment_cut)
  show "list_all isalnum (replicate 5000 (CHR ''a''))" unfolding list_all_iff set_replicate_conv_if by (simp add: ctype_defs)
  show "length (replicate 5000 (CHR ''a'')) > COMMENT_TEXT_MAX" unfolding length_replicate COMMENT_TEXT_MAX_def by simp
qed

end
