(* ===== verification/Mailer.thy ===== *)
theory Mailer
  imports BR_Prelude
begin

text \<open>
  Outgoing mail (src/src/utils/mailer.c): the addresses it accepts, the message it builds, and the
  queue with its retries. The queue is the database's collection of messages, as a list; its
  find-and-modify takes a due message with the least time of its next attempt, the first of them
  in the collection's order. Base64, the date and the random id of a message, the clock, whether
  the database answers and whether the server of the other side takes the message are arguments.
  Every message has its number of attempts, since only mailer_enqueue writes messages (the code counts a document
  without one as at its first attempt). Between the claim of a message and the record of its outcome other
  threads can only add messages, which changes neither; a turn is one step.
\<close>

subsection \<open>Addresses\<close>

definition has_control :: "string \<Rightarrow> bool" where
  "has_control s \<longleftrightarrow> list_ex (\<lambda>c. ord c < 32 \<or> ord c = 127) s"

definition mailer_configured :: "string \<Rightarrow> string \<Rightarrow> bool" where
  "mailer_configured smtp_url mail_from \<longleftrightarrow> smtp_url \<noteq> [] \<and> mail_from \<noteq> []"

definition mailer_valid_address :: "string option \<Rightarrow> bool" where
  "mailer_valid_address a0 =
     (case a0 of
        None \<Rightarrow> False
      | Some a \<Rightarrow>
          if length a < 3 \<or> length a > 254 \<or> has_control a then False
          else (case strchr a (CHR ''@'') of
                  None \<Rightarrow> False
                | Some k \<Rightarrow>
                    let after = drop (k + 1) a in
                    if k = 0 \<or> CHR ''@'' \<in> set after \<or> after = [] then False
                    else (case strrchr after (CHR ''.'') of
                            None \<Rightarrow> False
                          | Some j \<Rightarrow>
                              if j = 0 \<or> drop (j + 1) after = [] then False
                              else list_all (\<lambda>c. c \<notin> set ('' <>(),;:[]'' @ [DQ, BSL])) a)))"

subsection \<open>Messages\<close>

definition header_text :: "(string \<Rightarrow> string) \<Rightarrow> string \<Rightarrow> string" where
  "header_text b64 s = (if list_all (\<lambda>c. ord c < 128) s then s else ''=?UTF-8?B?'' @ b64 s @ ''?='')"

definition crlf_body :: "string \<Rightarrow> string" where
  "crlf_body t = concat (map (\<lambda>c. if c = CR then [] else if c = LF then CRLF else [c]) t) @ CRLF"

record MailFrom =
  mail_from :: string
  mail_from_name :: string
  site_name :: "string option"

definition from_name :: "MailFrom \<Rightarrow> string" where
  "from_name m =
     (if mail_from_name m \<noteq> [] then mail_from_name m else case site_name m of Some s \<Rightarrow> s | None \<Rightarrow> ''Boat Rudder'')"

definition mail_domain :: "MailFrom \<Rightarrow> string" where
  "mail_domain m = (case strchr (mail_from m) (CHR ''@'') of Some k \<Rightarrow> drop k (mail_from m) | None \<Rightarrow> ''@localhost'')"

definition message_headers :: "(string \<Rightarrow> string) \<Rightarrow> MailFrom \<Rightarrow> string \<Rightarrow> string \<Rightarrow> string \<Rightarrow> string \<Rightarrow> string list" where
  "message_headers b64 m date rnd_id to subject =
     [''Date: '' @ date,
      ''From: '' @ header_text b64 (from_name m) @ '' <'' @ mail_from m @ ''>'',
      ''To: <'' @ to @ ''>'',
      ''Subject: '' @ header_text b64 subject,
      ''Message-ID: <'' @ rnd_id @ mail_domain m @ ''>'',
      ''MIME-Version: 1.0'',
      ''Content-Type: text/plain; charset=UTF-8'',
      ''Content-Transfer-Encoding: 8bit'']"

definition message_room :: "(string \<Rightarrow> string) \<Rightarrow> MailFrom \<Rightarrow> string \<Rightarrow> string \<Rightarrow> string \<Rightarrow> nat" where
  "message_room b64 m to subject t =
     length (header_text b64 (from_name m)) + length (header_text b64 subject) + length (crlf_body t) + length to + 512
     + length (mail_from m) * 2"

definition build_message ::
  "(string \<Rightarrow> string) \<Rightarrow> MailFrom \<Rightarrow> string \<Rightarrow> string \<Rightarrow> string \<Rightarrow> string \<Rightarrow> string \<Rightarrow> string" where
  "build_message b64 m date rnd_id to subject t =
     fit (message_room b64 m to subject t)
       (concat (map (\<lambda>l. l @ CRLF) (message_headers b64 m date rnd_id to subject)) @ CRLF @ crlf_body t)"

definition loopback_url :: "string \<Rightarrow> bool" where
  "loopback_url url =
     (let h = (case strstr url ''://'' of Some k \<Rightarrow> drop (k + 3) url | None \<Rightarrow> url)
      in prefix_ci ''localhost'' h \<or> prefix ''127.'' h \<or> prefix ''[::1]'' h)"

text \<open>The transport reads the message in pieces: the piece, and what is left.\<close>

definition read_payload :: "nat \<Rightarrow> string \<Rightarrow> string \<times> string" where
  "read_payload room data = (let n = min room (length data) in (take n data, drop n data))"

subsection \<open>The queue\<close>

datatype MailStatus = QUEUED | SENDING | SENT | FAILED

record MailDoc =
  d_id :: nat
  d_to :: string
  d_subject :: string
  d_text :: string
  d_status :: MailStatus
  d_attempts :: int
  d_next :: int

definition RETRY_MINUTES :: "int list" where "RETRY_MINUTES = [1, 5, 15, 60]"
definition MAX_ATTEMPTS :: int where "MAX_ATTEMPTS = 5"

definition mailer_enqueue ::
  "bool \<Rightarrow> bool \<Rightarrow> int \<Rightarrow> nat \<Rightarrow> string option \<Rightarrow> string option \<Rightarrow> string option \<Rightarrow> MailDoc list \<Rightarrow> int \<times> MailDoc list" where
  "mailer_enqueue configured db_ok now new_id to subject t q =
     (case (to, subject, t) of
        (Some a, Some s, Some b) \<Rightarrow>
          if \<not> configured \<or> \<not> mailer_valid_address (Some a) \<or> has_control s \<or> length s > 200 \<or> \<not> db_ok then (- 1, q)
          else (0, q @ [\<lparr>d_id = new_id, d_to = a, d_subject = s, d_text = b, d_status = QUEUED, d_attempts = 0, d_next = now * 1000\<rparr>])
      | _ \<Rightarrow> (- 1, q))"

definition mail_due :: "int \<Rightarrow> MailDoc \<Rightarrow> bool" where
  "mail_due now d \<longleftrightarrow> d_status d = QUEUED \<and> d_next d \<le> now"

definition next_due :: "int \<Rightarrow> MailDoc list \<Rightarrow> MailDoc option" where
  "next_due now q =
     (let ds = filter (mail_due now) q
      in find (\<lambda>d. list_all (\<lambda>e. d_next d \<le> d_next e) ds) ds)"

definition update_doc :: "nat \<Rightarrow> (MailDoc \<Rightarrow> MailDoc) \<Rightarrow> MailDoc list \<Rightarrow> MailDoc list" where
  "update_doc i f q = map (\<lambda>d. if d_id d = i then f d else d) q"

definition claim_doc :: "MailDoc \<Rightarrow> MailDoc" where
  "claim_doc d = d\<lparr>d_status := SENDING, d_attempts := d_attempts d + 1\<rparr>"

definition settle_doc :: "bool \<Rightarrow> int \<Rightarrow> MailDoc \<Rightarrow> MailDoc" where
  "settle_doc ok later d =
     (if ok then d\<lparr>d_status := SENT\<rparr>
      else if d_attempts d \<ge> MAX_ATTEMPTS then d\<lparr>d_status := FAILED\<rparr>
      else d\<lparr>d_status := QUEUED, d_next := later + RETRY_MINUTES ! nat (d_attempts d - 1) * 60 * 1000\<rparr>)"

record SendEnv =
  se_db_ok :: bool
  se_now :: int
  se_smtp_ok :: bool
  se_later :: int
  se_update_ok :: bool

definition send_next :: "SendEnv \<Rightarrow> MailDoc list \<Rightarrow> bool \<times> MailDoc list" where
  "send_next e q =
     (if \<not> se_db_ok e then (False, q)
      else case next_due (se_now e * 1000) q of
             None \<Rightarrow> (False, q)
           | Some d \<Rightarrow>
               let q1 = update_doc (d_id d) claim_doc q
               in (True, if se_update_ok e then update_doc (d_id d) (settle_doc (se_smtp_ok e) (se_later e * 1000)) q1 else q1))"

definition requeue_interrupted :: "MailDoc list \<Rightarrow> MailDoc list" where
  "requeue_interrupted q = map (\<lambda>d. if d_status d = SENDING then d\<lparr>d_status := QUEUED\<rparr> else d) q"

text \<open>The steps of the queue: a message is added, the sender takes a turn, the server starts again.\<close>

inductive mail_step :: "MailDoc list \<Rightarrow> MailDoc list \<Rightarrow> bool" where
  enqueue: "i \<notin> d_id ` set q \<Longrightarrow> mailer_enqueue c b now i to s t q = (0, q') \<Longrightarrow> mail_step q q'"
| turn: "send_next e q = (r, q') \<Longrightarrow> mail_step q q'"
| restart: "mail_step q (requeue_interrupted q)"

inductive mail_reachable :: "MailDoc list \<Rightarrow> bool" where
  empty: "mail_reachable []"
| step: "mail_reachable q \<Longrightarrow> mail_step q q' \<Longrightarrow> mail_reachable q'"

inductive_cases mail_step_cases: "mail_step q q'"

subsection \<open>The invariant of the queue\<close>

definition doc_ok :: "MailDoc \<Rightarrow> bool" where
  "doc_ok d \<longleftrightarrow> 0 \<le> d_attempts d \<and> mailer_valid_address (Some (d_to d)) \<and> \<not> has_control (d_subject d) \<and> length (d_subject d) \<le> 200"

definition queue_ok :: "MailDoc list \<Rightarrow> bool" where
  "queue_ok q \<longleftrightarrow> distinct (map d_id q) \<and> list_all doc_ok q"

lemma doc_ok_updates:
  "doc_ok d \<Longrightarrow> doc_ok (claim_doc d)" "doc_ok d \<Longrightarrow> doc_ok (settle_doc ok later d)" "doc_ok d \<Longrightarrow> doc_ok (d\<lparr>d_status := st\<rparr>)"
  "d_id (claim_doc d) = d_id d" "d_id (settle_doc ok later d) = d_id d"
  by (simp_all add: doc_ok_def claim_doc_def settle_doc_def)

lemma update_doc_ok:
  assumes "\<And>d. doc_ok d \<Longrightarrow> doc_ok (f d)" "\<And>d. d_id (f d) = d_id d"
  shows "queue_ok q \<Longrightarrow> queue_ok (update_doc i f q)"
proof -
  have "map d_id (update_doc i f q) = map d_id q" using assms(2) by (simp add: update_doc_def)
  then show "queue_ok q \<Longrightarrow> queue_ok (update_doc i f q)"
    using assms(1) by (simp add: queue_ok_def) (auto simp: update_doc_def list_all_iff)
qed

lemma send_next_ok: "queue_ok q \<Longrightarrow> queue_ok (snd (send_next e q))"
  by (simp add: send_next_def Let_def update_doc_ok doc_ok_updates split: option.split)

lemma enqueue_ok:
  "queue_ok q \<Longrightarrow> i \<notin> d_id ` set q \<Longrightarrow> queue_ok (snd (mailer_enqueue c b now i to s t q))"
  by (auto simp: mailer_enqueue_def queue_ok_def doc_ok_def split: option.split)

lemma requeue_ok: "queue_ok q \<Longrightarrow> queue_ok (requeue_interrupted q)"
proof -
  have "map d_id (requeue_interrupted q) = map d_id q" by (simp add: requeue_interrupted_def)
  then show "queue_ok q \<Longrightarrow> queue_ok (requeue_interrupted q)"
    by (simp add: queue_ok_def) (auto simp: requeue_interrupted_def list_all_iff doc_ok_updates)
qed

lemma mail_step_ok: "mail_step q q' \<Longrightarrow> queue_ok q \<Longrightarrow> queue_ok q'"
  by (erule mail_step_cases) (metis enqueue_ok snd_conv, metis send_next_ok snd_conv, simp add: requeue_ok)

lemma mail_reachable_ok: "mail_reachable q \<Longrightarrow> queue_ok q"
  by (induction rule: mail_reachable.induct) (simp add: queue_ok_def, rule mail_step_ok)

lemma find_SomeD: "find P xs = Some x \<Longrightarrow> x \<in> set xs \<and> P x"
  by (metis find_Some_iff nth_mem)

lemma next_due_in: "next_due now q = Some d \<Longrightarrow> d \<in> set q \<and> mail_due now d \<and> (\<forall>e\<in>set q. mail_due now e \<longrightarrow> d_next d \<le> d_next e)"
proof -
  assume n: "next_due now q = Some d"
  then have "d \<in> set (filter (mail_due now) q)" "list_all (\<lambda>e. d_next d \<le> d_next e) (filter (mail_due now) q)"
    unfolding next_due_def Let_def by (auto dest!: find_SomeD)
  then show ?thesis by (simp add: list_all_iff)
qed

lemma next_due_None: "next_due now q = None \<longleftrightarrow> list_all (\<lambda>d. \<not> mail_due now d) q"
proof
  let ?ds = "filter (mail_due now) q"
  assume n: "next_due now q = None"
  show "list_all (\<lambda>d. \<not> mail_due now d) q"
  proof (rule ccontr)
    assume "\<not> list_all (\<lambda>d. \<not> mail_due now d) q"
    then have "?ds \<noteq> []" by (auto simp: list_all_iff filter_empty_conv)
    then have "Min (d_next ` set ?ds) \<in> d_next ` set ?ds" by (metis List.finite_set Min_in finite_imageI image_is_empty set_empty)
    then obtain d where d: "d \<in> set ?ds" "d_next d = Min (d_next ` set ?ds)" by auto
    have "\<forall>e\<in>set ?ds. d_next d \<le> d_next e" unfolding d(2) by (intro ballI Min_le) auto
    then show False using n d(1) unfolding next_due_def Let_def find_None_iff list_all_iff by blast
  qed
qed (auto simp: next_due_def Let_def find_None_iff list_all_iff)

lemma distinct_id: "distinct (map d_id q) \<Longrightarrow> d \<in> set q \<Longrightarrow> e \<in> set q \<Longrightarrow> d_id d = d_id e \<Longrightarrow> d = e"
  by (metis distinct_map inj_onD)

text \<open>A turn that handles a message changes that message and no other.\<close>

lemma send_next_first_due:
  assumes "queue_ok q" "send_next e q = (True, q')"
  obtains d where "d \<in> set q" "d_status d = QUEUED" "d_next d \<le> se_now e * 1000"
    "\<forall>x\<in>set q. d_status x = QUEUED \<and> d_next x \<le> se_now e * 1000 \<longrightarrow> d_next d \<le> d_next x" "0 \<le> d_attempts d"
    "q' = map (\<lambda>x. if x = d then (if se_update_ok e then settle_doc (se_smtp_ok e) (se_later e * 1000) (claim_doc d) else claim_doc d) else x) q"
proof -
  obtain d where d: "next_due (se_now e * 1000) q = Some d"
    using assms(2) by (auto simp: send_next_def split: if_splits option.splits)
  have in_q: "d \<in> set q" "mail_due (se_now e * 1000) d" "\<forall>x\<in>set q. mail_due (se_now e * 1000) x \<longrightarrow> d_next d \<le> d_next x"
    using next_due_in [OF d] by simp_all
  have "0 \<le> d_attempts d" using assms(1) in_q(1) by (auto simp: queue_ok_def list_all_iff doc_ok_def)
  moreover have "d_id x = d_id d \<longleftrightarrow> x = d" if "x \<in> set q" for x
    using distinct_id [of q x d] assms(1) in_q that by (auto simp: queue_ok_def)
  then have "q' = map (\<lambda>x. if x = d then (if se_update_ok e then settle_doc (se_smtp_ok e) (se_later e * 1000) (claim_doc d) else claim_doc d) else x) q"
    using assms(2) d by (auto simp: send_next_def Let_def update_doc_def doc_ok_updates split: if_splits)
  ultimately show ?thesis using that [of d] in_q by (simp add: mail_due_def)
qed

lemma send_next_handles:
  assumes "queue_ok q" "send_next e q = (True, q')"
  obtains d where "d \<in> set q" "d_status d = QUEUED" "d_next d \<le> se_now e * 1000"
    "q' = map (\<lambda>x. if x = d then (if se_update_ok e then settle_doc (se_smtp_ok e) (se_later e * 1000) (claim_doc d) else claim_doc d) else x) q"
  by (rule send_next_first_due [OF assms])

subsection \<open>Turns left\<close>

definition turns_left :: "MailDoc \<Rightarrow> nat" where
  "turns_left d = (if d_status d = QUEUED then nat (max 1 (MAX_ATTEMPTS - d_attempts d)) else 0)"

definition queue_turns :: "MailDoc list \<Rightarrow> nat" where
  "queue_turns q = sum_list (map turns_left q)"

lemma settle_turns: "d_status d = QUEUED \<Longrightarrow> 0 \<le> d_attempts d \<Longrightarrow>
   turns_left (if u then settle_doc ok later (claim_doc d) else claim_doc d) < turns_left d"
  by (auto simp: turns_left_def settle_doc_def claim_doc_def MAX_ATTEMPTS_def)

lemma sum_list_less:
  fixes f g :: "'a \<Rightarrow> nat"
  shows "x \<in> set xs \<Longrightarrow> f x < g x \<Longrightarrow> (\<And>y. y \<in> set xs \<Longrightarrow> f y \<le> g y) \<Longrightarrow> sum_list (map f xs) < sum_list (map g xs)"
proof (induction xs)
  case (Cons y xs)
  have le: "sum_list (map f xs) \<le> sum_list (map g xs)" using Cons.prems(3) by (intro sum_list_mono) simp
  show ?case
  proof (cases "x = y")
    case True
    then show ?thesis using le Cons.prems(2) by simp
  next
    case False
    then have "sum_list (map f xs) < sum_list (map g xs)" using Cons by simp
    moreover have "f y \<le> g y" using Cons.prems(3) by simp
    ultimately show ?thesis by simp
  qed
qed simp

lemma send_next_turns:
  assumes "queue_ok q" "send_next e q = (True, q')"
  shows "queue_turns q' < queue_turns q"
proof -
  obtain d where d: "d \<in> set q" "d_status d = QUEUED" "d_next d \<le> se_now e * 1000"
    "q' = map (\<lambda>x. if x = d then (if se_update_ok e then settle_doc (se_smtp_ok e) (se_later e * 1000) (claim_doc d) else claim_doc d) else x) q"
    by (rule send_next_handles [OF assms])
  have "0 \<le> d_attempts d" using assms(1) d(1) by (auto simp: queue_ok_def list_all_iff doc_ok_def)
  note less = settle_turns [OF d(2) this, of "se_update_ok e" "se_smtp_ok e" "se_later e * 1000"]
  have "sum_list (map (\<lambda>x. turns_left (if x = d then (if se_update_ok e then settle_doc (se_smtp_ok e) (se_later e * 1000) (claim_doc d) else claim_doc d) else x)) q)
    < sum_list (map turns_left q)"
    by (rule sum_list_less [OF d(1)]) (use less in auto)
  then show ?thesis unfolding queue_turns_def d(4) by (simp add: comp_def)
qed

subsection \<open>Reading a message\<close>

text \<open>The lines of a header, up to the empty line, and what follows it.\<close>

function read_headers :: "string \<Rightarrow> string list \<times> string" where
  "read_headers s =
     (case strstr s CRLF of
        None \<Rightarrow> ([], s)
      | Some k \<Rightarrow>
          if k = 0 then ([], drop 2 s)
          else (take k s # fst (read_headers (drop (k + 2) s)), snd (read_headers (drop (k + 2) s))))"
  by pat_completeness auto
termination
  by (relation "measure length") (auto dest!: strstr_length)

declare read_headers.simps [simp del]

lemma strstr_crlf_line: "CR \<notin> set l \<Longrightarrow> strstr (l @ CR # LF # r) CRLF = Some (length l)"
  by (simp add: strstr_skip)

lemma read_headers_lines:
  "list_all (\<lambda>l. l \<noteq> [] \<and> CR \<notin> set l) ls \<Longrightarrow> read_headers (concat (map (\<lambda>l. l @ CRLF) ls) @ CRLF @ b) = (ls, b)"
proof (induction ls)
  case Nil
  then show ?case by (simp add: read_headers.simps)
next
  case (Cons l ls)
  let ?r = "concat (map (\<lambda>l. l @ CRLF) ls) @ CRLF @ b"
  have l: "l \<noteq> []" "CR \<notin> set l" and ih: "read_headers ?r = (ls, b)" using Cons by simp_all
  have "read_headers (l @ CR # LF # ?r) = (l # fst (read_headers ?r), snd (read_headers ?r))"
    using l by (subst read_headers.simps) (simp add: strstr_crlf_line)
  then show ?case using ih by simp
qed

definition mail_config_ok :: "(string \<Rightarrow> string) \<Rightarrow> MailFrom \<Rightarrow> string \<Rightarrow> string \<Rightarrow> bool" where
  "mail_config_ok b64 m date rnd_id \<longleftrightarrow>
     CR \<notin> set (mail_from m) \<and> CR \<notin> set (from_name m) \<and> CR \<notin> set date \<and> CR \<notin> set rnd_id
     \<and> length date < 64 \<and> length rnd_id \<le> 24 \<and> (\<forall>s. CR \<notin> set (b64 s))"

lemma no_control_CR: "\<not> has_control s \<Longrightarrow> CR \<notin> set s"
  by (auto simp: has_control_def list_ex_iff)

lemma valid_address_CR: "mailer_valid_address (Some a) \<Longrightarrow> CR \<notin> set a"
  using no_control_CR [of a] by (auto simp: mailer_valid_address_def split: if_splits)

lemma header_text_CR: "CR \<notin> set s \<Longrightarrow> \<forall>t. CR \<notin> set (b64 t) \<Longrightarrow> CR \<notin> set (header_text b64 s)"
  by (simp add: header_text_def)

lemma mail_domain_CR: "CR \<notin> set (mail_from m) \<Longrightarrow> CR \<notin> set (mail_domain m)"
  by (auto simp: mail_domain_def dest: in_set_dropD split: option.split)

lemma mail_domain_length: "length (mail_domain m) \<le> length (mail_from m) + 10"
  by (auto simp add: mail_domain_def split: option.split)

lemma message_headers_ok:
  assumes "mail_config_ok b64 m date rnd_id" "CR \<notin> set to" "CR \<notin> set subject"
  shows "list_all (\<lambda>l. l \<noteq> [] \<and> CR \<notin> set l) (message_headers b64 m date rnd_id to subject)"
  using assms header_text_CR [of "from_name m" b64] header_text_CR [of subject b64] mail_domain_CR [of m]
  by (simp add: message_headers_def mail_config_ok_def)

lemma message_fits:
  assumes "mail_config_ok b64 m date rnd_id"
  shows "build_message b64 m date rnd_id to subject t =
    concat (map (\<lambda>l. l @ CRLF) (message_headers b64 m date rnd_id to subject)) @ CRLF @ crlf_body t"
  unfolding build_message_def
  by (rule fit_id) (use assms mail_domain_length [of m] in \<open>auto simp add: message_headers_def message_room_def mail_config_ok_def\<close>)

lemma crlf_body_lines: "filter (\<lambda>c. c \<noteq> CR) (crlf_body t) = filter (\<lambda>c. c \<noteq> CR) t @ [LF]"
  by (induction t) (simp_all add: crlf_body_def)

subsection \<open>Properties\<close>

text \<open>
  C21. In every state the queue can reach, a message is read back by its receiver with exactly the
  eight header fields the server writes and with the text of the message as its body: neither the
  address nor the subject of a message can add a field or start the body, and no message is cut
  to its buffer. The addresses and names of the configuration, the date and base64 are free of
  carriage returns.
\<close>

theorem queued_message_reads_back:
  assumes "mail_reachable q" "d \<in> set q" "mail_config_ok b64 m date rnd_id"
  shows "read_headers (build_message b64 m date rnd_id (d_to d) (d_subject d) (d_text d))
      = (message_headers b64 m date rnd_id (d_to d) (d_subject d), crlf_body (d_text d))
    \<and> filter (\<lambda>c. c \<noteq> CR) (crlf_body (d_text d)) = filter (\<lambda>c. c \<noteq> CR) (d_text d) @ [LF]"
proof -
  have "doc_ok d" using mail_reachable_ok [OF assms(1)] assms(2) by (simp add: queue_ok_def list_all_iff)
  then have "CR \<notin> set (d_to d)" "CR \<notin> set (d_subject d)" by (simp_all add: doc_ok_def valid_address_CR no_control_CR)
  from read_headers_lines [OF message_headers_ok [OF assms(3) this]] show ?thesis
    using message_fits [OF assms(3)] crlf_body_lines by simp
qed

text \<open>
  In every reachable state, a message that was sent or given up stays in the queue as it is,
  whatever happens next: a later message, a turn of the sender or a restart of the server.
\<close>

theorem settled_mail_stays:
  assumes "mail_reachable q" "mail_step q q'" "d \<in> set q" "d_status d = SENT \<or> d_status d = FAILED"
  shows "d \<in> set q'"
  using assms(2)
proof (cases rule: mail_step.cases)
  case (enqueue i c b now to s t)
  then show ?thesis using assms(3) by (auto simp: mailer_enqueue_def split: option.splits if_splits)
next
  case (turn e r)
  show ?thesis
  proof (cases r)
    case True
    then have "send_next e q = (True, q')" using turn by simp
    then obtain x where x: "x \<in> set q" "d_status x = QUEUED" "d_next x \<le> se_now e * 1000"
      "q' = map (\<lambda>y. if y = x then (if se_update_ok e then settle_doc (se_smtp_ok e) (se_later e * 1000) (claim_doc x) else claim_doc x) else y) q"
      by (rule send_next_handles [OF mail_reachable_ok [OF assms(1)]])
    then have "d \<noteq> x" using assms(4) by auto
    then show ?thesis using assms(3) unfolding x(4) by force
  next
    case False
    then show ?thesis using turn assms(3) by (auto simp: send_next_def Let_def split: if_splits option.splits)
  qed
next
  case restart
  then show ?thesis using assms(3,4) by (force simp: requeue_interrupted_def)
qed

text \<open>
  The sender's inner loop seen from outside: turns that handled a message, and messages that other
  threads add in between. The loop goes on as long as a turn handles one, so the first number counts
  the passes of the loop and the second the messages added while it runs.
\<close>

inductive sender_loop :: "nat \<Rightarrow> nat \<Rightarrow> MailDoc list \<Rightarrow> MailDoc list \<Rightarrow> bool" where
  entered: "sender_loop 0 0 q q"
| handled: "sender_loop t a q q1 \<Longrightarrow> send_next e q1 = (True, q2) \<Longrightarrow> sender_loop (Suc t) a q q2"
| added: "sender_loop t a q q1 \<Longrightarrow> i \<notin> d_id ` set q1 \<Longrightarrow> mailer_enqueue c b now i to s body q1 = (0, q2) \<Longrightarrow>
     sender_loop t (Suc a) q q2"

lemma enqueue_turns:
  "mailer_enqueue c b now i to s body q = (0, q1) \<Longrightarrow> queue_turns q1 = queue_turns q + 5"
  by (auto simp: mailer_enqueue_def queue_turns_def turns_left_def MAX_ATTEMPTS_def split: option.splits if_splits)

lemma sender_loop_bounded:
  "sender_loop t a q q1 \<Longrightarrow> queue_ok q \<Longrightarrow> queue_ok q1 \<and> queue_turns q1 + t \<le> queue_turns q + 5 * a"
proof (induction rule: sender_loop.induct)
  case (handled t a q q1 e q2)
  then have "queue_ok q1" "queue_turns q1 + t \<le> queue_turns q + 5 * a" by simp_all
  moreover have "queue_ok q2" using send_next_ok [OF \<open>queue_ok q1\<close>, of e] handled.hyps(2) by simp
  ultimately show ?case using send_next_turns [OF \<open>queue_ok q1\<close> handled.hyps(2)] by simp
next
  case (added t a q q1 i c b now to s body q2)
  then have "queue_ok q1" "queue_turns q1 + t \<le> queue_turns q + 5 * a" by simp_all
  moreover have "queue_ok q2" using enqueue_ok [OF \<open>queue_ok q1\<close> added.hyps(2), of c b now to s body] added.hyps(3) by simp
  ultimately show ?case using enqueue_turns [OF added.hyps(3)] by simp
qed simp

lemma send_next_due:
  "fst (send_next e q) \<longleftrightarrow> se_db_ok e \<and> (\<exists>d\<in>set q. d_status d = QUEUED \<and> d_next d \<le> se_now e * 1000)"
proof (cases "next_due (se_now e * 1000) q")
  case None
  then show ?thesis using next_due_None [of "se_now e * 1000" q] by (auto simp: send_next_def list_all_iff mail_due_def)
next
  case (Some d)
  then show ?thesis using next_due_in [OF Some] by (auto simp: send_next_def Let_def mail_due_def)
qed

text \<open>What a pass leaves of its message at its \<open>k\<close>th attempt.\<close>

lemma attempt_outcome:
  assumes "0 \<le> d_attempts d" "k = d_attempts d + 1"
  shows "(if u then settle_doc ok (later * 1000) (claim_doc d) else claim_doc d) =
    (if \<not> u then d\<lparr>d_status := SENDING, d_attempts := k\<rparr>
     else if ok then d\<lparr>d_status := SENT, d_attempts := k\<rparr>
     else if 5 \<le> k then d\<lparr>d_status := FAILED, d_attempts := k\<rparr>
     else d\<lparr>d_status := QUEUED, d_attempts := k,
            d_next := (later + 60 * (if k = 1 then 1 else if k = 2 then 5 else if k = 3 then 15 else 60)) * 1000\<rparr>)"
proof (cases "k < 5")
  case True
  then have "k = 1 \<or> k = 2 \<or> k = 3 \<or> k = 4" using assms by linarith
  then show ?thesis using assms(2)
    by (elim disjE) (auto simp: settle_doc_def claim_doc_def MAX_ATTEMPTS_def RETRY_MINUTES_def)
next
  case False
  then show ?thesis using assms by (simp add: settle_doc_def claim_doc_def MAX_ATTEMPTS_def)
qed

text \<open>
  C33. The sender's inner loop ends, and failed messages wait their turn. From a reachable queue,
  whatever the clock, the database and the other side do, the loop makes at most as many passes as
  the queued messages have attempts left (at least one each), and five more for every message that
  is added while it runs. A pass handles a message exactly if the database answers and a queued message
  is due. It takes the one due longest and leaves all others as they are: its attempts grow by one and
  it is sent, or after its fifth attempt failed for good, or queued again for 1, 5, 15 or 60 minutes
  after its first, second, third or fourth; if the outcome cannot be stored it stays as one being sent.
\<close>

theorem sender_loop_ends:
  assumes "mail_reachable q" "sender_loop t a q q1"
  shows "t \<le> sum_list (map (\<lambda>d. if d_status d = QUEUED then nat (max 1 (5 - d_attempts d)) else 0) q) + 5 * a
    \<and> (\<forall>e. fst (send_next e q1) \<longleftrightarrow> se_db_ok e \<and> (\<exists>d\<in>set q1. d_status d = QUEUED \<and> d_next d \<le> se_now e * 1000))
    \<and> (\<forall>e q2. send_next e q1 = (True, q2) \<longrightarrow>
        (\<exists>d k. d \<in> set q1 \<and> d_status d = QUEUED \<and> d_next d \<le> se_now e * 1000
          \<and> (\<forall>x\<in>set q1. d_status x = QUEUED \<and> d_next x \<le> se_now e * 1000 \<longrightarrow> d_next d \<le> d_next x)
          \<and> k = d_attempts d + 1 \<and> 1 \<le> k
          \<and> q2 = map (\<lambda>x. if x \<noteq> d then x
                else if \<not> se_update_ok e then d\<lparr>d_status := SENDING, d_attempts := k\<rparr>
                else if se_smtp_ok e then d\<lparr>d_status := SENT, d_attempts := k\<rparr>
                else if 5 \<le> k then d\<lparr>d_status := FAILED, d_attempts := k\<rparr>
                else d\<lparr>d_status := QUEUED, d_attempts := k,
                  d_next := (se_later e + 60 * (if k = 1 then 1 else if k = 2 then 5 else if k = 3 then 15 else 60)) * 1000\<rparr>) q1))"
proof (intro conjI allI impI)
  have b: "queue_ok q1" "queue_turns q1 + t \<le> queue_turns q + 5 * a"
    using sender_loop_bounded [OF assms(2) mail_reachable_ok [OF assms(1)]] by simp_all
  have "turns_left = (\<lambda>d. if d_status d = QUEUED then nat (max 1 (5 - d_attempts d)) else 0)"
    by (rule ext) (simp add: turns_left_def MAX_ATTEMPTS_def)
  then show "t \<le> sum_list (map (\<lambda>d. if d_status d = QUEUED then nat (max 1 (5 - d_attempts d)) else 0) q) + 5 * a"
    using b(2) by (simp add: queue_turns_def)
  show "fst (send_next e q1) \<longleftrightarrow> se_db_ok e \<and> (\<exists>d\<in>set q1. d_status d = QUEUED \<and> d_next d \<le> se_now e * 1000)" for e
    by (rule send_next_due)
  fix e q2
  assume "send_next e q1 = (True, q2)"
  then obtain d where d: "d \<in> set q1" "d_status d = QUEUED" "d_next d \<le> se_now e * 1000"
    "\<forall>x\<in>set q1. d_status x = QUEUED \<and> d_next x \<le> se_now e * 1000 \<longrightarrow> d_next d \<le> d_next x" "0 \<le> d_attempts d"
    "q2 = map (\<lambda>x. if x = d then (if se_update_ok e then settle_doc (se_smtp_ok e) (se_later e * 1000) (claim_doc d) else claim_doc d) else x) q1"
    by (rule send_next_first_due [OF b(1)])
  have "1 \<le> d_attempts d + 1" using d(5) by simp
  then show "\<exists>d k. d \<in> set q1 \<and> d_status d = QUEUED \<and> d_next d \<le> se_now e * 1000
      \<and> (\<forall>x\<in>set q1. d_status x = QUEUED \<and> d_next x \<le> se_now e * 1000 \<longrightarrow> d_next d \<le> d_next x)
      \<and> k = d_attempts d + 1 \<and> 1 \<le> k
      \<and> q2 = map (\<lambda>x. if x \<noteq> d then x
            else if \<not> se_update_ok e then d\<lparr>d_status := SENDING, d_attempts := k\<rparr>
            else if se_smtp_ok e then d\<lparr>d_status := SENT, d_attempts := k\<rparr>
            else if 5 \<le> k then d\<lparr>d_status := FAILED, d_attempts := k\<rparr>
            else d\<lparr>d_status := QUEUED, d_attempts := k,
              d_next := (se_later e + 60 * (if k = 1 then 1 else if k = 2 then 5 else if k = 3 then 15 else 60)) * 1000\<rparr>) q1"
    using d(1-4) unfolding d(6) attempt_outcome [OF d(5) refl]
    by (intro exI [of _ d] exI [of _ "d_attempts d + 1"] conjI map_cong) simp_all
qed

subsection \<open>A queue of one message\<close>

definition example_mail :: MailDoc where
  "example_mail = \<lparr>d_id = 0, d_to = ''a@b.org'', d_subject = ''Hi'', d_text = ''x'', d_status = QUEUED, d_attempts = 0, d_next = 1000\<rparr>"

definition example_turn :: SendEnv where
  "example_turn = \<lparr>se_db_ok = True, se_now = 2, se_smtp_ok = True, se_later = 3, se_update_ok = True\<rparr>"

definition example_from :: MailFrom where
  "example_from = \<lparr>mail_from = ''me@b.org'', mail_from_name = [], site_name = Some ''Boat''\<rparr>"

lemma example_reachable: "mail_reachable [example_mail]"
proof -
  have "mailer_enqueue True True 1 0 (Some ''a@b.org'') (Some ''Hi'') (Some ''x'') [] = (0, [example_mail])"
    by (simp add: mailer_enqueue_def example_mail_def mailer_valid_address_def has_control_def strrchr_def)
  from mail_step.enqueue [OF _ this] show ?thesis by (auto intro: mail_reachable.intros)
qed

lemma example_sent: "send_next example_turn [example_mail] = (True, [example_mail\<lparr>d_status := SENT, d_attempts := 1\<rparr>])"
  by (simp add: send_next_def example_turn_def example_mail_def next_due_def mail_due_def update_doc_def claim_doc_def settle_doc_def Let_def)

theorem queued_message_reads_back_witness:
  "read_headers (build_message (\<lambda>_. []) example_from ''now'' ''id'' ''a@b.org'' ''Hi'' ''x'')
   = (message_headers (\<lambda>_. []) example_from ''now'' ''id'' ''a@b.org'' ''Hi'', ''x'' @ CRLF)"
proof -
  have "mail_config_ok (\<lambda>_. []) example_from ''now'' ''id''" by (simp add: mail_config_ok_def example_from_def from_name_def)
  from queued_message_reads_back [OF example_reachable _ this, of example_mail] show ?thesis
    by (simp add: example_mail_def crlf_body_def)
qed

theorem settled_mail_stays_witness:
  "example_mail\<lparr>d_status := SENT, d_attempts := 1\<rparr> \<in> set (requeue_interrupted [example_mail\<lparr>d_status := SENT, d_attempts := 1\<rparr>])"
proof -
  have "mail_step [example_mail] [example_mail\<lparr>d_status := SENT, d_attempts := 1\<rparr>]" using example_sent by (rule mail_step.turn)
  with example_reachable have "mail_reachable [example_mail\<lparr>d_status := SENT, d_attempts := 1\<rparr>]" by (rule mail_reachable.step)
  from settled_mail_stays [OF this mail_step.restart] show ?thesis by simp
qed

text \<open>The same message when the other side refuses it at 3 s: it waits a minute.\<close>

definition refused_turn :: SendEnv where
  "refused_turn = \<lparr>se_db_ok = True, se_now = 2, se_smtp_ok = False, se_later = 3, se_update_ok = True\<rparr>"

theorem sender_loop_ends_witness:
  "send_next refused_turn [example_mail] = (True, [example_mail\<lparr>d_attempts := 1, d_next := 63000\<rparr>])
   \<and> (\<exists>t. sender_loop t 0 [example_mail] [example_mail\<lparr>d_attempts := 1, d_next := 63000\<rparr>] \<and> t \<le> 5)"
proof -
  let ?q = "[example_mail\<lparr>d_attempts := 1, d_next := 63000\<rparr>]"
  have l: "sender_loop 0 0 [example_mail] [example_mail]" by (rule sender_loop.entered)
  have s: "send_next refused_turn [example_mail] = (True, ?q)"
    by (simp add: send_next_def refused_turn_def example_mail_def next_due_def mail_due_def update_doc_def claim_doc_def
        settle_doc_def MAX_ATTEMPTS_def RETRY_MINUTES_def Let_def)
  have h: "sender_loop (Suc 0) 0 [example_mail] ?q" by (rule sender_loop.handled [OF l s])
  have "Suc 0 \<le> 5" using sender_loop_ends [OF example_reachable h] by (simp add: example_mail_def)
  then show ?thesis using s h by blast
qed

end
