(* ===== verification/Comments.thy ===== *)
theory Comments
  imports Comment_Text Captcha Mailer
begin

text \<open>
  Sending a comment (src/src/modules/comments/comments.c): the cookie that remembers a commenter,
  the whole of \<open>comments_post\<close> from the form to the database and the mail, replies, and the
  subjects of the notices. What the database layer and the clock answer is an argument, and what
  the handler asks of them is recorded in order. The address of a client is shorter than the
  buffer it is hashed from. Templates are not modelled.
\<close>

subsection \<open>The cookie\<close>

definition REMEMBER_COOKIE :: string where "REMEMBER_COOKIE = ''br_commenter''"
definition REMEMBER_DAYS :: int where "REMEMBER_DAYS = 365"

definition remember_mac :: "Sodium \<Rightarrow> byte list \<Rightarrow> string \<Rightarrow> int \<Rightarrow> string" where
  "remember_mac S key cid issued =
     sod_bin2hex S (sod_hmac S key (fit 96 (''commenter|'' @ cid @ ''|'' @ show_int issued)))"

definition cookie_parts :: "string \<Rightarrow> (string \<times> string \<times> string) option" where
  "cookie_parts v =
     (case strchr v (CHR ''.'') of
        None \<Rightarrow> None
      | Some d1 \<Rightarrow>
          (let after = drop (d1 + 1) v in
           case strchr after (CHR ''.'') of
             None \<Rightarrow> None
           | Some k \<Rightarrow>
               if d1 \<noteq> 24 \<or> length (drop (k + 1) after) \<noteq> 64 then None
               else Some (take d1 v, take k after, drop (k + 1) after)))"

definition remembered_commenter :: "Sodium \<Rightarrow> byte list option \<Rightarrow> int \<Rightarrow> string option \<Rightarrow> string option" where
  "remembered_commenter S secret now cookie_header =
     (case cookie_header of
        None \<Rightarrow> None
      | Some h \<Rightarrow>
          (case strstr h (REMEMBER_COOKIE @ ''='') of
             None \<Rightarrow> None
           | Some p \<Rightarrow>
               (let v = takeWhile (\<lambda>c. c \<noteq> CHR '';'' \<and> c \<noteq> CHR '' '') (drop (p + length (REMEMBER_COOKIE @ ''='')) h) in
                if length v \<ge> 160 then None
                else case cookie_parts v of
                       None \<Rightarrow> None
                     | Some (cid, number, mac) \<Rightarrow>
                         (let issued = fst (strtoll number) in
                          if issued \<le> 0 \<or> now - issued > REMEMBER_DAYS * 86400 then None
                          else case secret of
                                 None \<Rightarrow> None
                               | Some key \<Rightarrow> if sod_equal S (remember_mac S key cid issued) mac then Some cid else None))))"

definition remember_value :: "Sodium \<Rightarrow> byte list \<Rightarrow> string \<Rightarrow> int \<Rightarrow> string" where
  "remember_value S key cid issued = cid @ ''.'' @ show_int issued @ ''.'' @ remember_mac S key cid issued"

definition remember_cookie_header :: "Sodium \<Rightarrow> byte list option \<Rightarrow> int \<Rightarrow> string \<Rightarrow> string option" where
  "remember_cookie_header S secret now cid =
     map_option (\<lambda>key. ''Set-Cookie: '' @ REMEMBER_COOKIE @ ''='' @ remember_value S key cid now
       @ ''; Max-Age='' @ show_int (REMEMBER_DAYS * 86400) @ ''; Path=/; HttpOnly; SameSite=Lax'' @ CRLF) secret"

subsection \<open>Submission\<close>

datatype CommentPostResult = COMMENT_POST_VERIFY | COMMENT_POST_PENDING | COMMENT_POST_FORM | COMMENT_POST_NOT_FOUND | COMMENT_POST_CLOSED

datatype CommentSubmitResult =
  COMMENT_SUBMIT_VERIFY | COMMENT_SUBMIT_PENDING | COMMENT_SUBMIT_NAME_TAKEN | COMMENT_SUBMIT_BLOCKED | COMMENT_SUBMIT_ERROR

record CommentForm =
  cf_name :: string
  cf_email :: string
  cf_text :: string
  cf_error :: "string option"

record CommentSubmission =
  cs_entry_id :: string
  cs_name :: string
  cs_email :: string
  cs_text :: string
  cs_ip_hash :: string
  cs_remembered :: "string option"
  cs_browser :: string
  cs_os :: string
  cs_user_agent :: string
  cs_epoch :: int

datatype PostEvent = UseCaptcha string int | Submit CommentSubmission | QueueConfirmation string | NotifyAuthor

text \<open>What the handler learns from the database, the clock, the parser of user agents and the mail.\<close>

record PostEnv =
  pe_available :: bool
  pe_entry :: "(string \<times> bool) option"
  pe_secret :: "byte list option"
  pe_now :: int
  pe_use_captcha :: "string \<Rightarrow> int \<Rightarrow> int"
  pe_within_limits :: "string \<Rightarrow> string \<Rightarrow> bool"
  pe_browser :: string
  pe_os :: string
  pe_submit :: "CommentSubmission \<Rightarrow> CommentSubmitResult"
  pe_mail_ok :: bool

definition COMMENT_UA_MAX :: nat where "COMMENT_UA_MAX = 256"

definition ip_hash :: "Sodium \<Rightarrow> string option \<Rightarrow> byte list \<Rightarrow> string" where
  "ip_hash S ip key =
     sod_bin2hex S (take 16 (sod_hmac S key (fit 96 (''ip|'' @ (case ip of Some a \<Rightarrow> a | None \<Rightarrow> [])))))"

definition clean_ua :: "string option \<Rightarrow> string" where
  "clean_ua ua =
     map (\<lambda>c. if 32 \<le> ord c \<and> ord c < 127 then c else CHR ''?'') (take COMMENT_UA_MAX (case ua of Some u \<Rightarrow> u | None \<Rightarrow> []))"

definition empty_form :: CommentForm where
  "empty_form = \<lparr>cf_name = [], cf_email = [], cf_text = [], cf_error = None\<rparr>"

definition form_of :: "string \<Rightarrow> CommentForm" where
  "form_of body =
     \<lparr>cf_name = snd (form_field body ''name'' (COMMENT_NAME_MAX * 2 + 1)), cf_email = snd (form_field body ''email'' 256),
      cf_text = snd (form_field body ''text'' (COMMENT_TEXT_MAX + 1)), cf_error = None\<rparr>"

definition form_honeypot :: "string \<Rightarrow> string" where "form_honeypot body = snd (form_field body ''website'' 64)"
definition form_answer :: "string \<Rightarrow> string" where "form_answer body = snd (form_field body ''captcha'' 32)"
definition form_token :: "string \<Rightarrow> string" where
  "form_token body = comment_trim (snd (form_field body ''captcha_token'' CAPTCHA_TOKEN_MAX))"

text \<open>The fields after conversion and cleaning, with the first thing that is wrong with them.\<close>

definition convert_fields :: "CommentForm \<Rightarrow> CommentForm" where
  "convert_fields f =
     (let (rn, name) = to_utf8 (cf_name f) (COMMENT_NAME_MAX * 2 + 1);
          e1 = (if rn \<noteq> 0 then Some ''Your name is too long.'' else None);
          (rt, t) = (if e1 = None then to_utf8 (cf_text f) (COMMENT_TEXT_MAX + 1) else (0, cf_text f));
          e2 = (if rt \<noteq> 0 then Some ''Your comment is too long (2000 characters at most).'' else e1);
          email = map tolower (comment_trim (snd (to_utf8 (cf_email f) 256)))
      in \<lparr>cf_name = name, cf_email = email, cf_text = t, cf_error = e2\<rparr>)"

definition check_fields :: "CommentForm \<Rightarrow> CommentForm" where
  "check_fields f0 =
     (let f1 = (if cf_error f0 = None then f0\<lparr>cf_error := fst (clean_name (cf_name f0)), cf_name := snd (clean_name (cf_name f0))\<rparr> else f0);
          f2 = (if cf_error f1 = None \<and> \<not> mailer_valid_address (Some (cf_email f1))
                then f1\<lparr>cf_error := Some ''Please give a valid email address.''\<rparr> else f1)
      in if cf_error f2 = None then f2\<lparr>cf_error := fst (clean_text (cf_text f2)), cf_text := snd (clean_text (cf_text f2))\<rparr> else f2)"

definition unavailable :: string where
  "unavailable = ''Comments are not available right now - try again later.''"

definition check_challenge :: "Sodium \<Rightarrow> PostEnv \<Rightarrow> byte list \<Rightarrow> string \<Rightarrow> string option \<times> PostEvent list" where
  "check_challenge S e key body =
     (case captcha_check S key (Some (form_token body)) (Some (form_answer body)) (pe_now e) [] of
        (CAPTCHA_OK, nonce) \<Rightarrow>
          (let until = pe_now e + CAPTCHA_TTL_SECS + 60; used = pe_use_captcha e nonce until
           in (if used = 1 then Some ''That image was already used - type the characters of the new one.''
               else if used < 0 then Some unavailable else None, [UseCaptcha nonce until]))
      | (CAPTCHA_EXPIRED, _) \<Rightarrow> (Some ''The image expired - type the characters of the new one.'', [])
      | (CAPTCHA_TOO_FAST, _) \<Rightarrow> (Some ''That was a little too fast - please type the characters again.'', [])
      | _ \<Rightarrow> (Some (''The characters didn'' @ [SQ] @ ''t match the image - try the new one.''), []))"

definition submit_comment :: "PostEnv \<Rightarrow> CommentSubmission \<Rightarrow> (CommentPostResult \<times> string option) \<times> PostEvent list" where
  "submit_comment e s =
     (case pe_submit e s of
        COMMENT_SUBMIT_VERIFY \<Rightarrow>
          (if pe_mail_ok e then (COMMENT_POST_VERIFY, None)
           else (COMMENT_POST_FORM, Some (''We couldn'' @ [SQ] @ ''t send the confirmation email - please try again later.'')),
           [Submit s, QueueConfirmation (cs_email s)])
      | COMMENT_SUBMIT_PENDING \<Rightarrow> ((COMMENT_POST_PENDING, None), [Submit s, NotifyAuthor])
      | COMMENT_SUBMIT_NAME_TAKEN \<Rightarrow>
          ((COMMENT_POST_FORM, Some ''That name is already used by someone else - please choose another.''), [Submit s])
      | COMMENT_SUBMIT_BLOCKED \<Rightarrow> ((COMMENT_POST_FORM, Some ''Comments from this email address are not accepted.''), [Submit s])
      | COMMENT_SUBMIT_ERROR \<Rightarrow> ((COMMENT_POST_FORM, Some ''Your comment could not be saved - please try again later.''), [Submit s]))"

definition submission ::
  "Sodium \<Rightarrow> PostEnv \<Rightarrow> byte list \<Rightarrow> string \<Rightarrow> CommentForm \<Rightarrow> string option \<Rightarrow> string option \<Rightarrow> string option \<Rightarrow> int \<Rightarrow> CommentSubmission" where
  "submission S e key entry_id f cookie_header client_ip user_agent epoch =
     \<lparr>cs_entry_id = entry_id, cs_name = cf_name f, cs_email = cf_email f, cs_text = cf_text f, cs_ip_hash = ip_hash S client_ip key,
      cs_remembered = remembered_commenter S (pe_secret e) (pe_now e) cookie_header, cs_browser = pe_browser e, cs_os = pe_os e,
      cs_user_agent = clean_ua user_agent, cs_epoch = epoch\<rparr>"

definition comments_post ::
  "Sodium \<Rightarrow> PostEnv \<Rightarrow> string option \<Rightarrow> string option \<Rightarrow> string option \<Rightarrow> string option \<Rightarrow> int
   \<Rightarrow> CommentPostResult \<times> CommentForm \<times> PostEvent list" where
  "comments_post S e body0 cookie_header client_ip user_agent epoch =
     (if \<not> pe_available e then (COMMENT_POST_CLOSED, empty_form, [])
      else case pe_entry e of
        None \<Rightarrow> (COMMENT_POST_NOT_FOUND, empty_form, [])
      | Some (entry_id, closed) \<Rightarrow>
          if closed then (COMMENT_POST_CLOSED, empty_form, [])
          else
            let body = (case body0 of Some b \<Rightarrow> b | None \<Rightarrow> []); f0 = form_of body in
            if form_honeypot body \<noteq> [] then (COMMENT_POST_VERIFY, f0, [])
            else
              let f = check_fields (convert_fields f0) in
              if cf_error f \<noteq> None then (COMMENT_POST_FORM, f, [])
              else case pe_secret e of
                None \<Rightarrow> (COMMENT_POST_FORM, f\<lparr>cf_error := Some unavailable\<rparr>, [])
              | Some key \<Rightarrow>
                  let (e1, evs1) = check_challenge S e key body in
                  if e1 \<noteq> None then (COMMENT_POST_FORM, f\<lparr>cf_error := e1\<rparr>, evs1)
                  else if \<not> pe_within_limits e (ip_hash S client_ip key) (cf_email f)
                  then (COMMENT_POST_FORM, f\<lparr>cf_error := Some ''Too many comments from here for now - please try again later.''\<rparr>, evs1)
                  else
                    let ((result, e2), evs2) = submit_comment e (submission S e key entry_id f cookie_header client_ip user_agent epoch)
                    in (if e2 \<noteq> None then COMMENT_POST_FORM else result, f\<lparr>cf_error := e2\<rparr>, evs1 @ evs2))"

subsection \<open>What the stages promise\<close>

lemma check_fields_ok:
  assumes "cf_error (check_fields f) = None"
  shows "comment_name_ok (cf_name (check_fields f)) \<and> comment_text_ok (cf_text (check_fields f)) \<and> mailer_valid_address (Some (cf_email (check_fields f)))"
proof -
  have n: "fst (clean_name (cf_name f)) = None" and t: "fst (clean_text (cf_text f)) = None"
    and m: "mailer_valid_address (Some (cf_email f))"
    and f: "check_fields f = f\<lparr>cf_error := None, cf_name := snd (clean_name (cf_name f)), cf_text := snd (clean_text (cf_text f))\<rparr>"
    using assms by (auto simp: check_fields_def Let_def split: if_splits)
  show ?thesis
    using clean_name_accepts [of "cf_name f" "snd (clean_name (cf_name f))"] clean_text_accepts [of "cf_text f" "snd (clean_text (cf_text f))"]
      n t m by (simp add: f prod_eq_iff)
qed

lemma check_challenge_ok:
  assumes "check_challenge S e key body = (None, evs)"
  obtains nonce where "captcha_check S key (Some (form_token body)) (Some (form_answer body)) (pe_now e) [] = (CAPTCHA_OK, nonce)"
    "pe_use_captcha e nonce (pe_now e + CAPTCHA_TTL_SECS + 60) \<noteq> 1" "0 \<le> pe_use_captcha e nonce (pe_now e + CAPTCHA_TTL_SECS + 60)"
    "evs = [UseCaptcha nonce (pe_now e + CAPTCHA_TTL_SECS + 60)]"
  using assms that by (auto simp: check_challenge_def Let_def split: prod.splits CaptchaResult.splits if_splits)

lemma check_challenge_events: "Submit s \<notin> set (snd (check_challenge S e key body))"
  by (auto simp: check_challenge_def Let_def split: prod.splits CaptchaResult.splits)

lemma submit_comment_events:
  "\<exists>rest. snd (submit_comment e s) = Submit s # rest \<and> (\<forall>x. Submit x \<notin> set rest)"
  by (auto simp: submit_comment_def split: CommentSubmitResult.split)

lemma submit_comment_error:
  "snd (fst (submit_comment e s)) = None \<longleftrightarrow> fst (fst (submit_comment e s)) \<noteq> COMMENT_POST_FORM"
  by (auto simp: submit_comment_def split: CommentSubmitResult.split)

text \<open>A comment reaches the database only after every stage.\<close>

lemma comments_post_submits:
  assumes "comments_post S e body cookie_header client_ip user_agent epoch = (res, f, evs)" "Submit s \<in> set evs"
  obtains entry_id key b evs1 where "pe_available e" "pe_entry e = Some (entry_id, False)" "pe_secret e = Some key"
    "b = (case body of Some b \<Rightarrow> b | None \<Rightarrow> [])" "form_honeypot b = []" "cf_error (check_fields (convert_fields (form_of b))) = None"
    "check_challenge S e key b = (None, evs1)"
    "pe_within_limits e (ip_hash S client_ip key) (cf_email (check_fields (convert_fields (form_of b))))"
    "s = submission S e key entry_id (check_fields (convert_fields (form_of b))) cookie_header client_ip user_agent epoch"
    "evs = evs1 @ snd (submit_comment e s)"
proof -
  define b where "b = (case body of Some b \<Rightarrow> b | None \<Rightarrow> [])"
  define g where "g = check_fields (convert_fields (form_of b))"
  obtain entry_id where en: "pe_available e" "pe_entry e = Some (entry_id, False)"
    using assms by (auto simp: comments_post_def split: if_splits option.splits)
  obtain key where k: "form_honeypot b = []" "cf_error g = None" "pe_secret e = Some key"
    using assms en by (auto simp: comments_post_def Let_def b_def [symmetric] g_def [symmetric] split: if_splits option.splits)
  obtain e1 evs1 where c: "check_challenge S e key b = (e1, evs1)" by fastforce
  have no: "Submit s \<notin> set evs1" using check_challenge_events [of s S e key b] c by simp
  define sub where "sub = submission S e key entry_id g cookie_header client_ip user_agent epoch"
  have r: "e1 = None" "pe_within_limits e (ip_hash S client_ip key) (cf_email g)" "evs = evs1 @ snd (submit_comment e sub)"
    using assms en k c no
    by (auto simp: comments_post_def Let_def b_def [symmetric] g_def [symmetric] sub_def [symmetric] split: if_splits prod.splits)
  obtain rest where "snd (submit_comment e sub) = Submit sub # rest" "\<forall>x. Submit x \<notin> set rest"
    using submit_comment_events by blast
  then have "s = sub" using assms(2) r(3) no by auto
  then show ?thesis using that [OF en k(3) b_def k(1)] k(2) c r by (simp add: g_def sub_def)
qed

subsection \<open>Properties of the handler\<close>

text \<open>
  C7. A comment is stored only after every check: the comments of the entry are open, the
  honeypot was left empty, the name, the text and the address are of the accepted forms, the
  challenge of this form was answered in time, its nonce was marked used just before and had not
  been used, and the limits for the sender were not reached. It is stored once.
\<close>

theorem comments_post_checked:
  assumes "comments_post S e body cookie_header client_ip user_agent epoch = (res, f, evs)" "Submit s \<in> set evs"
  shows "comment_name_ok (cs_name s) \<and> comment_text_ok (cs_text s) \<and> mailer_valid_address (Some (cs_email s))
    \<and> pe_available e \<and> pe_entry e = Some (cs_entry_id s, False)
    \<and> pe_within_limits e (cs_ip_hash s) (cs_email s)
    \<and> (\<exists>key nonce b until rest.
         pe_secret e = Some key \<and> b = (case body of Some b \<Rightarrow> b | None \<Rightarrow> []) \<and> form_honeypot b = []
         \<and> captcha_check S key (Some (form_token b)) (Some (form_answer b)) (pe_now e) [] = (CAPTCHA_OK, nonce)
         \<and> pe_use_captcha e nonce until \<noteq> 1 \<and> 0 \<le> pe_use_captcha e nonce until
         \<and> evs = UseCaptcha nonce until # Submit s # rest \<and> (\<forall>x. Submit x \<notin> set rest))"
proof -
  obtain entry_id key b evs1 where p: "pe_available e" "pe_entry e = Some (entry_id, False)" "pe_secret e = Some key"
    "b = (case body of Some b \<Rightarrow> b | None \<Rightarrow> [])" "form_honeypot b = []" "cf_error (check_fields (convert_fields (form_of b))) = None"
    "check_challenge S e key b = (None, evs1)"
    "pe_within_limits e (ip_hash S client_ip key) (cf_email (check_fields (convert_fields (form_of b))))"
    "s = submission S e key entry_id (check_fields (convert_fields (form_of b))) cookie_header client_ip user_agent epoch"
    "evs = evs1 @ snd (submit_comment e s)"
    by (rule comments_post_submits [OF assms])
  obtain nonce where n: "captcha_check S key (Some (form_token b)) (Some (form_answer b)) (pe_now e) [] = (CAPTCHA_OK, nonce)"
    "pe_use_captcha e nonce (pe_now e + CAPTCHA_TTL_SECS + 60) \<noteq> 1" "0 \<le> pe_use_captcha e nonce (pe_now e + CAPTCHA_TTL_SECS + 60)"
    "evs1 = [UseCaptcha nonce (pe_now e + CAPTCHA_TTL_SECS + 60)]"
    by (rule check_challenge_ok [OF p(7)])
  obtain rest where r: "snd (submit_comment e s) = Submit s # rest" "\<forall>x. Submit x \<notin> set rest"
    using submit_comment_events by blast
  have evs: "evs = UseCaptcha nonce (pe_now e + CAPTCHA_TTL_SECS + 60) # Submit s # rest" using p(10) n(4) r(1) by simp
  have form: "comment_name_ok (cs_name s) \<and> comment_text_ok (cs_text s) \<and> mailer_valid_address (Some (cs_email s))"
    using check_fields_ok [OF p(6)] by (simp add: p(9) submission_def)
  have rest: "pe_entry e = Some (cs_entry_id s, False)" "pe_within_limits e (cs_ip_hash s) (cs_email s)"
    using p(2,8) by (simp_all add: p(9) submission_def)
  show ?thesis using form rest p(1,3,4,5) n(1,2,3) evs r(2) by blast
qed

text \<open>
  The answer of the handler and the message of the form agree: the form comes back exactly
  when there is a message, every refusal has one, a visitor who is thanked without anything being
  stored had filled the honeypot, and a comment for a missing or closed entry leaves no trace.
\<close>

theorem comments_post_answers:
  assumes "comments_post S e body cookie_header client_ip user_agent epoch = (res, f, evs)"
  shows "(res = COMMENT_POST_FORM \<longleftrightarrow> cf_error f \<noteq> None)
    \<and> ((res = COMMENT_POST_VERIFY \<or> res = COMMENT_POST_PENDING) \<and> (\<forall>s. Submit s \<notin> set evs)
         \<longrightarrow> form_honeypot (case body of Some b \<Rightarrow> b | None \<Rightarrow> []) \<noteq> [])
    \<and> (res = COMMENT_POST_NOT_FOUND \<or> res = COMMENT_POST_CLOSED \<longrightarrow> evs = [])"
proof -
  define b where "b = (case body of Some b \<Rightarrow> b | None \<Rightarrow> [])"
  have err: "cf_error (form_of b) = None" "cf_error empty_form = None" by (simp_all add: form_of_def empty_form_def)
  have sub: "\<exists>rest. evs2 = Submit x # rest \<and> (e2 = None \<longleftrightarrow> r \<noteq> COMMENT_POST_FORM) \<and> r \<noteq> COMMENT_POST_NOT_FOUND \<and> r \<noteq> COMMENT_POST_CLOSED"
    if "submit_comment e x = ((r, e2), evs2)" for x r e2 evs2
    using that by (auto simp: submit_comment_def split: CommentSubmitResult.splits if_splits)
  show ?thesis
    using assms err unfolding comments_post_def Let_def b_def [symmetric]
    by (auto split: if_splits option.splits prod.splits dest!: sub)
qed

subsection \<open>A comment that is stored\<close>

definition ex_sodium :: Sodium where
  "ex_sodium = \<lparr>sod_hmac = (\<lambda>_ _. []), sod_bin2hex = (\<lambda>_. []), sod_base64 = (\<lambda>_. []), sod_equal = (\<lambda>_ _. True), sod_stream = sod_stream toy_sodium\<rparr>"

definition ex_token :: string where
  "ex_token = replicate 32 (CHR ''0'') @ ''.1000.'' @ replicate 64 (CHR ''0'')"

definition ex_body :: string where
  "ex_body = ''name=Ana&email=a@b.org&text=hi&captcha=A&captcha_token='' @ ex_token"

definition ex_env :: PostEnv where
  "ex_env = \<lparr>pe_available = True, pe_entry = Some (''e1'', False), pe_secret = Some [], pe_now = 1010, pe_use_captcha = (\<lambda>_ _. 0),
     pe_within_limits = (\<lambda>_ _. True), pe_browser = ''Lynx/2'', pe_os = ''Unknown'', pe_submit = (\<lambda>_. COMMENT_SUBMIT_VERIFY), pe_mail_ok = True\<rparr>"

lemma ex_token_chars: "x \<in> set ex_token \<Longrightarrow> isdigit x \<or> x = CHR ''.''"
  by (auto simp: ex_token_def isdigit_def split: if_splits)

lemma ex_body_split:
  "split_on (CHR ''&'') ex_body = [''name=Ana'', ''email=a@b.org'', ''text=hi'', ''captcha=A'', ''captcha_token='' @ ex_token]"
proof -
  have "CHR ''&'' \<notin> set (''captcha_token='' @ ex_token)" using ex_token_chars [of "CHR ''&''"] by (auto simp: isdigit_def)
  from split_on_no_sep [OF this] show ?thesis by (simp add: ex_body_def)
qed

lemma ex_token_length: "length ex_token = 102"
  by (simp add: ex_token_def)

lemma ex_form_token: "form_token ex_body = ex_token"
proof -
  have "NUL \<notin> set ex_token" using ex_token_chars [of NUL] by (auto simp: isdigit_def)
  then have c: "cstr ex_token = ex_token" by (rule cstr_id)
  have "list_all (\<lambda>x. isdigit x \<or> x = CHR ''.'') ex_token" using ex_token_chars by (simp add: list_all_iff)
  moreover have "list_all (\<lambda>x. isdigit x \<or> x = CHR ''.'') t \<Longrightarrow> url_decode t = t" for t
    by (induction t) (auto simp: isdigit_def)
  ultimately have u: "url_decode ex_token = ex_token" by blast
  have l: "fit CAPTCHA_TOKEN_MAX ex_token = ex_token" by (rule fit_id) (simp add: ex_token_length CAPTCHA_TOKEN_MAX_def)
  have "snd (form_field ex_body ''captcha_token'' CAPTCHA_TOKEN_MAX) = ex_token"
    using c u l by (simp add: form_field_def ex_body_split)
  moreover have "\<not> isspace x" if "x \<in> set ex_token" for x using ex_token_chars [OF that] by (auto simp: isdigit_def isspace_def)
  then have "comment_trim ex_token = ex_token" using ex_token_length by (intro comment_trim_id) (metis hd_in_set last_in_set)
  ultimately show ?thesis by (simp add: form_token_def)
qed

lemma ex_form: "form_of ex_body = \<lparr>cf_name = ''Ana'', cf_email = ''a@b.org'', cf_text = ''hi'', cf_error = None\<rparr>" "form_honeypot ex_body = []" "form_answer ex_body = ''A''"
  by (simp_all add: form_of_def form_honeypot_def form_answer_def form_field_def ex_body_split fit_def cstr_def COMMENT_NAME_MAX_def COMMENT_TEXT_MAX_def)

lemma ex_checked: "check_fields (convert_fields (form_of ex_body)) = form_of ex_body"
  unfolding ex_form by code_simp

lemma ex_challenge: "check_challenge ex_sodium ex_env [] ex_body = (None, [UseCaptcha (replicate 32 (CHR ''0'')) 1970])"
proof -
  have s: "strtoll (''1000.'' @ replicate 64 (CHR ''0'')) = (1000, CHR ''.'' # replicate 64 (CHR ''0''))"
    by (simp add: strtoll_def isspace_def isdigit_def dec_value_def clamp64_def Let_def)
  have "strchr ex_token (CHR ''.'') = Some 32" "drop 33 ex_token = ''1000.'' @ replicate 64 (CHR ''0'')" "take 32 ex_token = replicate 32 (CHR ''0'')"
    by (simp_all add: ex_token_def strchr_append strchr_None [THEN iffD2])
  moreover have "list_all isxdigit (replicate 32 (CHR ''0''))" by (simp add: list_all_iff isxdigit_def isdigit_def)
  ultimately have "parse_token (Some ex_token) = Some (replicate 32 (CHR ''0''), 1000, replicate 64 (CHR ''0''))"
    using s by (simp add: parse_token_def Let_def)
  then show ?thesis
    by (simp add: check_challenge_def ex_form_token captcha_check_def Let_def ex_sodium_def ex_env_def CAPTCHA_TTL_SECS_def CAPTCHA_MIN_SECS_def)
qed

lemma ex_post:
  "comments_post ex_sodium ex_env (Some ex_body) None None None 3
   = (COMMENT_POST_VERIFY, form_of ex_body,
      [UseCaptcha (replicate 32 (CHR ''0'')) 1970, Submit (submission ex_sodium ex_env [] ''e1'' (form_of ex_body) None None None 3),
       QueueConfirmation ''a@b.org''])"
proof -
  have f: "cf_error (form_of ex_body) = None" "cf_email (form_of ex_body) = ''a@b.org''" by (simp_all add: ex_form)
  have e: "pe_available ex_env" "pe_entry ex_env = Some (''e1'', False)" "pe_secret ex_env = Some []" "\<And>a b. pe_within_limits ex_env a b"
    "\<And>s. pe_submit ex_env s = COMMENT_SUBMIT_VERIFY" "pe_mail_ok ex_env" by (simp_all add: ex_env_def)
  have s: "cs_email (submission ex_sodium ex_env [] ''e1'' (form_of ex_body) None None None 3) = ''a@b.org''" by (simp add: submission_def f)
  have up: "(form_of ex_body)\<lparr>cf_error := None\<rparr> = form_of ex_body" by (simp add: ex_form)
  show ?thesis
    unfolding comments_post_def Let_def by (simp add: e ex_form(2) ex_checked f(1) ex_challenge submit_comment_def s up)
qed

theorem comments_post_checked_witness:
  "comment_name_ok ''Ana'' \<and> comment_text_ok ''hi'' \<and> mailer_valid_address (Some ''a@b.org'')"
  using comments_post_checked [OF ex_post, of "submission ex_sodium ex_env [] ''e1'' (form_of ex_body) None None None 3"]
  by (simp add: submission_def ex_form(1))

theorem comments_post_answers_witness:
  "cf_error (form_of ex_body) = None"
  using comments_post_answers [OF ex_post] by simp

subsection \<open>Properties of the cookie\<close>

definition cid_ok :: "string \<Rightarrow> bool" where
  "cid_ok cid \<longleftrightarrow> length cid = 24 \<and> list_all isxdigit cid"

lemma remember_mac_ok: "sodium_ok S \<Longrightarrow> length (remember_mac S key cid issued) = 64 \<and> list_all isxdigit (remember_mac S key cid issued)"
  by (simp add: remember_mac_def sodium_ok_def)

lemma cookie_parts_value:
  assumes "sodium_ok S" "cid_ok cid" "time_ok issued"
  shows "cookie_parts (remember_value S key cid issued) = Some (cid, show_int issued, remember_mac S key cid issued)"
proof -
  have "CHR ''.'' \<notin> set cid" using assms(2) not_bar_xdigit(3) by (auto simp: cid_ok_def list_all_iff)
  moreover have "CHR ''.'' \<notin> set (show_int issued)"
    using show_int_chars assms(3) not_bar_xdigit(4) unfolding time_ok_def by blast
  ultimately show ?thesis
    using assms(2) remember_mac_ok [OF assms(1)]
    by (simp add: remember_value_def cookie_parts_def cid_ok_def strchr_append strchr_None [THEN iffD2] Let_def)
qed

lemma remember_value_chars:
  assumes "sodium_ok S" "cid_ok cid" "time_ok issued" "c \<in> set (remember_value S key cid issued)"
  shows "c \<noteq> CHR '';'' \<and> c \<noteq> CHR '' ''"
proof -
  have "isxdigit c \<or> c = CHR ''.''"
    using assms(4) assms(2) remember_mac_ok [OF assms(1), of key cid issued] show_int_chars [of issued c] assms(3)
    by (auto simp: remember_value_def cid_ok_def list_all_iff time_ok_def isxdigit_def)
  then show ?thesis by (auto simp: isxdigit_def isdigit_def)
qed

lemma remembered_cookie:
  assumes "sodium_ok S" "cid_ok cid" "time_ok issued" "now - issued \<le> 365 * 86400" "rest = [] \<or> hd rest = CHR '';''"
  shows "remembered_commenter S (Some key) now (Some (''br_commenter='' @ remember_value S key cid issued @ rest)) = Some cid"
proof -
  let ?v = "remember_value S key cid issued"
  let ?P = "\<lambda>c. c \<noteq> CHR '';'' \<and> c \<noteq> CHR '' ''"
  have p: "strstr (''br_commenter='' @ x) (REMEMBER_COOKIE @ ''='') = Some 0" for x by (simp add: REMEMBER_COOKIE_def)
  have "takeWhile ?P (?v @ rest) = ?v @ takeWhile ?P rest"
    by (rule takeWhile_append2) (rule remember_value_chars [OF assms(1,2,3)])
  moreover have "takeWhile ?P rest = []" using assms(5) by (cases rest) simp_all
  ultimately have v: "takeWhile ?P (drop (0 + length (REMEMBER_COOKIE @ ''='')) (''br_commenter='' @ ?v @ rest)) = ?v"
    by (simp add: REMEMBER_COOKIE_def)
  have "length (show_int issued) \<le> 19" using show_int_length assms(3) by (simp add: time_ok_def)
  then have len: "length ?v < 160" using assms(2) remember_mac_ok [OF assms(1)] by (simp add: remember_value_def cid_ok_def)
  have num: "fst (strtoll (show_int issued)) = issued" using strtoll_show_int [OF assms(3), of "[]"] by simp
  have eq: "sod_equal S m m" if "length m = 64" for m using assms(1) that by (simp add: sodium_ok_def)
  show ?thesis
    unfolding remembered_commenter_def option.case p v Let_def
    using len cookie_parts_value [OF assms(1,2,3)] num assms(3,4) eq remember_mac_ok [OF assms(1)]
    by (simp add: time_ok_def REMEMBER_DAYS_def)
qed

text \<open>
  The cookie that was set for a commenter is recognised for a year: sent back first in the
  header, with other cookies after it or without, it gives the commenter's id.
\<close>

theorem remembered_for_a_year:
  assumes "sodium_ok S" "cid_ok cid" "time_ok issued" "now - issued \<le> 365 * 86400" "rest = [] \<or> hd rest = CHR '';''"
  shows "remembered_commenter S (Some key) now (Some (''br_commenter='' @ remember_value S key cid issued @ rest)) = Some cid
    \<and> remember_cookie_header S (Some key) issued cid =
        Some (''Set-Cookie: br_commenter='' @ remember_value S key cid issued @ ''; Max-Age='' @ show_int 31536000
          @ ''; Path=/; HttpOnly; SameSite=Lax'' @ CRLF)"
  using remembered_cookie [OF assms] by (simp add: remember_cookie_header_def REMEMBER_COOKIE_def REMEMBER_DAYS_def)

text \<open>
  A commenter is recognised only by a cookie that carries the server's mac of the commenter's
  id and of a time of issue that is not more than a year ago.
\<close>

theorem remembered_only_with_mac:
  assumes "sodium_ok S" "remembered_commenter S (Some key) now (Some h) = Some cid"
  shows "length cid = 24 \<and> contains h (''br_commenter='' @ cid)
    \<and> (\<exists>issued. 0 < issued \<and> now - issued \<le> 365 * 86400 \<and> contains h (''.'' @ remember_mac S key cid issued))"
proof -
  obtain p where p: "strstr h (REMEMBER_COOKIE @ ''='') = Some p"
    using assms(2) by (auto simp: remembered_commenter_def split: option.splits)
  define t where "t = drop (p + length (REMEMBER_COOKIE @ ''='')) h"
  define v where "v = takeWhile (\<lambda>c. c \<noteq> CHR '';'' \<and> c \<noteq> CHR '' '') t"
  obtain number mac where c: "cookie_parts v = Some (cid, number, mac)" and i: "0 < fst (strtoll number)"
    "now - fst (strtoll number) \<le> 365 * 86400" "sod_equal S (remember_mac S key cid (fst (strtoll number))) mac"
    using assms(2) unfolding remembered_commenter_def option.case p Let_def t_def [symmetric] v_def [symmetric]
    by (auto simp: REMEMBER_DAYS_def not_less split: option.splits if_splits prod.splits)
  obtain d1 k where d: "strchr v (CHR ''.'') = Some d1" "strchr (drop (d1 + 1) v) (CHR ''.'') = Some k" "d1 = 24"
    "cid = take d1 v" "mac = drop (k + 1) (drop (d1 + 1) v)" "length mac = 64"
    using c by (auto simp: cookie_parts_def Let_def split: option.splits if_splits)
  have m: "mac = remember_mac S key cid (fst (strtoll number))"
    using i(3) d(6) remember_mac_ok [OF assms(1)] assms(1) by (simp add: sodium_ok_def)
  have h: "h = take p h @ (REMEMBER_COOKIE @ ''='') @ t"
  proof -
    obtain z where "drop p h = (REMEMBER_COOKIE @ ''='') @ z" using strstr_Some_prefix [OF p] by (auto simp: prefix_def)
    moreover from this have "t = z" unfolding t_def by (metis add.commute append_eq_conv_conj drop_drop)
    ultimately show ?thesis by (metis append_take_drop_id)
  qed
  obtain w where t: "t = v @ w" unfolding v_def by (metis takeWhile_dropWhile_id)
  have v: "v = cid @ drop d1 v" using d(4) by simp
  have dot: "drop d1 v = CHR ''.'' # drop (d1 + 1) v" using d(1) by (metis Cons_nth_drop_Suc Suc_eq_plus1 strchr_Some)
  have dot2: "drop (d1 + 1) v = take k (drop (d1 + 1) v) @ CHR ''.'' # mac"
    unfolding d(5) using d(2) id_take_nth_drop [of k "drop (d1 + 1) v"] by (simp add: strchr_Some)
  have "h = take p h @ (''br_commenter='' @ cid) @ drop d1 v @ w" using h t v by (simp add: REMEMBER_COOKIE_def) (metis append.assoc append_Cons)
  moreover have "h = (take p h @ REMEMBER_COOKIE @ ''='' @ cid @ ''.'' @ take k (drop (d1 + 1) v)) @ (''.'' @ mac) @ w"
    using h t v dot dot2 by (metis append.assoc append_Cons append_Nil)
  moreover have "length cid = 24" using d(1,3,4) by (simp add: strchr_Some)
  ultimately show ?thesis using i(1,2) m unfolding contains_iff by metis
qed

lemma ex_cid: "cid_ok (replicate 24 (CHR ''a''))" "time_ok 1000"
  by (simp_all add: cid_ok_def time_ok_def list_all_iff isxdigit_def)

theorem remembered_for_a_year_witness:
  "remembered_commenter toy_sodium (Some []) 2000
     (Some (''br_commenter='' @ remember_value toy_sodium [] (replicate 24 (CHR ''a'')) 1000 @ ''; x=1'')) = Some (replicate 24 (CHR ''a''))"
  using remembered_for_a_year [OF toy_sodium_ok ex_cid, of 2000 "''; x=1''" "[]"] by simp

theorem remembered_only_with_mac_witness:
  "contains (''br_commenter='' @ remember_value toy_sodium [] (replicate 24 (CHR ''a'')) 1000) (''br_commenter='' @ replicate 24 (CHR ''a''))"
proof -
  have "remembered_commenter toy_sodium (Some []) 2000 (Some (''br_commenter='' @ remember_value toy_sodium [] (replicate 24 (CHR ''a'')) 1000))
      = Some (replicate 24 (CHR ''a''))"
    using remembered_cookie [OF toy_sodium_ok ex_cid, of 2000 "[]" "[]"] by simp
  from remembered_only_with_mac [OF toy_sodium_ok this] show ?thesis by blast
qed

subsection \<open>Notices and replies\<close>

text \<open>Where a title is cut for a subject: at 150 bytes, and back to the start of a character.\<close>

fun cut_back :: "string \<Rightarrow> nat \<Rightarrow> nat" where
  "cut_back t k = (if 0 < k \<and> utf8_cont (t ! k) then cut_back t (k - 1) else k)"

declare cut_back.simps [simp del]

definition title_cut :: "string \<Rightarrow> nat" where
  "title_cut t = (if length t > 150 then cut_back t 150 else length t)"

definition cut_title :: "string \<Rightarrow> string" where
  "cut_title t = take (title_cut t) t @ (if title_cut t < length t then ''...'' else [])"

definition author_subject :: "string \<Rightarrow> string" where
  "author_subject entry_title =
     fit 200 (''New comment on '' @ [DQ] @ cut_title (if entry_title \<noteq> [] then entry_title else ''your blog entry'') @ [DQ])"

definition reply_subject :: "string \<Rightarrow> string" where
  "reply_subject entry_title =
     fit 200 (''Reply to your comment on '' @ [DQ] @ cut_title (if entry_title \<noteq> [] then entry_title else ''a blog entry'') @ [DQ])"

definition notice_message :: "string option \<Rightarrow> string option" where
  "notice_message notice =
     (if notice = Some ''sent''
      then Some ''Thanks! Check your email: we sent you a link to confirm your comment. It works for 24 hours.''
      else if notice = Some ''pending'' then Some ''Thanks! Your comment is waiting for a moderator.''
      else None)"

definition COMMENT_TOKEN_HEX :: nat where "COMMENT_TOKEN_HEX = 64"

definition token_shape :: "string option \<Rightarrow> bool" where
  "token_shape token =
     (case token of None \<Rightarrow> False
      | Some t \<Rightarrow> length t = COMMENT_TOKEN_HEX \<and> list_all (\<lambda>c. c \<in> set ''0123456789abcdef'') t)"

datatype CommentReplyResult = COMMENT_REPLY_SAVED | COMMENT_REPLY_APPROVED | COMMENT_REPLY_INVALID | COMMENT_REPLY_ERROR

text \<open>
  \<open>set_reply\<close> is what the database answers to a text: None for an error, or whether it is the
  first reply and whether the comment is approved by it. The last component of the result says
  whether the commenter is told.
\<close>

definition COMMENT_REPLY_MAX :: nat where "COMMENT_REPLY_MAX = 2000"

definition comments_reply ::
  "(string \<Rightarrow> (bool \<times> bool) option) \<Rightarrow> bool \<Rightarrow> string \<Rightarrow> nat \<Rightarrow> CommentReplyResult \<times> string option \<times> string option \<times> bool" where
  "comments_reply set_reply mail_configured t0 bytes =
     (let (rc, t1) = to_utf8 t0 bytes; too_long = ''The reply is too long (2000 characters at most).'' in
      if rc \<noteq> 0 then (COMMENT_REPLY_INVALID, Some too_long, None, False)
      else
        let (bad, t) = clean_text t1 in
        if bad \<noteq> None then
          (COMMENT_REPLY_INVALID,
           Some (if t = [] then ''Please write a reply.'' else if length t > COMMENT_REPLY_MAX then too_long
                 else ''The reply has characters that can'' @ [SQ] @ ''t be read.''), None, False)
        else case set_reply t of
               None \<Rightarrow> (COMMENT_REPLY_ERROR, None, Some t, False)
             | Some (first, approved) \<Rightarrow>
                 (if approved then COMMENT_REPLY_APPROVED else COMMENT_REPLY_SAVED, None, Some t, first \<and> mail_configured))"

lemma cut_back_le: "cut_back t k \<le> k"
proof (induction t k rule: cut_back.induct)
  case (1 t k)
  then show ?case by (cases "0 < k \<and> utf8_cont (t ! k)") (auto simp: cut_back.simps [of t k])
qed

lemma cut_back_boundary: "cut_back t k = 0 \<or> \<not> utf8_cont (t ! cut_back t k)"
proof (induction t k rule: cut_back.induct)
  case (1 t k)
  show ?case
  proof (cases "0 < k \<and> utf8_cont (t ! k)")
    case True
    with 1 show ?thesis by (simp add: cut_back.simps [of t k])
  next
    case False
    then show ?thesis by (auto simp: cut_back.simps [of t k])
  qed
qed

lemma valid_utf8_take: "valid_utf8 t \<Longrightarrow> k < length t \<Longrightarrow> \<not> utf8_cont (t ! k) \<Longrightarrow> valid_utf8 (take k t)"
proof (induction t arbitrary: k rule: valid_utf8.induct)
  case (2 c r)
  obtain n where n: "utf8_more c = Some n" "n \<le> length r" "list_all utf8_cont (take n r)" "valid_utf8 (drop n r)"
    using 2(2) by (auto split: option.splits)
  show ?case
  proof (cases k)
    case (Suc j)
    have j: "n \<le> j"
    proof (rule ccontr)
      assume "\<not> n \<le> j"
      then have "r ! j \<in> set (take n r)" using n(2) by (metis in_set_conv_nth length_take min.absorb2 not_le nth_take)
      then show False using n(3) 2(4) Suc by (simp add: list_all_iff)
    qed
    then have "valid_utf8 (take (j - n) (drop n r))"
      using 2(1) [OF n(1), of "j - n"] n(4) 2(3,4) Suc by simp
    moreover have "take n (take j r) = take n r" "drop n (take j r) = take (j - n) (drop n r)" using j by (simp_all add: drop_take)
    ultimately show ?thesis using n Suc j 2(3) by simp
  qed simp
qed simp

lemma title_cut_valid: "valid_utf8 t \<Longrightarrow> valid_utf8 (take (title_cut t) t) \<and> title_cut t \<le> 150"
  using valid_utf8_take [of t "cut_back t 150"] cut_back_boundary [of t 150] cut_back_le [of t 150]
  by (cases "cut_back t 150 = 0") (auto simp: title_cut_def)

text \<open>
  The title in the subject of a notice is cut between two characters, never inside one, and
  the subject is never longer than the 200 bytes the mail queue takes, nor cut by its buffer.
\<close>

theorem notice_subjects:
  assumes "valid_utf8 title" "title \<noteq> []"
  shows "valid_utf8 (cut_title title)
    \<and> author_subject title = ''New comment on '' @ [DQ] @ cut_title title @ [DQ] \<and> length (author_subject title) \<le> 200
    \<and> reply_subject title = ''Reply to your comment on '' @ [DQ] @ cut_title title @ [DQ] \<and> length (reply_subject title) \<le> 200"
proof -
  have c: "valid_utf8 (take (title_cut title) title)" "title_cut title \<le> 150" using title_cut_valid [OF assms(1)] by simp_all
  have "valid_utf8 ''...''" by (simp add: utf8_more_def)
  then have "valid_utf8 (cut_title title)" using valid_utf8_append [OF c(1)] c(1) by (simp add: cut_title_def)
  moreover have len: "length (cut_title title) \<le> 153" using c(2) by (simp add: cut_title_def)
  ultimately show ?thesis using assms(2) by (simp add: author_subject_def reply_subject_def fit_id)
qed

theorem notice_subjects_witness:
  "valid_utf8 (cut_title [CHR 0xC3, CHR 0xA9])"
proof -
  have "valid_utf8 [CHR 0xC3, CHR 0xA9]" by (simp add: utf8_more_def utf8_cont_def)
  from notice_subjects [OF this] show ?thesis by simp
qed

text \<open>
  A reply reaches the database only as an accepted text, it is saved or refused with a message,
  and the commenter is told only of the first reply that was saved.
\<close>

theorem comments_reply_checked:
  "case comments_reply set_reply mail_configured t bytes of
     (res, err, saved, told) \<Rightarrow>
       (res = COMMENT_REPLY_INVALID \<longleftrightarrow> err \<noteq> None) \<and> (res = COMMENT_REPLY_INVALID \<longleftrightarrow> saved = None)
       \<and> (case saved of None \<Rightarrow> \<not> told
          | Some x \<Rightarrow> comment_text_ok x \<and> (res = COMMENT_REPLY_ERROR \<longleftrightarrow> set_reply x = None)
                      \<and> (told \<longleftrightarrow> mail_configured \<and> (\<exists>a. set_reply x = Some (True, a))))"
proof -
  obtain rc t1 where u: "to_utf8 t bytes = (rc, t1)" by fastforce
  obtain bad x where c: "clean_text t1 = (bad, x)" by fastforce
  show ?thesis
    using u c clean_text_accepts [of t1 x]
    by (cases bad; cases "set_reply x") (auto simp: comments_reply_def Let_def split: if_splits)
qed

end
