(* ===== verification/Session.thy ===== *)
theory Session
  imports Http_Utils
begin

text \<open>
  Dashboard sessions (src/src/db/session_manager.c, src/src/db/auth.c): the documents of the sessions
  collection, the cookie that carries a token, and the CSRF token derived from it. The database is
  MongoDB's: a collection is the list of its documents, a query sees the first that matches, and
  whether the server is there and whether the operation succeeds is an argument. Libsodium's hash,
  hexadecimal printing and comparison are a record of functions with their documented laws, as are
  the object ids of libbson. Times are in milliseconds.
\<close>

subsection \<open>What the code calls\<close>

datatype Db = Db_None | Db_Fails | Db_Works

record Lib =
  lib_hash :: "string \<Rightarrow> string \<Rightarrow> byte list"
  lib_hex :: "byte list \<Rightarrow> string"
  lib_equal :: "string \<Rightarrow> string \<Rightarrow> bool"
  lib_oid_valid :: "string \<Rightarrow> bool"
  lib_oid_text :: "string \<Rightarrow> string"

definition lib_ok :: "Lib \<Rightarrow> bool" where
  "lib_ok L \<longleftrightarrow>
     (\<forall>m k. length (lib_hash L m k) = 32)
     \<and> (\<forall>b. length (lib_hex L b) = 2 * length b \<and> list_all isxdigit (lib_hex L b))
     \<and> (\<forall>a b. length a = 64 \<and> length b = 64 \<longrightarrow> (lib_equal L a b \<longleftrightarrow> a = b))"

subsection \<open>Tokens\<close>

definition SESSION_COOKIE_NAME :: string where "SESSION_COOKIE_NAME = ''session''"
definition SESSION_TOKEN_BYTES :: nat where "SESSION_TOKEN_BYTES = 32"
definition SESSION_TOKEN_BUF_SIZE :: nat where "SESSION_TOKEN_BUF_SIZE = 65"
definition CSRF_TOKEN_BUF_SIZE :: nat where "CSRF_TOKEN_BUF_SIZE = 65"
definition csrf_key :: string where "csrf_key = ''boat-rudder/csrf-token/v1''"

definition generate_session_token :: "Lib \<Rightarrow> byte list \<Rightarrow> string" where
  "generate_session_token L random = lib_hex L random"

definition extract_session_token :: "string option \<Rightarrow> nat \<Rightarrow> string option" where
  "extract_session_token cookie_header bytes =
     (case cookie_header of
        None \<Rightarrow> None
      | Some h \<Rightarrow>
          (case strstr h (SESSION_COOKIE_NAME @ ''='') of
             None \<Rightarrow> None
           | Some p \<Rightarrow>
               (let v = take (bytes - 1) (takeWhile (\<lambda>c. c \<noteq> CHR '';'') (drop (p + length (SESSION_COOKIE_NAME @ ''='')) h))
                in if v = [] then None else Some v)))"

definition derive_csrf_token :: "Lib \<Rightarrow> string option \<Rightarrow> string option" where
  "derive_csrf_token L session_token =
     (case session_token of
        None \<Rightarrow> None
      | Some t \<Rightarrow> if t = [] then None else Some (fit CSRF_TOKEN_BUF_SIZE (lib_hex L (lib_hash L t csrf_key))))"

definition verify_csrf_token :: "Lib \<Rightarrow> string option \<Rightarrow> string option \<Rightarrow> bool" where
  "verify_csrf_token L cookie_header supplied =
     (case supplied of
        None \<Rightarrow> False
      | Some s \<Rightarrow>
          if length s \<noteq> CSRF_TOKEN_BUF_SIZE - 1 then False
          else case extract_session_token cookie_header SESSION_TOKEN_BUF_SIZE of
                 None \<Rightarrow> False
               | Some t \<Rightarrow>
                   (case derive_csrf_token L (Some t) of
                      None \<Rightarrow> False
                    | Some expected \<Rightarrow> lib_equal L expected s))"

definition cookie_tail :: "bool \<Rightarrow> string" where
  "cookie_tail ssl_enabled = ''; SameSite=Lax'' @ (if ssl_enabled then ''; Secure'' else []) @ CRLF"

definition build_session_cookie_header :: "bool \<Rightarrow> string \<Rightarrow> int \<Rightarrow> nat \<Rightarrow> string" where
  "build_session_cookie_header ssl_enabled token ttl_seconds bytes =
     fit bytes (''Set-Cookie: '' @ SESSION_COOKIE_NAME @ ''='' @ token @ ''; HttpOnly; Path=/; Max-Age='' @ show_int ttl_seconds
       @ cookie_tail ssl_enabled)"

definition build_session_clear_cookie_header :: "bool \<Rightarrow> nat \<Rightarrow> string" where
  "build_session_clear_cookie_header ssl_enabled bytes =
     fit bytes (''Set-Cookie: '' @ SESSION_COOKIE_NAME @ ''=; HttpOnly; Path=/; Max-Age=0'' @ cookie_tail ssl_enabled)"

subsection \<open>The collection\<close>

text \<open>A field a document lacks, or holds with another type, is \<open>None\<close>.\<close>

record SessionDoc =
  sd_user :: "string option"
  sd_token :: string
  sd_created :: int
  sd_expires :: "int option"

record Sessions =
  s_docs :: "SessionDoc list"
  s_unique :: bool

definition create_session :: "Lib \<Rightarrow> Db \<Rightarrow> int \<Rightarrow> string \<Rightarrow> string \<Rightarrow> int \<Rightarrow> Sessions \<Rightarrow> int \<times> Sessions" where
  "create_session L db now user_id token ttl_seconds s =
     (if \<not> lib_oid_valid L user_id then (-1, s)
      else case db of
             Db_None \<Rightarrow> (-1, s)
           | Db_Fails \<Rightarrow> (-1, s)
           | Db_Works \<Rightarrow>
               if s_unique s \<and> token \<in> sd_token ` set (s_docs s) then (-1, s)
               else (0, s\<lparr>s_docs := s_docs s @ [\<lparr>sd_user = Some (lib_oid_text L user_id), sd_token = token,
                           sd_created = now, sd_expires = Some (now + ttl_seconds * 1000)\<rparr>]\<rparr>))"

text \<open>The result, and the user written out with it.\<close>

definition validate_session :: "Db \<Rightarrow> int \<Rightarrow> string \<Rightarrow> Sessions \<Rightarrow> int \<times> string option" where
  "validate_session db now token s =
     (case db of
        Db_None \<Rightarrow> (-1, None)
      | Db_Fails \<Rightarrow> (-1, None)
      | Db_Works \<Rightarrow>
          (case find (\<lambda>d. sd_token d = token) (s_docs s) of
             None \<Rightarrow> (0, None)
           | Some d \<Rightarrow>
               (case sd_expires d of
                  None \<Rightarrow> (0, None)
                | Some e \<Rightarrow>
                    if e > now then (case sd_user d of None \<Rightarrow> (0, None) | Some u \<Rightarrow> (1, Some u)) else (0, None))))"

definition validate_session_cookie :: "Db \<Rightarrow> int \<Rightarrow> string option \<Rightarrow> Sessions \<Rightarrow> int \<times> string option" where
  "validate_session_cookie db now cookie_header s =
     (case extract_session_token cookie_header SESSION_TOKEN_BUF_SIZE of
        None \<Rightarrow> (0, None)
      | Some token \<Rightarrow> validate_session db now token s)"

fun delete_one :: "('a \<Rightarrow> bool) \<Rightarrow> 'a list \<Rightarrow> 'a list" where
  "delete_one P [] = []"
| "delete_one P (x # xs) = (if P x then xs else x # delete_one P xs)"

definition destroy_session :: "Db \<Rightarrow> string \<Rightarrow> Sessions \<Rightarrow> int \<times> Sessions" where
  "destroy_session db token s =
     (if db = Db_Works then (0, s\<lparr>s_docs := delete_one (\<lambda>d. sd_token d = token) (s_docs s)\<rparr>) else (-1, s))"

definition destroy_user_sessions :: "Lib \<Rightarrow> Db \<Rightarrow> string option \<Rightarrow> Sessions \<Rightarrow> int \<times> Sessions" where
  "destroy_user_sessions L db user_id s =
     (case user_id of
        None \<Rightarrow> (-1, s)
      | Some u \<Rightarrow>
          if \<not> lib_oid_valid L u then (-1, s)
          else if db = Db_Works then (0, s\<lparr>s_docs := filter (\<lambda>d. sd_user d \<noteq> Some (lib_oid_text L u)) (s_docs s)\<rparr>)
          else (-1, s))"

definition not_expired :: "int \<Rightarrow> SessionDoc \<Rightarrow> bool" where
  "not_expired now d \<longleftrightarrow> (case sd_expires d of None \<Rightarrow> True | Some e \<Rightarrow> now < e)"

text \<open>The two commands of the start: the indexes, and the purge of what has expired. A unique index
  cannot be made over documents that repeat a token.\<close>

definition session_manager_ensure_indexes :: "Db \<Rightarrow> bool \<Rightarrow> bool \<Rightarrow> int \<Rightarrow> Sessions \<Rightarrow> Sessions" where
  "session_manager_ensure_indexes db index_made purged now s =
     (if db = Db_None then s
      else let s1 = (if index_made \<and> distinct (map sd_token (s_docs s)) then s\<lparr>s_unique := True\<rparr> else s)
           in if purged then s1\<lparr>s_docs := filter (not_expired now) (s_docs s1)\<rparr> else s1)"

subsection \<open>Signing in\<close>

text \<open>A document of users; a missing field, or one of another type, is \<open>None\<close>.\<close>

record UserDoc =
  u_id :: "string option"
  u_email :: string
  u_role :: "string option"
  u_password :: "string option"

definition auth_login_user :: "(string \<Rightarrow> string \<Rightarrow> bool) \<Rightarrow> Db \<Rightarrow> UserDoc list \<Rightarrow> string \<Rightarrow> string \<Rightarrow> string option" where
  "auth_login_user pwhash_verify db users email password =
     (if db \<noteq> Db_Works then None
      else case find (\<lambda>d. u_email d = email) users of
             None \<Rightarrow> None
           | Some d \<Rightarrow>
               if u_role d = Some ''commenter'' then None
               else case (u_password d, u_id d) of
                      (Some stored_hash, Some i) \<Rightarrow> if pwhash_verify stored_hash password then Some i else None
                    | _ \<Rightarrow> None)"


subsection \<open>What the collection stands for\<close>

text \<open>
  The operations on the collection, and MongoDB's own monitor, which removes what has expired;
  the abstract state is a map from tokens to a user and the end of the session.
\<close>

datatype SessionOp =
  Login Db int string string int
| Logout Db string
| EndUser Db string
| Start Db bool bool int
| Monitor int

fun session_op :: "Lib \<Rightarrow> SessionOp \<Rightarrow> Sessions \<Rightarrow> Sessions" where
  "session_op L (Login db now user token ttl) s = snd (create_session L db now user token ttl s)"
| "session_op L (Logout db token) s = snd (destroy_session db token s)"
| "session_op L (EndUser db user) s = snd (destroy_user_sessions L db (Some user) s)"
| "session_op L (Start db index_made purged now) s = session_manager_ensure_indexes db index_made purged now s"
| "session_op L (Monitor now) s = s\<lparr>s_docs := filter (not_expired now) (s_docs s)\<rparr>"

type_synonym SessionMap = "string \<rightharpoonup> string \<times> int"

definition keep_if :: "(string \<times> int \<Rightarrow> bool) \<Rightarrow> SessionMap \<Rightarrow> SessionMap" where
  "keep_if P m = (\<lambda>t. case m t of None \<Rightarrow> None | Some v \<Rightarrow> if P v then Some v else None)"

fun map_op :: "Lib \<Rightarrow> SessionOp \<Rightarrow> SessionMap \<Rightarrow> SessionMap" where
  "map_op L (Login db now user token ttl) m =
     (if lib_oid_valid L user \<and> db = Db_Works \<and> m token = None
      then m(token \<mapsto> (lib_oid_text L user, now + ttl * 1000)) else m)"
| "map_op L (Logout db token) m = (if db = Db_Works then m(token := None) else m)"
| "map_op L (EndUser db user) m =
     (if lib_oid_valid L user \<and> db = Db_Works then keep_if (\<lambda>v. fst v \<noteq> lib_oid_text L user) m else m)"
| "map_op L (Start db index_made purged now) m =
     (if db \<noteq> Db_None \<and> purged then keep_if (\<lambda>v. now < snd v) m else m)"
| "map_op L (Monitor now) m = keep_if (\<lambda>v. now < snd v) m"

definition doc_full :: "SessionDoc \<Rightarrow> bool" where
  "doc_full d \<longleftrightarrow> sd_user d \<noteq> None \<and> sd_expires d \<noteq> None"

definition doc_value :: "SessionDoc \<Rightarrow> string \<times> int" where
  "doc_value d = (the (sd_user d), the (sd_expires d))"

definition sessions_map :: "SessionDoc list \<Rightarrow> SessionMap" where
  "sessions_map ds = (\<lambda>t. map_option doc_value (find (\<lambda>d. sd_token d = t) ds))"

definition sessions_ok :: "Sessions \<Rightarrow> bool" where
  "sessions_ok s \<longleftrightarrow> s_unique s \<and> distinct (map sd_token (s_docs s)) \<and> list_all doc_full (s_docs s)"

lemma find_token_None: "find (\<lambda>d. sd_token d = t) ds = None \<longleftrightarrow> t \<notin> sd_token ` set ds"
  by (auto simp: find_None_iff)

lemma sessions_map_None: "sessions_map ds t = None \<longleftrightarrow> t \<notin> sd_token ` set ds"
  by (simp add: sessions_map_def find_token_None)

lemma sessions_map_snoc:
  "sd_token d \<notin> sd_token ` set ds \<Longrightarrow> sessions_map (ds @ [d]) = (sessions_map ds)(sd_token d \<mapsto> doc_value d)"
proof (induction ds)
  case Nil
  show ?case by (auto simp: sessions_map_def fun_eq_iff)
next
  case (Cons x ds)
  then have "sd_token x \<noteq> sd_token d" "sessions_map (ds @ [d]) = (sessions_map ds)(sd_token d \<mapsto> doc_value d)" by auto
  then show ?case by (auto simp: sessions_map_def fun_eq_iff)
qed

lemma delete_one_subset: "set (delete_one P xs) \<subseteq> set xs"
  by (induction xs) auto

lemma delete_one_tokens: "distinct (map f xs) \<Longrightarrow> distinct (map f (delete_one P xs))"
proof (induction xs)
  case (Cons x xs)
  have "f ` set (delete_one P xs) \<subseteq> f ` set xs" by (intro image_mono delete_one_subset)
  with Cons show ?case by auto
qed simp

lemma sessions_map_delete:
  "distinct (map sd_token ds) \<Longrightarrow> sessions_map (delete_one (\<lambda>d. sd_token d = t) ds) = (sessions_map ds)(t := None)"
proof (induction ds)
  case Nil
  show ?case by (auto simp: sessions_map_def fun_eq_iff)
next
  case (Cons x ds)
  then have IH: "sessions_map (delete_one (\<lambda>d. sd_token d = t) ds) = (sessions_map ds)(t := None)"
    by (intro Cons.IH) simp
  have gone: "sd_token x \<notin> sd_token ` set ds" using Cons.prems by auto
  then have "sessions_map ds (sd_token x) = None" using sessions_map_None by blast
  then show ?case using IH by (auto simp: sessions_map_def fun_eq_iff)
qed

lemma sessions_map_filter:
  assumes "distinct (map sd_token ds)" "\<And>d. d \<in> set ds \<Longrightarrow> Q d = P (doc_value d)"
  shows "sessions_map (filter Q ds) = keep_if P (sessions_map ds)"
  using assms
proof (induction ds)
  case Nil
  show ?case by (auto simp: sessions_map_def keep_if_def fun_eq_iff)
next
  case (Cons x ds)
  then have IH: "sessions_map (filter Q ds) = keep_if P (sessions_map ds)" "Q x = P (doc_value x)" by simp_all
  have "sd_token x \<notin> sd_token ` set ds" using Cons.prems(1) by auto
  then have "sessions_map ds (sd_token x) = None" using sessions_map_None by blast
  then show ?case using IH by (auto simp: sessions_map_def keep_if_def fun_eq_iff split: option.splits)
qed


lemma doc_user: "doc_full d \<Longrightarrow> sd_user d \<noteq> Some u \<longleftrightarrow> fst (doc_value d) \<noteq> u"
  by (cases "sd_user d") (auto simp: doc_full_def doc_value_def)

lemma doc_expiry: "doc_full d \<Longrightarrow> not_expired now d \<longleftrightarrow> now < snd (doc_value d)"
  by (cases "sd_expires d") (auto simp: doc_full_def doc_value_def not_expired_def)

lemma sessions_ok_filter: "sessions_ok s \<Longrightarrow> sessions_ok (s\<lparr>s_docs := filter P (s_docs s)\<rparr>)"
  by (auto simp: sessions_ok_def distinct_map_filter list_all_iff)

lemma sessions_ok_delete: "sessions_ok s \<Longrightarrow> sessions_ok (s\<lparr>s_docs := delete_one P (s_docs s)\<rparr>)"
  using delete_one_subset [of P "s_docs s"] by (auto simp: sessions_ok_def delete_one_tokens list_all_iff)

lemma purge_map:
  assumes "sessions_ok s"
  shows "sessions_map (filter (not_expired now) (s_docs s)) = keep_if (\<lambda>v. now < snd v) (sessions_map (s_docs s))"
  using assms by (intro sessions_map_filter) (auto simp: sessions_ok_def list_all_iff doc_expiry)

lemma end_user_map:
  assumes "sessions_ok s"
  shows "sessions_map (filter (\<lambda>d. sd_user d \<noteq> Some u) (s_docs s)) = keep_if (\<lambda>v. fst v \<noteq> u) (sessions_map (s_docs s))"
  using assms by (intro sessions_map_filter) (auto simp: sessions_ok_def list_all_iff doc_user simp del: not_Some_eq)

lemma session_op_map:
  assumes "sessions_ok s"
  shows "sessions_map (s_docs (session_op L op s)) = map_op L op (sessions_map (s_docs s)) \<and> sessions_ok (session_op L op s)"
proof (cases op)
  case (Login db now user token ttl)
  let ?d = "\<lparr>sd_user = Some (lib_oid_text L user), sd_token = token, sd_created = now, sd_expires = Some (now + ttl * 1000)\<rparr>"
  have u: "s_unique s" using assms by (simp add: sessions_ok_def)
  show ?thesis
  proof (cases "lib_oid_valid L user \<and> db = Db_Works \<and> token \<notin> sd_token ` set (s_docs s)")
    case True
    have "sessions_map (s_docs s @ [?d]) = (sessions_map (s_docs s))(token \<mapsto> (lib_oid_text L user, now + ttl * 1000))"
      using sessions_map_snoc [of ?d "s_docs s"] True by (simp add: doc_value_def)
    moreover have "sessions_map (s_docs s) token = None" using True sessions_map_None by blast
    ultimately show ?thesis
      using True assms by (auto simp: Login create_session_def sessions_ok_def doc_full_def)
  next
    case False
    then have "create_session L db now user token ttl s = (-1, s)"
      using u by (cases db) (auto simp: create_session_def)
    then show ?thesis using False assms sessions_map_None [of "s_docs s" token] by (auto simp: Login)
  qed
next
  case (Logout db token)
  have "distinct (map sd_token (s_docs s))" using assms by (simp add: sessions_ok_def)
  from sessions_map_delete [OF this] show ?thesis
    using assms sessions_ok_delete [OF assms] by (simp add: Logout destroy_session_def)
next
  case (EndUser db user)
  show ?thesis
    using assms end_user_map [OF assms] sessions_ok_filter [OF assms] by (simp add: EndUser destroy_user_sessions_def)
next
  case (Start db index_made purged now)
  have "s\<lparr>s_unique := True\<rparr> = s" using assms by (simp add: sessions_ok_def)
  then show ?thesis
    using assms purge_map [OF assms] sessions_ok_filter [OF assms] by (simp add: Start session_manager_ensure_indexes_def Let_def)
next
  case (Monitor now)
  show ?thesis using purge_map [OF assms] sessions_ok_filter [OF assms] by (simp add: Monitor)
qed

lemma validate_map:
  assumes "sessions_ok s"
  shows "validate_session Db_Works now token s =
    (case sessions_map (s_docs s) token of
       None \<Rightarrow> (0, None)
     | Some (u, e) \<Rightarrow> if now < e then (1, Some u) else (0, None))"
proof (cases "find (\<lambda>d. sd_token d = token) (s_docs s)")
  case None
  then show ?thesis by (simp add: validate_session_def sessions_map_def)
next
  case (Some d)
  then have "doc_full d" using assms by (auto simp: sessions_ok_def list_all_iff find_Some_iff)
  then show ?thesis using Some by (auto simp: validate_session_def sessions_map_def doc_value_def doc_full_def)
qed


subsection \<open>A history of the collection\<close>

definition no_sessions :: Sessions where
  "no_sessions = \<lparr>s_docs = [], s_unique = True\<rparr>"

definition run_sessions :: "Lib \<Rightarrow> SessionOp list \<Rightarrow> Sessions" where
  "run_sessions L ops = fold (session_op L) ops no_sessions"

fun login_token :: "SessionOp \<Rightarrow> string option" where
  "login_token (Login db now user token ttl) = Some token"
| "login_token _ = None"

fun logs_in :: "Lib \<Rightarrow> string \<Rightarrow> string \<Rightarrow> int \<Rightarrow> SessionOp \<Rightarrow> bool" where
  "logs_in L t u now (Login db since user token ttl) \<longleftrightarrow>
     db = Db_Works \<and> token = t \<and> lib_oid_valid L user \<and> lib_oid_text L user = u \<and> now < since + ttl * 1000"
| "logs_in L t u now _ \<longleftrightarrow> False"

fun ends_it :: "Lib \<Rightarrow> string \<Rightarrow> string \<Rightarrow> SessionOp \<Rightarrow> bool" where
  "ends_it L t u (Logout db token) \<longleftrightarrow> db = Db_Works \<and> token = t"
| "ends_it L t u (EndUser db user) \<longleftrightarrow> db = Db_Works \<and> lib_oid_valid L user \<and> lib_oid_text L user = u"
| "ends_it L t u _ \<longleftrightarrow> False"

fun clock_le :: "int \<Rightarrow> SessionOp \<Rightarrow> bool" where
  "clock_le now (Start db index_made purged n) \<longleftrightarrow> n \<le> now"
| "clock_le now (Monitor n) \<longleftrightarrow> n \<le> now"
| "clock_le now _ \<longleftrightarrow> True"

definition holds_for :: "string \<Rightarrow> string \<Rightarrow> int \<Rightarrow> SessionMap \<Rightarrow> bool" where
  "holds_for t u now m \<longleftrightarrow> (case m t of None \<Rightarrow> False | Some v \<Rightarrow> fst v = u \<and> now < snd v)"

lemma run_ok: "sessions_ok (run_sessions L ops) \<and> sessions_map (s_docs (run_sessions L ops)) = fold (map_op L) ops (\<lambda>_. None)"
proof (induction ops rule: rev_induct)
  case Nil
  show ?case by (simp add: run_sessions_def no_sessions_def sessions_ok_def sessions_map_def)
next
  case (snoc op ops)
  then show ?case using session_op_map [of "run_sessions L ops" L op] by (simp add: run_sessions_def)
qed

lemma map_op_token: "map_op L op m t \<noteq> None \<Longrightarrow> m t \<noteq> None \<or> login_token op = Some t"
  by (cases op) (auto simp: keep_if_def split: if_splits option.splits)

lemma run_map_token: "fold (map_op L) ops (\<lambda>_. None) t \<noteq> None \<Longrightarrow> Some t \<in> set (map login_token ops)"
proof (induction ops rule: rev_induct)
  case (snoc op ops)
  then show ?case using map_op_token [of L op "fold (map_op L) ops (\<lambda>_. None)" t] by auto
qed simp

lemma holds_map_op:
  assumes "clock_le now op" "login_token op = Some t \<Longrightarrow> m t = None"
  shows "holds_for t u now (map_op L op m) \<longleftrightarrow> logs_in L t u now op \<or> holds_for t u now m \<and> \<not> ends_it L t u op"
  using assms by (cases op) (auto simp: holds_for_def keep_if_def split: option.splits)

lemma split_snoc:
  "(\<exists>pre x post. ops @ [op] = pre @ x # post \<and> P x \<and> list_all Q post) \<longleftrightarrow>
   P op \<or> (\<exists>pre x post. ops = pre @ x # post \<and> P x \<and> list_all Q post) \<and> Q op" (is "?l \<longleftrightarrow> ?r")
proof
  assume ?l
  then obtain pre x post where *: "ops @ [op] = pre @ x # post" "P x" "list_all Q post" by blast
  show ?r
  proof (cases post rule: rev_cases)
    case Nil
    with * show ?thesis by simp
  next
    case (snoc ys y)
    with * have "ops = pre @ x # ys" "op = y" by auto
    with * snoc show ?thesis by auto
  qed
next
  assume ?r
  then show ?l
  proof
    assume "P op"
    then have "ops @ [op] = ops @ op # [] \<and> P op \<and> list_all Q []" by simp
    then show ?l by blast
  next
    assume "(\<exists>pre x post. ops = pre @ x # post \<and> P x \<and> list_all Q post) \<and> Q op"
    then obtain pre x post where "ops = pre @ x # post" "P x" "list_all Q post" "Q op" by blast
    then have "ops @ [op] = pre @ x # (post @ [op]) \<and> P x \<and> list_all Q (post @ [op])" by simp
    then show ?l by blast
  qed
qed

lemma run_map_holds:
  assumes "list_all (clock_le now) ops" "distinct (filter (\<lambda>x. x \<noteq> None) (map login_token ops))"
  shows "holds_for t u now (fold (map_op L) ops (\<lambda>_. None)) \<longleftrightarrow>
    (\<exists>pre op post. ops = pre @ op # post \<and> logs_in L t u now op \<and> list_all (\<lambda>x. \<not> ends_it L t u x) post)"
  using assms
proof (induction ops rule: rev_induct)
  case Nil
  show ?case by (simp add: holds_for_def)
next
  case (snoc op ops)
  let ?m = "fold (map_op L) ops (\<lambda>_. None)"
  have "?m t = None" if "login_token op = Some t"
  proof (rule ccontr)
    assume "?m t \<noteq> None"
    then have "Some t \<in> set (map login_token ops)" by (rule run_map_token)
    then show False using snoc.prems(2) that by auto
  qed
  with snoc have "holds_for t u now (map_op L op ?m) \<longleftrightarrow> logs_in L t u now op \<or> holds_for t u now ?m \<and> \<not> ends_it L t u op"
    by (intro holds_map_op) auto
  moreover have "list_all (clock_le now) ops" "distinct (filter (\<lambda>x. x \<noteq> None) (map login_token ops))" using snoc.prems by auto
  ultimately show ?case using snoc.IH unfolding split_snoc by simp
qed

subsection \<open>Cookies\<close>

lemma lib_token:
  assumes "lib_ok L"
  shows "length (lib_hex L b) = 2 * length b" "list_all isxdigit (lib_hex L b)"
  using assms by (simp_all add: lib_ok_def)

lemma xdigit_not_special: "list_all isxdigit s \<Longrightarrow> c \<in> set s \<Longrightarrow> c \<noteq> CHR '';'' \<and> c \<noteq> CR \<and> c \<noteq> CHR ''=''"
  by (auto simp: list_all_iff isxdigit_def isdigit_def)

lemma extract_at:
  assumes "strstr pre (SESSION_COOKIE_NAME @ ''='') = None" "CHR '';'' \<notin> set token"
    "pre = [] \<or> (\<exists>w. pre = w @ ''; '')" "rest = [] \<or> (\<exists>w. rest = CHR '';'' # w)" "token \<noteq> []" "length token < bytes"
  shows "extract_session_token (Some (pre @ SESSION_COOKIE_NAME @ ''='' @ token @ rest)) bytes = Some token"
proof -
  let ?n = "SESSION_COOKIE_NAME @ ''=''"
  have pos: "strstr (pre @ ?n @ token @ rest) ?n = Some (length pre)"
  proof (cases "pre = []")
    case True
    then show ?thesis by (simp add: SESSION_COOKIE_NAME_def)
  next
    case False
    then obtain w where w: "pre = (w @ '';'') @ '' ''" using assms(3) by auto
    have "strstr (w @ '';'') ?n = None"
    proof (rule ccontr)
      assume "strstr (w @ '';'') ?n \<noteq> None"
      then obtain i where "strstr (w @ '';'') ?n = Some i" by blast
      from strstr_append [OF this, of "'' ''"] assms(1) w show False by simp
    qed
    moreover have "CHR '' '' \<notin> set ?n" by (simp add: SESSION_COOKIE_NAME_def)
    ultimately have "strstr ((w @ '';'') @ CHR '' '' # ?n @ (token @ rest)) ?n = Some (Suc (length (w @ '';'')))"
      by (rule strstr_after_sep)
    then show ?thesis using w by simp
  qed
  have "takeWhile (\<lambda>c. c \<noteq> CHR '';'') (token @ rest) = token"
    using assms(2,4) run_until(1) [OF assms(2)] by (auto simp: takeWhile_eq_all_conv)
  then show ?thesis using pos assms(5,6) by (simp add: extract_session_token_def)
qed


lemma set_cookie_fits:
  assumes "length token = 64" "- 2147483648 \<le> ttl \<and> ttl < 2147483648"
  shows "build_session_cookie_header ssl token ttl 256 =
    ''Set-Cookie: '' @ SESSION_COOKIE_NAME @ ''='' @ token @ ''; HttpOnly; Path=/; Max-Age='' @ show_int ttl @ cookie_tail ssl"
proof -
  have "length (show_int ttl) \<le> 11"
  proof -
    have "nat (- ttl) < 10 ^ 10" "nat ttl < 10 ^ 10" using assms(2) by auto
    then have "length (show_nat (nat (- ttl))) \<le> 10" "length (show_nat (nat ttl)) \<le> 10" by (intro length_show_nat; simp)+
    then show ?thesis by (simp add: show_int_def)
  qed
  then show ?thesis
    unfolding build_session_cookie_header_def
    by (intro fit_id) (simp add: SESSION_COOKIE_NAME_def cookie_tail_def assms(1))
qed

lemma csrf_token_text:
  assumes "lib_ok L" "t \<noteq> []"
  shows "derive_csrf_token L (Some t) = Some (lib_hex L (lib_hash L t csrf_key))" "length (lib_hex L (lib_hash L t csrf_key)) = 64"
proof -
  show *: "length (lib_hex L (lib_hash L t csrf_key)) = 64" using assms(1) by (simp add: lib_ok_def)
  show "derive_csrf_token L (Some t) = Some (lib_hex L (lib_hash L t csrf_key))"
    using assms(2) * by (simp add: derive_csrf_token_def fit_id CSRF_TOKEN_BUF_SIZE_def)
qed

lemma extract_not_Nil: "extract_session_token cookie n = Some t \<Longrightarrow> t \<noteq> []"
  by (auto simp: extract_session_token_def Let_def split: option.splits if_splits)

lemma verify_csrf_iff:
  assumes "lib_ok L"
  shows "verify_csrf_token L cookie (Some supplied) \<longleftrightarrow>
    (\<exists>t. extract_session_token cookie SESSION_TOKEN_BUF_SIZE = Some t \<and> supplied = lib_hex L (lib_hash L t csrf_key))"
proof (cases "extract_session_token cookie SESSION_TOKEN_BUF_SIZE")
  case None
  then show ?thesis by (simp add: verify_csrf_token_def)
next
  case (Some t)
  then have "t \<noteq> []" by (rule extract_not_Nil)
  note d = csrf_token_text [OF assms this]
  have "lib_equal L a b \<longleftrightarrow> a = b" if "length a = 64" "length b = 64" for a b
    using assms that by (simp add: lib_ok_def)
  then show ?thesis using Some d by (auto simp: verify_csrf_token_def CSRF_TOKEN_BUF_SIZE_def)
qed

subsection \<open>Properties\<close>

text \<open>
  C8. Who is signed in: after any history of the collection in which no token is issued twice and
  nothing was purged with a clock ahead of now, a token is a session of a user exactly when a
  sign-in of that user stored it, it has not run out, and neither a sign-out with the token nor the
  end of the user's sessions came after it.
\<close>

theorem signed_in_iff:
  assumes "list_all (clock_le now) ops" "distinct (filter (\<lambda>x. x \<noteq> None) (map login_token ops))"
  shows "validate_session Db_Works now t (run_sessions L ops) = (1, Some u) \<longleftrightarrow>
    (\<exists>pre op post. ops = pre @ op # post \<and> logs_in L t u now op \<and> list_all (\<lambda>x. \<not> ends_it L t u x) post)"
proof -
  have "validate_session Db_Works now t (run_sessions L ops) = (1, Some u) \<longleftrightarrow>
      holds_for t u now (sessions_map (s_docs (run_sessions L ops)))"
    using validate_map [of "run_sessions L ops" now t] run_ok [of L ops] by (auto simp: holds_for_def split: option.splits)
  then show ?thesis using run_ok [of L ops] run_map_holds [OF assms] by simp
qed

text \<open>A stand-in for the libraries that meets their documented laws.\<close>

definition toy_lib :: Lib where
  "toy_lib = \<lparr>lib_hash = (\<lambda>m k. replicate 32 (of_nat (length m))), lib_hex = hex_of, lib_equal = (\<lambda>a b. a = b),
     lib_oid_valid = (\<lambda>s. length s = 24), lib_oid_text = (\<lambda>s. s)\<rparr>"

lemma toy_lib_ok: "lib_ok toy_lib"
proof -
  have "length (hex_of b) = 2 * length b" "list_all isxdigit (hex_of b)" for b
    by (induction b) (simp_all add: hex_of_def hex_upper_xdigit byte_nibbles)
  then show ?thesis by (simp add: lib_ok_def toy_lib_def)
qed

definition example_history :: "SessionOp list" where
  "example_history =
     [Login Db_Works 1000 ''0123456789abcdef01234567'' ''t1'' 60,
      Login Db_Works 2000 ''0123456789abcdef01234567'' ''t2'' 60,
      Monitor 3000, Logout Db_Works ''t1'']"

theorem signed_in_iff_witness:
  "\<exists>pre op post. example_history = pre @ op # post \<and> logs_in toy_lib ''t2'' ''0123456789abcdef01234567'' 4000 op
     \<and> list_all (\<lambda>x. \<not> ends_it toy_lib ''t2'' ''0123456789abcdef01234567'' x) post"
proof -
  have "list_all (clock_le 4000) example_history" "distinct (filter (\<lambda>x. x \<noteq> None) (map login_token example_history))"
    by (simp_all add: example_history_def)
  moreover have "validate_session Db_Works 4000 ''t2'' (run_sessions toy_lib example_history) = (1, Some ''0123456789abcdef01234567'')"
    by code_simp
  ultimately show ?thesis using signed_in_iff by blast
qed



text \<open>
  The cookie of a sign-in comes back: the header is written whole, in one line, and a browser that
  sends its pair among other cookies, none before it holding the name of the session cookie, is
  read as sending the token that was issued.
\<close>

theorem session_cookie_roundtrip:
  assumes "lib_ok L" "length random = SESSION_TOKEN_BYTES" "- 2147483648 \<le> ttl \<and> ttl < 2147483648"
    "strstr before (SESSION_COOKIE_NAME @ ''='') = None" "before = [] \<or> (\<exists>w. before = w @ ''; '')"
    "after = [] \<or> (\<exists>w. after = CHR '';'' # w)"
  shows "\<exists>attributes. build_session_cookie_header ssl (generate_session_token L random) ttl 256 =
      ''Set-Cookie: '' @ (''session='' @ generate_session_token L random) @ attributes @ CRLF
    \<and> extract_session_token (Some (before @ (''session='' @ generate_session_token L random) @ after)) SESSION_TOKEN_BUF_SIZE
      = Some (generate_session_token L random)"
proof -
  let ?t = "generate_session_token L random"
  have len: "length ?t = 64" and hex: "list_all isxdigit ?t"
    using lib_token [OF assms(1), of random] assms(2) by (simp_all add: generate_session_token_def SESSION_TOKEN_BYTES_def)
  have nosemi: "CHR '';'' \<notin> set ?t" using xdigit_not_special [OF hex] by blast
  have nonempty: "?t \<noteq> []" using len by auto
  have "build_session_cookie_header ssl ?t ttl 256 =
      ''Set-Cookie: '' @ (''session='' @ ?t) @ (''; HttpOnly; Path=/; Max-Age='' @ show_int ttl @ ''; SameSite=Lax''
        @ (if ssl then ''; Secure'' else [])) @ CRLF"
    using set_cookie_fits [OF len assms(3), of ssl] by (simp add: SESSION_COOKIE_NAME_def cookie_tail_def)
  moreover have "extract_session_token (Some (before @ (''session='' @ ?t) @ after)) SESSION_TOKEN_BUF_SIZE = Some ?t"
    using extract_at [OF assms(4) nosemi assms(5,6) nonempty, of SESSION_TOKEN_BUF_SIZE] len
    by (simp add: SESSION_COOKIE_NAME_def SESSION_TOKEN_BUF_SIZE_def)
  ultimately show ?thesis by blast
qed

theorem session_cookie_roundtrip_witness:
  "extract_session_token (Some (''lang=en; '' @ (''session='' @ generate_session_token toy_lib (replicate 32 7)) @ ''; theme=dark''))
     SESSION_TOKEN_BUF_SIZE = Some (generate_session_token toy_lib (replicate 32 7))"
proof -
  have "length (replicate 32 (7 :: byte)) = SESSION_TOKEN_BYTES" by (simp add: SESSION_TOKEN_BYTES_def)
  moreover have "strstr ''lang=en; '' (SESSION_COOKIE_NAME @ ''='') = None" by code_simp
  moreover have "''lang=en; '' = [] \<or> (\<exists>w. ''lang=en; '' = w @ ''; '')" by (intro disjI2 exI [of _ "''lang=en''"]) simp
  moreover have "''; theme=dark'' = [] \<or> (\<exists>w. ''; theme=dark'' = CHR '';'' # w)" by simp
  moreover have "- 2147483648 \<le> (60 :: int) \<and> (60 :: int) < 2147483648" by simp
  ultimately obtain attributes where
    "build_session_cookie_header True (generate_session_token toy_lib (replicate 32 7)) 60 256 =
       ''Set-Cookie: '' @ (''session='' @ generate_session_token toy_lib (replicate 32 7)) @ attributes @ CRLF
     \<and> extract_session_token (Some (''lang=en; '' @ (''session='' @ generate_session_token toy_lib (replicate 32 7)) @ ''; theme=dark''))
         SESSION_TOKEN_BUF_SIZE = Some (generate_session_token toy_lib (replicate 32 7))"
    using session_cookie_roundtrip [OF toy_lib_ok, of "replicate 32 7" 60 "''lang=en; ''" "''; theme=dark''" True] by blast
  then show ?thesis by blast
qed

text \<open>
  A cookie of another name hides the session: the search takes the first place where the text
  of the name occurs, so a cookie whose name only ends in it, sent before, is read as the token.
\<close>

theorem cookie_name_shadowed:
  assumes "list_all isxdigit x" "0 < length x \<and> length x < SESSION_TOKEN_BUF_SIZE"
  shows "extract_session_token (Some (''my'' @ (SESSION_COOKIE_NAME @ ''='') @ x @ ''; session='' @ token)) SESSION_TOKEN_BUF_SIZE = Some x"
proof -
  have "CHR '';'' \<notin> set x" using xdigit_not_special [OF assms(1)] by blast
  then have "takeWhile (\<lambda>c. c \<noteq> CHR '';'') (x @ ''; session='' @ token) = x" using run_until(1) by fastforce
  then show ?thesis using assms(2) by (auto simp: extract_session_token_def SESSION_COOKIE_NAME_def SESSION_TOKEN_BUF_SIZE_def)
qed

theorem cookie_name_shadowed_witness:
  "extract_session_token (Some ''mysession=0a; session=ff'') SESSION_TOKEN_BUF_SIZE = Some ''0a''"
  using cookie_name_shadowed [of "''0a''" "''ff''"] by (simp add: SESSION_COOKIE_NAME_def isxdigit_def isdigit_def SESSION_TOKEN_BUF_SIZE_def)

end
