(* ===== verification/Request_Context.thy ===== *)
theory Request_Context
  imports Session
begin

text \<open>
  What a request carries to the code that renders its answer (src/src/utils/request_*.c and
  theme_catalog.c): language, path, theme, site key, charset, line numbers, WML paging and the
  signed-in user. Each is a per-thread variable of the code and a field of one record here. What
  the database, the configuration and the file system answer is an argument.
\<close>

subsection \<open>The values of a request\<close>

record ReqCtx =
  rx_lang :: string
  rx_path :: string
  rx_theme :: string
  rx_hostless :: bool
  rx_legacy :: bool
  rx_no_lines :: bool
  rx_target :: string
  rx_unpaged :: bool
  rx_user_name :: string
  rx_csrf :: string
  rx_read_only :: bool
  rx_is_admin :: bool

definition no_context :: ReqCtx where
  "no_context = \<lparr>rx_lang = [], rx_path = [], rx_theme = [], rx_hostless = False, rx_legacy = False, rx_no_lines = False,
     rx_target = ''/'', rx_unpaged = False, rx_user_name = [], rx_csrf = [], rx_read_only = False, rx_is_admin = False\<rparr>"

subsection \<open>Cookies\<close>

definition is_cookie_sep :: "char \<Rightarrow> bool" where
  "is_cookie_sep c \<longleftrightarrow> c = CHR '' '' \<or> c = CHR '';''"

function cookie_loop :: "string \<Rightarrow> string \<Rightarrow> string option" where
  "cookie_loop name p =
     (let q = dropWhile is_cookie_sep p in
      if q = [] then None
      else case strchr q CHR ''='' of
             None \<Rightarrow> None
           | Some eq \<Rightarrow>
               if take eq q = name then Some (takeWhile (\<lambda>c. c \<noteq> CHR '';'') (drop (Suc eq) q))
               else case strchr q CHR '';'' of
                      None \<Rightarrow> None
                    | Some next \<Rightarrow> cookie_loop name (drop (Suc next) q))"
  by pat_completeness auto
termination
proof (relation "measure (length \<circ> snd)")
  fix name p q :: string and eq nx
  assume "q = dropWhile is_cookie_sep p" "strchr q CHR '';'' = Some nx"
  then have "nx < length q" "length q \<le> length p" by (simp_all add: strchr_Some length_dropWhile_le)
  then show "((name, drop (Suc nx) q), name, p) \<in> measure (length \<circ> snd)" by simp
qed simp

declare cookie_loop.simps [simp del]

definition cookie_value :: "string option \<Rightarrow> string \<Rightarrow> nat \<Rightarrow> string option" where
  "cookie_value cookie_header name bytes =
     (case cookie_header of
        None \<Rightarrow> None
      | Some h \<Rightarrow> if bytes = 0 then None else map_option (fit bytes) (cookie_loop name h))"

subsection \<open>Language and path\<close>

definition LANG_CODE_BUF :: nat where "LANG_CODE_BUF = 16"

text \<open>\<open>langs\<close> is what the database lists; a language may lack its code.\<close>

definition request_lang_validate :: "string option list \<Rightarrow> string \<Rightarrow> nat \<Rightarrow> string option" where
  "request_lang_validate langs code bytes =
     (if code = [] \<or> bytes = 0 then None
      else if Some code \<in> set langs then Some (fit bytes code) else None)"

definition request_lang_set :: "string option list \<Rightarrow> string \<Rightarrow> string option \<Rightarrow> string \<Rightarrow> ReqCtx \<Rightarrow> ReqCtx" where
  "request_lang_set langs default_lang cookie_header lang_query x =
     (case request_lang_validate langs lang_query LANG_CODE_BUF of
        Some l \<Rightarrow> x\<lparr>rx_lang := l\<rparr>
      | None \<Rightarrow>
          (case Option.bind (cookie_value cookie_header ''lang'' LANG_CODE_BUF) (\<lambda>c. request_lang_validate langs c LANG_CODE_BUF) of
             Some l \<Rightarrow> x\<lparr>rx_lang := l\<rparr>
           | None \<Rightarrow> x\<lparr>rx_lang := fit LANG_CODE_BUF default_lang\<rparr>))"

definition request_lang :: "string \<Rightarrow> ReqCtx \<Rightarrow> string" where
  "request_lang default_lang x = (if rx_lang x = [] then fit LANG_CODE_BUF default_lang else rx_lang x)"

definition request_path_set :: "string \<Rightarrow> ReqCtx \<Rightarrow> ReqCtx" where
  "request_path_set path x =
     (if path = [] \<or> hd path \<noteq> CHR ''/'' then x\<lparr>rx_path := []\<rparr> else x\<lparr>rx_path := fit 512 path\<rparr>)"

definition request_path :: "ReqCtx \<Rightarrow> string" where
  "request_path x = (if rx_path x = [] then ''/'' else rx_path x)"

subsection \<open>Theme\<close>

definition key_char :: "char \<Rightarrow> bool" where
  "key_char c \<longleftrightarrow> isalnum c \<or> c = CHR ''-'' \<or> c = CHR ''_''"

definition theme_key_is_valid :: "(string \<Rightarrow> bool) \<Rightarrow> string \<Rightarrow> bool" where
  "theme_key_is_valid is_dir key \<longleftrightarrow>
     key \<noteq> [] \<and> list_all key_char key \<and> length (''./html/themes/'' @ key) < 256 \<and> is_dir (''./html/themes/'' @ key)"

definition request_theme_set :: "(string \<Rightarrow> bool) \<Rightarrow> string \<Rightarrow> string option \<Rightarrow> string \<Rightarrow> ReqCtx \<Rightarrow> ReqCtx" where
  "request_theme_set is_dir active_theme cookie_header theme_query x =
     (if theme_query \<noteq> [] \<and> theme_key_is_valid is_dir theme_query then x\<lparr>rx_theme := fit 64 theme_query\<rparr>
      else case cookie_value cookie_header ''theme'' 64 of
             Some c \<Rightarrow> if theme_key_is_valid is_dir c then x\<lparr>rx_theme := fit 64 c\<rparr> else x\<lparr>rx_theme := fit 64 active_theme\<rparr>
           | None \<Rightarrow> x\<lparr>rx_theme := fit 64 active_theme\<rparr>)"

definition request_theme :: "string \<Rightarrow> ReqCtx \<Rightarrow> string" where
  "request_theme configured x = (if rx_theme x = [] then configured else rx_theme x)"

text \<open>\<open>entries\<close> is what the directory of themes lists, if it can be opened.\<close>

definition list_theme_keys :: "string list option \<Rightarrow> (string \<Rightarrow> bool) \<Rightarrow> string list" where
  "list_theme_keys entries is_dir =
     (case entries of
        None \<Rightarrow> []
      | Some es \<Rightarrow> filter (\<lambda>e. \<not> prefix ''.'' e \<and> is_dir (fit 300 (''./html/themes/'' @ e))) es)"

subsection \<open>Site key\<close>

definition request_site_set :: "string option \<Rightarrow> ReqCtx \<Rightarrow> ReqCtx" where
  "request_site_set host_header x =
     x\<lparr>rx_hostless := (case host_header of None \<Rightarrow> True | Some h \<Rightarrow> h = [])\<rparr>"

definition site_char :: "char \<Rightarrow> bool" where
  "site_char c \<longleftrightarrow> islower c \<or> isdigit c \<or> c = CHR ''_'' \<or> c = CHR ''-''"

text \<open>The loop of the check: the byte and its position, \<open>len\<close>.\<close>

fun site_key_loop :: "string \<Rightarrow> nat \<Rightarrow> bool" where
  "site_key_loop [] len \<longleftrightarrow> True"
| "site_key_loop (c # p) len \<longleftrightarrow> (if \<not> site_char c \<or> len \<ge> 32 then False else site_key_loop p (Suc len))"

definition request_site_key_is_valid :: "string \<Rightarrow> bool" where
  "request_site_key_is_valid key \<longleftrightarrow> key \<noteq> [] \<and> site_key_loop key 0"

definition request_site :: "string \<Rightarrow> ReqCtx \<Rightarrow> string option" where
  "request_site site_key x = (if \<not> rx_hostless x \<or> \<not> request_site_key_is_valid site_key then None else Some site_key)"

definition site_relative :: "string \<Rightarrow> bool" where
  "site_relative u \<longleftrightarrow> u \<noteq> [] \<and> hd u = CHR ''/'' \<and> (length u = 1 \<or> u ! 1 \<noteq> CHR ''/'')"

definition request_site_tag_location :: "string option \<Rightarrow> string \<Rightarrow> string" where
  "request_site_tag_location site location =
     (case site of
        None \<Rightarrow> location
      | Some key \<Rightarrow>
          if \<not> site_relative location \<or> contains location ''site='' then location
          else let base = takeWhile (\<lambda>c. c \<noteq> CHR ''#'') location;
                   rest = dropWhile (\<lambda>c. c \<noteq> CHR ''#'') location
               in base @ (if CHR ''?'' \<in> set base then ''&'' else ''?'') @ ''site='' @ key @ rest)"

subsection \<open>Charset, line numbers and WML\<close>

definition request_charset_set :: "string option \<Rightarrow> bool \<Rightarrow> ReqCtx \<Rightarrow> ReqCtx" where
  "request_charset_set user_agent http09 x =
     x\<lparr>rx_legacy := http09 \<or> (case user_agent of None \<Rightarrow> False | Some u \<Rightarrow> contains u ''Cello'' \<or> contains u ''LineMode'')\<rparr>"

definition request_code_lines_set :: "string option \<Rightarrow> ReqCtx \<Rightarrow> ReqCtx" where
  "request_code_lines_set query_value x = x\<lparr>rx_no_lines := (query_value = Some ''off'')\<rparr>"

definition request_wml_set :: "string option \<Rightarrow> string option \<Rightarrow> ReqCtx \<Rightarrow> ReqCtx" where
  "request_wml_set raw_target wml_pages x =
     x\<lparr>rx_target := fit 1024 (case raw_target of None \<Rightarrow> ''/'' | Some u \<Rightarrow> if u = [] then ''/'' else u),
       rx_unpaged := (wml_pages = Some ''all'')\<rparr>"

subsection \<open>The user\<close>

text \<open>What the collection of users answers about an id: display name, user name and role.\<close>

record Users =
  us_name :: "string \<Rightarrow> string option"
  us_username :: "string \<Rightarrow> nat \<Rightarrow> string"
  us_role :: "string \<Rightarrow> string option"

definition request_user_set :: "Lib \<Rightarrow> Users \<Rightarrow> Db \<Rightarrow> int \<Rightarrow> Sessions \<Rightarrow> string option \<Rightarrow> ReqCtx \<Rightarrow> ReqCtx" where
  "request_user_set L us db now s cookie_header x =
     (let x0 = x\<lparr>rx_user_name := [], rx_csrf := [], rx_read_only := False, rx_is_admin := False\<rparr> in
      case validate_session_cookie db now cookie_header s of
        (r, None) \<Rightarrow> x0
      | (r, Some user) \<Rightarrow>
          if r \<noteq> 1 then x0
          else let x1 = (case extract_session_token cookie_header SESSION_TOKEN_BUF_SIZE of
                           None \<Rightarrow> x0
                         | Some t \<Rightarrow> (case derive_csrf_token L (Some t) of None \<Rightarrow> x0 | Some c \<Rightarrow> x0\<lparr>rx_csrf := c\<rparr>));
                   x2 = (case us_name us user of
                           Some n \<Rightarrow> if n = [] then x1\<lparr>rx_user_name := us_username us user 128\<rparr> else x1\<lparr>rx_user_name := fit 128 n\<rparr>
                         | None \<Rightarrow> x1\<lparr>rx_user_name := us_username us user 128\<rparr>)
               in case us_role us user of
                    None \<Rightarrow> x2
                  | Some role \<Rightarrow> x2\<lparr>rx_read_only := (role = ''viewer''), rx_is_admin := (role = ''admin'')\<rparr>)"


subsection \<open>Reading cookies\<close>

fun cookies_text :: "(string \<times> string) list \<Rightarrow> string" where
  "cookies_text [] = []"
| "cookies_text [(n, v)] = n @ ''='' @ v"
| "cookies_text ((n, v) # cs) = n @ ''='' @ v @ ''; '' @ cookies_text cs"

definition cookie_ok :: "string \<times> string \<Rightarrow> bool" where
  "cookie_ok c \<longleftrightarrow> (fst c = [] \<or> \<not> is_cookie_sep (hd (fst c))) \<and> CHR ''='' \<notin> set (fst c) \<and> CHR '';'' \<notin> set (fst c) \<union> set (snd c)"

lemma cookie_start:
  assumes "cookie_ok (n, v)"
  shows "dropWhile is_cookie_sep (n @ ''='' @ v @ r) = n @ ''='' @ v @ r"
    "strchr (n @ ''='' @ v @ r) CHR ''='' = Some (length n)"
  using assms strchr_here [of "CHR ''=''" n "v @ r"] by (cases n; simp add: cookie_ok_def is_cookie_sep_def)+

lemma cookie_hit:
  assumes "cookie_ok (n, v)" "r = [] \<or> (\<exists>w. r = CHR '';'' # w)"
  shows "cookie_loop n (n @ ''='' @ v @ r) = Some v"
proof -
  have "takeWhile (\<lambda>c. c \<noteq> CHR '';'') (v @ r) = v"
    using assms run_until(1) [of "CHR '';''" v] by (auto simp: cookie_ok_def takeWhile_eq_all_conv)
  then show ?thesis using cookie_start [OF assms(1), of r] by (subst cookie_loop.simps) (simp add: Let_def)
qed

lemma cookie_miss:
  assumes "cookie_ok (n, v)" "n \<noteq> name"
  shows "cookie_loop name (n @ ''='' @ v) = None" "cookie_loop name (n @ ''='' @ v @ CHR '';'' # r) = cookie_loop name r"
proof -
  have semi: "CHR '';'' \<notin> set (n @ ''='' @ v)" using assms(1) by (simp add: cookie_ok_def)
  then have "strchr (n @ ''='' @ v) CHR '';'' = None" by (simp only: strchr_None not_False_eq_True)
  then show "cookie_loop name (n @ ''='' @ v) = None"
    using cookie_start [OF assms(1), of "[]"] assms(2) by (subst cookie_loop.simps) (simp add: Let_def)
  have "strchr ((n @ ''='' @ v) @ CHR '';'' # r) CHR '';'' = Some (length (n @ ''='' @ v))" using semi by (rule strchr_here)
  moreover have "drop (Suc (length (n @ ''='' @ v))) (n @ ''='' @ v @ CHR '';'' # r) = r" by simp
  ultimately show "cookie_loop name (n @ ''='' @ v @ CHR '';'' # r) = cookie_loop name r"
    using cookie_start [OF assms(1), of "CHR '';'' # r"] assms(2) by (subst cookie_loop.simps) (simp add: Let_def)
qed

lemma cookie_loop_space: "cookie_loop name (CHR '' '' # p) = cookie_loop name p"
  by (simp add: cookie_loop.simps [of name "CHR '' '' # p"] cookie_loop.simps [of name p] is_cookie_sep_def)

lemma cookie_loop_text: "list_all cookie_ok cs \<Longrightarrow> cookie_loop name (cookies_text cs) = map_of cs name"
proof (induction cs rule: cookies_text.induct)
  case 1
  show ?case by (simp add: cookie_loop.simps)
next
  case (2 n v)
  then have "cookie_ok (n, v)" by simp
  then show ?case using cookie_hit [of n v "[]"] cookie_miss(1) [of n v name] by simp
next
  case (3 n v c cs)
  then have ok: "cookie_ok (n, v)" and IH: "cookie_loop name (cookies_text (c # cs)) = map_of (c # cs) name" by simp_all
  let ?r = "CHR '' '' # cookies_text (c # cs)"
  have "cookies_text ((n, v) # c # cs) = n @ ''='' @ v @ CHR '';'' # ?r" by simp
  then show ?case
    using cookie_hit [OF ok, of "CHR '';'' # ?r"] cookie_miss(2) [OF ok, of name ?r] cookie_loop_space [of name "cookies_text (c # cs)"] IH
    by (cases "n = name") (auto simp del: cookies_text.simps)
qed

lemma lang_validate_Some: "request_lang_validate langs c n = Some l \<Longrightarrow> \<exists>k. Some k \<in> set langs \<and> l = fit n k"
  by (auto simp: request_lang_validate_def split: if_splits)

lemma request_lang_choice:
  "rx_lang (request_lang_set langs default_lang cookie q x) = fit LANG_CODE_BUF default_lang
   \<or> (\<exists>l. Some l \<in> set langs \<and> rx_lang (request_lang_set langs default_lang cookie q x) = fit LANG_CODE_BUF l)"
  by (auto simp: request_lang_set_def Option.bind_eq_Some_conv dest!: lang_validate_Some split: option.splits)

lemma theme_key_plain: "theme_key_is_valid is_dir key \<Longrightarrow> list_all key_char key"
  by (simp add: theme_key_is_valid_def)

lemma request_theme_choice:
  "rx_theme (request_theme_set is_dir active cookie q x) = fit 64 active
   \<or> list_all key_char (rx_theme (request_theme_set is_dir active cookie q x))"
  using theme_key_plain by (auto simp: request_theme_set_def list_all_fit split: option.splits)

lemma site_key_loop_iff: "site_key_loop key n \<longleftrightarrow> list_all site_char key \<and> (key = [] \<or> n + length key \<le> 32)"
  by (induction key arbitrary: n) auto

subsection \<open>Properties\<close>

text \<open>
  A browser's cookies read back: of a header made of pairs, a value is found under its whole
  name and cut to the array it is copied into; the first pair of a name counts.
\<close>

theorem cookie_value_lookup:
  assumes "list_all cookie_ok cs" "0 < bytes"
  shows "cookie_value (Some (cookies_text cs)) name bytes = map_option (fit bytes) (map_of cs name)"
  using cookie_loop_text [OF assms(1)] assms(2) by (simp add: cookie_value_def)

theorem cookie_value_lookup_witness:
  "cookie_value (Some ''xlang=fr; lang=es; theme=dark'') ''lang'' 16 = Some ''es''"
  using cookie_value_lookup [of "[(''xlang'', ''fr''), (''lang'', ''es''), (''theme'', ''dark'')]" 16 "''lang''"]
  by (simp add: cookie_ok_def is_cookie_sep_def fit_def)

text \<open>
  What a visitor can choose: whatever the query and the cookies say, the language of a request
  is a configured one or the default, its theme is the active one or a plain directory name, a
  site key put on links is lower-case letters, digits, dashes and underscores, and every value fits its array.
\<close>

theorem request_choices:
  "(rx_lang (request_lang_set langs default_lang cookie q x) = fit LANG_CODE_BUF default_lang
     \<or> (\<exists>l. Some l \<in> set langs \<and> rx_lang (request_lang_set langs default_lang cookie q x) = fit LANG_CODE_BUF l))
   \<and> (rx_theme (request_theme_set is_dir active cookie q x) = fit 64 active
     \<or> list_all key_char (rx_theme (request_theme_set is_dir active cookie q x)))
   \<and> (request_site site_key x = None \<or> request_site site_key x = Some site_key \<and> list_all site_char site_key \<and> length site_key \<le> 32)
   \<and> length (rx_lang (request_lang_set langs default_lang cookie q x)) < LANG_CODE_BUF
   \<and> length (rx_theme (request_theme_set is_dir active cookie q x)) < 64
   \<and> length (rx_path (request_path_set q x)) < 512"
proof -
  have "length (rx_lang (request_lang_set langs default_lang cookie q x)) < LANG_CODE_BUF"
    using request_lang_choice [of langs default_lang cookie q x] fit_length [of LANG_CODE_BUF] by (auto simp: LANG_CODE_BUF_def)
  moreover have "length (rx_theme (request_theme_set is_dir active cookie q x)) < 64"
    by (auto simp: request_theme_set_def split: option.splits)
  moreover have "length (rx_path (request_path_set q x)) < 512"
    by (auto simp: request_path_set_def)
  ultimately show ?thesis
    using request_lang_choice [of langs default_lang cookie q x] request_theme_choice [of is_dir active cookie q x]
    by (auto simp: request_site_def request_site_key_is_valid_def site_key_loop_iff)
qed

end
