(* ===== verification/Router_Forms.thy ===== *)
theory Router_Forms
  imports Request_Context Http_Request Comment_Text Detect_Epoch
begin

text \<open>
  What the router reads from a request (src/src/web_server/http_router.c): headers, query
  parameters, the fields of a form, the routes that carry an id, and the names and contents of
  uploaded theme assets and favicons. A form field is looked up under the literal names of the
  code, which hold no ampersand. What the file system answers is an argument.
\<close>

subsection \<open>Headers and parameters\<close>

definition get_header_value :: "HttpRequest \<Rightarrow> string \<Rightarrow> string option" where
  "get_header_value req key = map_option hval (find (\<lambda>h. eq_ci (hkey h) key) (req_headers req))"

definition absolute_location :: "bool \<Rightarrow> HttpRequest \<Rightarrow> string \<Rightarrow> string option" where
  "absolute_location is_ssl req path =
     (case get_header_value req ''Host'' of
        None \<Rightarrow> None
      | Some host \<Rightarrow> if host = [] then None else Some ((if is_ssl then ''https'' else ''http'') @ ''://'' @ host @ path))"

definition get_query_param :: "QueryParam list \<Rightarrow> string \<Rightarrow> string" where
  "get_query_param params key = (case find (\<lambda>p. fst p = key) params of None \<Rightarrow> [] | Some p \<Rightarrow> snd p)"

subsection \<open>Form fields\<close>

definition field_value :: "string \<Rightarrow> string" where
  "field_value raw = cstr (url_decode (cstr raw))"

text \<open>The loop over the fields from \<open>p\<close>: the bytes of the first value under the key.\<close>

function field_loop :: "string \<Rightarrow> string \<Rightarrow> string option" where
  "field_loop key p =
     (if p = [] then None
      else case strchr p CHR ''='' of
             None \<Rightarrow> None
           | Some eq \<Rightarrow>
               if eq = length key \<and> take eq p = key
               then Some (drop (Suc eq) (takeWhile (\<lambda>c. c \<noteq> CHR ''&'') p))
               else case strchr p CHR ''&'' of None \<Rightarrow> None | Some amp \<Rightarrow> field_loop key (drop (Suc amp) p))"
  by pat_completeness auto
termination
  by (relation "measure (length \<circ> snd)") (auto simp: strchr_Some)

declare field_loop.simps [simp del]

definition parse_urlencoded_field :: "string option \<Rightarrow> string \<Rightarrow> nat \<Rightarrow> bool \<times> string" where
  "parse_urlencoded_field body key out_size =
     (if out_size = 0 then (False, [])
      else case body of
             None \<Rightarrow> (False, [])
           | Some b \<Rightarrow>
               (case field_loop key b of
                  None \<Rightarrow> (False, [])
                | Some raw \<Rightarrow> (True, fit out_size (field_value raw))))"

function multi_loop :: "string \<Rightarrow> string \<Rightarrow> nat \<Rightarrow> string list" where
  "multi_loop key p left =
     (if p = [] \<or> left = 0 then []
      else case strchr p CHR ''='' of
             None \<Rightarrow> []
           | Some eq \<Rightarrow>
               (let hit = (eq = length key \<and> take eq p = key);
                    here = (if hit then [field_value (drop (Suc eq) (takeWhile (\<lambda>c. c \<noteq> CHR ''&'') p))] else []);
                    left' = (if hit then left - 1 else left)
                in case strchr p CHR ''&'' of None \<Rightarrow> here | Some amp \<Rightarrow> here @ multi_loop key (drop (Suc amp) p) left'))"
  by pat_completeness auto
termination
  by (relation "measure (\<lambda>(key, p, left). length p)") (auto simp: strchr_Some)

declare multi_loop.simps [simp del]

definition parse_urlencoded_multi :: "string option \<Rightarrow> string \<Rightarrow> nat \<Rightarrow> string list" where
  "parse_urlencoded_multi body key max_count = (case body of None \<Rightarrow> [] | Some b \<Rightarrow> multi_loop key b max_count)"

text \<open>Colors are stored as \<open>#rrggbb\<close>, with an opacity byte when not opaque (src/src/db/cms_themes.c).\<close>

definition rgb_ok :: "string \<Rightarrow> bool" where
  "rgb_ok s \<longleftrightarrow> length s \<ge> 7 \<and> s ! 0 = CHR ''#'' \<and> list_all isxdigit (take 6 (drop 1 s))"

definition cms_split_hex_alpha :: "string \<Rightarrow> string \<times> nat" where
  "cms_split_hex_alpha stored =
     (if \<not> rgb_ok stored then (''#000000'', 100)
      else if length stored = 9 \<and> isxdigit (stored ! 7) \<and> isxdigit (stored ! 8)
      then (take 7 stored, ((16 * hex_digit_value (stored ! 7) + hex_digit_value (stored ! 8)) * 100 + 127) div 255)
      else (take 7 stored, 100))"

definition cms_join_hex_alpha :: "string \<Rightarrow> int \<Rightarrow> nat \<Rightarrow> string" where
  "cms_join_hex_alpha rgb_hex alpha_pct out_size =
     (let pct = nat (max 0 (min 100 alpha_pct));
          rgb = (if length rgb_hex = 7 \<and> rgb_ok rgb_hex then rgb_hex else ''#000000'');
          b = (pct * 255 + 50) div 100
      in if pct \<ge> 100 then fit out_size rgb
         else fit out_size (rgb @ [hex_lower (b div 16), hex_lower (b mod 16)]))"

text \<open>The lookups empty the arrays first, so the values put there before are not seen.\<close>

definition parse_bg_color_field :: "string option \<Rightarrow> string \<Rightarrow> string \<Rightarrow> nat \<Rightarrow> string" where
  "parse_bg_color_field body color_key alpha_key out_size =
     cms_join_hex_alpha (snd (parse_urlencoded_field body color_key 8)) (atoi (snd (parse_urlencoded_field body alpha_key 8))) out_size"

definition lang_names :: "string option \<Rightarrow> string list \<Rightarrow> string list" where
  "lang_names body langs =
     map (\<lambda>code. snd (parse_urlencoded_field body (fit 40 (''name_'' @ code)) 256)) langs"

definition parse_category_form :: "string option \<Rightarrow> string list \<Rightarrow> string list" where
  "parse_category_form body langs = lang_names body langs"

record MenuForm =
  mf_link :: string
  mf_order :: int
  mf_enabled :: bool
  mf_names :: "string list"

definition parse_menu_form :: "string option \<Rightarrow> nat \<Rightarrow> string list \<Rightarrow> MenuForm" where
  "parse_menu_form body link_size langs =
     \<lparr>mf_link = snd (parse_urlencoded_field body ''link'' link_size),
      mf_order = atoi (snd (parse_urlencoded_field body ''order'' 16)),
      mf_enabled = fst (parse_urlencoded_field body ''enabled'' 8),
      mf_names = lang_names body langs\<rparr>"

record UserForm =
  uf_email :: string
  uf_password :: string
  uf_role :: string

definition parse_user_form :: "string option \<Rightarrow> nat \<Rightarrow> nat \<Rightarrow> nat \<Rightarrow> UserForm" where
  "parse_user_form body email_size password_size role_size =
     \<lparr>uf_email = snd (parse_urlencoded_field body ''email'' email_size),
      uf_password = snd (parse_urlencoded_field body ''password'' password_size),
      uf_role = (case parse_urlencoded_field body ''role'' role_size of (found, role) \<Rightarrow> if found then role else fit role_size ''author'')\<rparr>"

subsection \<open>Routes with an id\<close>

definition match_id_route :: "string \<Rightarrow> string \<Rightarrow> string \<Rightarrow> nat \<Rightarrow> string option" where
  "match_id_route decoded_url pre tail id_size =
     (if \<not> prefix (pre @ ''/'') decoded_url then None
      else
        let seg_start = drop (length pre + 1) decoded_url;
            seg = takeWhile (\<lambda>c. c \<noteq> CHR ''/'') seg_start;
            slash = dropWhile (\<lambda>c. c \<noteq> CHR ''/'') seg_start
        in if (if tail = [] then slash \<noteq> [] else slash = [] \<or> slash \<noteq> tail) then None
           else if seg = [] \<or> length seg \<ge> id_size then None
           else Some seg)"

datatype ThemeCssSheet = THEME_CSS_PUBLIC | THEME_CSS_ADMIN

fun cms_theme_css_file :: "ThemeCssSheet \<Rightarrow> string" where
  "cms_theme_css_file THEME_CSS_PUBLIC = ''styles_epoch3.css''"
| "cms_theme_css_file THEME_CSS_ADMIN = ''styles_admin_epoch3.css''"

fun match_sheets :: "string \<Rightarrow> nat \<Rightarrow> ThemeCssSheet list \<Rightarrow> (string \<times> ThemeCssSheet) option" where
  "match_sheets url key_size [] = None"
| "match_sheets url key_size (sheet # sheets) =
     (let tail = fit 64 (''/'' @ cms_theme_css_file sheet) in
      if length url \<le> 8 + length tail then match_sheets url key_size sheets
      else if drop (length url - length tail) url \<noteq> tail then match_sheets url key_size sheets
      else let key_len = length url - 8 - length tail in
           if key_len = 0 \<or> key_len \<ge> key_size then None
           else Some (take key_len (drop 8 url), sheet))"

definition match_theme_css_url :: "string \<Rightarrow> nat \<Rightarrow> (string \<times> ThemeCssSheet) option" where
  "match_theme_css_url decoded_url key_size =
     (if \<not> prefix ''/themes/'' decoded_url then None
      else match_sheets decoded_url key_size [THEME_CSS_PUBLIC, THEME_CSS_ADMIN])"

definition match_theme_css_editor :: "string \<Rightarrow> string \<Rightarrow> nat \<Rightarrow> (string \<times> ThemeCssSheet) option" where
  "match_theme_css_editor decoded_url tail key_size =
     (case match_id_route decoded_url ''/dashboard/settings/themes'' (fit 32 (''/css'' @ tail)) key_size of
        Some key \<Rightarrow> Some (key, THEME_CSS_PUBLIC)
      | None \<Rightarrow>
          map_option (\<lambda>key. (key, THEME_CSS_ADMIN))
            (match_id_route decoded_url ''/dashboard/settings/themes'' (fit 32 (''/admin-css'' @ tail)) key_size))"

definition theme_css_editor_url :: "nat \<Rightarrow> string \<Rightarrow> ThemeCssSheet \<Rightarrow> string" where
  "theme_css_editor_url out_size key sheet =
     fit out_size (''/dashboard/settings/themes/'' @ key @ ''/'' @ (if sheet = THEME_CSS_ADMIN then ''admin-css'' else ''css''))"

definition match_block_delete_route :: "string \<Rightarrow> nat \<Rightarrow> nat \<Rightarrow> (string \<times> string) option" where
  "match_block_delete_route decoded_url entry_id_size block_id_size =
     (if \<not> prefix ''/dashboard/api/entries/'' decoded_url then None
      else
        let entry_start = drop 23 decoded_url in
        case strstr entry_start ''/blocks/'' of
          None \<Rightarrow> None
        | Some entry_len \<Rightarrow>
            (let block_start = drop (entry_len + 8) entry_start; block_len = length block_start - 7 in
             if length block_start \<le> 7 \<or> drop block_len block_start \<noteq> ''/delete'' then None
             else if entry_len = 0 \<or> entry_len \<ge> entry_id_size then None
             else if block_len = 0 \<or> block_len \<ge> block_id_size then None
             else Some (take entry_len entry_start, take block_len block_start)))"

definition match_theme_epoch_route :: "string \<Rightarrow> string \<Rightarrow> nat \<Rightarrow> nat \<Rightarrow> (string \<times> string) option" where
  "match_theme_epoch_route decoded_url segment key_size epoch_size =
     (if \<not> prefix ''/dashboard/settings/themes/'' decoded_url then None
      else
        let key_start = drop 27 decoded_url in
        case strchr key_start CHR ''/'' of
          None \<Rightarrow> None
        | Some key_len \<Rightarrow>
            if key_len = 0 \<or> key_len \<ge> key_size then None
            else
              let segment_start = drop (Suc key_len) key_start in
              if \<not> prefix (segment @ ''/'') segment_start then None
              else
                let epoch_start = drop (length segment + 1) segment_start in
                if epoch_start = [] \<or> length epoch_start \<ge> epoch_size \<or> CHR ''/'' \<in> set epoch_start then None
                else Some (take key_len key_start, epoch_start))"

subsection \<open>Theme assets\<close>

definition theme_assets_dir :: "(string \<Rightarrow> bool) \<Rightarrow> string \<Rightarrow> string option \<Rightarrow> string option \<Rightarrow> nat \<Rightarrow> string option" where
  "theme_assets_dir is_dir key part epoch_str dir_size =
     (if \<not> theme_key_is_valid is_dir key then None
      else case (part, epoch_str) of
             (Some c, Some e) \<Rightarrow>
               if c \<notin> set [''banner'', ''footer'', ''logo'', ''home-blog''] then None
               else if e \<notin> set [''-1'', ''0'', ''1'', ''2'', ''3''] then None
               else let d = ''./html/content/themes/'' @ key @ ''/'' @ c @ ''/epoch'' @ e
                    in if length d < dir_size then Some d else None
           | _ \<Rightarrow> None)"

text \<open>The directories made, in order: every prefix that ends before a slash, then the whole.\<close>

definition mkdir_recursive :: "string \<Rightarrow> string list" where
  "mkdir_recursive dir =
     (let tmp = fit 512 dir
      in map (\<lambda>i. take i tmp) (filter (\<lambda>i. tmp ! i = CHR ''/'') [1..<length tmp]) @ [tmp])"

definition asset_char :: "char \<Rightarrow> bool" where
  "asset_char c \<longleftrightarrow> isalnum c \<or> c = CHR ''-'' \<or> c = CHR ''.'' \<or> c = CHR ''_''"

fun asset_loop :: "nat \<Rightarrow> string \<Rightarrow> string" where
  "asset_loop room [] = []"
| "asset_loop room (c # s) =
     (if room = 0 then []
      else if c = CHR '' '' then CHR ''-'' # asset_loop (room - 1) s
      else if asset_char c then c # asset_loop (room - 1) s
      else asset_loop room s)"

definition sanitize_asset_filename :: "string \<Rightarrow> nat \<Rightarrow> string option" where
  "sanitize_asset_filename name out_size =
     (let out = asset_loop (out_size - 1) name
      in if out \<noteq> [] \<and> hd out \<noteq> CHR ''.'' \<and> \<not> contains out ''..'' then Some out else None)"

definition has_extension_ci :: "string \<Rightarrow> string \<Rightarrow> bool" where
  "has_extension_ci filename ext \<longleftrightarrow>
     length filename > length ext \<and> eq_ci (drop (length filename - length ext) filename) ext"

definition theme_asset_image_extension_ok :: "string \<Rightarrow> bool" where
  "theme_asset_image_extension_ok filename \<longleftrightarrow>
     has_extension_ci filename ''.png'' \<or> has_extension_ci filename ''.jpg'' \<or>
     has_extension_ci filename ''.jpeg'' \<or> has_extension_ci filename ''.gif''"

definition epoch_neg1_upload_extension_ok :: "string \<Rightarrow> bool" where
  "epoch_neg1_upload_extension_ok filename \<longleftrightarrow> has_extension_ci filename ''.png''"

definition wap_twin_name :: "string \<Rightarrow> string \<Rightarrow> nat \<Rightarrow> string option" where
  "wap_twin_name name ext out_size =
     (case strrchr name CHR ''.'' of
        None \<Rightarrow> None
      | Some dot \<Rightarrow>
          if dot = 0 then None
          else let out = take dot name @ ext in if length out < out_size then Some out else None)"

subsection \<open>Favicons\<close>

definition FAVICON_MAX_BYTES :: nat where "FAVICON_MAX_BYTES = 256 * 1024"

definition ico_le16 :: "byte list \<Rightarrow> nat \<Rightarrow> nat" where
  "ico_le16 d i = unat (d ! i) + 256 * unat (d ! (i + 1))"

definition ico_le32 :: "byte list \<Rightarrow> nat \<Rightarrow> nat" where
  "ico_le32 d i = ico_le16 d i + 65536 * ico_le16 d (i + 2)"

text \<open>The loop over the directory: \<open>None\<close> if an image lies outside the file, else whether one is 16x16.\<close>

fun ico_entries :: "byte list \<Rightarrow> nat \<Rightarrow> nat \<Rightarrow> bool \<Rightarrow> bool option" where
  "ico_entries d at 0 has_16 = Some has_16"
| "ico_entries d at (Suc k) has_16 =
     (let len = length d; sz = ico_le32 d (at + 8); off = ico_le32 d (at + 12) in
      if sz = 0 \<or> off > len \<or> sz > len - off then None
      else ico_entries d (at + 16) k (has_16 \<or> d ! at = 16 \<and> d ! (at + 1) = 16))"

definition favicon_ico_problem :: "byte list \<Rightarrow> int \<Rightarrow> string option" where
  "favicon_ico_problem d epoch =
     (if d = [] then Some ''favicon-type''
      else if length d > FAVICON_MAX_BYTES then Some ''favicon-size''
      else if length d < 6 \<or> d ! 0 \<noteq> 0 \<or> d ! 1 \<noteq> 0 \<or> d ! 2 \<noteq> 1 \<or> d ! 3 \<noteq> 0 then Some ''favicon-type''
      else
        let count = ico_le16 d 4 in
        if count = 0 \<or> 6 + 16 * count > length d then Some ''favicon-type''
        else case ico_entries d 6 count False of
               None \<Rightarrow> Some ''favicon-type''
             | Some has_16 \<Rightarrow> if epoch = EPOCH_MIDDLE \<and> \<not> has_16 then Some ''favicon-16'' else None)"


subsection \<open>Both form readers find the same field\<close>

definition names_field :: "string \<Rightarrow> string \<Rightarrow> bool" where
  "names_field key w \<longleftrightarrow> length key < length w \<and> take (length key) w = key \<and> w ! length key = CHR ''=''"

lemma names_field_iff: "names_field key w \<longleftrightarrow> prefix (key @ ''='') w"
proof
  assume w: "names_field key w"
  then have "w = take (length key) w @ w ! length key # drop (Suc (length key)) w" unfolding names_field_def by (intro id_take_nth_drop) simp
  then have "w = (key @ ''='') @ drop (Suc (length key)) w" using w by (simp add: names_field_def)
  then show "prefix (key @ ''='') w" unfolding prefix_def by blast
qed (auto simp: names_field_def prefix_def)

lemma field_hit:
  assumes "CHR ''&'' \<notin> set key" "CHR ''='' \<notin> set key" "w = takeWhile (\<lambda>c. c \<noteq> CHR ''&'') p" "strchr p CHR ''='' = Some eq"
  shows "eq = length key \<and> take eq p = key \<longleftrightarrow> names_field key w"
proof
  assume k: "eq = length key \<and> take eq p = key"
  then have e: "eq < length p" "p ! eq = CHR ''=''" using assms(4) by (simp_all add: strchr_Some)
  then have "p = key @ CHR ''='' # drop (Suc eq) p" using k e(2) id_take_nth_drop [OF e(1)] by metis
  then obtain t where t: "p = key @ CHR ''='' # t" by blast
  have "\<And>x. x \<in> set key \<Longrightarrow> x \<noteq> CHR ''&''" using assms(1) by blast
  then have "w = key @ CHR ''='' # takeWhile (\<lambda>c. c \<noteq> CHR ''&'') t" unfolding assms(3) t by (simp add: takeWhile_append2)
  then show "names_field key w" by (simp add: names_field_def)
next
  assume "names_field key w"
  then obtain r where "w = key @ CHR ''='' # r" by (auto simp: names_field_iff prefix_def)
  then obtain t where "p = key @ CHR ''='' # t" using assms(3) takeWhile_dropWhile_id [of "\<lambda>c. c \<noteq> CHR ''&''" p] by (metis append_Cons append_assoc)
  then show "eq = length key \<and> take eq p = key" using assms(2,4) strchr_here [of "CHR ''=''" key t] by simp
qed


lemma split_on_first: "split_on c p = takeWhile (\<lambda>x. x \<noteq> c) p #
    (case strchr p c of None \<Rightarrow> [] | Some i \<Rightarrow> split_on c (drop (Suc i) p))"
  by (induction p) (auto split: option.splits)

lemma set_join_with: "w \<in> set ws \<Longrightarrow> set w \<subseteq> set (join_with c ws)"
  by (induction c ws rule: join_with.induct) auto

lemma field_loop_find:
  assumes "CHR ''&'' \<notin> set key" "CHR ''='' \<notin> set key"
  shows "field_loop key p = map_option (drop (Suc (length key))) (find (names_field key) (split_on (CHR ''&'') p))"
  using assms
proof (induction key p rule: field_loop.induct)
  case (1 key p)
  let ?w = "takeWhile (\<lambda>c. c \<noteq> CHR ''&'') p"
  have none: "find (names_field key) (split_on (CHR ''&'') p) = None" if "CHR ''='' \<notin> set p"
  proof -
    have "\<not> names_field key w" if "w \<in> set (split_on (CHR ''&'') p)" for w
    proof
      assume "names_field key w"
      then have "CHR ''='' \<in> set w" by (auto simp: names_field_iff prefix_def)
      then have "CHR ''='' \<in> set (join_with (CHR ''&'') (split_on (CHR ''&'') p))"
        using that set_join_with by fastforce
      then show False using \<open>CHR ''='' \<notin> set p\<close> by simp
    qed
    then show ?thesis by (simp add: find_None_iff)
  qed
  show ?case
  proof (cases "p = [] \<or> strchr p CHR ''='' = None")
    case True
    then have "CHR ''='' \<notin> set p" by (auto simp: strchr_None)
    then show ?thesis using none True by (subst field_loop.simps) auto
  next
    case False
    then obtain eq where eq: "strchr p CHR ''='' = Some eq" by blast
    note hit = field_hit [OF "1.prems" refl eq]
    show ?thesis
    proof (cases "names_field key ?w")
      case True
      then have "eq = length key" "take (length key) p = key" using hit by blast+
      then show ?thesis using True eq False split_on_first [of "CHR ''&''" p] by (subst field_loop.simps) simp
    next
      case miss: False
      then have nothit: "\<not> (eq = length key \<and> take eq p = key)" using hit by blast
      show ?thesis
      proof (cases "strchr p CHR ''&''")
        case None
        then show ?thesis using nothit miss eq False split_on_first [of "CHR ''&''" p] by (subst field_loop.simps) auto
      next
        case (Some amp)
        have "field_loop key (drop (Suc amp) p) = map_option (drop (Suc (length key))) (find (names_field key) (split_on (CHR ''&'') (drop (Suc amp) p)))"
          using "1.IH" [OF _ eq nothit Some] False "1.prems" by blast
        then show ?thesis using Some nothit miss eq False split_on_first [of "CHR ''&''" p] by (subst field_loop.simps) auto
      qed
    qed
  qed
qed

subsection \<open>Routes, files and icons\<close>

lemma match_id_iff:
  assumes "tail = [] \<or> hd tail = CHR ''/''"
  shows "match_id_route url pre tail n = Some i \<longleftrightarrow>
    url = pre @ ''/'' @ i @ tail \<and> i \<noteq> [] \<and> CHR ''/'' \<notin> set i \<and> length i < n"
proof
  assume m: "match_id_route url pre tail n = Some i"
  let ?r = "drop (length pre + 1) url"
  have p: "prefix (pre @ ''/'') url" and i: "i = takeWhile (\<lambda>c. c \<noteq> CHR ''/'') ?r" "i \<noteq> []" "length i < n"
    and t: "dropWhile (\<lambda>c. c \<noteq> CHR ''/'') ?r = tail"
    using m by (auto simp: match_id_route_def Let_def split: if_splits)
  have "?r = i @ tail" using i(1) t takeWhile_dropWhile_id by metis
  moreover have "url = (pre @ ''/'') @ ?r" using p by (auto simp: prefix_def)
  moreover have "CHR ''/'' \<notin> set i" using i(1) by (auto dest: set_takeWhileD)
  ultimately show "url = pre @ ''/'' @ i @ tail \<and> i \<noteq> [] \<and> CHR ''/'' \<notin> set i \<and> length i < n" using i by simp
next
  assume u: "url = pre @ ''/'' @ i @ tail \<and> i \<noteq> [] \<and> CHR ''/'' \<notin> set i \<and> length i < n"
  have "takeWhile (\<lambda>c. c \<noteq> CHR ''/'') (i @ tail) = i \<and> dropWhile (\<lambda>c. c \<noteq> CHR ''/'') (i @ tail) = tail"
  proof (cases tail)
    case Nil
    then show ?thesis using u by (auto simp: takeWhile_eq_all_conv dropWhile_eq_Nil_conv)
  next
    case (Cons c t)
    then show ?thesis using u assms run_until [of "CHR ''/''" i t] by simp
  qed
  then show "match_id_route url pre tail n = Some i" using u by (auto simp: match_id_route_def Let_def)
qed

lemma asset_char_plain: "\<not> asset_char (CHR '' '')" "asset_char (CHR ''-'')"
  by (simp_all add: asset_char_def ctype_defs)

lemma asset_loop_chars: "list_all asset_char (asset_loop room s) \<and> length (asset_loop room s) \<le> room"
proof (induction room s rule: asset_loop.induct)
  case (2 room c s)
  then show ?case by (cases room) (auto simp: asset_char_plain)
qed simp

lemma asset_loop_id: "list_all asset_char s \<Longrightarrow> length s \<le> room \<Longrightarrow> asset_loop room s = s"
  by (induction room s rule: asset_loop.induct) (auto simp: asset_char_plain)

definition ico_image_inside :: "byte list \<Rightarrow> nat \<Rightarrow> bool" where
  "ico_image_inside d at \<longleftrightarrow> 0 < ico_le32 d (at + 8) \<and> ico_le32 d (at + 12) + ico_le32 d (at + 8) \<le> length d"

definition ico_is_16 :: "byte list \<Rightarrow> nat \<Rightarrow> bool" where
  "ico_is_16 d at \<longleftrightarrow> d ! at = 16 \<and> d ! (at + 1) = 16"

lemma ico_entries_iff:
  "ico_entries d at k has_16 = Some b \<longleftrightarrow>
     (\<forall>i<k. ico_image_inside d (at + 16 * i)) \<and> b = (has_16 \<or> (\<exists>i<k. ico_is_16 d (at + 16 * i)))"
proof (induction k arbitrary: at has_16)
  case (Suc k)
  have s: "at + 16 * Suc i = at + 16 + 16 * i" for i by simp
  have "(\<forall>i<Suc k. P (at + 16 * i)) \<longleftrightarrow> P at \<and> (\<forall>i<k. P (at + 16 + 16 * i))"
    "(\<exists>i<Suc k. P (at + 16 * i)) \<longleftrightarrow> P at \<or> (\<exists>i<k. P (at + 16 + 16 * i))" for P
    unfolding All_less_Suc2 Ex_less_Suc2 s by simp_all
  moreover have "ico_le32 d (at + 8) = 0 \<or> ico_le32 d (at + 12) > length d \<or> ico_le32 d (at + 8) > length d - ico_le32 d (at + 12)
      \<longleftrightarrow> \<not> ico_image_inside d at" by (auto simp: ico_image_inside_def)
  ultimately show ?case using Suc [of "at + 16" "has_16 \<or> ico_is_16 d at"]
    unfolding ico_entries.simps Let_def ico_is_16_def [symmetric] by (cases "ico_image_inside d at") simp_all
qed auto


lemma hex_lower_digit: "d < 16 \<Longrightarrow> isxdigit (hex_lower d) \<and> hex_digit_value (hex_lower d) = d"
  by (auto simp: hex_lower_def isxdigit_def isdigit_def hex_digit_value_def tolower_def isupper_def)

lemma color_byte_roundtrip:
  assumes "(p :: nat) < 100" "b = (p * 255 + 50) div 100"
  shows "b div 16 < 16" "b mod 16 < 16" "(b * 100 + 127) div 255 = p"
proof -
  have "100 * b \<le> p * 255 + 50" "p * 255 + 50 < 100 * b + 100"
    unfolding assms(2) using div_times_less_eq_dividend [of "p * 255 + 50" 100] mod_less_divisor [of 100 "p * 255 + 50"]
      div_mult_mod_eq [of "p * 255 + 50" 100] by linarith+
  then show "(b * 100 + 127) div 255 = p" "b div 16 < 16" using assms(1) by (auto intro!: div_nat_eqI simp: div_less_iff_less_mult)
qed simp

lemma take_4: "4 \<le> length d \<Longrightarrow> take 4 d = [d ! 0, d ! 1, d ! 2, d ! 3]"
  by (rule nth_equalityI) (auto simp: less_Suc_eq eval_nat_numeral)

lemma rgb_ok_append: "length rgb = 7 \<Longrightarrow> rgb_ok rgb \<Longrightarrow> rgb_ok (rgb @ t) \<and> take 7 (rgb @ t) = rgb"
  by (simp add: rgb_ok_def nth_append)

subsection \<open>Properties\<close>

text \<open>
  C36. The router's reader of a form field, which walks over the body, and the reader of the comment
  form, which splits it, give the same value for every body and every name without an ampersand
  or an equals sign.
\<close>

theorem form_readers_agree:
  assumes "CHR ''&'' \<notin> set key" "CHR ''='' \<notin> set key" "0 < n"
  shows "parse_urlencoded_field (Some b) key n = form_field b key n"
proof -
  have nf: "(\<lambda>p. length key < length p \<and> take (length key) p = key \<and> p ! length key = CHR ''='') = names_field key"
    by (simp add: fun_eq_iff names_field_def)
  show ?thesis using assms(3) field_loop_find [OF assms(1,2), of b]
    unfolding form_field_def nf by (simp add: parse_urlencoded_field_def field_value_def split: option.splits)
qed

theorem form_readers_agree_witness:
  "parse_urlencoded_field (Some ''x&email=a%40b&role=viewer'') ''role'' 16 = form_field ''x&email=a%40b&role=viewer'' ''role'' 16"
  by (rule form_readers_agree) simp_all

text \<open>
  Which addresses an id route takes, and the id it reads: exactly those that are the prefix, one
  segment that is not empty and fits, and the ending.
\<close>

theorem id_route_iff:
  assumes "tail = [] \<or> hd tail = CHR ''/''"
  shows "match_id_route url pre tail n = Some i \<longleftrightarrow>
    url = pre @ ''/'' @ i @ tail \<and> i \<noteq> [] \<and> CHR ''/'' \<notin> set i \<and> length i < n"
  by (rule match_id_iff [OF assms])

theorem id_route_iff_witness:
  "match_id_route ''/dashboard/users/42/edit'' ''/dashboard/users'' ''/edit'' 32 = Some ''42''"
  using id_route_iff [of "''/edit''" "''/dashboard/users/42/edit''" "''/dashboard/users''" 32 "''42''"] by simp

text \<open>
  The name an uploaded theme asset is stored under: letters, digits, dashes, dots and underscores,
  no leading dot and no two dots in a row, within the array; cleaning it again changes nothing.
\<close>

theorem asset_name_safe:
  assumes "sanitize_asset_filename name n = Some out"
  shows "list_all asset_char out \<and> out \<noteq> [] \<and> hd out \<noteq> CHR ''.'' \<and> \<not> contains out ''..'' \<and> length out \<le> n - 1
    \<and> sanitize_asset_filename out n = Some out"
proof -
  have out: "out = asset_loop (n - 1) name" "out \<noteq> []" "hd out \<noteq> CHR ''.''" "\<not> contains out ''..''"
    using assms by (auto simp: sanitize_asset_filename_def Let_def split: if_splits)
  have "list_all asset_char out \<and> length out \<le> n - 1" using asset_loop_chars [of "n - 1" name] out(1) by simp
  then show ?thesis using out(2-4) asset_loop_id [of out "n - 1"] by (simp add: sanitize_asset_filename_def)
qed

theorem asset_name_safe_witness:
  "sanitize_asset_filename ''my-logo.png'' 64 = Some ''my-logo.png''"
proof -
  have "sanitize_asset_filename ''my logo?.png'' 64 = Some ''my-logo.png''" by code_simp
  then show ?thesis using asset_name_safe by blast
qed

text \<open>
  Which favicons are accepted: icon files of at most the limit, whose directory and every image of
  it lie inside the file, and for the browsers that read only that size, one of 16 by 16.
\<close>

theorem favicon_accepted:
  "favicon_ico_problem d epoch = None \<longleftrightarrow>
     6 \<le> length d \<and> length d \<le> FAVICON_MAX_BYTES \<and> take 4 d = [0, 0, 1, 0] \<and> 0 < ico_le16 d 4 \<and> 6 + 16 * ico_le16 d 4 \<le> length d
     \<and> (\<forall>i<ico_le16 d 4. ico_image_inside d (6 + 16 * i)) \<and> (epoch = EPOCH_MIDDLE \<longrightarrow> (\<exists>i<ico_le16 d 4. ico_is_16 d (6 + 16 * i)))"
proof (cases "6 \<le> length d")
  case True
  then have t4: "take 4 d = [0, 0, 1, 0] \<longleftrightarrow> d ! 0 = 0 \<and> d ! 1 = 0 \<and> d ! 2 = 1 \<and> d ! 3 = 0" by (simp add: take_4)
  define inside where "inside \<longleftrightarrow> (\<forall>i<ico_le16 d 4. ico_image_inside d (6 + 16 * i))"
  define has16 where "has16 \<longleftrightarrow> (\<exists>i<ico_le16 d 4. ico_is_16 d (6 + 16 * i))"
  have e: "ico_entries d 6 (ico_le16 d 4) False = (if inside then Some has16 else None)"
  proof -
    have "ico_entries d 6 (ico_le16 d 4) False = Some b \<longleftrightarrow> inside \<and> b = has16" for b
      unfolding inside_def has16_def using ico_entries_iff [of d 6 "ico_le16 d 4" False b] by simp
    then show ?thesis by (cases "ico_entries d 6 (ico_le16 d 4) False") auto
  qed
  show ?thesis unfolding inside_def [symmetric] has16_def [symmetric] t4 using True
    by (simp add: favicon_ico_problem_def e Let_def not_less) blast
next
  case False
  then show ?thesis by (simp add: favicon_ico_problem_def)
qed

definition example_ico :: "byte list" where
  "example_ico = [0, 0, 1, 0, 1, 0, 16, 16, 0, 0, 1, 0, 8, 0, 1, 0, 0, 0, 22, 0, 0, 0, 255]"

theorem favicon_accepted_witness:
  "6 \<le> length example_ico \<and> ico_image_inside example_ico (6 + 16 * 0) \<and> favicon_ico_problem example_ico EPOCH_MIDDLE = None"
proof -
  have n: "favicon_ico_problem example_ico EPOCH_MIDDLE = None" and c: "0 < ico_le16 example_ico 4"
    by (simp_all add: favicon_ico_problem_def example_ico_def FAVICON_MAX_BYTES_def ico_le16_def ico_le32_def Let_def)
  then have "\<forall>i<ico_le16 example_ico 4. ico_image_inside example_ico (6 + 16 * i)" "6 \<le> length example_ico"
    using favicon_accepted [of example_ico EPOCH_MIDDLE] by blast+
  then show ?thesis using n c by blast
qed

text \<open>
  Colors and opacities read back: joining a color and a percentage and splitting the stored value
  gives both again, for every percentage.
\<close>

theorem color_roundtrip:
  assumes "length rgb = 7 \<and> rgb_ok rgb" "p \<le> 100" "10 \<le> n"
  shows "cms_split_hex_alpha (cms_join_hex_alpha rgb (int p) n) = (rgb, p)"
proof (cases "p = 100")
  case True
  have "fit n rgb = rgb" using assms by (intro fit_id) simp
  then show ?thesis using True assms(1) by (simp add: cms_join_hex_alpha_def cms_split_hex_alpha_def)
next
  case False
  let ?b = "(p * 255 + 50) div 100"
  let ?x = "hex_lower (?b div 16)" and ?y = "hex_lower (?b mod 16)"
  have p: "p < 100" using False assms(2) by simp
  then have b: "isxdigit ?x" "isxdigit ?y" "16 * hex_digit_value ?x + hex_digit_value ?y = ?b" "(?b * 100 + 127) div 255 = p"
    using color_byte_roundtrip [OF p refl] hex_lower_digit [of "?b div 16"] hex_lower_digit [of "?b mod 16"] by simp_all
  have "fit n (rgb @ [?x, ?y]) = rgb @ [?x, ?y]" using assms by (intro fit_id) simp
  moreover have "nat (max 0 (min 100 (int p))) = p" using p by simp
  ultimately have j: "cms_join_hex_alpha rgb (int p) n = rgb @ [?x, ?y]" using assms(1) p by (simp add: cms_join_hex_alpha_def Let_def)
  have "(rgb @ [?x, ?y]) ! 7 = ?x" "(rgb @ [?x, ?y]) ! 8 = ?y" using assms(1) by (simp_all add: nth_append)
  then show ?thesis using b assms(1) rgb_ok_append [of rgb "[?x, ?y]"] unfolding j by (simp add: cms_split_hex_alpha_def)
qed

theorem color_roundtrip_witness:
  "cms_split_hex_alpha (cms_join_hex_alpha ''#12ab9F'' (int 37) 16) = (''#12ab9F'', 37)"
  by (rule color_roundtrip) (simp_all add: rgb_ok_def isxdigit_def isdigit_def)

text \<open>
  A background color posted without its opacity is stored as fully transparent, not opaque:
  looking up the missing field empties the default put there before.
\<close>

theorem missing_opacity_transparent:
  "parse_bg_color_field (Some ''bg=%23ffffff'') ''bg'' ''bg_alpha'' 16 = ''#ffffff00''"
  by code_simp

end
