(* ===== verification/Epoch_Response.thy ===== *)
theory Epoch_Response
  imports Request_Context Wbxml_Pages Detect_Epoch Connection
begin

text \<open>
  The answers of the server (src/src/utils/build_epoch_response.c): the fixups a page goes
  through for the browser's epoch - parameters stitched onto its links, the Latin-1 transcoding,
  the WML repairs and pages - and the header in front of it. Redirect pages come from a template
  and are an argument. Memory is assumed to be available.
\<close>

subsection \<open>Content types and charset\<close>

definition SECURITY_HEADERS :: string where
  "SECURITY_HEADERS = ''X-Content-Type-Options: nosniff'' @ CRLF @ ''X-Frame-Options: SAMEORIGIN'' @ CRLF"

definition content_type_for_epoch :: "bool \<Rightarrow> int \<Rightarrow> string" where
  "content_type_for_epoch legacy epoch =
     (if epoch = EPOCH_WML then ''text/vnd.wap.wml''
      else if epoch = EPOCH_EARLY then ''text/html''
      else if epoch = EPOCH_PRESTANDARD then (if legacy then ''text/html'' else ''text/html; charset=UTF-8'')
      else ''text/html; charset=UTF-8'')"

abbreviation (input) LATIN1_FALLBACK :: char where "LATIN1_FALLBACK \<equiv> CHR ''#''"

text \<open>A byte past the end is the NUL of the string, which continues no character.\<close>

fun utf8_to_latin1 :: "string \<Rightarrow> string" where
  "utf8_to_latin1 [] = []"
| "utf8_to_latin1 (c # p) =
     (if ord c < 128 then c # utf8_to_latin1 p
      else if ord c div 32 = 6 \<and> 1 \<le> length p \<and> list_all utf8_cont (take 1 p) then
        (let cp = (ord c mod 32) * 64 + ord (hd p) mod 64
         in (if cp \<le> 255 then chr cp else LATIN1_FALLBACK) # utf8_to_latin1 (drop 1 p))
      else if ord c div 16 = 14 \<and> 2 \<le> length p \<and> list_all utf8_cont (take 2 p) then
        LATIN1_FALLBACK # utf8_to_latin1 (drop 2 p)
      else if ord c div 8 = 30 \<and> 3 \<le> length p \<and> list_all utf8_cont (take 3 p) then
        LATIN1_FALLBACK # utf8_to_latin1 (drop 3 p)
      else LATIN1_FALLBACK # utf8_to_latin1 p)"

subsection \<open>Parameters on links\<close>

text \<open>What becomes of one URL: the parameter goes on a link into the site that does not carry it yet.\<close>

definition tag_url :: "string \<Rightarrow> string \<Rightarrow> string \<Rightarrow> string" where
  "tag_url param val u =
     (let base = takeWhile (\<lambda>c. c \<noteq> CHR ''#'') u;
          rest = dropWhile (\<lambda>c. c \<noteq> CHR ''#'') u
      in if site_relative u \<and> \<not> contains (take 2047 u) (fit 64 (param @ ''=''))
         then base @ (if CHR ''?'' \<in> set base then ''&amp;'' else ''?'') @ param @ ''='' @ val @ rest
         else u)"

function inject_loop :: "string \<Rightarrow> string \<Rightarrow> string \<Rightarrow> string \<Rightarrow> string" where
  "inject_loop marker param val p =
     (if marker = [] then p
      else case strstr p marker of
        None \<Rightarrow> p
      | Some i \<Rightarrow>
          (let u = drop (i + length marker) p in
           case strchr u (last marker) of
             None \<Rightarrow> p
           | Some n \<Rightarrow>
               take (i + length marker) p @ tag_url param val (take n u) @ [last marker]
                 @ inject_loop marker param val (drop (Suc n) u)))"
  by pat_completeness auto
termination
proof (relation "measure (\<lambda>(marker, param, val, p). length p)")
  fix marker param val p u :: string and i n
  assume "marker \<noteq> []" "strstr p marker = Some i" "u = drop (i + length marker) p"
  then have "length u < length p" using strstr_rest_shorter by blast
  then show "((marker, param, val, drop (Suc n) u), marker, param, val, p) \<in> measure (\<lambda>(marker, param, val, p). length p)"
    by simp
qed simp

declare inject_loop.simps [simp del]

text \<open>The first pass counts the markers, and so the bytes to allocate.\<close>

function link_count :: "string \<Rightarrow> string \<Rightarrow> nat" where
  "link_count marker p =
     (if marker = [] then 0
      else case strstr p marker of None \<Rightarrow> 0 | Some i \<Rightarrow> Suc (link_count marker (drop (i + length marker) p)))"
  by pat_completeness auto
termination
  by (relation "measure (\<lambda>(marker, p). length p)") (auto dest: strstr_rest_shorter)

declare link_count.simps [simp del]

definition inject_size :: "string \<Rightarrow> string \<Rightarrow> string \<Rightarrow> string \<Rightarrow> nat" where
  "inject_size html marker param val = length html + link_count marker html * (5 + length param + 1 + length val) + 1"

definition inject_query_param_into_attr :: "string \<Rightarrow> string \<Rightarrow> string \<Rightarrow> string \<Rightarrow> string" where
  "inject_query_param_into_attr html marker param val =
     (if link_count marker html = 0 then html else inject_loop marker param val html)"

abbreviation HREF :: string where "HREF \<equiv> ''href='' @ [DQ]"
abbreviation SRC :: string where "SRC \<equiv> ''src='' @ [DQ]"
abbreviation LOCATION_HREF :: string where "LOCATION_HREF \<equiv> ''location.href='' @ [SQ]"
abbreviation ACTION :: string where "ACTION \<equiv> ''action='' @ [DQ]"

definition inject_query_param_into_links :: "string \<Rightarrow> string \<Rightarrow> string \<Rightarrow> string" where
  "inject_query_param_into_links html param val =
     (let hrefs = inject_query_param_into_attr html HREF param val;
          nav = inject_query_param_into_attr hrefs LOCATION_HREF param val
      in inject_query_param_into_attr nav ACTION param val)"

subsection \<open>WML repairs\<close>

function wml_close_br :: "string \<Rightarrow> string" where
  "wml_close_br p =
     (case strstr p ''<br>'' of
        None \<Rightarrow> p
      | Some n \<Rightarrow> take n p @ ''<br/>'' @ wml_close_br (drop (n + 4) p))"
  by pat_completeness auto
termination
proof (relation "measure length")
  fix p n
  assume "strstr p ''<br>'' = Some n"
  from strstr_rest_shorter [OF this] show "(drop (n + 4) p, p) \<in> measure length" by (simp del: strstr.simps)
qed simp

declare wml_close_br.simps [simp del]

function wml_strip_lists :: "string \<Rightarrow> string" where
  "wml_strip_lists p =
     (if p = [] then []
      else if prefix_ci ''<ul>'' p then wml_strip_lists (drop 4 p)
      else if prefix_ci ''</ul>'' p then wml_strip_lists (drop 5 p)
      else if prefix_ci ''<ol>'' p then wml_strip_lists (drop 4 p)
      else if prefix_ci ''</ol>'' p then wml_strip_lists (drop 5 p)
      else if prefix_ci ''<li>'' p then ''- '' @ wml_strip_lists (drop 4 p)
      else if prefix_ci ''</li>'' p then ''<br/>'' @ wml_strip_lists (drop 5 p)
      else hd p # wml_strip_lists (tl p))"
  by pat_completeness auto
termination
  by (relation "measure length") auto

declare wml_strip_lists.simps [simp del]

subsection \<open>The fixups in order\<close>

text \<open>
  The values of the request the fixups read: the site key of a request without Host, language,
  theme, whether the reader is older than Unicode, the target of a WML request, and whether it
  asked for a single page.
\<close>

record Fixups =
  fx_site :: "string option"
  fx_lang :: string
  fx_theme :: string
  fx_legacy :: bool
  fx_target :: string
  fx_unpaged :: bool

definition fixups_of :: "string \<Rightarrow> string \<Rightarrow> string \<Rightarrow> ReqCtx \<Rightarrow> Fixups" where
  "fixups_of site_key default_lang theme x =
     \<lparr>fx_site = request_site site_key x, fx_lang = request_lang default_lang x, fx_theme = request_theme theme x,
      fx_legacy = rx_legacy x, fx_target = rx_target x, fx_unpaged = rx_unpaged x\<rparr>"

definition tag_site :: "Fixups \<Rightarrow> string \<Rightarrow> string" where
  "tag_site f body =
     (case fx_site f of
        None \<Rightarrow> body
      | Some site \<Rightarrow> inject_query_param_into_attr (inject_query_param_into_links body ''site'' site) SRC ''site'' site)"

definition page_deck :: "Fixups \<Rightarrow> string \<Rightarrow> string" where
  "page_deck f cur =
     (case wml_paginate (utf8_to_latin1 cur) True (fx_target f) (wbxml_page_param (fx_target f)) WAP_PAGE_BYTES ''ISO-8859-1'' of
        Some (Some paged) \<Rightarrow> inject_query_param_into_links paged ''lang'' (fx_lang f)
      | _ \<Rightarrow> cur)"

definition needs_latin1 :: "Fixups \<Rightarrow> int \<Rightarrow> bool" where
  "needs_latin1 f epoch \<longleftrightarrow> epoch = EPOCH_EARLY \<or> epoch = EPOCH_WML \<or> (epoch = EPOCH_PRESTANDARD \<and> fx_legacy f)"

definition retrofit_body_for_epoch :: "Fixups \<Rightarrow> string \<Rightarrow> int \<Rightarrow> string option" where
  "retrofit_body_for_epoch f body epoch =
     (if epoch > EPOCH_MIDDLE \<and> fx_site f = None then None
      else let b1 = tag_site f body in
           if epoch > EPOCH_MIDDLE then Some b1
           else let b2 = (if epoch \<le> EPOCH_EARLY then inject_query_param_into_links b1 ''lang'' (fx_lang f) else b1);
                    b3 = (if epoch = EPOCH_WML \<and> \<not> fx_unpaged f then page_deck f b2 else b2);
                    b4 = (if epoch = EPOCH_EARLY \<or> epoch = EPOCH_MIDDLE
                          then inject_query_param_into_links b3 ''theme'' (fx_theme f) else b3);
                    b5 = (if epoch = EPOCH_WML then wml_strip_lists (wml_close_br b4) else b4)
                in Some (if needs_latin1 f epoch then utf8_to_latin1 b5 else b5))"

definition sent_body :: "Fixups \<Rightarrow> string \<Rightarrow> int \<Rightarrow> string" where
  "sent_body f body epoch = (case retrofit_body_for_epoch f body epoch of None \<Rightarrow> body | Some b \<Rightarrow> b)"

subsection \<open>Responses\<close>

definition build_epoch_response_status :: "Fixups \<Rightarrow> string \<Rightarrow> string \<Rightarrow> int \<Rightarrow> string \<Rightarrow> string" where
  "build_epoch_response_status f body extra_headers epoch status_line =
     (let b = sent_body f body epoch in
      ''HTTP/1.1 '' @ status_line @ CRLF
      @ ''Content-Type: '' @ content_type_for_epoch (fx_legacy f) epoch @ CRLF
      @ ''Content-Length: '' @ show_nat (length b) @ CRLF
      @ extra_headers @ SECURITY_HEADERS @ ''Connection: close'' @ CRLF @ CRLF @ b)"

definition build_epoch_response :: "Fixups \<Rightarrow> string \<Rightarrow> string \<Rightarrow> int \<Rightarrow> string" where
  "build_epoch_response f body extra_headers epoch = build_epoch_response_status f body extra_headers epoch ''200 OK''"

text \<open>\<open>redirect_page\<close>: the page for a location and an epoch, if its template can be read.\<close>

definition redirect_response_to :: "(string \<Rightarrow> int \<Rightarrow> string option) \<Rightarrow> Fixups \<Rightarrow> string \<Rightarrow> string \<Rightarrow> int \<Rightarrow> string option" where
  "redirect_response_to redirect_page f location extra_headers epoch =
     map_option (\<lambda>body.
       let b = sent_body f body epoch in
       ''HTTP/1.1 302 Found'' @ CRLF
       @ ''Location: '' @ location @ CRLF
       @ ''Content-Type: '' @ content_type_for_epoch (fx_legacy f) epoch @ CRLF
       @ ''Content-Length: '' @ show_nat (length b) @ CRLF
       @ extra_headers @ SECURITY_HEADERS @ ''Connection: close'' @ CRLF @ CRLF @ b) (redirect_page location epoch)"

definition build_redirect_response :: "(string \<Rightarrow> int \<Rightarrow> string option) \<Rightarrow> Fixups \<Rightarrow> string \<Rightarrow> string \<Rightarrow> int \<Rightarrow> string option" where
  "build_redirect_response redirect_page f location extra_headers epoch =
     redirect_response_to redirect_page f (request_site_tag_location (fx_site f) location) extra_headers epoch"

definition build_json_response_status :: "string \<Rightarrow> string \<Rightarrow> string" where
  "build_json_response_status json_body status_line =
     ''HTTP/1.1 '' @ status_line @ CRLF
     @ ''Content-Type: application/json; charset=UTF-8'' @ CRLF
     @ ''Content-Length: '' @ show_nat (length json_body) @ CRLF
     @ SECURITY_HEADERS @ ''Connection: close'' @ CRLF @ CRLF @ json_body"

definition build_json_response :: "string \<Rightarrow> string" where
  "build_json_response json_body = build_json_response_status json_body ''200 OK''"

definition build_css_response :: "string \<Rightarrow> string \<Rightarrow> string" where
  "build_css_response css_body status_line =
     ''HTTP/1.1 '' @ status_line @ CRLF
     @ ''Content-Type: text/css; charset=UTF-8'' @ CRLF
     @ ''Content-Length: '' @ show_nat (length css_body) @ CRLF
     @ SECURITY_HEADERS @ ''Connection: close'' @ CRLF @ CRLF @ css_body"


subsection \<open>The array of a rewritten page is large enough\<close>

lemma link_count_None: "strstr p m = None \<Longrightarrow> link_count m p = 0"
  by (simp add: link_count.simps [of m p])

lemma link_count_Some: "m \<noteq> [] \<Longrightarrow> strstr p m = Some i \<Longrightarrow> link_count m p = Suc (link_count m (drop (i + length m) p))"
  by (simp add: link_count.simps [of m p])

lemma link_count_Cons:
  assumes "m \<noteq> []" "\<And>k. link_count m (drop k (drop (length m - 1) s)) \<le> link_count m (drop (length m - 1) s)"
  shows "link_count m s \<le> link_count m (x # s)"
proof (cases "strstr (x # s) m")
  case None
  then have "strstr s m = None" by (simp split: if_splits)
  then show ?thesis by (simp add: link_count_None)
next
  case (Some i)
  note here = link_count_Some [OF assms(1) Some]
  show ?thesis
  proof (cases i)
    case 0
    then have c: "link_count m (x # s) = Suc (link_count m (drop (length m - 1) s))"
      using here assms(1) by (cases m) simp_all
    show ?thesis
    proof (cases "strstr s m")
      case None
      then show ?thesis by (simp add: link_count_None)
    next
      case (Some j)
      have "drop (j + length m) s = drop (Suc j) (drop (length m - 1) s)"
        using assms(1) by (cases m) (simp_all add: add.commute)
      then have "link_count m (drop (j + length m) s) \<le> link_count m (drop (length m - 1) s)"
        using assms(2) [of "Suc j"] by simp
      then show ?thesis using c link_count_Some [OF assms(1) Some] by simp
    qed
  next
    case (Suc k)
    then have "strstr s m = Some k" using Some by (auto split: if_splits)
    then show ?thesis using here link_count_Some [OF assms(1), of s k] Suc by simp
  qed
qed

lemma link_count_drop: "m \<noteq> [] \<Longrightarrow> link_count m (drop k s) \<le> link_count m s"
proof (induction "length s" arbitrary: s k rule: less_induct)
  case less
  show ?case
  proof (cases s)
    case (Cons x t)
    have "link_count m (drop j (drop (length m - 1) t)) \<le> link_count m (drop (length m - 1) t)" for j
      using less.hyps [of "drop (length m - 1) t" j] less.prems Cons by simp
    then have "link_count m t \<le> link_count m s" unfolding Cons by (rule link_count_Cons [OF less.prems])
    moreover have "link_count m (drop j t) \<le> link_count m t" for j using less.hyps [of t j] less.prems Cons by simp
    ultimately show ?thesis using Cons by (cases k) (auto intro: le_trans)
  qed simp
qed

lemma tag_url_length: "length (tag_url param val u) \<le> length u + (5 + length param + 1 + length val)"
proof -
  have "length (takeWhile (\<lambda>c. c \<noteq> CHR ''#'') u) + length (dropWhile (\<lambda>c. c \<noteq> CHR ''#'') u) = length u"
    by (metis length_append takeWhile_dropWhile_id)
  then show ?thesis by (simp add: tag_url_def Let_def)
qed

lemma inject_loop_length:
  "marker \<noteq> [] \<Longrightarrow> length (inject_loop marker param val p) \<le> length p + link_count marker p * (5 + length param + 1 + length val)"
proof (induction marker param val p rule: inject_loop.induct)
  case (1 marker param val p)
  let ?e = "5 + length param + 1 + length val"
  show ?case
  proof (cases "strstr p marker")
    case None
    then show ?thesis by (simp add: inject_loop.simps [of marker])
  next
    case (Some i)
    let ?u = "drop (i + length marker) p"
    show ?thesis
    proof (cases "strchr ?u (last marker)")
      case None
      then show ?thesis using Some by (simp add: inject_loop.simps [of marker])
    next
      case (Some n)
      let ?r = "drop (Suc n) ?u"
      have IH: "length (inject_loop marker param val ?r) \<le> length ?r + link_count marker ?r * ?e"
        using 1 \<open>strstr p marker = Some i\<close> Some by simp
      have n: "n < length ?u" using Some by (simp add: strchr_Some)
      have "link_count marker ?r * ?e \<le> link_count marker ?u * ?e" using link_count_drop [OF "1.prems"] by (rule mult_le_mono1)
      moreover have "link_count marker p * ?e = ?e + link_count marker ?u * ?e"
        using link_count_Some [OF "1.prems" \<open>strstr p marker = Some i\<close>] by simp
      moreover have "length (inject_loop marker param val p)
          = i + length marker + length (tag_url param val (take n ?u)) + 1 + length (inject_loop marker param val ?r)"
        using "1.prems" \<open>strstr p marker = Some i\<close> Some strstr_length [OF \<open>strstr p marker = Some i\<close>]
        by (simp add: inject_loop.simps [of marker param val p])
      moreover have "length (tag_url param val (take n ?u)) \<le> n + ?e" using tag_url_length [of param val "take n ?u"] n by simp
      moreover have "i + length marker + Suc n + length ?r = length p" using n by simp
      ultimately show ?thesis using IH by linarith
    qed
  qed
qed

subsection \<open>Only the links change\<close>

text \<open>The URLs a marker opens, and the text around them.\<close>

function marked_urls :: "string \<Rightarrow> string \<Rightarrow> string list" where
  "marked_urls marker p =
     (if marker = [] then []
      else case strstr p marker of
        None \<Rightarrow> []
      | Some i \<Rightarrow>
          (let u = drop (i + length marker) p in
           case strchr u (last marker) of
             None \<Rightarrow> []
           | Some n \<Rightarrow> take n u # marked_urls marker (drop (Suc n) u)))"
  by pat_completeness auto
termination
proof (relation "measure (\<lambda>(marker, p). length p)")
  fix marker p u :: string and i n
  assume "marker \<noteq> []" "strstr p marker = Some i" "u = drop (i + length marker) p"
  then have "length u < length p" using strstr_rest_shorter by blast
  then show "((marker, drop (Suc n) u), marker, p) \<in> measure (\<lambda>(marker, p). length p)" by simp
qed simp

declare marked_urls.simps [simp del]

function unmarked_text :: "string \<Rightarrow> string \<Rightarrow> string list" where
  "unmarked_text marker p =
     (if marker = [] then [p]
      else case strstr p marker of
        None \<Rightarrow> [p]
      | Some i \<Rightarrow>
          (let u = drop (i + length marker) p in
           case strchr u (last marker) of
             None \<Rightarrow> [p]
           | Some n \<Rightarrow> take (i + length marker) p # unmarked_text marker (drop (Suc n) u)))"
  by pat_completeness auto
termination
proof (relation "measure (\<lambda>(marker, p). length p)")
  fix marker p u :: string and i n
  assume "marker \<noteq> []" "strstr p marker = Some i" "u = drop (i + length marker) p"
  then have "length u < length p" using strstr_rest_shorter by blast
  then show "((marker, drop (Suc n) u), marker, p) \<in> measure (\<lambda>(marker, p). length p)" by simp
qed simp

declare unmarked_text.simps [simp del]

lemma strstr_take_exact:
  assumes "strstr p m = Some i"
  shows "strstr (take (i + length m) p) m = Some i"
proof -
  have p: "prefix m (drop i p)" "i + length m \<le> length p" "\<forall>j<i. \<not> prefix m (drop j p)"
    using assms strstr_length [OF assms] by (simp_all add: strstr_Some_iff)
  then have "drop i (take (i + length m) p) = m" by (auto simp: prefix_def drop_take)
  moreover have "\<not> prefix m (drop j (take (i + length m) p))" if "j < i" for j
    using p(3) that by (auto simp: drop_take dest: prefix_order.trans take_is_prefix [THEN [2] prefix_order.trans])
  ultimately show ?thesis using p(2) by (simp add: strstr_Some_iff)
qed

lemma tag_url_quote: "q \<notin> set u \<Longrightarrow> q \<notin> set param \<union> set val \<Longrightarrow> q \<notin> set ''?&amp;='' \<Longrightarrow> q \<notin> set (tag_url param val u)"
  by (auto simp: tag_url_def Let_def dest: set_takeWhileD set_dropWhileD)

lemma inject_loop_links:
  assumes "marker \<noteq> []" "last marker \<notin> set param \<union> set val" "last marker \<notin> set ''?&amp;=''"
  shows "marked_urls marker (inject_loop marker param val p) = map (tag_url param val) (marked_urls marker p)
    \<and> unmarked_text marker (inject_loop marker param val p) = unmarked_text marker p"
  using assms
proof (induction marker param val p rule: inject_loop.induct)
  case (1 marker param val p)
  show ?case
  proof (cases "strstr p marker")
    case None
    then show ?thesis
      by (simp add: inject_loop.simps [of marker] marked_urls.simps [of marker] unmarked_text.simps [of marker])
  next
    case (Some i)
    let ?u = "drop (i + length marker) p" and ?k = "i + length marker"
    show ?thesis
    proof (cases "strchr ?u (last marker)")
      case None
      then show ?thesis using Some
        by (simp add: inject_loop.simps [of marker] marked_urls.simps [of marker] unmarked_text.simps [of marker])
    next
      case n: (Some n)
      let ?t = "tag_url param val (take n ?u)" and ?out = "inject_loop marker param val (drop (Suc n) ?u)"
      have IH: "marked_urls marker ?out = map (tag_url param val) (marked_urls marker (drop (Suc n) ?u))"
          "unmarked_text marker ?out = unmarked_text marker (drop (Suc n) ?u)"
        using "1.IH" [OF "1.prems"(1) Some refl n] "1.prems" by simp_all
      have out: "inject_loop marker param val p = take ?k p @ ?t @ [last marker] @ ?out"
        using "1.prems"(1) Some n by (simp add: inject_loop.simps [of marker param val p])
      have k: "?k \<le> length p" using Some by (rule strstr_length)
      have "strstr (take ?k p) marker = Some i"
        using strstr_take_exact [OF Some] .
      then have f: "strstr (inject_loop marker param val p) marker = Some i" unfolding out by (rule strstr_append)
      have d: "drop ?k (inject_loop marker param val p) = ?t @ last marker # ?out" "take ?k (inject_loop marker param val p) = take ?k p"
        unfolding out using k by simp_all
      have "last marker \<notin> set (take n ?u)" using n by (simp add: strchr_Some)
      then have "last marker \<notin> set ?t" using "1.prems"(2,3) by (rule tag_url_quote)
      then have "strchr (?t @ last marker # ?out) (last marker) = Some (length ?t)" by (rule strchr_here)
      then show ?thesis using f d IH "1.prems"(1) Some n
        by (simp add: marked_urls.simps [of marker p] marked_urls.simps [of marker "inject_loop marker param val p"]
            unmarked_text.simps [of marker p] unmarked_text.simps [of marker "inject_loop marker param val p"])
    qed
  qed
qed


subsection \<open>Transcoding\<close>

text \<open>What Latin-1 holds of a character.\<close>

definition latin1_char :: "nat \<Rightarrow> char" where
  "latin1_char cp = (if cp \<le> 255 then chr cp else LATIN1_FALLBACK)"

lemma ord_cont: "k < 64 \<Longrightarrow> ord (chr (128 + k)) = 128 + k"
  by simp

lemma cont_low: "k < 64 \<Longrightarrow> (128 + k) mod 64 = (k :: nat)"
  using mod_mult_self2 [of k 64 2] by (simp add: add.commute)

lemma utf8_cont_chr: "k < 64 \<Longrightarrow> utf8_cont (chr (128 + k))"
  by (simp add: utf8_cont_def)

lemma utf8_to_latin1_char:
  assumes "cp < 0x110000"
  shows "utf8_to_latin1 (b_utf8 cp @ s) = latin1_char cp # utf8_to_latin1 s"
proof -
  consider "cp < 128" | "128 \<le> cp" "cp < 2048" | "2048 \<le> cp" "cp < 65536" | "65536 \<le> cp" by linarith
  then show ?thesis
  proof cases
    case 1
    then show ?thesis by (simp add: b_utf8_def latin1_char_def)
  next
    case 2
    have o: "ord (chr (192 + cp div 64)) = 192 + cp div 64" using 2 by (intro ord_chr) simp
    have d: "(192 + cp div 64) div 32 = 6" "(192 + cp div 64) mod 32 = cp div 64"
      using 2 by (simp_all add: div_nat_eqI mod_if)
    have "(128 + cp mod 64) mod 64 = cp mod 64" by (simp add: cont_low)
    then have "cp div 64 * 64 + (128 + cp mod 64) mod 64 = cp" by simp
    then show ?thesis using 2 o d utf8_cont_chr [of "cp mod 64"] ord_cont [of "cp mod 64"]
      by (simp add: b_utf8_def latin1_char_def Let_def)
  next
    case 3
    have o: "ord (chr (224 + cp div 4096)) = 224 + cp div 4096" using 3 by (intro ord_chr) simp
    have d: "(224 + cp div 4096) div 16 = 14" "(224 + cp div 4096) div 32 = 7" using 3 by (simp_all add: div_nat_eqI)
    show ?thesis using 3 o d utf8_cont_chr [of "cp mod 64"] utf8_cont_chr [of "cp div 64 mod 64"]
      by (simp add: b_utf8_def latin1_char_def numeral_2_eq_2)
  next
    case 4
    have o: "ord (chr (240 + cp div 262144)) = 240 + cp div 262144" using assms by (intro ord_chr) simp
    have d: "(240 + cp div 262144) div 8 = 30" "(240 + cp div 262144) div 16 = 15" "(240 + cp div 262144) div 32 = 7"
      using assms 4 by (simp_all add: div_nat_eqI)
    show ?thesis using 4 o d utf8_cont_chr [of "cp mod 64"] utf8_cont_chr [of "cp div 64 mod 64"] utf8_cont_chr [of "cp div 4096 mod 64"]
      by (simp add: b_utf8_def latin1_char_def numeral_3_eq_3)
  qed
qed

lemma utf8_to_latin1_text: "list_all (\<lambda>cp. cp < 0x110000) cps \<Longrightarrow> utf8_to_latin1 (concat (map b_utf8 cps)) = map latin1_char cps"
  by (induction cps) (simp_all add: utf8_to_latin1_char)

lemma latin1_roundtrip: "utf8_to_latin1 (latin1_to_utf8 s) = s"
proof (induction s)
  case (Cons c s)
  have "ord c \<le> 255" using ord_less_256 [of c] by linarith
  then show ?case using Cons utf8_to_latin1_char [of "ord c"] ord_less_256 [of c]
    by (simp add: latin1_to_utf8_def latin1_char_def)
qed (simp add: latin1_to_utf8_def)

subsection \<open>Breaks\<close>

lemma strstr_br_join:
  assumes "strstr x ''<br>'' = None" "strstr (CHR ''<'' # y) ''<br>'' = None"
  shows "strstr (x @ CHR ''<'' # y) ''<br>'' = None"
  using assms
proof (induction x)
  case (Cons a x)
  then have n: "strstr (x @ CHR ''<'' # y) ''<br>'' = None" "\<not> prefix ''<br>'' (a # x)" by (simp_all split: if_splits)
  have "\<not> prefix ''<br>'' (a # x @ CHR ''<'' # y)"
  proof (cases "length x \<ge> 3")
    case True
    then show ?thesis using n(2) prefix_append_short [of "''<br>''" "a # x" "CHR ''<'' # y"] by auto
  next
    case False
    then consider "x = []" | b where "x = [b]" | b c where "x = [b, c]"
      by (cases x; cases "tl x"; cases "tl (tl x)") auto
    then show ?thesis by cases auto
  qed
  then show ?case using n by simp
qed simp

lemma strstr_take_None: "strstr p m = Some n \<Longrightarrow> m \<noteq> [] \<Longrightarrow> strstr (take n p) m = None"
proof (rule ccontr)
  assume p: "strstr p m = Some n" "m \<noteq> []" "strstr (take n p) m \<noteq> None"
  then obtain k where k: "strstr (take n p) m = Some k" by blast
  then have "strstr p m = Some k" using strstr_append [OF k, of "drop n p"] by simp
  moreover have "k < n" using strstr_length [OF k] p(2) by (cases m) auto
  ultimately show False using p(1) by simp
qed

lemma wml_close_br_closed: "strstr (wml_close_br p) ''<br>'' = None"
proof (induction p rule: wml_close_br.induct)
  case (1 p)
  show ?case
  proof (cases "strstr p ''<br>''")
    case None
    then show ?thesis by (subst wml_close_br.simps) simp
  next
    case (Some n)
    have "strstr (''<br/>'' @ wml_close_br (drop (n + 4) p)) ''<br>'' = None" using 1 [OF Some] by simp
    then have "strstr (take n p @ ''<br/>'' @ wml_close_br (drop (n + 4) p)) ''<br>'' = None"
      using strstr_br_join [OF strstr_take_None [OF Some]] by simp
    then show ?thesis using Some by (subst wml_close_br.simps) simp
  qed
qed


subsection \<open>The frame of a response\<close>

definition crlf_line :: "string \<Rightarrow> string" where
  "crlf_line l = l @ CRLF"

definition line_ok :: "string \<Rightarrow> bool" where
  "line_ok l \<longleftrightarrow> l \<noteq> [] \<and> CR \<notin> set l"

definition lines_text :: "string list \<Rightarrow> string" where
  "lines_text ls = concat (map crlf_line ls)"

lemma lines_text_Cons [simp]: "lines_text (l # ls) = l @ CRLF @ lines_text ls"
  by (simp add: lines_text_def crlf_line_def)

lemma lines_text_Nil [simp]: "lines_text [] = []"
  by (simp add: lines_text_def)

lemma lines_text_append: "lines_text (a @ b) = lines_text a @ lines_text b"
  by (simp add: lines_text_def)

text \<open>The first blank line is the one after the last header.\<close>

lemma first_blank_line:
  "list_all line_ok (l # ls) \<Longrightarrow>
     strstr (lines_text (l # ls) @ CRLF @ b) header_end = Some (length (lines_text (l # ls)) - 2)"
proof (induction ls arbitrary: l)
  case Nil
  then have "CR \<notin> set l" by (simp add: line_ok_def)
  from strstr_skip [OF this, of "[CR, LF, CR, LF] @ b" "[LF, CR, LF]"] show ?case by (simp add: header_end_def)
next
  case (Cons k ls)
  then have IH: "strstr (lines_text (k # ls) @ CRLF @ b) header_end = Some (length (lines_text (k # ls)) - 2)" by simp
  obtain c w where k: "k = c # w" "c \<noteq> CR" using Cons.prems by (cases k) (auto simp: line_ok_def)
  have "CR \<notin> set l" using Cons.prems by (simp add: line_ok_def)
  then have "strstr (l @ CRLF @ lines_text (k # ls) @ CRLF @ b) header_end
      = map_option (\<lambda>i. length l + i) (strstr (CRLF @ lines_text (k # ls) @ CRLF @ b) header_end)"
    unfolding header_end_def by (rule strstr_skip)
  also have "strstr (CRLF @ lines_text (k # ls) @ CRLF @ b) header_end
      = map_option (\<lambda>i. 2 + i) (strstr (lines_text (k # ls) @ CRLF @ b) header_end)"
    using k by (simp add: header_end_def option.map_comp comp_def)
  finally show ?case using IH by simp
qed

lemma after_blank_line:
  assumes "list_all line_ok (l # ls)"
  shows "after_header (lines_text (l # ls) @ CRLF @ b) = b"
proof -
  have "2 \<le> length (lines_text (l # ls))" by simp
  then have "length (lines_text (l # ls)) - 2 + 4 = length (lines_text (l # ls)) + 2" by simp
  moreover have "drop (length h + 2) (h @ CRLF @ b) = b" for h by simp
  ultimately show ?thesis unfolding after_header_def first_blank_line [OF assms] option.case by metis
qed

definition epoch_lines :: "Fixups \<Rightarrow> string \<Rightarrow> string list \<Rightarrow> int \<Rightarrow> string \<Rightarrow> string list" where
  "epoch_lines f body extra epoch status_line =
     [''HTTP/1.1 '' @ status_line, ''Content-Type: '' @ content_type_for_epoch (fx_legacy f) epoch,
      ''Content-Length: '' @ show_nat (length (sent_body f body epoch))]
     @ extra @ [''X-Content-Type-Options: nosniff'', ''X-Frame-Options: SAMEORIGIN'', ''Connection: close'']"

lemma show_nat_no_CR: "CR \<notin> set (show_nat n)"
  using show_nat_digits [of CR n] by (auto simp: isdigit_def)

lemma content_type_no_CR: "CR \<notin> set (content_type_for_epoch legacy epoch)"
  by (simp add: content_type_for_epoch_def)

lemma epoch_lines_ok:
  "CR \<notin> set status_line \<Longrightarrow> list_all line_ok extra \<Longrightarrow> list_all line_ok (epoch_lines f body extra epoch status_line)"
  using show_nat_no_CR content_type_no_CR by (simp add: epoch_lines_def line_ok_def)

lemma epoch_response_lines:
  "build_epoch_response_status f body (lines_text extra) epoch status_line
     = lines_text (epoch_lines f body extra epoch status_line) @ CRLF @ sent_body f body epoch"
  by (simp add: build_epoch_response_status_def epoch_lines_def lines_text_append SECURITY_HEADERS_def Let_def)

lemma epoch_response_body:
  assumes "CR \<notin> set status_line" "list_all line_ok extra"
  shows "after_header (build_epoch_response_status f body (lines_text extra) epoch status_line) = sent_body f body epoch"
proof -
  obtain l ls where ls: "epoch_lines f body extra epoch status_line = l # ls" by (simp add: epoch_lines_def)
  have "list_all line_ok (l # ls)" using epoch_lines_ok [OF assms] ls by metis
  then show ?thesis using after_blank_line [of l ls] unfolding epoch_response_lines ls by blast
qed


subsection \<open>Properties\<close>

text \<open>
  C27. The rewriting of links never writes past its array: whatever the page and the value, the bytes
  produced and their NUL fit what the counting pass allocated.
\<close>

theorem inject_fits:
  assumes "marker \<noteq> []"
  shows "length (inject_query_param_into_attr html marker param val) + 1 \<le> inject_size html marker param val"
  using inject_loop_length [OF assms, of param val html]
  by (auto simp: inject_query_param_into_attr_def inject_size_def)

theorem inject_fits_witness:
  "length (inject_query_param_into_attr (HREF @ ''/a'' @ [DQ]) HREF ''lang'' ''es'') + 1 \<le> inject_size (HREF @ ''/a'' @ [DQ]) HREF ''lang'' ''es''"
  by (rule inject_fits) simp



text \<open>
  The transcoding for readers older than Unicode: a text in UTF-8 becomes the Latin-1 byte of
  each of its characters, or the fallback where there is none; and what the gateway makes of
  those bytes is transcoded to the same bytes again.
\<close>

theorem latin1_transcoding:
  "(list_all (\<lambda>cp. cp < 0x110000) cps \<longrightarrow> utf8_to_latin1 (concat (map b_utf8 cps)) = map latin1_char cps)
   \<and> utf8_to_latin1 (latin1_to_utf8 s) = s"
  using utf8_to_latin1_text latin1_roundtrip by blast

theorem latin1_transcoding_witness:
  "utf8_to_latin1 (concat (map b_utf8 [0x4E, 0xF1, 0x20AC, 0x1F600])) = [CHR ''N'', CHR 0xF1, CHR ''#'', CHR ''#'']"
proof -
  have "list_all (\<lambda>cp. cp < 0x110000) [0x4E, 0xF1, 0x20AC, 0x1F600 :: nat]" by simp
  moreover have "map latin1_char [0x4E, 0xF1, 0x20AC, 0x1F600] = [CHR ''N'', CHR 0xF1, CHR ''#'', CHR ''#'']"
    by (simp add: latin1_char_def chr_def char_of_def bit_0)
  ultimately show ?thesis using latin1_transcoding by metis
qed

text \<open>
  C16. What a client receives: on an HTTP/0.9 connection exactly the page as it is sent to its epoch,
  without a byte of header, and on any other the response, whose header ends at its first
  blank line, counts the bytes of the page, and is followed by them.
\<close>

theorem epoch_response_received:
  assumes "takes_all env" "header_end_matched conn = 0" "CR \<notin> set status_line" "list_all line_ok extra"
  shows "write_all env conn [build_epoch_response_status f body (lines_text extra) epoch status_line] =
    (if simple_response conn then sent_body f body epoch
     else lines_text (epoch_lines f body extra epoch status_line) @ CRLF @ sent_body f body epoch)
   \<and> (''Content-Length: '' @ show_nat (length (sent_body f body epoch))) \<in> set (epoch_lines f body extra epoch status_line)
   \<and> list_all line_ok (epoch_lines f body extra epoch status_line)"
proof -
  have ne: "\<forall>b\<in>set [build_epoch_response_status f body (lines_text extra) epoch status_line]. b \<noteq> []"
    by (simp add: build_epoch_response_status_def Let_def)
  have "simple_response conn \<Longrightarrow> write_all env conn [build_epoch_response_status f body (lines_text extra) epoch status_line] = sent_body f body epoch"
    using write_all_strip [OF assms(1) _ _ ne, of conn] epoch_response_body [OF assms(3,4)] assms(2) by simp
  moreover have "\<not> simple_response conn \<Longrightarrow> write_all env conn [build_epoch_response_status f body (lines_text extra) epoch status_line]
      = lines_text (epoch_lines f body extra epoch status_line) @ CRLF @ sent_body f body epoch"
    using write_all_body [OF assms(1) _ ne, of conn] by (simp add: epoch_response_lines)
  moreover have "(''Content-Length: '' @ show_nat (length (sent_body f body epoch))) \<in> set (epoch_lines f body extra epoch status_line)"
    by (simp add: epoch_lines_def)
  ultimately show ?thesis using epoch_lines_ok [OF assms(3,4)] by simp
qed

definition plain_fixups :: Fixups where
  "plain_fixups = \<lparr>fx_site = None, fx_lang = ''en'', fx_theme = ''light'', fx_legacy = False, fx_target = ''/'', fx_unpaged = False\<rparr>"

theorem epoch_response_received_witness:
  "write_all (\<lambda>n. \<lparr>io_ret = int n, io_errno = EOTHER, io_ssl_error = SSL_ERROR_OTHER\<rparr>)
     \<lparr>client_socket = 5, ssl = False, simple_response = True, header_end_matched = 0, proxy_client_ip = []\<rparr>
     [build_epoch_response_status plain_fixups ''hello'' (lines_text [''Cache-Control: no-store'']) EPOCH_MODERN ''200 OK''] = ''hello''"
proof -
  have t: "takes_all (\<lambda>n. \<lparr>io_ret = int n, io_errno = EOTHER, io_ssl_error = SSL_ERROR_OTHER\<rparr>)" by (simp add: takes_all_def)
  have "sent_body plain_fixups ''hello'' EPOCH_MODERN = ''hello''" by code_simp
  then show ?thesis
    using epoch_response_received [OF t, of "\<lparr>client_socket = 5, ssl = False, simple_response = True, header_end_matched = 0, proxy_client_ip = []\<rparr>"
        "''200 OK''" "[''Cache-Control: no-store'']" plain_fixups "''hello''" EPOCH_MODERN]
    by (simp add: line_ok_def)
qed

text \<open>
  Closing the breaks of a WML page leaves none open, but dropping the list tags in one pass
  can put together a tag that was not there: an open break, or a list.
\<close>

theorem wml_repairs:
  "\<not> contains (wml_close_br p) ''<br>''
   \<and> wml_strip_lists (wml_close_br ''<b<ul>r>'') = ''<br>'' \<and> wml_strip_lists (wml_close_br ''<u<ul>l>'') = ''<ul>''"
proof -
  have "wml_strip_lists (wml_close_br ''<b<ul>r>'') = ''<br>''" "wml_strip_lists (wml_close_br ''<u<ul>l>'') = ''<ul>''"
    by code_simp+
  then show ?thesis using wml_close_br_closed [of p] by (simp add: contains_def)
qed

end
