(* ===== verification/Router_Guard.thy ===== *)
theory Router_Guard
  imports Router_Forms Epoch_Response Multipart
begin

text \<open>
  Who may do what in the dashboard (src/src/web_server/http_router.c): the epoch of a request, the
  rules of the roles, the check every dashboard route starts with, the maintenance mode, and the
  answers of a refusal. The database and the templates are a record of what they answer; what a
  handler writes to the connection is the list of its writes.
\<close>

subsection \<open>What a handler sees\<close>

definition USER_ROLE_BUF_SIZE :: nat where "USER_ROLE_BUF_SIZE = 16"
definition CSRF_HEADER_NAME :: string where "CSRF_HEADER_NAME = ''X-CSRF-Token''"
definition CSRF_FIELD_NAME :: string where "CSRF_FIELD_NAME = ''csrf_token''"

record RouteEnv =
  re_lib :: Lib
  re_db_ready :: bool
  re_db :: Db
  re_now :: int
  re_sessions :: Sessions
  re_role :: "string \<Rightarrow> string option"
  re_under_construction :: bool
  re_force_epoch :: int
  re_rules_ready :: bool
  re_rules :: active_rules
  re_ssl_enabled :: bool
  re_fixups :: Fixups
  re_error_page :: "int \<Rightarrow> nat \<Rightarrow> string option \<Rightarrow> string \<Rightarrow> string option"
  re_login_page :: "int \<Rightarrow> string \<Rightarrow> string option"
  re_redirect_page :: "string \<Rightarrow> int \<Rightarrow> string option"

subsection \<open>Epochs\<close>

definition is_http09_request :: "HttpRequest \<Rightarrow> bool" where
  "is_http09_request req \<longleftrightarrow> req_protocol req = [] \<and> req_headers req = []"

definition preview_key :: string where "preview_key = ''preview_epoch=''"

definition preview_epoch :: "string \<Rightarrow> int option" where
  "preview_epoch url =
     (case strstr url preview_key of
        None \<Rightarrow> None
      | Some p \<Rightarrow>
          if p = 0 \<or> url ! (p - 1) = CHR ''?'' \<or> url ! (p - 1) = CHR ''&'' then
            (let e = atoi (drop (p + length preview_key) url)
             in if EPOCH_WML \<le> e \<and> e \<le> EPOCH_MODERN then Some e else None)
          else None)"

definition resolve_epoch :: "RouteEnv \<Rightarrow> HttpRequest \<Rightarrow> int" where
  "resolve_epoch env req =
     (if EPOCH_WML \<le> re_force_epoch env \<and> re_force_epoch env \<le> EPOCH_MODERN then re_force_epoch env
      else case preview_epoch (req_url req) of
             Some e \<Rightarrow> e
           | None \<Rightarrow>
               if is_http09_request req then EPOCH_PRESTANDARD
               else detect_epoch (re_rules_ready env) (get_header_value req ''User-Agent'') (re_rules env))"

definition dashboard_allowed :: "RouteEnv \<Rightarrow> HttpRequest \<Rightarrow> int \<Rightarrow> bool" where
  "dashboard_allowed env req epoch \<longleftrightarrow>
     epoch = EPOCH_MODERN \<and> detect_dashboard (re_rules_ready env) (get_header_value req ''User-Agent'') (re_rules env)"

subsection \<open>Answers\<close>

definition send_html_fragment :: "string \<Rightarrow> string list" where
  "send_html_fragment html =
     [fit 256 (''HTTP/1.1 200 OK'' @ CRLF @ ''Content-Type: text/html; charset=UTF-8'' @ CRLF
        @ ''Content-Length: '' @ show_nat (length html) @ CRLF @ ''X-Content-Type-Options: nosniff'' @ CRLF @ CRLF), html]"

definition send_simple :: "string \<Rightarrow> string \<Rightarrow> string list" where
  "send_simple status body =
     [fit 512 (''HTTP/1.1 '' @ status @ CRLF @ ''Content-Type: text/html; charset=UTF-8'' @ CRLF
        @ ''Content-Length: '' @ show_nat (length body) @ CRLF @ ''X-Content-Type-Options: nosniff'' @ CRLF
        @ ''Connection: close'' @ CRLF @ CRLF), body]"

definition send_error_response :: "RouteEnv \<Rightarrow> nat \<Rightarrow> string \<Rightarrow> int \<Rightarrow> string list" where
  "send_error_response env status_code status_line epoch =
     (let title = fit 64 (''{{SITE_NAME}} - Error '' @ show_nat status_code) in
      case re_error_page env epoch status_code None title of
        None \<Rightarrow> send_simple status_line status_line
      | Some body \<Rightarrow> [build_epoch_response_status (re_fixups env) body [] epoch status_line])"

definition head_only :: "string \<Rightarrow> string" where
  "head_only response = (case strstr response header_end of None \<Rightarrow> response | Some i \<Rightarrow> take (i + 4) response)"

definition send_or_error :: "RouteEnv \<Rightarrow> string option \<Rightarrow> string \<Rightarrow> int \<Rightarrow> string list" where
  "send_or_error env response method epoch =
     (case response of
        None \<Rightarrow> send_error_response env 500 ''500 Internal Server Error'' epoch
      | Some r \<Rightarrow> [if method = ''HEAD'' then head_only r else r])"

definition redirect :: "RouteEnv \<Rightarrow> HttpRequest \<Rightarrow> int \<Rightarrow> string \<Rightarrow> string list" where
  "redirect env req epoch location =
     send_or_error env (build_redirect_response (re_redirect_page env) (re_fixups env) location [] epoch) (req_method req) epoch"

subsection \<open>Methods, routes and roles\<close>

definition is_safe_method :: "string \<Rightarrow> bool" where
  "is_safe_method method \<longleftrightarrow> method = ''GET'' \<or> method = ''HEAD'' \<or> method = ''OPTIONS''"

definition url_path_is :: "string \<Rightarrow> string \<Rightarrow> bool" where
  "url_path_is url path \<longleftrightarrow> prefix path url \<and> (length url = length path \<or> url ! length path = CHR ''?'')"

definition is_read_only_post :: "string \<Rightarrow> bool" where
  "is_read_only_post url \<longleftrightarrow>
     url_path_is url ''/dashboard/api/block-preview'' \<or> url_path_is url ''/dashboard/api/browsers/preview''"

definition role_may_open :: "string \<Rightarrow> string \<Rightarrow> bool" where
  "role_may_open role url =
     (if role = ''commenter'' then False
      else if role \<noteq> ''moderator'' then True
      else
        let path = takeWhile (\<lambda>c. c \<noteq> CHR ''?'' \<and> c \<noteq> CHR ''#'') url; n = length path in
        if n = 10 \<and> prefix ''/dashboard'' url then True
        else n \<ge> 19 \<and> prefix ''/dashboard/comments'' url \<and> (n = 19 \<or> url ! 19 = CHR ''/''))"

definition role_sees_everything :: "string \<Rightarrow> bool" where
  "role_sees_everything role \<longleftrightarrow> role = ''admin'' \<or> role = ''viewer''"

definition role_may_reply :: "string \<Rightarrow> bool" where
  "role_may_reply role \<longleftrightarrow> role = ''admin'' \<or> role = ''author''"

definition comments_tab :: "string option \<Rightarrow> string" where
  "comments_tab back = (case back of Some b \<Rightarrow> if b \<in> set [''approved'', ''rejected'', ''unverified''] then b else ''pending'' | None \<Rightarrow> ''pending'')"

definition can_edit_entry :: "string \<Rightarrow> string \<Rightarrow> string \<Rightarrow> string \<Rightarrow> bool" where
  "can_edit_entry role user_id entry_type created_by \<longleftrightarrow>
     (if role_sees_everything role then True else role = ''author'' \<and> entry_type = ''blog'' \<and> created_by = user_id)"

definition is_site_content_route :: "string \<Rightarrow> bool" where
  "is_site_content_route url \<longleftrightarrow>
     url = ''/'' \<or> prefix ''/page/'' url \<or> url = ''/blog'' \<or> prefix ''/blog/'' url \<or> url = ''/menu'' \<or> url = ''/search''"

subsection \<open>The check of every dashboard route\<close>

definition body_csrf_token :: "HttpRequest \<Rightarrow> nat \<Rightarrow> string" where
  "body_csrf_token req out_size =
     (case get_header_value req ''Content-Type'' of
        None \<Rightarrow> []
      | Some ct \<Rightarrow>
          if prefix_ci ''application/x-www-form-urlencoded'' ct then snd (parse_urlencoded_field (req_body req) CSRF_FIELD_NAME out_size)
          else if prefix_ci ''multipart/form-data'' ct then
            (case Option.bind (req_body req) (\<lambda>b. parse_multipart b (Some ct)) of
               None \<Rightarrow> []
             | Some mp \<Rightarrow> (case multipart_find mp CSRF_FIELD_NAME of None \<Rightarrow> [] | Some part \<Rightarrow> cstr (fit out_size (part_data part))))
          else [])"

definition request_csrf_token_value :: "HttpRequest \<Rightarrow> nat \<Rightarrow> string" where
  "request_csrf_token_value req out_size =
     (case get_header_value req CSRF_HEADER_NAME of
        None \<Rightarrow> body_csrf_token req out_size
      | Some h \<Rightarrow> if h = [] then body_csrf_token req out_size else fit out_size h)"

definition cookie_of :: "HttpRequest \<Rightarrow> string option" where
  "cookie_of req = get_header_value req ''Cookie''"

definition session_user :: "RouteEnv \<Rightarrow> HttpRequest \<Rightarrow> string option" where
  "session_user env req =
     (case validate_session_cookie (re_db env) (re_now env) (cookie_of req) (re_sessions env) of
        (r, u) \<Rightarrow> if r = 1 then u else None)"

definition maintenance_locks_out :: "RouteEnv \<Rightarrow> string \<Rightarrow> bool" where
  "maintenance_locks_out env user_id =
     (if \<not> re_under_construction env then False
      else case re_role env user_id of None \<Rightarrow> True | Some role \<Rightarrow> role \<noteq> ''admin'')"

text \<open>What a handler did before it returned: its writes, the sessions, and the signed-in user if it may go on.\<close>

record Guard =
  g_writes :: "string list"
  g_sessions :: Sessions
  g_user :: "(string \<times> string) option"

definition refuse :: "RouteEnv \<Rightarrow> string list \<Rightarrow> Guard" where
  "refuse env ws = \<lparr>g_writes = ws, g_sessions = re_sessions env, g_user = None\<rparr>"

definition MAINTENANCE_LOGIN_MESSAGE :: string where
  "MAINTENANCE_LOGIN_MESSAGE = ''The site is under maintenance: only administrators can sign in right now.''"

definition json_error :: "string \<Rightarrow> string" where
  "json_error msg = CHR ''{'' # DQ # ''ok'' @ DQ # '':false,'' @ DQ # ''error'' @ DQ # '':'' @ DQ # msg @ DQ # ''}''"

definition is_api_url :: "string \<Rightarrow> bool" where
  "is_api_url url \<longleftrightarrow> prefix ''/dashboard/api/'' url"

definition send_maintenance_lockout :: "RouteEnv \<Rightarrow> HttpRequest \<Rightarrow> int \<Rightarrow> Guard" where
  "send_maintenance_lockout env req epoch =
     (let s = (case extract_session_token (cookie_of req) SESSION_TOKEN_BUF_SIZE of
                 None \<Rightarrow> re_sessions env
               | Some token \<Rightarrow> snd (destroy_session (re_db env) token (re_sessions env)));
          response =
            (if is_api_url (req_url req)
             then Some (build_json_response_status (json_error MAINTENANCE_LOGIN_MESSAGE) ''503 Service Unavailable'')
             else map_option (\<lambda>body. build_epoch_response_status (re_fixups env) body
                    (build_session_clear_cookie_header (re_ssl_enabled env) 128) epoch ''503 Service Unavailable'')
                    (re_login_page env epoch MAINTENANCE_LOGIN_MESSAGE))
      in \<lparr>g_writes = send_or_error env response (req_method req) epoch, g_sessions = s, g_user = None\<rparr>)"

definition READ_ONLY_MESSAGE :: string where
  "READ_ONLY_MESSAGE = ''This is a read-only account: it can open every page and see every value, but it can'' @ SQ # ''t save changes.''"

definition send_read_only_refusal :: "RouteEnv \<Rightarrow> HttpRequest \<Rightarrow> int \<Rightarrow> string list" where
  "send_read_only_refusal env req epoch =
     (if is_api_url (req_url req)
      then send_or_error env (Some (build_json_response_status (json_error ''read-only account'') ''403 Forbidden'')) (req_method req) epoch
      else send_or_error env
             (map_option (\<lambda>body. build_epoch_response_status (re_fixups env) body [] epoch ''403 Forbidden'')
               (re_error_page env epoch 403 (Some READ_ONLY_MESSAGE) ''{{SITE_NAME}} - Dashboard''))
             (req_method req) epoch)"

definition CSRF_REFUSAL :: string where
  "CSRF_REFUSAL = ''Invalid or missing CSRF token. Reload the page and try again.''"

definition require_dashboard_session_ex :: "RouteEnv \<Rightarrow> HttpRequest \<Rightarrow> int \<Rightarrow> Guard" where
  "require_dashboard_session_ex env req epoch =
     (if \<not> re_db_ready env then refuse env (send_error_response env 503 ''503 Service Unavailable'' epoch)
      else case session_user env req of
        None \<Rightarrow> refuse env (redirect env req epoch ''/login'')
      | Some user \<Rightarrow>
          if maintenance_locks_out env user then send_maintenance_lockout env req epoch
          else case re_role env user of
            None \<Rightarrow> refuse env (redirect env req epoch ''/login'')
          | Some role \<Rightarrow>
              if \<not> role_may_open role (req_url req)
              then refuse env (redirect env req epoch (if role = ''moderator'' then ''/dashboard'' else ''/''))
              else if \<not> is_safe_method (req_method req)
                      \<and> \<not> verify_csrf_token (re_lib env) (cookie_of req) (Some (request_csrf_token_value req (CSRF_TOKEN_BUF_SIZE + 1)))
              then refuse env (send_simple ''403 Forbidden'' CSRF_REFUSAL)
              else if \<not> is_safe_method (req_method req) \<and> \<not> is_read_only_post (req_url req) \<and> role = ''viewer''
              then refuse env (send_read_only_refusal env req epoch)
              else \<lparr>g_writes = [], g_sessions = re_sessions env, g_user = Some (user, role)\<rparr>)"

definition require_dashboard_session :: "RouteEnv \<Rightarrow> HttpRequest \<Rightarrow> int \<Rightarrow> Guard" where
  "require_dashboard_session env req epoch = require_dashboard_session_ex env req epoch"

definition require_dashboard_session_role :: "RouteEnv \<Rightarrow> HttpRequest \<Rightarrow> int \<Rightarrow> Guard" where
  "require_dashboard_session_role env req epoch = require_dashboard_session_ex env req epoch"

definition require_admin_session :: "RouteEnv \<Rightarrow> HttpRequest \<Rightarrow> int \<Rightarrow> Guard" where
  "require_admin_session env req epoch =
     (let g = require_dashboard_session_role env req epoch in
      case g_user g of
        None \<Rightarrow> g
      | Some (user, role) \<Rightarrow>
          if \<not> role_sees_everything role then refuse env (redirect env req epoch ''/dashboard'') else g)"

definition viewer_can_preview_drafts :: "RouteEnv \<Rightarrow> HttpRequest \<Rightarrow> bool" where
  "viewer_can_preview_drafts env req =
     (if \<not> re_db_ready env then False
      else case session_user env req of
             None \<Rightarrow> False
           | Some user \<Rightarrow>
               (case re_role env user of None \<Rightarrow> False | Some role \<Rightarrow> role \<noteq> ''moderator'' \<and> role \<noteq> ''commenter''))"

text \<open>\<open>user_values\<close>: the email of a user, if it is found.\<close>

definition confirm_password ::
  "(string \<Rightarrow> string \<Rightarrow> bool) \<Rightarrow> Db \<Rightarrow> UserDoc list \<Rightarrow> (string \<Rightarrow> string option) \<Rightarrow> HttpRequest \<Rightarrow> string \<Rightarrow> bool"
where
  "confirm_password pwhash_verify db users user_values req user_id =
     (let password = snd (parse_urlencoded_field (req_body req) ''password'' 256) in
      if password = [] then False
      else case user_values user_id of
             None \<Rightarrow> False
           | Some email \<Rightarrow> auth_login_user pwhash_verify db users email password = Some user_id)"


subsection \<open>The check as a rule\<close>

definition csrf_carried :: "RouteEnv \<Rightarrow> HttpRequest \<Rightarrow> bool" where
  "csrf_carried env req \<longleftrightarrow>
     verify_csrf_token (re_lib env) (cookie_of req) (Some (request_csrf_token_value req (CSRF_TOKEN_BUF_SIZE + 1)))"

lemma guard_granted:
  "g_user (require_dashboard_session_ex env req epoch) = Some (user, role) \<longleftrightarrow>
     re_db_ready env \<and> session_user env req = Some user \<and> re_role env user = Some role
     \<and> (re_under_construction env \<longrightarrow> role = ''admin'') \<and> role_may_open role (req_url req)
     \<and> (is_safe_method (req_method req) \<or> csrf_carried env req \<and> (role = ''viewer'' \<longrightarrow> is_read_only_post (req_url req)))"
proof (cases "session_user env req")
  case None
  then show ?thesis by (simp add: require_dashboard_session_ex_def refuse_def)
next
  case user: (Some u)
  have lock: "g_user (send_maintenance_lockout env req epoch) = None" by (simp add: send_maintenance_lockout_def Let_def)
  show ?thesis
  proof (cases "re_role env u")
    case None
    then show ?thesis using user lock by (auto simp: require_dashboard_session_ex_def refuse_def maintenance_locks_out_def)
  next
    case (Some r)
    show ?thesis unfolding require_dashboard_session_ex_def user option.case Some refuse_def maintenance_locks_out_def
        csrf_carried_def [symmetric] using Some lock by auto
  qed
qed

lemma guard_granted_silent:
  assumes "g_user (require_dashboard_session_ex env req epoch) = Some v"
  shows "g_writes (require_dashboard_session_ex env req epoch) = [] \<and> g_sessions (require_dashboard_session_ex env req epoch) = re_sessions env"
proof (cases "session_user env req")
  case None
  then show ?thesis using assms by (simp add: require_dashboard_session_ex_def refuse_def split: if_splits)
next
  case (Some u)
  show ?thesis
  proof (cases "re_role env u")
    case None
    then show ?thesis using assms Some
      by (simp add: require_dashboard_session_ex_def refuse_def send_maintenance_lockout_def Let_def split: if_splits)
  next
    case role: (Some r)
    have c: "re_db_ready env" "re_under_construction env \<longrightarrow> r = ''admin''" "role_may_open r (req_url req)"
      "is_safe_method (req_method req) \<or> csrf_carried env req \<and> (r = ''viewer'' \<longrightarrow> is_read_only_post (req_url req))"
      using assms guard_granted [of env req epoch "fst v" "snd v"] Some role by (cases v; auto)+
    then show ?thesis using Some role
      unfolding require_dashboard_session_ex_def maintenance_locks_out_def csrf_carried_def [symmetric] by auto
  qed
qed

text \<open>An answer: one response, or a header and its body, that starts with the status.\<close>

definition answers :: "string list \<Rightarrow> string list \<Rightarrow> bool" where
  "answers statuses ws \<longleftrightarrow>
     (\<exists>status\<in>set statuses. \<exists>w rest. ws = (''HTTP/1.1 '' @ status @ CRLF @ w) # rest \<and> length rest \<le> 1)"

lemma answersI: "status \<in> set statuses \<Longrightarrow> length rest \<le> 1 \<Longrightarrow> answers statuses ((''HTTP/1.1 '' @ status @ CRLF @ w) # rest)"
  unfolding answers_def by blast

lemma answers_mono: "answers st ws \<Longrightarrow> set st \<subseteq> set st' \<Longrightarrow> answers st' ws"
  unfolding answers_def by blast

lemma head_only_status:
  assumes "CR \<notin> set l"
  shows "\<exists>w'. head_only (l @ CRLF @ w) = l @ CRLF @ w'"
proof (cases "strstr (CRLF @ w) header_end")
  case None
  then have "strstr (l @ CRLF @ w) header_end = None" using strstr_skip [OF assms, of "CRLF @ w" "[LF, CR, LF]"] by (simp add: header_end_def)
  then show ?thesis by (simp add: head_only_def)
next
  case (Some k)
  then have "strstr (l @ CRLF @ w) header_end = Some (length l + k)"
    using strstr_skip [OF assms, of "CRLF @ w" "[LF, CR, LF]"] by (simp add: header_end_def)
  then have "head_only (l @ CRLF @ w) = l @ take (k + 4) (CRLF @ w)" by (simp add: head_only_def)
  also have "take (k + 4) (CRLF @ w) = CRLF @ take (k + 2) w" by (simp add: take_Cons')
  finally show ?thesis by blast
qed

lemma send_simple_answers:
  assumes "length status \<le> 60"
  shows "answers [status] (send_simple status body)"
proof -
  let ?w = "''Content-Type: text/html; charset=UTF-8'' @ CRLF @ ''Content-Length: '' @ show_nat (length body) @ CRLF @ ''X-Content-Type-Options: nosniff'' @ CRLF
        @ ''Connection: close'' @ CRLF @ CRLF"
  have "fit 512 (''HTTP/1.1 '' @ status @ CRLF @ ?w) = ''HTTP/1.1 '' @ status @ CRLF @ take (511 - (11 + length status)) ?w"
    using assms by (simp add: fit_def take_Cons')
  then show ?thesis unfolding send_simple_def using answersI [of status "[status]" "[body]"] by simp
qed

lemma error_answers:
  assumes "length status \<le> 60"
  shows "answers [status] (send_error_response env code status epoch)"
proof (cases "re_error_page env epoch code None (fit 64 (''{{SITE_NAME}} - Error '' @ show_nat code))")
  case None
  then show ?thesis using send_simple_answers [OF assms] by (simp add: send_error_response_def)
next
  case (Some body)
  then show ?thesis using answersI [of status "[status]" "[]"] by (simp add: send_error_response_def build_epoch_response_status_def Let_def)
qed

lemma send_or_error_answers:
  assumes "CR \<notin> set status" "\<And>r. response = Some r \<Longrightarrow> \<exists>w. r = ''HTTP/1.1 '' @ status @ CRLF @ w"
  shows "answers [status, ''500 Internal Server Error''] (send_or_error env response method epoch)"
proof (cases response)
  case None
  have "answers [''500 Internal Server Error''] (send_error_response env 500 ''500 Internal Server Error'' epoch)"
    by (rule error_answers) simp
  then show ?thesis using None by (auto simp: send_or_error_def intro: answers_mono)
next
  case (Some r)
  then obtain w where w: "r = (''HTTP/1.1 '' @ status) @ CRLF @ w" using assms(2) by auto
  have "CR \<notin> set (''HTTP/1.1 '' @ status)" using assms(1) by simp
  then obtain w' where "head_only r = (''HTTP/1.1 '' @ status) @ CRLF @ w'" using head_only_status w by blast
  then show ?thesis using Some w answersI [of status "[status, ''500 Internal Server Error'']" "[]"] by (simp add: send_or_error_def)
qed

lemma redirect_answers: "answers [''302 Found'', ''500 Internal Server Error''] (redirect env req epoch location)"
  unfolding redirect_def
  by (rule send_or_error_answers) (auto simp: build_redirect_response_def redirect_response_to_def Let_def)

lemma lockout_answers: "answers [''503 Service Unavailable'', ''500 Internal Server Error''] (g_writes (send_maintenance_lockout env req epoch))"
  unfolding send_maintenance_lockout_def Let_def Guard.simps
  by (rule send_or_error_answers) (auto simp: build_epoch_response_status_def build_json_response_status_def Let_def split: if_splits)

lemma read_only_answers: "answers [''403 Forbidden'', ''500 Internal Server Error''] (send_read_only_refusal env req epoch)"
  unfolding send_read_only_refusal_def
  by (auto intro!: send_or_error_answers simp: build_epoch_response_status_def build_json_response_status_def Let_def)

definition REFUSALS :: "string list" where
  "REFUSALS = [''302 Found'', ''403 Forbidden'', ''503 Service Unavailable'', ''500 Internal Server Error'']"

lemma guard_refused:
  assumes "g_user (require_dashboard_session_ex env req epoch) = None"
  shows "answers REFUSALS (g_writes (require_dashboard_session_ex env req epoch))"
proof -
  have a: "answers REFUSALS (redirect env req epoch l)" for l
    by (rule answers_mono [OF redirect_answers]) (simp add: REFUSALS_def)
  moreover have "answers REFUSALS (g_writes (send_maintenance_lockout env req epoch))"
    by (rule answers_mono [OF lockout_answers]) (simp add: REFUSALS_def)
  moreover have "answers REFUSALS (send_read_only_refusal env req epoch)"
    by (rule answers_mono [OF read_only_answers]) (simp add: REFUSALS_def)
  moreover have "answers REFUSALS (send_simple ''403 Forbidden'' b)" for b
    by (rule answers_mono [OF send_simple_answers]) (simp_all add: REFUSALS_def)
  moreover have "answers REFUSALS (send_error_response env 503 ''503 Service Unavailable'' epoch)"
    by (rule answers_mono [OF error_answers]) (simp_all add: REFUSALS_def)
  ultimately show ?thesis using assms
    by (cases "session_user env req"; cases "re_role env (the (session_user env req))")
      (simp_all add: require_dashboard_session_ex_def refuse_def split: if_splits)
qed


subsection \<open>The check reads the address as sent, the router as decoded\<close>

lemma url_decode_plain_app: "list_all (\<lambda>c. c \<noteq> CHR ''%'' \<and> c \<noteq> CHR ''+'') p \<Longrightarrow> url_decode (p @ s) = p @ url_decode s"
  by (induction p) simp_all

lemma url_decode_plain_id: "list_all (\<lambda>c. c \<noteq> CHR ''%'' \<and> c \<noteq> CHR ''+'') p \<Longrightarrow> url_decode p = p"
  using url_decode_plain_app [of p "[]"] by simp

definition route_of :: "string \<Rightarrow> string" where
  "route_of url = url_decode (fst (url_parse (fit 2048 url) 2048))"

lemma route_path:
  assumes "length url < 2048"
  shows "fst (url_parse (fit 2048 url) 2048) = takeWhile (\<lambda>c. c \<noteq> CHR ''?'' \<and> c \<noteq> CHR ''#'') url"
proof -
  let ?t = "takeWhile (\<lambda>c. c \<noteq> CHR ''#'') url"
  have u: "fit 2048 url = url" using assms by (rule fit_id)
  have len: "length ?t < 2048" using assms length_takeWhile_le [of "\<lambda>c. c \<noteq> CHR ''#''" url] by linarith
  have tt: "takeWhile (\<lambda>c. c \<noteq> CHR ''?'') ?t = takeWhile (\<lambda>c. c \<noteq> CHR ''?'' \<and> c \<noteq> CHR ''#'') url"
    by (induction url) auto
  show ?thesis
  proof (cases "strchr ?t CHR ''?''")
    case None
    then have "takeWhile (\<lambda>c. c \<noteq> CHR ''?'') ?t = ?t" by (auto simp: strchr_None takeWhile_eq_all_conv)
    then show ?thesis using None u len tt by (simp add: url_parse_def Let_def fit_id)
  next
    case (Some q)
    then have "take q ?t = takeWhile (\<lambda>c. c \<noteq> CHR ''?'') ?t" by (rule strchr_takeWhile)
    moreover have "length (take q ?t) < 2048" using len by simp
    ultimately show ?thesis using Some u tt by (simp add: url_parse_def Let_def fit_id)
  qed
qed

lemma route_prefix:
  assumes "length url < 2048" "takeWhile (\<lambda>c. c \<noteq> CHR ''?'' \<and> c \<noteq> CHR ''#'') url = p @ r"
    "list_all (\<lambda>c. c \<noteq> CHR ''%'' \<and> c \<noteq> CHR ''+'') p"
  shows "route_of url = p @ url_decode r"
  using route_path [OF assms(1)] assms(2,3) by (simp add: route_of_def url_decode_plain_app)

lemma path_append:
  assumes "list_all (\<lambda>c. c \<noteq> CHR ''?'' \<and> c \<noteq> CHR ''#'') p"
  shows "takeWhile (\<lambda>c. c \<noteq> CHR ''?'' \<and> c \<noteq> CHR ''#'') (p @ t) = p @ takeWhile (\<lambda>c. c \<noteq> CHR ''?'' \<and> c \<noteq> CHR ''#'') t"
  using assms by (intro takeWhile_append2) (simp add: list_all_iff)

lemma takeWhile_prefix_path:
  assumes "prefix p url" "list_all (\<lambda>c. c \<noteq> CHR ''?'' \<and> c \<noteq> CHR ''#'') p"
  shows "\<exists>r. takeWhile (\<lambda>c. c \<noteq> CHR ''?'' \<and> c \<noteq> CHR ''#'') url = p @ r"
proof -
  obtain t where "url = p @ t" using assms(1) prefixE by blast
  then show ?thesis using path_append [OF assms(2), of t] by blast
qed

lemma moderator_path:
  assumes "role_may_open ''moderator'' url" "length url < 2048"
  shows "route_of url = ''/dashboard'' \<or> route_of url = ''/dashboard/comments'' \<or> prefix ''/dashboard/comments/'' (route_of url)"
proof -
  let ?path = "takeWhile (\<lambda>c. c \<noteq> CHR ''?'' \<and> c \<noteq> CHR ''#'') url"
  consider (home) "length ?path = 10" "prefix ''/dashboard'' url"
    | (list) "length ?path = 19" "prefix ''/dashboard/comments'' url"
    | (below) "length ?path \<ge> 19" "prefix ''/dashboard/comments'' url" "url ! 19 = CHR ''/''" "length ?path \<noteq> 19"
    using assms(1) by (auto simp: role_may_open_def Let_def split: if_splits)
  then show ?thesis
  proof cases
    case home
    obtain r where r: "?path = ''/dashboard'' @ r" using takeWhile_prefix_path [OF home(2)] by auto
    then have "r = []" using home(1) by simp
    then show ?thesis using route_prefix [OF assms(2) r] by simp
  next
    case list
    obtain r where r: "?path = ''/dashboard/comments'' @ r" using takeWhile_prefix_path [OF list(2)] by auto
    then have "r = []" using list(1) by simp
    then show ?thesis using route_prefix [OF assms(2) r] by simp
  next
    case below
    obtain t where t: "url = ''/dashboard/comments'' @ t" using below(2) prefixE by blast
    have "t \<noteq> []"
    proof
      assume "t = []"
      then have "?path = ''/dashboard/comments''" using t by simp
      then show False using below(4) by simp
    qed
    then obtain c w where cw: "t = c # w" by (cases t) auto
    have "(''/dashboard/comments'' @ t) ! length ''/dashboard/comments'' = hd t" using cw by (simp only: nth_append_length list.sel)
    then have "c = CHR ''/''" using below(3) t cw by simp
    then have "url = ''/dashboard/comments/'' @ w" using t cw by simp
    then have "prefix ''/dashboard/comments/'' url" unfolding prefix_def by blast
    then obtain r where r: "?path = ''/dashboard/comments/'' @ r" using takeWhile_prefix_path by force
    then show ?thesis using route_prefix [OF assms(2) r] by simp
  qed
qed

lemma path_is_route:
  assumes "url_path_is url p" "length url < 2048" "list_all (\<lambda>c. c \<noteq> CHR ''?'' \<and> c \<noteq> CHR ''#'' \<and> c \<noteq> CHR ''%'' \<and> c \<noteq> CHR ''+'') p"
  shows "route_of url = p"
proof -
  obtain t where t: "url = p @ t" using assms(1) by (auto simp: url_path_is_def prefix_def)
  then have "t = [] \<or> hd t = CHR ''?''" using assms(1) by (cases t) (auto simp: url_path_is_def)
  then have "takeWhile (\<lambda>c. c \<noteq> CHR ''?'' \<and> c \<noteq> CHR ''#'') url = p @ []"
  proof -
    have "list_all (\<lambda>c. c \<noteq> CHR ''?'' \<and> c \<noteq> CHR ''#'') p" using assms(3) by (simp add: list_all_iff)
    from path_append [OF this, of t] show ?thesis using t \<open>t = [] \<or> hd t = CHR ''?''\<close> by (cases t) auto
  qed
  then show ?thesis using route_prefix [OF assms(2), of p "[]"] assms(3) by (auto simp: list_all_iff)
qed


subsection \<open>Properties\<close>

text \<open>
  C6. The check every dashboard route starts with lets a request on as a user with a role exactly when
  the database is there, the cookie holds a session of the user, the role can be read and may open
  the address, the site is not under maintenance or the user is an administrator, and, unless
  the method only reads, the request carries the token of its session and is not a viewer's
  outside the two computations that store nothing.
\<close>

theorem dashboard_guard_iff:
  "g_user (require_dashboard_session_ex env req epoch) = Some (user, role) \<longleftrightarrow>
     re_db_ready env \<and> session_user env req = Some user \<and> re_role env user = Some role
     \<and> (re_under_construction env \<longrightarrow> role = ''admin'') \<and> role_may_open role (req_url req)
     \<and> (is_safe_method (req_method req) \<or> csrf_carried env req \<and> (role = ''viewer'' \<longrightarrow> is_read_only_post (req_url req)))"
  by (rule guard_granted)

text \<open>
  C23. The check either lets a request on and has written nothing, or refuses it with one answer: a
  redirection, 403, 503, or 500 when a template is missing. Sessions change in a refusal only, and
  only by the end of the session the request carries.
\<close>

theorem dashboard_guard_answers:
  "(case g_user (require_dashboard_session_ex env req epoch) of
      Some v \<Rightarrow> g_writes (require_dashboard_session_ex env req epoch) = []
    | None \<Rightarrow> answers REFUSALS (g_writes (require_dashboard_session_ex env req epoch)))
   \<and> (g_sessions (require_dashboard_session_ex env req epoch) = re_sessions env
      \<or> (\<exists>t. extract_session_token (cookie_of req) SESSION_TOKEN_BUF_SIZE = Some t
           \<and> g_sessions (require_dashboard_session_ex env req epoch) = snd (destroy_session (re_db env) t (re_sessions env))))"
proof -
  have "g_sessions (require_dashboard_session_ex env req epoch) = re_sessions env
      \<or> (\<exists>t. extract_session_token (cookie_of req) SESSION_TOKEN_BUF_SIZE = Some t
           \<and> g_sessions (require_dashboard_session_ex env req epoch) = snd (destroy_session (re_db env) t (re_sessions env)))"
  proof -
    have "g_sessions (send_maintenance_lockout env req epoch) = re_sessions env
      \<or> (\<exists>t. extract_session_token (cookie_of req) SESSION_TOKEN_BUF_SIZE = Some t
           \<and> g_sessions (send_maintenance_lockout env req epoch) = snd (destroy_session (re_db env) t (re_sessions env)))"
      by (auto simp: send_maintenance_lockout_def Let_def split: option.splits)
    moreover have "g_sessions (require_dashboard_session_ex env req epoch) = re_sessions env
      \<or> require_dashboard_session_ex env req epoch = send_maintenance_lockout env req epoch"
      by (auto simp: require_dashboard_session_ex_def refuse_def split: option.splits)
    ultimately show ?thesis by metis
  qed
  then show ?thesis using guard_refused [of env req epoch] guard_granted_silent [of env req epoch] by (auto split: option.splits)
qed

text \<open>
  C14. What the roles reach: the check reads the address as it was sent, the router compares it decoded,
  and they agree on every address shorter than the router's array. A commenter is never let on; a moderator
  only to the home of the dashboard, to /dashboard/comments and to the addresses below it; and a viewer, with
  a method other than GET, HEAD or OPTIONS, only to /dashboard/api/block-preview and /dashboard/api/browsers/preview.
\<close>


theorem roles_kept:
  assumes "g_user (require_dashboard_session_ex env req epoch) = Some (user, role)" "length (req_url req) < 2048"
  shows "role \<noteq> ''commenter''
    \<and> (role = ''moderator'' \<longrightarrow> route_of (req_url req) = ''/dashboard'' \<or> route_of (req_url req) = ''/dashboard/comments''
         \<or> prefix ''/dashboard/comments/'' (route_of (req_url req)))
    \<and> (role = ''viewer'' \<and> \<not> is_safe_method (req_method req) \<longrightarrow>
         route_of (req_url req) = ''/dashboard/api/block-preview'' \<or> route_of (req_url req) = ''/dashboard/api/browsers/preview'')"
proof -
  have g: "role_may_open role (req_url req)"
    "is_safe_method (req_method req) \<or> csrf_carried env req \<and> (role = ''viewer'' \<longrightarrow> is_read_only_post (req_url req))"
    using assms(1) by (simp_all add: guard_granted)
  have "role \<noteq> ''commenter''" using g(1) by (auto simp: role_may_open_def)
  moreover have "is_read_only_post (req_url req) \<Longrightarrow>
      route_of (req_url req) = ''/dashboard/api/block-preview'' \<or> route_of (req_url req) = ''/dashboard/api/browsers/preview''"
    using path_is_route [OF _ assms(2)] by (auto simp: is_read_only_post_def)
  ultimately show ?thesis using g moderator_path [OF _ assms(2)] by blast
qed

definition example_env :: RouteEnv where
  "example_env = \<lparr>re_lib = toy_lib, re_db_ready = True, re_db = Db_Works, re_now = 4000,
     re_sessions = run_sessions toy_lib example_history, re_role = (\<lambda>u. Some ''moderator''), re_under_construction = False,
     re_force_epoch = 3, re_rules_ready = False, re_rules = None, re_ssl_enabled = False, re_fixups = plain_fixups,
     re_error_page = (\<lambda>e c m t. None), re_login_page = (\<lambda>e m. None), re_redirect_page = (\<lambda>l e. None)\<rparr>"

definition example_post :: HttpRequest where
  "example_post = \<lparr>req_method = ''POST'', req_url = ''/dashboard/comments/7/approve?x=1'', req_protocol = ''HTTP/1.1'',
     req_headers = [\<lparr>hkey = ''Cookie'', hval = ''session=t2''\<rparr>, \<lparr>hkey = ''X-CSRF-Token'', hval = hex_of (replicate 32 2)\<rparr>],
     req_body = None\<rparr>"

theorem roles_kept_witness:
  "prefix ''/dashboard/comments/'' (route_of (req_url example_post))
   \<and> g_user (require_dashboard_session_ex example_env example_post 3) = Some (''0123456789abcdef01234567'', ''moderator'')"
proof -
  have g: "g_user (require_dashboard_session_ex example_env example_post 3) = Some (''0123456789abcdef01234567'', ''moderator'')"
    by code_simp
  have "length (req_url example_post) < 2048" "route_of (req_url example_post) \<noteq> ''/dashboard''" "route_of (req_url example_post) \<noteq> ''/dashboard/comments''"
    by (simp add: example_post_def, code_simp, code_simp)
  then show ?thesis using roles_kept [OF g] g by blast
qed

theorem dashboard_guard_iff_witness:
  "session_user example_env example_post = Some ''0123456789abcdef01234567'' \<and> csrf_carried example_env example_post"
proof -
  have "g_user (require_dashboard_session_ex example_env example_post 3) = Some (''0123456789abcdef01234567'', ''moderator'')"
    by code_simp
  moreover have "\<not> is_safe_method (req_method example_post)" by code_simp
  ultimately show ?thesis by (simp only: dashboard_guard_iff simp_thms)
qed

subsection \<open>Extensions\<close>

definition EXTENSION_ROUTE_PREFIX :: string where "EXTENSION_ROUTE_PREFIX = ''/dashboard/ext/''"
definition EXTENSION_NAME_MAX :: nat where "EXTENSION_NAME_MAX = 31"

definition extension_status_line :: "int \<Rightarrow> string" where
  "extension_status_line status =
     (if status = 200 then ''200 OK'' else if status = 201 then ''201 Created'' else if status = 204 then ''204 No Content''
      else if status = 400 then ''400 Bad Request'' else if status = 403 then ''403 Forbidden'' else if status = 404 then ''404 Not Found''
      else if status = 409 then ''409 Conflict'' else if status = 413 then ''413 Content Too Large''
      else if status = 422 then ''422 Unprocessable Content'' else if status = 503 then ''503 Service Unavailable''
      else if status \<ge> 500 then ''500 Internal Server Error'' else if status \<ge> 400 then ''400 Bad Request'' else ''200 OK'')"

record ExtensionRequest =
  xq_method :: string
  xq_mount :: string
  xq_target :: string
  xq_content_type :: "string option"
  xq_body :: "string option"
  xq_user :: string
  xq_role :: string
  xq_epoch :: int

record ExtensionResponse =
  xs_status :: int
  xs_content_type :: string
  xs_title :: string
  xs_location :: string
  xs_body :: string

text \<open>The extensions known (title of an enabled one), what one answers to a request, and the page around its fragment.\<close>

record Extensions =
  ex_get :: "string \<Rightarrow> (string \<times> bool) option"
  ex_forward :: "string \<Rightarrow> ExtensionRequest \<Rightarrow> int + ExtensionResponse"
  ex_page :: "int \<Rightarrow> string \<Rightarrow> string \<Rightarrow> string option"

definition extension_answer :: "RouteEnv \<Rightarrow> Extensions \<Rightarrow> HttpRequest \<Rightarrow> int \<Rightarrow> string \<Rightarrow> string \<Rightarrow> ExtensionResponse \<Rightarrow> string list" where
  "extension_answer env ex req epoch info_title mount rs =
     (if 300 \<le> xs_status rs \<and> xs_status rs < 400 then
        (if site_relative (xs_location rs) \<and> BSL \<notin> set (xs_location rs)
         then redirect env req epoch (mount @ xs_location rs)
         else send_error_response env 502 ''502 Bad Gateway'' epoch)
      else if prefix_ci ''text/html'' (xs_content_type rs) then
        send_or_error env
          (map_option (\<lambda>body. build_epoch_response_status (re_fixups env) body [] epoch (extension_status_line (xs_status rs)))
            (ex_page ex epoch (fit 193 (''{{SITE_NAME}} - '' @ (if xs_title rs = [] then info_title else xs_title rs))) (xs_body rs)))
          (req_method req) epoch
      else if prefix_ci ''application/json'' (xs_content_type rs) then
        [(if req_method req = ''HEAD'' then head_only else id) (build_json_response_status (xs_body rs) (extension_status_line (xs_status rs)))]
      else send_error_response env 502 ''502 Bad Gateway'' epoch)"

definition serve_extension :: "RouteEnv \<Rightarrow> Extensions \<Rightarrow> HttpRequest \<Rightarrow> string \<Rightarrow> Guard" where
  "serve_extension env ex req decoded_url =
     (let epoch = resolve_epoch env req in
      if \<not> dashboard_allowed env req epoch then refuse env (redirect env req epoch ''/dashboard'')
      else let g = require_dashboard_session_role env req epoch in
        case g_user g of
          None \<Rightarrow> g
        | Some (user, role) \<Rightarrow>
            (let name = takeWhile (\<lambda>c. c \<noteq> CHR ''/'') (drop (length EXTENSION_ROUTE_PREFIX) decoded_url) in
             if name = [] \<or> length name \<ge> EXTENSION_NAME_MAX + 1 then refuse env (send_error_response env 404 ''404 Not Found'' epoch)
             else case ex_get ex name of
               None \<Rightarrow> refuse env (send_error_response env 404 ''404 Not Found'' epoch)
             | Some (info_title, is_on) \<Rightarrow>
                 if \<not> is_on then refuse env (send_error_response env 404 ''404 Not Found'' epoch)
                 else
                   let mount = EXTENSION_ROUTE_PREFIX @ name;
                       tail = drop (length mount) (req_url req);
                       target = fit 2048 ((if tail \<noteq> [] \<and> hd tail = CHR ''/'' then [] else ''/'') @ tail);
                       rq = \<lparr>xq_method = req_method req, xq_mount = mount, xq_target = target,
                             xq_content_type = get_header_value req ''Content-Type'', xq_body = req_body req,
                             xq_user = user, xq_role = role, xq_epoch = epoch\<rparr>
                   in case ex_forward ex name rq of
                        Inl rc \<Rightarrow> refuse env (if rc = -2 then send_error_response env 502 ''502 Bad Gateway'' epoch
                                                     else send_error_response env 503 ''503 Service Unavailable'' epoch)
                      | Inr rs \<Rightarrow> refuse env (extension_answer env ex req epoch info_title mount rs)))"


definition ext_name :: "string \<Rightarrow> string" where
  "ext_name decoded_url = takeWhile (\<lambda>c. c \<noteq> CHR ''/'') (drop (length EXTENSION_ROUTE_PREFIX) decoded_url)"

lemma serve_not_allowed:
  "\<not> dashboard_allowed env req (resolve_epoch env req) \<Longrightarrow>
     serve_extension env ex req u = refuse env (redirect env req (resolve_epoch env req) ''/dashboard'')"
  by (simp add: serve_extension_def Let_def)

lemma serve_refused:
  "dashboard_allowed env req (resolve_epoch env req) \<Longrightarrow> g_user (require_dashboard_session_ex env req (resolve_epoch env req)) = None \<Longrightarrow>
     serve_extension env ex req u = require_dashboard_session_ex env req (resolve_epoch env req)"
  by (simp add: serve_extension_def require_dashboard_session_role_def Let_def)

lemma serve_unknown:
  assumes "dashboard_allowed env req (resolve_epoch env req)"
    "g_user (require_dashboard_session_ex env req (resolve_epoch env req)) = Some (user, role)"
    "\<And>title. ex_get ex (ext_name u) \<noteq> Some (title, True)"
  shows "serve_extension env ex req u = refuse env (send_error_response env 404 ''404 Not Found'' (resolve_epoch env req))"
  using assms unfolding serve_extension_def require_dashboard_session_role_def ext_name_def [symmetric] Let_def
  by (auto split: option.splits)

lemma serve_bad_name:
  assumes "dashboard_allowed env req (resolve_epoch env req)"
    "g_user (require_dashboard_session_ex env req (resolve_epoch env req)) = Some (user, role)"
    "ext_name u = [] \<or> length (ext_name u) \<ge> EXTENSION_NAME_MAX + 1"
  shows "serve_extension env ex req u = refuse env (send_error_response env 404 ''404 Not Found'' (resolve_epoch env req))"
  using assms unfolding serve_extension_def require_dashboard_session_role_def ext_name_def [symmetric] Let_def by simp

text \<open>What an extension is asked: the request as the browser sent it, below the mount, and who asks.\<close>

definition extension_request :: "RouteEnv \<Rightarrow> HttpRequest \<Rightarrow> string \<Rightarrow> string \<Rightarrow> string \<Rightarrow> ExtensionRequest" where
  "extension_request env req name user role =
     (let mount = EXTENSION_ROUTE_PREFIX @ name; tail = drop (length mount) (req_url req) in
      \<lparr>xq_method = req_method req, xq_mount = mount,
       xq_target = fit 2048 ((if tail \<noteq> [] \<and> hd tail = CHR ''/'' then [] else ''/'') @ tail),
       xq_content_type = get_header_value req ''Content-Type'', xq_body = req_body req, xq_user = user, xq_role = role,
       xq_epoch = resolve_epoch env req\<rparr>)"

lemma serve_extension_asks:
  assumes "serve_extension env ex req decoded_url \<noteq> serve_extension env (ex\<lparr>ex_forward := other\<rparr>) req decoded_url"
  shows "dashboard_allowed env req (resolve_epoch env req)
    \<and> (\<exists>user role title. g_user (require_dashboard_session_ex env req (resolve_epoch env req)) = Some (user, role)
         \<and> ex_get ex (ext_name decoded_url) = Some (title, True)
         \<and> ex_forward ex (ext_name decoded_url) (extension_request env req (ext_name decoded_url) user role)
             \<noteq> other (ext_name decoded_url) (extension_request env req (ext_name decoded_url) user role))"
proof -
  let ?e = "resolve_epoch env req"
  let ?name = "ext_name decoded_url" and ?other = "ex\<lparr>ex_forward := other\<rparr>"
  have allowed: "dashboard_allowed env req ?e"
    using assms serve_not_allowed [of env req ex decoded_url] serve_not_allowed [of env req ?other decoded_url] by (rule_tac ccontr) simp
  obtain user role where user: "g_user (require_dashboard_session_ex env req ?e) = Some (user, role)"
    using assms serve_refused [OF allowed, of ex decoded_url] serve_refused [OF allowed, of ?other decoded_url]
    by (cases "g_user (require_dashboard_session_ex env req ?e)") auto
  have "\<not> (?name = [] \<or> length ?name \<ge> EXTENSION_NAME_MAX + 1)"
    using assms serve_bad_name [OF allowed user, of decoded_url ex] serve_bad_name [OF allowed user, of decoded_url ?other] by metis
  then have name: "?name \<noteq> []" "length ?name < EXTENSION_NAME_MAX + 1" by auto
  have "\<exists>title. ex_get ex ?name = Some (title, True)"
    using assms serve_unknown [OF allowed user, of ex decoded_url] serve_unknown [OF allowed user, of ?other decoded_url] by (rule_tac ccontr) simp
  then obtain title where title: "ex_get ex ?name = Some (title, True)" by blast
  define rq where "rq = extension_request env req ?name user role"
  have "serve_extension env x req decoded_url =
      (case ex_forward x ?name rq of
         Inl rc \<Rightarrow> refuse env (if rc = -2 then send_error_response env 502 ''502 Bad Gateway'' ?e
                                                     else send_error_response env 503 ''503 Service Unavailable'' ?e)
       | Inr rs \<Rightarrow> refuse env (extension_answer env x req ?e title (EXTENSION_ROUTE_PREFIX @ ?name) rs))"
    if "ex_get x ?name = Some (title, True)" for x
    using allowed user name that unfolding serve_extension_def require_dashboard_session_role_def rq_def extension_request_def ext_name_def [symmetric]
    by (simp add: Let_def)
  moreover have "extension_answer env (ex\<lparr>ex_forward := other\<rparr>) req ?e title m rs = extension_answer env ex req ?e title m rs" for m rs
    by (simp add: extension_answer_def)
  ultimately have "ex_forward ex ?name rq \<noteq> other ?name rq" using assms title by (auto split: sum.splits)
  then show ?thesis using allowed user title unfolding rq_def by blast
qed

text \<open>
  Only a request that passed the check reaches an extension: where the answer depends on what the
  extension says, the browser is one the dashboard is open to, and the request was let on as
  the user and role the extension is told.
\<close>

theorem extension_behind_guard:
  assumes "serve_extension env ex req decoded_url \<noteq> serve_extension env (ex\<lparr>ex_forward := other\<rparr>) req decoded_url"
  shows "dashboard_allowed env req (resolve_epoch env req)
    \<and> (\<exists>name rq. ex_forward ex name rq \<noteq> other name rq
         \<and> g_user (require_dashboard_session_ex env req (resolve_epoch env req)) = Some (xq_user rq, xq_role rq)
         \<and> (\<exists>title. ex_get ex name = Some (title, True)) \<and> xq_mount rq = EXTENSION_ROUTE_PREFIX @ name)"
proof -
  from serve_extension_asks [OF assms] obtain user role title where allowed: "dashboard_allowed env req (resolve_epoch env req)"
    and user: "g_user (require_dashboard_session_ex env req (resolve_epoch env req)) = Some (user, role)"
    and title: "ex_get ex (ext_name decoded_url) = Some (title, True)"
    and differ: "ex_forward ex (ext_name decoded_url) (extension_request env req (ext_name decoded_url) user role)
             \<noteq> other (ext_name decoded_url) (extension_request env req (ext_name decoded_url) user role)" by blast
  let ?rq = "extension_request env req (ext_name decoded_url) user role"
  have "xq_user ?rq = user" "xq_role ?rq = role" "xq_mount ?rq = EXTENSION_ROUTE_PREFIX @ ext_name decoded_url"
    by (simp_all add: extension_request_def Let_def)
  with allowed user title differ show ?thesis by metis
qed

definition example_extensions :: Extensions where
  "example_extensions = \<lparr>ex_get = (\<lambda>n. Some (''Example'', True)), ex_forward = (\<lambda>n rq. Inl (-1)), ex_page = (\<lambda>e t b. None)\<rparr>"

definition example_ext_env :: RouteEnv where
  "example_ext_env = example_env\<lparr>re_role := (\<lambda>u. Some ''admin''), re_rules_ready := True, re_rules :=
     Some \<lparr>fallback_epoch = 3, rules = [\<lparr>rule_name = ''any'', enabled = True, contains_tokens = [''Test''], excludes_tokens = [],
       version_after = [], tiers = [], rule_epoch = 3, rule_dashboard = True\<rparr>], cases = []\<rparr>\<rparr>"

definition example_ext_get :: HttpRequest where
  "example_ext_get = \<lparr>req_method = ''GET'', req_url = ''/dashboard/ext/demo/list'', req_protocol = ''HTTP/1.1'',
     req_headers = [\<lparr>hkey = ''User-Agent'', hval = ''Test/1.0''\<rparr>, \<lparr>hkey = ''Cookie'', hval = ''session=t2''\<rparr>], req_body = None\<rparr>"

theorem extension_behind_guard_witness:
  "dashboard_allowed example_ext_env example_ext_get (resolve_epoch example_ext_env example_ext_get)
   \<and> (\<exists>rq :: ExtensionRequest. g_user (require_dashboard_session_ex example_ext_env example_ext_get (resolve_epoch example_ext_env example_ext_get))
         = Some (xq_user rq, xq_role rq))"
proof -
  have "g_writes (serve_extension example_ext_env example_extensions example_ext_get ''/dashboard/ext/demo/list'')
      \<noteq> g_writes (serve_extension example_ext_env (example_extensions\<lparr>ex_forward := (\<lambda>n rq. Inl (-2))\<rparr>) example_ext_get ''/dashboard/ext/demo/list'')"
    by code_simp
  then have "serve_extension example_ext_env example_extensions example_ext_get ''/dashboard/ext/demo/list''
      \<noteq> serve_extension example_ext_env (example_extensions\<lparr>ex_forward := (\<lambda>n rq. Inl (-2))\<rparr>) example_ext_get ''/dashboard/ext/demo/list''"
    by metis
  from extension_behind_guard [OF this] show ?thesis by blast
qed

end
