(* ===== verification/Router_Read.thy ===== *)
theory Router_Read
  imports Router_Guard
begin

text \<open>
  How the router gets its request (src/src/web_server/http_router.c, the first part of http_route):
  the reader of the headers with its rules for clients that never send a blank line, the reader
  of the body by its Content-Length, the refusals, and the address a request is counted under. What
  the peer sends is a script: the pieces that arrive, which of them come after a pause, and how the
  connection ends.
\<close>

subsection \<open>The socket\<close>

definition RAW_REQUEST_SIZE :: nat where "RAW_REQUEST_SIZE = 32768"
definition MAX_BODY_SIZE :: nat where "MAX_BODY_SIZE = 10 * 1024 * 1024"

text \<open>
  A piece is marked when nothing arrived for 400 ms before it. After the last piece the peer
  has closed the connection or reading fails; \<open>so_end_seen\<close> says whether that is seen by poll.
\<close>

record Sock =
  so_pieces :: "(bool \<times> string) list"
  so_closed :: bool
  so_end_seen :: bool

text \<open>The value returned, the bytes placed into the buffer of the given size, and what is left.\<close>

definition read_func :: "nat \<Rightarrow> Sock \<Rightarrow> int \<times> string \<times> Sock" where
  "read_func n s =
     (case so_pieces s of
        [] \<Rightarrow> (if so_closed s then 0 else -1, [], s)
      | (late, bs) # ps \<Rightarrow>
          if length bs \<le> n then (int (length bs), bs, s\<lparr>so_pieces := ps\<rparr>)
          else (int n, take n bs, s\<lparr>so_pieces := (False, drop n bs) # ps\<rparr>))"

definition poll_400 :: "Sock \<Rightarrow> bool" where
  "poll_400 s = (case so_pieces s of [] \<Rightarrow> so_end_seen s | (late, bs) # ps \<Rightarrow> \<not> late)"

lemma read_func_length: "(ret, bs, s1) = read_func n s \<Longrightarrow> \<not> ret \<le> 0 \<Longrightarrow> 0 < length bs \<and> length bs \<le> n"
  by (auto simp: read_func_def split: list.splits if_splits)

lemma diff_less_append: "a \<noteq> [] \<Longrightarrow> n < N \<Longrightarrow> N - (n + length a) < N - n"
  by (cases a) auto

subsection \<open>Headers\<close>

text \<open>The number of words of the first line, once it is there and shorter than 700 bytes.\<close>

definition scan_fields :: "string \<Rightarrow> nat" where
  "scan_fields line =
     (case scan_s 15 line of
        None \<Rightarrow> 0
      | Some (m, r1) \<Rightarrow>
          (case scan_s 599 r1 of
             None \<Rightarrow> 1
           | Some (u, r2) \<Rightarrow> (case scan_s 15 r2 of None \<Rightarrow> 2 | Some (v, r3) \<Rightarrow> 3)))"

definition line_fields :: "string \<Rightarrow> nat" where
  "line_fields raw =
     (case (case strstr raw CRLF of Some i \<Rightarrow> Some i | None \<Rightarrow> strchr raw LF) of
        None \<Rightarrow> 0
      | Some line_len \<Rightarrow> if line_len < 700 then scan_fields (take line_len raw) else 0)"

definition blank_line_seen :: "string \<Rightarrow> bool" where
  "blank_line_seen raw \<longleftrightarrow> contains raw (CRLF @ CRLF) \<or> contains raw [LF, LF]"

datatype HeaderEnd = HEADERS_READ | HEADERS_TOO_LARGE | PEER_GONE

function read_request_head :: "bool \<Rightarrow> Sock \<Rightarrow> string \<Rightarrow> HeaderEnd \<times> string \<times> Sock" where
  "read_request_head tls s raw =
     (if length raw < RAW_REQUEST_SIZE - 1 then
        case read_func (RAW_REQUEST_SIZE - 1 - length raw) s of (ret, bs, s1) \<Rightarrow>
          if ret > 0 then
            let raw1 = raw @ bs; fields = line_fields (cstr raw1) in
            if fields = 2 then (HEADERS_READ, raw1, s1)
            else if blank_line_seen (cstr raw1) then (HEADERS_READ, raw1, s1)
            else if fields = 3 \<and> \<not> tls then
              if \<not> poll_400 s1 then (HEADERS_READ, raw1, s1) else read_request_head tls s1 raw1
            else if length raw1 \<ge> RAW_REQUEST_SIZE - 1 then (HEADERS_TOO_LARGE, raw1, s1)
            else read_request_head tls s1 raw1
          else (PEER_GONE, raw, s1)
      else (HEADERS_READ, raw, s))"
  by pat_completeness auto
termination
  by (relation "measure (\<lambda>(tls, s, raw). RAW_REQUEST_SIZE - length raw)") 
    
    (auto simp: linorder_not_le intro!: diff_less_append dest!: read_func_length [unfolded linorder_not_le])

declare read_request_head.simps [simp del]

subsection \<open>Body\<close>

text \<open>The first line named Content-Length that starts before the end of the headers; None without one.\<close>

fun content_length_at :: "nat \<Rightarrow> string \<Rightarrow> int option" where
  "content_length_at 0 h = None"
| "content_length_at (Suc n) h =
     (if prefix CRLF h \<and> prefix_ci ''Content-Length:'' (drop 2 h)
      then Some (atoi (dropWhile (\<lambda>c. c = CHR '' '') (drop 17 h)))
      else content_length_at n (tl h))"

function read_rest :: "nat \<Rightarrow> Sock \<Rightarrow> string option" where
  "read_rest remaining s =
     (if remaining = 0 then Some []
      else case read_func remaining s of (ret, bs, s1) \<Rightarrow>
        if ret \<le> 0 then None else map_option (\<lambda>r. bs @ r) (read_rest (remaining - length bs) s1))"
  by pat_completeness auto
termination
  by (relation "measure fst") 
    (auto simp: linorder_not_le diff_less_append [of _ 0, simplified] dest!: read_func_length [unfolded linorder_not_le])

declare read_rest.simps [simp del]

datatype BodyEnd = BODY_READ string | BODY_TOO_LARGE | BODY_GONE

text \<open>
  Bytes past the Content-Length are dropped. A request whose headers end without \<open>CRLF CRLF\<close> is
  taken as it is.
\<close>

definition read_body :: "string \<Rightarrow> Sock \<Rightarrow> BodyEnd" where
  "read_body raw s =
     (case strstr (cstr raw) (CRLF @ CRLF) of
        None \<Rightarrow> BODY_READ raw
      | Some hdr_end \<Rightarrow>
          let header_size = hdr_end + 4;
              content_length = (case content_length_at hdr_end (cstr raw) of None \<Rightarrow> 0 | Some n \<Rightarrow> n);
              has_length = (case content_length_at hdr_end (cstr raw) of None \<Rightarrow> False | Some n \<Rightarrow> 0 \<le> n);
              raw1 = (if has_length \<and> int (length raw - header_size) > content_length
                      then take (header_size + nat content_length) raw else raw);
              body_in_buffer = length raw1 - header_size
          in if content_length > int MAX_BODY_SIZE then BODY_TOO_LARGE
             else if content_length > 0 \<and> content_length > int body_in_buffer then
               (case read_rest (nat content_length - body_in_buffer) s of
                  None \<Rightarrow> BODY_GONE
                | Some rest \<Rightarrow> BODY_READ (raw1 @ rest))
             else BODY_READ raw1)"

subsection \<open>The address of the client\<close>

text \<open>\<open>proxies\<close> is the configured list, \<open>peer\<close> what getpeername answers for the two families.\<close>

definition forwarded_client :: "string \<Rightarrow> string" where
  "forwarded_client fwd = dropWhile (\<lambda>c. c = CHR '' '') (takeWhile (\<lambda>c. c \<noteq> CHR '','') (fit 46 fwd))"

definition client_ip :: "string \<Rightarrow> (family \<times> string) option \<Rightarrow> connection_ctx \<Rightarrow> HttpRequest \<Rightarrow> string" where
  "client_ip proxies peer conn req =
     (if proxy_client_ip conn \<noteq> [] then fit 46 (proxy_client_ip conn)
      else
        let peer_ip = (case peer of None \<Rightarrow> ''unknown'' | Some (f, a) \<Rightarrow> inet_ntop f a) in
        if is_trusted_proxy proxies (Some peer_ip) then
          (case get_header_value req ''X-Real-IP'' of
             Some (c # cs) \<Rightarrow> fit 46 (c # cs)
           | _ \<Rightarrow> (case get_header_value req ''X-Forwarded-For'' of
                    Some (c # cs) \<Rightarrow> forwarded_client (c # cs)
                  | _ \<Rightarrow> fit 46 peer_ip))
        else fit 46 peer_ip)"

subsection \<open>From the socket to the routes\<close>

datatype Front = Dropped | Refused "string list" | Routed HttpRequest connection_ctx string

definition refused :: "RouteEnv \<Rightarrow> nat \<Rightarrow> string \<Rightarrow> Front" where
  "refused env code line = Refused (send_error_response env code line EPOCH_PRESTANDARD)"

definition accept_request :: "RouteEnv \<Rightarrow> string \<Rightarrow> (family \<times> string) option \<Rightarrow> connection_ctx \<Rightarrow> string \<Rightarrow> Front" where
  "accept_request env proxies peer conn raw =
     (case parse_http_request raw of
        None \<Rightarrow> refused env 400 ''400 Bad Request''
      | Some req \<Rightarrow>
          if req_protocol req \<noteq> [] \<and> \<not> prefix ''HTTP/'' (req_protocol req) then refused env 400 ''400 Bad Request''
          else Routed req (conn\<lparr>simple_response := is_http09_request req\<rparr>) (client_ip proxies peer conn req))"

definition http_route_front :: "RouteEnv \<Rightarrow> string \<Rightarrow> (family \<times> string) option \<Rightarrow> connection_ctx \<Rightarrow> Sock \<Rightarrow> Front" where
  "http_route_front env proxies peer conn s =
     (case read_request_head (ssl conn) s [] of
        (PEER_GONE, raw, s1) \<Rightarrow> Dropped
      | (HEADERS_TOO_LARGE, raw, s1) \<Rightarrow> refused env 431 ''431 Request Header Fields Too Large''
      | (HEADERS_READ, raw, s1) \<Rightarrow>
          if raw = [] then Dropped
          else case read_body raw s1 of
            BODY_TOO_LARGE \<Rightarrow> refused env 413 ''413 Payload Too Large''
          | BODY_GONE \<Rightarrow> Dropped
          | BODY_READ raw1 \<Rightarrow> accept_request env proxies peer conn raw1)"

subsection \<open>A request arrives in pieces\<close>

definition sock_stream :: "Sock \<Rightarrow> string" where
  "sock_stream s = concat (map snd (so_pieces s))"

text \<open>No piece is empty; on a plain connection none comes after a pause.\<close>

definition well_cut :: "bool \<Rightarrow> Sock \<Rightarrow> bool" where
  "well_cut tls s \<longleftrightarrow> (\<forall>c\<in>set (so_pieces s). snd c \<noteq> [] \<and> (tls \<or> \<not> fst c))"

lemma read_func_stream:
  assumes "well_cut tls s" "sock_stream s \<noteq> []" "0 < n" "read_func n s = (ret, bs, s1)"
  shows "0 < ret" "0 < length bs" "length bs \<le> n" "bs @ sock_stream s1 = sock_stream s" "well_cut tls s1"
  using assms by (auto simp: read_func_def sock_stream_def well_cut_def split: list.splits if_splits prod.splits)

lemma poll_400_ready: "well_cut False s \<Longrightarrow> sock_stream s \<noteq> [] \<Longrightarrow> poll_400 s"
  by (auto simp: poll_400_def sock_stream_def well_cut_def split: list.splits)

text \<open>A head the reader cannot take for complete before its end.\<close>

definition head_ok :: "string \<Rightarrow> bool" where
  "head_ok h \<longleftrightarrow> NUL \<notin> set h \<and> blank_line_seen h
     \<and> (\<forall>k<length h. line_fields (take k h) \<noteq> 2 \<and> \<not> blank_line_seen (take k h))"

lemma contains_append: "contains s n \<Longrightarrow> contains (s @ t) n"
  by (auto simp: contains_def dest: strstr_append)

lemma blank_line_seen_append: "blank_line_seen s \<Longrightarrow> blank_line_seen (s @ t)"
  by (auto simp: blank_line_seen_def contains_append)

lemma read_request_head_stream:
  assumes "head_ok h" "length h < RAW_REQUEST_SIZE"
  shows "well_cut tls s \<Longrightarrow> raw @ sock_stream s = h @ t \<Longrightarrow> length raw < length h \<Longrightarrow>
    \<exists>raw1 s1. read_request_head tls s raw = (HEADERS_READ, raw1, s1) \<and> raw1 @ sock_stream s1 = h @ t
      \<and> length h \<le> length raw1 \<and> well_cut tls s1"
proof (induction tls s raw rule: read_request_head.induct)
  case (1 tls s raw)
  obtain ret bs s1 where r: "read_func (RAW_REQUEST_SIZE - 1 - length raw) s = (ret, bs, s1)"
    by (cases "read_func (RAW_REQUEST_SIZE - 1 - length raw) s") auto
  have ne: "sock_stream s \<noteq> []" using "1.prems"(2,3) by (auto dest: arg_cong [where f = length])
  have room: "0 < RAW_REQUEST_SIZE - 1 - length raw" using "1.prems"(3) assms(2) by simp
  note rf = read_func_stream [OF "1.prems"(1) ne room r]
  have st: "(raw @ bs) @ sock_stream s1 = h @ t" using rf(4) "1.prems"(2) by simp
  show ?case
  proof (cases "length (raw @ bs) < length h")
    case True
    have pre: "raw @ bs = take (length (raw @ bs)) h"
      using arg_cong [OF st, of "take (length (raw @ bs))"] True by simp
    have "NUL \<notin> set (raw @ bs)" using assms(1) in_set_takeD [of NUL "length (raw @ bs)" h] unfolding pre [symmetric] by (auto simp: head_ok_def)
    then have cs: "cstr (raw @ bs) = raw @ bs" by (rule cstr_id)
    have f: "line_fields (raw @ bs) \<noteq> 2" "\<not> blank_line_seen (raw @ bs)"
      using assms(1) True pre unfolding head_ok_def by metis+
    have "sock_stream s1 \<noteq> []" using st True by (auto dest: arg_cong [where f = length])
    then have pl: "poll_400 s1" if "\<not> tls" using poll_400_ready rf(5) that by auto
    have small: "\<not> RAW_REQUEST_SIZE - Suc 0 \<le> length raw + length bs" using True assms(2) by simp
    have "read_request_head tls s raw = read_request_head tls s1 (raw @ bs)"
      using r rf(1) room cs f pl small by (subst read_request_head.simps) (simp add: Let_def)
    moreover have "\<exists>raw1 s2. read_request_head tls s1 (raw @ bs) = (HEADERS_READ, raw1, s2) \<and> raw1 @ sock_stream s2 = h @ t
      \<and> length h \<le> length raw1 \<and> well_cut tls s2"
      using "1.IH" [OF _ r [symmetric] refl _ refl refl] rf room cs f pl True assms(2) st by (cases "line_fields (raw @ bs) = 3 \<and> \<not> tls") simp_all
    ultimately show ?thesis by simp
  next
    case False
    have "raw @ bs = take (length (raw @ bs)) (h @ t)" using st by (metis append_eq_conv_conj)
    also have "\<dots> = h @ take (length (raw @ bs) - length h) t" using False by simp
    finally have "raw @ bs = h @ take (length (raw @ bs) - length h) t" .
    then have "cstr (raw @ bs) = h @ cstr (take (length (raw @ bs) - length h) t)"
      using assms(1) cstr_append by (metis head_ok_def)
    then have "blank_line_seen (cstr (raw @ bs))"
      using assms(1) by (simp add: head_ok_def blank_line_seen_append)
    then have "read_request_head tls s raw = (HEADERS_READ, raw @ bs, s1)"
      using r rf(1) room by (subst read_request_head.simps) (simp add: Let_def)
    then show ?thesis using st rf(5) False by auto
  qed
qed

lemma read_rest_stream: "well_cut tls s \<Longrightarrow> n \<le> length (sock_stream s) \<Longrightarrow> read_rest n s = Some (take n (sock_stream s))"
proof (induction n s rule: read_rest.induct)
  case (1 n s)
  show ?case
  proof (cases "n = 0")
    case False
    obtain ret bs s1 where r: "read_func n s = (ret, bs, s1)" by (cases "read_func n s") auto
    have "sock_stream s \<noteq> []" using False "1.prems"(2) by auto
    note rf = read_func_stream [OF "1.prems"(1) this False [unfolded neq0_conv] r]
    have "length bs + length (sock_stream s1) = length (sock_stream s)" using rf(4) by (metis length_append)
    then have "n - length bs \<le> length (sock_stream s1)" using "1.prems"(2) by simp
    then have "read_rest (n - length bs) s1 = Some (take (n - length bs) (sock_stream s1))"
      using "1.IH" [OF False r [symmetric] refl] rf(1,5) by simp
    moreover have "take n (sock_stream s) = bs @ take (n - length bs) (sock_stream s1)"
      using rf(3,4) False by (metis bot_nat_0.not_eq_extremum take_all take_append)
    ultimately show ?thesis using r rf(1) False by (subst read_rest.simps) simp
  qed (simp add: read_rest.simps)
qed

subsection \<open>The head of a request\<close>

lemma atoi_show_append:
  assumes "n < 2147483648" "r = [] \<or> \<not> isdigit (hd r)"
  shows "atoi (show_nat n @ r) = int n"
proof -
  have d: "\<forall>c\<in>set (show_nat n). isdigit c" using show_nat_digits by blast
  obtain c s where cs: "show_nat n = c # s" using show_nat_not_Nil [of n] by (cases "show_nat n") auto
  have c: "isdigit c" using d cs by simp
  then have ns: "\<not> isspace c" "c \<noteq> CHR ''-''" "c \<noteq> CHR ''+''" by (auto simp: ctype_defs)
  have "takeWhile isdigit r = []" using assms(2) by (cases r) auto
  then have "takeWhile isdigit (show_nat n @ r) = show_nat n" using d by (simp add: takeWhile_append2)
  then have "atoi (show_nat n @ r) = to_int32 (min (int n) 9223372036854775807)"
    using ns dec_value_show_nat [of n] unfolding atoi_def cs by (simp add: Let_def cs)
  then show ?thesis using assms(1) by (simp add: to_int32_def)
qed

lemma content_length_skip: "CR \<notin> set w \<Longrightarrow> content_length_at (length w + n) (w @ t) = content_length_at n t"
  by (induction w) auto

declare content_length_at.simps(2) [simp del]

lemma prefix_name: "c \<notin> set p \<Longrightarrow> c \<notin> set k \<Longrightarrow> prefix (p @ [c]) (k @ c # r) \<longleftrightarrow> p = k"
proof (induction p arbitrary: k)
  case Nil
  then show ?case by (cases k) auto
next
  case (Cons x p)
  then show ?case by (cases k) auto
qed

lemma tolower_colon: "tolower c = CHR '':'' \<longleftrightarrow> c = CHR '':''"
proof (cases "isupper c")
  case True
  then have "65 \<le> ord c" "ord c \<le> 90" by (auto simp: isupper_def)
  then have "ord (tolower c) = ord c + 32" using True by (simp add: tolower_def)
  then have "ord (tolower c) \<noteq> 58" "ord c \<noteq> 58" using \<open>65 \<le> ord c\<close> by simp_all
  then show ?thesis by auto
qed (simp add: tolower_def)

lemma colon_tolower: "CHR '':'' \<notin> set k \<Longrightarrow> CHR '':'' \<notin> set (map tolower k)"
  by (induction k) (simp_all, metis tolower_colon)

lemma length_header_name:
  assumes "CHR '':'' \<notin> set k"
  shows "prefix_ci ''Content-Length:'' (k @ CHR '':'' # r) \<longleftrightarrow> eq_ci k ''Content-Length''"
proof -
  have e: "''Content-Length:'' = ''Content-Length'' @ [CHR '':'']" "tolower CHR '':'' = CHR '':''"
    by (simp_all add: tolower_colon)
  have k: "CHR '':'' \<notin> set (map tolower k)" using assms by (rule colon_tolower)
  have "CHR '':'' \<notin> set ''Content-Length''" by simp
  then have c: "CHR '':'' \<notin> set (map tolower ''Content-Length'')" by (rule colon_tolower)
  have "map tolower ''Content-Length:'' = map tolower ''Content-Length'' @ '':''"
    unfolding e(1) by (simp only: map_append list.map e(2))
  moreover have "map tolower (k @ CHR '':'' # r) = map tolower k @ CHR '':'' # map tolower r" by (simp only: map_append list.map e(2))
  ultimately have "prefix_ci ''Content-Length:'' (k @ CHR '':'' # r) \<longleftrightarrow> map tolower ''Content-Length'' = map tolower k"
    unfolding prefix_ci_def using prefix_name [OF c k, of "map tolower r"] by (simp only:)
  then show ?thesis unfolding eq_ci_def by (simp only: eq_commute [of "map tolower k"])
qed

abbreviation header_block :: "HttpHeader list \<Rightarrow> string" where
  "header_block hs \<equiv> concat (map (\<lambda>h. header_line h @ CRLF) hs)"

lemma content_length_step:
  assumes "header_ok h"
  shows "content_length_at (length (header_line h @ CRLF) + n) (CRLF @ header_line h @ t) =
      (if eq_ci (hkey h) ''Content-Length'' then Some (atoi (dropWhile (\<lambda>c. c = CHR '' '') (hval h @ t)))
       else content_length_at n t)"
proof -
  have k: "CHR '':'' \<notin> set (hkey h)" using assms by (simp add: header_ok_def)
  have name: "prefix_ci ''Content-Length:'' (header_line h @ t) \<longleftrightarrow> eq_ci (hkey h) ''Content-Length''"
    using length_header_name [OF k, of "CHR '' '' # hval h @ t"] by (simp add: header_line_def)
  have l: "length (header_line h @ CRLF) + n = Suc (length (LF # header_line h) + n)" by simp
  have "CR \<notin> set (LF # header_line h)" using header_line_ok(2) [OF assms, of CR] by auto
  then have skip: "content_length_at (length (LF # header_line h) + n) ((LF # header_line h) @ t) = content_length_at n t"
    by (rule content_length_skip)
  show ?thesis
  proof (cases "eq_ci (hkey h) ''Content-Length''")
    case True
    then have "length (hkey h) = 14" using arg_cong [of _ _ length] by (fastforce simp: eq_ci_def)
    then have "drop 17 (CRLF @ header_line h @ t) = CHR '' '' # hval h @ t" by (simp add: header_line_def)
    then show ?thesis using True name unfolding l content_length_at.simps by simp
  next
    case False
    then show ?thesis using name skip unfolding l content_length_at.simps by simp
  qed
qed

lemma content_length_headers:
  assumes "\<forall>h\<in>set hs. header_ok h" "find (\<lambda>h. eq_ci (hkey h) ''Content-Length'') hs = Some h"
    and "hval h = show_nat n" "n < 2147483648"
  shows "content_length_at (length (header_block hs)) (CRLF @ header_block hs @ t) = Some (int n)"
  using assms(1,2)
proof (induction hs)
  case (Cons x xs)
  note step = content_length_step [of x "length (header_block xs)" "CRLF @ header_block xs @ t"]
  show ?case
  proof (cases "eq_ci (hkey x) ''Content-Length''")
    case True
    obtain c s where cs: "show_nat n = c # s" using show_nat_not_Nil [of n] by (cases "show_nat n") auto
    then have "isdigit c" using show_nat_digits [of c n] by simp
    then have "c \<noteq> CHR '' ''" by (auto simp: ctype_defs)
    then have "dropWhile (\<lambda>c. c = CHR '' '') (show_nat n @ r) = show_nat n @ r" for r by (simp add: cs)
    moreover have "\<not> isdigit CR" by (simp add: isdigit_def)
    ultimately have "atoi (dropWhile (\<lambda>c. c = CHR '' '') (show_nat n @ CRLF @ header_block xs @ t)) = int n"
      using atoi_show_append [OF assms(4), of "CRLF @ header_block xs @ t"] by simp
    moreover have "x = h" using Cons.prems(2) True by simp
    ultimately show ?thesis using step Cons.prems(1) True assms(3) by simp
  next
    case False
    then show ?thesis using step Cons by simp
  qed
qed simp

lemma scan_s_some:
  assumes "\<exists>c\<in>set s. \<not> isspace c" "0 < n"
  shows "\<exists>w r. scan_s n s = Some (w, r)"
proof -
  have "dropWhile isspace s \<noteq> []" using assms(1) by (auto simp: dropWhile_eq_Nil_conv)
  then obtain c cs where c: "dropWhile isspace s = c # cs" by (cases "dropWhile isspace s") auto
  then have "\<not> isspace c" using hd_dropWhile [of isspace s] by simp
  then show ?thesis using c assms(2) by (cases n) (simp_all add: scan_s_def Let_def)
qed

lemma scan_s_cut:
  assumes "word_ok k w" "r = [] \<or> isspace (hd r)" "0 < n"
  shows "scan_s n (CHR '' '' # w @ r) = Some (take n w, drop n w @ r)"
proof -
  obtain c w' where w: "w = c # w'" "\<not> isspace c" using assms(1) by (cases w) (auto simp: word_ok_def)
  have "isspace CHR '' ''" by (simp add: isspace_def)
  then have d: "dropWhile isspace (CHR '' '' # w @ r) = w @ r" using w by simp
  have "takeWhile (\<lambda>c. \<not> isspace c) (w @ r) = w"
    using assms(1,2) by (cases r) (auto simp: word_ok_def takeWhile_append2)
  moreover have "take n w \<noteq> []" using w assms(3) by simp
  ultimately show ?thesis unfolding scan_s_def d Let_def by (simp add: min_def drop_eq_Nil)
qed

lemma scan_fields_three:
  assumes "word_ok 15 m" "word_ok 1023 u" "word_ok 15 p"
  shows "scan_fields (m @ '' '' @ u @ '' '' @ p) = 3"
proof -
  have sp: "isspace CHR '' ''" by (simp add: isspace_def)
  have "scan_s 15 (m @ '' '' @ u @ '' '' @ p) = Some (m, '' '' @ u @ '' '' @ p)"
    using scan_s_word [OF assms(1), of "'' '' @ u @ '' '' @ p" "[]"] sp by simp
  moreover have "scan_s 599 ('' '' @ u @ '' '' @ p) = Some (take 599 u, drop 599 u @ '' '' @ p)"
    using scan_s_cut [OF assms(2), of "'' '' @ p" 599] sp by simp
  moreover have "\<exists>c\<in>set (drop 599 u @ '' '' @ p). \<not> isspace c"
    using assms(3) by (cases p) (auto simp: word_ok_def)
  ultimately show ?thesis using scan_s_some [of "drop 599 u @ '' '' @ p" 15] unfolding scan_fields_def by auto
qed

lemma strstr_take:
  assumes "strstr h n = Some i" "k < i + length n"
  shows "strstr (take k h) n = None"
proof (cases "strstr (take k h) n")
  case (Some j)
  then have "strstr (take k h @ drop k h) n = Some j" by (rule strstr_append)
  then have "j = i" using assms(1) by simp
  then show ?thesis using strstr_length [OF Some] assms(2) by simp
qed

lemma strstr_LF_LF:
  assumes "\<forall>w\<in>set ws. w \<noteq> [] \<and> (\<forall>c\<in>set w. \<not> is_eol c)"
  shows "strstr (concat (map (\<lambda>w. w @ CRLF) ws) @ CRLF) [LF, LF] = None"
  using assms
proof (induction ws)
  case (Cons w ws)
  have skip: "strstr (w @ t) [LF, LF] = map_option (\<lambda>i. length w + i) (strstr t [LF, LF])" for t
    using strstr_skip [of LF w t "[LF]"] Cons.prems by auto
  let ?rest = "concat (map (\<lambda>w. w @ CRLF) ws) @ CRLF"
  obtain c r where c: "?rest = c # r" "c \<noteq> LF"
    using Cons.prems by (cases ws) (auto simp: neq_Nil_conv)
  have "strstr ?rest [LF, LF] = None" using Cons by simp
  then have "strstr (CRLF @ ?rest) [LF, LF] = None" unfolding c(1) using c(2) by simp
  then show ?case using skip [of "CRLF @ ?rest"] by simp
qed simp

lemma request_head_ok:
  assumes "word_ok 15 m" "word_ok 1023 u" "word_ok 15 p" "\<forall>h\<in>set hs. header_ok h"
  shows "head_ok (request_head m u p hs)"
    and "strstr (request_head m u p hs) (CRLF @ CRLF) = Some (length (request_head m u p hs) - 4)"
    and "4 \<le> length (request_head m u p hs)"
proof -
  let ?h = "request_head m u p hs" and ?l = "m @ '' '' @ u @ '' '' @ p"
  note ok = request_lines_ok [OF assms]
  obtain i where i: "strstr ?h (CRLF @ CRLF) = Some i" "i + 4 = length ?h"
    using strstr_blank_line [OF ok, of "[]"] by (auto simp: request_lines_def request_head_def)
  then show end4: "strstr ?h (CRLF @ CRLF) = Some (length ?h - 4)" "4 \<le> length ?h" by auto
  have lf: "strstr ?h [LF, LF] = None" unfolding request_head_def by (rule strstr_LF_LF [OF ok])
  have eol: "CR \<notin> set ?l" "LF \<notin> set ?l" using ok by (auto simp: request_lines_def)
  define r where "r = concat (map (\<lambda>w. w @ CRLF) (map header_line hs)) @ CRLF"
  have h: "?h = ?l @ CRLF @ r" by (simp add: request_head_def request_lines_def r_def)
  have first: "strstr ?h CRLF = Some (length ?l)" unfolding h using strstr_skip [OF eol(1), of "CRLF @ r" "[LF]"] by simp
  have "line_fields (take k ?h) \<noteq> 2 \<and> \<not> blank_line_seen (take k ?h)" if k: "k < length ?h" for k
  proof
    have "strstr (take k ?h) (CRLF @ CRLF) = None" using strstr_take [OF i(1), of k] i(2) k by simp
    moreover have "\<not> contains (take k ?h) [LF, LF]"
    proof
      assume "contains (take k ?h) [LF, LF]"
      then have "contains (take k ?h @ drop k ?h) [LF, LF]" by (rule contains_append)
      then show False using lf by (simp add: contains_def)
    qed
    ultimately show "\<not> blank_line_seen (take k ?h)" by (simp add: blank_line_seen_def contains_def)
    show "line_fields (take k ?h) \<noteq> 2"
    proof (cases "k < length ?l + 2")
      case True
      have "strstr (take k ?h) CRLF = None" using strstr_take [OF first, of k] True by simp
      moreover have "LF \<notin> set (take k ?h)"
      proof -
        have "take k ?h = take k (?l @ [CR])" unfolding h using True by (cases "k \<le> length ?l") (auto simp: take_Cons')
        then show ?thesis using eol(2) in_set_takeD [of LF k "?l @ [CR]"] by auto
      qed
      ultimately show ?thesis by (simp add: line_fields_def strchr_None [THEN iffD2])
    next
      case False
      then obtain x where x: "take k ?h = ?l @ CRLF @ x" unfolding h by (auto simp: take_Cons')
      have "strstr (take k ?h) CRLF = Some (length ?l)" unfolding x using strstr_skip [OF eol(1), of "CRLF @ x" "[LF]"] by simp
      then show ?thesis using x scan_fields_three [OF assms(1-3)] by (auto simp: line_fields_def)
    qed
  qed
  moreover have "blank_line_seen ?h" using i(1) by (simp add: blank_line_seen_def contains_def)
  ultimately show "head_ok ?h" using request_head_nul [OF assms] by (simp add: head_ok_def)
qed

lemma head_content_length:
  assumes "word_ok 15 m" "word_ok 1023 u" "word_ok 15 p" "\<forall>h\<in>set hs. header_ok h"
    and "find (\<lambda>h. eq_ci (hkey h) ''Content-Length'') hs = Some h" "hval h = show_nat n" "n < 2147483648"
  shows "content_length_at (length (request_head m u p hs) - 4) (request_head m u p hs @ t) = Some (int n)"
proof -
  let ?l = "m @ '' '' @ u @ '' '' @ p"
  have "CR \<notin> set ?l" using request_lines_ok [OF assms(1-4)] by (auto simp: request_lines_def)
  note skip = content_length_skip [OF this, of "length (header_block hs)" "CRLF @ header_block hs @ CRLF @ t"]
  have e: "request_head m u p hs @ t = ?l @ CRLF @ header_block hs @ CRLF @ t"
    by (simp add: request_head_def request_lines_def comp_def)
  have l: "length (request_head m u p hs) - 4 = length ?l + length (header_block hs)"
    by (simp add: request_head_def request_lines_def comp_def)
  show ?thesis unfolding e l skip by (rule content_length_headers [OF assms(4-7)])
qed

subsection \<open>Properties\<close>

lemma read_body_stream:
  assumes head: "NUL \<notin> set h" "strstr h (CRLF @ CRLF) = Some (length h - 4)" "4 \<le> length h"
    and len: "content_length_at (length h - 4) (cstr raw) = Some (int (length b))" "length b \<le> MAX_BODY_SIZE"
    and st: "well_cut tls s" "raw @ sock_stream s = h @ b @ extra" "length h \<le> length raw"
  shows "read_body raw s = BODY_READ (h @ b)"
proof -
  define got where "got = drop (length h) raw"
  have raw: "raw = h @ got" using st(2,3) unfolding got_def by (metis append_eq_append_conv_if append_take_drop_id)
  have got: "got @ sock_stream s = b @ extra" using st(2) raw by simp
  have "strstr (cstr raw) (CRLF @ CRLF) = Some (length h - 4)"
    unfolding raw cstr_append [OF head(1)] using head(2) by (rule strstr_append)
  note e = this len(1) head(3)
  consider (more) "length b < length got" | (all_there) "length got = length b" | (part) "length got < length b" by linarith
  then show ?thesis
  proof cases
    case more
    then have "take (length b) got = b" using arg_cong [OF got, of "take (length b)"] by simp
    then show ?thesis using e more len(2) by (simp add: read_body_def raw Let_def)
  next
    case all_there
    then have "got = b" using got by simp
    then show ?thesis using e len(2) by (simp add: read_body_def raw Let_def)
  next
    case part
    then have b: "b = got @ take (length b - length got) (sock_stream s)"
      using arg_cong [OF got, of "take (length b)"] by simp
    have "length b - length got \<le> length (sock_stream s)" using arg_cong [OF got, of length] by simp
    note r = read_rest_stream [OF st(1) this]
    have "nat (int (length b)) - (length raw - length h) = length b - length got" by (simp add: raw)
    then show ?thesis using e part len(2) r b by (simp add: read_body_def raw Let_def)
  qed
qed

text \<open>
  C22. However the network cuts a request into pieces, the router reads the same request: method, URL,
  version, headers and a body of exactly its Content-Length, whatever follows it. The requests meant are those
  that name a version, have a URL relative to the server, carry a Content-Length, fit the reader's arrays and have
  no colon in their body (the parser goes on looking for header lines after the blank line). On a plain
  connection no piece may come after a pause of 400 ms, since the reader takes a pause within the head for
  its end; over TLS pauses do not matter.
\<close>


theorem http_route_reads_any_cut:
  assumes "word_ok 15 m" "word_ok 1023 u" "word_ok 15 p" "prefix ''HTTP/'' p"
    and "\<not> prefix_ci ''http://'' u" "\<not> prefix_ci ''https://'' u"
    and "\<forall>h\<in>set hs. header_ok h" "length hs \<le> MAX_HEADERS" "CHR '':'' \<notin> set b"
    and "find (\<lambda>h. eq_ci (hkey h) ''Content-Length'') hs = Some cl" "hval cl = show_nat (length b)"
    and "length (request_head m u p hs) < RAW_REQUEST_SIZE" "length b \<le> MAX_BODY_SIZE"
    and "well_cut (ssl conn) s" "sock_stream s = request_text m u p hs b @ extra"
  shows "\<exists>req. req = \<lparr>req_method = m, req_url = u, req_protocol = p, req_headers = hs,
            req_body = (if b = [] then None else Some b)\<rparr>
     \<and> http_route_front env proxies peer conn s = Routed req (conn\<lparr>simple_response := False\<rparr>) (client_ip proxies peer conn req)"
proof -
  let ?h = "request_head m u p hs"
  note h = request_head_ok [OF assms(1-3,7)]
  have st: "[] @ sock_stream s = ?h @ b @ extra" using assms(15) by (simp add: request_text_def)
  have "length ([] :: string) < length ?h" using h(3) by (cases ?h) auto
  from read_request_head_stream [OF h(1) assms(12,14) st this] obtain raw s1
    where r: "read_request_head (ssl conn) s [] = (HEADERS_READ, raw, s1)" "raw @ sock_stream s1 = ?h @ b @ extra"
      "length ?h \<le> length raw" "well_cut (ssl conn) s1" by auto
  have small: "length b < 2147483648" using assms(13) by (simp add: MAX_BODY_SIZE_def)
  obtain got where "raw = ?h @ got" using r(2,3) by (metis append_eq_append_conv_if append_take_drop_id)
  then have "cstr raw = ?h @ cstr got" using cstr_append [OF request_head_nul [OF assms(1-3,7)]] by simp
  then have cl: "content_length_at (length ?h - 4) (cstr raw) = Some (int (length b))"
    using head_content_length [OF assms(1-3,7,10,11) small] by simp
  have "read_body raw s1 = BODY_READ (request_text m u p hs b)"
    unfolding request_text_def
    by (rule read_body_stream [OF _ h(2,3) cl assms(13) r(4,2,3)]) (use h(1) in \<open>simp add: head_ok_def\<close>)
  moreover have "raw \<noteq> []" using r(3) h(3) by auto
  moreover have "p \<noteq> []" using assms(3) by (simp add: word_ok_def)
  ultimately show ?thesis
    using r(1) assms(4) parse_request_text [OF assms(1-3,5-9)]
    by (simp add: http_route_front_def accept_request_def is_http09_request_def)
qed

definition example_conn :: connection_ctx where
  "example_conn = \<lparr>client_socket = 5, ssl = False, simple_response = False, header_end_matched = 0, proxy_client_ip = []\<rparr>"

definition example_headers :: "HttpHeader list" where
  "example_headers = [\<lparr>hkey = ''Host'', hval = ''x.org''\<rparr>, \<lparr>hkey = ''Content-Length'', hval = ''3''\<rparr>]"

definition example_cut :: Sock where
  "example_cut = \<lparr>so_pieces = [(False, ''POST /a HT''), (False, ''TP/1.0'' @ [CR]),
     (False, [LF] @ ''Host: x.org'' @ CRLF @ ''Content-Length: 3'' @ CRLF @ [CR]), (False, [LF] @ ''k=''), (False, ''v'' @ CRLF)],
     so_closed = True, so_end_seen = True\<rparr>"

theorem http_route_reads_any_cut_witness:
  "http_route_front example_env [] None example_conn example_cut =
     Routed \<lparr>req_method = ''POST'', req_url = ''/a'', req_protocol = ''HTTP/1.0'', req_headers = example_headers, req_body = Some ''k=v''\<rparr>
       example_conn ''unknown''"
proof -
  let ?req = "\<lparr>req_method = ''POST'', req_url = ''/a'', req_protocol = ''HTTP/1.0'', req_headers = example_headers, req_body = Some ''k=v''\<rparr>"
  have "show_nat (Suc (Suc (Suc 0))) = ''3''" by code_simp
  then have w: "word_ok 15 ''POST''" "word_ok 1023 ''/a''" "word_ok 15 ''HTTP/1.0''" "prefix ''HTTP/'' ''HTTP/1.0''"
    "\<not> prefix_ci ''http://'' ''/a''" "\<not> prefix_ci ''https://'' ''/a''" "\<forall>h\<in>set example_headers. header_ok h"
    "length example_headers \<le> MAX_HEADERS" "CHR '':'' \<notin> set ''k=v''"
    "find (\<lambda>h. eq_ci (hkey h) ''Content-Length'') example_headers = Some \<lparr>hkey = ''Content-Length'', hval = ''3''\<rparr>"
    "hval \<lparr>hkey = ''Content-Length'', hval = ''3''\<rparr> = show_nat (length ''k=v'')"
    "length (request_head ''POST'' ''/a'' ''HTTP/1.0'' example_headers) < RAW_REQUEST_SIZE" "length ''k=v'' \<le> MAX_BODY_SIZE"
    "well_cut (ssl example_conn) example_cut"
    "sock_stream example_cut = request_text ''POST'' ''/a'' ''HTTP/1.0'' example_headers ''k=v'' @ CRLF"
    by (simp_all add: word_ok_def isspace_def prefix_ci_def tolower_def isupper_def header_ok_def text_ok_def
      is_blank_def header_fits_def MAX_HEADER_KEY_def MAX_HEADER_VALUE_def MAX_HEADERS_def example_headers_def eq_ci_def
      request_head_def request_lines_def request_text_def header_line_def RAW_REQUEST_SIZE_def MAX_BODY_SIZE_def
      well_cut_def example_cut_def sock_stream_def example_conn_def)
  have "client_ip [] None example_conn ?req = ''unknown''" by code_simp
  with http_route_reads_any_cut [OF w, of example_env "[]" None] show ?thesis by (simp add: example_conn_def)
qed

text \<open>The first 32767 bytes hold no end of a head.\<close>

lemma read_request_head_overrun:
  assumes "\<forall>k<RAW_REQUEST_SIZE. line_fields (cstr (take k x)) \<noteq> 2 \<and> \<not> blank_line_seen (cstr (take k x))"
    and "line_fields (cstr (take (RAW_REQUEST_SIZE - 1) x)) = 3" "RAW_REQUEST_SIZE - 1 \<le> length x"
  shows "well_cut tls s \<Longrightarrow> raw @ sock_stream s = x \<Longrightarrow> length raw < RAW_REQUEST_SIZE - 1 \<Longrightarrow>
    \<exists>s1. read_request_head tls s raw = (if tls then HEADERS_TOO_LARGE else HEADERS_READ, take (RAW_REQUEST_SIZE - 1) x, s1)"
proof (induction tls s raw rule: read_request_head.induct)
  case (1 tls s raw)
  let ?n = "RAW_REQUEST_SIZE - 1"
  obtain ret bs s1 where r: "read_func (?n - length raw) s = (ret, bs, s1)" by (cases "read_func (?n - length raw) s") auto
  have ne: "sock_stream s \<noteq> []" using "1.prems"(2,3) assms(3) by auto
  have room: "0 < ?n - length raw" using "1.prems"(3) by simp
  note rf = read_func_stream [OF "1.prems"(1) ne room r]
  have st: "(raw @ bs) @ sock_stream s1 = x" using rf(4) "1.prems"(2) by simp
  then have pre: "take (length (raw @ bs)) x = raw @ bs" by (metis append_eq_conv_conj)
  have le: "length (raw @ bs) < RAW_REQUEST_SIZE" "length (raw @ bs) \<le> ?n" using rf(3) room by simp_all
  have q: "line_fields (cstr (raw @ bs)) \<noteq> 2" "\<not> blank_line_seen (cstr (raw @ bs))"
    using assms(1) le(1) pre by metis+
  show ?case
  proof (cases "length (raw @ bs) = ?n")
    case True
    then have f: "line_fields (cstr (raw @ bs)) = 3" and t: "raw @ bs = take ?n x" using assms(2) pre by simp_all
    have full: "read_request_head tls s1 (raw @ bs) = (HEADERS_READ, raw @ bs, s1)"
      using True by (subst read_request_head.simps) simp
    have "read_request_head tls s raw = (if tls then HEADERS_TOO_LARGE else HEADERS_READ, raw @ bs, s1)"
      using r rf(1) "1.prems"(3) q f full True by (subst read_request_head.simps) (cases "poll_400 s1"; cases tls; simp add: Let_def)
    then show ?thesis using t by auto
  next
    case False
    then have small: "\<not> RAW_REQUEST_SIZE - Suc 0 \<le> length raw + length bs" "length (raw @ bs) < ?n" using le(2) by simp_all
    have "sock_stream s1 \<noteq> []" using st assms(3) small(2) by auto
    then have pl: "poll_400 s1" if "\<not> tls" using poll_400_ready rf(5) that by auto
    have "read_request_head tls s raw = read_request_head tls s1 (raw @ bs)"
      using r rf(1) room q pl small(1) by (subst read_request_head.simps) (simp add: Let_def)
    moreover have "\<exists>s2. read_request_head tls s1 (raw @ bs) = (if tls then HEADERS_TOO_LARGE else HEADERS_READ, take ?n x, s2)"
      using "1.IH" [OF _ r [symmetric] refl _ refl refl] rf room q pl small st
      by (cases "line_fields (cstr (raw @ bs)) = 3 \<and> \<not> tls") simp_all
    ultimately show ?thesis by simp
  qed
qed

lemma head_cut:
  assumes "word_ok 15 m" "word_ok 1023 u" "word_ok 15 p" "\<forall>h\<in>set hs. header_ok h"
    and "length (m @ '' '' @ u @ '' '' @ p) < 700" "RAW_REQUEST_SIZE \<le> length (request_head m u p hs)"
  shows "\<forall>k<RAW_REQUEST_SIZE. line_fields (cstr (take k (request_text m u p hs b))) \<noteq> 2
      \<and> \<not> blank_line_seen (cstr (take k (request_text m u p hs b)))"
    and "\<exists>r. cstr (take (RAW_REQUEST_SIZE - 1) (request_text m u p hs b)) = (m @ '' '' @ u @ '' '' @ p) @ CRLF @ r"
proof -
  let ?h = "request_head m u p hs" and ?x = "request_text m u p hs b"
  have t: "cstr (take k ?x) = take k ?h" if "k < RAW_REQUEST_SIZE" for k
  proof -
    have "take k ?x = take k ?h" using that assms(6) by (simp add: request_text_def)
    moreover have "NUL \<notin> set (take k ?h)" using request_head_nul [OF assms(1-4)] in_set_takeD by metis
    ultimately show ?thesis using cstr_id by simp
  qed
  show "\<forall>k<RAW_REQUEST_SIZE. line_fields (cstr (take k ?x)) \<noteq> 2 \<and> \<not> blank_line_seen (cstr (take k ?x))"
    using request_head_ok(1) [OF assms(1-4)] t assms(6) by (simp add: head_ok_def)
  have "cstr (take (RAW_REQUEST_SIZE - 1) ?x) = take (RAW_REQUEST_SIZE - 1) ?h" by (rule t) (simp add: RAW_REQUEST_SIZE_def)
  moreover have "\<exists>r. take (RAW_REQUEST_SIZE - 1) ?h = (m @ '' '' @ u @ '' '' @ p) @ CRLF @ r"
  proof -
    define rest where "rest = concat (map (\<lambda>w. w @ CRLF) (map header_line hs)) @ CRLF"
    have h: "?h = ((m @ '' '' @ u @ '' '' @ p) @ CRLF) @ rest" by (simp add: request_head_def request_lines_def rest_def)
    have "length ((m @ '' '' @ u @ '' '' @ p) @ CRLF) \<le> RAW_REQUEST_SIZE - 1" using assms(5) by (simp add: RAW_REQUEST_SIZE_def)
    then have "take (RAW_REQUEST_SIZE - 1) ?h = ((m @ '' '' @ u @ '' '' @ p) @ CRLF)
        @ take (RAW_REQUEST_SIZE - 1 - length ((m @ '' '' @ u @ '' '' @ p) @ CRLF)) rest"
      unfolding h by (subst take_append) (simp only: take_all)
    then show ?thesis unfolding append_assoc by blast
  qed
  ultimately show "\<exists>r. cstr (take (RAW_REQUEST_SIZE - 1) ?x) = (m @ '' '' @ u @ '' '' @ p) @ CRLF @ r" by simp
qed

text \<open>
  A divergence from the documents, which promise 431 for every head that does not fit the reader's
  buffer of 32 KiB (http_constants.h, security.md, architecture.md): if the request line is shorter than 700
  bytes and names a version, and no piece comes after a pause, the head is refused with 431 over
  TLS only. On a plain connection the reader stops at the end of the buffer and the request is routed with
  the headers that happened to fit, the last of them cut. (With a longer request line a plain
  connection is refused as well.)
\<close>


theorem oversized_head_routed_when_plain:
  assumes "word_ok 15 m" "word_ok 1023 u" "word_ok 15 p" "prefix ''HTTP/'' p"
    and "\<not> prefix_ci ''http://'' u" "\<not> prefix_ci ''https://'' u" "\<forall>h\<in>set hs. header_ok h"
    and "length (m @ '' '' @ u @ '' '' @ p) < 700" "RAW_REQUEST_SIZE \<le> length (request_head m u p hs)"
    and "well_cut (ssl conn) s" "sock_stream s = request_text m u p hs b"
  shows "if ssl conn then http_route_front env proxies peer conn s = refused env 431 ''431 Request Header Fields Too Large''
    else \<exists>req conn1 ip. http_route_front env proxies peer conn s = Routed req conn1 ip
      \<and> req_method req = m \<and> req_url req = u \<and> req_body req = None"
proof -
  let ?x = "request_text m u p hs b" and ?l = "m @ '' '' @ u @ '' '' @ p"
  let ?cut = "take (RAW_REQUEST_SIZE - 1) ?x"
  note cut = head_cut [OF assms(1-3,7-9), of b]
  obtain r where r: "cstr ?cut = ?l @ CRLF @ r" using cut(2) by blast
  have ok: "?l \<noteq> []" "\<forall>c\<in>set ?l. \<not> is_eol c" using request_lines_ok [OF assms(1-3,7)] by (auto simp: request_lines_def)
  have f: "line_fields (cstr ?cut) = 3"
  proof -
    have "CR \<notin> set ?l" using ok(2) by auto
    then have "strstr (cstr ?cut) CRLF = Some (length ?l)" unfolding r using strstr_skip [of CR ?l "CRLF @ r" "[LF]"] by simp
    moreover have "take (length ?l) (cstr ?cut) = ?l" unfolding r by simp
    ultimately show ?thesis using assms(8) scan_fields_three [OF assms(1-3)] unfolding line_fields_def
      by (simp only: option.case if_True)
  qed
  have len: "RAW_REQUEST_SIZE - 1 \<le> length ?x" using assms(9) by (simp add: request_text_def)
  have "length ([] :: string) < RAW_REQUEST_SIZE - 1" by (simp add: RAW_REQUEST_SIZE_def)
  from read_request_head_overrun [OF cut(1) f len assms(10) _ this] assms(11) obtain s1
    where h: "read_request_head (ssl conn) s [] = (if ssl conn then HEADERS_TOO_LARGE else HEADERS_READ, ?cut, s1)" by auto
  have "\<not> blank_line_seen (cstr ?cut)" using cut(1) by (simp add: RAW_REQUEST_SIZE_def)
  then have nb: "strstr (cstr ?cut) (CRLF @ CRLF) = None" by (simp add: blank_line_seen_def contains_def)
  have ne: "?cut \<noteq> []" using r by (auto simp: cstr_def)
  have tok: "strtok is_eol (cstr ?cut) = ?l # strtok is_eol (LF # r)"
    unfolding r using strtok_sep [OF ok, of CR "LF # r"] by simp
  have sa: "split_absolute_form u = (u, [])" using assms(5,6) by (simp add: split_absolute_form_def)
  note parse = parse_http_request_eq [OF tok scan_request_line_text [OF assms(1-3)] sa]
  have "p \<noteq> []" using assms(3) by (simp add: word_ok_def)
  then show ?thesis
    using h nb ne parse assms(4) by (cases "ssl conn") (simp_all add: http_route_front_def read_body_def accept_request_def)
qed

definition long_header :: HttpHeader where
  "long_header = \<lparr>hkey = ''X'', hval = replicate 508 CHR ''a''\<rparr>"

lemma long_head_length: "length (request_head ''GET'' ''/'' ''HTTP/1.0'' (replicate 64 long_header)) = 32850"
  by (simp add: request_head_def request_lines_def header_line_def long_header_def length_concat sum_list_replicate)

theorem oversized_head_routed_when_plain_witness:
  "\<exists>req conn1 ip. http_route_front example_env [] None example_conn
      \<lparr>so_pieces = [(False, request_text ''GET'' ''/'' ''HTTP/1.0'' (replicate 64 long_header) [])], so_closed = True, so_end_seen = True\<rparr>
     = Routed req conn1 ip \<and> req_method req = ''GET'' \<and> req_url req = ''/'' \<and> req_body req = None"
proof -
  have ok: "header_ok long_header"
    by (simp add: header_ok_def text_ok_def is_blank_def header_fits_def MAX_HEADER_KEY_def MAX_HEADER_VALUE_def long_header_def)
  have w: "word_ok 15 ''GET''" "word_ok 1023 ''/''" "word_ok 15 ''HTTP/1.0''" "prefix ''HTTP/'' ''HTTP/1.0''"
    "\<not> prefix_ci ''http://'' ''/''" "\<not> prefix_ci ''https://'' ''/''" "\<forall>h\<in>set (replicate 64 long_header). header_ok h"
    "length (''GET'' @ '' '' @ ''/'' @ '' '' @ ''HTTP/1.0'') < 700"
    "RAW_REQUEST_SIZE \<le> length (request_head ''GET'' ''/'' ''HTTP/1.0'' (replicate 64 long_header))"
    using ok by (simp_all add: word_ok_def isspace_def prefix_ci_def tolower_def isupper_def long_head_length RAW_REQUEST_SIZE_def)
  let ?s = "\<lparr>so_pieces = [(False, request_text ''GET'' ''/'' ''HTTP/1.0'' (replicate 64 long_header) [])], so_closed = True, so_end_seen = True\<rparr>"
  have c: "well_cut (ssl example_conn) ?s"
    by (simp add: well_cut_def example_conn_def request_text_def request_head_def)
  have st: "sock_stream ?s = request_text ''GET'' ''/'' ''HTTP/1.0'' (replicate 64 long_header) []" by (simp add: sock_stream_def)
  have "\<not> ssl example_conn" by (simp add: example_conn_def)
  with oversized_head_routed_when_plain [OF w c st, of example_env "[]" None] show ?thesis by simp
qed

lemma client_ip_own:
  "proxy_client_ip conn = [] \<Longrightarrow> \<not> is_trusted_proxy proxies (Some (inet_ntop f a)) \<Longrightarrow>
     client_ip proxies (Some (f, a)) conn req = fit 46 (inet_ntop f a)"
  by (simp add: client_ip_def)

lemma routed_client_ip:
  "http_route_front env proxies peer conn s = Routed req conn1 addr \<Longrightarrow> addr = client_ip proxies peer conn req"
  by (auto simp: http_route_front_def accept_request_def refused_def split: prod.splits HeaderEnd.splits BodyEnd.splits
      option.splits if_splits)

lemma thread_claimed_address:
  assumes "connection_thread tenv l = Some (tr, l')" "routed tr = Some conn" "te_peer tenv = Some a" "proxy_client_ip conn \<noteq> []"
  shows "is_trusted_proxy (cfg_trusted_proxies (cfg l)) (Some (inet_ntop4 a))"
  using assms by (auto simp: connection_thread_def thread_body_def read_proxy_header_def Let_def
      split: if_splits option.splits prod.splits ProxyParseStatus.splits)

text \<open>
  C30. From the accepted connection to the routed request: the address a request is recorded under is the
  address of the peer itself, unless the peer is in the list of trusted proxies. Neither a PROXY
  header nor any header of the request lets another peer choose it.
\<close>

theorem client_address_trust:
  assumes "connection_thread tenv l = Some (tr, l')" "routed tr = Some conn" "te_peer tenv = Some a"
    and "http_route_front env (cfg_trusted_proxies (cfg l)) (Some (AF_INET, a)) conn s = Routed req conn1 addr"
  shows "addr = fit 46 (inet_ntop4 a) \<or> is_trusted_proxy (cfg_trusted_proxies (cfg l)) (Some (inet_ntop4 a))"
proof (cases "proxy_client_ip conn = []")
  case True
  then show ?thesis using client_ip_own [OF True, of "cfg_trusted_proxies (cfg l)" AF_INET a req] routed_client_ip [OF assms(4)] by auto
next
  case False
  then show ?thesis using thread_claimed_address [OF assms(1-3)] by simp
qed

theorem client_address_trust_witness:
  "let c = \<lparr>ddos_max_connections = 1, ddos_rate_window_secs = 5, ddos_rate_limit = 2, ddos_max_ips = 1,
            ddos_ip_stale_secs = 300, cfg_proxy_protocol = False, cfg_trusted_proxies = ''10.0.0.1''\<rparr>
   in \<exists>req conn1. http_route_front example_env (cfg_trusted_proxies c) (Some (AF_INET, [CHR 0x7F, CHR 0x00, CHR 0x00, CHR 0x01]))
        example_conn \<lparr>so_pieces = [(False, ''GET /'' @ CRLF @ ''X-Real-IP: 6.6.6.6'' @ CRLF @ CRLF)], so_closed = True, so_end_seen = True\<rparr>
      = Routed req conn1 ''127.0.0.1''"
proof -
  define c where "c = \<lparr>ddos_max_connections = 1, ddos_rate_window_secs = 5, ddos_rate_limit = 2, ddos_max_ips = 1,
            ddos_ip_stale_secs = 300, cfg_proxy_protocol = False, cfg_trusted_proxies = ''10.0.0.1''\<rparr>"
  define te where "te = \<lparr>args_ok = True, conn_malloc_ok = True, te_socket = 5, te_ssl = False,
     te_peer = Some [CHR 0x7F, CHR 0x00, CHR 0x00, CHR 0x01], te_read = (PROXY_NONE, zero_header), te_now = 9, te_ssl_accept = 0\<rparr>"
  let ?s = "\<lparr>so_pieces = [(False, ''GET /'' @ CRLF @ ''X-Real-IP: 6.6.6.6'' @ CRLF @ CRLF)], so_closed = True, so_end_seen = True\<rparr>"
  have t: "connection_thread te (static_listener c) = Some (\<lparr>sent_429 = False, routed = Some example_conn\<rparr>, snd (unregister_connection (static_listener c)))"
    by (simp add: connection_thread_def thread_body_def te_def c_def static_listener_def example_conn_def)
  have cc: "cfg (static_listener c) = c" by (simp add: static_listener_def)
  have peer: "te_peer te = Some [CHR 0x7F, CHR 0x00, CHR 0x00, CHR 0x01]" by (simp add: te_def)
  have ip: "fit 46 (inet_ntop4 [CHR 0x7F, CHR 0x00, CHR 0x00, CHR 0x01]) = ''127.0.0.1''"
    and nt: "\<not> is_trusted_proxy ''10.0.0.1'' (Some (inet_ntop4 [CHR 0x7F, CHR 0x00, CHR 0x00, CHR 0x01]))" by code_simp+
  let ?raw = "''GET /'' @ CRLF @ ''X-Real-IP: 6.6.6.6'' @ CRLF @ CRLF"
  have f: "line_fields (cstr ?raw) = 2" and e: "strstr (cstr ?raw) (CRLF @ CRLF) = Some 25" "content_length_at 25 (cstr ?raw) = None"
    "parse_http_request ?raw = Some \<lparr>req_method = ''GET'', req_url = ''/'', req_protocol = [],
       req_headers = [\<lparr>hkey = ''X-Real-IP'', hval = ''6.6.6.6''\<rparr>], req_body = None\<rparr>"
    by (code_simp, code_simp, code_simp, code_simp)
  have ne: "?raw \<noteq> []" by simp
  have "read_func (RAW_REQUEST_SIZE - 1) ?s = (int (length ?raw), ?raw, ?s\<lparr>so_pieces := []\<rparr>)"
    by (simp add: read_func_def RAW_REQUEST_SIZE_def)
  then have r: "read_request_head False ?s [] = (HEADERS_READ, ?raw, ?s\<lparr>so_pieces := []\<rparr>)"
    using f by (subst read_request_head.simps) (simp add: RAW_REQUEST_SIZE_def Let_def del: append_Cons)
  have b: "read_body ?raw (?s\<lparr>so_pieces := []\<rparr>) = BODY_READ ?raw"
    unfolding read_body_def e(1) option.case Let_def by (simp only: e(2) option.case) simp
  have n: "\<not> ssl example_conn" by (simp add: example_conn_def)
  let ?peer = "Some (AF_INET, [CHR 0x7F, CHR 0x00, CHR 0x00, CHR 0x01])"
  have "\<exists>req conn1 addr. accept_request example_env ''10.0.0.1'' ?peer example_conn ?raw = Routed req conn1 addr"
    unfolding accept_request_def e(3) by simp
  then obtain req conn1 addr where h: "http_route_front example_env ''10.0.0.1'' ?peer example_conn ?s = Routed req conn1 addr"
    unfolding http_route_front_def using n r b ne by (simp del: append_Cons append_Nil) blast
  show ?thesis
    using client_address_trust [OF t _ peer, of example_conn] h ip nt cc by (simp add: c_def)
qed

end
