(* ===== verification/Media_Files.thy ===== *)
theory Media_Files
  imports Router_Guard "HOL-Library.AList"
begin

text \<open>
  The files of the media library (src/src/web_server/http_router.c): which names are accepted for
  directories and uploads, the paths of an image's variants, and deleting and moving them. The file
  system is an association list from paths to what is there. A rename of a directory onto an existing
  one, which the code never asks for, fails.
\<close>

subsection \<open>Files\<close>

datatype FNode = Regular string | Symlink string | Directory

type_synonym Fs = "(string \<times> FNode) list"

definition dirname :: "string \<Rightarrow> string" where
  "dirname p = (case strrchr p CHR ''/'' of None \<Rightarrow> ''.'' | Some i \<Rightarrow> take i p)"

definition is_symlink :: "string \<Rightarrow> Fs \<Rightarrow> bool" where
  "is_symlink path fs \<longleftrightarrow> (case map_of fs path of Some (Symlink t) \<Rightarrow> True | _ \<Rightarrow> False)"

definition lstat_ok :: "string \<Rightarrow> Fs \<Rightarrow> bool" where
  "lstat_ok path fs \<longleftrightarrow> map_of fs path \<noteq> None"

text \<open>A link's target stands in the same directory.\<close>

definition stat_node :: "string \<Rightarrow> Fs \<Rightarrow> FNode option" where
  "stat_node path fs =
     (case map_of fs path of Some (Symlink t) \<Rightarrow> map_of fs (dirname path @ ''/'' @ t) | n \<Rightarrow> n)"

definition unlink :: "string \<Rightarrow> Fs \<Rightarrow> Fs" where
  "unlink path fs = (if map_of fs path = Some Directory then fs else AList.delete path fs)"

definition mkdir :: "string \<Rightarrow> Fs \<Rightarrow> bool \<times> Fs" where
  "mkdir path fs =
     (if map_of fs path = None \<and> map_of fs (dirname path) = Some Directory
      then (True, AList.update path Directory fs) else (False, fs))"

text \<open>rmdir fails with ENOENT on a path that is not there, which the code accepts.\<close>

definition rmdir :: "string \<Rightarrow> Fs \<Rightarrow> bool \<times> Fs" where
  "rmdir path fs =
     (case map_of fs path of
        None \<Rightarrow> (True, fs)
      | Some Directory \<Rightarrow>
          if list_ex (\<lambda>(q, n). prefix (path @ ''/'') q) fs then (False, fs) else (True, AList.delete path fs)
      | Some _ \<Rightarrow> (False, fs))"

definition below :: "string \<Rightarrow> string \<Rightarrow> bool" where
  "below dir p \<longleftrightarrow> p = dir \<or> prefix (dir @ ''/'') p"

text \<open>
  rename: None is an error other than ENOENT. With ENOENT (no source, or no directory for the target)
  nothing changes, and the code goes on as after a success.
\<close>

definition rename_path :: "string \<Rightarrow> string \<Rightarrow> Fs \<Rightarrow> Fs option" where
  "rename_path a b fs =
     (case map_of fs a of
        None \<Rightarrow> Some fs
      | Some Directory \<Rightarrow>
          if map_of fs (dirname b) = None then Some fs
          else if map_of fs (dirname b) = Some Directory \<and> map_of fs b = None \<and> \<not> below a b
          then Some (map (\<lambda>(q, n). (if below a q then b @ drop (length a) q else q, n)) fs) else None
      | Some n \<Rightarrow>
          if map_of fs (dirname b) = None then Some fs
          else if map_of fs (dirname b) \<noteq> Some Directory \<or> map_of fs b = Some Directory then None
          else if a = b then Some fs else Some (AList.update b n (AList.delete a fs)))"

subsection \<open>Names\<close>

definition plain_char :: "char \<Rightarrow> bool" where
  "plain_char c \<longleftrightarrow> isalnum c \<or> c = CHR ''-'' \<or> c = CHR ''_''"

definition media_dir_name_valid :: "string \<Rightarrow> bool" where
  "media_dir_name_valid name \<longleftrightarrow> 3 \<le> length name \<and> length name \<le> 60 \<and> list_all plain_char name"

definition media_username_valid :: "string \<Rightarrow> bool" where
  "media_username_valid username \<longleftrightarrow>
     username \<noteq> [] \<and> hd username \<noteq> CHR ''.'' \<and> list_all (\<lambda>c. plain_char c \<or> c = CHR ''.'') username"

definition media_file_name_valid :: "string \<Rightarrow> bool" where
  "media_file_name_valid name \<longleftrightarrow> media_username_valid name"

definition media_can_manage :: "string \<Rightarrow> string \<Rightarrow> string \<Rightarrow> bool" where
  "media_can_manage role user_id owner_id \<longleftrightarrow> role = ''admin'' \<or> user_id = owner_id"

definition media_scope :: "string \<Rightarrow> string \<Rightarrow> string option" where
  "media_scope role user_id = (if role = ''admin'' \<or> role = ''viewer'' then None else Some user_id)"

definition media_image_extension :: "string \<Rightarrow> string option" where
  "media_image_extension d =
     (if prefix [CHR 0xFF, CHR 0xD8, CHR 0xFF] d then Some ''.jpg''
      else if prefix ([CHR 0x89] @ ''PNG'' @ CRLF @ [CHR 0x1A, LF]) d then Some ''.png''
      else if prefix ''GIF87a'' d \<or> prefix ''GIF89a'' d then Some ''.gif''
      else if length d \<ge> 12 \<and> prefix ''RIFF'' d \<and> prefix ''WEBP'' (drop 8 d) then Some ''.webp''
      else None)"

definition MEDIA_UPLOAD_STEM_MAX :: nat where "MEDIA_UPLOAD_STEM_MAX = 120"

text \<open>The loops of the sanitizer: every character becomes one or none, while there is room.\<close>

fun clean_loop :: "(char \<Rightarrow> char option) \<Rightarrow> nat \<Rightarrow> string \<Rightarrow> string" where
  "clean_loop f n [] = []"
| "clean_loop f 0 (c # cs) = []"
| "clean_loop f (Suc n) (c # cs) =
     (case f c of None \<Rightarrow> clean_loop f (Suc n) cs | Some d \<Rightarrow> d # clean_loop f n cs)"

definition stem_char :: "char \<Rightarrow> char option" where
  "stem_char c = (if c = CHR '' '' \<or> c = CHR ''.'' then Some CHR ''_'' else if plain_char c then Some c else None)"

definition ext_char :: "char \<Rightarrow> char option" where
  "ext_char c = (if isalnum c then Some c else None)"

definition stem_of :: "string \<Rightarrow> string" where
  "stem_of name = (case strrchr name CHR ''.'' of None \<Rightarrow> name | Some i \<Rightarrow> take i name)"

definition ext_of :: "string \<Rightarrow> string" where
  "ext_of name = (case strrchr name CHR ''.'' of None \<Rightarrow> [] | Some i \<Rightarrow> drop i name)"

definition media_sanitize_upload_name :: "string \<Rightarrow> nat \<Rightarrow> string" where
  "media_sanitize_upload_name raw room =
     (let s = clean_loop stem_char (min MEDIA_UPLOAD_STEM_MAX (room - 1)) (stem_of raw);
          stem = (if s = [] then fit room ''image'' else s)
      in if ext_of raw \<noteq> [] \<and> length stem + 1 < room then
           let e = clean_loop ext_char (room - 2 - length stem) (tl (ext_of raw))
           in if e = [] then stem else stem @ ''.'' @ e
         else stem)"

definition taken_suffixes :: "string list" where
  "taken_suffixes = [''.jpg'', ''.jpeg'', ''.png'', ''.gif'', ''.webp'', ''_full.jpg'', ''_full.gif'', ''_half.jpg'', ''_half.gif'']"

definition media_stem_taken :: "string \<Rightarrow> string \<Rightarrow> Fs \<Rightarrow> bool" where
  "media_stem_taken dirpath stem fs \<longleftrightarrow>
     list_ex (\<lambda>s. lstat_ok (fit 1024 (dirpath @ ''/'' @ stem @ s)) fs) taken_suffixes"

function unique_loop :: "string \<Rightarrow> string \<Rightarrow> Fs \<Rightarrow> int \<Rightarrow> string option" where
  "unique_loop dirpath stem fs n =
     (if n < 10000 then
        let candidate = fit (MEDIA_UPLOAD_STEM_MAX + 8) (stem @ ''_'' @ show_int n) in
        if \<not> media_stem_taken dirpath candidate fs then Some candidate else unique_loop dirpath stem fs (n + 1)
      else None)"
  by pat_completeness auto
termination
  by (relation "measure (\<lambda>(d, s, fs, n). nat (10000 - n))") auto

declare unique_loop.simps [simp del]

definition media_unique_name :: "string \<Rightarrow> string \<Rightarrow> nat \<Rightarrow> Fs \<Rightarrow> string option" where
  "media_unique_name dirpath name room fs =
     (let stem = take MEDIA_UPLOAD_STEM_MAX (stem_of name); ext = fit 32 (ext_of name) in
      if \<not> media_stem_taken dirpath stem fs then Some name
      else case unique_loop dirpath stem fs 2 of
             None \<Rightarrow> None
           | Some candidate \<Rightarrow> if length (candidate @ ext) < room then Some (candidate @ ext) else None)"

definition media_name_with_extension :: "string \<Rightarrow> nat \<Rightarrow> string \<Rightarrow> string option" where
  "media_name_with_extension name room ext =
     (let dotted = (ext_of name \<noteq> [] \<and> stem_of name \<noteq> []) in
      if dotted \<and> (eq_ci (ext_of name) ext \<or> ext = ''.jpg'' \<and> eq_ci (ext_of name) ''.jpeg'') then Some name
      else
        let base = (if dotted then stem_of name else name) in
        if length base + length ext + 1 > room then None else Some (base @ ext))"

subsection \<open>The variants of an image\<close>

record CmsMediaItem =
  mi_id :: string
  mi_name :: string
  mi_date :: string
  mi_format :: string
  mi_author_id :: string
  mi_author_username :: string
  mi_dir_id :: string
  mi_dir_name :: string
  mi_dir_parent :: string

definition media_variant_path :: "string \<Rightarrow> string \<Rightarrow> string \<Rightarrow> bool \<Rightarrow> string" where
  "media_variant_path dir_path name sfx force_gif =
     fit 1024 (dir_path @ ''/'' @ take 255 (stem_of name) @ sfx @ (if force_gif then ''.gif'' else ext_of name))"

definition media_link_path :: "string \<Rightarrow> string \<Rightarrow> string \<Rightarrow> string" where
  "media_link_path dir_path name ext = fit 1024 (dir_path @ ''/'' @ take 255 (stem_of name) @ ext)"

definition media_upload_link_exts :: "string list" where
  "media_upload_link_exts =
     [''.jpg'', ''.jpeg'', ''.png'', ''.gif'', ''.webp'', ''.JPG'', ''.JPEG'', ''.PNG'', ''.GIF'', ''.WEBP'']"

definition same_ext_suffixes :: "string list" where "same_ext_suffixes = [[], ''_full'', ''_half'', ''_small'']"
definition gif_suffixes :: "string list" where "gif_suffixes = [''_medium'', ''_micro'']"

definition posts_path :: "string \<Rightarrow> string \<Rightarrow> string" where
  "posts_path username dir = fit 512 (''./html/content/posts/'' @ username @ ''/'' @ dir)"

definition media_item_dir_path :: "CmsMediaItem \<Rightarrow> string" where
  "media_item_dir_path item = posts_path (mi_author_username item) (mi_dir_name item)"

definition media_item_paths_valid :: "CmsMediaItem \<Rightarrow> bool" where
  "media_item_paths_valid item \<longleftrightarrow>
     media_username_valid (mi_author_username item) \<and> media_dir_name_valid (mi_dir_name item)
     \<and> media_file_name_valid (mi_name item)"

definition variant_kinds :: "(string \<times> bool) list" where
  "variant_kinds = map (\<lambda>s. (s, False)) same_ext_suffixes @ map (\<lambda>s. (s, True)) gif_suffixes"

definition media_delete_variants :: "CmsMediaItem \<Rightarrow> Fs \<Rightarrow> Fs" where
  "media_delete_variants item fs =
     (let dir = media_item_dir_path item;
          fs1 = fold (\<lambda>(s, g). unlink (media_variant_path dir (mi_name item) s g)) variant_kinds fs
      in fold (\<lambda>e fs. let path = media_link_path dir (mi_name item) e in if is_symlink path fs then unlink path fs else fs)
           media_upload_link_exts fs1)"

definition rename_or_not :: "string \<Rightarrow> string \<Rightarrow> Fs \<Rightarrow> Fs" where
  "rename_or_not a b fs = (case rename_path a b fs of None \<Rightarrow> fs | Some fs1 \<Rightarrow> fs1)"

text \<open>The first component is false for the return of -1.\<close>

definition media_move_variants :: "CmsMediaItem \<Rightarrow> string \<Rightarrow> Fs \<Rightarrow> bool \<times> Fs" where
  "media_move_variants item dest_dir_name fs =
     (let src = media_item_dir_path item;
          dst = posts_path (mi_author_username item) dest_dir_name;
          (made, fs0) = (if stat_node dst fs = None then mkdir dst fs else (True, fs))
      in if \<not> made then (False, fs0)
         else
           let fs1 = fold (\<lambda>(s, g). rename_or_not (media_variant_path src (mi_name item) s g) (media_variant_path dst (mi_name item) s g))
                       variant_kinds fs0
           in (True, fold (\<lambda>e fs. let path = media_link_path src (mi_name item) e
                                  in if is_symlink path fs then rename_or_not path (media_link_path dst (mi_name item) e) fs else fs)
                       media_upload_link_exts fs1))"

text \<open>The name an upload is recorded under, from the path the optimizer prints.\<close>

definition recorded_name :: "string \<Rightarrow> string" where
  "recorded_name optimized_path =
     (let base = (case strrchr optimized_path CHR ''/'' of None \<Rightarrow> optimized_path | Some i \<Rightarrow> drop (Suc i) optimized_path);
          db_name = fit 512 base
      in case strrchr db_name CHR ''.'' of
           None \<Rightarrow> db_name
         | Some dot \<Rightarrow>
             (case strstr db_name ''_full'' of
                None \<Rightarrow> db_name
              | Some i \<Rightarrow> if i < dot then take i db_name @ drop (i + 5) db_name else db_name))"

lemma map_of_unlink: "map_of (unlink q fs) p = (if p = q \<and> map_of fs q \<noteq> Some Directory then None else map_of fs p)"
  by (auto simp: unlink_def delete_conv')

lemma map_of_unlinks:
  "map_of (fold (\<lambda>x. unlink (f x)) xs fs) p = (if p \<in> f ` set xs \<and> map_of fs p \<noteq> Some Directory then None else map_of fs p)"
proof (induction xs arbitrary: fs)
  case (Cons x xs)
  have "map_of (unlink (f x) fs) p = Some Directory \<longleftrightarrow> map_of fs p = Some Directory" by (auto simp: map_of_unlink)
  with Cons show ?case by (auto simp: map_of_unlink)
qed simp

subsection \<open>Changes of the file system below a directory\<close>

definition changes_below :: "string \<Rightarrow> Fs \<Rightarrow> Fs \<Rightarrow> bool" where
  "changes_below root fs fs1 \<longleftrightarrow> (\<forall>p. \<not> below root p \<longrightarrow> map_of fs1 p = map_of fs p)"

named_theorems fs_change \<open>steps that change the files below one directory only\<close>

lemma below_trans: "below a b \<Longrightarrow> below b c \<Longrightarrow> below a c"
  by (auto simp: below_def prefix_def)

lemma below_child [simp]: "below d (d @ CHR ''/'' # x)"
  by (simp add: below_def)

lemma changes_refl [fs_change]: "changes_below root fs fs"
  by (simp add: changes_below_def)

lemma changes_trans: "changes_below root a b \<Longrightarrow> changes_below root b c \<Longrightarrow> changes_below root a c"
  by (simp add: changes_below_def)

lemma changes_weaken: "changes_below a fs fs1 \<Longrightarrow> below root a \<Longrightarrow> changes_below root fs fs1"
  unfolding changes_below_def using below_trans by blast

lemma changes_update [fs_change]: "below root p \<Longrightarrow> changes_below root fs (AList.update p n fs)"
  by (auto simp: changes_below_def update_conv')

lemma changes_delete [fs_change]: "below root p \<Longrightarrow> changes_below root fs (AList.delete p fs)"
  by (auto simp: changes_below_def delete_conv')

lemma changes_unlink [fs_change]: "below root p \<Longrightarrow> changes_below root fs (unlink p fs)"
  by (simp add: unlink_def changes_refl changes_delete)

lemma changes_mkdir [fs_change]: "below root p \<Longrightarrow> changes_below root fs (snd (mkdir p fs))"
  by (simp add: mkdir_def changes_refl changes_update)

lemma changes_rmdir [fs_change]: "below root p \<Longrightarrow> changes_below root fs (snd (rmdir p fs))"
  by (simp add: rmdir_def changes_refl changes_delete split: option.split FNode.split)

lemma moved_below: "below a q \<Longrightarrow> below b (b @ drop (length a) q)"
  by (auto simp: below_def prefix_def)

lemma map_of_moved:
  "\<not> below a p \<Longrightarrow> \<not> below b p \<Longrightarrow>
     map_of (map (\<lambda>(q, n). (if below a q then b @ drop (length a) q else q, n)) fs) p = map_of fs p"
proof (induction fs)
  case (Cons x fs)
  obtain q n where x: "x = (q, n)" by (cases x) auto
  have "p \<noteq> b @ drop (length a) q" if "below a q" using moved_below [OF that, of b] Cons.prems(2) by metis
  moreover have "p \<noteq> q" if "below a q" using that Cons.prems(1) by metis
  ultimately show ?case using Cons x by auto
qed simp

lemma changes_rename [fs_change]:
  assumes "rename_path a b fs = Some fs1" "below root a" "below root b"
  shows "changes_below root fs fs1"
proof (cases "map_of fs a")
  case (Some n)
  show ?thesis
  proof (cases "n = Directory")
    case True
    have "map_of (map (\<lambda>(q, n). (if below a q then b @ drop (length a) q else q, n)) fs) p = map_of fs p"
      if "\<not> below root p" for p
    proof -
      have "\<not> below a p" "\<not> below b p" using that assms(2,3) below_trans by blast+
      then show ?thesis by (rule map_of_moved)
    qed
    then show ?thesis using assms(1) Some True by (auto simp: rename_path_def changes_below_def split: if_splits)
  next
    case False
    have up: "changes_below root fs (AList.update b n (AList.delete a fs))"
      using changes_trans [OF changes_delete [OF assms(2)] changes_update [OF assms(3)]] .
    have "rename_path a b fs =
        (if map_of fs (dirname b) = None then Some fs
         else if map_of fs (dirname b) \<noteq> Some Directory \<or> map_of fs b = Some Directory then None
         else if a = b then Some fs else Some (AList.update b n (AList.delete a fs)))"
      using Some False by (cases n) (simp_all add: rename_path_def)
    then show ?thesis using assms(1) up by (auto simp: changes_refl split: if_splits)
  qed
qed (use assms(1) in \<open>simp add: rename_path_def changes_refl\<close>)

lemma changes_rename_or_not [fs_change]:
  "below root a \<Longrightarrow> below root b \<Longrightarrow> changes_below root fs (rename_or_not a b fs)"
  by (auto simp: rename_or_not_def changes_refl split: option.split intro: changes_rename)

lemma changes_fold:
  assumes "\<And>x fs. x \<in> set xs \<Longrightarrow> changes_below root fs (f x fs)"
  shows "changes_below root fs (fold f xs fs)"
  using assms
proof (induction xs arbitrary: fs)
  case (Cons x xs)
  then have "changes_below root fs (f x fs)" "changes_below root (f x fs) (fold f xs (f x fs))" by simp_all
  then show ?case using changes_trans by simp
qed (simp add: changes_refl)

subsection \<open>The paths of an image\<close>

lemma fit_short_prefix:
  assumes "length d + 1 < n"
  shows "below d (fit n (d @ CHR ''/'' # x))"
proof -
  define k where "k = n - 2 - length d"
  have "n - 1 = length d + Suc k" using assms by (simp add: k_def)
  then have "fit n (d @ CHR ''/'' # x) = d @ CHR ''/'' # take k x" by (simp add: fit_def)
  then show ?thesis by simp
qed

lemma posts_path_length: "length (posts_path u d) < 512"
  by (simp add: posts_path_def)

lemma variant_below: "below (posts_path u d) (media_variant_path (posts_path u d) name s g)"
  using posts_path_length [of u d] fit_short_prefix [of "posts_path u d" 1024] by (simp add: media_variant_path_def)

lemma link_below: "below (posts_path u d) (media_link_path (posts_path u d) name e)"
  using posts_path_length [of u d] fit_short_prefix [of "posts_path u d" 1024] by (simp add: media_link_path_def)

lemma posts_path_below:
  assumes "length u < 64" "length d \<le> 60"
  shows "posts_path u d = fit 512 (''./html/content/posts/'' @ u) @ ''/'' @ d"
    and "below (fit 512 (''./html/content/posts/'' @ u)) (posts_path u d)"
proof -
  show e: "posts_path u d = fit 512 (''./html/content/posts/'' @ u) @ ''/'' @ d"
    using assms by (simp add: posts_path_def fit_def)
  show "below (fit 512 (''./html/content/posts/'' @ u)) (posts_path u d)" unfolding e by simp
qed

lemma delete_variants_below: "changes_below (media_item_dir_path item) fs (media_delete_variants item fs)"
proof -
  let ?dir = "media_item_dir_path item"
  have v: "changes_below ?dir fs ((\<lambda>(s, g). unlink (media_variant_path ?dir (mi_name item) s g)) x fs)" for x fs
    by (cases x) (simp add: media_item_dir_path_def variant_below changes_unlink)
  have l: "changes_below ?dir fs ((\<lambda>e fs. let path = media_link_path ?dir (mi_name item) e
      in if is_symlink path fs then unlink path fs else fs) e fs)" for e fs
    by (simp add: media_item_dir_path_def link_below changes_unlink changes_refl Let_def)
  show ?thesis unfolding media_delete_variants_def Let_def
    by (rule changes_trans [OF changes_fold [OF v] changes_fold [OF l [unfolded Let_def]]])
qed

lemma move_variants_below:
  assumes "below root (media_item_dir_path item)" "below root (posts_path (mi_author_username item) dest)"
  shows "changes_below root fs (snd (media_move_variants item dest fs))"
proof -
  let ?src = "media_item_dir_path item" and ?dst = "posts_path (mi_author_username item) dest"
  have paths: "below root (media_variant_path ?src n s g)" "below root (media_variant_path ?dst n s g)"
      "below root (media_link_path ?src n e)" "below root (media_link_path ?dst n e)" for n s g e
    using below_trans [OF assms(1)] below_trans [OF assms(2)] variant_below link_below by (auto simp: media_item_dir_path_def)
  have v: "changes_below root fs ((\<lambda>(s, g). rename_or_not (media_variant_path ?src (mi_name item) s g)
      (media_variant_path ?dst (mi_name item) s g)) x fs)" for x fs
    by (cases x) (simp add: paths changes_rename_or_not)
  have l: "changes_below root fs (if is_symlink (media_link_path ?src (mi_name item) e) fs
      then rename_or_not (media_link_path ?src (mi_name item) e) (media_link_path ?dst (mi_name item) e) fs else fs)" for e fs
    by (simp add: paths changes_rename_or_not changes_refl)
  have m: "changes_below root fs (snd (if stat_node ?dst fs = None then mkdir ?dst fs else (True, fs)))"
    using changes_mkdir [OF assms(2), of fs] by (simp add: changes_refl)
  obtain made fs0 where f: "(if stat_node ?dst fs = None then mkdir ?dst fs else (True, fs)) = (made, fs0)" by fastforce
  have "changes_below root fs fs0" using m f by simp
  moreover have "changes_below root fs0 (fold (\<lambda>e fs. if is_symlink (media_link_path ?src (mi_name item) e) fs
      then rename_or_not (media_link_path ?src (mi_name item) e) (media_link_path ?dst (mi_name item) e) fs else fs) media_upload_link_exts
      (fold (\<lambda>(s, g). rename_or_not (media_variant_path ?src (mi_name item) s g) (media_variant_path ?dst (mi_name item) s g)) variant_kinds fs0))"
    by (rule changes_trans [OF changes_fold [OF v] changes_fold [OF l]])
  ultimately show ?thesis using f changes_trans by (simp add: media_move_variants_def Let_def)
qed

subsection \<open>The name of an upload\<close>

lemma strrchr_here: "c \<notin> set e \<Longrightarrow> strrchr (s @ c # e) c = Some (length s)"
  using strchr_here [of c "rev e" "rev s"] by (simp add: strrchr_def)

lemma split_name:
  assumes "CHR ''.'' \<notin> set e"
  shows "stem_of (s @ CHR ''.'' # e) = s" and "ext_of (s @ CHR ''.'' # e) = CHR ''.'' # e"
  using strrchr_here [OF assms, of s] by (simp_all add: stem_of_def ext_of_def)

lemma split_no_dot:
  assumes "CHR ''.'' \<notin> set s"
  shows "stem_of s = s" and "ext_of s = []"
proof -
  have "strrchr s CHR ''.'' = None" using assms by (simp add: strrchr_def strchr_None)
  then show "stem_of s = s" "ext_of s = []" by (simp_all add: stem_of_def ext_of_def)
qed

lemma plain_not_dot: "list_all plain_char s \<Longrightarrow> CHR ''.'' \<notin> set s"
  by (auto simp: list_all_iff plain_char_def ctype_defs)

lemma clean_loop_all: "(\<And>d c. f d = Some c \<Longrightarrow> P c) \<Longrightarrow> list_all P (clean_loop f n s)"
  by (induction f n s rule: clean_loop.induct) (auto split: option.splits)

lemma clean_loop_length: "length (clean_loop f n s) \<le> n"
  by (induction f n s rule: clean_loop.induct) (auto split: option.splits)

lemma clean_stem_plain: "list_all plain_char (clean_loop stem_char n s)"
  by (rule clean_loop_all) (auto simp: stem_char_def plain_char_def split: if_splits)

lemma clean_ext_plain: "list_all plain_char (clean_loop ext_char n s)"
  by (rule clean_loop_all) (auto simp: ext_char_def plain_char_def split: if_splits)

text \<open>A name of the form the code stores: a plain stem, and a dot with a plain extension or nothing.\<close>

definition plain_name :: "string \<Rightarrow> string \<Rightarrow> bool" where
  "plain_name s e \<longleftrightarrow> s \<noteq> [] \<and> list_all plain_char s \<and> list_all plain_char e"

lemma sanitized_form:
  "\<exists>s e. plain_name s e \<and> length s \<le> 120
     \<and> media_sanitize_upload_name raw 256 = (if e = [] then s else s @ CHR ''.'' # e)"
proof -
  let ?c = "clean_loop stem_char 120 (stem_of raw)"
  define s where "s = (if ?c = [] then ''image'' else ?c)"
  have i: "list_all plain_char ''image''" by (simp add: plain_char_def isalnum_def isalpha_def islower_def)
  have s: "s \<noteq> []" "list_all plain_char s" "length s \<le> 120"
    using clean_stem_plain [of 120 "stem_of raw"] clean_loop_length [of stem_char 120 "stem_of raw"] i
    by (auto simp: s_def)
  let ?e = "if ext_of raw \<noteq> [] \<and> length s + 1 < 256 then clean_loop ext_char (256 - 2 - length s) (tl (ext_of raw)) else []"
  have e: "list_all plain_char ?e" using clean_ext_plain by simp
  have m: "min MEDIA_UPLOAD_STEM_MAX (256 - 1) = 120" by (simp add: MEDIA_UPLOAD_STEM_MAX_def)
  have f: "fit 256 ''image'' = ''image''" by (simp add: fit_def)
  have "media_sanitize_upload_name raw 256 = (if ?e = [] then s else s @ CHR ''.'' # ?e)"
    unfolding media_sanitize_upload_name_def m f Let_def s_def [symmetric] by simp
  then show ?thesis using s e unfolding plain_name_def by blast
qed

lemma eq_ci_length: "eq_ci a b \<Longrightarrow> length a = length b"
  unfolding eq_ci_def using map_eq_imp_length_eq by blast

lemma image_extension_cases:
  "media_image_extension d = Some ext \<Longrightarrow> ext = ''.jpg'' \<or> ext = ''.png'' \<or> ext = ''.gif'' \<or> ext = ''.webp''"
  by (auto simp: media_image_extension_def split: if_splits)

definition ext_fits :: "string \<Rightarrow> string \<Rightarrow> bool" where
  "ext_fits e ext \<longleftrightarrow> eq_ci e ext \<or> ext = ''.jpg'' \<and> eq_ci e ''.jpeg''"

lemma named_form:
  assumes "media_image_extension d = Some ext"
    and "media_name_with_extension (media_sanitize_upload_name raw 256) 256 ext = Some name"
  shows "\<exists>s e. plain_name s e \<and> length s \<le> 120 \<and> length e \<le> 4 \<and> name = s @ CHR ''.'' # e \<and> ext_fits (CHR ''.'' # e) ext"
proof -
  obtain s e where se: "plain_name s e" "length s \<le> 120"
      "media_sanitize_upload_name raw 256 = (if e = [] then s else s @ CHR ''.'' # e)"
    using sanitized_form by blast
  obtain x where x: "ext = CHR ''.'' # x" "list_all plain_char x" "length x \<le> 4"
    using image_extension_cases [OF assms(1)] by (auto simp: plain_char_def isalnum_def isalpha_def islower_def)
  have dots: "CHR ''.'' \<notin> set s" "CHR ''.'' \<notin> set e" using se(1) plain_not_dot by (auto simp: plain_name_def)
  have added: "plain_name s x" "ext_fits (CHR ''.'' # x) ext" using se(1) x by (simp_all add: plain_name_def ext_fits_def)
  show ?thesis
  proof (cases "e = []")
    case True
    then have "name = s @ ext" using assms(2) se split_no_dot [OF dots(1)]
      by (auto simp: media_name_with_extension_def plain_name_def split: if_splits)
    then show ?thesis using added se(2) x by blast
  next
    case False
    note sp = split_name [OF dots(2), of s]
    have ne: "s \<noteq> []" using se(1) by (simp add: plain_name_def)
    show ?thesis
    proof (cases "ext_fits (CHR ''.'' # e) ext")
      case True
      then have "name = s @ CHR ''.'' # e" using assms(2) se(3) False sp ne
        by (simp add: media_name_with_extension_def ext_fits_def Let_def)
      moreover have "length e \<le> 4"
        using True eq_ci_length [of "CHR ''.'' # e" ext] eq_ci_length [of "CHR ''.'' # e" "''.jpeg''"] x(1,3) by (auto simp: ext_fits_def)
      ultimately show ?thesis using True se by blast
    next
      case no: False
      then have "name = s @ ext" using assms(2) se(3) False sp ne
        by (auto simp: media_name_with_extension_def ext_fits_def Let_def split: if_splits)
      then show ?thesis using added se(2) x by blast
    qed
  qed
qed

lemma plain_valid: "plain_name s e \<Longrightarrow> media_file_name_valid (s @ CHR ''.'' # e)"
proof -
  assume p: "plain_name s e"
  then obtain c cs where c: "s = c # cs" "plain_char c" by (cases s) (auto simp: plain_name_def)
  then have "c \<noteq> CHR ''.''" by (auto simp: plain_char_def ctype_defs)
  then show ?thesis using p c by (auto simp: media_file_name_valid_def media_username_valid_def plain_name_def list_all_iff)
qed

lemma show_int_plain_chars: "0 \<le> n \<Longrightarrow> list_all plain_char (show_int n)"
proof -
  assume "0 \<le> n"
  moreover have "list_all plain_char (show_nat k)" for k
    using show_nat_digits [of _ k] by (auto simp: list_all_iff plain_char_def ctype_defs)
  ultimately show ?thesis by (simp add: show_int_def)
qed

lemma unique_loop_free:
  "unique_loop dir s fs n = Some c \<Longrightarrow> 0 \<le> n \<Longrightarrow>
     \<not> media_stem_taken dir c fs \<and> (\<exists>k\<ge>0. c = fit (MEDIA_UPLOAD_STEM_MAX + 8) (s @ ''_'' @ show_int k))"
proof (induction dir s fs n rule: unique_loop.induct)
  case (1 dir s fs n)
  then show ?case by (subst (asm) (2) unique_loop.simps) (auto simp: Let_def split: if_splits)
qed

lemma unique_form:
  assumes "plain_name s e" "length s \<le> 120" "length e \<le> 4" "media_unique_name dir (s @ CHR ''.'' # e) 256 fs = Some n"
  shows "\<exists>c. plain_name c e \<and> length c \<le> 127 \<and> n = c @ CHR ''.'' # e \<and> \<not> media_stem_taken dir c fs
    \<and> (c = s \<or> (\<exists>k\<ge>0. c = fit 128 (s @ ''_'' @ show_int k)))"
proof -
  note sp = split_name [OF plain_not_dot, of e s]
  have e: "list_all plain_char e" using assms(1) by (simp add: plain_name_def)
  have st: "take MEDIA_UPLOAD_STEM_MAX (stem_of (s @ CHR ''.'' # e)) = s" "fit 32 (ext_of (s @ CHR ''.'' # e)) = CHR ''.'' # e"
    using sp [OF e] assms(2,3) by (simp_all add: MEDIA_UPLOAD_STEM_MAX_def fit_def)
  show ?thesis
  proof (cases "media_stem_taken dir s fs")
    case False
    then show ?thesis using assms st by (auto simp: media_unique_name_def Let_def)
  next
    case True
    then obtain c where c: "unique_loop dir s fs 2 = Some c" "n = c @ CHR ''.'' # e"
      using assms(4) st by (auto simp: media_unique_name_def Let_def split: option.splits if_splits)
    from unique_loop_free [OF c(1)] obtain k where k: "\<not> media_stem_taken dir c fs" "0 \<le> k" "c = fit 128 (s @ ''_'' @ show_int k)"
      by (auto simp: MEDIA_UPLOAD_STEM_MAX_def)
    have "list_all plain_char (s @ ''_'' @ show_int k)"
      using assms(1) show_int_plain_chars [OF k(2)] by (simp add: plain_name_def plain_char_def)
    then have "list_all plain_char c" unfolding k(3) by (rule list_all_fit)
    moreover have "c \<noteq> []" using assms(1) k(3) by (cases s) (simp_all add: plain_name_def fit_def)
    moreover have "length c \<le> 127" unfolding k(3) by (simp add: fit_def)
    ultimately show ?thesis using c(2) k e by (auto simp: plain_name_def)
  qed
qed

text \<open>
  C40. The name an upload is stored under, whatever name the browser sent: of plain characters with
  one dot, so that it is one component of a path and safe in a shell's quotes; with the extension of
  what the file's content really is; and not used by an earlier upload of the directory.
\<close>

theorem upload_name_safe:
  assumes "media_image_extension data = Some ext"
    and "media_name_with_extension (media_sanitize_upload_name raw 256) 256 ext = Some name"
    and "media_unique_name dir name 256 fs = Some n"
  shows "media_file_name_valid n \<and> list_all plain_char (stem_of n) \<and> length n < 256
    \<and> (eq_ci (ext_of n) ext \<or> ext = ''.jpg'' \<and> eq_ci (ext_of n) ''.jpeg'') \<and> \<not> media_stem_taken dir (stem_of n) fs"
proof -
  obtain s e where se: "plain_name s e" "length s \<le> 120" "length e \<le> 4" "name = s @ CHR ''.'' # e" "ext_fits (CHR ''.'' # e) ext"
    using named_form [OF assms(1,2)] by blast
  obtain c where c: "plain_name c e" "length c \<le> 127" "n = c @ CHR ''.'' # e" "\<not> media_stem_taken dir c fs"
    using unique_form [OF se(1-3)] assms(3) se(4) by blast
  have "list_all plain_char e" using c(1) by (simp add: plain_name_def)
  note sp = split_name [OF plain_not_dot [OF this], of c]
  show ?thesis using plain_valid [OF c(1)] c se(3,5) sp by (simp add: plain_name_def ext_fits_def)
qed

theorem upload_name_safe_witness:
  "media_unique_name ''d'' ''__my_full_pic.JPEG'' 256 [(''d/__my_full_pic_half.jpg'', Regular [])] = Some ''__my_full_pic_2.JPEG''
   \<and> media_file_name_valid ''__my_full_pic_2.JPEG''"
proof -
  have e: "media_image_extension [CHR 0xFF, CHR 0xD8, CHR 0xFF, CHR 0xE0] = Some ''.jpg''" by code_simp
  have n: "media_name_with_extension (media_sanitize_upload_name ''../my_full.p~ic.JPEG'' 256) 256 ''.jpg'' = Some ''__my_full_pic.JPEG''"
    by code_simp
  have u: "media_unique_name ''d'' ''__my_full_pic.JPEG'' 256 [(''d/__my_full_pic_half.jpg'', Regular [])] = Some ''__my_full_pic_2.JPEG''"
    by code_simp
  show ?thesis using upload_name_safe [OF e n u] u by simp
qed

definition half_house :: CmsMediaItem where
  "half_house = \<lparr>mi_id = ''1'', mi_name = recorded_name ''./html/content/posts/ann/pics/my_full_house_full.jpg'', mi_date = [],
     mi_format = ''jpg'', mi_author_id = ''a'', mi_author_username = ''ann'', mi_dir_id = ''d'', mi_dir_name = ''pics'', mi_dir_parent = ''posts''\<rparr>"

text \<open>
  The name recorded for an upload is the printed one without the first \<open>_full\<close> in it, which is
  not the variant's when the upload's own name holds one. The image is then recorded under a name that has no
  files, and deleting it deletes the full-size file of another image and leaves its own.
\<close>

theorem recorded_name_of_another:
  "mi_name half_house = ''my_house_full.jpg'' \<and> media_item_paths_valid half_house
   \<and> media_delete_variants half_house
       [(''./html/content/posts/ann/pics/my_house_full.jpg'', Regular ''house''),
        (''./html/content/posts/ann/pics/my_full_house_full.jpg'', Regular ''full house'')]
     = [(''./html/content/posts/ann/pics/my_full_house_full.jpg'', Regular ''full house'')]"
proof -
  have "mi_name half_house = ''my_house_full.jpg''" "media_item_paths_valid half_house" by code_simp+
  moreover have "media_delete_variants half_house
       [(''./html/content/posts/ann/pics/my_house_full.jpg'', Regular ''house''),
        (''./html/content/posts/ann/pics/my_full_house_full.jpg'', Regular ''full house'')]
     = [(''./html/content/posts/ann/pics/my_full_house_full.jpg'', Regular ''full house'')]" by code_simp
  ultimately show ?thesis by blast
qed

lemma rename_other:
  assumes "\<not> below a p" "\<not> below b p"
  shows "map_of (rename_or_not a b fs) p = map_of fs p"
proof (cases "map_of fs a")
  case (Some n)
  have "p \<noteq> a" "p \<noteq> b" using assms by (auto simp: below_def)
  then show ?thesis using Some map_of_moved [OF assms]
    by (cases n) (auto simp: rename_or_not_def rename_path_def update_conv' delete_conv' split: if_splits)
qed (simp add: rename_or_not_def rename_path_def)

lemma rename_arrives:
  assumes "map_of fs a = Some (Regular x)" "map_of fs (dirname b) = Some Directory" "map_of fs b \<noteq> Some Directory"
  shows "map_of (rename_or_not a b fs) b = Some (Regular x)"
  using assms by (auto simp: rename_or_not_def rename_path_def update_conv')

lemma fold_rename_other:
  "\<forall>x\<in>set xs. \<not> below (f x) p \<and> \<not> below (g x) p \<Longrightarrow> map_of (fold (\<lambda>x. rename_or_not (f x) (g x)) xs fs) p = map_of fs p"
  by (induction xs arbitrary: fs) (simp_all add: rename_other)

lemma below_same_dir: "CHR ''/'' \<notin> set y \<Longrightarrow> below (d @ CHR ''/'' # x) (d @ CHR ''/'' # y) \<longleftrightarrow> x = y"
  by (auto simp: below_def prefix_def)

lemma below_other_dir:
  assumes "CHR ''/'' \<notin> set y" "d1 \<noteq> d2" "\<not> below d1 d2"
  shows "\<not> below (d1 @ CHR ''/'' # x) (d2 @ CHR ''/'' # y)"
proof
  assume "below (d1 @ CHR ''/'' # x) (d2 @ CHR ''/'' # y)"
  then have "prefix (d1 @ ''/'') (d2 @ CHR ''/'' # y)" by (auto simp: below_def prefix_def)
  then obtain z where z: "d1 @ CHR ''/'' # z = d2 @ CHR ''/'' # y" by (auto simp: prefix_def)
  then consider (longer) w where "d1 = d2 @ w" "w @ CHR ''/'' # z = CHR ''/'' # y"
    | (shorter) w where "d2 = d1 @ w" "CHR ''/'' # z = w @ CHR ''/'' # y" by (auto simp: append_eq_append_conv2)
  then show False
  proof cases
    case longer
    then have "w \<noteq> []" using assms(2) by auto
    then have "CHR ''/'' \<in> set y" using longer(2) by (cases w) auto
    then show False using assms(1) by simp
  next
    case shorter
    then have "w \<noteq> []" using assms(2) by auto
    then show False using shorter assms(3) by (cases w) (auto simp: below_def)
  qed
qed

lemma plain_no_slash: "list_all plain_char s \<Longrightarrow> CHR ''/'' \<notin> set s"
  by (auto simp: list_all_iff plain_char_def ctype_defs)

text \<open>The paths of an image with a name of the form the code stores.\<close>

lemma variant_path_eq:
  assumes "plain_name s e" "length s \<le> 127" "length e \<le> 4" "length x \<le> 7"
  shows "media_variant_path (posts_path u d) (s @ CHR ''.'' # e) x g =
    posts_path u d @ CHR ''/'' # s @ x @ (if g then ''.gif'' else CHR ''.'' # e)"
proof -
  have "CHR ''.'' \<notin> set e" using assms(1) plain_not_dot by (simp add: plain_name_def)
  note sp = split_name [OF this, of s]
  show ?thesis using posts_path_length [of u d] assms(2-4) by (simp add: media_variant_path_def sp fit_id)
qed

lemma link_path_eq:
  assumes "plain_name s e" "length s \<le> 127" "length x \<le> 7"
  shows "media_link_path (posts_path u d) (s @ CHR ''.'' # e) x = posts_path u d @ CHR ''/'' # s @ x"
proof -
  have "CHR ''.'' \<notin> set e" using assms(1) plain_not_dot by (simp add: plain_name_def)
  note sp = split_name [OF this, of s]
  show ?thesis using posts_path_length [of u d] assms(2,3) by (simp add: media_link_path_def sp fit_id)
qed

text \<open>Files of an image in two directories of one author.\<close>

lemma two_directories:
  assumes "length u < 64" "media_dir_name_valid d1" "media_dir_name_valid d2" "d1 \<noteq> d2" "CHR ''/'' \<notin> set y"
  shows "\<not> below (posts_path u d1 @ CHR ''/'' # x) (posts_path u d2 @ CHR ''/'' # y)"
    and "\<not> below (posts_path u d1 @ CHR ''/'' # x) (posts_path u d2)"
    and "\<not> below (posts_path u d2 @ CHR ''/'' # x) (posts_path u d2)"
proof -
  let ?a = "fit 512 (''./html/content/posts/'' @ u)"
  have p: "posts_path u d1 = ?a @ CHR ''/'' # d1" "posts_path u d2 = ?a @ CHR ''/'' # d2"
    using posts_path_below(1) [OF assms(1)] assms(2,3) by (simp_all add: media_dir_name_valid_def)
  have "CHR ''/'' \<notin> set d2" using assms(3) plain_no_slash by (simp add: media_dir_name_valid_def)
  then have nb: "\<not> below (posts_path u d1) (posts_path u d2)" using below_same_dir assms(4) unfolding p by simp
  show "\<not> below (posts_path u d1 @ CHR ''/'' # x) (posts_path u d2 @ CHR ''/'' # y)"
    by (rule below_other_dir [OF assms(5) _ nb]) (use assms(4) p in simp)
  show "\<not> below (posts_path u d1 @ CHR ''/'' # x) (posts_path u d2)"
    using nb below_trans [OF below_child] by blast
  show "\<not> below (posts_path u d2 @ CHR ''/'' # x) (posts_path u d2)"
    by (auto simp: below_def dest: prefix_length_le)
qed

lemma fold_move_links:
  assumes "\<forall>e\<in>set es. \<not> below (f e) p \<and> \<not> below (g e) p"
  shows "map_of (fold (\<lambda>e fs. if is_symlink (f e) fs then rename_or_not (f e) (g e) fs else fs) es fs) p = map_of fs p"
  using assms by (induction es arbitrary: fs) (simp_all add: rename_other)

lemma fold_no_links:
  "\<forall>e\<in>set es. \<not> is_symlink (f e) fs \<Longrightarrow> fold (\<lambda>e fs. if is_symlink (f e) fs then unlink (f e) fs else fs) es fs = fs"
  by (induction es) simp_all

text \<open>What the optimizer leaves of an upload, and what deleting an image without links left over does.\<close>

definition optimizer_files :: "string \<Rightarrow> string \<Rightarrow> string \<Rightarrow> string list" where
  "optimizer_files dir s e = map (\<lambda>t. dir @ CHR ''/'' # s @ t)
     [''_full.'' @ e, ''_half.'' @ e, ''_small.'' @ e, ''_medium.gif'', ''_micro.gif'']"

lemma delete_variants_files:
  assumes "mi_name item = s @ CHR ''.'' # e" "plain_name s e" "length s \<le> 127" "length e \<le> 4"
    and "\<And>p t. map_of fs p \<noteq> Some (Symlink t)"
    and "\<And>p. p \<in> set (optimizer_files (media_item_dir_path item) s e) \<Longrightarrow> map_of fs p \<noteq> Some Directory"
    and "map_of fs (media_item_dir_path item @ CHR ''/'' # s @ CHR ''.'' # e) = None"
  shows "map_of (media_delete_variants item fs) p =
      (if p \<in> set (optimizer_files (media_item_dir_path item) s e) then None else map_of fs p)"
proof -
  let ?dir = "media_item_dir_path item"
  let ?V = "\<lambda>(x, g). media_variant_path ?dir (mi_name item) x g"
  have V: "media_variant_path ?dir (mi_name item) x g = ?dir @ CHR ''/'' # s @ x @ (if g then ''.gif'' else CHR ''.'' # e)"
    if "length x \<le> 7" for x g
    using variant_path_eq [OF assms(2,3,4) that] by (simp add: assms(1) media_item_dir_path_def)
  have set: "?V ` set variant_kinds = insert (?dir @ CHR ''/'' # s @ CHR ''.'' # e) (set (optimizer_files ?dir s e))"
    by (auto simp: variant_kinds_def same_ext_suffixes_def gif_suffixes_def optimizer_files_def V)
  define fs1 where "fs1 = fold (\<lambda>x. unlink (?V x)) variant_kinds fs"
  have m: "map_of fs1 p = (if p \<in> set (optimizer_files ?dir s e) then None else map_of fs p)" for p
    unfolding fs1_def map_of_unlinks set using assms(6,7) by auto
  have "\<not> is_symlink q fs1" for q using assms(5) m [of q] by (auto simp: is_symlink_def split: option.splits FNode.splits)
  then have "media_delete_variants item fs = fs1"
    unfolding media_delete_variants_def Let_def fs1_def by (subst fold_no_links) (simp_all add: case_prod_beta')
  then show ?thesis using m by simp
qed

lemma no_full_in_numbered:
  assumes "\<not> contains s ''_full''" "list_all (\<lambda>c. c \<noteq> CHR ''l'') r"
  shows "\<not> contains (fit n (s @ r)) ''_full''"
proof
  assume "contains (fit n (s @ r)) ''_full''"
  then obtain a b where "take (n - 1) (s @ r) = a @ ''_full'' @ b" by (auto simp: contains_iff fit_def)
  then obtain x where e: "s @ r = a @ ''_full'' @ x" by (metis append_assoc append_take_drop_id)
  show False
  proof (cases "length s < length a + 5")
    case False
    have "take (length a + 5) (s @ r) = a @ ''_full''" unfolding e by simp
    then have "take (length a + 5) s = a @ ''_full''" using False by simp
    then have "s = a @ ''_full'' @ drop (length a + 5) s" by (metis append_assoc append_take_drop_id)
    then show False using assms(1) contains_iff by blast
  next
    case over: True
    have "(s @ r) ! (length a + 4) = CHR ''l''" unfolding e by (simp add: nth_append)
    moreover have "length a + 4 < length (s @ r)" unfolding e by simp
    ultimately have "r ! (length a + 4 - length s) = CHR ''l''" "length a + 4 - length s < length r"
      using over by (auto simp: nth_append)
    then have "CHR ''l'' \<in> set r" using nth_mem by metis
    then show False using assms(2) by (auto simp: list_all_iff)
  qed
qed

lemma strstr_tag:
  assumes "\<not> contains s ''_full''"
  shows "strstr (s @ ''_full'' @ t) ''_full'' = Some (length s)"
proof -
  have "\<not> prefix ''_full'' (drop j (s @ ''_full'' @ t))" if "j < length s" for j
  proof
    assume p: "prefix ''_full'' (drop j (s @ ''_full'' @ t))"
    show False
    proof (cases "j + 5 \<le> length s")
      case True
      then have "prefix ''_full'' (drop j s)" using p prefix_append_short [of "''_full''" "drop j s"] by simp
      then obtain w where "drop j s = ''_full'' @ w" by (auto simp: prefix_def)
      then have "s = take j s @ ''_full'' @ w" by (metis append_take_drop_id)
      then show False using assms contains_iff by blast
    next
      case False
      define k where "k = length s - j"
      have k: "0 < k" "k < 5" using that False by (auto simp: k_def)
      have "drop j (s @ ''_full'' @ t) = drop j s @ ''_full'' @ t" using that by simp
      then obtain w where "drop j s @ ''_full'' @ t = ''_full'' @ w" using p by (metis prefixE)
      then have "(drop j s @ ''_full'' @ t) ! k = (''_full'' @ w) ! k" by simp
      moreover have "(drop j s @ ''_full'' @ t) ! k = CHR ''_''" using that by (simp add: nth_append k_def)
      ultimately have "(''_full'' @ w) ! k = CHR ''_''" by simp
      moreover have "k = 1 \<or> k = 2 \<or> k = 3 \<or> k = 4" using k by auto
      ultimately show False by (elim disjE) simp_all
    qed
  qed
  then show ?thesis by (simp add: strstr_Some_iff)
qed

lemma recorded_name_plain:
  assumes "plain_name s e" "length s \<le> 127" "length e \<le> 4" "\<not> contains s ''_full''"
  shows "recorded_name (dir @ CHR ''/'' # s @ ''_full.'' @ e) = s @ CHR ''.'' # e"
proof -
  have sl: "CHR ''/'' \<notin> set (s @ ''_full.'' @ e)" using assms(1) plain_no_slash by (auto simp: plain_name_def)
  have dot: "CHR ''.'' \<notin> set e" using assms(1) plain_not_dot by (simp add: plain_name_def)
  have f: "fit 512 (s @ ''_full.'' @ e) = s @ ''_full.'' @ e" by (rule fit_id) (use assms(2,3) in simp)
  have "strrchr (s @ ''_full.'' @ e) CHR ''.'' = Some (length s + 5)"
    using strrchr_here [OF dot, of "s @ ''_full''"] by simp
  moreover have "strstr (s @ ''_full.'' @ e) ''_full'' = Some (length s)"
    using strstr_tag [OF assms(4), of "CHR ''.'' # e"] by simp
  ultimately show ?thesis using strrchr_here [OF sl, of dir] f [unfolded append.simps] by (simp add: recorded_name_def Let_def)
qed

text \<open>
  Moving an image into a directory of the same author that holds one of the same name replaces that
  one's files: an upload looks for a free name, a move does not.
\<close>

theorem move_overwrites:
  assumes "mi_name item = s @ CHR ''.'' # e" "plain_name s e" "length s \<le> 120" "length e \<le> 4"
    and "length (mi_author_username item) < 64" "media_dir_name_valid (mi_dir_name item)" "media_dir_name_valid dest" "dest \<noteq> mi_dir_name item"
    and "map_of fs (media_variant_path (media_item_dir_path item) (mi_name item) ''_full'' False) = Some (Regular mine)"
    and "map_of fs (media_variant_path (posts_path (mi_author_username item) dest) (mi_name item) ''_full'' False) = Some (Regular other)"
    and "map_of fs (posts_path (mi_author_username item) dest) = Some Directory"
  shows "map_of (snd (media_move_variants item dest fs))
      (media_variant_path (posts_path (mi_author_username item) dest) (mi_name item) ''_full'' False) = Some (Regular mine)"
proof -
  let ?u = "mi_author_username item"
  let ?src = "posts_path ?u (mi_dir_name item)" and ?dst = "posts_path ?u dest"
  define V where "V d x g = media_variant_path d (mi_name item) x g" for d x g
  define t where "t x g = s @ x @ (if g then ''.gif'' else CHR ''.'' # e)" for x :: string and g :: bool
  have V: "V (posts_path ?u d) x g = posts_path ?u d @ CHR ''/'' # t x g" if "length x \<le> 7" for d x g
    using variant_path_eq [OF assms(2) _ assms(4) that, of ?u d g] assms(1,3) by (simp add: V_def t_def)
  have slash: "CHR ''/'' \<notin> set (t x g)" if "CHR ''/'' \<notin> set x" for x g
    using that plain_no_slash assms(2) by (auto simp: t_def plain_name_def)
  have full: "CHR ''/'' \<notin> set (t ''_full'' False)" by (rule slash) simp
  note A = two_directories [OF assms(5,6,7) assms(8) [symmetric]] and B = two_directories [OF assms(5,7,6) assms(8)]
  have src: "media_item_dir_path item = ?src" by (simp add: media_item_dir_path_def)
  let ?p = "V ?dst ''_full'' False" and ?a = "V ?src ''_full'' False"
  let ?mv = "\<lambda>(x, g). rename_or_not (V ?src x g) (V ?dst x g)"
  have kinds: "variant_kinds = ([], False) # (''_full'', False) # map (\<lambda>x. x) [(''_half'', False), (''_small'', False), (''_medium'', True), (''_micro'', True)]"
    by (simp add: variant_kinds_def same_ext_suffixes_def gif_suffixes_def)
  define fs1 where "fs1 = rename_or_not (V ?src [] False) (V ?dst [] False) fs"
  have differ: "t [] False \<noteq> t ''_full'' False" "t ''_half'' False \<noteq> t ''_full'' False" "t ''_small'' False \<noteq> t ''_full'' False"
    "t ''_medium'' True \<noteq> t ''_full'' False" "t ''_micro'' True \<noteq> t ''_full'' False" by (simp_all add: t_def)
  have step: "map_of (rename_or_not (V ?src x g) (V ?dst x g) fs) ?p = map_of fs ?p"
    if "length x \<le> 7" "t x g \<noteq> t ''_full'' False" for x g fs
    using A(1) [OF full] full that by (intro rename_other) (simp_all add: V below_same_dir)
  have "map_of fs1 ?a = map_of fs ?a"
    unfolding fs1_def using B(1) [OF full] full differ(1) by (intro rename_other) (simp_all add: V below_same_dir)
  then have "map_of fs1 ?a = Some (Regular mine)" using assms(9) by (simp add: V_def src)
  moreover have "map_of fs1 ?dst = Some Directory"
    unfolding fs1_def using assms(11) A(2,3) [OF full] by (subst rename_other) (simp_all add: V)
  moreover have "map_of fs1 ?p = Some (Regular other)"
    unfolding fs1_def using step [OF _ differ(1)] assms(10) by (simp add: V_def)
  moreover have "dirname ?p = ?dst" using strrchr_here [OF full, of ?dst] by (simp add: V dirname_def)
  ultimately have two: "map_of (rename_or_not ?a ?p fs1) ?p = Some (Regular mine)" by (intro rename_arrives) simp_all
  have rest: "map_of (fold ?mv variant_kinds fs) ?p = Some (Regular mine)"
    using two step [OF _ differ(2)] step [OF _ differ(3)] step [OF _ differ(4)] step [OF _ differ(5)]
    by (simp add: kinds fs1_def)
  have ext: "length x \<le> 7 \<and> s @ x \<noteq> t ''_full'' False" if "x \<in> set media_upload_link_exts" for x
    using that by (auto simp: media_upload_link_exts_def t_def)
  have L: "media_link_path (posts_path ?u d) (mi_name item) x = posts_path ?u d @ CHR ''/'' # s @ x" if "length x \<le> 7" for d x
    using link_path_eq [OF assms(2) _ that, of ?u d] assms(1,3) by simp
  have links: "\<forall>x\<in>set media_upload_link_exts. \<not> below (media_link_path ?src (mi_name item) x) ?p \<and> \<not> below (media_link_path ?dst (mi_name item) x) ?p"
    using A(1) [OF full] full ext by (simp add: L V below_same_dir)
  have "(if stat_node ?dst fs = None then mkdir ?dst fs else (True, fs)) = (True, fs)" using assms(11) by (simp add: stat_node_def)
  then have "snd (media_move_variants item dest fs) =
      fold (\<lambda>e fs. if is_symlink (media_link_path ?src (mi_name item) e) fs
        then rename_or_not (media_link_path ?src (mi_name item) e) (media_link_path ?dst (mi_name item) e) fs else fs)
      media_upload_link_exts (fold ?mv variant_kinds fs)"
    by (simp add: media_move_variants_def Let_def src V_def)
  then show ?thesis using fold_move_links [OF links] rest by (simp add: V_def)
qed

theorem move_overwrites_witness:
  "\<exists>p. map_of (snd (media_move_variants (half_house\<lparr>mi_name := ''a.jpg''\<rparr>) ''other''
       [(''./html/content/posts/ann/pics'', Directory), (''./html/content/posts/ann/other'', Directory),
        (''./html/content/posts/ann/pics/a_full.jpg'', Regular ''mine''), (''./html/content/posts/ann/other/a_full.jpg'', Regular ''other'')])) p
     = Some (Regular ''mine'') \<and> p = ''./html/content/posts/ann/other/a_full.jpg''"
proof -
  let ?i = "half_house\<lparr>mi_name := ''a.jpg''\<rparr>"
  let ?fs = "[(''./html/content/posts/ann/pics'', Directory), (''./html/content/posts/ann/other'', Directory),
        (''./html/content/posts/ann/pics/a_full.jpg'', Regular ''mine''), (''./html/content/posts/ann/other/a_full.jpg'', Regular ''other'')]"
  have i: "mi_name ?i = ''a'' @ CHR ''.'' # ''jpg''" "mi_author_username ?i = ''ann''" "mi_dir_name ?i = ''pics''"
    "media_item_dir_path ?i = ''./html/content/posts/ann/pics''" "posts_path ''ann'' ''other'' = ''./html/content/posts/ann/other''"
    by (simp_all add: half_house_def media_item_dir_path_def posts_path_def fit_def)
  have pn: "plain_name ''a'' ''jpg''" and v: "media_dir_name_valid ''pics''" "media_dir_name_valid ''other''" by code_simp+
  have p: "media_variant_path ''./html/content/posts/ann/other'' (''a'' @ CHR ''.'' # ''jpg'') ''_full'' False = ''./html/content/posts/ann/other/a_full.jpg''"
    "media_variant_path ''./html/content/posts/ann/pics'' (''a'' @ CHR ''.'' # ''jpg'') ''_full'' False = ''./html/content/posts/ann/pics/a_full.jpg''"
    by code_simp+
  have c: "map_of ?fs (media_variant_path (media_item_dir_path ?i) (mi_name ?i) ''_full'' False) = Some (Regular ''mine'')"
    "map_of ?fs (media_variant_path (posts_path (mi_author_username ?i) ''other'') (mi_name ?i) ''_full'' False) = Some (Regular ''other'')"
    "map_of ?fs (posts_path (mi_author_username ?i) ''other'') = Some Directory"
    unfolding i p by simp_all
  have "map_of (snd (media_move_variants ?i ''other'' ?fs))
      (media_variant_path (posts_path (mi_author_username ?i) ''other'') (mi_name ?i) ''_full'' False) = Some (Regular ''mine'')"
    by (rule move_overwrites [OF i(1) pn _ _ _ _ v(2) _ c]) (unfold i, simp_all add: v)
  then show ?thesis unfolding i p by blast
qed

end
