(* ===== verification/Media_Library.thy ===== *)
theory Media_Library
  imports Media_Files
begin

text \<open>
  The media library behind the dashboard: its two collections (src/src/db/cms_media.c) and the
  requests that change it (src/src/web_server/http_router.c, the media routes of http_route):
  creating, renaming and deleting a directory, uploading, moving and deleting images. The users'
  collection, new object ids, the clock and the image optimizer, a shell script, are arguments.
\<close>

subsection \<open>Documents\<close>

text \<open>A field a document lacks, or holds with another type, is None.\<close>

record MediaDirDoc =
  dd_id :: string
  dd_name :: "string option"
  dd_parent :: "string option"
  dd_author :: "string option"

record MediaDoc =
  md_id :: string
  md_name :: "string option"
  md_date :: "string option"
  md_format :: "string option"
  md_author :: "string option"
  md_dir :: "string option"

record MediaUserDoc =
  u_username :: "string option"
  u_email :: "string option"
  u_name :: "string option"

record CmsMediaDirectory =
  cd_id :: string
  cd_name :: string
  cd_parent :: string
  cd_author_id :: string
  cd_author_name :: string
  cd_owner_label :: string

record Media =
  m_dirs :: "MediaDirDoc list"
  m_items :: "MediaDoc list"
  m_fs :: Fs

record MediaEnv =
  me_lib :: Lib
  me_db :: Db
  me_users :: "string \<Rightarrow> MediaUserDoc option"
  me_dir_id :: string
  me_item_id :: string
  me_date :: string
  me_optimize :: "Fs \<Rightarrow> string \<Rightarrow> string \<Rightarrow> Fs \<times> string"
  me_render :: "CmsMediaDirectory \<Rightarrow> string option"

subsection \<open>Users\<close>

definition email_char :: "char \<Rightarrow> char" where
  "email_char c = (if plain_char c \<or> c = CHR ''.'' then c else CHR ''-'')"

definition cms_username_from_email :: "string \<Rightarrow> nat \<Rightarrow> string" where
  "cms_username_from_email email out_size =
     map email_char (fit out_size (takeWhile (\<lambda>c. c \<noteq> CHR ''@'') email))"

definition username_of :: "MediaUserDoc \<Rightarrow> nat \<Rightarrow> string" where
  "username_of u out_size =
     (case u_username u of
        Some (c # cs) \<Rightarrow> fit out_size (c # cs)
      | _ \<Rightarrow> (case u_email u of None \<Rightarrow> [] | Some e \<Rightarrow> cms_username_from_email e out_size))"

definition user_doc :: "MediaEnv \<Rightarrow> string \<Rightarrow> MediaUserDoc option" where
  "user_doc env id_hex =
     (if lib_oid_valid (me_lib env) id_hex \<and> me_db env = Db_Works
      then me_users env (lib_oid_text (me_lib env) id_hex) else None)"

text \<open>The return value -1 is None; the array is empty then.\<close>

definition cms_get_username_by_id :: "MediaEnv \<Rightarrow> string \<Rightarrow> nat \<Rightarrow> string option" where
  "cms_get_username_by_id env id_hex out_size = map_option (\<lambda>u. username_of u out_size) (user_doc env id_hex)"

definition cms_get_user_name_by_id :: "MediaEnv \<Rightarrow> string \<Rightarrow> string" where
  "cms_get_user_name_by_id env id_hex =
     (case user_doc env id_hex of None \<Rightarrow> [] | Some u \<Rightarrow> (case u_name u of None \<Rightarrow> [] | Some n \<Rightarrow> n))"

subsection \<open>Directories\<close>

definition media_copy_str :: "nat \<Rightarrow> string option \<Rightarrow> string" where
  "media_copy_str dst_size v = (case v of None \<Rightarrow> [] | Some s \<Rightarrow> fit dst_size s)"

definition id_ok :: "MediaEnv \<Rightarrow> string \<Rightarrow> bool" where
  "id_ok env id_hex \<longleftrightarrow> length id_hex = 24 \<and> lib_oid_valid (me_lib env) id_hex"

definition fill_media_directory_from_doc :: "MediaDirDoc \<Rightarrow> CmsMediaDirectory" where
  "fill_media_directory_from_doc d =
     \<lparr>cd_id = dd_id d, cd_name = media_copy_str 256 (dd_name d), cd_parent = media_copy_str 20 (dd_parent d),
      cd_author_id = (case dd_author d of None \<Rightarrow> [] | Some a \<Rightarrow> a), cd_author_name = [], cd_owner_label = []\<rparr>"

definition cms_get_media_directory_by_id :: "MediaEnv \<Rightarrow> string \<Rightarrow> Media \<Rightarrow> CmsMediaDirectory option" where
  "cms_get_media_directory_by_id env id_hex m =
     (if id_ok env id_hex \<and> me_db env = Db_Works
      then map_option fill_media_directory_from_doc (find (\<lambda>d. dd_id d = lib_oid_text (me_lib env) id_hex) (m_dirs m))
      else None)"

definition cms_get_media_directory_by_name :: "MediaEnv \<Rightarrow> string \<Rightarrow> string \<Rightarrow> Media \<Rightarrow> CmsMediaDirectory option" where
  "cms_get_media_directory_by_name env name author_id m =
     (if lib_oid_valid (me_lib env) author_id \<and> me_db env = Db_Works
      then map_option fill_media_directory_from_doc
             (find (\<lambda>d. dd_name d = Some name \<and> dd_author d = Some (lib_oid_text (me_lib env) author_id)) (m_dirs m))
      else None)"

definition cms_create_media_directory :: "MediaEnv \<Rightarrow> string \<Rightarrow> string \<Rightarrow> string \<Rightarrow> Media \<Rightarrow> (string \<times> Media) option" where
  "cms_create_media_directory env name parent author_id m =
     (if lib_oid_valid (me_lib env) author_id \<and> me_db env = Db_Works
      then Some (me_dir_id env, m\<lparr>m_dirs := m_dirs m @ [\<lparr>dd_id = me_dir_id env, dd_name = Some name, dd_parent = Some parent,
             dd_author = Some (lib_oid_text (me_lib env) author_id)\<rparr>]\<rparr>)
      else None)"

text \<open>update_one and delete_one: the first document that matches.\<close>

fun update_first :: "('a \<Rightarrow> bool) \<Rightarrow> ('a \<Rightarrow> 'a) \<Rightarrow> 'a list \<Rightarrow> 'a list" where
  "update_first p f [] = []"
| "update_first p f (x # xs) = (if p x then f x # xs else x # update_first p f xs)"

fun delete_first :: "('a \<Rightarrow> bool) \<Rightarrow> 'a list \<Rightarrow> 'a list" where
  "delete_first p [] = []"
| "delete_first p (x # xs) = (if p x then xs else x # delete_first p xs)"

definition cms_rename_media_directory :: "MediaEnv \<Rightarrow> string \<Rightarrow> string \<Rightarrow> Media \<Rightarrow> Media option" where
  "cms_rename_media_directory env id_hex new_name m =
     (if id_ok env id_hex \<and> me_db env = Db_Works
      then Some (m\<lparr>m_dirs := update_first (\<lambda>d. dd_id d = lib_oid_text (me_lib env) id_hex) (\<lambda>d. d\<lparr>dd_name := Some new_name\<rparr>) (m_dirs m)\<rparr>)
      else None)"

definition cms_delete_media_directory :: "MediaEnv \<Rightarrow> string \<Rightarrow> Media \<Rightarrow> Media option" where
  "cms_delete_media_directory env id_hex m =
     (if id_ok env id_hex \<and> me_db env = Db_Works
      then Some (m\<lparr>m_dirs := delete_first (\<lambda>d. dd_id d = lib_oid_text (me_lib env) id_hex) (m_dirs m)\<rparr>)
      else None)"

definition cms_count_media_in_directory :: "MediaEnv \<Rightarrow> string \<Rightarrow> Media \<Rightarrow> int" where
  "cms_count_media_in_directory env dir_id_hex m =
     (if id_ok env dir_id_hex \<and> me_db env = Db_Works
      then int (length (filter (\<lambda>d. md_dir d = Some (lib_oid_text (me_lib env) dir_id_hex)) (m_items m)))
      else -1)"

subsection \<open>Items\<close>

text \<open>The lookups of the pipeline join the author's and the directory's document, if they are there.\<close>

definition fill_media_item_from_doc :: "MediaEnv \<Rightarrow> MediaDirDoc list \<Rightarrow> MediaDoc \<Rightarrow> CmsMediaItem" where
  "fill_media_item_from_doc env dirs d =
     (let author = Option.bind (md_author d) (me_users env);
          dir = Option.bind (md_dir d) (\<lambda>i. find (\<lambda>e. dd_id e = i) dirs)
      in \<lparr>mi_id = md_id d, mi_name = media_copy_str 256 (md_name d), mi_date = media_copy_str 20 (md_date d),
          mi_format = media_copy_str 8 (md_format d), mi_author_id = (case md_author d of None \<Rightarrow> [] | Some a \<Rightarrow> a),
          mi_author_username = (case author of None \<Rightarrow> [] | Some u \<Rightarrow> username_of u 64),
          mi_dir_id = (case md_dir d of None \<Rightarrow> [] | Some i \<Rightarrow> i),
          mi_dir_name = media_copy_str 256 (Option.bind dir dd_name), mi_dir_parent = media_copy_str 20 (Option.bind dir dd_parent)\<rparr>)"

definition cms_get_media_item_by_id :: "MediaEnv \<Rightarrow> string \<Rightarrow> Media \<Rightarrow> CmsMediaItem option" where
  "cms_get_media_item_by_id env id_hex m =
     (if id_ok env id_hex \<and> me_db env = Db_Works
      then map_option (fill_media_item_from_doc env (m_dirs m)) (find (\<lambda>d. md_id d = lib_oid_text (me_lib env) id_hex) (m_items m))
      else None)"

definition cms_insert_media :: "MediaEnv \<Rightarrow> string \<Rightarrow> string \<Rightarrow> string \<Rightarrow> Media \<Rightarrow> Media option" where
  "cms_insert_media env filename author_id dir_id m =
     (if lib_oid_valid (me_lib env) author_id \<and> lib_oid_valid (me_lib env) dir_id \<and> me_db env = Db_Works
      then Some (m\<lparr>m_items := m_items m @ [\<lparr>md_id = me_item_id env, md_name = Some filename, md_date = Some (me_date env),
             md_format = Some (if length (ext_of filename) > 1 then tl (ext_of filename) else ''unknown''),
             md_author = Some (lib_oid_text (me_lib env) author_id), md_dir = Some (lib_oid_text (me_lib env) dir_id)\<rparr>]\<rparr>)
      else None)"

definition cms_delete_media :: "MediaEnv \<Rightarrow> string \<Rightarrow> Media \<Rightarrow> Media option" where
  "cms_delete_media env id_hex m =
     (if length id_hex = 24 \<and> me_db env = Db_Works
      then Some (m\<lparr>m_items := delete_first (\<lambda>d. md_id d = lib_oid_text (me_lib env) id_hex) (m_items m)\<rparr>)
      else None)"

definition cms_move_media :: "MediaEnv \<Rightarrow> string \<Rightarrow> string \<Rightarrow> Media \<Rightarrow> Media option" where
  "cms_move_media env id_hex dest_dir_id m =
     (if id_ok env id_hex \<and> id_ok env dest_dir_id \<and> me_db env = Db_Works
      then Some (m\<lparr>m_items := update_first (\<lambda>d. md_id d = lib_oid_text (me_lib env) id_hex)
             (\<lambda>d. d\<lparr>md_dir := Some (lib_oid_text (me_lib env) dest_dir_id)\<rparr>) (m_items m)\<rparr>)
      else None)"

definition owner_label :: "MediaEnv \<Rightarrow> string \<Rightarrow> CmsMediaDirectory list \<Rightarrow> CmsMediaDirectory \<Rightarrow> string" where
  "owner_label env user_id earlier d =
     (if cd_author_id d = user_id then ''Me''
      else case find (\<lambda>e. cd_author_id e = cd_author_id d) earlier of
        Some e \<Rightarrow> cd_owner_label e
      | None \<Rightarrow>
          if cms_get_user_name_by_id env (cd_author_id d) \<noteq> [] then fit 96 (cms_get_user_name_by_id env (cd_author_id d))
          else case cms_get_username_by_id env (cd_author_id d) 96 of None \<Rightarrow> ''unknown'' | Some u \<Rightarrow> u)"

definition media_label_owners :: "MediaEnv \<Rightarrow> string \<Rightarrow> string \<Rightarrow> CmsMediaDirectory list \<Rightarrow> CmsMediaDirectory list" where
  "media_label_owners env role user_id dirs =
     (if media_scope role user_id \<noteq> None then dirs
      else foldl (\<lambda>earlier d. earlier @ [d\<lparr>cd_owner_label := owner_label env user_id earlier d\<rparr>]) [] dirs)"

subsection \<open>Requests on directories\<close>

text \<open>
  What a request does once the check of the dashboard has let it on: its writes and the library after
  it. \<open>body\<close> is the body of the form.
\<close>

definition field :: "string option \<Rightarrow> string \<Rightarrow> nat \<Rightarrow> string" where
  "field body key out_size = snd (parse_urlencoded_field body key out_size)"

definition username_or_empty :: "MediaEnv \<Rightarrow> string \<Rightarrow> string" where
  "username_or_empty env id_hex = (case cms_get_username_by_id env id_hex 64 of None \<Rightarrow> [] | Some u \<Rightarrow> u)"

definition author_path :: "string \<Rightarrow> string" where
  "author_path username = fit 512 (''./html/content/posts/'' @ username)"

definition send_directory :: "MediaEnv \<Rightarrow> string \<Rightarrow> string \<Rightarrow> string \<Rightarrow> CmsMediaDirectory \<Rightarrow> string list" where
  "send_directory env role user_id owner d =
     (case me_render env (hd (media_label_owners env role user_id [d\<lparr>cd_author_name := fit 64 owner\<rparr>])) of
        None \<Rightarrow> send_simple ''500 Internal Server Error'' ''Render error''
      | Some html \<Rightarrow> send_html_fragment html)"

definition BAD_DIR_NAME :: string where
  "BAD_DIR_NAME = ''Invalid directory name (3-60 chars, a-z 0-9 _ -)''"

definition media_directory_create :: "MediaEnv \<Rightarrow> string \<Rightarrow> string \<Rightarrow> string option \<Rightarrow> Media \<Rightarrow> string list \<times> Media" where
  "media_directory_create env role user_id body m =
     (let name = field body ''newpath'' 256; username = username_or_empty env user_id in
      if \<not> media_dir_name_valid name then (send_simple ''400 Bad Request'' BAD_DIR_NAME, m)
      else if \<not> media_username_valid username
      then (send_simple ''400 Bad Request'' ''Your account name cannot be used as a media directory'', m)
      else if cms_get_media_directory_by_name env name user_id m \<noteq> None
      then (send_simple ''409 Conflict'' ''A directory with that name already exists'', m)
      else
        let dirpath = posts_path username name;
            fs1 = (if stat_node dirpath (m_fs m) = None
                   then snd (mkdir dirpath (snd (mkdir (author_path username) (m_fs m)))) else m_fs m);
            m1 = m\<lparr>m_fs := fs1\<rparr>
        in case cms_create_media_directory env name ''posts'' user_id m1 of
             None \<Rightarrow> (send_simple ''500 Internal Server Error'' ''DB insert error'', m1)
           | Some (new_id, m2) \<Rightarrow>
               (case cms_get_media_directory_by_id env new_id m2 of
                  None \<Rightarrow> (send_simple ''500 Internal Server Error'' ''DB lookup error'', m2)
                | Some d \<Rightarrow> (send_directory env role user_id username d, m2)))"

definition media_directory_rename :: "MediaEnv \<Rightarrow> string \<Rightarrow> string \<Rightarrow> string option \<Rightarrow> Media \<Rightarrow> string list \<times> Media" where
  "media_directory_rename env role user_id body m =
     (let dir_id = field body ''id'' 32; newname = field body ''newname'' 256 in
      case cms_get_media_directory_by_id env dir_id m of
        None \<Rightarrow> (send_simple ''404 Not Found'' ''Unknown directory'', m)
      | Some dir \<Rightarrow>
          if \<not> media_can_manage role user_id (cd_author_id dir)
          then (send_simple ''403 Forbidden'' ''You can only rename your own directories'', m)
          else if \<not> media_dir_name_valid newname then (send_simple ''400 Bad Request'' BAD_DIR_NAME, m)
          else
            let owner = username_or_empty env (cd_author_id dir) in
            if cms_get_username_by_id env (cd_author_id dir) 64 = None \<or> \<not> media_username_valid owner
               \<or> \<not> media_dir_name_valid (cd_name dir)
            then (send_simple ''409 Conflict'' ''This directory cannot be renamed'', m)
            else if cd_name dir \<noteq> newname \<and> cms_get_media_directory_by_name env newname (cd_author_id dir) m \<noteq> None
            then (send_simple ''409 Conflict'' ''A directory with that name already exists'', m)
            else
              let old_path = posts_path owner (cd_name dir); new_path = posts_path owner newname;
                  moved = (if cd_name dir = newname then Some (m_fs m)
                           else if stat_node new_path (m_fs m) \<noteq> None then None
                           else rename_path old_path new_path (m_fs m))
              in case moved of
                   None \<Rightarrow> (send_simple ''500 Internal Server Error'' ''Could not rename directory'', m)
                 | Some fs1 \<Rightarrow>
                     (case cms_rename_media_directory env (cd_id dir) newname (m\<lparr>m_fs := fs1\<rparr>) of
                        None \<Rightarrow> (send_simple ''500 Internal Server Error'' ''Could not rename directory'', m\<lparr>m_fs := fs1\<rparr>)
                      | Some m1 \<Rightarrow>
                          (case cms_get_media_directory_by_id env (cd_id dir) m1 of
                             None \<Rightarrow> (send_simple ''500 Internal Server Error'' ''Render error'', m1)
                           | Some renamed \<Rightarrow> (send_directory env role user_id owner renamed, m1))))"

definition media_directory_delete :: "MediaEnv \<Rightarrow> string \<Rightarrow> string \<Rightarrow> string option \<Rightarrow> Media \<Rightarrow> string list \<times> Media" where
  "media_directory_delete env role user_id body m =
     (let dir_id = field body ''id'' 32 in
      case cms_get_media_directory_by_id env dir_id m of
        None \<Rightarrow> (send_simple ''404 Not Found'' ''Unknown directory'', m)
      | Some dir \<Rightarrow>
          if \<not> media_can_manage role user_id (cd_author_id dir)
          then (send_simple ''403 Forbidden'' ''You can only delete your own directories'', m)
          else if cms_count_media_in_directory env (cd_id dir) m \<noteq> 0 then
            (if cms_count_media_in_directory env (cd_id dir) m < 0 then send_simple ''500 Internal Server Error'' ''DB error''
             else send_simple ''409 Conflict'' ''The directory is not empty. Delete or move its images first.'', m)
          else
            let (disk_ok, fs1) =
                  (case cms_get_username_by_id env (cd_author_id dir) 64 of
                     None \<Rightarrow> (True, m_fs m)
                   | Some owner \<Rightarrow>
                       if media_username_valid owner \<and> media_dir_name_valid (cd_name dir)
                       then rmdir (posts_path owner (cd_name dir)) (m_fs m) else (True, m_fs m))
            in if \<not> disk_ok then (send_simple ''409 Conflict'' ''The directory still contains files on disk'', m\<lparr>m_fs := fs1\<rparr>)
               else case cms_delete_media_directory env (cd_id dir) (m\<lparr>m_fs := fs1\<rparr>) of
                      None \<Rightarrow> (send_simple ''500 Internal Server Error'' ''Could not delete directory'', m\<lparr>m_fs := fs1\<rparr>)
                    | Some m1 \<Rightarrow> (send_simple ''200 OK'' ''Deleted'', m1))"

subsection \<open>Requests on images\<close>

text \<open>The counters of the loop: done, failed, forbidden.\<close>

record Tally =
  t_done :: nat
  t_failed :: nat
  t_forbidden :: nat

definition delete_token :: "MediaEnv \<Rightarrow> string \<Rightarrow> string \<Rightarrow> string \<Rightarrow> Tally \<times> Media \<Rightarrow> Tally \<times> Media" where
  "delete_token env role user_id tok = (\<lambda>(t, m).
     case cms_get_media_item_by_id env tok m of
       None \<Rightarrow> (t\<lparr>t_failed := t_failed t + 1\<rparr>, m)
     | Some item \<Rightarrow>
         if \<not> media_can_manage role user_id (mi_author_id item) then (t\<lparr>t_forbidden := t_forbidden t + 1\<rparr>, m)
         else
           let m1 = (if media_item_paths_valid item then m\<lparr>m_fs := media_delete_variants item (m_fs m)\<rparr> else m) in
           case cms_delete_media env tok m1 of
             None \<Rightarrow> (t\<lparr>t_failed := t_failed t + 1\<rparr>, m1)
           | Some m2 \<Rightarrow> (t\<lparr>t_done := t_done t + 1\<rparr>, m2))"

definition tally_answer :: "string \<Rightarrow> string \<Rightarrow> string \<Rightarrow> Tally \<Rightarrow> string list" where
  "tally_answer done_text failed_text forbidden_text t =
     (if t_done t = 0 \<and> t_forbidden t > 0 then send_simple ''403 Forbidden'' forbidden_text
      else if t_done t = 0 \<and> t_failed t > 0 then send_simple ''500 Internal Server Error'' failed_text
      else send_simple ''200 OK'' done_text)"

definition ids_of :: "string option \<Rightarrow> string list" where
  "ids_of body = strtok (\<lambda>c. c = CHR '','') (field body ''ids'' 4096)"

definition zero_tally :: Tally where
  "zero_tally = \<lparr>t_done = 0, t_failed = 0, t_forbidden = 0\<rparr>"

definition media_delete_post :: "MediaEnv \<Rightarrow> string \<Rightarrow> string \<Rightarrow> string option \<Rightarrow> Media \<Rightarrow> string list \<times> Media" where
  "media_delete_post env role user_id body m =
     (let (t, m1) = fold (delete_token env role user_id) (ids_of body) (zero_tally, m)
      in (tally_answer ''Deleted'' ''Could not delete images'' ''You can only delete your own images'' t, m1))"

definition move_token :: "MediaEnv \<Rightarrow> string \<Rightarrow> string \<Rightarrow> CmsMediaDirectory \<Rightarrow> string \<Rightarrow> Tally \<times> Media \<Rightarrow> Tally \<times> Media" where
  "move_token env role user_id dest tok = (\<lambda>(t, m).
     case cms_get_media_item_by_id env tok m of
       None \<Rightarrow> (t\<lparr>t_failed := t_failed t + 1\<rparr>, m)
     | Some item \<Rightarrow>
         if \<not> media_can_manage role user_id (mi_author_id item) \<or> mi_author_id item \<noteq> cd_author_id dest
         then (t\<lparr>t_forbidden := t_forbidden t + 1\<rparr>, m)
         else if \<not> media_item_paths_valid item then (t\<lparr>t_failed := t_failed t + 1\<rparr>, m)
         else
           let (ok, fs1) = media_move_variants item (cd_name dest) (m_fs m); m1 = m\<lparr>m_fs := fs1\<rparr> in
           if \<not> ok then (t\<lparr>t_failed := t_failed t + 1\<rparr>, m1)
           else case cms_move_media env tok (cd_id dest) m1 of
                  None \<Rightarrow> (t\<lparr>t_failed := t_failed t + 1\<rparr>, m1)
                | Some m2 \<Rightarrow> (t\<lparr>t_done := t_done t + 1\<rparr>, m2))"

definition media_move_post :: "MediaEnv \<Rightarrow> string \<Rightarrow> string \<Rightarrow> string option \<Rightarrow> Media \<Rightarrow> string list \<times> Media" where
  "media_move_post env role user_id body m =
     (case cms_get_media_directory_by_id env (field body ''dest_dir'' 32) m of
        None \<Rightarrow> (send_simple ''400 Bad Request'' ''Unknown destination directory'', m)
      | Some dest \<Rightarrow>
          if \<not> media_can_manage role user_id (cd_author_id dest)
          then (send_simple ''403 Forbidden'' ''You can only move images into your own directories'', m)
          else if \<not> media_dir_name_valid (cd_name dest) then (send_simple ''400 Bad Request'' ''Invalid destination directory'', m)
          else
            let (t, m1) = fold (move_token env role user_id dest) (ids_of body) (zero_tally, m)
            in (tally_answer ''Moved'' ''Could not move images'' (''Images can only be moved between their author'' @ SQ # ''s directories'') t, m1))"

subsection \<open>Uploads\<close>

definition resolve_or_create_default_media_directory ::
  "MediaEnv \<Rightarrow> string \<Rightarrow> string \<Rightarrow> Media \<Rightarrow> CmsMediaDirectory option \<times> Media"
where
  "resolve_or_create_default_media_directory env user_id username m =
     (case cms_get_media_directory_by_name env ''default'' user_id m of
        Some d \<Rightarrow> (Some d, m)
      | None \<Rightarrow>
          let dirpath = fit 528 (author_path username @ ''/default'');
              fs1 = (if stat_node (author_path username) (m_fs m) = None then snd (mkdir (author_path username) (m_fs m)) else m_fs m);
              (ok, fs2) = (if stat_node dirpath fs1 = None then mkdir dirpath fs1 else (True, fs1));
              m1 = m\<lparr>m_fs := fs2\<rparr>
          in if \<not> ok then (None, m1)
             else case cms_create_media_directory env ''default'' ''posts'' user_id m1 of
                    None \<Rightarrow> (None, m1)
                  | Some (new_id, m2) \<Rightarrow> (cms_get_media_directory_by_id env new_id m2, m2))"

definition upload_json :: "string \<Rightarrow> string \<Rightarrow> string" where
  "upload_json optimized_path dir_id =
     fit 2048 (CHR ''{'' # DQ # ''ok'' @ DQ # '':true,'' @ DQ # ''filename'' @ DQ # '':'' @ DQ # optimized_path
       @ DQ # '','' @ DQ # ''dir_id'' @ DQ # '':'' @ DQ # dir_id @ DQ # ''}'')"

text \<open>The optimizer's line is taken for the path of the full-size variant if it is one of a file in the directory.\<close>

definition optimized_ok :: "string \<Rightarrow> string \<Rightarrow> Fs \<Rightarrow> bool" where
  "optimized_ok dirpath optimized_path fs \<longleftrightarrow>
     prefix (dirpath @ ''/'') optimized_path \<and> CHR ''/'' \<notin> set (drop (length dirpath + 1) optimized_path)
     \<and> (case stat_node optimized_path fs of Some (Regular d) \<Rightarrow> True | _ \<Rightarrow> False)"

definition store_upload :: "MediaEnv \<Rightarrow> string \<Rightarrow> string \<Rightarrow> string \<Rightarrow> string \<Rightarrow> CmsMediaDirectory \<Rightarrow> Media \<Rightarrow> string list \<times> Media" where
  "store_upload env user_id username sanitized data dir m =
     (let dirpath = posts_path username (cd_name dir); fs1 = snd (mkdir dirpath (m_fs m)); m1 = m\<lparr>m_fs := fs1\<rparr> in
      case media_unique_name dirpath sanitized 256 fs1 of
        None \<Rightarrow> (send_simple ''409 Conflict'' ''Could not find a free name for this file'', m1)
      | Some name \<Rightarrow>
          let filepath = fit 1024 (dirpath @ ''/'' @ name) in
          if map_of fs1 filepath \<noteq> None \<or> map_of fs1 (dirname filepath) \<noteq> Some Directory
          then (send_simple ''500 Internal Server Error'' ''Could not write file'', m1)
          else
            let (fs2, out) = me_optimize env (AList.update filepath (Regular data) fs1) dirpath filepath;
                optimized_path = takeWhile (\<lambda>c. c \<noteq> LF) (fit 1024 out)
            in if \<not> optimized_ok dirpath optimized_path fs2
               then (send_simple ''415 Unsupported Media Type'' ''The file could not be processed as an image'', m\<lparr>m_fs := unlink filepath fs2\<rparr>)
               else
                 let dir_id = fit 32 (cd_id dir); m2 = m\<lparr>m_fs := fs2\<rparr>
                 in ([build_json_response (upload_json optimized_path dir_id)],
                     case cms_insert_media env (recorded_name optimized_path) user_id dir_id m2 of None \<Rightarrow> m2 | Some m3 \<Rightarrow> m3))"

definition media_upload_post :: "MediaEnv \<Rightarrow> string \<Rightarrow> MultipartPart list option \<Rightarrow> Media \<Rightarrow> string list \<times> Media" where
  "media_upload_post env user_id parts m =
     (case parts of
        None \<Rightarrow> (send_simple ''400 Bad Request'' ''Invalid multipart body'', m)
      | Some mp \<Rightarrow>
          let dir_id = (case multipart_find mp ''media-directory-selected'' of None \<Rightarrow> [] | Some p \<Rightarrow> cstr (take 31 (part_data p)));
              username = username_or_empty env user_id;
              selected = cms_get_media_directory_by_id env dir_id m
          in case multipart_find mp ''file'' of
               None \<Rightarrow> (send_simple ''400 Bad Request'' ''Missing file'', m)
             | Some file \<Rightarrow>
                 if part_filename file = [] then (send_simple ''400 Bad Request'' ''Missing file'', m)
                 else case media_image_extension (part_data file) of
                   None \<Rightarrow> (send_simple ''415 Unsupported Media Type'' ''Only JPEG, PNG, GIF and WebP images can be uploaded'', m)
                 | Some ext \<Rightarrow>
                     (case media_name_with_extension (media_sanitize_upload_name (part_filename file) 256) 256 ext of
                        None \<Rightarrow> (send_simple ''400 Bad Request'' ''Invalid file name'', m)
                      | Some name \<Rightarrow>
                          if \<not> media_file_name_valid name then (send_simple ''400 Bad Request'' ''Invalid file name'', m)
                          else if \<not> media_username_valid username
                          then (send_simple ''400 Bad Request'' ''Your account name cannot be used as a media directory'', m)
                          else
                            let (dir, m1) = (case selected of
                                   Some d \<Rightarrow> (Some d, m)
                                 | None \<Rightarrow> resolve_or_create_default_media_directory env user_id username m)
                            in case dir of
                                 None \<Rightarrow> (send_simple ''500 Internal Server Error'' ''Could not resolve upload directory'', m1)
                               | Some d \<Rightarrow>
                                   if selected \<noteq> None \<and> cd_author_id d \<noteq> user_id
                                   then (send_simple ''403 Forbidden'' ''You can only upload into your own directories'', m1)
                                   else if \<not> media_dir_name_valid (cd_name d)
                                   then (send_simple ''400 Bad Request'' ''Invalid upload directory'', m1)
                                   else store_upload env user_id username name (part_data file) d m1))"

subsection \<open>Behind the check of the dashboard\<close>

text \<open>What a request of the media routes does: its writes, the sessions and the library after it.\<close>

record MediaRun =
  r_writes :: "string list"
  r_sessions :: Sessions
  r_media :: Media

definition media_action :: "MediaEnv \<Rightarrow> HttpRequest \<Rightarrow> string \<Rightarrow> string \<Rightarrow> string \<Rightarrow> Media \<Rightarrow> (string list \<times> Media) option" where
  "media_action me req decoded_url user_id role m =
     (if decoded_url = ''/dashboard/api/media/directory'' then Some (media_directory_create me role user_id (req_body req) m)
      else if decoded_url = ''/dashboard/api/media/directory/rename'' then Some (media_directory_rename me role user_id (req_body req) m)
      else if decoded_url = ''/dashboard/api/media/directory/delete'' then Some (media_directory_delete me role user_id (req_body req) m)
      else if decoded_url = ''/dashboard/api/media/delete'' then Some (media_delete_post me role user_id (req_body req) m)
      else if decoded_url = ''/dashboard/api/media/move'' then Some (media_move_post me role user_id (req_body req) m)
      else if decoded_url = ''/dashboard/api/media/upload'' then
        Some (media_upload_post me user_id
          (Option.bind (req_body req) (\<lambda>b. parse_multipart b (get_header_value req ''Content-Type''))) m)
      else None)"

definition media_post :: "RouteEnv \<Rightarrow> MediaEnv \<Rightarrow> HttpRequest \<Rightarrow> string \<Rightarrow> Media \<Rightarrow> MediaRun" where
  "media_post env me req decoded_url m =
     (let epoch = resolve_epoch env req in
      if \<not> dashboard_allowed env req epoch
      then \<lparr>r_writes = send_simple ''403 Forbidden'' ''Forbidden'', r_sessions = re_sessions env, r_media = m\<rparr>
      else
        let g = require_dashboard_session_ex env req epoch in
        case g_user g of
          None \<Rightarrow> \<lparr>r_writes = g_writes g, r_sessions = g_sessions g, r_media = m\<rparr>
        | Some (user_id, role) \<Rightarrow>
            (case media_action me req decoded_url user_id role m of
               None \<Rightarrow> \<lparr>r_writes = g_writes g, r_sessions = g_sessions g, r_media = m\<rparr>
             | Some (ws, m1) \<Rightarrow> \<lparr>r_writes = g_writes g @ ws, r_sessions = g_sessions g, r_media = m1\<rparr>))"

subsection \<open>What a request leaves alone\<close>

text \<open>Files outside a directory, and the documents of other authors.\<close>

definition others_kept :: "string \<Rightarrow> string \<Rightarrow> Media \<Rightarrow> Media \<Rightarrow> bool" where
  "others_kept root user m m1 \<longleftrightarrow>
     changes_below root (m_fs m) (m_fs m1)
     \<and> filter (\<lambda>d. dd_author d \<noteq> Some user) (m_dirs m1) = filter (\<lambda>d. dd_author d \<noteq> Some user) (m_dirs m)
     \<and> filter (\<lambda>d. md_author d \<noteq> Some user) (m_items m1) = filter (\<lambda>d. md_author d \<noteq> Some user) (m_items m)"

text \<open>
  The documented laws of object ids as text, and of the optimizer: given a file of a directory, it changes
  nothing outside that directory.
\<close>

definition oid_laws :: "Lib \<Rightarrow> bool" where
  "oid_laws L \<longleftrightarrow> (\<forall>s. lib_oid_valid L s \<longrightarrow> lib_oid_text L (lib_oid_text L s) = lib_oid_text L s)"

definition optimizer_confined :: "MediaEnv \<Rightarrow> bool" where
  "optimizer_confined me \<longleftrightarrow> (\<forall>fs dir path. below dir path \<longrightarrow> changes_below dir fs (fst (me_optimize me fs dir path)))"

definition own_root :: "MediaEnv \<Rightarrow> string \<Rightarrow> string" where
  "own_root me user = author_path (username_or_empty me user)"

lemma kept_refl [simp]: "others_kept root user m m"
  by (simp add: others_kept_def changes_refl)

lemma kept_trans: "others_kept root user a b \<Longrightarrow> others_kept root user b c \<Longrightarrow> others_kept root user a c"
  unfolding others_kept_def using changes_trans by metis

lemma kept_fs: "changes_below root (m_fs m) fs1 \<Longrightarrow> others_kept root user m (m\<lparr>m_fs := fs1\<rparr>)"
  by (simp add: others_kept_def)

lemma filter_delete_first: "find p xs = Some x \<Longrightarrow> \<not> Q x \<Longrightarrow> filter Q (delete_first p xs) = filter Q xs"
  by (induction xs) (auto split: if_splits)

lemma filter_update_first: "find p xs = Some x \<Longrightarrow> \<not> Q x \<Longrightarrow> \<not> Q (f x) \<Longrightarrow> filter Q (update_first p f xs) = filter Q xs"
  by (induction xs) (auto split: if_splits)

lemma username_of_length: "length (username_of u 64) < 64"
  by (auto simp: username_of_def cms_username_from_email_def split: option.splits list.splits)

lemma username_or_empty_length: "length (username_or_empty me user) < 64"
  using username_of_length by (auto simp: username_or_empty_def cms_get_username_by_id_def split: option.splits)

lemma own_path: "media_dir_name_valid d \<Longrightarrow> below (own_root me user) (posts_path (username_or_empty me user) d)"
  using posts_path_below(2) [OF username_or_empty_length, of d] by (simp add: own_root_def author_path_def media_dir_name_valid_def)

lemma own_author_path: "below (own_root me user) (author_path (username_or_empty me user))"
  by (simp add: own_root_def below_def)

text \<open>A directory or an image that an author may manage is the author's own.\<close>

lemma own_directory:
  assumes "cms_get_media_directory_by_id me i m = Some dir" "media_can_manage role user (cd_author_id dir)"
    and "role \<noteq> ''admin''" "user \<noteq> []" "oid_laws (me_lib me)"
  shows "\<exists>d. find (\<lambda>e. dd_id e = cd_id dir) (m_dirs m) = Some d \<and> dd_author d = Some user \<and> cd_author_id dir = user
    \<and> lib_oid_text (me_lib me) (cd_id dir) = cd_id dir"
proof -
  let ?t = "lib_oid_text (me_lib me) i"
  obtain d where d: "find (\<lambda>e. dd_id e = ?t) (m_dirs m) = Some d" "dir = fill_media_directory_from_doc d" "id_ok me i"
    using assms(1) by (auto simp: cms_get_media_directory_by_id_def split: if_splits)
  have di: "dd_id d = ?t" using d(1) by (auto simp: find_Some_iff)
  have "cd_author_id dir = user" using assms(2,3) by (simp add: media_can_manage_def)
  moreover have "dd_author d = Some user" using calculation assms(4) d(2)
    by (auto simp: fill_media_directory_from_doc_def split: option.splits)
  moreover have "cd_id dir = ?t" using d(2) di by (simp add: fill_media_directory_from_doc_def)
  ultimately show ?thesis using d assms(5) by (auto simp: oid_laws_def id_ok_def)
qed

lemma own_item:
  assumes "cms_get_media_item_by_id me i m = Some item" "media_can_manage role user (mi_author_id item)"
    and "role \<noteq> ''admin''" "user \<noteq> []" "lib_oid_valid (me_lib me) user" "lib_oid_text (me_lib me) user = user"
  shows "\<exists>d. find (\<lambda>e. md_id e = lib_oid_text (me_lib me) i) (m_items m) = Some d \<and> md_author d = Some user
    \<and> mi_author_username item = username_or_empty me user"
proof -
  obtain d where d: "find (\<lambda>e. md_id e = lib_oid_text (me_lib me) i) (m_items m) = Some d"
      "item = fill_media_item_from_doc me (m_dirs m) d" "me_db me = Db_Works"
    using assms(1) by (auto simp: cms_get_media_item_by_id_def split: if_splits)
  have "mi_author_id item = user" using assms(2,3) by (simp add: media_can_manage_def)
  then have a: "md_author d = Some user" using assms(4) d(2) by (auto simp: fill_media_item_from_doc_def Let_def split: option.splits)
  have "mi_author_username item = username_or_empty me user"
    using a assms(5,6) d(2,3) by (simp add: fill_media_item_from_doc_def Let_def username_or_empty_def cms_get_username_by_id_def user_doc_def split: option.split)
  then show ?thesis using d(1) a by blast
qed

subsection \<open>Each request keeps to its author's part\<close>

lemma create_kept:
  assumes "lib_oid_text (me_lib me) user = user"
    and "cms_create_media_directory me name parent user m = Some (i, m1)"
  shows "others_kept root user m m1"
  using assms by (auto simp: cms_create_media_directory_def others_kept_def changes_refl split: if_splits)

lemma media_directory_create_kept:
  assumes "lib_oid_text (me_lib me) user = user"
  shows "others_kept (own_root me user) user m (snd (media_directory_create me role user body m))"
proof -
  let ?u = "username_or_empty me user" and ?n = "field body ''newpath'' 256"
  let ?p = "posts_path ?u ?n"
  define fs1 where "fs1 = (if stat_node ?p (m_fs m) = None then snd (mkdir ?p (snd (mkdir (author_path ?u) (m_fs m)))) else m_fs m)"
  have k: "others_kept (own_root me user) user m (m\<lparr>m_fs := fs1\<rparr>)" if "media_dir_name_valid ?n"
  proof (rule kept_fs)
    show "changes_below (own_root me user) (m_fs m) fs1"
      unfolding fs1_def using changes_trans [OF changes_mkdir [OF own_author_path] changes_mkdir [OF own_path [OF that]]]
      by (simp add: changes_refl)
  qed
  have "others_kept (own_root me user) user m m1"
    if "media_dir_name_valid ?n" "cms_create_media_directory me ?n ''posts'' user (m\<lparr>m_fs := fs1\<rparr>) = Some (i, m1)" for i m1
    using kept_trans [OF k [OF that(1)] create_kept [OF assms that(2)]] .
  with k show ?thesis
    unfolding media_directory_create_def Let_def fs1_def [symmetric] by (auto split: option.splits)
qed

lemma rename_doc_kept:
  assumes "cms_rename_media_directory me i new m = Some m1"
    and "find (\<lambda>e. dd_id e = lib_oid_text (me_lib me) i) (m_dirs m) = Some d" "dd_author d = Some user"
  shows "others_kept root user m m1"
  using assms filter_update_first [OF assms(2), of "\<lambda>d. dd_author d \<noteq> Some user" "\<lambda>d. d\<lparr>dd_name := Some new\<rparr>"]
  by (auto simp: cms_rename_media_directory_def others_kept_def changes_refl split: if_splits)

lemma media_directory_rename_kept:
  assumes "role \<noteq> ''admin''" "user \<noteq> []" "oid_laws (me_lib me)"
  shows "others_kept (own_root me user) user m (snd (media_directory_rename me role user body m))"
proof (cases "cms_get_media_directory_by_id me (field body ''id'' 32) m")
  case None
  then show ?thesis by (simp add: media_directory_rename_def Let_def)
next
  case (Some dir)
  let ?new = "field body ''newname'' 256" and ?owner = "username_or_empty me (cd_author_id dir)"
  show ?thesis
  proof (cases "media_can_manage role user (cd_author_id dir) \<and> media_dir_name_valid ?new \<and> media_dir_name_valid (cd_name dir)")
    case False
    then show ?thesis using Some by (auto simp: media_directory_rename_def Let_def)
  next
    case True
    then obtain d where d: "find (\<lambda>e. dd_id e = cd_id dir) (m_dirs m) = Some d" "dd_author d = Some user"
        "cd_author_id dir = user" "lib_oid_text (me_lib me) (cd_id dir) = cd_id dir"
      using own_directory [OF Some _ assms] by blast
    define moved where "moved = (if cd_name dir = ?new then Some (m_fs m)
        else if stat_node (posts_path ?owner ?new) (m_fs m) \<noteq> None then None
        else rename_path (posts_path ?owner (cd_name dir)) (posts_path ?owner ?new) (m_fs m))"
    have fs: "others_kept (own_root me user) user m (m\<lparr>m_fs := fs1\<rparr>)" if "moved = Some fs1" for fs1
    proof (rule kept_fs)
      have "below (own_root me user) (posts_path ?owner (cd_name dir))" "below (own_root me user) (posts_path ?owner ?new)"
        using own_path True d(3) by simp_all
      then show "changes_below (own_root me user) (m_fs m) fs1"
        using that changes_rename by (auto simp: moved_def changes_refl split: if_splits)
    qed
    have db: "others_kept (own_root me user) user m m1"
      if "moved = Some fs1" "cms_rename_media_directory me (cd_id dir) ?new (m\<lparr>m_fs := fs1\<rparr>) = Some m1" for fs1 m1
      using kept_trans [OF fs [OF that(1)] rename_doc_kept [OF that(2)]] d(1,2,4) by simp
    have "snd (media_directory_rename me role user body m) =
        (if cms_get_username_by_id me (cd_author_id dir) 64 = None \<or> \<not> media_username_valid ?owner then m
         else if cd_name dir \<noteq> ?new \<and> cms_get_media_directory_by_name me ?new (cd_author_id dir) m \<noteq> None then m
         else case moved of
             None \<Rightarrow> m
           | Some fs1 \<Rightarrow>
               (case cms_rename_media_directory me (cd_id dir) ?new (m\<lparr>m_fs := fs1\<rparr>) of None \<Rightarrow> m\<lparr>m_fs := fs1\<rparr> | Some m1 \<Rightarrow> m1))"
      using Some True unfolding media_directory_rename_def Let_def
      by (simp only: option.case if_False if_True simp_thms moved_def [symmetric]) (auto split: option.split)
    then show ?thesis using fs db by (auto split: option.splits)
  qed
qed

lemma delete_doc_kept:
  assumes "cms_delete_media_directory me i m = Some m1"
    and "find (\<lambda>e. dd_id e = lib_oid_text (me_lib me) i) (m_dirs m) = Some d" "dd_author d = Some user"
  shows "others_kept root user m m1"
  using assms filter_delete_first [OF assms(2), of "\<lambda>d. dd_author d \<noteq> Some user"]
  by (auto simp: cms_delete_media_directory_def others_kept_def changes_refl split: if_splits)

lemma media_directory_delete_kept:
  assumes "role \<noteq> ''admin''" "user \<noteq> []" "oid_laws (me_lib me)"
  shows "others_kept (own_root me user) user m (snd (media_directory_delete me role user body m))"
proof (cases "cms_get_media_directory_by_id me (field body ''id'' 32) m")
  case None
  then show ?thesis by (simp add: media_directory_delete_def Let_def)
next
  case (Some dir)
  show ?thesis
  proof (cases "media_can_manage role user (cd_author_id dir)")
    case False
    then show ?thesis using Some by (simp add: media_directory_delete_def Let_def)
  next
    case True
    then obtain d where d: "find (\<lambda>e. dd_id e = cd_id dir) (m_dirs m) = Some d" "dd_author d = Some user"
        "cd_author_id dir = user" "lib_oid_text (me_lib me) (cd_id dir) = cd_id dir"
      using own_directory [OF Some _ assms] by blast
    define rm where "rm = (case cms_get_username_by_id me (cd_author_id dir) 64 of
        None \<Rightarrow> (True, m_fs m)
      | Some owner \<Rightarrow> if media_username_valid owner \<and> media_dir_name_valid (cd_name dir)
          then rmdir (posts_path owner (cd_name dir)) (m_fs m) else (True, m_fs m))"
    have "changes_below (own_root me user) (m_fs m) (snd rm)"
    proof (cases "cms_get_username_by_id me (cd_author_id dir) 64")
      case (Some owner)
      then have "owner = username_or_empty me user" using d(3) by (simp add: username_or_empty_def)
      then show ?thesis using Some own_path changes_rmdir by (simp add: rm_def changes_refl)
    qed (simp add: rm_def changes_refl)
    then have fs: "others_kept (own_root me user) user m (m\<lparr>m_fs := snd rm\<rparr>)" by (rule kept_fs)
    have db: "others_kept (own_root me user) user m m1"
      if "cms_delete_media_directory me (cd_id dir) (m\<lparr>m_fs := snd rm\<rparr>) = Some m1" for m1
      using kept_trans [OF fs delete_doc_kept [OF that]] d(1,2,4) by simp
    obtain ok fs1 where ok: "rm = (ok, fs1)" by (cases rm) auto
    have "snd (media_directory_delete me role user body m) =
        (if cms_count_media_in_directory me (cd_id dir) m \<noteq> 0 then m
         else if \<not> ok then m\<lparr>m_fs := fs1\<rparr>
         else case cms_delete_media_directory me (cd_id dir) (m\<lparr>m_fs := fs1\<rparr>) of None \<Rightarrow> m\<lparr>m_fs := fs1\<rparr> | Some m1 \<Rightarrow> m1)"
      using Some True ok [unfolded rm_def] by (simp add: media_directory_delete_def Let_def split: option.split)
    then show ?thesis using fs db ok by (auto split: option.splits)
  qed
qed

lemma fold_kept:
  assumes "\<And>x t m. others_kept root user m (snd (f x (t, m)))"
  shows "others_kept root user m (snd (fold f xs (t, m)))"
proof (induction xs arbitrary: t m)
  case (Cons x xs)
  obtain t1 m1 where f: "f x (t, m) = (t1, m1)" by (cases "f x (t, m)") auto
  then have "others_kept root user m m1" using assms [of m x t] by simp
  then show ?case using kept_trans [OF _ Cons [of m1 t1]] f by simp
qed simp

lemma delete_token_kept:
  assumes "role \<noteq> ''admin''" "user \<noteq> []" "lib_oid_valid (me_lib me) user" "lib_oid_text (me_lib me) user = user"
  shows "others_kept (own_root me user) user m (snd (delete_token me role user tok (t, m)))"
proof (cases "cms_get_media_item_by_id me tok m")
  case None
  then show ?thesis by (simp add: delete_token_def)
next
  case (Some item)
  show ?thesis
  proof (cases "media_can_manage role user (mi_author_id item)")
    case False
    then show ?thesis using Some by (simp add: delete_token_def)
  next
    case True
    obtain d where d: "find (\<lambda>e. md_id e = lib_oid_text (me_lib me) tok) (m_items m) = Some d" "md_author d = Some user"
        "mi_author_username item = username_or_empty me user"
      using own_item [OF Some True assms] by blast
    define m1 where "m1 = (if media_item_paths_valid item then m\<lparr>m_fs := media_delete_variants item (m_fs m)\<rparr> else m)"
    have fs: "others_kept (own_root me user) user m m1"
    proof (cases "media_item_paths_valid item")
      case True
      then have "below (own_root me user) (media_item_dir_path item)"
        using own_path d(3) by (simp add: media_item_paths_valid_def media_item_dir_path_def)
      then show ?thesis using True changes_weaken [OF delete_variants_below] kept_fs by (simp add: m1_def)
    qed (simp add: m1_def)
    have items: "m_items m1 = m_items m" by (simp add: m1_def)
    have "others_kept (own_root me user) user m1 m2" if "cms_delete_media me tok m1 = Some m2" for m2
      using that filter_delete_first [OF d(1), of "\<lambda>d. md_author d \<noteq> Some user"] d(2) items
      by (auto simp: cms_delete_media_def others_kept_def changes_refl split: if_splits)
    then show ?thesis using Some True fs kept_trans [OF fs]
      unfolding delete_token_def by (simp add: Let_def m1_def [symmetric] split: option.split)
  qed
qed

lemma move_token_kept:
  assumes "role \<noteq> ''admin''" "user \<noteq> []" "lib_oid_valid (me_lib me) user" "lib_oid_text (me_lib me) user = user"
    and "media_dir_name_valid (cd_name dest)"
  shows "others_kept (own_root me user) user m (snd (move_token me role user dest tok (t, m)))"
proof (cases "cms_get_media_item_by_id me tok m")
  case None
  then show ?thesis by (simp add: move_token_def)
next
  case (Some item)
  show ?thesis
  proof (cases "media_can_manage role user (mi_author_id item) \<and> media_item_paths_valid item")
    case False
    then show ?thesis using Some by (auto simp: move_token_def)
  next
    case True
    then obtain d where d: "find (\<lambda>e. md_id e = lib_oid_text (me_lib me) tok) (m_items m) = Some d" "md_author d = Some user"
        "mi_author_username item = username_or_empty me user"
      using own_item [OF Some _ assms(1-4)] by blast
    obtain ok fs1 where mv: "media_move_variants item (cd_name dest) (m_fs m) = (ok, fs1)" by fastforce
    have "below (own_root me user) (media_item_dir_path item)" "below (own_root me user) (posts_path (mi_author_username item) (cd_name dest))"
      using own_path True assms(5) d(3) by (simp_all add: media_item_paths_valid_def media_item_dir_path_def)
    from move_variants_below [OF this, of "m_fs m"] have fs: "others_kept (own_root me user) user m (m\<lparr>m_fs := fs1\<rparr>)"
      using mv kept_fs by simp
    have "others_kept (own_root me user) user (m\<lparr>m_fs := fs1\<rparr>) m2" if "cms_move_media me tok (cd_id dest) (m\<lparr>m_fs := fs1\<rparr>) = Some m2" for m2
      using that filter_update_first [OF d(1), of "\<lambda>d. md_author d \<noteq> Some user"
          "\<lambda>d. d\<lparr>md_dir := Some (lib_oid_text (me_lib me) (cd_id dest))\<rparr>"] d(2)
      by (auto simp: cms_move_media_def others_kept_def changes_refl split: if_splits)
    then show ?thesis using Some True mv fs kept_trans [OF fs]
      unfolding move_token_def by (simp add: Let_def split: option.split)
  qed
qed

lemma default_directory_kept:
  assumes "lib_oid_text (me_lib me) user = user"
  shows "others_kept (own_root me user) user m
    (snd (resolve_or_create_default_media_directory me user (username_or_empty me user) m))"
proof (cases "cms_get_media_directory_by_name me ''default'' user m")
  case None
  let ?a = "author_path (username_or_empty me user)"
  let ?p = "fit 528 (?a @ ''/default'')"
  define fs1 where "fs1 = (if stat_node ?a (m_fs m) = None then snd (mkdir ?a (m_fs m)) else m_fs m)"
  obtain ok fs2 where mk: "(if stat_node ?p fs1 = None then mkdir ?p fs1 else (True, fs1)) = (ok, fs2)" by fastforce
  have "length ?a < 512" by (simp add: author_path_def)
  then have p: "below (own_root me user) ?p" using fit_short_prefix [of ?a 528 "''default''"] by (simp add: own_root_def)
  have "changes_below (own_root me user) (m_fs m) fs1"
    using changes_mkdir [OF own_author_path, of me user "m_fs m"] by (simp add: fs1_def changes_refl)
  moreover have "changes_below (own_root me user) fs1 fs2"
    using changes_mkdir [OF p, of fs1] mk by (auto simp: changes_refl split: if_splits)
  ultimately have fs: "others_kept (own_root me user) user m (m\<lparr>m_fs := fs2\<rparr>)" using kept_fs changes_trans by blast
  have db: "others_kept (own_root me user) user m m2"
    if "cms_create_media_directory me ''default'' ''posts'' user (m\<lparr>m_fs := fs2\<rparr>) = Some (i, m2)" for i m2
    using kept_trans [OF fs create_kept [OF assms that]] .
  have "snd (resolve_or_create_default_media_directory me user (username_or_empty me user) m) =
      (if \<not> ok then m\<lparr>m_fs := fs2\<rparr>
       else case cms_create_media_directory me ''default'' ''posts'' user (m\<lparr>m_fs := fs2\<rparr>) of
              None \<Rightarrow> m\<lparr>m_fs := fs2\<rparr> | Some (i, m2) \<Rightarrow> m2)"
    unfolding resolve_or_create_default_media_directory_def Let_def None option.case fs1_def [symmetric] mk prod.case
    by (simp split: option.split)
  then show ?thesis using fs db by (auto split: option.splits)
qed (simp add: resolve_or_create_default_media_directory_def)

lemma insert_kept:
  assumes "lib_oid_text (me_lib me) user = user" "cms_insert_media me name user d m = Some m1"
  shows "others_kept root user m m1"
  using assms by (auto simp: cms_insert_media_def others_kept_def changes_refl split: if_splits)

lemma store_upload_kept:
  assumes "lib_oid_text (me_lib me) user = user" "media_dir_name_valid (cd_name d)" "optimizer_confined me"
  shows "others_kept (own_root me user) user m
    (snd (store_upload me user (username_or_empty me user) name data d m))"
proof -
  let ?dir = "posts_path (username_or_empty me user) (cd_name d)"
  let ?fs1 = "snd (mkdir ?dir (m_fs m))"
  note root = own_path [OF assms(2), of me user]
  have mk: "changes_below (own_root me user) (m_fs m) ?fs1" by (rule changes_mkdir [OF root])
  show ?thesis
  proof (cases "media_unique_name ?dir name 256 ?fs1")
    case None
    then show ?thesis using kept_fs [OF mk] by (simp add: store_upload_def Let_def)
  next
    case (Some n)
    let ?file = "fit 1024 (?dir @ ''/'' @ n)"
    obtain fs2 out where opt: "me_optimize me (AList.update ?file (Regular data) ?fs1) ?dir ?file = (fs2, out)" by fastforce
    define opath where "opath = takeWhile (\<lambda>c. c \<noteq> LF) (fit 1024 out)"
    have fb: "below ?dir ?file" using posts_path_length [of "username_or_empty me user" "cd_name d"] fit_short_prefix [of ?dir 1024 n] by simp
    have "changes_below ?dir (AList.update ?file (Regular data) ?fs1) fs2"
      using assms(3) opt fb unfolding optimizer_confined_def by (metis fst_conv)
    then have "changes_below ?dir ?fs1 fs2" using changes_trans [OF changes_update [OF fb]] by blast
    then have fs2: "changes_below (own_root me user) (m_fs m) fs2" using changes_weaken [OF _ root] changes_trans [OF mk] by blast
    moreover have "changes_below (own_root me user) fs2 (unlink ?file fs2)"
      by (rule changes_unlink [OF below_trans [OF root fb]])
    ultimately have un: "others_kept (own_root me user) user m (m\<lparr>m_fs := unlink ?file fs2\<rparr>)"
      using changes_trans kept_fs by blast
    have ins: "others_kept (own_root me user) user m m3"
      if "cms_insert_media me x user y (m\<lparr>m_fs := fs2\<rparr>) = Some m3" for x y m3
      using kept_trans [OF kept_fs [OF fs2] insert_kept [OF assms(1) that]] .
    have "snd (store_upload me user (username_or_empty me user) name data d m) =
        (if map_of ?fs1 ?file \<noteq> None \<or> map_of ?fs1 (dirname ?file) \<noteq> Some Directory then m\<lparr>m_fs := ?fs1\<rparr>
         else if \<not> optimized_ok ?dir opath fs2 then m\<lparr>m_fs := unlink ?file fs2\<rparr>
         else case cms_insert_media me (recorded_name opath) user (fit 32 (cd_id d)) (m\<lparr>m_fs := fs2\<rparr>) of
                None \<Rightarrow> m\<lparr>m_fs := fs2\<rparr> | Some m3 \<Rightarrow> m3)"
      using Some opt by (simp add: store_upload_def Let_def opath_def split: option.split)
    then show ?thesis using kept_fs [OF mk] un kept_fs [OF fs2] ins by (auto split: option.splits)
  qed
qed

lemma media_upload_post_kept:
  assumes "lib_oid_text (me_lib me) user = user" "optimizer_confined me"
  shows "others_kept (own_root me user) user m (snd (media_upload_post me user parts m))"
proof -
  have st: "others_kept (own_root me user) user m (snd (store_upload me user (username_or_empty me user) n dat d m1))"
    if "others_kept (own_root me user) user m m1" "media_dir_name_valid (cd_name d)" for n dat d m1
    using kept_trans [OF that(1) store_upload_kept [OF assms(1) that(2) assms(2)]] .
  have df: "others_kept (own_root me user) user m m1"
    if "resolve_or_create_default_media_directory me user (username_or_empty me user) m = (d, m1)" for d m1
    using default_directory_kept [OF assms(1), of m] that by simp
  show ?thesis
    by (auto simp: media_upload_post_def Let_def st df split: option.split prod.split)
qed

lemma media_action_kept:
  assumes "media_action me req url user role m = Some (ws, m1)" "role \<noteq> ''admin''" "oid_laws (me_lib me)" "optimizer_confined me"
    and "user \<noteq> []" "lib_oid_valid (me_lib me) user" "lib_oid_text (me_lib me) user = user"
  shows "others_kept (own_root me user) user m m1"
proof -
  have del: "others_kept (own_root me user) user m (snd (media_delete_post me role user body m))" for body
    using fold_kept [where f = "delete_token me role user", OF delete_token_kept [OF assms(2,5,6,7)]]
    by (simp add: media_delete_post_def case_prod_beta)
  have mv: "others_kept (own_root me user) user m (snd (media_move_post me role user body m))" for body
  proof -
    have "others_kept (own_root me user) user m (snd (fold (move_token me role user dest) xs (zero_tally, m)))"
      if "media_dir_name_valid (cd_name dest)" for dest xs
      using fold_kept [where f = "move_token me role user dest", OF move_token_kept [OF assms(2,5,6,7) that]] .
    then show ?thesis by (simp add: media_move_post_def case_prod_beta split: option.split)
  qed
  have "media_action me req url user role m = Some x \<Longrightarrow> others_kept (own_root me user) user m (snd x)" for x
    using media_directory_create_kept [OF assms(7)] media_directory_rename_kept [OF assms(2,5,3)]
      media_directory_delete_kept [OF assms(2,5,3)] del mv media_upload_post_kept [OF assms(7,4)]
    by (auto simp: media_action_def split: if_splits)
  from this [OF assms(1)] show ?thesis by simp
qed

text \<open>An account whose name is no component of a path changes no file at all.\<close>

lemma delete_token_no_files:
  assumes "role \<noteq> ''admin''" "user \<noteq> []" "lib_oid_valid (me_lib me) user" "lib_oid_text (me_lib me) user = user"
    and "\<not> media_username_valid (username_or_empty me user)"
  shows "m_fs (snd (delete_token me role user tok (t, m))) = m_fs m"
proof -
  have "\<not> media_item_paths_valid item" if "cms_get_media_item_by_id me tok m = Some item" "media_can_manage role user (mi_author_id item)" for item
    using own_item [OF that assms(1-4)] assms(5) by (auto simp: media_item_paths_valid_def)
  then show ?thesis by (auto simp: delete_token_def cms_delete_media_def Let_def split: option.split)
qed

lemma move_token_no_files:
  assumes "role \<noteq> ''admin''" "user \<noteq> []" "lib_oid_valid (me_lib me) user" "lib_oid_text (me_lib me) user = user"
    and "\<not> media_username_valid (username_or_empty me user)"
  shows "m_fs (snd (move_token me role user dest tok (t, m))) = m_fs m"
proof -
  have "\<not> media_item_paths_valid item" if "cms_get_media_item_by_id me tok m = Some item" "media_can_manage role user (mi_author_id item)" for item
    using own_item [OF that assms(1-4)] assms(5) by (auto simp: media_item_paths_valid_def)
  then show ?thesis by (auto simp: move_token_def split: option.split)
qed

lemma fold_no_files:
  assumes "\<And>x t m. m_fs (snd (f x (t, m))) = m_fs m"
  shows "m_fs (snd (fold f xs (t, m))) = m_fs m"
proof (induction xs arbitrary: t m)
  case (Cons x xs)
  obtain t1 m1 where f: "f x (t, m) = (t1, m1)" by (cases "f x (t, m)") auto
  then show ?case using assms [of x t m] Cons by simp
qed simp

lemma directory_no_files:
  assumes "role \<noteq> ''admin''" "\<not> media_username_valid (username_or_empty me user)"
  shows "m_fs (snd (media_directory_rename me role user body m)) = m_fs m"
    and "m_fs (snd (media_directory_delete me role user body m)) = m_fs m"
proof -
  have own: "cd_author_id d = user" if "media_can_manage role user (cd_author_id d)" for d
    using that assms(1) by (simp add: media_can_manage_def)
  show "m_fs (snd (media_directory_rename me role user body m)) = m_fs m"
    using assms(2) own by (auto simp: media_directory_rename_def Let_def split: option.split)
  have "\<not> media_username_valid w"
    if "media_can_manage role user (cd_author_id d)" "cms_get_username_by_id me (cd_author_id d) 64 = Some w" for d w
    using own [OF that(1)] that(2) assms(2) by (auto simp: username_or_empty_def)
  then show "m_fs (snd (media_directory_delete me role user body m)) = m_fs m"
    by (auto simp: media_directory_delete_def Let_def cms_delete_media_directory_def split: option.split)
qed

lemma media_action_no_files:
  assumes "media_action me req url user role m = Some (ws, m1)" "role \<noteq> ''admin''"
    and "user \<noteq> []" "lib_oid_valid (me_lib me) user" "lib_oid_text (me_lib me) user = user"
    and "\<not> media_username_valid (username_or_empty me user)"
  shows "m_fs m1 = m_fs m"
proof -
  have del: "m_fs (snd (media_delete_post me role user body m)) = m_fs m" for body
    using fold_no_files [where f = "delete_token me role user", OF delete_token_no_files [OF assms(2-6)]]
    by (simp add: media_delete_post_def case_prod_beta)
  have mv: "m_fs (snd (media_move_post me role user body m)) = m_fs m" for body
    using fold_no_files [where f = "move_token me role user _", OF move_token_no_files [OF assms(2-6)]]
    by (simp add: media_move_post_def case_prod_beta split: option.split)
  have up: "m_fs (snd (media_upload_post me user parts m)) = m_fs m" for parts
    using assms(6) by (auto simp: media_upload_post_def Let_def split: option.split)
  have cr: "m_fs (snd (media_directory_create me role user body m)) = m_fs m" for body
    using assms(6) by (auto simp: media_directory_create_def Let_def)
  have "media_action me req url user role m = Some x \<Longrightarrow> m_fs (snd x) = m_fs m" for x
    using directory_no_files [OF assms(2,6)] del mv up cr by (auto simp: media_action_def split: if_splits)
  from this [OF assms(1)] show ?thesis by simp
qed

text \<open>
  C9. Whatever a request to the media routes holds, the library changes only for a request the check
  of the dashboard let on, and unless that user is an administrator only in the user's own part: no file
  outside the user's directory is written, moved or deleted, and no document of another author is added,
  changed or removed.
\<close>

theorem media_own_part_only:
  assumes "oid_laws (me_lib me)" "optimizer_confined me"
    and "\<forall>u. session_user env req = Some u \<longrightarrow> u \<noteq> [] \<and> lib_oid_valid (me_lib me) u \<and> lib_oid_text (me_lib me) u = u"
    and "r_media (media_post env me req url m) \<noteq> m"
  shows "\<exists>user role. g_user (require_dashboard_session_ex env req (resolve_epoch env req)) = Some (user, role)
    \<and> (role = ''admin''
       \<or> (\<forall>p. media_username_valid (username_or_empty me user) \<and> below (author_path (username_or_empty me user)) p
              \<or> map_of (m_fs (r_media (media_post env me req url m))) p = map_of (m_fs m) p)
         \<and> filter (\<lambda>d. dd_author d \<noteq> Some user) (m_dirs (r_media (media_post env me req url m))) = filter (\<lambda>d. dd_author d \<noteq> Some user) (m_dirs m)
         \<and> filter (\<lambda>d. md_author d \<noteq> Some user) (m_items (r_media (media_post env me req url m))) = filter (\<lambda>d. md_author d \<noteq> Some user) (m_items m))"
proof -
  let ?g = "require_dashboard_session_ex env req (resolve_epoch env req)"
  obtain user role where g: "g_user ?g = Some (user, role)"
    using assms(4) by (cases "g_user ?g") (auto simp: media_post_def Let_def)
  obtain ws m1 where a: "media_action me req url user role m = Some (ws, m1)" "r_media (media_post env me req url m) = m1"
    using assms(4) g by (cases "media_action me req url user role m") (auto simp: media_post_def Let_def split: if_splits)
  have "session_user env req = Some user" using g by (simp add: guard_granted)
  then have u: "user \<noteq> []" "lib_oid_valid (me_lib me) user" "lib_oid_text (me_lib me) user = user" using assms(3) by auto
  show ?thesis
  proof (cases "role = ''admin''")
    case False
    have k: "others_kept (own_root me user) user m m1" by (rule media_action_kept [OF a(1) False assms(1,2) u])
    have "map_of (m_fs m1) p = map_of (m_fs m) p"
      if "\<not> (media_username_valid (username_or_empty me user) \<and> below (author_path (username_or_empty me user)) p)" for p
      using that k media_action_no_files [OF a(1) False u] by (auto simp: others_kept_def changes_below_def own_root_def)
    then show ?thesis using g a(2) k unfolding others_kept_def by blast
  qed (use g in blast)
qed

subsection \<open>An upload and its deletion\<close>

text \<open>
  The contract of scripts/image-optimizer.sh when the tools it calls succeed: of a file that is not an
  image it only says that it skips it; of an image it writes five variants, as JPEG or GIF, removes the
  upload, and prints the path of the full-size one.
\<close>

definition optimizer_writes :: "MediaEnv \<Rightarrow> bool" where
  "optimizer_writes me \<longleftrightarrow>
     (\<forall>fs dir s x d. plain_name s x \<and> map_of fs (dir @ CHR ''/'' # s @ CHR ''.'' # x) = Some (Regular d) \<longrightarrow>
        (\<exists>name. me_optimize me fs dir (dir @ CHR ''/'' # s @ CHR ''.'' # x) = (fs, ''Skipping '' @ name))
        \<or> (\<exists>e fs1 v. (e = ''jpg'' \<or> e = ''gif'')
           \<and> me_optimize me fs dir (dir @ CHR ''/'' # s @ CHR ''.'' # x) = (fs1, dir @ CHR ''/'' # s @ ''_full.'' @ e @ [LF])
           \<and> (\<forall>p. map_of fs1 p = (if p \<in> set (optimizer_files dir s e) then Some (Regular (v p))
                 else if p = dir @ CHR ''/'' # s @ CHR ''.'' # x then None else map_of fs p))))"

lemma skipped_not_ok: "\<not> optimized_ok (posts_path u d) (takeWhile P (fit 1024 (''Skipping '' @ name))) fs"
proof -
  have "\<not> prefix (posts_path u d @ ''/'') (takeWhile P (fit 1024 (''Skipping '' @ name)))"
    by (simp add: posts_path_def fit_def)
  then show ?thesis by (simp add: optimized_ok_def)
qed

lemma printed_path:
  assumes "plain_name s e" "length s \<le> 127" "length e \<le> 4" "media_username_valid u" "media_dir_name_valid d"
  shows "takeWhile (\<lambda>c. c \<noteq> LF) (fit 1024 (posts_path u d @ CHR ''/'' # s @ ''_full.'' @ e @ [LF])) = posts_path u d @ CHR ''/'' # s @ ''_full.'' @ e"
proof -
  let ?w = "posts_path u d @ CHR ''/'' # s @ ''_full.'' @ e"
  have lf: "LF \<notin> set x" if "list_all (\<lambda>c. plain_char c \<or> c = CHR ''.'') x" for x
    using that by (auto simp: list_all_iff plain_char_def ctype_defs)
  have "LF \<notin> set s" "LF \<notin> set e" "LF \<notin> set d" "LF \<notin> set u"
    using assms lf by (auto simp: plain_name_def media_dir_name_valid_def media_username_valid_def list_all_iff)
  moreover have "set (posts_path u d) \<subseteq> set (''./html/content/posts/'' @ u @ ''/'' @ d)"
    unfolding posts_path_def fit_def by (rule set_take_subset)
  ultimately have n: "\<forall>c\<in>set ?w. c \<noteq> LF" by auto
  have "fit 1024 (?w @ [LF]) = ?w @ [LF]" by (rule fit_id) (use posts_path_length [of u d] assms(2,3) in simp)
  then have "fit 1024 (posts_path u d @ CHR ''/'' # s @ ''_full.'' @ e @ [LF]) = ?w @ [LF]" by (simp only: append_assoc append_Cons)
  moreover have "takeWhile (\<lambda>c. c \<noteq> LF) (?w @ [LF]) = ?w @ takeWhile (\<lambda>c. c \<noteq> LF) [LF]" by (rule takeWhile_append2) (use n in blast)
  ultimately show ?thesis by simp
qed

text \<open>
  C35. An image uploaded under a name without \<open>_full\<close> in it is recorded under the name its files have:
  the five variants of one free name, as JPEG or GIF, are added to the file system, the full-size and the half-size
  ones over no file that was there, and nothing else changes but for the directory, which is made if it was not
  there. Deleting the image removes those five files and nothing else. With \<open>_full\<close> in the name the record has
  another name (see \<open>recorded_name_of_another\<close>).
\<close>

theorem upload_then_delete:
  assumes "media_image_extension data = Some ext"
    and "media_name_with_extension (media_sanitize_upload_name raw 256) 256 ext = Some name" "\<not> contains (stem_of name) ''_full''"
    and "media_username_valid u" "media_dir_name_valid (cd_name d)" "optimizer_writes me" "\<forall>p t. map_of (m_fs m) p \<noteq> Some (Symlink t)"
    and "store_upload me user u name data d m = (ws, m1)" "m_items m1 \<noteq> m_items m"
  shows "\<exists>doc c e v. m_items m1 = m_items m @ [doc] \<and> md_name doc = Some (c @ CHR ''.'' # e) \<and> (e = ''jpg'' \<or> e = ''gif'')
    \<and> (let dir = posts_path u (cd_name d); before = map_of (snd (mkdir dir (m_fs m)));
           files = map (\<lambda>t. dir @ CHR ''/'' # c @ t) [''_full.'' @ e, ''_half.'' @ e, ''_small.'' @ e, ''_medium.gif'', ''_micro.gif'']
       in before (files ! 0) = None \<and> before (files ! 1) = None
        \<and> (\<forall>p. map_of (m_fs m1) p = (if p \<in> set files then Some (Regular (v p)) else before p))
        \<and> (\<forall>item p. mi_name item = c @ CHR ''.'' # e \<and> mi_author_username item = u \<and> mi_dir_name item = cd_name d \<longrightarrow>
             map_of (media_delete_variants item (m_fs m1)) p = (if p \<in> set files then None else before p)))"
proof -
  let ?dir = "posts_path u (cd_name d)"
  let ?fs1 = "snd (mkdir ?dir (m_fs m))"
  obtain s x where sx: "plain_name s x" "length s \<le> 120" "length x \<le> 4" "name = s @ CHR ''.'' # x"
    using named_form [OF assms(1,2)] by blast
  have xp: "list_all plain_char x" using sx(1) by (simp add: plain_name_def)
  have nf: "\<not> contains s ''_full''" using assms(3) split_name(1) [OF plain_not_dot [OF xp]] sx(4) by simp
  obtain n where n: "media_unique_name ?dir name 256 ?fs1 = Some n"
    using assms(8,9) by (cases "media_unique_name ?dir name 256 ?fs1") (auto simp: store_upload_def Let_def)
  obtain c where c: "plain_name c x" "length c \<le> 127" "n = c @ CHR ''.'' # x" "\<not> media_stem_taken ?dir c ?fs1"
      "c = s \<or> (\<exists>k\<ge>0. c = fit 128 (s @ ''_'' @ show_int k))"
    using unique_form [OF sx(1-3)] n sx(4) by blast
  have cf: "\<not> contains c ''_full''"
  proof -
    have "\<not> contains (fit 128 (s @ ''_'' @ show_int k)) ''_full''" if "0 \<le> k" for k
    proof (rule no_full_in_numbered [OF nf])
      show "list_all (\<lambda>c. c \<noteq> CHR ''l'') (''_'' @ show_int k)"
        using that show_nat_digits [of "CHR ''l''" "nat k"] by (auto simp: show_int_def list_all_iff isdigit_def)
    qed
    then show ?thesis using c(5) nf by auto
  qed
  let ?file = "?dir @ CHR ''/'' # c @ CHR ''.'' # x"
  have ff: "fit 1024 (?dir @ CHR ''/'' # n) = ?file"
    using fit_id [of ?file 1024] posts_path_length [of u "cd_name d"] c(2,3) sx(3) by simp
  let ?fs0 = "AList.update ?file (Regular data) ?fs1"
  have "plain_name c x \<and> map_of ?fs0 ?file = Some (Regular data)" using c(1) by (simp add: update_conv')
  note law = assms(6) [unfolded optimizer_writes_def, rule_format, where fs = ?fs0 and dir = ?dir and s = c and x = x and d = data, OF this]
  moreover have "\<nexists>w. me_optimize me ?fs0 ?dir ?file = (?fs0, ''Skipping '' @ w)"
    using assms(8,9) n skipped_not_ok by (auto simp: store_upload_def Let_def ff split: if_splits)
  ultimately obtain e fs2 v where opt: "e = ''jpg'' \<or> e = ''gif''" "me_optimize me ?fs0 ?dir ?file = (fs2, ?dir @ CHR ''/'' # c @ ''_full.'' @ e @ [LF])"
      "\<And>p. map_of fs2 p = (if p \<in> set (optimizer_files ?dir c e) then Some (Regular (v p)) else if p = ?file then None else map_of ?fs0 p)"
    by blast
  have e: "plain_name c e" "length e \<le> 4" using c(1) opt(1) by (auto simp: plain_name_def plain_char_def isalnum_def isalpha_def islower_def)
  note printed = printed_path [OF e(1) c(2) e(2) assms(4,5)]
  note recorded = recorded_name_plain [OF e(1) c(2) e(2) cf, of ?dir]
  have store: "m1 = m\<lparr>m_fs := fs2\<rparr> \<or> cms_insert_media me (c @ CHR ''.'' # e) user (fit 32 (cd_id d)) (m\<lparr>m_fs := fs2\<rparr>) = Some m1"
    "map_of ?fs1 ?file = None"
    using assms(8,9) n opt(2) printed recorded
    by (auto simp: store_upload_def Let_def ff split: if_splits option.splits)
  then have ins: "cms_insert_media me (c @ CHR ''.'' # e) user (fit 32 (cd_id d)) (m\<lparr>m_fs := fs2\<rparr>) = Some m1"
    using assms(9) by auto
  then obtain doc where doc: "m_items m1 = m_items m @ [doc]" "md_name doc = Some (c @ CHR ''.'' # e)" "m_fs m1 = fs2"
    by (auto simp: cms_insert_media_def split: if_splits)
  have fs2: "map_of fs2 p = (if p \<in> set (optimizer_files ?dir c e) then Some (Regular (v p)) else map_of ?fs1 p)" for p
    using opt(3) [of p] store(2) by (auto simp: update_conv')
  have nolink: "map_of fs2 p \<noteq> Some (Symlink t)" for p t
    using assms(7) by (auto simp: fs2 mkdir_def update_conv')
  have free: "map_of ?fs1 (?dir @ CHR ''/'' # c @ x) = None" if "x \<in> set taken_suffixes" "length x \<le> 9" for x
  proof -
    have "fit 1024 (?dir @ ''/'' @ c @ x) = ?dir @ CHR ''/'' # c @ x"
      using fit_id [of "?dir @ CHR ''/'' # c @ x" 1024] posts_path_length [of u "cd_name d"] c(2) that(2) by simp
    then show ?thesis using c(4) that(1) by (auto simp: media_stem_taken_def list_ex_iff lstat_ok_def)
  qed
  have new: "map_of ?fs1 (?dir @ CHR ''/'' # c @ ''_full.'' @ e) = None" "map_of ?fs1 (?dir @ CHR ''/'' # c @ ''_half.'' @ e) = None"
    using free [of "''_full.'' @ e"] free [of "''_half.'' @ e"] opt(1) by (auto simp: taken_suffixes_def)
  have "map_of ?fs1 (?dir @ CHR ''/'' # c @ CHR ''.'' # e) = None"
    using free [of "CHR ''.'' # e"] opt(1) by (auto simp: taken_suffixes_def)
  moreover have "?dir @ CHR ''/'' # c @ CHR ''.'' # e \<notin> set (optimizer_files ?dir c e)" using opt(1) by (auto simp: optimizer_files_def)
  ultimately have bare: "map_of fs2 (?dir @ CHR ''/'' # c @ CHR ''.'' # e) = None" by (simp add: fs2)
  have del: "map_of (media_delete_variants item fs2) p = (if p \<in> set (optimizer_files ?dir c e) then None else map_of ?fs1 p)"
    if "mi_name item = c @ CHR ''.'' # e" "mi_author_username item = u" "mi_dir_name item = cd_name d" for item p
  proof -
    have i: "media_item_dir_path item = ?dir" using that by (simp add: media_item_dir_path_def)
    show ?thesis
      using delete_variants_files [OF that(1) e(1) c(2) e(2) nolink, of p] bare by (simp add: i fs2)
  qed
  have files: "map (\<lambda>t. ?dir @ CHR ''/'' # c @ t) [''_full.'' @ e, ''_half.'' @ e, ''_small.'' @ e, ''_medium.gif'', ''_micro.gif'']
      = optimizer_files ?dir c e"
    by (simp only: optimizer_files_def)
  have "map_of ?fs1 (optimizer_files ?dir c e ! 0) = None \<and> map_of ?fs1 (optimizer_files ?dir c e ! 1) = None"
    using new by (simp add: optimizer_files_def)
  moreover have "\<forall>p. map_of (m_fs m1) p = (if p \<in> set (optimizer_files ?dir c e) then Some (Regular (v p)) else map_of ?fs1 p)"
    unfolding doc(3) using fs2 by blast
  moreover have "\<forall>item p. mi_name item = c @ CHR ''.'' # e \<and> mi_author_username item = u \<and> mi_dir_name item = cd_name d \<longrightarrow>
      map_of (media_delete_variants item (m_fs m1)) p = (if p \<in> set (optimizer_files ?dir c e) then None else map_of ?fs1 p)"
    unfolding doc(3) using del by blast
  ultimately show ?thesis unfolding Let_def
    by (intro exI [of _ doc] exI [of _ c] exI [of _ e] exI [of _ v], unfold files) (intro conjI doc(1,2) opt(1); blast)
qed

subsection \<open>Concrete runs\<close>

text \<open>An optimizer that meets its contract, with empty files.\<close>

definition toy_optimize :: "Fs \<Rightarrow> string \<Rightarrow> string \<Rightarrow> Fs \<times> string" where
  "toy_optimize fs dir path =
     (if \<not> below dir path then (fs, [])
      else let s = stem_of (drop (length dir + 1) path) in
        (fold (\<lambda>p. AList.update p (Regular [])) (optimizer_files dir s ''jpg'') (AList.delete path fs),
         dir @ CHR ''/'' # s @ ''_full.jpg'' @ [LF]))"

definition toy_media :: MediaEnv where
  "toy_media = \<lparr>me_lib = toy_lib, me_db = Db_Works,
     me_users = (\<lambda>i. Some \<lparr>u_username = Some ''ann'', u_email = None, u_name = None\<rparr>),
     me_dir_id = replicate 24 CHR ''d'', me_item_id = replicate 24 CHR ''e'', me_date = ''2025-01-01 00:00:00'',
     me_optimize = toy_optimize, me_render = (\<lambda>d. Some [])\<rparr>"

lemma map_of_updates: "map_of (fold (\<lambda>p. AList.update p n) ps fs) q = (if q \<in> set ps then Some n else map_of fs q)"
  by (induction ps arbitrary: fs) (auto simp: update_conv')

lemma toy_media_laws: "oid_laws (me_lib toy_media)" "optimizer_confined toy_media" "optimizer_writes toy_media"
proof -
  show "oid_laws (me_lib toy_media)" by (simp add: oid_laws_def toy_media_def toy_lib_def)
  have c: "changes_below dir fs (fst (toy_optimize fs dir path))" for fs dir path
  proof (cases "below dir path")
    case True
    have "\<not> below dir p \<Longrightarrow> p \<noteq> path \<and> p \<notin> set (optimizer_files dir s ''jpg'')" for p s
      using True by (auto simp: optimizer_files_def)
    then show ?thesis using True by (simp add: toy_optimize_def Let_def changes_below_def map_of_updates delete_conv')
  qed (simp add: toy_optimize_def changes_refl)
  then show "optimizer_confined toy_media" by (simp add: optimizer_confined_def toy_media_def)
  have "\<exists>e fs1 v. (e = ''jpg'' \<or> e = ''gif'')
     \<and> toy_optimize fs dir (dir @ CHR ''/'' # s @ CHR ''.'' # x) = (fs1, dir @ CHR ''/'' # s @ ''_full.'' @ e @ [LF])
     \<and> (\<forall>p. map_of fs1 p = (if p \<in> set (optimizer_files dir s e) then Some (Regular (v p))
           else if p = dir @ CHR ''/'' # s @ CHR ''.'' # x then None else map_of fs p))"
    if "plain_name s x" for fs dir s x
  proof -
    have "CHR ''.'' \<notin> set x" using that plain_not_dot by (simp add: plain_name_def)
    note st = split_name(1) [OF this, of s]
    let ?fs1 = "fold (\<lambda>p. AList.update p (Regular [])) (optimizer_files dir s ''jpg'') (AList.delete (dir @ CHR ''/'' # s @ CHR ''.'' # x) fs)"
    have "toy_optimize fs dir (dir @ CHR ''/'' # s @ CHR ''.'' # x) = (?fs1, dir @ CHR ''/'' # s @ ''_full.'' @ ''jpg'' @ [LF])"
      by (simp add: toy_optimize_def Let_def st)
    moreover have "\<forall>p. map_of ?fs1 p = (if p \<in> set (optimizer_files dir s ''jpg'') then Some (Regular [])
        else if p = dir @ CHR ''/'' # s @ CHR ''.'' # x then None else map_of fs p)"
      by (simp add: map_of_updates delete_conv')
    ultimately show ?thesis by (intro exI [of _ "''jpg''"] exI [of _ ?fs1] exI [of _ "\<lambda>p. []"]) simp
  qed
  then show "optimizer_writes toy_media" unfolding optimizer_writes_def toy_media_def MediaEnv.select_convs by blast
qed

definition ann_id :: string where "ann_id = ''0123456789abcdef01234567''"

definition toy_library :: Media where
  "toy_library = \<lparr>m_dirs = [\<lparr>dd_id = replicate 24 CHR ''1'', dd_name = Some ''pics'', dd_parent = None, dd_author = Some ann_id\<rparr>,
       \<lparr>dd_id = replicate 24 CHR ''2'', dd_name = Some ''pics'', dd_parent = None, dd_author = Some (replicate 24 CHR ''b'')\<rparr>],
     m_items = [], m_fs = [(''./html/content/posts/ann/pics'', Directory)]\<rparr>"

definition author_env :: RouteEnv where
  "author_env = example_ext_env\<lparr>re_role := (\<lambda>u. Some ''author'')\<rparr>"

definition delete_pics :: HttpRequest where
  "delete_pics = \<lparr>req_method = ''POST'', req_url = ''/dashboard/api/media/directory/delete'', req_protocol = ''HTTP/1.1'',
     req_headers = [\<lparr>hkey = ''User-Agent'', hval = ''Test/1.0''\<rparr>, \<lparr>hkey = ''Cookie'', hval = ''session=t2''\<rparr>,
       \<lparr>hkey = ''X-CSRF-Token'', hval = hex_of (replicate 32 2)\<rparr>],
     req_body = Some (''id='' @ replicate 24 CHR ''1'')\<rparr>"

theorem media_own_part_only_witness:
  "m_dirs (r_media (media_post author_env toy_media delete_pics ''/dashboard/api/media/directory/delete'' toy_library)) =
     [\<lparr>dd_id = replicate 24 CHR ''2'', dd_name = Some ''pics'', dd_parent = None, dd_author = Some (replicate 24 CHR ''b'')\<rparr>]
   \<and> (\<exists>user role. g_user (require_dashboard_session_ex author_env delete_pics (resolve_epoch author_env delete_pics)) = Some (user, role))"
proof -
  let ?m = "r_media (media_post author_env toy_media delete_pics ''/dashboard/api/media/directory/delete'' toy_library)"
  have d: "m_dirs ?m = [\<lparr>dd_id = replicate 24 CHR ''2'', dd_name = Some ''pics'', dd_parent = None, dd_author = Some (replicate 24 CHR ''b'')\<rparr>]"
    by code_simp
  have "length (m_dirs toy_library) = 2" by (simp add: toy_library_def)
  then have "?m \<noteq> toy_library" using d by (metis length_Cons list.size(3) numeral_2_eq_2 n_not_Suc_n)
  moreover have "session_user author_env delete_pics = Some ann_id" by code_simp
  then have "\<forall>u. session_user author_env delete_pics = Some u \<longrightarrow>
      u \<noteq> [] \<and> lib_oid_valid (me_lib toy_media) u \<and> lib_oid_text (me_lib toy_media) u = u"
    by (simp add: toy_media_def toy_lib_def ann_id_def)
  ultimately have "\<exists>user role. g_user (require_dashboard_session_ex author_env delete_pics (resolve_epoch author_env delete_pics)) = Some (user, role)"
    using media_own_part_only [OF toy_media_laws(1,2), of author_env delete_pics "''/dashboard/api/media/directory/delete''" toy_library] by blast
  then show ?thesis using d by blast
qed

definition pics :: CmsMediaDirectory where
  "pics = \<lparr>cd_id = replicate 24 CHR ''1'', cd_name = ''pics'', cd_parent = [], cd_author_id = ann_id, cd_author_name = [], cd_owner_label = []\<rparr>"

theorem upload_then_delete_witness:
  "\<exists>doc c e. m_items (snd (store_upload toy_media ann_id ''ann'' ''a.jpg'' [CHR 0xFF, CHR 0xD8, CHR 0xFF] pics toy_library)) = [doc]
     \<and> md_name doc = Some (c @ CHR ''.'' # e) \<and> (e = ''jpg'' \<or> e = ''gif'')"
proof -
  have e: "media_image_extension [CHR 0xFF, CHR 0xD8, CHR 0xFF] = Some ''.jpg''" by code_simp
  have n: "media_name_with_extension (media_sanitize_upload_name ''a.jpg'' 256) 256 ''.jpg'' = Some ''a.jpg''" by code_simp
  have f: "\<not> contains (stem_of ''a.jpg'') ''_full''" "media_username_valid ''ann''" "media_dir_name_valid (cd_name pics)" by code_simp+
  have nl: "\<forall>p t. map_of (m_fs toy_library) p \<noteq> Some (Symlink t)" by (simp add: toy_library_def)
  have i: "m_items toy_library = []" by (simp add: toy_library_def)
  obtain ws m1 where s: "store_upload toy_media ann_id ''ann'' ''a.jpg'' [CHR 0xFF, CHR 0xD8, CHR 0xFF] pics toy_library = (ws, m1)" by fastforce
  have "m_items (snd (store_upload toy_media ann_id ''ann'' ''a.jpg'' [CHR 0xFF, CHR 0xD8, CHR 0xFF] pics toy_library)) \<noteq> []" by code_simp
  then have "m_items m1 \<noteq> m_items toy_library" using s i by simp
  from upload_then_delete [OF e n f toy_media_laws(3) nl s this] show ?thesis using s i by auto
qed

end
