(* ===== verification/Extensions.thy ===== *)
theory Extensions
  imports Router_Guard Config_Loader "HOL-Library.List_Lexorder"
begin

text \<open>
  The extensions of a site (src/src/extensions/extensions.c): the manifest of a directory, the
  registry that a scan of ./extensions keeps, and the supervisor that starts, watches and
  stops one process per enabled extension. What the file system, the processes and the clock answer
  is an argument; signals and starts are returned as a list of acts. The registry lock makes every
  operation here one step.
\<close>

subsection \<open>Data\<close>

definition MAX_EXTENSIONS :: nat where "MAX_EXTENSIONS = 32"
definition EXTENSION_PROTOCOL :: int where "EXTENSION_PROTOCOL = 1"
definition SUN_PATH_SIZE :: nat where "SUN_PATH_SIZE = 108"
definition STOP_GRACE_SECONDS :: int where "STOP_GRACE_SECONDS = 3"
definition CRASH_WINDOW_SECONDS :: int where "CRASH_WINDOW_SECONDS = 60"
definition CRASH_LIMIT :: int where "CRASH_LIMIT = 5"

datatype ExtensionState =
  EXTENSION_DISABLED | EXTENSION_STARTING | EXTENSION_RUNNING | EXTENSION_FAILED | EXTENSION_INVALID

record ExtensionInfo =
  ei_name :: string
  ei_title :: string
  ei_description :: string
  ei_version :: string
  ei_nav_label :: string
  ei_nav_path :: string
  ei_enabled :: bool
  ei_state :: ExtensionState
  ei_problem :: string

record Extension =
  e_info :: ExtensionInfo
  exec_path :: string
  ext_dir :: string
  socket_path :: string
  e_pid :: int
  term_sent :: int
  next_start :: int
  crashes :: int
  crash_window :: int
  present :: bool

definition zero_extension :: Extension where
  "zero_extension = \<lparr>e_info = \<lparr>ei_name = [], ei_title = [], ei_description = [], ei_version = [], ei_nav_label = [],
       ei_nav_path = [], ei_enabled = False, ei_state = EXTENSION_DISABLED, ei_problem = []\<rparr>,
     exec_path = [], ext_dir = [], socket_path = [], e_pid = 0, term_sent = 0, next_start = 0, crashes = 0,
     crash_window = 0, present = False\<rparr>"

abbreviation ext_name_of :: "Extension \<Rightarrow> string" where "ext_name_of e \<equiv> ei_name (e_info e)"
abbreviation ext_state :: "Extension \<Rightarrow> ExtensionState" where "ext_state e \<equiv> ei_state (e_info e)"

definition set_state :: "ExtensionState \<Rightarrow> Extension \<Rightarrow> Extension" where
  "set_state st e = e\<lparr>e_info := (e_info e)\<lparr>ei_state := st\<rparr>\<rparr>"

definition set_problem :: "string \<Rightarrow> Extension \<Rightarrow> Extension" where
  "set_problem p e = e\<lparr>e_info := (e_info e)\<lparr>ei_problem := fit 200 p\<rparr>\<rparr>"

subsection \<open>Manifest\<close>

definition valid_name :: "string \<Rightarrow> bool" where
  "valid_name s \<longleftrightarrow> s \<noteq> [] \<and> length s \<le> EXTENSION_NAME_MAX
     \<and> list_all (\<lambda>c. islower c \<or> isdigit c \<or> c = CHR ''-'' \<or> c = CHR ''_'') s"

definition conf_trim :: "string \<Rightarrow> string" where
  "conf_trim s =
     rev (dropWhile (\<lambda>c. c = CHR '' '' \<or> c = TAB \<or> c = CR \<or> c = LF) (rev (dropWhile (\<lambda>c. c = CHR '' '' \<or> c = TAB) s)))"

record Manifest =
  mf_name :: string
  mf_title :: string
  mf_description :: string
  mf_version :: string
  mf_protocol :: int
  mf_exec :: string
  mf_nav :: string

definition empty_manifest :: Manifest where
  "empty_manifest = \<lparr>mf_name = [], mf_title = [], mf_description = [], mf_version = [], mf_protocol = 0, mf_exec = [], mf_nav = []\<rparr>"

definition manifest_key :: "string \<Rightarrow> string \<Rightarrow> Manifest \<Rightarrow> Manifest" where
  "manifest_key key val m =
     (if key = ''name'' then m\<lparr>mf_name := fit 64 val\<rparr>
      else if key = ''title'' then m\<lparr>mf_title := fit 81 val\<rparr>
      else if key = ''description'' then m\<lparr>mf_description := fit 241 val\<rparr>
      else if key = ''version'' then m\<lparr>mf_version := fit 33 val\<rparr>
      else if key = ''protocol'' then m\<lparr>mf_protocol := atoi val\<rparr>
      else if key = ''exec'' then m\<lparr>mf_exec := fit 256 val\<rparr>
      else if key = ''nav'' then m\<lparr>mf_nav := fit 256 val\<rparr>
      else m)"

definition manifest_line :: "string \<Rightarrow> Manifest \<Rightarrow> Manifest" where
  "manifest_line buf m =
     (let l = conf_trim (cstr buf) in
      if l = [] \<or> hd l = CHR ''#'' \<or> hd l = CHR '';'' then m
      else case strchr l (CHR ''='') of
             None \<Rightarrow> m
           | Some k \<Rightarrow> manifest_key (conf_trim (take k l)) (conf_trim (drop (k + 1) l)) m)"

text \<open>The pieces fgets gives with an array of 512 bytes.\<close>

function manifest_lines :: "string \<Rightarrow> Manifest \<Rightarrow> Manifest" where
  "manifest_lines s m =
     (if s = [] then m
      else (let line = fgets 512 s in manifest_lines (drop (length line) s) (manifest_line line m)))"
  by pat_completeness auto
termination
  by (relation "measure (\<lambda>(s, m). length s)") (auto simp: fgets_def Let_def)

declare manifest_lines.simps [simp del]

definition manifest_problem :: "string \<Rightarrow> Manifest \<Rightarrow> string option" where
  "manifest_problem dir_name m =
     (if mf_name m \<noteq> dir_name then Some ''name= must match the directory name''
      else if mf_title m = [] then Some ''title= is missing''
      else if mf_version m = [] then Some ''version= is missing''
      else if mf_protocol m \<noteq> EXTENSION_PROTOCOL then Some ''unsupported protocol= (this Boat Rudder speaks 1)''
      else if mf_exec m = [] \<or> hd (mf_exec m) = CHR ''/'' \<or> contains (mf_exec m) ''..''
        then Some (''exec= must be a path inside the extension'' @ [SQ] @ ''s directory'')
      else None)"

text \<open>Label and path of the menu entry.\<close>

definition nav_entry :: "string \<Rightarrow> (string \<times> string) option" where
  "nav_entry nav =
     (let (label, p) = (case strchr nav (CHR ''|'') of
                          None \<Rightarrow> (nav, ''/'')
                        | Some k \<Rightarrow> (take k nav, conf_trim (drop (k + 1) nav))) in
      if p = [] \<or> hd p \<noteq> CHR ''/'' \<or> contains p ''..'' \<or> \<not> list_all (\<lambda>c. c \<notin> {DQ, SQ, CHR ''<'', CHR ''>'', CHR '' ''}) p
      then None else Some (conf_trim label, p))"

definition mark_invalid :: "string \<Rightarrow> Extension \<Rightarrow> Extension" where
  "mark_invalid p e = set_problem p (set_state EXTENSION_INVALID e)"

definition read_manifest ::
    "string \<Rightarrow> string \<Rightarrow> string option \<Rightarrow> (string \<Rightarrow> bool) \<Rightarrow> string \<Rightarrow> Extension \<Rightarrow> Extension" where
  "read_manifest root socket_root conf executable dir_name ext =
     (let dir = fit PATH_MAX (take 3000 root @ ''/'' @ take 31 dir_name);
          in0 = (e_info zero_extension)\<lparr>ei_name := fit (EXTENSION_NAME_MAX + 1) dir_name, ei_enabled := ei_enabled (e_info ext)\<rparr>;
          ext0 = ext\<lparr>e_info := in0, ext_dir := dir, exec_path := []\<rparr>
      in case conf of
        None \<Rightarrow> mark_invalid ''no extension.conf'' ext0
      | Some text_of_file \<Rightarrow>
          (let m = manifest_lines text_of_file empty_manifest;
               in1 = in0\<lparr>ei_title := mf_title m, ei_description := mf_description m, ei_version := mf_version m\<rparr>;
               ext1 = ext0\<lparr>e_info := in1\<rparr>
           in case manifest_problem dir_name m of
             Some problem \<Rightarrow> mark_invalid problem ext1
           | None \<Rightarrow>
               (let path = fit PATH_MAX (take 3800 dir @ ''/'' @ take 255 (mf_exec m));
                    ext2 = ext1\<lparr>exec_path := path\<rparr>;
                    sock = socket_root @ ''/'' @ dir_name @ ''.sock'';
                    ext3 = ext2\<lparr>socket_path := fit SUN_PATH_SIZE sock\<rparr>
                in if \<not> executable path then mark_invalid ''exec= names no executable file - not built?'' ext2
                   else if SUN_PATH_SIZE \<le> length sock
                     then mark_invalid ''socket path too long - install Boat Rudder in a shorter directory'' ext3
                   else if mf_nav m = [] then ext3
                   else case nav_entry (mf_nav m) of
                          None \<Rightarrow> mark_invalid (''nav= path must start with '' @ [SQ] @ ''/'' @ [SQ]) ext3
                        | Some (label, p) \<Rightarrow> ext3\<lparr>e_info := in1\<lparr>ei_nav_label := fit 81 label, ei_nav_path := fit 129 p\<rparr>\<rparr>)))"

subsection \<open>Processes\<close>

text \<open>What one tick asks the system: which processes there are, what fork returns, and whether a socket answers.\<close>

record Os =
  os_alive :: "int \<Rightarrow> bool"
  os_fork :: int
  os_errno :: string
  os_answers :: "string \<Rightarrow> bool"

datatype Act = Start int | Term int | Kill int

definition process_alive :: "Os \<Rightarrow> int \<Rightarrow> bool" where
  "process_alive os p \<longleftrightarrow> 0 < p \<and> os_alive os p"

text \<open>The environment of the child: the server's own without its BR_ variables, and six of them.\<close>

definition child_env :: "Config \<Rightarrow> string list \<Rightarrow> Extension \<Rightarrow> string list" where
  "child_env c environ ext =
     filter (\<lambda>v. \<not> prefix ''BR_'' v) environ @
     [fit 64 (''BR_EXTENSION='' @ ext_name_of ext),
      fit (PATH_MAX + 32) (''BR_EXTENSION_DIR='' @ ext_dir ext),
      fit 160 (''BR_SOCKET='' @ socket_path ext),
      fit 300 (''BR_MONGODB_URI='' @ g_mongodb_uri c),
      fit 96 (''BR_MONGODB_DB='' @ g_mongodb_db c),
      fit 32 (''BR_LOG_LEVEL='' @ show_int (g_verbose_level c))]"

definition request_stop :: "Os \<Rightarrow> int \<Rightarrow> Extension \<Rightarrow> Extension \<times> Act list" where
  "request_stop os now ext =
     (if e_pid ext \<le> 0 then (ext, [])
      else if \<not> process_alive os (e_pid ext) then (ext\<lparr>e_pid := 0, term_sent := 0\<rparr>, [])
      else if term_sent ext = 0 then (ext\<lparr>term_sent := now\<rparr>, [Term (e_pid ext)])
      else if STOP_GRACE_SECONDS \<le> now - term_sent ext then (ext, [Kill (e_pid ext)])
      else (ext, []))"

definition count_exit :: "int \<Rightarrow> Extension \<Rightarrow> Extension" where
  "count_exit now ext =
     (let e = (if CRASH_WINDOW_SECONDS < now - crash_window ext then ext\<lparr>crash_window := now, crashes := 0\<rparr> else ext)
      in e\<lparr>e_pid := 0, crashes := crashes e + 1\<rparr>)"

definition crash_message :: string where
  "crash_message = ''exited '' @ show_int CRASH_LIMIT @ '' times within '' @ show_int CRASH_WINDOW_SECONDS
     @ '' s - see the server log; disable and enable it to retry''"

definition launch :: "Os \<Rightarrow> Extension \<Rightarrow> Extension \<times> Act list" where
  "launch os ext =
     (if os_fork os < 0
      then (set_problem (''could not be launched: '' @ os_errno os) (set_state EXTENSION_FAILED (ext\<lparr>e_pid := 0\<rparr>)), [])
      else (set_problem [] (set_state EXTENSION_STARTING (ext\<lparr>e_pid := os_fork os\<rparr>)), [Start (os_fork os)]))"

definition ext_wanted :: "Extension \<Rightarrow> bool" where
  "ext_wanted ext \<longleftrightarrow> ei_enabled (e_info ext) \<and> ext_state ext \<noteq> EXTENSION_INVALID \<and> present ext"

definition exit_seen :: "Os \<Rightarrow> Extension \<Rightarrow> bool" where
  "exit_seen os ext \<longleftrightarrow> ext_wanted ext \<and> e_pid ext \<noteq> 0 \<and> \<not> process_alive os (e_pid ext)"

definition reconcile :: "Os \<Rightarrow> int \<Rightarrow> Extension \<Rightarrow> Extension \<times> Act list" where
  "reconcile os now ext =
     (if \<not> ext_wanted ext then
        (let (ext1, acts) = request_stop os now ext
         in (if ext_state ext1 \<noteq> EXTENSION_INVALID then set_problem [] (set_state EXTENSION_DISABLED ext1) else ext1, acts))
      else if ext_state ext = EXTENSION_FAILED \<and> e_pid ext = 0 then (ext, [])
      else
        (let gone = (e_pid ext \<noteq> 0 \<and> \<not> process_alive os (e_pid ext));
             ext1 = (if gone then count_exit now ext else ext)
         in if gone \<and> CRASH_LIMIT \<le> crashes ext1 then (set_problem crash_message (set_state EXTENSION_FAILED ext1), [])
            else
              (let ext2 = (if gone then set_state EXTENSION_STARTING (ext1\<lparr>next_start := now + crashes ext1\<rparr>) else ext1)
               in if e_pid ext2 = 0 then (if now < next_start ext2 then (ext2, []) else launch os ext2)
                  else (set_state (if os_answers os (socket_path ext2) then EXTENSION_RUNNING else EXTENSION_STARTING) ext2, []))))"

subsection \<open>Registry\<close>

fun find_ext :: "string \<Rightarrow> Extension list \<Rightarrow> nat option" where
  "find_ext name [] = None"
| "find_ext name (e # es) = (if ext_name_of e = name then Some 0 else map_option Suc (find_ext name es))"

text \<open>An entry of ./extensions: its name, whether it is a directory, its extension.conf, and which files are executable.\<close>

record DirEntry =
  de_name :: string
  de_is_dir :: bool
  de_conf :: "string option"
  de_executable :: "string \<Rightarrow> bool"

definition scan_read :: "string \<Rightarrow> string \<Rightarrow> DirEntry \<Rightarrow> Extension \<Rightarrow> Extension" where
  "scan_read root socket_root de ext =
     (let e = read_manifest root socket_root (de_conf de) (de_executable de) (de_name de) ext;
          e1 = (if ext_state e \<noteq> EXTENSION_INVALID \<and> (e_pid ext \<noteq> 0 \<or> ext_state ext = EXTENSION_FAILED)
                then set_problem (ei_problem (e_info ext)) (set_state (ext_state ext) e) else e)
      in e1\<lparr>present := True\<rparr>)"

definition scan_entry :: "string \<Rightarrow> string \<Rightarrow> DirEntry \<Rightarrow> Extension list \<Rightarrow> Extension list" where
  "scan_entry root socket_root de exts =
     (if \<not> valid_name (de_name de) \<or> \<not> de_is_dir de then exts
      else case find_ext (de_name de) exts of
        None \<Rightarrow> if MAX_EXTENSIONS \<le> length exts then exts else exts @ [scan_read root socket_root de zero_extension]
      | Some i \<Rightarrow> exts[i := scan_read root socket_root de (exts ! i)])"

definition scan_locked :: "string \<Rightarrow> string \<Rightarrow> DirEntry list \<Rightarrow> Extension list \<Rightarrow> Extension list" where
  "scan_locked root socket_root entries exts =
     (let seen = fold (scan_entry root socket_root) entries (map (\<lambda>e. e\<lparr>present := False\<rparr>) exts)
      in sort_key (\<lambda>e. map ord (ext_name_of e)) (filter (\<lambda>e. present e \<or> e_pid e \<noteq> 0) seen))"

definition enable_named :: "string \<Rightarrow> Extension list \<Rightarrow> Extension list" where
  "enable_named name exts =
     (case find_ext name exts of None \<Rightarrow> exts
      | Some i \<Rightarrow> exts[i := (exts ! i)\<lparr>e_info := (e_info (exts ! i))\<lparr>ei_enabled := True\<rparr>\<rparr>])"

text \<open>What extensions_start does to the registry; the enabled names come from the database.\<close>

definition extensions_start :: "string \<Rightarrow> string \<Rightarrow> DirEntry list \<Rightarrow> string list \<Rightarrow> Extension list \<Rightarrow> Extension list" where
  "extensions_start root socket_root entries enabled_names exts =
     fold enable_named enabled_names (scan_locked root socket_root entries exts)"

definition extensions_list :: "Extension list \<Rightarrow> ExtensionInfo list" where
  "extensions_list exts = map e_info (filter present exts)"

definition extensions_get :: "string \<Rightarrow> Extension list \<Rightarrow> ExtensionInfo option" where
  "extensions_get name exts =
     (case find_ext name exts of None \<Rightarrow> None | Some i \<Rightarrow> if present (exts ! i) then Some (e_info (exts ! i)) else None)"

definition set_enabled :: "bool \<Rightarrow> Extension \<Rightarrow> Extension" where
  "set_enabled b ext =
     (let e = ext\<lparr>e_info := (e_info ext)\<lparr>ei_enabled := b\<rparr>\<rparr> in
      if b then
        (let e1 = e\<lparr>crashes := 0, next_start := 0\<rparr>
         in if ext_state e1 = EXTENSION_FAILED then set_problem [] (set_state EXTENSION_DISABLED e1) else e1)
      else e)"

text \<open>
  The second argument is what storing the choice returned. The lock is taken twice: \<open>seen\<close> is the registry when
  the name is looked up first, \<open>exts\<close> the one that is changed.
\<close>

definition extensions_set_enabled :: "string \<Rightarrow> int \<Rightarrow> bool \<Rightarrow> Extension list \<Rightarrow> Extension list \<Rightarrow> int \<times> Extension list" where
  "extensions_set_enabled name db b seen exts =
     (case find_ext name seen of
        None \<Rightarrow> (-1, exts)
      | Some j \<Rightarrow>
          if \<not> present (seen ! j) \<or> ext_state (seen ! j) = EXTENSION_INVALID then (-1, exts)
          else if db \<noteq> 0 then (-2, exts)
          else (0, case find_ext name exts of None \<Rightarrow> exts | Some i \<Rightarrow> exts[i := set_enabled b (exts ! i)]))"

subsection \<open>The supervisor and the processes\<close>

text \<open>
  The registry together with the processes it started (each with the extension it belongs to), the
  other processes of the machine, and the time of the last tick.
\<close>

record World =
  w_exts :: "Extension list"
  w_procs :: "(int \<times> string) list"
  w_others :: "int list"
  w_now :: int

definition alive_in :: "World \<Rightarrow> int \<Rightarrow> bool" where
  "alive_in w p \<longleftrightarrow> p \<in> fst ` set (w_procs w) \<or> p \<in> set (w_others w)"

definition end_process :: "int \<Rightarrow> World \<Rightarrow> World" where
  "end_process p w = w\<lparr>w_procs := filter (\<lambda>q. fst q \<noteq> p) (w_procs w), w_others := removeAll p (w_others w)\<rparr>"

text \<open>A process may take its time to follow a SIGTERM; a SIGKILL ends it.\<close>

definition act_on :: "string \<Rightarrow> Act \<Rightarrow> World \<Rightarrow> World" where
  "act_on name a w =
     (case a of Start p \<Rightarrow> w\<lparr>w_procs := w_procs w @ [(p, name)]\<rparr> | Term p \<Rightarrow> w | Kill p \<Rightarrow> end_process p w)"

record Answer =
  an_fork :: int
  an_errno :: string
  an_answers :: "string \<Rightarrow> bool"

definition reconcile_at :: "int \<Rightarrow> Answer \<Rightarrow> nat \<Rightarrow> World \<Rightarrow> World" where
  "reconcile_at now an i w =
     (let e = w_exts w ! i;
          os = \<lparr>os_alive = alive_in w, os_fork = an_fork an, os_errno = an_errno an, os_answers = an_answers an\<rparr>;
          (e1, acts) = reconcile os now e
      in fold (act_on (ext_name_of e)) acts (w\<lparr>w_exts := (w_exts w)[i := e1], w_now := now\<rparr>))"

text \<open>One turn of the supervisor's loop; each extension meets its own answers.\<close>

definition supervisor :: "int \<Rightarrow> Answer list \<Rightarrow> World \<Rightarrow> World" where
  "supervisor now ans w = fold (\<lambda>i. reconcile_at now (ans ! i) i) [0..<length (w_exts w)] w"

text \<open>The wait of extensions_stop, at most thirty times 100 ms: the processes that end in each of them.\<close>

fun stop_wait :: "nat \<Rightarrow> (nat \<Rightarrow> int list) \<Rightarrow> World \<Rightarrow> World" where
  "stop_wait 0 ends w = w"
| "stop_wait (Suc t) ends w =
     (if list_ex (\<lambda>e. 0 < e_pid e \<and> alive_in w (e_pid e)) (w_exts w)
      then stop_wait t ends (fold end_process (ends t) w) else w)"

definition stop_one :: "Extension \<Rightarrow> World \<Rightarrow> World" where
  "stop_one e w = (if 0 < e_pid e \<and> alive_in w (e_pid e) then end_process (e_pid e) w else w)"

definition extensions_stop :: "(nat \<Rightarrow> int list) \<Rightarrow> World \<Rightarrow> World" where
  "extensions_stop ends w =
     (let w1 = stop_wait (nat STOP_GRACE_SECONDS * 10) ends w;
          w2 = fold stop_one (w_exts w1) w1
      in w2\<lparr>w_exts := map (\<lambda>e. e\<lparr>e_pid := 0\<rparr>) (w_exts w2)\<rparr>)"

text \<open>
  What can happen: the supervisor looks at one extension (fork returns a number no process has, or
  fails), a process ends, other processes come and go, the directory is scanned, an extension is enabled
  or disabled (after a look at any earlier registry), and the server stops its extensions. The flag that the
  supervisor runs is not kept: the steps allow looks after a stop and a second stop, which the code rules
  out, so that what holds in every reachable state holds of the code's.
\<close>

inductive sup_step :: "World \<Rightarrow> World \<Rightarrow> bool" where
  looks: "i < length (w_exts w) \<Longrightarrow> w_now w \<le> now \<Longrightarrow> an_fork an < 0 \<or> (0 < an_fork an \<and> \<not> alive_in w (an_fork an)) \<Longrightarrow>
     sup_step w (reconcile_at now an i w)"
| ends: "sup_step w (end_process p w)"
| others: "\<forall>p\<in>set ps. p \<notin> fst ` set (w_procs w) \<Longrightarrow> sup_step w (w\<lparr>w_others := ps\<rparr>)"
| scans: "sup_step w (w\<lparr>w_exts := scan_locked root socket_root entries (w_exts w)\<rparr>)"
| chooses: "sup_step w (w\<lparr>w_exts := snd (extensions_set_enabled name db b seen (w_exts w))\<rparr>)"
| stops: "sup_step w (extensions_stop exits w)"

inductive_cases sup_stepE: "sup_step w w'"

text \<open>From the moment the server has started its extensions.\<close>

inductive sup_reachable :: "World \<Rightarrow> bool" where
  started: "w = \<lparr>w_exts = extensions_start root socket_root entries names [], w_procs = [], w_others = os, w_now = now\<rparr> \<Longrightarrow>
     sup_reachable w"
| steps: "sup_reachable w \<Longrightarrow> sup_step w w' \<Longrightarrow> sup_reachable w'"

subsection \<open>One process per extension\<close>

definition sup_ok :: "World \<Rightarrow> bool" where
  "sup_ok w \<longleftrightarrow> distinct (map ext_name_of (w_exts w)) \<and> length (w_exts w) \<le> MAX_EXTENSIONS
     \<and> distinct (map fst (w_procs w))
     \<and> (\<forall>q\<in>set (w_procs w). 0 < fst q \<and> (\<exists>e\<in>set (w_exts w). ext_name_of e = snd q \<and> e_pid e = fst q))"

lemma set_state_simps [simp]:
  "ext_name_of (set_state st e) = ext_name_of e" "e_pid (set_state st e) = e_pid e" "term_sent (set_state st e) = term_sent e"
  "crashes (set_state st e) = crashes e" "crash_window (set_state st e) = crash_window e" "present (set_state st e) = present e"
  "next_start (set_state st e) = next_start e" "ext_state (set_state st e) = st" "ei_enabled (e_info (set_state st e)) = ei_enabled (e_info e)"
  "socket_path (set_state st e) = socket_path e"
  by (simp_all add: set_state_def)

lemma set_problem_simps [simp]:
  "ext_name_of (set_problem p e) = ext_name_of e" "e_pid (set_problem p e) = e_pid e" "term_sent (set_problem p e) = term_sent e"
  "crashes (set_problem p e) = crashes e" "crash_window (set_problem p e) = crash_window e" "present (set_problem p e) = present e"
  "next_start (set_problem p e) = next_start e" "ext_state (set_problem p e) = ext_state e"
  "ei_enabled (e_info (set_problem p e)) = ei_enabled (e_info e)" "socket_path (set_problem p e) = socket_path e"
  by (simp_all add: set_problem_def)

lemma count_exit_simps [simp]:
  "ext_name_of (count_exit now e) = ext_name_of e" "e_pid (count_exit now e) = 0" "e_info (count_exit now e) = e_info e"
  "present (count_exit now e) = present e"
  by (simp_all add: count_exit_def Let_def)

lemmas tick_defs = reconcile_def request_stop_def launch_def Let_def

text \<open>What a tick does to the process of its extension: leaves it, sees that it is gone, starts one where there was none, or signals it.\<close>

lemma reconcile_acts:
  assumes "reconcile os now e = (e1, acts)" "os_fork os \<noteq> 0"
  shows "ext_name_of e1 = ext_name_of e
    \<and> (acts = [] \<and> (e_pid e1 = e_pid e \<or> (e_pid e1 = 0 \<and> \<not> process_alive os (e_pid e)))
       \<or> acts = [Start (os_fork os)] \<and> 0 < os_fork os \<and> e_pid e1 = os_fork os \<and> \<not> process_alive os (e_pid e)
       \<or> (acts = [Term (e_pid e)] \<or> acts = [Kill (e_pid e)]) \<and> e_pid e1 = e_pid e)"
  using assms by (auto simp: tick_defs process_alive_def split: if_splits)

lemma set_update_keep: "x \<in> set xs \<Longrightarrow> x \<noteq> xs ! i \<Longrightarrow> x \<in> set (xs[i := y])"
  by (metis in_set_conv_nth length_list_update nth_list_update_neq)

lemma map_name_update: "ext_name_of e1 = ext_name_of (es ! i) \<Longrightarrow> map ext_name_of (es[i := e1]) = map ext_name_of es"
  by (metis list_update_id map_update nth_map list_update_beyond not_le)

definition owned :: "Extension list \<Rightarrow> int \<times> string \<Rightarrow> bool" where
  "owned es q \<longleftrightarrow> 0 < fst q \<and> (\<exists>e\<in>set es. ext_name_of e = snd q \<and> e_pid e = fst q)"

lemma sup_ok_owned: "sup_ok w \<longleftrightarrow> distinct (map ext_name_of (w_exts w)) \<and> length (w_exts w) \<le> MAX_EXTENSIONS
     \<and> distinct (map fst (w_procs w)) \<and> (\<forall>q\<in>set (w_procs w). owned (w_exts w) q)"
  by (simp add: sup_ok_def owned_def)

lemma owned_update_pid:
  "owned es q \<Longrightarrow> i < length es \<Longrightarrow> ext_name_of e1 = ext_name_of (es ! i) \<Longrightarrow> e_pid e1 = e_pid (es ! i) \<Longrightarrow> owned (es[i := e1]) q"
  unfolding owned_def by (metis set_update_keep set_update_memI)

lemma owned_update_dead:
  "owned es q \<Longrightarrow> e_pid (es ! i) \<noteq> fst q \<Longrightarrow> owned (es[i := e1]) q"
  unfolding owned_def by (metis set_update_keep)

lemma sup_ok_end: "sup_ok w \<Longrightarrow> sup_ok (end_process p w)"
  by (auto simp: sup_ok_def end_process_def distinct_map_filter)

lemma sup_ok_end_fold: "sup_ok w \<Longrightarrow> sup_ok (fold end_process ps w)"
  by (induction ps arbitrary: w) (simp_all add: sup_ok_end)

lemma end_process_simps [simp]: "w_exts (end_process p w) = w_exts w" "w_now (end_process p w) = w_now w"
  by (simp_all add: end_process_def)

lemma sup_ok_looks:
  assumes ok: "sup_ok w" and i: "i < length (w_exts w)" and fork: "an_fork an < 0 \<or> (0 < an_fork an \<and> \<not> alive_in w (an_fork an))"
  shows "sup_ok (reconcile_at now an i w)"
proof -
  let ?e = "w_exts w ! i"
  define os where "os = \<lparr>os_alive = alive_in w, os_fork = an_fork an, os_errno = an_errno an, os_answers = an_answers an\<rparr>"
  obtain e1 acts where rec: "reconcile os now ?e = (e1, acts)" by (cases "reconcile os now ?e")
  let ?w1 = "w\<lparr>w_exts := (w_exts w)[i := e1], w_now := now\<rparr>"
  have step: "reconcile_at now an i w = fold (act_on (ext_name_of ?e)) acts ?w1"
    by (simp add: reconcile_at_def os_def [symmetric] rec Let_def)
  have name: "ext_name_of e1 = ext_name_of ?e" and fork0: "os_fork os \<noteq> 0"
    using reconcile_acts [OF rec] fork by (auto simp: os_def)
  have own: "\<And>q. q \<in> set (w_procs w) \<Longrightarrow> owned (w_exts w) q" using ok by (simp add: sup_ok_owned)
  have dead: "e_pid ?e \<noteq> fst q" if "\<not> process_alive os (e_pid ?e)" "q \<in> set (w_procs w)" for q
    using that own [OF that(2)] by (auto simp: process_alive_def os_def alive_in_def owned_def)
  have frame: "distinct (map ext_name_of (w_exts ?w1))" "length (w_exts ?w1) \<le> MAX_EXTENSIONS" "distinct (map fst (w_procs ?w1))"
    using ok map_name_update [OF name] by (simp_all add: sup_ok_owned)
  from reconcile_acts [OF rec fork0] consider
      "acts = []" "e_pid e1 = e_pid ?e" | "acts = []" "\<not> process_alive os (e_pid ?e)"
    | "acts = [Start (os_fork os)]" "0 < os_fork os" "e_pid e1 = os_fork os" "\<not> process_alive os (e_pid ?e)"
    | "acts = [Term (e_pid ?e)] \<or> acts = [Kill (e_pid ?e)]" "e_pid e1 = e_pid ?e" by blast
  then show ?thesis
  proof cases
    case 1
    then have "sup_ok ?w1" using frame own owned_update_pid [OF _ i name] by (simp add: sup_ok_owned)
    with 1 step show ?thesis by simp
  next
    case 2
    then have "sup_ok ?w1" using frame own dead owned_update_dead by (simp add: sup_ok_owned)
    with 2 step show ?thesis by simp
  next
    case 3
    have "owned ((w_exts w)[i := e1]) (os_fork os, ext_name_of ?e)"
      unfolding owned_def using 3 name set_update_memI [OF i, of e1] by auto
    moreover have "os_fork os \<notin> fst ` set (w_procs w)" using fork 3(2) by (auto simp: os_def alive_in_def)
    ultimately show ?thesis
      using frame own dead [OF 3(4)] owned_update_dead unfolding step 3(1) by (auto simp: sup_ok_owned act_on_def)
  next
    case 4
    then have "sup_ok ?w1" using frame own owned_update_pid [OF _ i name] by (simp add: sup_ok_owned)
    with 4(1) sup_ok_end [of ?w1] show ?thesis unfolding step by (auto simp: act_on_def)
  qed
qed

text \<open>A scan keeps every name and every process; what it drops has none.\<close>

lemma mark_invalid_simps [simp]: "ext_name_of (mark_invalid p e) = ext_name_of e" "e_pid (mark_invalid p e) = e_pid e"
  "term_sent (mark_invalid p e) = term_sent e" "present (mark_invalid p e) = present e" "ext_state (mark_invalid p e) = EXTENSION_INVALID"
  "ei_enabled (e_info (mark_invalid p e)) = ei_enabled (e_info e)" "crashes (mark_invalid p e) = crashes e" "crash_window (mark_invalid p e) = crash_window e"
  by (simp_all add: mark_invalid_def)

lemma read_manifest_frame:
  "ext_name_of (read_manifest root sroot conf ex dir e) = fit (EXTENSION_NAME_MAX + 1) dir"
  "e_pid (read_manifest root sroot conf ex dir e) = e_pid e"
  "term_sent (read_manifest root sroot conf ex dir e) = term_sent e"
  "ei_enabled (e_info (read_manifest root sroot conf ex dir e)) = ei_enabled (e_info e)"
  "ext_state (read_manifest root sroot conf ex dir e) = EXTENSION_DISABLED \<or> ext_state (read_manifest root sroot conf ex dir e) = EXTENSION_INVALID"
  "crashes (read_manifest root sroot conf ex dir e) = crashes e"
  "crash_window (read_manifest root sroot conf ex dir e) = crash_window e"
  by (simp_all add: read_manifest_def zero_extension_def Let_def split: option.splits prod.splits)

lemma valid_name_length: "valid_name s \<Longrightarrow> s \<noteq> [] \<and> fit (Suc EXTENSION_NAME_MAX) s = s"
  by (simp add: valid_name_def fit_def EXTENSION_NAME_MAX_def)

lemma scan_read_frame:
  "valid_name (de_name de) \<Longrightarrow> ext_name_of (scan_read root sroot de e) = de_name de"
  "e_pid (scan_read root sroot de e) = e_pid e" "present (scan_read root sroot de e)"
  by (simp_all add: scan_read_def Let_def read_manifest_frame valid_name_length)

lemma find_ext_None: "find_ext name es = None \<longleftrightarrow> name \<notin> ext_name_of ` set es"
  by (induction es) auto

lemma find_ext_Some: "find_ext name es = Some i \<Longrightarrow> i < length es \<and> ext_name_of (es ! i) = name"
  by (induction es arbitrary: i) (auto split: if_splits)

definition reg_ok :: "(int \<times> string) list \<Rightarrow> Extension list \<Rightarrow> bool" where
  "reg_ok procs es \<longleftrightarrow> distinct (map ext_name_of es) \<and> length es \<le> MAX_EXTENSIONS \<and> (\<forall>q\<in>set procs. owned es q)"

lemma scan_entry_ok: "reg_ok procs es \<Longrightarrow> reg_ok procs (scan_entry root sroot de es)"
proof (cases "valid_name (de_name de) \<and> de_is_dir de")
  case True
  assume ok: "reg_ok procs es"
  show ?thesis
  proof (cases "find_ext (de_name de) es")
    case None
    then have "de_name de \<notin> ext_name_of ` set es" by (simp add: find_ext_None)
    with ok True None show ?thesis
      by (auto simp: scan_entry_def reg_ok_def owned_def scan_read_frame)
  next
    case (Some i)
    from find_ext_Some [OF Some] have i: "i < length es" and n: "ext_name_of (es ! i) = de_name de" by auto
    let ?e1 = "scan_read root sroot de (es ! i)"
    have e1: "ext_name_of ?e1 = ext_name_of (es ! i)" "e_pid ?e1 = e_pid (es ! i)" using True n by (simp_all add: scan_read_frame)
    then show ?thesis
      using ok True Some map_name_update [OF e1(1)] owned_update_pid [OF _ i e1]
      by (simp add: scan_entry_def reg_ok_def)
  qed
qed (auto simp: scan_entry_def)

lemma scan_fold_ok: "reg_ok procs es \<Longrightarrow> reg_ok procs (fold (scan_entry root sroot) des es)"
  by (induction des arbitrary: es) (simp_all add: scan_entry_ok)

lemma distinct_map_filter_le: "distinct (map f xs) \<Longrightarrow> distinct (map f (filter P xs)) \<and> length (filter P xs) \<le> length xs"
  by (simp add: distinct_map_filter)

lemma distinct_sort_key: "distinct (map f xs) \<Longrightarrow> distinct (map f (sort_key k xs))"
  by (metis distinct_map distinct_sort set_sort)

lemma scan_locked_ok:
  assumes "reg_ok procs es"
  shows "reg_ok procs (scan_locked root sroot des es)"
proof -
  let ?es0 = "map (\<lambda>e. e\<lparr>present := False\<rparr>) es"
  define es1 where "es1 = fold (scan_entry root sroot) des ?es0"
  have "reg_ok procs ?es0" using assms by (force simp: reg_ok_def owned_def comp_def)
  then have ok: "reg_ok procs es1" unfolding es1_def by (rule scan_fold_ok)
  then have "\<forall>q\<in>set procs. owned (filter (\<lambda>e. present e \<or> e_pid e \<noteq> 0) es1) q"
    by (force simp: reg_ok_def owned_def)
  moreover have "length (filter (\<lambda>e. present e \<or> e_pid e \<noteq> 0) es1) \<le> MAX_EXTENSIONS"
    using ok by (meson reg_ok_def le_trans length_filter_le)
  ultimately show ?thesis
    using ok unfolding scan_locked_def es1_def [symmetric] Let_def
    by (simp add: reg_ok_def distinct_sort_key distinct_map_filter owned_def)
qed

lemma enable_named_ok: "reg_ok procs es \<Longrightarrow> reg_ok procs (enable_named name es)"
proof (cases "find_ext name es")
  case (Some i)
  assume ok: "reg_ok procs es"
  let ?e1 = "(es ! i)\<lparr>e_info := (e_info (es ! i))\<lparr>ei_enabled := True\<rparr>\<rparr>"
  have e1: "ext_name_of ?e1 = ext_name_of (es ! i)" "e_pid ?e1 = e_pid (es ! i)" by simp_all
  then show ?thesis using ok Some find_ext_Some [OF Some] map_name_update [OF e1(1)] owned_update_pid [OF _ _ e1]
    by (simp add: enable_named_def reg_ok_def)
qed (simp add: enable_named_def)

lemma set_enabled_frame [simp]: "ext_name_of (set_enabled b e) = ext_name_of e" "e_pid (set_enabled b e) = e_pid e"
  by (simp_all add: set_enabled_def Let_def)

lemma extensions_set_enabled_ok: "reg_ok procs es \<Longrightarrow> reg_ok procs (snd (extensions_set_enabled name db b seen es))"
proof (cases "find_ext name es")
  case (Some i)
  assume ok: "reg_ok procs es"
  let ?e1 = "set_enabled b (es ! i)"
  have e1: "ext_name_of ?e1 = ext_name_of (es ! i)" "e_pid ?e1 = e_pid (es ! i)" by simp_all
  then show ?thesis using ok Some find_ext_Some [OF Some] map_name_update [OF e1(1)] owned_update_pid [OF _ _ e1]
    by (simp add: extensions_set_enabled_def reg_ok_def split: option.split)
qed (simp add: extensions_set_enabled_def split: option.split)

lemma sup_ok_reg: "sup_ok w \<longleftrightarrow> reg_ok (w_procs w) (w_exts w) \<and> distinct (map fst (w_procs w))"
  by (auto simp: sup_ok_owned reg_ok_def)

text \<open>When the server stops, every process of an extension is gone.\<close>

lemma stop_wait_frame: "sup_ok w \<Longrightarrow> sup_ok (stop_wait n exits w) \<and> w_exts (stop_wait n exits w) = w_exts w"
proof (induction n arbitrary: w)
  case (Suc n)
  have "w_exts (fold end_process ps w) = w_exts w" for ps by (induction ps arbitrary: w) simp_all
  with Suc sup_ok_end_fold show ?case by simp
qed simp

lemma stop_one_fold:
  "set (w_procs (fold stop_one es w)) \<subseteq> {q \<in> set (w_procs w). fst q \<notin> e_pid ` set es} \<or> (\<exists>q\<in>set (w_procs w). fst q \<le> 0)"
proof (induction es arbitrary: w)
  case (Cons e es)
  have "set (w_procs (stop_one e w)) \<subseteq> {q \<in> set (w_procs w). fst q \<noteq> e_pid e} \<or> (\<exists>q\<in>set (w_procs w). fst q \<le> 0)"
  proof (cases "0 < e_pid e \<and> alive_in w (e_pid e)")
    case True
    then show ?thesis by (auto simp: stop_one_def end_process_def)
  next
    case False
    then show ?thesis by (force simp: stop_one_def alive_in_def)
  qed
  then show ?case using Cons [of "stop_one e w"] by auto
qed simp

lemma stop_one_exts: "w_exts (fold stop_one es w) = w_exts w"
proof (induction es arbitrary: w)
  case (Cons e es)
  then show ?case by (simp add: stop_one_def)
qed simp

lemma extensions_stop_empties:
  assumes "sup_ok w"
  shows "w_procs (extensions_stop exits w) = [] \<and> sup_ok (extensions_stop exits w)"
proof -
  let ?w1 = "stop_wait (nat STOP_GRACE_SECONDS * 10) exits w"
  let ?w2 = "fold stop_one (w_exts ?w1) ?w1"
  from assms have ok: "sup_ok ?w1" by (simp add: stop_wait_frame)
  then have gone: "\<forall>q\<in>set (w_procs ?w1). fst q \<in> e_pid ` set (w_exts ?w1) \<and> \<not> fst q \<le> 0"
    by (force simp: sup_ok_owned owned_def)
  from stop_one_fold [of "w_exts ?w1" ?w1] have "set (w_procs ?w2) \<subseteq> {}"
    using gone by (elim disjE) blast+
  then have none: "w_procs ?w2 = []" by simp
  moreover have "distinct (map ext_name_of (w_exts ?w2))" "length (w_exts ?w2) \<le> MAX_EXTENSIONS"
    using ok by (simp_all add: stop_one_exts sup_ok_def)
  ultimately show ?thesis by (simp add: extensions_stop_def Let_def sup_ok_def comp_def)
qed

lemma sup_step_ok: "sup_step w w' \<Longrightarrow> sup_ok w \<Longrightarrow> sup_ok w'"
proof (induction rule: sup_step.induct)
  case looks then show ?case by (simp add: sup_ok_looks)
next
  case ends then show ?case by (simp add: sup_ok_end)
next
  case others then show ?case by (simp add: sup_ok_def)
next
  case scans then show ?case by (simp add: sup_ok_reg scan_locked_ok)
next
  case chooses then show ?case by (simp add: sup_ok_reg extensions_set_enabled_ok)
next
  case stops then show ?case by (simp add: extensions_stop_empties)
qed

lemma extensions_start_ok: "reg_ok [] (extensions_start root sroot des names [])"
proof -
  have "reg_ok [] (scan_locked root sroot des [])" by (rule scan_locked_ok) (simp add: reg_ok_def)
  moreover have "reg_ok [] es \<Longrightarrow> reg_ok [] (fold enable_named names es)" for es
    by (induction names arbitrary: es) (simp_all add: enable_named_ok)
  ultimately show ?thesis by (simp add: extensions_start_def)
qed

lemma sup_reachable_ok: "sup_reachable w \<Longrightarrow> sup_ok w"
proof (induction rule: sup_reachable.induct)
  case started then show ?case by (simp add: sup_ok_reg extensions_start_ok)
next
  case steps then show ?case using sup_step_ok by blast
qed

subsection \<open>The claims\<close>

definition notes_entry :: DirEntry where
  "notes_entry = \<lparr>de_name = ''notes'', de_is_dir = True,
     de_conf = Some (join_with LF [''# notes'', ''name=notes'', ''title = Notes'', ''version=0.1'', ''protocol=1'', ''exec=bin/notes'', ''nav=Notes|/'', []]),
     de_executable = (\<lambda>p. p = ''/srv/extensions/notes/bin/notes'')\<rparr>"

definition notes_exts :: "Extension list" where
  "notes_exts = extensions_start ''/srv/extensions'' ''/srv/run'' [notes_entry] [''notes''] []"

definition notes_world :: World where
  "notes_world = \<lparr>w_exts = notes_exts, w_procs = [], w_others = [1, 2], w_now = 100\<rparr>"

definition quiet :: Answer where
  "quiet = \<lparr>an_fork = 7, an_errno = [], an_answers = (\<lambda>p. p = ''/srv/run/notes.sock'')\<rparr>"

definition notes_started :: World where
  "notes_started = reconcile_at 101 quiet 0 notes_world"

text \<open>
  C3. However the supervisor's looks, the ends of processes, scans of the directory and the choices of an
  administrator follow each other, no extension ever has two processes; and stopping the
  extensions leaves none running.
\<close>

theorem one_process_each:
  assumes "sup_reachable w"
  shows "length (filter (\<lambda>q. snd q = name) (w_procs w)) \<le> 1 \<and> w_procs (extensions_stop exits w) = []"
proof -
  from assms have ok: "sup_ok w" by (rule sup_reachable_ok)
  have owner: "\<exists>e\<in>set (w_exts w). ext_name_of e = snd q \<and> e_pid e = fst q" if "q \<in> set (w_procs w)" for q
    using ok that by (simp add: sup_ok_def)
  have same: "fst p = fst q" if p: "p \<in> set (w_procs w)" and q: "q \<in> set (w_procs w)" and n: "snd p = snd q" for p q
  proof -
    obtain d where d: "d \<in> set (w_exts w)" "ext_name_of d = snd p" "e_pid d = fst p"
      using owner [OF p] by blast
    obtain e where e: "e \<in> set (w_exts w)" "ext_name_of e = snd q" "e_pid e = fst q"
      using owner [OF q] by blast
    have "inj_on ext_name_of (set (w_exts w))" using ok by (simp add: sup_ok_def distinct_map)
    then have "d = e" by (rule inj_onD) (use d e n in simp_all)
    with d e show ?thesis by simp
  qed
  let ?f = "filter (\<lambda>q. snd q = name) (w_procs w)"
  have "distinct (map fst ?f)" using ok by (simp add: sup_ok_def distinct_map_filter)
  then have "card (set (map fst ?f)) = length ?f" using distinct_card by fastforce
  moreover have "card (set (map fst ?f)) \<le> Suc 0"
    unfolding card_le_Suc0_iff_eq [OF finite_set] using same by auto
  ultimately have "length ?f \<le> 1" by simp
  with extensions_stop_empties [OF ok] show ?thesis by simp
qed

lemma notes_exts_value:
  "notes_exts = [\<lparr>e_info = \<lparr>ei_name = ''notes'', ei_title = ''Notes'', ei_description = [], ei_version = ''0.1'',
       ei_nav_label = ''Notes'', ei_nav_path = ''/'', ei_enabled = True, ei_state = EXTENSION_DISABLED, ei_problem = []\<rparr>,
     exec_path = ''/srv/extensions/notes/bin/notes'', ext_dir = ''/srv/extensions/notes'', socket_path = ''/srv/run/notes.sock'',
     e_pid = 0, term_sent = 0, next_start = 0, crashes = 0, crash_window = 0, present = True\<rparr>]"
  by code_simp

lemma notes_reachable: "sup_reachable notes_world"
  unfolding notes_world_def notes_exts_def by (rule sup_reachable.started) simp

lemma notes_started_value: "w_procs notes_started = [(7, ''notes'')] \<and> alive_in notes_started 7"
  unfolding notes_started_def notes_world_def notes_exts_value by code_simp

theorem one_process_each_witness:
  "w_procs notes_started = [(7, ''notes'')] \<and> length (filter (\<lambda>q. snd q = ''notes'') (w_procs notes_started)) \<le> 1
   \<and> w_procs (extensions_stop (\<lambda>t. []) notes_started) = []"
proof -
  have "sup_step notes_world (reconcile_at 101 quiet 0 notes_world)"
    by (rule sup_step.looks) (simp_all add: notes_world_def notes_exts_value quiet_def alive_in_def)
  with notes_reachable have "sup_reachable notes_started" unfolding notes_started_def by (rule sup_reachable.steps)
  then show ?thesis using one_process_each [of notes_started "''notes''" "\<lambda>t. []"] notes_started_value by blast
qed

subsubsection \<open>Exits and restarts\<close>

text \<open>An extension since it was last enabled: the ticks, its manifest read again, the choices, and the times at which an exit was seen, the latest first.\<close>

inductive watched :: "Extension \<Rightarrow> int \<Rightarrow> int list \<Rightarrow> bool" where
  fresh: "crashes e = 0 \<Longrightarrow> ext_state e \<noteq> EXTENSION_FAILED \<Longrightarrow> present e \<Longrightarrow> crash_window e \<le> t \<Longrightarrow> watched e t []"
| tick: "watched e t xs \<Longrightarrow> t \<le> now \<Longrightarrow> os_fork os \<noteq> 0 \<Longrightarrow>
     watched (fst (reconcile os now e)) now (if exit_seen os e then now # xs else xs)"
| reread: "watched e t xs \<Longrightarrow> ext_state (scan_read root socket_root de e) \<noteq> EXTENSION_INVALID \<Longrightarrow>
     watched (scan_read root socket_root de e) t xs"
| chosen: "watched e t xs \<Longrightarrow> watched (set_enabled b e) t (if b then [] else xs)"

definition watch_inv :: "Extension \<Rightarrow> int \<Rightarrow> int list \<Rightarrow> bool" where
  "watch_inv e t xs \<longleftrightarrow>
     0 \<le> crashes e \<and> nat (crashes e) \<le> length xs \<and> crash_window e \<le> t
     \<and> (\<forall>i<length xs. if i < nat (crashes e) then crash_window e \<le> xs ! i else xs ! i \<le> crash_window e)
     \<and> (\<forall>x\<in>set xs. x \<le> t)
     \<and> (\<forall>i<length xs. nat (crashes e) + 4 \<le> i \<longrightarrow> xs ! i < crash_window e - CRASH_WINDOW_SECONDS)
     \<and> present e \<and> (ext_state e = EXTENSION_FAILED \<longrightarrow> e_pid e = 0)
     \<and> (ei_enabled (e_info e) \<longrightarrow> ext_state e = EXTENSION_FAILED \<or> crashes e \<le> 4)"

text \<open>The three outcomes of a tick for the counters.\<close>

lemma reconcile_quiet:
  assumes "\<not> exit_seen os e" "os_fork os \<noteq> 0"
  shows "crashes (fst (reconcile os now e)) = crashes e \<and> crash_window (fst (reconcile os now e)) = crash_window e
    \<and> present (fst (reconcile os now e)) = present e \<and> ei_enabled (e_info (fst (reconcile os now e))) = ei_enabled (e_info e)
    \<and> (ext_state (fst (reconcile os now e)) = EXTENSION_FAILED \<longrightarrow> ext_wanted e \<and> e_pid (fst (reconcile os now e)) = 0)
    \<and> (ext_state e = EXTENSION_FAILED \<longrightarrow> e_pid e = 0 \<longrightarrow> ext_wanted e \<longrightarrow> ext_state (fst (reconcile os now e)) = EXTENSION_FAILED)"
  using assms by (auto simp: tick_defs exit_seen_def ext_wanted_def split: if_splits)

lemma reconcile_exit:
  assumes "exit_seen os e" "ext_state e \<noteq> EXTENSION_FAILED \<or> e_pid e \<noteq> 0" "0 \<le> crashes e"
  shows "crashes (fst (reconcile os now e)) = crashes (count_exit now e)
    \<and> crash_window (fst (reconcile os now e)) = crash_window (count_exit now e)
    \<and> present (fst (reconcile os now e)) = present e \<and> ei_enabled (e_info (fst (reconcile os now e))) = ei_enabled (e_info e)
    \<and> e_pid (fst (reconcile os now e)) = 0
    \<and> (ext_state (fst (reconcile os now e)) = EXTENSION_FAILED \<longleftrightarrow> CRASH_LIMIT \<le> crashes (count_exit now e))
    \<and> snd (reconcile os now e) = []"
proof -
  have "0 < crashes (count_exit now e)" using assms(3) by (simp add: count_exit_def Let_def)
  then show ?thesis using assms by (auto simp: reconcile_def Let_def exit_seen_def split: if_splits)
qed

lemma count_exit_cases:
  "(CRASH_WINDOW_SECONDS < now - crash_window e \<and> crash_window (count_exit now e) = now \<and> crashes (count_exit now e) = 1)
   \<or> (now - crash_window e \<le> CRASH_WINDOW_SECONDS \<and> crash_window (count_exit now e) = crash_window e \<and> crashes (count_exit now e) = crashes e + 1)"
  by (auto simp: count_exit_def Let_def)

lemma exit_inv:
  assumes inv: "watch_inv e t xs" and t: "t \<le> now" and seen: "exit_seen os e"
  shows "watch_inv (fst (reconcile os now e)) now (now # xs)"
proof -
  let ?e1 = "fst (reconcile os now e)"
  have pid: "e_pid e \<noteq> 0" and en: "ei_enabled (e_info e)" using seen by (simp_all add: exit_seen_def ext_wanted_def)
  have c: "0 \<le> crashes e" "crashes e \<le> 4" "nat (crashes e) \<le> length xs" "crash_window e \<le> now" "present e"
    using inv t pid en by (auto simp: watch_inv_def)
  have "\<forall>x\<in>set xs. x \<le> t" using inv by (simp add: watch_inv_def)
  with t have upto: "\<forall>x\<in>set xs. x \<le> now" by force
  have near: "\<And>i. i < length xs \<Longrightarrow> if i < nat (crashes e) then crash_window e \<le> xs ! i else xs ! i \<le> crash_window e"
    and far: "\<And>i. i < length xs \<Longrightarrow> nat (crashes e) + 4 \<le> i \<Longrightarrow> xs ! i < crash_window e - CRASH_WINDOW_SECONDS"
    using inv by (auto simp: watch_inv_def)
  note ex = reconcile_exit [OF seen disjI2 [OF pid] c(1), of now]
  from count_exit_cases [of now e] show ?thesis
  proof (elim disjE conjE)
    assume w: "CRASH_WINDOW_SECONDS < now - crash_window e" "crash_window (count_exit now e) = now" "crashes (count_exit now e) = 1"
    have old: "xs ! i \<le> crash_window e" if "i < length xs" "4 \<le> i" for i using near [OF that(1)] that(2) c(2) by auto
    then have "xs ! i < now - CRASH_WINDOW_SECONDS" if "i < length xs" "4 \<le> i" for i using old [OF that] w(1) by simp
    moreover have "\<forall>x\<in>set xs. x \<le> now" by (rule upto)
    ultimately show ?thesis using ex w(2,3) c(5) unfolding watch_inv_def
      by (simp add: All_less_Suc2 CRASH_LIMIT_def)
  next
    assume w: "now - crash_window e \<le> CRASH_WINDOW_SECONDS" "crash_window (count_exit now e) = crash_window e"
      "crashes (count_exit now e) = crashes e + 1"
    have "nat (crashes e + 1) = Suc (nat (crashes e))" "crashes e = 4 \<or> crashes e \<le> 3" using c(1,2) by auto
    moreover have "\<forall>x\<in>set xs. x \<le> now" by (rule upto)
    ultimately show ?thesis using ex w(2,3) c near far unfolding watch_inv_def
      by (simp add: All_less_Suc2 CRASH_LIMIT_def)
  qed
qed

lemma quiet_inv:
  assumes inv: "watch_inv e t xs" and t: "t \<le> now" and seen: "\<not> exit_seen os e" and fork: "os_fork os \<noteq> 0"
  shows "watch_inv (fst (reconcile os now e)) now xs"
proof -
  let ?e1 = "fst (reconcile os now e)"
  note q = reconcile_quiet [OF seen fork, of now]
  have "\<forall>x\<in>set xs. x \<le> t" using inv by (simp add: watch_inv_def)
  with t have "\<forall>x\<in>set xs. x \<le> now" by force
  moreover have old: "present e" "crash_window e \<le> now" "ext_state e = EXTENSION_FAILED \<longrightarrow> e_pid e = 0"
    "ei_enabled (e_info e) \<longrightarrow> ext_state e = EXTENSION_FAILED \<or> crashes e \<le> 4"
    using inv t by (simp_all add: watch_inv_def)
  moreover have "ei_enabled (e_info ?e1) \<longrightarrow> ext_state ?e1 = EXTENSION_FAILED \<or> crashes ?e1 \<le> 4"
  proof
    assume on: "ei_enabled (e_info ?e1)"
    then have "ei_enabled (e_info e)" using q by simp
    moreover from this have "ext_state e = EXTENSION_FAILED \<longrightarrow> ext_wanted e" using old(1) by (simp add: ext_wanted_def)
    ultimately show "ext_state ?e1 = EXTENSION_FAILED \<or> crashes ?e1 \<le> 4" using old q by metis
  qed
  moreover have "ext_state ?e1 = EXTENSION_FAILED \<longrightarrow> e_pid ?e1 = 0" using q by simp
  ultimately show ?thesis using inv q unfolding watch_inv_def by simp
qed

lemma scan_read_counts: "crashes (scan_read root sroot de e) = crashes e" "crash_window (scan_read root sroot de e) = crash_window e"
    "ei_enabled (e_info (scan_read root sroot de e)) = ei_enabled (e_info e)"
  by (simp_all add: scan_read_def Let_def read_manifest_frame)

lemma scan_read_state:
  "ext_state (scan_read root sroot de e) \<noteq> EXTENSION_INVALID \<Longrightarrow>
     ext_state (scan_read root sroot de e) = (if e_pid e \<noteq> 0 \<or> ext_state e = EXTENSION_FAILED then ext_state e else EXTENSION_DISABLED)"
  using read_manifest_frame(5) [of root sroot "de_conf de" "de_executable de" "de_name de" e]
  by (auto simp: scan_read_def Let_def)

lemma reread_inv:
  assumes "watch_inv e t xs" "ext_state (scan_read root sroot de e) \<noteq> EXTENSION_INVALID"
  shows "watch_inv (scan_read root sroot de e) t xs"
  using assms(1) scan_read_state [OF assms(2)]
  by (auto simp: watch_inv_def scan_read_counts scan_read_frame)

lemma watched_inv: "watched e t xs \<Longrightarrow> watch_inv e t xs"
proof (induction rule: watched.induct)
  case fresh then show ?case by (simp add: watch_inv_def)
next
  case tick then show ?case using exit_inv quiet_inv by simp
next
  case reread then show ?case by (simp add: reread_inv)
next
  case (chosen e t xs b)
  then show ?case by (cases b) (auto simp: watch_inv_def set_enabled_def Let_def)
qed

definition tick_os :: "bool \<Rightarrow> Os" where
  "tick_os b = \<lparr>os_alive = (\<lambda>p. b), os_fork = 7, os_errno = [], os_answers = (\<lambda>p. True)\<rparr>"

text \<open>Ticks in a row, each with its time and whether the process is there.\<close>

fun watch_run :: "(int \<times> bool) list \<Rightarrow> Extension \<times> int \<times> int list \<Rightarrow> Extension \<times> int \<times> int list" where
  "watch_run [] s = s"
| "watch_run ((now, b) # l) (e, t, xs) =
     watch_run l (fst (reconcile (tick_os b) now e), now, if exit_seen (tick_os b) e then now # xs else xs)"

lemma watched_run:
  "watched e t xs \<Longrightarrow> sorted (t # map fst l) \<Longrightarrow> watch_run l (e, t, xs) = (e', t', xs') \<Longrightarrow> watched e' t' xs'"
proof (induction l arbitrary: e t xs)
  case (Cons a l)
  obtain now b where a: "a = (now, b)" by (cases a)
  have "t \<le> now" "os_fork (tick_os b) \<noteq> 0" using Cons.prems(2) by (simp_all add: a tick_os_def)
  then have "watched (fst (reconcile (tick_os b) now e)) now (if exit_seen (tick_os b) e then now # xs else xs)"
    using Cons.prems(1) by (intro watched.tick)
  then show ?case using Cons.IH Cons.prems a by simp
qed simp

text \<open>A program that ends as soon as it is started, looked at once a second: after its fifth start it is left alone.\<close>

definition short_lived :: "(int \<times> bool) list" where
  "short_lived = map (\<lambda>i. (200 + i, False)) [0..15]"

lemma short_lived_value:
  "watch_run (butlast short_lived) (notes_exts ! 0, 100, []) =
     ((notes_exts ! 0)\<lparr>e_info := (e_info (notes_exts ! 0))\<lparr>ei_state := EXTENSION_STARTING\<rparr>,
        e_pid := 7, next_start := 214, crashes := 4, crash_window := 201\<rparr>, 214, [210, 206, 203, 201])"
  unfolding notes_exts_value by code_simp

text \<open>
  C4. An extension that is marked failed because it exits did exit five times within 60 seconds; and
  while it is not, it is not restarted without end: of any nine exits in a row the first and the last
  are more than 60 seconds apart.
\<close>

theorem restart_limit:
  assumes "watched e t xs" "t \<le> now" "exit_seen os e" "reconcile os now e = (e1, acts)" "before = now # xs"
  shows "acts = [] \<and>
    (if ext_state e1 = EXTENSION_FAILED then 5 \<le> length before \<and> now - before ! 4 \<le> 60
     else next_start e1 > now \<and> (9 \<le> length before \<longrightarrow> 60 < now - before ! 8))"
proof -
  have inv: "watch_inv e t xs" using assms(1) by (rule watched_inv)
  have pid: "e_pid e \<noteq> 0" using assms(3) by (simp add: exit_seen_def)
  have c: "0 \<le> crashes e" using inv by (simp add: watch_inv_def)
  have e1: "e1 = fst (reconcile os now e)" and acts: "acts = snd (reconcile os now e)" using assms(4) by simp_all
  note ex = reconcile_exit [OF assms(3) disjI2 [OF pid] c, of now]
  have after: "watch_inv e1 now before" unfolding e1 assms(5) by (rule exit_inv [OF inv assms(2,3)])
  then have len: "nat (crashes e1) \<le> length before"
    and near: "\<And>i. i < length before \<Longrightarrow> i < nat (crashes e1) \<Longrightarrow> crash_window e1 \<le> before ! i"
    and far: "\<And>i. i < length before \<Longrightarrow> nat (crashes e1) + 4 \<le> i \<Longrightarrow> before ! i < crash_window e1 - 60"
    and few: "ei_enabled (e_info e1) \<longrightarrow> ext_state e1 = EXTENSION_FAILED \<or> crashes e1 \<le> 4"
    by (simp_all add: watch_inv_def CRASH_WINDOW_SECONDS_def)
  have w: "crash_window e1 \<le> now" "now - crash_window e1 \<le> 60"
    using after count_exit_cases [of now e] ex by (auto simp: watch_inv_def e1 CRASH_WINDOW_SECONDS_def)
  show ?thesis
  proof (cases "ext_state e1 = EXTENSION_FAILED")
    case True
    then have "5 \<le> crashes e1" using ex by (simp add: e1 CRASH_LIMIT_def)
    then have "4 < nat (crashes e1)" by linarith
    with len near [of 4] w True ex show ?thesis by (simp add: acts)
  next
    case False
    have "ei_enabled (e_info e)" using assms(3) by (simp add: exit_seen_def ext_wanted_def)
    with few False ex have "nat (crashes e1) \<le> 4" by (simp add: e1)
    then have "9 \<le> length before \<longrightarrow> before ! 8 < crash_window e1 - 60" using far [of 8] by simp
    then have "9 \<le> length before \<longrightarrow> 60 < now - before ! 8" using w(1) by linarith
    moreover have "next_start e1 = now + crashes e1" "0 < crashes e1"
      using assms(3) False c unfolding e1 by (auto simp: reconcile_def Let_def exit_seen_def count_exit_def split: if_splits)
    ultimately show ?thesis using False ex by (simp add: acts)
  qed
qed

theorem restart_limit_witness:
  "let e = fst (watch_run (butlast short_lived) (notes_exts ! 0, 100, [])); e1 = fst (reconcile (tick_os False) 215 e)
   in ext_state e1 = EXTENSION_FAILED \<and> 5 \<le> length [215, 210, 206, 203, 201 :: int] \<and> 215 - [215, 210, 206, 203, 201] ! 4 \<le> (60 :: int)"
proof -
  let ?e0 = "notes_exts ! 0"
  define e where "e = ?e0\<lparr>e_info := (e_info ?e0)\<lparr>ei_state := EXTENSION_STARTING\<rparr>,
        e_pid := 7, next_start := 214, crashes := 4, crash_window := 201\<rparr>"
  have e: "watch_run (butlast short_lived) (?e0, 100, []) = (e, 214, [210, 206, 203, 201])"
    unfolding e_def by (rule short_lived_value)
  have "watched ?e0 100 []" by (rule watched.fresh) (simp_all add: notes_exts_value)
  moreover have "sorted (100 # map fst (butlast short_lived))" by code_simp
  ultimately have "watched e 214 [210, 206, 203, 201]" using e by (rule watched_run)
  moreover have seen: "exit_seen (tick_os False) e" unfolding e_def notes_exts_value by code_simp
  moreover have "ext_state (fst (reconcile (tick_os False) 215 e)) = EXTENSION_FAILED" unfolding e_def notes_exts_value by code_simp
  ultimately show ?thesis
    using restart_limit [of e 214 "[210, 206, 203, 201]" 215 "tick_os False" "fst (reconcile (tick_os False) 215 e)"
        "snd (reconcile (tick_os False) 215 e)" "[215, 210, 206, 203, 201]"] e
    by (simp add: Let_def)
qed

text \<open>
  The window does not slide: five exits within 23 seconds, of which the last two fall into the
  next window, and the extension is not marked failed.
\<close>

lemma window_does_not_slide:
  "let (e, t, xs) = watch_run [(200, True), (201, False), (202, True), (240, False), (242, True), (243, False), (246, True), (247, False),
       (251, True), (262, False), (263, True), (264, False)] (notes_exts ! 0, 100, [])
   in xs = [264, 262, 247, 243, 240, 201] \<and> ext_state e = EXTENSION_STARTING"
  unfolding notes_exts_value by code_simp

text \<open>
  The time of a SIGTERM outlives the process it was sent to: the extension is switched off and on
  again, its process ends, another is started, and the next time it is switched off that one gets SIGKILL at once.
\<close>

lemma killed_without_term:
  "let e0 = (notes_exts ! 0)\<lparr>e_pid := 7\<rparr>;
       (e1, a1) = reconcile (tick_os True) 100 (set_enabled False e0);
       (e2, a2) = reconcile (tick_os False) 101 (set_enabled True e1);
       (e3, a3) = reconcile (tick_os False) 102 e2;
       (e4, a4) = reconcile (tick_os True) 500 (set_enabled False e3)
   in a1 = [Term 7] \<and> a3 = [Start 7] \<and> a4 = [Kill 7]"
  unfolding notes_exts_value by code_simp

text \<open>An extension whose manifest is put right while its process is still stopping stays unusable until the next scan.\<close>

lemma scan_keeps_stale_invalid:
  assumes "ext_state e = EXTENSION_INVALID" "e_pid e \<noteq> 0"
  shows "ext_state (scan_read root sroot de e) = EXTENSION_INVALID"
  using assms by (auto simp: scan_read_def Let_def)

text \<open>A manifest as the reference manual shows it: what follows a semicolon in a line is part of the value.\<close>

lemma comment_after_value:
  "ext_state (read_manifest ''/srv/extensions'' ''/srv/run''
     (Some (join_with LF [''name=notes                         ; required, must equal the directory name'', ''title=Notes'', ''version=0.1.0'', ''protocol=1'', ''exec=bin/notes'']))
     (\<lambda>p. True) ''notes'' zero_extension) = EXTENSION_INVALID"
  by code_simp

subsubsection \<open>Stopping\<close>

text \<open>The acts of ticks of an extension that is not wanted, each with its time.\<close>

fun stop_run :: "(Os \<times> int) list \<Rightarrow> Extension \<Rightarrow> (int \<times> Act) list" where
  "stop_run [] e = []"
| "stop_run ((os, now) # l) e = map (Pair now) (snd (reconcile os now e)) @ stop_run l (fst (reconcile os now e))"

lemma unwanted_stays:
  "\<not> ext_wanted e \<Longrightarrow> \<not> ext_wanted (fst (reconcile os now e))
    \<and> e_pid (fst (reconcile os now e)) = e_pid (fst (request_stop os now e)) \<and> term_sent (fst (reconcile os now e)) = term_sent (fst (request_stop os now e))
    \<and> snd (reconcile os now e) = snd (request_stop os now e)"
  by (auto simp: tick_defs ext_wanted_def split: if_splits prod.splits)

text \<open>An extension that was told to end at a time, or not yet, gets SIGKILL only later than that time by the grace.\<close>

lemma stop_run_kills:
  "\<not> ext_wanted e \<Longrightarrow> (t, Kill p) \<in> set (stop_run l e) \<Longrightarrow> \<forall>x\<in>set l. 0 < snd x \<Longrightarrow>
     (term_sent e \<noteq> 0 \<and> e_pid e = p \<and> term_sent e + STOP_GRACE_SECONDS \<le> t)
     \<or> (\<exists>t0. (t0, Term p) \<in> set (stop_run l e) \<and> t0 + STOP_GRACE_SECONDS \<le> t)"
proof (induction l arbitrary: e)
  case (Cons a l)
  obtain os now where a: "a = (os, now)" by (cases a)
  let ?e1 = "fst (reconcile os now e)"
  note u = unwanted_stays [OF Cons.prems(1), of os now]
  from Cons.prems(2) a consider "t = now" "Kill p \<in> set (snd (request_stop os now e))" | "(t, Kill p) \<in> set (stop_run l ?e1)"
    using u by auto
  then show ?case
  proof cases
    case 1
    then show ?thesis by (auto simp: request_stop_def split: if_splits)
  next
    case 2
    from Cons.IH [OF _ 2] u Cons.prems(3) consider
        "term_sent ?e1 \<noteq> 0" "e_pid ?e1 = p" "term_sent ?e1 + STOP_GRACE_SECONDS \<le> t"
      | t0 where "(t0, Term p) \<in> set (stop_run l ?e1)" "t0 + STOP_GRACE_SECONDS \<le> t" by auto
    then show ?thesis
    proof cases
      case 1
      then show ?thesis using u unfolding a by (auto simp: request_stop_def split: if_splits)
    next
      case (2 t0)
      then show ?thesis unfolding a by auto
    qed
  qed
qed simp
end
