(* ===== verification/Extension_Wire.thy ===== *)
theory Extension_Wire
  imports Extensions Router_Read
begin

text \<open>
  What the server says to an extension and reads from it (the last part of
  src/src/extensions/extensions.c: header_value, response_header, extensions_forward). The
  connection to the socket is an argument: whether it is made, whether everything is
  sent, and the pieces of the answer to the bytes sent.
\<close>

subsection \<open>The request\<close>

definition MAX_RESPONSE_BYTES :: nat where "MAX_RESPONSE_BYTES = 4 * 1024 * 1024"

record ForwardRequest = ExtensionRequest +
  xq_user_name :: string
  xq_lang :: string
  xq_theme :: string
  xq_request_id :: "string option"

definition forward_value :: "nat \<Rightarrow> string option \<Rightarrow> string" where
  "forward_value n v =
     (case v of None \<Rightarrow> [] | Some s \<Rightarrow> fit n (map (\<lambda>c. if ord c < 32 \<or> ord c = 127 then CHR '' '' else c) s))"

definition forward_target :: "string \<Rightarrow> string" where
  "forward_target t =
     (let v = map (\<lambda>c. if c = CHR '' '' then CHR ''+'' else c) (forward_value 2048 (Some t)) in if v = [] then ''/'' else v)"

definition forward_request_id :: "nat \<Rightarrow> nat \<Rightarrow> string option \<Rightarrow> string" where
  "forward_request_id now seq r =
     fit 32 (case r of Some (c # cs) \<Rightarrow> c # cs | _ \<Rightarrow> show_hex now @ ''-'' @ show_hex seq)"

definition forward_headers :: "nat \<Rightarrow> nat \<Rightarrow> ForwardRequest \<Rightarrow> HttpHeader list" where
  "forward_headers now seq rq =
     (let ctype = forward_value 256 (xq_content_type rq) in
      [\<lparr>hkey = ''Host'', hval = ''boat-rudder''\<rparr>,
       \<lparr>hkey = ''X-BR-Protocol'', hval = show_int EXTENSION_PROTOCOL\<rparr>,
       \<lparr>hkey = ''X-BR-Request-Id'', hval = forward_request_id now seq (xq_request_id rq)\<rparr>,
       \<lparr>hkey = ''X-BR-Mount'', hval = forward_value 128 (Some (xq_mount rq))\<rparr>,
       \<lparr>hkey = ''X-BR-User-Id'', hval = forward_value 64 (Some (xq_user rq))\<rparr>,
       \<lparr>hkey = ''X-BR-User-Name'', hval = forward_value 256 (Some (xq_user_name rq))\<rparr>,
       \<lparr>hkey = ''X-BR-Role'', hval = forward_value 32 (Some (xq_role rq))\<rparr>,
       \<lparr>hkey = ''X-BR-Lang'', hval = forward_value 32 (Some (xq_lang rq))\<rparr>,
       \<lparr>hkey = ''X-BR-Theme'', hval = forward_value 64 (Some (xq_theme rq))\<rparr>,
       \<lparr>hkey = ''X-BR-Epoch'', hval = show_int (xq_epoch rq)\<rparr>]
      @ (if ctype \<noteq> [] then [\<lparr>hkey = ''Content-Type'', hval = ctype\<rparr>] else [])
      @ [\<lparr>hkey = ''Content-Length'', hval = show_nat (case xq_body rq of None \<Rightarrow> 0 | Some b \<Rightarrow> length b)\<rparr>,
         \<lparr>hkey = ''Connection'', hval = ''close''\<rparr>])"

definition forward_head :: "nat \<Rightarrow> nat \<Rightarrow> ForwardRequest \<Rightarrow> string" where
  "forward_head now seq rq =
     request_head (xq_method rq) (forward_target (xq_target rq)) ''HTTP/1.1'' (forward_headers now seq rq)"

definition forward_bytes :: "nat \<Rightarrow> nat \<Rightarrow> ForwardRequest \<Rightarrow> string option" where
  "forward_bytes now seq rq =
     (if 4096 \<le> length (forward_head now seq rq) then None
      else Some (forward_head now seq rq @ (case xq_body rq of None \<Rightarrow> [] | Some b \<Rightarrow> b)))"

subsection \<open>The answer\<close>

text \<open>The receiving loop with its growing buffer: what the buffer holds when the extension closes, or the result code.\<close>

function recv_loop :: "nat \<Rightarrow> string \<Rightarrow> string list \<Rightarrow> bool \<Rightarrow> int + string" where
  "recv_loop cap buf ps closed =
     (if length buf = cap \<and> MAX_RESPONSE_BYTES \<le> cap then Inl (-2)
      else
        (let cap1 = (if length buf = cap then cap * 2 else cap) in
         case ps of
           [] \<Rightarrow> if closed then Inr buf else Inl (-1)
         | p # ps1 \<Rightarrow>
             let room = cap1 - length buf in
             if length p \<le> room \<or> room = 0 then recv_loop cap1 (buf @ p) ps1 closed
             else recv_loop cap1 (buf @ take room p) (drop room p # ps1) closed))"
  by pat_completeness auto
termination
  by (relation "measure (\<lambda>(cap, buf, ps, closed). length (concat ps) + length ps)") (auto split: if_splits)

declare recv_loop.simps [simp del]

text \<open>\<open>%d\<close> of \<open>sscanf\<close>: the number after any white space, and what follows it.\<close>

definition scan_d :: "string \<Rightarrow> (int \<times> string) option" where
  "scan_d s =
     (let t = dropWhile isspace s;
          u = (if t \<noteq> [] \<and> (hd t = CHR ''-'' \<or> hd t = CHR ''+'') then tl t else t)
      in if takeWhile isdigit u = [] then None else Some (to_int32 (fst (strtol10 s)), snd (strtol10 s)))"

definition answer_status :: "string \<Rightarrow> int option" where
  "answer_status s =
     (if \<not> prefix ''HTTP/1.'' s then None
      else case scan_d (drop 7 s) of None \<Rightarrow> None | Some (v, r) \<Rightarrow> map_option fst (scan_d r))"

definition trim_value :: "string \<Rightarrow> string" where
  "trim_value v = rev (dropWhile (\<lambda>c. c = CR \<or> c = CHR '' '') (rev (dropWhile is_blank v)))"

fun response_header :: "string list \<Rightarrow> string \<Rightarrow> nat \<Rightarrow> string" where
  "response_header [] name n = []"
| "response_header (l # ls) name n =
     (if length name < length l \<and> prefix_ci name l \<and> l ! length name = CHR '':''
      then fit n (trim_value (drop (length name + 1) l))
      else response_header ls name n)"

definition answer_end :: "string \<Rightarrow> (nat \<times> nat) option" where
  "answer_end s =
     (case strstr s (CRLF @ CRLF) of Some i \<Rightarrow> Some (i, 4)
      | None \<Rightarrow> (case strstr s [LF, LF] of Some i \<Rightarrow> Some (i, 2) | None \<Rightarrow> None))"

definition parse_answer :: "string \<Rightarrow> int + ExtensionResponse" where
  "parse_answer buf =
     (case answer_end (cstr buf) of
        None \<Rightarrow> Inl (-2)
      | Some (i, k) \<Rightarrow>
          (case answer_status (cstr buf) of
             None \<Rightarrow> Inl (-2)
           | Some status \<Rightarrow>
               if status < 100 \<or> 599 < status then Inl (-2)
               else let lines = split_on LF (take i (cstr buf)) in
                 Inr \<lparr>xs_status = status,
                      xs_content_type = response_header lines ''Content-Type'' 128,
                      xs_title = response_header lines ''X-BR-Title'' 161,
                      xs_location = response_header lines ''Location'' 512,
                      xs_body = drop (i + k) buf\<rparr>))"

record Wire =
  wi_connects :: bool
  wi_sends :: bool
  wi_answer :: "string \<Rightarrow> string list \<times> bool"

definition forward_running :: "Extension list \<Rightarrow> string \<Rightarrow> bool" where
  "forward_running exts name =
     (case find_ext name exts of None \<Rightarrow> False
      | Some i \<Rightarrow> ei_enabled (e_info (exts ! i)) \<and> ext_state (exts ! i) = EXTENSION_RUNNING)"

definition extensions_forward ::
    "Extension list \<Rightarrow> string \<Rightarrow> nat \<Rightarrow> nat \<Rightarrow> ForwardRequest \<Rightarrow> Wire \<Rightarrow> int + ExtensionResponse" where
  "extensions_forward exts name now seq rq wire =
     (if \<not> forward_running exts name \<or> \<not> wi_connects wire then Inl (-1)
      else case forward_bytes now seq rq of
        None \<Rightarrow> Inl (-1)
      | Some bytes \<Rightarrow>
          if \<not> wi_sends wire then Inl (-1)
          else (let (ps, closed) = wi_answer wire bytes in
                case recv_loop 16384 [] ps closed of Inl rc \<Rightarrow> Inl rc | Inr buf \<Rightarrow> parse_answer buf))"

subsection \<open>However the answer is cut\<close>

lemma recv_loop_cap:
  "k \<le> 8 \<Longrightarrow> length buf \<le> 16384 * 2 ^ k \<Longrightarrow>
     recv_loop (16384 * 2 ^ k) buf ps closed =
       (if MAX_RESPONSE_BYTES \<le> length (buf @ concat ps) then Inl (-2)
        else if closed then Inr (buf @ concat ps) else Inl (-1))"
proof (induction "(16384 :: nat) * 2 ^ k" buf ps closed arbitrary: k rule: recv_loop.induct)
  case (1 buf ps closed)
  let ?cap = "16384 * 2 ^ k :: nat"
  have top: "MAX_RESPONSE_BYTES = 16384 * 2 ^ 8" by (simp add: MAX_RESPONSE_BYTES_def)
  have lim: "?cap \<le> MAX_RESPONSE_BYTES" unfolding top using "1.prems"(1) by (intro mult_le_mono2 power_increasing) simp_all
  show ?case
  proof (cases "length buf = ?cap \<and> MAX_RESPONSE_BYTES \<le> ?cap")
    case True
    then show ?thesis by (subst recv_loop.simps) simp
  next
    case go: False
    define k1 where "k1 = (if length buf = ?cap then Suc k else k)"
    have cap1: "(if length buf = ?cap then ?cap * 2 else ?cap) = 16384 * 2 ^ k1" by (simp add: k1_def)
    have k1: "k1 \<le> 8"
    proof (cases "length buf = ?cap")
      case True
      with go lim have "(2 :: nat) ^ k < 2 ^ 8" unfolding top by simp
      then have "k < 8" by (rule power_less_imp_less_exp [rotated]) simp
      with True show ?thesis by (simp add: k1_def)
    qed (use "1.prems" in \<open>simp add: k1_def\<close>)
    have room: "length buf < 16384 * 2 ^ k1" using "1.prems"(2) by (auto simp: k1_def)
    have small: "length buf < MAX_RESPONSE_BYTES"
      using room k1 unfolding top by (metis less_le_trans mult_le_mono2 one_le_numeral power_increasing)
    show ?thesis
    proof (cases ps)
      case Nil
      with small go show ?thesis by (subst recv_loop.simps) (auto simp: Let_def)
    next
      case (Cons p ps1)
      let ?room = "16384 * 2 ^ k1 - length buf"
      show ?thesis
      proof (cases "length p \<le> ?room \<or> ?room = 0")
        case True
        then have "length (buf @ p) \<le> 16384 * 2 ^ k1" using room by auto
        then have "recv_loop (16384 * 2 ^ k1) (buf @ p) ps1 closed =
          (if MAX_RESPONSE_BYTES \<le> length ((buf @ p) @ concat ps1) then Inl (-2)
           else if closed then Inr ((buf @ p) @ concat ps1) else Inl (-1))"
          by (rule "1.hyps"(1) [OF go cap1 [symmetric] Cons refl True k1])
        then show ?thesis using go Cons True cap1 by (subst recv_loop.simps) (cases closed; simp add: Let_def)
      next
        case False
        then have "length (buf @ take ?room p) \<le> 16384 * 2 ^ k1" using room by auto
        then have "recv_loop (16384 * 2 ^ k1) (buf @ take ?room p) (drop ?room p # ps1) closed =
          (if MAX_RESPONSE_BYTES \<le> length ((buf @ take ?room p) @ concat (drop ?room p # ps1)) then Inl (-2)
           else if closed then Inr ((buf @ take ?room p) @ concat (drop ?room p # ps1)) else Inl (-1))"
          by (rule "1.hyps"(2) [OF go cap1 [symmetric] Cons refl False k1])
        moreover have "(buf @ take ?room p) @ concat (drop ?room p # ps1) = buf @ concat ps" using Cons by simp
        moreover have "recv_loop ?cap buf ps closed = recv_loop (16384 * 2 ^ k1) (buf @ take ?room p) (drop ?room p # ps1) closed"
          unfolding Cons recv_loop.simps [of ?cap buf "p # ps1" closed] if_not_P [OF go] Let_def cap1 list.case if_not_P [OF False] ..
        ultimately show ?thesis by (simp only:)
      qed
    qed
  qed
qed

lemma recv_loop_any_cut:
  "recv_loop 16384 [] ps closed =
     (if MAX_RESPONSE_BYTES \<le> length (concat ps) then Inl (-2) else if closed then Inr (concat ps) else Inl (-1))"
  using recv_loop_cap [of 0 "[]" ps closed] by simp
end
