(* ===== verification/Extension_Sdk.thy ===== *)
theory Extension_Sdk
  imports Extension_Wire
begin

text \<open>
  The library an extension links (src/sdk/brext.c, brext.h): how it reads a request, its fields
  and its route, how it builds an answer and sends it. With Extension_Wire both ends of the
  protocol are modelled; Extension_Protocol puts them together: what an extension is told
  and what of its answer arrives.
\<close>

subsection \<open>Requests\<close>

definition MAX_HEAD_BYTES :: nat where "MAX_HEAD_BYTES = 16384"
definition BREXT_MAX_HEADERS :: nat where "BREXT_MAX_HEADERS = 48"
definition BREXT_MAX_BODY :: int where "BREXT_MAX_BODY = 8 * 1024 * 1024"

record BrextRequest =
  br_method :: string
  br_path :: string
  br_query :: string
  br_headers :: "(string \<times> string) list"
  br_body :: string

fun header_in :: "(string \<times> string) list \<Rightarrow> string \<Rightarrow> string" where
  "header_in [] name = []"
| "header_in ((k, v) # hs) name = (if eq_ci k name then v else header_in hs name)"

definition brext_header :: "BrextRequest \<Rightarrow> string \<Rightarrow> string" where
  "brext_header req name = header_in (br_headers req) name"

definition brext_user_id :: "BrextRequest \<Rightarrow> string" where "brext_user_id req = brext_header req ''X-BR-User-Id''"
definition brext_user_name :: "BrextRequest \<Rightarrow> string" where "brext_user_name req = brext_header req ''X-BR-User-Name''"
definition brext_role :: "BrextRequest \<Rightarrow> string" where "brext_role req = brext_header req ''X-BR-Role''"
definition brext_lang :: "BrextRequest \<Rightarrow> string" where "brext_lang req = brext_header req ''X-BR-Lang''"
definition brext_epoch :: "BrextRequest \<Rightarrow> int" where "brext_epoch req = atoi (brext_header req ''X-BR-Epoch'')"
definition brext_mount :: "BrextRequest \<Rightarrow> string" where "brext_mount req = brext_header req ''X-BR-Mount''"

definition hex_value :: "char \<Rightarrow> int" where
  "hex_value c =
     (if isdigit c then int (ord c) - 48
      else if 97 \<le> ord c \<and> ord c \<le> 102 then int (ord c) - 97 + 10
      else if 65 \<le> ord c \<and> ord c \<le> 70 then int (ord c) - 65 + 10 else -1)"

text \<open>\<open>k\<close> is the room left in the output, its NUL not counted.\<close>

fun url_decode_loop :: "nat \<Rightarrow> string \<Rightarrow> string" where
  "url_decode_loop 0 s = []"
| "url_decode_loop (Suc k) [] = []"
| "url_decode_loop (Suc k) (c # s) =
     (if c = CHR ''+'' then CHR '' '' # url_decode_loop k s
      else (case s of
              a # b # r \<Rightarrow>
                if c = CHR ''%'' \<and> 0 \<le> hex_value a \<and> 0 \<le> hex_value b
                then chr (nat (hex_value a * 16 + hex_value b)) # url_decode_loop k r
                else c # url_decode_loop k s
            | _ \<Rightarrow> c # url_decode_loop k s))"

text \<open>What the string functions see of the decoded bytes: a NUL among them ends it.\<close>

definition url_decode_n :: "string \<Rightarrow> nat \<Rightarrow> string" where
  "url_decode_n s n = cstr (url_decode_loop (n - 1) s)"

text \<open>A field of a query or form: its pairs between ampersands, the last one only when there is something after the ampersand.\<close>

fun field_pairs :: "string list \<Rightarrow> string \<Rightarrow> nat \<Rightarrow> string option" where
  "field_pairs [] key n = None"
| "field_pairs (p # ps) key n =
     (if ps = [] \<and> p = [] then None
      else if url_decode_n (takeWhile (\<lambda>c. c \<noteq> CHR ''='') p) 128 = key
      then Some (case strchr p (CHR ''='') of None \<Rightarrow> [] | Some k \<Rightarrow> url_decode_n (drop (k + 1) p) n)
      else field_pairs ps key n)"

definition field_of :: "string \<Rightarrow> string \<Rightarrow> nat \<Rightarrow> string option" where
  "field_of data key n = field_pairs (split_on (CHR ''&'') data) key n"

definition brext_query :: "BrextRequest \<Rightarrow> string \<Rightarrow> nat \<Rightarrow> string option" where
  "brext_query req key n = field_of (br_query req) key n"

definition brext_form :: "BrextRequest \<Rightarrow> string \<Rightarrow> nat \<Rightarrow> string option" where
  "brext_form req key n =
     (if \<not> prefix_ci ''application/x-www-form-urlencoded'' (brext_header req ''Content-Type'') then None
      else field_of (br_body req) key n)"

definition trimmed :: "string \<Rightarrow> string" where
  "trimmed s = (case rev s of [] \<Rightarrow> [] | _ \<Rightarrow>
     (let r = rev (dropWhile (\<lambda>c. c = CHR ''/'') (rev s)) in if r = [] then take 1 s else r))"

text \<open>The match of a path with a pattern: the last segment taken by a star, if any.\<close>

function route_loop :: "string \<Rightarrow> string \<Rightarrow> nat \<Rightarrow> string option \<Rightarrow> string option option" where
  "route_loop p q n seg =
     (if p = [] \<or> q = [] then (if p = [] \<and> q = [] then Some seg else None)
      else if hd q = CHR ''*'' then
        (let s = takeWhile (\<lambda>c. c \<noteq> CHR ''/'') p in
         if s = [] then None else route_loop (drop (length s) p) (tl q) n (Some (url_decode_n s n)))
      else if hd p = hd q then route_loop (tl p) (tl q) n seg
      else None)"
  by pat_completeness auto
termination by (relation "measure (\<lambda>(p, q, n, seg). length q)") auto

declare route_loop.simps [simp del]

definition brext_route :: "BrextRequest \<Rightarrow> string \<Rightarrow> string \<Rightarrow> nat \<Rightarrow> string option option" where
  "brext_route req m pattern n =
     (if br_method req \<noteq> m \<and> \<not> (m = ''GET'' \<and> br_method req = ''HEAD'') then None
      else route_loop (trimmed (br_path req)) (trimmed pattern) n None)"

subsection \<open>Reading a request\<close>

text \<open>Until a blank line is there: the bytes so far, where it is, and the pieces still to come.\<close>

function read_head :: "string \<Rightarrow> string list \<Rightarrow> (string \<times> nat \<times> string list) option" where
  "read_head h ps =
     (if MAX_HEAD_BYTES \<le> length h then None
      else case ps of
        [] \<Rightarrow> None
      | p # ps1 \<Rightarrow>
          (let room = MAX_HEAD_BYTES - length h;
               h1 = h @ take room p;
               ps2 = (if length p \<le> room then ps1 else drop room p # ps1)
           in case strstr (cstr h1) (CRLF @ CRLF) of Some e \<Rightarrow> Some (h1, e, ps2) | None \<Rightarrow> read_head h1 ps2))"
  by pat_completeness auto
termination
  by (relation "measure (\<lambda>(h, ps). length (concat ps) + length ps)") (auto split: if_splits)

declare read_head.simps [simp del]

fun read_body_loop :: "nat \<Rightarrow> string \<Rightarrow> string list \<Rightarrow> string option" where
  "read_body_loop n got [] = (if n \<le> length got then Some got else None)"
| "read_body_loop n got (p # ps) =
     (if n \<le> length got then Some got else read_body_loop n (got @ take (n - length got) p) ps)"

definition header_pair :: "string \<Rightarrow> (string \<times> string) option" where
  "header_pair l =
     (case strchr l (CHR '':'') of None \<Rightarrow> None | Some k \<Rightarrow> Some (take k l, dropWhile is_blank (drop (k + 1) l)))"

definition read_request :: "string list \<Rightarrow> BrextRequest option" where
  "read_request ps =
     (case read_head [] ps of
        None \<Rightarrow> None
      | Some (h, e, rest) \<Rightarrow>
          (case strtok is_eol (take e (cstr h)) of
             [] \<Rightarrow> None
           | line # lines \<Rightarrow>
               (case scan_s 15 line of
                  None \<Rightarrow> None
                | Some (m, r) \<Rightarrow>
                    (case scan_s 3071 r of
                       None \<Rightarrow> None
                     | Some (target, r1) \<Rightarrow>
                         (let path = takeWhile (\<lambda>c. c \<noteq> CHR ''?'') target;
                              query = drop (length path + 1) target;
                              req = \<lparr>br_method = m, br_path = (if path = [] then ''/'' else path), br_query = query,
                                     br_headers = take BREXT_MAX_HEADERS (List.map_filter header_pair lines), br_body = []\<rparr>;
                              n = fst (strtol10 (brext_header req ''Content-Length''))
                          in if 1024 \<le> length path \<or> 2048 \<le> length query then None
                             else if n < 0 \<or> BREXT_MAX_BODY < n then None
                             else map_option (\<lambda>b. req\<lparr>br_body := b\<rparr>)
                                    (read_body_loop (nat n) (take (nat n) (drop (e + 4) h)) rest))))))"

subsection \<open>Answers\<close>

record BrextResponse =
  bs_status :: int
  bs_content_type :: string
  bs_title :: string
  bs_location :: string
  bs_body :: string
  bs_failed :: bool

definition empty_response :: BrextResponse where
  "empty_response = \<lparr>bs_status = 0, bs_content_type = [], bs_title = [], bs_location = [], bs_body = [], bs_failed = False\<rparr>"

text \<open>The memory for a longer body is assumed to be there.\<close>

definition brext_append :: "string \<Rightarrow> BrextResponse \<Rightarrow> BrextResponse" where
  "brext_append s res = (if bs_failed res then res else res\<lparr>bs_body := bs_body res @ s\<rparr>)"

definition brext_escaped :: "char \<Rightarrow> string" where
  "brext_escaped c =
     (if c = CHR ''&'' then ''&amp;'' else if c = CHR ''<'' then ''&lt;'' else if c = CHR ''>'' then ''&gt;''
      else if c = DQ then ''&quot;'' else if c = SQ then ''&#39;'' else [c])"

definition brext_append_escaped :: "string \<Rightarrow> BrextResponse \<Rightarrow> BrextResponse" where
  "brext_append_escaped s res = fold (\<lambda>c. brext_append (brext_escaped c)) s res"

definition brext_status :: "int \<Rightarrow> BrextResponse \<Rightarrow> BrextResponse" where
  "brext_status st res = res\<lparr>bs_status := st\<rparr>"

definition brext_html :: "string \<Rightarrow> BrextResponse \<Rightarrow> BrextResponse" where
  "brext_html title res = res\<lparr>bs_content_type := ''text/html; charset=utf-8'', bs_title := fit 160 title\<rparr>"

definition brext_json :: "BrextResponse \<Rightarrow> BrextResponse" where
  "brext_json res = res\<lparr>bs_content_type := ''application/json''\<rparr>"

definition brext_redirect :: "string \<Rightarrow> BrextResponse \<Rightarrow> BrextResponse" where
  "brext_redirect path res = res\<lparr>bs_status := 302, bs_location := fit 512 path\<rparr>"

definition brext_not_found :: "BrextResponse \<Rightarrow> BrextResponse" where
  "brext_not_found res =
     brext_append (''<section class='' @ [DQ] @ ''boat-rudder-dashboard'' @ [DQ] @ ''><h1>Not found</h1><p>This page doesn'' @ [SQ]
         @ ''t exist.</p></section>'')
       ((brext_html ''Not found'' (res\<lparr>bs_status := 404\<rparr>))\<lparr>bs_body := []\<rparr>)"

definition clean_header :: "string \<Rightarrow> string" where
  "clean_header s = map (\<lambda>c. if ord c < 32 then CHR '' '' else c) s"

definition answer_lines :: "BrextResponse \<Rightarrow> string list" where
  "answer_lines res =
     (let title = clean_header (bs_title res); location = clean_header (bs_location res) in
      [''HTTP/1.1 '' @ show_int (if bs_status res = 0 then 200 else bs_status res) @ '' X'',
       ''Content-Type: '' @ clean_header (if bs_content_type res = [] then ''text/plain'' else bs_content_type res),
       ''Content-Length: '' @ show_nat (length (bs_body res))]
      @ (if title \<noteq> [] then [''X-BR-Title: '' @ title] else [])
      @ (if location \<noteq> [] then [''Location: '' @ location] else [])
      @ [''Connection: close''])"

definition answer_head :: "BrextResponse \<Rightarrow> string" where
  "answer_head res = concat (map (\<lambda>l. l @ CRLF) (answer_lines res)) @ CRLF"

definition OOM_ANSWER :: string where
  "OOM_ANSWER = concat (map (\<lambda>l. l @ CRLF) [''HTTP/1.1 500 Internal Server Error'', ''Content-Type: text/plain'', ''Content-Length: 0'',
     ''Connection: close'']) @ CRLF"

definition send_response :: "BrextResponse \<Rightarrow> bool \<Rightarrow> string" where
  "send_response res headonly =
     (if bs_failed res then OOM_ANSWER
      else if 1024 \<le> length (answer_head res) then []
      else answer_head res @ (if headonly then [] else bs_body res))"

text \<open>One connection: what is written before it is closed.\<close>

definition serve_connection :: "(BrextRequest \<Rightarrow> BrextResponse) \<Rightarrow> string list \<Rightarrow> string" where
  "serve_connection handler ps =
     (case read_request ps of None \<Rightarrow> [] | Some req \<Rightarrow> send_response (handler req) (br_method req = ''HEAD''))"
end
