(* ===== verification/Extension_Protocol.thy ===== *)
theory Extension_Protocol
  imports Extension_Sdk
begin

text \<open>
  The two ends of the protocol between the server and an extension together: what the reader of
  Extension_Sdk makes of the request of Extension_Wire, however it is cut into pieces, and what the
  server makes of the answer.
\<close>

subsection \<open>Numbers\<close>

lemma strtol10_show:
  assumes "n \<le> 9223372036854775807" "r = [] \<or> \<not> isdigit (hd r)"
  shows "strtol10 (show_nat n @ r) = (int n, r)"
proof -
  have d: "\<forall>c\<in>set (show_nat n). isdigit c" using show_nat_digits by blast
  obtain c s where cs: "show_nat n = c # s" using show_nat_not_Nil [of n] by (cases "show_nat n") auto
  have "isdigit c" using d cs by simp
  then have ns: "\<not> isspace c" "c \<noteq> CHR ''-''" "c \<noteq> CHR ''+''" by (auto simp: ctype_defs)
  have r: "takeWhile isdigit r = []" "dropWhile isdigit r = r" using assms(2) by (cases r; simp)+
  have w: "dropWhile isspace (show_nat n @ r) = show_nat n @ r" using ns(1) by (simp add: cs)
  have h: "hd (show_nat n @ r) \<noteq> CHR ''-''" "hd (show_nat n @ r) \<noteq> CHR ''+''" using ns by (simp_all add: cs)
  have t: "takeWhile isdigit (show_nat n @ r) = show_nat n" "dropWhile isdigit (show_nat n @ r) = r"
    using d r by (simp_all add: takeWhile_append2 dropWhile_append2)
  show ?thesis unfolding strtol10_def Let_def w using h t assms(1) by simp
qed

lemma scan_d_show:
  assumes "n < 2147483648" "r = [] \<or> \<not> isdigit (hd r)"
  shows "scan_d (show_nat n @ r) = Some (int n, r)"
proof -
  have "\<forall>c\<in>set (show_nat n). isdigit c" using show_nat_digits by blast
  moreover obtain c s where cs: "show_nat n = c # s" using show_nat_not_Nil [of n] by (cases "show_nat n") auto
  ultimately have "isdigit c" by simp
  then have "\<not> isspace c" "c \<noteq> CHR ''-''" "c \<noteq> CHR ''+''" by (auto simp: ctype_defs)
  then show ?thesis
    using assms strtol10_show [of n r] \<open>isdigit c\<close> unfolding scan_d_def Let_def by (simp add: cs to_int32_def)
qed

lemma scan_d_space: "scan_d (CHR '' '' # s) = scan_d s"
  by (simp add: scan_d_def strtol10_def isspace_def Let_def)

subsection \<open>However the request is cut\<close>

lemma strstr_of_part: "strstr (a @ b) n = Some i \<Longrightarrow> i + length n \<le> length a \<Longrightarrow> strstr a n = Some i"
proof -
  assume i: "strstr (a @ b) n = Some i" "i + length n \<le> length a"
  then have p: "prefix n (drop i a @ b)" and least: "\<forall>j<i. \<not> prefix n (drop j (a @ b))"
    by (auto simp: strstr_Some_iff)
  from p have "prefix n (drop i a)" by (rule prefix_append_short) (use i(2) in simp)
  moreover have "\<not> prefix n (drop j a)" if "j < i" for j
  proof
    assume "prefix n (drop j a)"
    then have "prefix n (drop j (a @ b))" using that i(2) by (auto simp: prefix_def)
    with least that show False by blast
  qed
  ultimately show ?thesis using i(2) by (simp add: strstr_Some_iff)
qed

text \<open>The bytes with the blank line at a place, none of them NUL so far.\<close>

definition head_at :: "string \<Rightarrow> nat \<Rightarrow> bool" where
  "head_at t e \<longleftrightarrow> strstr (cstr t) (CRLF @ CRLF) = Some e \<and> NUL \<notin> set (take (e + 4) t) \<and> e + 4 \<le> length t \<and> e + 4 \<le> MAX_HEAD_BYTES"

lemma head_at_found:
  assumes "head_at (h @ u) e" "e + 4 \<le> length h"
  shows "strstr (cstr h) (CRLF @ CRLF) = Some e"
proof -
  let ?s = "take (e + 4) h"
  have nul: "NUL \<notin> set ?s" and t: "h @ u = ?s @ (drop (e + 4) h @ u)" and h: "h = ?s @ drop (e + 4) h"
    using assms by (auto simp: head_at_def)
  have "strstr (?s @ cstr (drop (e + 4) h @ u)) (CRLF @ CRLF) = Some e"
    using assms(1) cstr_append [OF nul] t unfolding head_at_def by metis
  then have "strstr ?s (CRLF @ CRLF) = Some e" by (rule strstr_of_part) (use assms(2) in simp)
  then show ?thesis using strstr_append cstr_append [OF nul] h by metis
qed

lemma head_at_only:
  assumes "head_at (h @ u) e" "strstr (cstr h) (CRLF @ CRLF) = Some i"
  shows "i = e"
proof -
  obtain v where "cstr (h @ u) = cstr h @ v"
  proof (cases "NUL \<in> set h")
    case True
    then have "cstr (h @ u) = cstr h" by (auto simp: cstr_def takeWhile_append1)
    then show ?thesis using that [of "[]"] by simp
  next
    case False
    then show ?thesis using that [of "cstr u"] cstr_append [OF False] cstr_id [OF False] by simp
  qed
  then show ?thesis using assms strstr_append unfolding head_at_def by fastforce
qed

lemma read_head_any_cut:
  "head_at (h @ concat ps) e \<Longrightarrow> strstr (cstr h) (CRLF @ CRLF) = None \<Longrightarrow>
     \<exists>h1 ps1. read_head h ps = Some (h1, e, ps1) \<and> h1 @ concat ps1 = h @ concat ps \<and> e + 4 \<le> length h1"
proof (induction h ps rule: read_head.induct)
  case (1 h ps)
  have short: "length h < e + 4" using head_at_found [OF "1.prems"(1)] "1.prems"(2) by force
  then have go: "\<not> MAX_HEAD_BYTES \<le> length h" using "1.prems"(1) by (simp add: head_at_def)
  show ?case
  proof (cases ps)
    case Nil
    then show ?thesis using "1.prems"(1) short by (simp add: head_at_def)
  next
    case (Cons p ps1)
    define room where "room = MAX_HEAD_BYTES - length h"
    define h1 where "h1 = h @ take room p"
    define ps2 where "ps2 = (if length p \<le> room then ps1 else drop room p # ps1)"
    have same: "h1 @ concat ps2 = h @ concat ps" using Cons by (simp add: h1_def ps2_def)
    have step: "read_head h ps = (case strstr (cstr h1) (CRLF @ CRLF) of Some e \<Rightarrow> Some (h1, e, ps2) | None \<Rightarrow> read_head h1 ps2)"
      unfolding Cons read_head.simps [of h "p # ps1"] if_not_P [OF go] list.case Let_def
        room_def [symmetric] h1_def [symmetric] ps2_def [symmetric] ..
    show ?thesis
    proof (cases "strstr (cstr h1) (CRLF @ CRLF)")
      case None
      have "\<exists>h2 ps3. read_head h1 ps2 = Some (h2, e, ps3) \<and> h2 @ concat ps3 = h1 @ concat ps2 \<and> e + 4 \<le> length h2"
        using "1.IH" [OF go Cons room_def h1_def ps2_def None] "1.prems"(1) None same by simp
      then show ?thesis using step None same by simp
    next
      case (Some i)
      have at: "head_at (h1 @ concat ps2) e" using "1.prems"(1) same by simp
      from head_at_only [OF at Some] have "i = e" .
      moreover have "length (cstr h1) \<le> length h1" by (simp add: cstr_def length_takeWhile_le)
      ultimately show ?thesis using step Some same strstr_length [OF Some] by simp
    qed
  qed
qed

lemma read_body_any_cut:
  "length got \<le> n \<Longrightarrow> read_body_loop n got ps = (if n \<le> length (got @ concat ps) then Some (take n (got @ concat ps)) else None)"
proof (induction n got ps rule: read_body_loop.induct)
  case (2 n got p ps)
  show ?case
  proof (cases "n \<le> length got")
    case True
    with 2 show ?thesis by simp
  next
    case False
    let ?g = "got @ take (n - length got) p"
    have "length ?g \<le> n" using False by simp
    with 2 False have IH: "read_body_loop n ?g ps = (if n \<le> length (?g @ concat ps) then Some (take n (?g @ concat ps)) else None)" by simp
    show ?thesis
    proof (cases "length p \<le> n - length got")
      case True
      then show ?thesis using IH False by simp
    next
      case F: False
      then have "length ?g = n" using False by simp
      then have "n \<le> length (?g @ concat ps)" "take n (?g @ concat ps) = ?g" by simp_all
      then show ?thesis using IH False F by simp
    qed
  qed
qed simp

subsection \<open>A request of the server is read as it was written\<close>

definition value_ok :: "string \<Rightarrow> bool" where
  "value_ok v \<longleftrightarrow> (\<forall>c\<in>set v. \<not> is_eol c \<and> c \<noteq> NUL)"

lemma value_ok_simps [simp]: "value_ok []" "value_ok (c # s) \<longleftrightarrow> \<not> is_eol c \<and> c \<noteq> NUL \<and> value_ok s"
    "value_ok (s @ t) \<longleftrightarrow> value_ok s \<and> value_ok t"
  by (simp_all add: value_ok_def ball_Un)

definition field_fine :: "HttpHeader \<Rightarrow> bool" where
  "field_fine h \<longleftrightarrow> hkey h \<noteq> [] \<and> value_ok (hkey h) \<and> CHR '':'' \<notin> set (hkey h) \<and> value_ok (hval h)"

lemma header_line_pair: "field_fine h \<Longrightarrow> header_pair (header_line h) = Some (hkey h, dropWhile is_blank (hval h))"
proof -
  assume "field_fine h"
  then have "strchr (hkey h @ CHR '':'' # '' '' @ hval h) (CHR '':'') = Some (length (hkey h))"
    by (intro strchr_here) (simp add: field_fine_def)
  then show ?thesis by (simp add: header_pair_def header_line_def is_blank_def)
qed

lemma header_pairs: "\<forall>h\<in>set hs. field_fine h \<Longrightarrow>
    List.map_filter header_pair (map header_line hs) = map (\<lambda>h. (hkey h, dropWhile is_blank (hval h))) hs"
  by (induction hs) (simp_all add: List.map_filter_simps header_line_pair)

lemma strtok_head:
  assumes "\<forall>w\<in>set ws. w \<noteq> [] \<and> (\<forall>c\<in>set w. \<not> is_eol c)" "ws \<noteq> []" "e + 2 = length (concat (map (\<lambda>w. w @ CRLF) ws))"
  shows "strtok is_eol (take e (concat (map (\<lambda>w. w @ CRLF) ws) @ s)) = ws"
proof -
  obtain vs v where ws: "ws = vs @ [v]" using assms(2) by (cases ws rule: rev_cases) auto
  have "take e (concat (map (\<lambda>w. w @ CRLF) ws) @ s) = concat (map (\<lambda>w. w @ CRLF) vs) @ v"
    using assms(3) by (simp add: ws)
  moreover have "strtok is_eol v = [v]" by (rule strtok_plain) (use assms(1) ws in auto)
  ultimately show ?thesis using strtok_lines [of vs v] assms(1) ws by auto
qed

lemma word_value_ok: "word_ok n w \<Longrightarrow> value_ok w"
  unfolding value_ok_def by (metis word_ok_eol word_ok_def)

lemma request_lines_fine:
  assumes "word_ok 15 m" "word_ok 3071 u" "word_ok 15 p" "\<forall>h\<in>set hs. field_fine h"
  shows "\<forall>w\<in>set (request_lines m u p hs). w \<noteq> [] \<and> value_ok w"
proof -
  have "value_ok m" "value_ok u" "value_ok p" "m \<noteq> []"
    using word_value_ok [OF assms(1)] word_value_ok [OF assms(2)] word_value_ok [OF assms(3)] assms(1) by (simp_all add: word_ok_def)
  then have "value_ok (m @ '' '' @ u @ '' '' @ p)" by simp
  moreover have "value_ok (header_line h) \<and> header_line h \<noteq> []" if "h \<in> set hs" for h
    using assms(4) that by (simp add: field_fine_def header_line_def)
  ultimately show ?thesis using \<open>m \<noteq> []\<close> by (simp add: request_lines_def)
qed

lemma read_request_text:
  assumes w: "word_ok 15 m" "word_ok 3071 u" "word_ok 15 p" and hs: "\<forall>h\<in>set hs. field_fine h" "length hs \<le> BREXT_MAX_HEADERS"
    and room: "length (request_head m u p hs) \<le> MAX_HEAD_BYTES"
    and path: "path = takeWhile (\<lambda>c. c \<noteq> CHR ''?'') u" "length path < 1024" "query = drop (length path + 1) u" "length query < 2048"
    and pairs: "pairs = map (\<lambda>h. (hkey h, dropWhile is_blank (hval h))) hs"
    and body: "header_in pairs ''Content-Length'' = show_nat (length b)" "int (length b) \<le> BREXT_MAX_BODY"
    and cut: "concat ps = request_head m u p hs @ b"
  shows "read_request ps = Some \<lparr>br_method = m, br_path = (if path = [] then ''/'' else path), br_query = query,
     br_headers = pairs, br_body = b\<rparr>"
proof -
  let ?ls = "request_lines m u p hs"
  let ?c = "concat (map (\<lambda>w. w @ CRLF) ?ls)"
  have fine: "\<forall>w\<in>set ?ls. w \<noteq> [] \<and> value_ok w" by (rule request_lines_fine [OF w hs(1)])
  then have ok: "\<forall>w\<in>set ?ls. w \<noteq> [] \<and> (\<forall>c\<in>set w. \<not> is_eol c)" by (auto simp: value_ok_def)
  have ne: "?ls \<noteq> []" by (simp add: request_lines_def)
  have head: "request_head m u p hs = ?c @ CRLF" by (simp add: request_head_def)
  have nul: "NUL \<notin> set (request_head m u p hs)" using fine unfolding head by (auto simp: value_ok_def)
  obtain e where e: "strstr (?c @ CRLF @ cstr b) (CRLF @ CRLF) = Some e" "e + 2 = length ?c"
    using strstr_blank_line [OF ok ne] by blast
  have len: "e + 4 = length (request_head m u p hs)" using e(2) by (simp add: head)
  have at: "head_at ([] @ concat ps) e"
  proof -
    have t: "take (e + 4) (request_head m u p hs @ b) = request_head m u p hs" using len by simp
    have c1: "strstr (cstr (request_head m u p hs @ b)) (CRLF @ CRLF) = Some e"
      unfolding cstr_append [OF nul] using e(1) by (simp add: head)
    have c2: "NUL \<notin> set (take (e + 4) (request_head m u p hs @ b))" unfolding t by (rule nul)
    show ?thesis
      unfolding head_at_def cut append_Nil by (intro conjI c1 c2) (use len room in simp_all)
  qed
  obtain h1 rest where rd: "read_head [] ps = Some (h1, e, rest)" "h1 @ concat rest = request_head m u p hs @ b" "e + 4 \<le> length h1"
    using read_head_any_cut [OF at] cut by (auto simp: cstr_def)
  then obtain b1 where h1: "h1 = request_head m u p hs @ b1" and b1: "b1 @ concat rest = b"
    using len by (metis append_eq_append_conv_if append_eq_conv_conj append_take_drop_id)
  have "take e (cstr h1) = take e (?c @ CRLF @ cstr b1)" unfolding h1 cstr_append [OF nul] by (simp add: head)
  then have toks: "strtok is_eol (take e (cstr h1)) = ?ls" using strtok_head [OF ok ne e(2)] by simp
  have sp: "isspace CHR '' ''" by (simp add: isspace_def)
  have s1: "scan_s 15 (m @ '' '' @ u @ '' '' @ p) = Some (m, '' '' @ u @ '' '' @ p)"
    using scan_s_word [OF w(1), of "'' '' @ u @ '' '' @ p" "[]"] sp by simp
  have s2: "scan_s 3071 ('' '' @ u @ '' '' @ p) = Some (u, '' '' @ p)"
    using scan_s_word [OF w(2), of "'' '' @ p" "'' ''"] sp by simp
  have n: "fst (strtol10 (show_nat (length b))) = int (length b)"
    using strtol10_show [of "length b" "[]"] body(2) by (simp add: BREXT_MAX_BODY_def)
  have bd: "read_body_loop (length b) (take (length b) (drop (e + 4) h1)) rest = Some b"
    unfolding len h1 by (subst read_body_any_cut) (use b1 in auto)
  have tk: "take BREXT_MAX_HEADERS pairs = pairs" using hs(2) by (simp add: pairs)
  show ?thesis
    unfolding read_request_def rd(1) option.case prod.case toks
    using s1 s2 body path tk n bd header_pairs [OF hs(1)]
    by (simp add: request_lines_def Let_def brext_header_def pairs [symmetric])
qed

subsection \<open>What the server sends can be read\<close>

lemma forward_value_ok: "value_ok (forward_value n v)"
  by (auto simp: value_ok_def forward_value_def fit_def split: option.splits dest!: in_set_takeD)

lemma forward_value_length: "0 < n \<Longrightarrow> length (forward_value n v) < n"
  by (simp add: forward_value_def split: option.splits)

lemma forward_target_word: "word_ok 2047 (forward_target t)"
proof -
  let ?v = "map (\<lambda>c. if c = CHR '' '' then CHR ''+'' else c) (forward_value 2048 (Some t))"
  have "\<not> isspace c \<and> c \<noteq> NUL" if "c \<in> set ?v" for c
  proof -
    from that obtain d where d: "d \<in> set (forward_value 2048 (Some t))" "c = (if d = CHR '' '' then CHR ''+'' else d)" by auto
    then have "d \<in> set (map (\<lambda>x. if ord x < 32 \<or> ord x = 127 then CHR '' '' else x) t)"
      unfolding forward_value_def fit_def option.case by (blast dest: in_set_takeD)
    then have "d \<in> (\<lambda>x. if ord x < 32 \<or> ord x = 127 then CHR '' '' else x) ` set t" by simp
    then obtain x where "d = (if ord x < 32 \<or> ord x = 127 then CHR '' '' else x)" by (rule imageE)
    then have "d = CHR '' '' \<or> 32 \<le> ord d" by (auto split: if_splits)
    moreover have "ord d = 32 \<longleftrightarrow> d = CHR '' ''" using ord_inject [of d "CHR '' ''"] by simp
    ultimately have "32 < ord c" using d(2) by (cases "d = CHR '' ''") auto
    then show ?thesis by (auto simp: isspace_def)
  qed
  moreover have "length ?v \<le> 2047" using forward_value_length [of 2048 "Some t"] by simp
  moreover have "word_ok 2047 ''/''" by (simp add: word_ok_def isspace_def)
  ultimately show ?thesis by (simp add: forward_target_def word_ok_def Let_def)
qed

lemma show_hex_chars: "c \<in> set (show_hex n) \<Longrightarrow> 48 \<le> ord c"
proof (induction n rule: show_hex.induct)
  case (1 n)
  have dig: "k < 16 \<Longrightarrow> 48 \<le> ord (if k < 10 then chr (48 + k) else chr (87 + k))" for k :: nat by simp
  from "1.prems" show ?case
    using "1.IH" dig [of n] dig [of "n mod 16"] by (subst (asm) show_hex.simps) (auto simp: Let_def split: if_splits)
qed

lemma value_ok_ord: "\<forall>c\<in>set v. 32 \<le> ord c \<Longrightarrow> value_ok v"
  by (force simp: value_ok_def)

lemma forward_request_id_ok: "value_ok (forward_request_id now seq None) \<and> length (forward_request_id now seq None) \<le> 31"
proof -
  have "\<forall>c\<in>set (show_hex now @ ''-'' @ show_hex seq). 32 \<le> ord c" using show_hex_chars by fastforce
  then have "\<forall>c\<in>set (fit 32 (show_hex now @ ''-'' @ show_hex seq)). 32 \<le> ord c"
    unfolding fit_def by (meson in_set_takeD)
  moreover have "length (fit 32 (show_hex now @ ''-'' @ show_hex seq)) \<le> 31" by (simp add: fit_def)
  ultimately show ?thesis unfolding forward_request_id_def by (simp add: value_ok_ord)
qed

lemma show_nat_ok: "value_ok (show_nat n)"
  by (rule value_ok_ord) (auto dest!: show_nat_digits simp: isdigit_def)

lemma show_int_ok: "value_ok (show_int i)"
  using show_nat_ok by (auto simp: show_int_def value_ok_def)

lemma show_int_len: "\<bar>i\<bar> < 10 ^ 10 \<Longrightarrow> length (show_int i) \<le> 11"
proof -
  assume "\<bar>i\<bar> < 10 ^ 10"
  then have "nat \<bar>i\<bar> < 10 ^ 10" by simp
  then have "length (show_nat (nat \<bar>i\<bar>)) \<le> 10" by (rule length_show_nat) simp
  then show ?thesis by (cases "i < 0") (simp_all add: show_int_def)
qed

text \<open>What the router guarantees of a request it passes on, and the limits of the reader.\<close>

definition request_fine :: "ForwardRequest \<Rightarrow> bool" where
  "request_fine rq \<longleftrightarrow> word_ok 15 (xq_method rq) \<and> xq_request_id rq = None \<and> \<bar>xq_epoch rq\<bar> < 10 ^ 10
     \<and> length (takeWhile (\<lambda>c. c \<noteq> CHR ''?'') (forward_target (xq_target rq))) < 1024
     \<and> (\<forall>b. xq_body rq = Some b \<longrightarrow> int (length b) \<le> BREXT_MAX_BODY)"

definition told :: "nat \<Rightarrow> string \<Rightarrow> string" where
  "told n v = dropWhile is_blank (forward_value n (Some v))"

definition body_of :: "ForwardRequest \<Rightarrow> string" where
  "body_of rq = (case xq_body rq of None \<Rightarrow> [] | Some b \<Rightarrow> b)"

text \<open>The request an extension reads.\<close>

definition as_told :: "nat \<Rightarrow> nat \<Rightarrow> ForwardRequest \<Rightarrow> BrextRequest" where
  "as_told now seq rq =
     (let u = forward_target (xq_target rq); path = takeWhile (\<lambda>c. c \<noteq> CHR ''?'') u in
      \<lparr>br_method = xq_method rq, br_path = (if path = [] then ''/'' else path), br_query = drop (length path + 1) u,
       br_headers = map (\<lambda>h. (hkey h, dropWhile is_blank (hval h))) (forward_headers now seq rq), br_body = body_of rq\<rparr>)"

lemma forward_headers_fine: "xq_request_id rq = None \<Longrightarrow> \<forall>h\<in>set (forward_headers now seq rq). field_fine h"
  using forward_value_ok forward_request_id_ok show_int_ok show_nat_ok
  by (simp add: forward_headers_def field_fine_def Let_def)

lemmas name_simps = eq_ci_def tolower_def isupper_def chr_def

lemma told_identity:
  "brext_user_id (as_told now seq rq) = told 64 (xq_user rq)"
  "brext_role (as_told now seq rq) = told 32 (xq_role rq)"
  "brext_mount (as_told now seq rq) = told 128 (xq_mount rq)"
  "brext_user_name (as_told now seq rq) = told 256 (xq_user_name rq)"
  "brext_lang (as_told now seq rq) = told 32 (xq_lang rq)"
  by (simp_all add: brext_user_id_def brext_role_def brext_mount_def brext_user_name_def brext_lang_def
      brext_header_def as_told_def told_def forward_headers_def Let_def name_simps)

lemma told_length:
  "xq_request_id rq = None \<Longrightarrow> header_in (br_headers (as_told now seq rq)) ''Content-Length'' = dropWhile is_blank (show_nat (length (body_of rq)))"
  by (simp add: as_told_def forward_headers_def body_of_def Let_def name_simps split: option.splits)

lemma show_nat_not_blank: "dropWhile is_blank (show_nat n) = show_nat n"
proof -
  obtain c s where cs: "show_nat n = c # s" using show_nat_not_Nil [of n] by (cases "show_nat n") auto
  have "isdigit c" using show_nat_digits [of c n] cs by simp
  then show ?thesis unfolding cs by (auto simp: is_blank_def isdigit_def)
qed

lemma forward_head_length:
  assumes "request_fine rq"
  shows "length (forward_head now seq rq) < 4096"
proof -
  have b: "length (show_nat (length (body_of rq))) \<le> 7"
  proof (rule length_show_nat)
    show "length (body_of rq) < 10 ^ 7"
      using assms by (auto simp: request_fine_def body_of_def BREXT_MAX_BODY_def split: option.splits)
  qed simp
  have bod: "(case xq_body rq of None \<Rightarrow> 0 | Some b \<Rightarrow> length b) = length (body_of rq)"
    by (simp add: body_of_def split: option.splits)
  have v: "length (forward_value 64 (Some (xq_user rq))) < 64" "length (forward_value 32 (Some (xq_role rq))) < 32"
    "length (forward_value 128 (Some (xq_mount rq))) < 128" "length (forward_value 256 (Some (xq_user_name rq))) < 256"
    "length (forward_value 32 (Some (xq_lang rq))) < 32" "length (forward_value 64 (Some (xq_theme rq))) < 64"
    "length (forward_value 256 (xq_content_type rq)) < 256"
    by (rule forward_value_length; simp)+
  have t: "length (forward_target (xq_target rq)) \<le> 2047" "length (xq_method rq) \<le> 15"
    using forward_target_word assms by (simp_all add: word_ok_def request_fine_def)
  have i: "length (forward_request_id now seq (xq_request_id rq)) \<le> 31" "length (show_int (xq_epoch rq)) \<le> 11"
    "length (show_int EXTENSION_PROTOCOL) \<le> 11"
    using assms forward_request_id_ok [of now seq] by (simp_all add: request_fine_def show_int_len EXTENSION_PROTOCOL_def)
  show ?thesis
    using b v t i unfolding forward_head_def request_head_def request_lines_def forward_headers_def bod Let_def
    by (simp add: header_line_def)
qed

lemma request_arrives:
  assumes fine: "request_fine rq" and cut: "concat ps = forward_head now seq rq @ body_of rq"
  shows "read_request ps = Some (as_told now seq rq)"
proof -
  let ?u = "forward_target (xq_target rq)" and ?hs = "forward_headers now seq rq"
  have id: "xq_request_id rq = None" using fine by (simp add: request_fine_def)
  have u: "word_ok 3071 ?u" "length ?u \<le> 2047" using forward_target_word [of "xq_target rq"] by (simp_all add: word_ok_def)
  have "length ?hs \<le> BREXT_MAX_HEADERS" by (simp add: forward_headers_def BREXT_MAX_HEADERS_def Let_def)
  moreover have "word_ok 15 ''HTTP/1.1''" by (simp add: word_ok_def isspace_def)
  moreover have "length (request_head (xq_method rq) ?u ''HTTP/1.1'' ?hs) \<le> MAX_HEAD_BYTES"
    using forward_head_length [OF fine, of now seq] by (simp add: forward_head_def MAX_HEAD_BYTES_def)
  moreover have "int (length (body_of rq)) \<le> BREXT_MAX_BODY"
    using fine by (simp add: request_fine_def body_of_def BREXT_MAX_BODY_def split: option.splits)
  moreover have "header_in (map (\<lambda>h. (hkey h, dropWhile is_blank (hval h))) ?hs) ''Content-Length'' = show_nat (length (body_of rq))"
    using told_length [OF id, of now seq] by (simp add: as_told_def Let_def show_nat_not_blank)
  ultimately show ?thesis
    using read_request_text [OF _ u(1) _ forward_headers_fine [OF id], of "xq_method rq" "''HTTP/1.1''" now seq _ _ _ "body_of rq" ps]
      fine u(2) cut
    by (simp add: as_told_def Let_def request_fine_def forward_head_def)
qed

subsection \<open>What the server sees of an answer\<close>

lemma trim_value_length: "length (trim_value v) \<le> length v"
proof -
  have "length (dropWhile P (rev (dropWhile is_blank v))) \<le> length (dropWhile is_blank v)" for P
    using length_dropWhile_le [of P "rev (dropWhile is_blank v)"] by simp
  then show ?thesis unfolding trim_value_def using length_dropWhile_le [of is_blank v] by (metis length_rev order_trans)
qed

lemma trim_value_line: "trim_value (CHR '' '' # v @ [CR]) = trim_value v"
proof (cases "\<forall>c\<in>set v. is_blank c")
  case True
  then have d: "dropWhile is_blank v = []" by simp
  have "dropWhile is_blank (v @ [CR]) = dropWhile is_blank [CR]" using True by (intro dropWhile_append2) blast
  then have "dropWhile is_blank (CHR '' '' # v @ [CR]) = [CR]" by (simp add: is_blank_def)
  then show ?thesis unfolding trim_value_def d by simp
next
  case False
  then have "dropWhile is_blank (v @ [CR]) = dropWhile is_blank v @ [CR]" by (simp add: dropWhile_append)
  then show ?thesis by (simp add: trim_value_def is_blank_def)
qed

lemma response_hit:
  "response_header ((''Content-Type: '' @ v @ [CR]) # ls) ''Content-Type'' n = fit n (trim_value v)"
  "response_header ((''X-BR-Title: '' @ v @ [CR]) # ls) ''X-BR-Title'' n = fit n (trim_value v)"
  "response_header ((''Location: '' @ v @ [CR]) # ls) ''Location'' n = fit n (trim_value v)"
  using trim_value_line [of v] by (simp_all add: prefix_ci_def)

lemma response_skip:
  "response_header ((''HTTP/1.1 '' @ v) # ls) ''Content-Type'' n = response_header ls ''Content-Type'' n"
  "response_header ((''HTTP/1.1 '' @ v) # ls) ''X-BR-Title'' n = response_header ls ''X-BR-Title'' n"
  "response_header ((''HTTP/1.1 '' @ v) # ls) ''Location'' n = response_header ls ''Location'' n"
  "response_header ((''Content-Type: '' @ v) # ls) ''X-BR-Title'' n = response_header ls ''X-BR-Title'' n"
  "response_header ((''Content-Type: '' @ v) # ls) ''Location'' n = response_header ls ''Location'' n"
  "response_header ((''Content-Length: '' @ v) # ls) ''X-BR-Title'' n = response_header ls ''X-BR-Title'' n"
  "response_header ((''Content-Length: '' @ v) # ls) ''Location'' n = response_header ls ''Location'' n"
  "response_header ((''X-BR-Title: '' @ v) # ls) ''Location'' n = response_header ls ''Location'' n"
  "response_header ((''Location: '' @ v) # ls) ''X-BR-Title'' n = response_header ls ''X-BR-Title'' n"
  "response_header [''Connection: close''] ''X-BR-Title'' n = []"
  "response_header [''Connection: close''] ''Location'' n = []"
  by (simp_all add: prefix_ci_def tolower_def isupper_def chr_def)

lemma trim_value_Nil [simp]: "trim_value [] = []"
  by (simp add: trim_value_def)

lemmas response_fields = response_hit [unfolded append_Cons append_Nil] response_skip [unfolded append_Cons append_Nil]

lemma split_on_lines:
  "\<forall>v\<in>set vs. LF \<notin> set v \<Longrightarrow> LF \<notin> set w \<Longrightarrow>
     split_on LF (concat (map (\<lambda>v. v @ CRLF) vs) @ w) = map (\<lambda>v. v @ [CR]) vs @ [w]"
proof (induction vs)
  case (Cons v vs)
  have "split_on LF ((v @ [CR]) @ LF # (concat (map (\<lambda>v. v @ CRLF) vs) @ w)) = (v @ [CR]) # split_on LF (concat (map (\<lambda>v. v @ CRLF) vs) @ w)"
    by (rule split_on_append) (use Cons.prems in simp)
  then show ?case using Cons by simp
qed (simp add: split_on_no_sep)

definition status_of :: "BrextResponse \<Rightarrow> int" where
  "status_of res = (if bs_status res = 0 then 200 else bs_status res)"

text \<open>An answer that fits the arrays of its record, with a status of HTTP.\<close>

definition response_fine :: "BrextResponse \<Rightarrow> bool" where
  "response_fine res \<longleftrightarrow> \<not> bs_failed res \<and> 100 \<le> status_of res \<and> status_of res \<le> 599 \<and> length (bs_content_type res) < 96
     \<and> length (bs_title res) < 160 \<and> length (bs_location res) < 512 \<and> length (bs_body res) < MAX_RESPONSE_BYTES - 1024"

definition as_seen :: "BrextResponse \<Rightarrow> bool \<Rightarrow> ExtensionResponse" where
  "as_seen res headonly =
     \<lparr>xs_status = status_of res,
      xs_content_type = trim_value (clean_header (if bs_content_type res = [] then ''text/plain'' else bs_content_type res)),
      xs_title = trim_value (clean_header (bs_title res)), xs_location = trim_value (clean_header (bs_location res)),
      xs_body = (if headonly then [] else bs_body res)\<rparr>"

lemma clean_header_ok: "value_ok (clean_header s)"
  by (rule value_ok_ord) (auto simp: clean_header_def)

lemma answer_lines_fine: "\<forall>l\<in>set (answer_lines res). l \<noteq> [] \<and> value_ok l"
  using clean_header_ok show_int_ok show_nat_ok by (auto simp: answer_lines_def Let_def)

lemma clean_header_length [simp]: "length (clean_header s) = length s"
  by (simp add: clean_header_def)

lemma answer_head_length:
  assumes "response_fine res"
  shows "length (answer_head res) < 1024"
proof -
  have "length (show_nat (length (bs_body res))) \<le> 7"
    by (rule length_show_nat) (use assms in \<open>simp_all add: response_fine_def MAX_RESPONSE_BYTES_def\<close>)
  moreover have "length (show_int (status_of res)) \<le> 11" by (rule show_int_len) (use assms in \<open>simp add: response_fine_def\<close>)
  ultimately show ?thesis
    using assms unfolding answer_head_def answer_lines_def Let_def status_of_def [symmetric] response_fine_def by simp
qed

lemma answer_arrives:
  assumes fine: "response_fine res"
  shows "parse_answer (send_response res headonly) = Inr (as_seen res headonly)"
proof -
  let ?ls = "answer_lines res" and ?b = "if headonly then [] else bs_body res"
  let ?c = "concat (map (\<lambda>l. l @ CRLF) ?ls)"
  obtain ws where ws: "?ls = ws @ [''Connection: close'']" and ws_eq: "ws = butlast ?ls" by (simp add: answer_lines_def Let_def)
  have sent: "send_response res headonly = ?c @ CRLF @ ?b"
    using answer_head_length [OF fine] fine by (simp add: send_response_def response_fine_def answer_head_def)
  have ok: "\<forall>l\<in>set ?ls. l \<noteq> [] \<and> (\<forall>c\<in>set l. \<not> is_eol c)" and nul: "NUL \<notin> set (?c @ CRLF)"
    using answer_lines_fine [of res] by (auto simp: value_ok_def)
  have ne: "?ls \<noteq> []" by (simp add: ws)
  have cs: "cstr (?c @ CRLF @ ?b) = ?c @ CRLF @ cstr ?b" using cstr_append [OF nul, of ?b] by simp
  obtain e where e: "strstr (?c @ CRLF @ cstr ?b) (CRLF @ CRLF) = Some e" "e + 2 = length ?c"
    using strstr_blank_line [OF ok ne] by blast
  have "take e (?c @ CRLF @ cstr ?b) = concat (map (\<lambda>l. l @ CRLF) ws) @ ''Connection: close''"
    using e(2) by (simp add: ws)
  moreover have "\<forall>v\<in>set ws. LF \<notin> set v" using ok ws by auto
  ultimately have lines: "split_on LF (take e (?c @ CRLF @ cstr ?b)) = map (\<lambda>v. v @ [CR]) ws @ [''Connection: close'']"
    using split_on_lines [of ws "''Connection: close''"] by simp
  have st: "show_int (status_of res) = show_nat (nat (status_of res))" "nat (status_of res) < 2147483648"
    using fine by (simp_all add: show_int_def response_fine_def nat_less_iff)
  have one: "show_nat 1 = ''1''" by code_simp
  have "\<exists>r. ?c = ''HTTP/1.'' @ show_nat 1 @ '' '' @ show_nat (nat (status_of res)) @ '' X'' @ r"
    unfolding one by (simp add: answer_lines_def Let_def status_of_def [symmetric] st)
  then obtain r where r: "?c = ''HTTP/1.'' @ show_nat 1 @ '' '' @ show_nat (nat (status_of res)) @ '' X'' @ r" ..
  have status: "answer_status (?c @ CRLF @ cstr ?b) = Some (status_of res)"
    using scan_d_show [of 1 "'' '' @ show_nat (nat (status_of res)) @ '' X'' @ r @ CRLF @ cstr ?b"]
      scan_d_show [OF st(2), of "'' X'' @ r @ CRLF @ cstr ?b"] fine
    unfolding r by (simp add: answer_status_def scan_d_space isdigit_def response_fine_def)
  have fits: "fit 128 (trim_value (clean_header (if bs_content_type res = [] then ''text/plain'' else bs_content_type res)))
       = trim_value (clean_header (if bs_content_type res = [] then ''text/plain'' else bs_content_type res))"
    "fit 161 (trim_value (clean_header (bs_title res))) = trim_value (clean_header (bs_title res))"
    "fit 512 (trim_value (clean_header (bs_location res))) = trim_value (clean_header (bs_location res))"
    using fine trim_value_length [of "clean_header (bs_title res)"] trim_value_length [of "clean_header (bs_location res)"]
      trim_value_length [of "clean_header (if bs_content_type res = [] then ''text/plain'' else bs_content_type res)"]
    by (auto intro!: fit_id simp: response_fine_def split: if_splits)
  let ?L = "map (\<lambda>v. v @ [CR]) ws @ [''Connection: close'']"
  have fields: "response_header ?L ''Content-Type'' 128 = xs_content_type (as_seen res headonly)"
    "response_header ?L ''X-BR-Title'' 161 = xs_title (as_seen res headonly)"
    "response_header ?L ''Location'' 512 = xs_location (as_seen res headonly)"
    unfolding ws_eq as_seen_def using fits
    by (cases "clean_header (bs_title res) = []"; cases "clean_header (bs_location res) = []";
        simp add: answer_lines_def Let_def response_fields butlast_append del: response_header.simps)+
  have "drop (e + 4) (?c @ CRLF @ ?b) = ?b" by (rule drop_blank_line(1) [OF e(2)])
  then show ?thesis
    unfolding parse_answer_def sent cs answer_end_def e(1) option.case prod.case status Let_def lines fields
    using fine by (simp add: as_seen_def response_fine_def)
qed

subsection \<open>Both ends together\<close>

text \<open>An extension built with the library behind the socket: the handler, and how the bytes are cut on their way in and out.\<close>

definition brext_wire :: "(BrextRequest \<Rightarrow> BrextResponse) \<Rightarrow> (string \<Rightarrow> string list) \<Rightarrow> (string \<Rightarrow> string list) \<Rightarrow> Wire" where
  "brext_wire handler cut_in cut_out =
     \<lparr>wi_connects = True, wi_sends = True, wi_answer = (\<lambda>bytes. (cut_out (serve_connection handler (cut_in bytes)), True))\<rparr>"

lemma forward_to_brext:
  assumes "forward_running exts name" "request_fine rq" "\<And>s. concat (cut_in s) = s" "\<And>s. concat (cut_out s) = s"
  shows "extensions_forward exts name now seq rq (brext_wire handler cut_in cut_out) =
     (let out = send_response (handler (as_told now seq rq)) (xq_method rq = ''HEAD'')
      in if MAX_RESPONSE_BYTES \<le> length out then Inl (-2) else parse_answer out)"
proof -
  have bytes: "forward_bytes now seq rq = Some (forward_head now seq rq @ body_of rq)"
    using forward_head_length [OF assms(2), of now seq] by (simp add: forward_bytes_def body_of_def)
  have "read_request (cut_in (forward_head now seq rq @ body_of rq)) = Some (as_told now seq rq)"
    by (rule request_arrives [OF assms(2)]) (rule assms(3))
  then have "serve_connection handler (cut_in (forward_head now seq rq @ body_of rq))
      = send_response (handler (as_told now seq rq)) (xq_method rq = ''HEAD'')"
    by (simp add: serve_connection_def as_told_def Let_def)
  then show ?thesis
    using assms(1) bytes by (simp add: extensions_forward_def brext_wire_def recv_loop_any_cut assms(4) Let_def)
qed

text \<open>
  C2. An extension built with the library is told who is asking, whatever the browser sent and
  whatever the names hold: the request it reads has the user, the role and the mount the server
  verified, and the browser's method and body; and its answer arrives as it was given, its header values
  cleaned and trimmed. How either side's bytes are cut into pieces makes no difference.
\<close>

theorem extension_request_answered:
  assumes "forward_running exts name" "request_fine rq" "\<And>s. concat (cut_in s) = s" "\<And>s. concat (cut_out s) = s"
    and fine: "response_fine (handler (as_told now seq rq))"
  shows "extensions_forward exts name now seq rq (brext_wire handler cut_in cut_out) =
      Inr (as_seen (handler (as_told now seq rq)) (xq_method rq = ''HEAD''))
    \<and> read_request (cut_in (forward_head now seq rq @ body_of rq)) = Some (as_told now seq rq)
    \<and> brext_user_id (as_told now seq rq) = told 64 (xq_user rq) \<and> brext_role (as_told now seq rq) = told 32 (xq_role rq)
    \<and> brext_mount (as_told now seq rq) = told 128 (xq_mount rq)
    \<and> br_method (as_told now seq rq) = xq_method rq \<and> br_body (as_told now seq rq) = body_of rq"
proof -
  let ?out = "send_response (handler (as_told now seq rq)) (xq_method rq = ''HEAD'')"
  have "length ?out < MAX_RESPONSE_BYTES"
    using fine answer_head_length [OF fine] by (simp add: send_response_def response_fine_def MAX_RESPONSE_BYTES_def)
  moreover have "parse_answer ?out = Inr (as_seen (handler (as_told now seq rq)) (xq_method rq = ''HEAD''))"
    by (rule answer_arrives [OF fine])
  moreover have "read_request (cut_in (forward_head now seq rq @ body_of rq)) = Some (as_told now seq rq)"
    by (rule request_arrives [OF assms(2)]) (rule assms(3))
  moreover have "br_method (as_told now seq rq) = xq_method rq" "br_body (as_told now seq rq) = body_of rq"
    by (simp_all add: as_told_def Let_def)
  ultimately show ?thesis using forward_to_brext [OF assms(1-4), of now seq handler] told_identity by (simp add: Let_def)
qed

text \<open>An extension that says who is asking, asked by a user whose name holds a line break and a header.\<close>

definition who_handler :: "BrextRequest \<Rightarrow> BrextResponse" where
  "who_handler req = brext_append (brext_user_id req) (brext_html (brext_user_name req) empty_response)"

definition who_asks :: ForwardRequest where
  "who_asks = \<lparr>xq_method = ''GET'', xq_mount = ''/dashboard/ext/notes'', xq_target = ''/who?x=1'', xq_content_type = None, xq_body = None,
     xq_user = ''65a1'', xq_role = ''viewer'', xq_epoch = 3, xq_user_name = ''Eve'' @ CRLF @ ''X-BR-User-Id: 1'',
     xq_lang = ''en'', xq_theme = ''default'', xq_request_id = None\<rparr>"

definition notes_running :: "Extension list" where
  "notes_running = map (\<lambda>e. set_state EXTENSION_RUNNING (e\<lparr>e_pid := 7\<rparr>)) notes_exts"

definition byte_by_byte :: "string \<Rightarrow> string list" where
  "byte_by_byte s = map (\<lambda>c. [c]) s"

theorem extension_request_answered_witness:
  "extensions_forward notes_running ''notes'' 5 1 who_asks (brext_wire who_handler byte_by_byte byte_by_byte) =
     Inr \<lparr>xs_status = 200, xs_content_type = ''text/html; charset=utf-8'', xs_title = ''Eve  X-BR-User-Id: 1'', xs_location = [], xs_body = ''65a1''\<rparr>"
proof -
  have "forward_running notes_running ''notes''" unfolding notes_running_def notes_exts_value by code_simp
  moreover have "request_fine who_asks"
    by (simp add: request_fine_def who_asks_def word_ok_def isspace_def forward_target_def forward_value_def fit_def)
  moreover have "concat (byte_by_byte s) = s" for s by (induction s) (simp_all add: byte_by_byte_def)
  moreover have h: "who_handler (as_told 5 1 who_asks) =
      \<lparr>bs_status = 0, bs_content_type = ''text/html; charset=utf-8'', bs_title = ''Eve  X-BR-User-Id: 1'', bs_location = [], bs_body = ''65a1'', bs_failed = False\<rparr>"
    by code_simp
  moreover from this have "response_fine (who_handler (as_told 5 1 who_asks))"
    by (simp add: response_fine_def status_of_def MAX_RESPONSE_BYTES_def)
  ultimately have "extensions_forward notes_running ''notes'' 5 1 who_asks (brext_wire who_handler byte_by_byte byte_by_byte) =
      Inr (as_seen (who_handler (as_told 5 1 who_asks)) (xq_method who_asks = ''HEAD''))"
    using extension_request_answered [of notes_running "''notes''" who_asks byte_by_byte byte_by_byte who_handler 5 1] by blast
  also have "as_seen (who_handler (as_told 5 1 who_asks)) (xq_method who_asks = ''HEAD'') =
      \<lparr>xs_status = 200, xs_content_type = ''text/html; charset=utf-8'', xs_title = ''Eve  X-BR-User-Id: 1'', xs_location = [], xs_body = ''65a1''\<rparr>"
    unfolding h by code_simp
  finally show ?thesis .
qed

text \<open>An answer of exactly 4 MiB is refused, although the manual allows it.\<close>

lemma answer_of_four_mib:
  "length (concat ps) = MAX_RESPONSE_BYTES \<Longrightarrow> recv_loop 16384 [] ps True = Inl (-2)"
  by (simp add: recv_loop_any_cut)
end
