(* ===== verification/Spec2Isabelle.thy ===== *)
theory Spec2Isabelle
  imports Epoch_Factory Connection Http_Request Multipart Http_Utils Wap_Gateway Markdown_Lite Captcha
    Code_Highlight Css_Compat Config_Loader Comments Router_Read Media_Library Extension_Protocol
begin

text \<open>
  \<^bold>\<open>Boat Rudder\<close> is a web server and content system in C17 that serves browsers of every age,
  from WAP phones to current ones. This development models the code that stands between the
  network and the page modules, and the formats the server writes on its own. Sources are named
  relative to src/src/ of the repository.

  \<^bold>\<open>The parts and how they interact.\<close> The listener (web_server/server_listener.c) accepts
  connections under a cap and a per-address rate limit and starts a thread for each
  (web_server/connection_thread.c). The thread reads an optional PROXY header
  (web_server/proxy_protocol.c) to learn the client's address, reads and parses the request
  (web_server/http_request_parser.c, web_server/utils/url_parser.c,
  web_server/utils/multipart_parser.c), classifies the browser (utils/detect_epoch.c) and hands
  over to the router (web_server/http_router.c). The router settles the language, theme and site of
  the request (utils/request_*.c), looks its cookie up in the collection of sessions
  (db/session_manager.c), and lets a dashboard request on to its handler, or to an extension, only
  after one check of session, role, maintenance mode and CSRF token; pages are rewritten for the
  epoch of the browser (utils/build_epoch_response.c). Answers go through web_server/connection.c, which strips the headers for
  HTTP/0.9 clients. Handlers share the helpers of utils/http_utils.c. The WAP gateway
  (wap_gateway/) receives datagrams of phones, fetches pages from the server over HTTP and
  compiles their WML into WBXML, one page of a deck at a time. A posted comment or reply
  (modules/comments/comments.c) is limited per address, checked against the challenge of its form
  (utils/captcha.c), cleaned, stored, and answered with a redirection; a notice is composed and
  queued for the mail worker (utils/mailer.c). Code blocks of entries are coloured by
  utils/code_highlight.c; style sheets are checked against what an old browser knows
  (utils/css_compat.c); readmes and release notes are shown through utils/markdown_lite.c. The
  configuration all of this starts from is read by utils/config_loader.c.

  \<^bold>\<open>The theories.\<close>
  \<^item> BR_Prelude: bytes, C strings and arrays, the functions of the C library the sources call,
    numbers as text, and the list lemmas all components share (collection \<open>cstring\<close>).
  \<^item> Inet: the address functions of the C library (inet_pton, inet_ntop), both families.
  \<^item> Rate_Limit: tables with one slot per address, and the locale \<open>rate_limiter\<close>, the contract of
    a limiter: what a request of one address does to the others' view. It is interpreted twice, on
    the listener's table (Server_Listener) and on the gateway's (Wap_Gateway), and both get the
    lemma that an address within its limit is never refused, whatever the others do.
  \<^item> Server_Listener: \<open>Server\<close> state, accept_http and accept_https, the ban and the cleanup
    pass, start and stop, and the step relation of the threads; by rule induction over its
    reachable states the counter of connections is the number of live threads and the cap holds.
  \<^item> Proxy_Protocol: parser of versions 1 and 2, the peeking and draining reader over a scripted
    socket, the writer. The reader consumes exactly the header; verdicts are stable; what is
    written is read back.
  \<^item> Connection: write path, result codes, the life of a thread, the trust decision for PROXY
    headers. Every path of a thread gives back its slot; only trusted peers set the client address.
  \<^item> Http_Request and Multipart: parsing of requests, URLs and forms. Round trips with the
    text of a request, bounds of every array, and two theorems on inputs the code misreads.
  \<^item> Escaping and Http_Utils: the locale \<open>bounded_escape\<close> of escapers into a fixed array,
    interpreted on url_encode and html_encode; MIME types, the path check, trusted proxies.
  \<^item> Detect_Epoch and Epoch_Factory: rules, validation and classification of browsers, the factory
    rules of the source and its own test cases, and the active rule set under its lock. The first
    matching rule and its highest reached tier decide; an invalid set never becomes active.
  \<^item> Wbxml, Wbxml_Pages and Wml_Text: the tolerant WML reader with its stack of 64 elements,
    the compiler with its tables of codes, pagination, page links, and WML as text. A reader of
    the binary format recovers the tree; every page fits its limit and no word is lost; the
    packing loop ends; written WML reads back.
  \<^item> Wap_Gateway: framings of datagrams, requests, the fetch with redirects, the rate limit,
    replies. Every datagram is handled within defined behaviour but for one kind of URI; replies
    go, in the frame of the request, only to well-framed requests of senders within their limit.
  \<^item> Markdown_Lite: the whole renderer; its output passes a strict reader of HTML.
  \<^item> Image_Codec and Image_Gif: CRC-32, Adler-32, PNG, WBMP and GIF writers, each read back by a
    decoder written from the format (for GIF a general LZW decoder).
  \<^item> Captcha_Image and Captcha: the seeded drawing in the state monad of its generator, text art
    and WBMP pictures, tokens, macs and answers.

  \<^item> Html_Text: what a browser shows of a piece of markup; used for code blocks and comments.
  \<^item> Code_Highlight: the scanner of every language, the writer with line numbers and its two
    styles (spans, and fonts for old browsers). What is shown is the source, and spans never nest.
  \<^item> Text_Utils: replacement of a substring, slugs, JSON escaping. Replacement is one pass where the
    replacement does not hold the pattern, and never returns where it does and the pattern occurs.
  \<^item> Config_Loader: the reader of the configuration and of the directory of sites; every field of
    the result is in its range, whatever the file holds.
  \<^item> Css_Compat: tokens of a style sheet and the findings per epoch.
  \<^item> Comment_Text, Mailer and Comments: cleaning and rendering of comments; the mail queue with
    its claims, retries and the loop of its sender, which is bounded by the attempts left; the handlers of posts and replies over a record of the calls
    they make (database, templates, time). Nothing is stored unless every check passed; each outcome has
    one answer; a message of the queue reads back as composed.
  \<^item> Session: tokens, cookies, CSRF tokens and the collection of sessions with its two indexes; the
    check of a password. The collection refines a map from tokens to users under every history of
    sign-ins, look-ups and sign-outs; the driver and the hash are arguments with their laws.
  \<^item> Request_Context: the values of one request (language, theme, user, site, charset, line
    numbers, WML page), all bounded to what is configured; the reader of cookies.
  \<^item> Epoch_Response: links that carry the session or the theme, entities, WML repairs, Latin-1, and
    the headers of each kind of response. Rewriting stays within the array counted for it and
    changes only the links; what a client receives is well framed.
  \<^item> Router_Forms: headers, form fields, id routes, theme assets, favicons and colors of the router.
  \<^item> Router_Guard: roles, the check in front of every dashboard route, its refusals, maintenance
    mode, and the call of an extension behind it.
  \<^item> Router_Read: the reader of heads and bodies over a scripted socket, its refusals, and the
    address of the client. Any cut of a request with a Content-Length reads as the same request (on plain
    connections if no pause ends its head); only a trusted proxy chooses the recorded address. A head
    larger than the buffer is routed on a plain connection, against the documents.
  \<^item> Media_Files and Media_Library: names and files of images, the collections of the media library
    (db/cms_media.c) and the six requests that change it, behind the check. An author reaches only the own
    part; an upload is stored under a plain, free name, adds its five files, and deleting it removes exactly
    these, but for names that hold \<open>_full\<close>.
  \<^item> Extensions: manifests, the registry a scan keeps, and the supervisor of the programs a site runs
    (extensions/extensions.c) as a step relation over registry and processes. No extension ever has two
    processes, stopping leaves none, and one that keeps ending is restarted a bounded number of times.
  \<^item> Extension_Wire, Extension_Sdk and Extension_Protocol: the request sent to an extension and the reading
    of its answer, the library an extension links (sdk/brext.c), and the two together: what one side
    writes the other reads, however the bytes are cut, and no value can pass for a header.
  \<^item> Spec2Isabelle itself: from the dashboard's check to the extension's handler. The program is told the
    user and role of the check.

  \<^bold>\<open>How code is rendered.\<close> A struct is a record, an enum a datatype, a char one byte, a
  NUL-terminated string the list of its bytes. Counters whose wrap-around matters are words.
  Undefined behaviour (a read or write outside an array) and results that are never produced are the
  value None of an option, and theorems say when it does not occur. What is not code of the
  repository is an argument: system calls and what a socket delivers, the clock, realpath,
  libsodium (a record of functions with its documented laws as \<open>sodium_ok\<close>), the stream cipher and
  the sine of the drawing, and the page the gateway fetches.

  \<^bold>\<open>Bounds and fuel.\<close> Loops are structural or have a measure. The reader of compiled WBXML used in
  the correctness theorem takes fuel and its theorem says how much is enough. The gateway follows
  at most four hops, as the code does. The loop that draws a line has no bound in the code: it is a
  partial function, and it is proved to end. The loop of str_replace_all may run forever: it is a partial
  function too, and the theorems say for which arguments it returns and for which it never does.

  \<^bold>\<open>Not modelled.\<close> The database layer (db/) but for sessions and media, the other page modules (modules/,
  html_builder/) and the handlers of web_server/http_router.c that call them, whose results are decided
  by MongoDB and by templates on disk; TLS (OpenSSL) and the transport of mail (libcurl); file serving
  beyond its path check; image conversion and QR codes (external libraries); logging and start-up;
  running out of memory. The user-agent labels are next in the plan.
\<close>

section \<open>From the dashboard to an extension\<close>

text \<open>
  The extensions of a running server as the router sees them: the registry of Extensions, and a
  socket behind which a program built with the library of Extension_Sdk answers. The visitor's name,
  language and theme are those of Request_Context.
\<close>

definition extension_services ::
    "Extension list \<Rightarrow> nat \<Rightarrow> nat \<Rightarrow> string \<times> string \<times> string \<Rightarrow> Wire \<Rightarrow> (int \<Rightarrow> string \<Rightarrow> string \<Rightarrow> string option) \<Rightarrow> Extensions" where
  "extension_services exts now seq visitor wire page =
     (case visitor of (user_name, lang, theme) \<Rightarrow>
        \<lparr>ex_get = (\<lambda>n. map_option (\<lambda>i. (ei_title i, ei_enabled i)) (extensions_get n exts)),
         ex_forward = (\<lambda>n rq. extensions_forward exts n now seq
            (ExtensionRequest.extend rq (ForwardRequest.fields user_name lang theme None)) wire),
         ex_page = page\<rparr>)"

definition visitor_request :: "RouteEnv \<Rightarrow> HttpRequest \<Rightarrow> string \<Rightarrow> string \<Rightarrow> string \<Rightarrow> string \<times> string \<times> string \<Rightarrow> ForwardRequest" where
  "visitor_request env req name user role visitor =
     (case visitor of (user_name, lang, theme) \<Rightarrow>
        ExtensionRequest.extend (extension_request env req name user role) (ForwardRequest.fields user_name lang theme None))"

lemma visitor_request_fields:
  "xq_user (visitor_request env req name user role visitor) = user" "xq_role (visitor_request env req name user role visitor) = role"
  "xq_method (visitor_request env req name user role visitor) = req_method req"
  "xq_body (visitor_request env req name user role visitor) = req_body req"
  "xq_epoch (visitor_request env req name user role visitor) = resolve_epoch env req"
  "xq_request_id (visitor_request env req name user role visitor) = None"
  "xq_target (visitor_request env req name user role visitor) = xq_target (extension_request env req name user role)"
  by (simp_all add: visitor_request_def extension_request_def ExtensionRequest.defs ForwardRequest.defs Let_def split: prod.splits)

text \<open>A request the router has read, within the limits of the library: its address, its epoch and its body.\<close>

definition passable :: "RouteEnv \<Rightarrow> HttpRequest \<Rightarrow> bool" where
  "passable env req \<longleftrightarrow> word_ok 15 (req_method req) \<and> length (req_url req) < 1023 \<and> \<bar>resolve_epoch env req\<bar> < 10 ^ 10
     \<and> (\<forall>b. req_body req = Some b \<longrightarrow> int (length b) \<le> BREXT_MAX_BODY)"

lemma passable_fine:
  assumes "passable env req"
  shows "request_fine (visitor_request env req name user role visitor)"
proof -
  let ?t = "xq_target (extension_request env req name user role)"
  have "length ?t \<le> Suc (length (req_url req))"
    by (auto simp: extension_request_def Let_def fit_def)
  moreover have "length (forward_target ?t) \<le> max 1 (length ?t)"
    by (auto simp: forward_target_def forward_value_def fit_def Let_def)
  moreover have "length (req_url req) < 1023" using assms by (simp add: passable_def)
  ultimately have "length (forward_target ?t) < 1024" by linarith
  then have "length (takeWhile (\<lambda>c. c \<noteq> CHR ''?'') (forward_target ?t)) < 1024"
    using length_takeWhile_le le_less_trans by blast
  then show ?thesis using assms by (simp add: request_fine_def visitor_request_fields passable_def)
qed

text \<open>
  C1. What a page of an extension shows depends on the extension only when the dashboard's check let the
  request on and the extension is running; and then the program behind the socket was told exactly the
  user and the role of that check, whatever the browser sent.
\<close>

theorem extension_told_guarded_user:
  assumes differ: "serve_extension env (extension_services exts now seq visitor (brext_wire handler cut_in cut_out) page) req decoded_url
      \<noteq> serve_extension env (extension_services exts now seq visitor (brext_wire other cut_in cut_out) page) req decoded_url"
    and pass: "passable env req" and cuts: "\<And>s. concat (cut_in s) = s" "\<And>s. concat (cut_out s) = s"
  shows "dashboard_allowed env req (resolve_epoch env req) \<and> forward_running exts (ext_name decoded_url)
    \<and> (\<exists>user role rq. g_user (require_dashboard_session_ex env req (resolve_epoch env req)) = Some (user, role)
         \<and> brext_user_id rq = told 64 user \<and> brext_role rq = told 32 role \<and> handler rq \<noteq> other rq)"
proof -
  let ?ex = "extension_services exts now seq visitor (brext_wire handler cut_in cut_out) page"
  let ?fwd = "ex_forward (extension_services exts now seq visitor (brext_wire other cut_in cut_out) page)"
  let ?name = "ext_name decoded_url"
  have "extension_services exts now seq visitor (brext_wire other cut_in cut_out) page = ?ex\<lparr>ex_forward := ?fwd\<rparr>"
    by (simp add: extension_services_def split: prod.splits)
  with differ have "serve_extension env ?ex req decoded_url \<noteq> serve_extension env (?ex\<lparr>ex_forward := ?fwd\<rparr>) req decoded_url" by simp
  from serve_extension_asks [OF this] obtain user role where allowed: "dashboard_allowed env req (resolve_epoch env req)"
    and user: "g_user (require_dashboard_session_ex env req (resolve_epoch env req)) = Some (user, role)"
    and asks: "ex_forward ?ex ?name (extension_request env req ?name user role) \<noteq> ?fwd ?name (extension_request env req ?name user role)"
    by blast
  let ?rq = "visitor_request env req ?name user role visitor"
  have asks': "extensions_forward exts ?name now seq ?rq (brext_wire handler cut_in cut_out)
      \<noteq> extensions_forward exts ?name now seq ?rq (brext_wire other cut_in cut_out)"
    using asks by (simp add: extension_services_def visitor_request_def split: prod.splits)
  have running: "forward_running exts ?name"
    by (rule ccontr) (use asks' in \<open>simp add: extensions_forward_def\<close>)
  note fwd = forward_to_brext [OF running passable_fine [OF pass, of ?name user role visitor] cuts, of now seq]
  have "handler (as_told now seq ?rq) \<noteq> other (as_told now seq ?rq)" using asks' fwd by auto
  then show ?thesis
    using allowed running user told_identity(1,2) [of now seq ?rq] visitor_request_fields(1,2) by metis
qed

text \<open>Two programs of one line each, asked by the administrator of the example of Router_Guard.\<close>

definition says :: "string \<Rightarrow> BrextRequest \<Rightarrow> BrextResponse" where
  "says s req = brext_append s (brext_json empty_response)"

definition notes_get :: HttpRequest where
  "notes_get = example_ext_get\<lparr>req_url := ''/dashboard/ext/notes/list''\<rparr>"

definition notes_services :: "string \<Rightarrow> Extensions" where
  "notes_services t = extension_services notes_running 5 1 (''Ann'', ''en'', ''default'') (brext_wire (says t) byte_by_byte byte_by_byte) (\<lambda>e b c. None)"

lemma concat_byte_by_byte: "concat (byte_by_byte s) = s"
  by (induction s) (simp_all add: byte_by_byte_def)

lemma notes_passable: "passable example_ext_env notes_get"
proof -
  have "word_ok 15 (req_method notes_get)" "length (req_url notes_get) < 1023" "\<bar>resolve_epoch example_ext_env notes_get\<bar> < 10 ^ 10"
    by code_simp+
  moreover have "req_body notes_get = None" by (simp add: notes_get_def example_ext_get_def)
  ultimately show ?thesis by (simp add: passable_def)
qed

lemma says_answer: "length t < 100 \<Longrightarrow> response_fine (says t rq)
    \<and> as_seen (says t rq) False = \<lparr>xs_status = 200, xs_content_type = ''application/json'', xs_title = [], xs_location = [], xs_body = t\<rparr>"
  by (simp add: says_def brext_append_def brext_json_def empty_response_def response_fine_def status_of_def MAX_RESPONSE_BYTES_def
      as_seen_def clean_header_def trim_value_def is_blank_def)

lemma notes_forward:
  assumes "length t < 100"
  shows "ex_forward (notes_services t) ''notes'' (extension_request example_ext_env notes_get ''notes'' user role) =
    Inr \<lparr>xs_status = 200, xs_content_type = ''application/json'', xs_title = [], xs_location = [], xs_body = t\<rparr>"
proof -
  let ?rq = "visitor_request example_ext_env notes_get ''notes'' user role (''Ann'', ''en'', ''default'')"
  have running: "forward_running notes_running ''notes''" unfolding notes_running_def notes_exts_value by code_simp
  have "xq_method ?rq \<noteq> ''HEAD''" by (simp add: visitor_request_fields notes_get_def example_ext_get_def)
  then show ?thesis
    using forward_to_brext [OF running passable_fine [OF notes_passable] concat_byte_by_byte concat_byte_by_byte,
        of 5 1 "''notes''" user role "(''Ann'', ''en'', ''default'')" "says t"]
      answer_arrives [of "says t (as_told 5 1 ?rq)" False] answer_head_length [of "says t (as_told 5 1 ?rq)"]
      says_answer [OF assms, of "as_told 5 1 ?rq"]
    by (simp add: notes_services_def extension_services_def visitor_request_def send_response_def response_fine_def MAX_RESPONSE_BYTES_def Let_def)
qed

lemma notes_answer:
  assumes "length t < 100"
  shows "serve_extension example_ext_env (notes_services t) notes_get ''/dashboard/ext/notes/list'' =
    serve_extension example_ext_env ((notes_services t)\<lparr>ex_forward := (\<lambda>n rq.
      Inr \<lparr>xs_status = 200, xs_content_type = ''application/json'', xs_title = [], xs_location = [], xs_body = t\<rparr>)\<rparr>)
      notes_get ''/dashboard/ext/notes/list''"
proof (rule ccontr)
  have name: "ext_name ''/dashboard/ext/notes/list'' = ''notes''" by code_simp
  assume "\<not> ?thesis"
  from serve_extension_asks [OF this] show False using notes_forward [OF assms] by (simp add: name)
qed

theorem extension_told_guarded_user_witness:
  "forward_running notes_running ''notes''
   \<and> (\<exists>user role rq. g_user (require_dashboard_session_ex example_ext_env notes_get (resolve_epoch example_ext_env notes_get)) = Some (user, role)
        \<and> brext_user_id rq = told 64 user \<and> says ''1'' rq \<noteq> says ''2'' rq)"
proof -
  have "g_writes (serve_extension example_ext_env ((notes_services ''1'')\<lparr>ex_forward := (\<lambda>n rq.
      Inr \<lparr>xs_status = 200, xs_content_type = ''application/json'', xs_title = [], xs_location = [], xs_body = ''1''\<rparr>)\<rparr>) notes_get ''/dashboard/ext/notes/list'')
    \<noteq> g_writes (serve_extension example_ext_env ((notes_services ''2'')\<lparr>ex_forward := (\<lambda>n rq.
      Inr \<lparr>xs_status = 200, xs_content_type = ''application/json'', xs_title = [], xs_location = [], xs_body = ''2''\<rparr>)\<rparr>) notes_get ''/dashboard/ext/notes/list'')"
    unfolding notes_services_def notes_running_def notes_exts_value by code_simp
  then have differ: "serve_extension example_ext_env (notes_services ''1'') notes_get ''/dashboard/ext/notes/list''
      \<noteq> serve_extension example_ext_env (notes_services ''2'') notes_get ''/dashboard/ext/notes/list''"
    unfolding notes_answer [of "''1''", simplified] notes_answer [of "''2''", simplified] by metis
  have "ext_name ''/dashboard/ext/notes/list'' = ''notes''" by code_simp
  then show ?thesis
    using extension_told_guarded_user [OF differ [unfolded notes_services_def] notes_passable concat_byte_by_byte concat_byte_by_byte] by metis
qed

text \<open>An address that spells the name of the extension with an escape: the target is cut at the wrong place.\<close>

lemma encoded_name_shifts_target:
  "xq_target (extension_request example_ext_env (notes_get\<lparr>req_url := ''/dashboard/ext/%6eotes/list''\<rparr>) ''notes'' u r) = ''/es/list''
   \<and> ext_name (url_decode ''/dashboard/ext/%6eotes/list'') = ''notes''"
  by code_simp

end
